(* ===== verification/Prelude.thy ===== *)
theory Prelude
  imports Main "HOL-Library.Sublist" "HOL-Library.Multiset"
begin

text \<open>
  What the TypeScript sources use of the language and of its standard library, shared by
  every component: string predicates, \<^verbatim>\<open>String.split\<close>, \<^verbatim>\<open>String.trim\<close>, decimal printing,
  \<^verbatim>\<open>Array.find\<close>, and \<^verbatim>\<open>Map\<close> with its insertion-ordered iteration.

  Strings are character lists over the ASCII range (host names, header names, tokens and
  file names of this program are ASCII); a JavaScript number that the code only uses as an
  integer (a timestamp, a count, a port, a status code) is an \<^typ>\<open>int\<close> or a \<^typ>\<open>nat\<close>.
  \<^verbatim>\<open>undefined\<close> is \<^const>\<open>None\<close>. A reading of \<^verbatim>\<open>Date.now()\<close> is an argument \<open>now\<close> of type
  \<open>time\<close> (milliseconds).
\<close>

named_theorems js_simps \<open>evaluation of the standard-library operations\<close>
named_theorems js_map_simps \<open>lookup, size and key laws of the ordered map\<close>

type_synonym time = int
type_synonym ('k, 'v) js_map = "('k \<times> 'v) list"

section \<open>Strings\<close>

definition startsWith :: "string \<Rightarrow> string \<Rightarrow> bool" where
  "startsWith s p \<longleftrightarrow> take (length p) s = p"

definition endsWith :: "string \<Rightarrow> string \<Rightarrow> bool" where
  "endsWith s p \<longleftrightarrow> length p \<le> length s \<and> drop (length s - length p) s = p"

fun str_includes :: "string \<Rightarrow> string \<Rightarrow> bool" where
  "str_includes [] p \<longleftrightarrow> p = []"
| "str_includes (c # s) p \<longleftrightarrow> startsWith (c # s) p \<or> str_includes s p"

definition lower_char :: "char \<Rightarrow> char" where
  "lower_char c =
     (let n = (of_char c :: nat) in if 65 \<le> n \<and> n \<le> 90 then char_of (n + 32) else c)"

definition toLowerCase :: "string \<Rightarrow> string" where
  "toLowerCase s = map lower_char s"

definition is_space :: "char \<Rightarrow> bool" where
  "is_space c \<longleftrightarrow> (let n = (of_char c :: nat) in n = 32 \<or> 9 \<le> n \<and> n \<le> 13 \<or> n = 160)"

definition trimStart :: "string \<Rightarrow> string" where
  "trimStart s = dropWhile is_space s"

definition trim :: "string \<Rightarrow> string" where
  "trim s = rev (dropWhile is_space (rev (dropWhile is_space s)))"

text \<open>\<^verbatim>\<open>s.split(c)\<close> for a one-character separator: always at least one piece.\<close>

fun split_on :: "char \<Rightarrow> string \<Rightarrow> string list" where
  "split_on c [] = [[]]"
| "split_on c (x # s) =
     (if x = c then [] # split_on c s
      else case split_on c s of [] \<Rightarrow> [[x]] | w # ws \<Rightarrow> (x # w) # ws)"

fun join_with :: "string \<Rightarrow> string list \<Rightarrow> string" where
  "join_with sep [] = []"
| "join_with sep [w] = w"
| "join_with sep (w # ws) = w @ sep @ join_with sep ws"

text \<open>\<^verbatim>\<open>String(n)\<close> of an integer.\<close>

definition digit_char :: "nat \<Rightarrow> char" where
  "digit_char d = char_of (48 + d)"

fun show_nat :: "nat \<Rightarrow> string" where
  "show_nat n = (if n < 10 then [digit_char n] else show_nat (n div 10) @ [digit_char (n mod 10)])"

declare show_nat.simps [simp del]

definition show_int :: "int \<Rightarrow> string" where
  "show_int i = (if i < 0 then CHR ''-'' # show_nat (nat (- i)) else show_nat (nat i))"

text \<open>\<^verbatim>\<open>Math.ceil(a / b)\<close> for integers and a positive divisor.\<close>

definition ceil_div :: "int \<Rightarrow> int \<Rightarrow> int" where
  "ceil_div a b = - ((- a) div b)"

section \<open>Ordered maps\<close>

text \<open>
  A \<^verbatim>\<open>Map\<close> iterates in insertion order. \<^verbatim>\<open>set\<close> on a present key keeps the key's position,
  on an absent key appends; \<^verbatim>\<open>delete\<close> removes the entry.
\<close>

abbreviation js_get :: "('k, 'v) js_map \<Rightarrow> 'k \<Rightarrow> 'v option" where
  "js_get m k \<equiv> map_of m k"

fun js_set :: "'k \<Rightarrow> 'v \<Rightarrow> ('k, 'v) js_map \<Rightarrow> ('k, 'v) js_map" where
  "js_set k v [] = [(k, v)]"
| "js_set k v ((k', v') # m) = (if k' = k then (k, v) # m else (k', v') # js_set k v m)"

definition js_delete :: "'k \<Rightarrow> ('k, 'v) js_map \<Rightarrow> ('k, 'v) js_map" where
  "js_delete k m = filter (\<lambda>e. fst e \<noteq> k) m"

abbreviation js_has :: "('k, 'v) js_map \<Rightarrow> 'k \<Rightarrow> bool" where
  "js_has m k \<equiv> k \<in> fst ` set m"

abbreviation js_wf :: "('k, 'v) js_map \<Rightarrow> bool" where
  "js_wf m \<equiv> distinct (map fst m)"

text \<open>\<^verbatim>\<open>m.set(k, (m.get(k) ?? 0) + 1)\<close>\<close>

definition js_count :: "('k, nat) js_map \<Rightarrow> 'k \<Rightarrow> nat" where
  "js_count m k = (case js_get m k of None \<Rightarrow> 0 | Some n \<Rightarrow> n)"

definition js_incr :: "'k \<Rightarrow> ('k, nat) js_map \<Rightarrow> ('k, nat) js_map" where
  "js_incr k m = js_set k (js_count m k + 1) m"

section \<open>Facts on strings\<close>

lemma startsWith_prefix: "startsWith s p \<longleftrightarrow> prefix p s"
  by (auto simp: startsWith_def prefix_def) (metis append_take_drop_id)

lemma endsWith_suffix: "endsWith s p \<longleftrightarrow> suffix p s"
  by (auto simp: endsWith_def suffix_def) (metis append_take_drop_id)

lemma includes_sublist: "str_includes s p \<longleftrightarrow> sublist p s"
proof (induction s)
  case Nil
  then show ?case by (auto simp: sublist_def)
next
  case (Cons c s)
  then show ?case by (auto simp: startsWith_prefix sublist_Cons_right)
qed

lemma of_char_less_256: "(of_char c :: nat) < 256"
  by simp

lemma lower_char_idem [simp]: "lower_char (lower_char c) = lower_char c"
proof -
  have "of_char (char_of (n + 32) :: char) = n + 32" if "n \<le> 90" for n :: nat
    using that by (simp add: take_bit_eq_mod)
  then show ?thesis by (auto simp: lower_char_def Let_def)
qed

lemma toLowerCase_idem [simp]: "toLowerCase (toLowerCase s) = toLowerCase s"
  by (simp add: toLowerCase_def o_def)

lemma length_toLowerCase [simp]: "length (toLowerCase s) = length s"
  by (simp add: toLowerCase_def)

lemma split_on_nonempty [simp]: "split_on c s \<noteq> []"
  by (induction s) (auto split: list.splits)

lemma split_on_no_sep: "w \<in> set (split_on c s) \<Longrightarrow> c \<notin> set w"
  by (induction s arbitrary: w) (auto split: list.splits if_splits)

lemma join_with_Cons:
  "ws \<noteq> [] \<Longrightarrow> join_with sep (w # ws) = w @ sep @ join_with sep ws"
  by (cases ws) auto

lemma join_split_on: "join_with [c] (split_on c s) = s"
proof (induction s)
  case Nil
  then show ?case by simp
next
  case (Cons x s)
  obtain w ws where sp: "split_on c s = w # ws"
    by (cases "split_on c s") auto
  show ?case
  proof (cases "x = c")
    case True
    with Cons.IH show ?thesis by (simp add: join_with_Cons)
  next
    case False
    with Cons.IH sp show ?thesis by (cases ws) auto
  qed
qed

lemma split_on_id: "c \<notin> set s \<Longrightarrow> split_on c s = [s]"
  by (induction s) auto

lemma split_on_append: "c \<notin> set w \<Longrightarrow> split_on c (w @ c # s) = w # split_on c s"
  by (induction w) auto

lemma digit_char_code: "d < 10 \<Longrightarrow> (of_char (digit_char d) :: nat) = 48 + d"
  by (simp add: digit_char_def)

lemma show_nat_digits: "x \<in> set (show_nat n) \<Longrightarrow> 48 \<le> (of_char x :: nat) \<and> (of_char x :: nat) \<le> 57"
proof (induction n rule: show_nat.induct)
  case (1 n)
  show ?case
  proof (cases "n < 10")
    case True
    then show ?thesis using 1(2) by (simp add: show_nat.simps [of n] digit_char_code)
  next
    case False
    then have "x \<in> set (show_nat (n div 10)) \<or> x = digit_char (n mod 10)"
      using 1(2) by (subst (asm) show_nat.simps) auto
    then show ?thesis using 1(1) [OF False] by (auto simp: digit_char_code)
  qed
qed

lemma show_int_chars: "x \<in> set (show_int i) \<Longrightarrow> x \<noteq> CHR '' '' \<and> x \<noteq> CHR 0x0A"
  by (auto simp: show_int_def dest!: show_nat_digits split: if_splits)

lemma digit_char_inj: "a < 10 \<Longrightarrow> b < 10 \<Longrightarrow> digit_char a = digit_char b \<Longrightarrow> a = b"
proof -
  assume ab: "a < 10" "b < 10" and eq: "digit_char a = digit_char b"
  have "(of_char (digit_char a) :: nat) = of_char (digit_char b)" using eq by simp
  with ab show "a = b" by (simp add: digit_char_def take_bit_eq_mod)
qed

lemma show_nat_nonempty [simp]: "show_nat n \<noteq> []"
  by (subst show_nat.simps) simp

lemma show_nat_inj: "show_nat a = show_nat b \<Longrightarrow> a = b"
proof (induction a arbitrary: b rule: show_nat.induct)
  case (1 a)
  have small: "a mod 10 < 10" "b mod 10 < 10" by simp_all
  show ?case
  proof (cases "a < 10")
    case True
    then have sa: "show_nat a = [digit_char a]" by (simp add: show_nat.simps [of a])
    have "b < 10"
    proof (rule ccontr)
      assume "\<not> b < 10"
      then have "show_nat b = show_nat (b div 10) @ [digit_char (b mod 10)]"
        by (simp add: show_nat.simps [of b])
      with "1.prems" sa show False by (metis append_eq_Cons_conv append_is_Nil_conv
            list.distinct(1) show_nat_nonempty)
    qed
    with True "1.prems" sa show ?thesis
      by (simp add: show_nat.simps [of b] digit_char_inj)
  next
    case a: False
    then have sa: "show_nat a = show_nat (a div 10) @ [digit_char (a mod 10)]"
      by (simp add: show_nat.simps [of a])
    have b: "\<not> b < 10"
    proof
      assume "b < 10"
      then have "show_nat b = [digit_char b]" by (simp add: show_nat.simps [of b])
      with "1.prems" sa show False by simp
    qed
    then have sb: "show_nat b = show_nat (b div 10) @ [digit_char (b mod 10)]"
      by (simp add: show_nat.simps [of b])
    from "1.prems" sa sb have "show_nat (a div 10) = show_nat (b div 10)"
      and "digit_char (a mod 10) = digit_char (b mod 10)" by simp_all
    with "1.IH" [OF a] small have "a div 10 = b div 10" and "a mod 10 = b mod 10"
      using digit_char_inj [of "a mod 10" "b mod 10"] by blast+
    then show ?thesis by (metis div_mult_mod_eq)
  qed
qed

lemma ceil_div_ge: "0 < b \<Longrightarrow> a \<le> ceil_div a b * b"
proof -
  assume "0 < b"
  then have "(- a) div b * b \<le> - a"
    by (metis div_mult_mod_eq le_add_same_cancel1 pos_mod_sign)
  then show ?thesis by (simp add: ceil_div_def)
qed

lemma ceil_div_less: "0 < b \<Longrightarrow> (ceil_div a b - 1) * b < a"
proof -
  assume b: "0 < b"
  have "- a = (- a) div b * b + (- a) mod b" by simp
  moreover have "(- a) mod b < b" using b by simp
  ultimately have "- a < (- a) div b * b + b" by linarith
  then show ?thesis by (simp add: ceil_div_def algebra_simps)
qed

section \<open>Facts on lists\<close>

lemma find_Some_append:
  "find P xs = Some x \<Longrightarrow> \<exists>ys zs. xs = ys @ x # zs \<and> P x \<and> (\<forall>y \<in> set ys. \<not> P y)"
proof (induction xs)
  case Nil
  then show ?case by simp
next
  case (Cons a xs)
  show ?case
  proof (cases "P a")
    case True
    with Cons.prems show ?thesis by (intro exI [of _ "[]"] exI [of _ xs]) auto
  next
    case False
    with Cons obtain ys zs where "xs = ys @ x # zs" "P x" "\<forall>y \<in> set ys. \<not> P y" by auto
    with False show ?thesis by (intro exI [of _ "a # ys"] exI [of _ zs]) auto
  qed
qed

lemma find_SomeD: "find P xs = Some x \<Longrightarrow> x \<in> set xs \<and> P x"
  by (auto dest: find_Some_append)

lemma find_eq_hd_filter: "find P xs = (case filter P xs of [] \<Rightarrow> None | x # _ \<Rightarrow> Some x)"
  by (induction xs) auto

lemma mset_rotate: "mset (rotate n xs) = mset xs"
  by (metis append_take_drop_id mset_append rotate_drop_take union_commute)

lemma length_filter_snoc:
  "length (filter P (xs @ [x])) = length (filter P xs) + (if P x then 1 else 0)"
  by simp

section \<open>The contract of a dictionary\<close>

text \<open>
  What a client of \<^verbatim>\<open>Map\<close> relies on: lookups after \<^verbatim>\<open>set\<close> and \<^verbatim>\<open>delete\<close>, the size, and
  well-formedness (no key twice).
\<close>

locale dictionary =
  fixes get :: "'m \<Rightarrow> 'k \<Rightarrow> 'v option"
    and put :: "'k \<Rightarrow> 'v \<Rightarrow> 'm \<Rightarrow> 'm"
    and del :: "'k \<Rightarrow> 'm \<Rightarrow> 'm"
    and size_of :: "'m \<Rightarrow> nat"
    and ok :: "'m \<Rightarrow> bool"
  assumes get_put: "get (put k v m) j = (if j = k then Some v else get m j)"
    and get_del: "get (del k m) j = (if j = k then None else get m j)"
    and ok_put: "ok m \<Longrightarrow> ok (put k v m)"
    and ok_del: "ok m \<Longrightarrow> ok (del k m)"
    and size_put: "ok m \<Longrightarrow> size_of (put k v m) = (if get m k = None then Suc (size_of m) else size_of m)"
    and size_del: "ok m \<Longrightarrow> size_of (del k m) = (if get m k = None then size_of m else size_of m - 1)"
    and size_pos: "get m k \<noteq> None \<Longrightarrow> 0 < size_of m"
begin

lemma get_refresh: "get m k = Some v \<Longrightarrow> get (put k v (del k m)) j = get m j"
  by (simp add: get_put get_del)

lemma ok_refresh: "ok m \<Longrightarrow> ok (put k v (del k m))"
  by (intro ok_put ok_del)

lemma size_refresh: "ok m \<Longrightarrow> get m k \<noteq> None \<Longrightarrow> size_of (put k v (del k m)) = size_of m"
  using size_pos [of m k] by (simp add: size_put size_del ok_del get_del)

lemma get_puts:
  "get (fold (\<lambda>(k, v). put k v) es m) j =
     (case map_of (rev es) j of None \<Rightarrow> get m j | Some v \<Rightarrow> Some v)"
  by (induction es arbitrary: m) (auto simp: get_put map_add_def split: option.splits)

lemma ok_puts: "ok m \<Longrightarrow> ok (fold (\<lambda>(k, v). put k v) es m)"
  by (induction es arbitrary: m) (auto intro: ok_put)

end

lemma js_get_set: "js_get (js_set k v m) j = (if j = k then Some v else js_get m j)"
  by (induction m) auto

lemma js_get_delete: "js_get (js_delete k m) j = (if j = k then None else js_get m j)"
  by (induction m) (auto simp: js_delete_def)

lemma js_keys_set: "fst ` set (js_set k v m) = insert k (fst ` set m)"
  by (induction k v m rule: js_set.induct) (simp_all add: insert_commute)

lemma js_keys_delete: "fst ` set (js_delete k m) = fst ` set m - {k}"
  by (auto simp: js_delete_def)

lemma js_wf_set: "js_wf m \<Longrightarrow> js_wf (js_set k v m)"
  by (induction m) (auto simp: js_keys_set)

lemma js_wf_delete: "js_wf m \<Longrightarrow> js_wf (js_delete k m)"
  by (induction m) (auto simp: js_delete_def)

lemma js_delete_absent: "js_get m k = None \<Longrightarrow> js_delete k m = m"
  by (induction m) (auto simp: js_delete_def split: if_splits)

lemma js_set_absent: "js_get m k = None \<Longrightarrow> js_set k v m = m @ [(k, v)]"
  by (induction m) (auto split: if_splits)

lemma js_size_set:
  "length (js_set k v m) = (if js_get m k = None then Suc (length m) else length m)"
  by (induction m) auto

lemma js_size_delete:
  "js_wf m \<Longrightarrow> length (js_delete k m) = (if js_get m k = None then length m else length m - 1)"
proof (induction m)
  case Nil
  then show ?case by (simp add: js_delete_def)
next
  case (Cons e m)
  show ?case
  proof (cases "fst e = k")
    case True
    with Cons.prems have "js_get m k = None" by (auto simp: map_of_eq_None_iff)
    with True show ?thesis using js_delete_absent [of m k] by (cases e) (simp add: js_delete_def)
  next
    case False
    have "js_get m k \<noteq> None \<Longrightarrow> 0 < length m" by auto
    with False Cons show ?thesis
      by (cases e) (auto simp: js_delete_def simp del: length_greater_0_conv)
  qed
qed

interpretation jsm: dictionary js_get js_set js_delete length js_wf
proof unfold_locales
  show "js_wf m \<Longrightarrow> js_wf (js_set k v m)" for m :: "('k, 'v) js_map" and k v
    by (rule js_wf_set)
  show "js_wf m \<Longrightarrow> js_wf (js_delete k m)" for m :: "('k, 'v) js_map" and k
    by (rule js_wf_delete)
  show "js_get m k \<noteq> None \<Longrightarrow> 0 < length m" for m :: "('k, 'v) js_map" and k
    by auto
qed (simp_all add: js_get_set js_get_delete js_size_set js_size_delete)

lemmas [js_map_simps] = js_get_set js_get_delete js_size_set js_keys_set js_keys_delete
lemmas [intro] = js_wf_set js_wf_delete
lemmas [js_simps] = startsWith_def endsWith_def toLowerCase_def lower_char_def trimStart_def
  trim_def is_space_def

section \<open>Counting events\<close>

text \<open>
  Several components keep per-key counters (request metrics, key rotation). Their contract:
  recording an event for a key adds one to that key's count and changes no other count.
\<close>

locale event_counter =
  fixes bump :: "'k \<Rightarrow> 's \<Rightarrow> 's"
    and cnt :: "'s \<Rightarrow> 'k \<Rightarrow> nat"
  assumes cnt_bump: "cnt (bump k s) j = cnt s j + (if j = k then 1 else 0)"
begin

lemma cnt_run: "cnt (fold bump ks s) j = cnt s j + count_list ks j"
  by (induction ks arbitrary: s) (auto simp: cnt_bump)

lemma total_run:
  "finite K \<Longrightarrow> set ks \<subseteq> K \<Longrightarrow> (\<Sum>j\<in>K. cnt (fold bump ks s) j) = (\<Sum>j\<in>K. cnt s j) + length ks"
  by (simp add: cnt_run sum.distrib sum_count_set)

end

interpretation js_counter: event_counter js_incr js_count
  by unfold_locales (simp add: js_incr_def js_count_def js_get_set)

end
