(* ===== verification/Credential_Schema.thy ===== *)
theory Credential_Schema
  imports Prelude
begin

text \<open>
  \<^verbatim>\<open>src/src/proxy/credential-schema.ts\<close>: credential rules, their validation, host matching and
  the selection of the credential a request uses. The zod library is only the interpreter of
  the schema; the constraints the schema lists are the predicates below.
\<close>

section \<open>Data\<close>

record RateLimitRule =
  requests :: nat
  windowSeconds :: nat

record RequestRules =
  rr_methods :: "string list option"
  rr_pathPrefixes :: "string list option"
  rr_maxBodySize :: "int option"

datatype CredentialMethod = Oauth | Api_key

record CredentialRule =
  cr_name :: string
  cr_hostPattern :: string
  cr_header :: string
  cr_value :: string
  cr_values :: "string list option"
  cr_rateLimit :: "RateLimitRule option"
  cr_rules :: "RequestRules option"
  cr_expiresAt :: "int option"
  cr_credentialMethod :: "CredentialMethod option"

record CredentialRules =
  crs_credentials :: "CredentialRule list"
  crs_pinningBypass :: "string list"
  crs_secrets :: "(string, string) js_map"

text \<open>The value of a request header: one string, or several for a repeated header.\<close>

datatype header_value = HStr string | HList "string list"

type_synonym headers = "(string, header_value) js_map"

section \<open>Validation\<close>

definition is_alnum :: "char \<Rightarrow> bool" where
  "is_alnum c \<longleftrightarrow> (let n = (of_char c :: nat)
     in 48 \<le> n \<and> n \<le> 57 \<or> 65 \<le> n \<and> n \<le> 90 \<or> 97 \<le> n \<and> n \<le> 122)"

text \<open>\<^verbatim>\<open>[a-zA-Z0-9]([a-zA-Z0-9-]*[a-zA-Z0-9])?\<close>\<close>

definition host_label :: "string \<Rightarrow> bool" where
  "host_label w \<longleftrightarrow> w \<noteq> [] \<and> is_alnum (hd w) \<and> is_alnum (last w)
     \<and> (\<forall>c \<in> set w. is_alnum c \<or> c = CHR ''-'')"

text \<open>\<^verbatim>\<open>/^(\*\.)?label(\.label)*$/\<close>\<close>

definition hostPattern_regex :: "string \<Rightarrow> bool" where
  "hostPattern_regex p \<longleftrightarrow>
     (let body = (if startsWith p ''*.'' then drop 2 p else p)
      in \<forall>w \<in> set (split_on (CHR ''.'') body). host_label w)"

definition rateLimitSchema :: "RateLimitRule \<Rightarrow> bool" where
  "rateLimitSchema r \<longleftrightarrow> 1 \<le> requests r \<and> 1 \<le> windowSeconds r"

definition requestRulesSchema :: "RequestRules \<Rightarrow> bool" where
  "requestRulesSchema r \<longleftrightarrow>
     pred_option (\<lambda>ms. \<forall>m \<in> set ms. m \<noteq> []) (rr_methods r) \<and>
     pred_option (\<lambda>ps. \<forall>p \<in> set ps. p \<noteq> []) (rr_pathPrefixes r) \<and>
     pred_option (\<lambda>n. 0 \<le> n) (rr_maxBodySize r)"

definition credentialRuleSchema :: "CredentialRule \<Rightarrow> bool" where
  "credentialRuleSchema c \<longleftrightarrow>
     1 \<le> length (cr_name c) \<and> length (cr_name c) \<le> 128 \<and>
     1 \<le> length (cr_hostPattern c) \<and> hostPattern_regex (cr_hostPattern c) \<and>
     1 \<le> length (cr_header c) \<and> length (cr_header c) \<le> 256 \<and>
     1 \<le> length (cr_value c) \<and>
     pred_option (\<lambda>vs. 1 \<le> length vs \<and> (\<forall>v \<in> set vs. v \<noteq> [])) (cr_values c) \<and>
     pred_option rateLimitSchema (cr_rateLimit c) \<and>
     pred_option requestRulesSchema (cr_rules c)"

definition credentialRulesSchema :: "CredentialRules \<Rightarrow> bool" where
  "credentialRulesSchema r \<longleftrightarrow>
     (\<forall>c \<in> set (crs_credentials r). credentialRuleSchema c) \<and>
     (\<forall>h \<in> set (crs_pinningBypass r). h \<noteq> [])"

datatype schema_error = ZodError

definition parseCredentialRules :: "CredentialRules \<Rightarrow> schema_error + CredentialRules" where
  "parseCredentialRules r = (if credentialRulesSchema r then Inr r else Inl ZodError)"

section \<open>Matching and selection\<close>

definition matchesHostPattern :: "string \<Rightarrow> string \<Rightarrow> bool" where
  "matchesHostPattern hostname pattern =
     (if startsWith pattern ''*.'' then
        (let sfx = drop 1 pattern
         in endsWith hostname sfx \<and> length hostname > length sfx)
      else hostname = pattern)"

definition findCredentialForHost :: "string \<Rightarrow> CredentialRule list \<Rightarrow> CredentialRule option" where
  "findCredentialForHost hostname rs =
     find (\<lambda>r. matchesHostPattern hostname (cr_hostPattern r)) rs"

definition findAllCredentialsForHost :: "string \<Rightarrow> CredentialRule list \<Rightarrow> CredentialRule list" where
  "findAllCredentialsForHost hostname rs =
     filter (\<lambda>r. matchesHostPattern hostname (cr_hostPattern r)) rs"

definition filterByCredentialMethod ::
  "CredentialRule list \<Rightarrow> CredentialMethod option \<Rightarrow> CredentialRule list" where
  "filterByCredentialMethod cs activeMethod =
     (case activeMethod of
        None \<Rightarrow> cs
      | Some m \<Rightarrow> filter (\<lambda>c. cr_credentialMethod c = None \<or> cr_credentialMethod c = Some m) cs)"

definition selectCredentialByHeaders ::
  "CredentialRule list \<Rightarrow> headers \<Rightarrow> CredentialRule option" where
  "selectCredentialByHeaders cs requestHeaders =
     (case cs of
        [] \<Rightarrow> None
      | [c] \<Rightarrow> Some c
      | c # _ \<Rightarrow>
          (case find (\<lambda>cred. js_has requestHeaders (toLowerCase (cr_header cred))) cs of
             Some cred \<Rightarrow> Some cred
           | None \<Rightarrow> Some c))"

section \<open>Host matching\<close>

lemma wildcard_suffix: "startsWith p ''*.'' \<Longrightarrow> \<exists>d. p = ''*.'' @ d"
  by (auto simp: startsWith_prefix prefix_def)

lemma matchesHostPattern_wildcard:
  "matchesHostPattern h (''*.'' @ d) \<longleftrightarrow> (\<exists>l. l \<noteq> [] \<and> h = l @ ''.'' @ d)"
  by (auto simp: matchesHostPattern_def startsWith_def endsWith_suffix suffix_def)

lemma matchesHostPattern_exact:
  "\<not> startsWith p ''*.'' \<Longrightarrow> matchesHostPattern h p \<longleftrightarrow> h = p"
  by (simp add: matchesHostPattern_def)

text \<open>
  C1. Host matching is exact, or for \<open>*.d\<close> exactly the hosts that end in \<open>.d\<close> with something
  in front: the apex \<open>d\<close> itself and look-alikes such as \<open>evild\<close> never match.
\<close>
theorem matchesHostPattern_spec:
  "matchesHostPattern h p \<longleftrightarrow>
     (if \<exists>d. p = ''*.'' @ d then \<exists>l d. p = ''*.'' @ d \<and> l \<noteq> [] \<and> h = l @ ''.'' @ d
      else h = p)"
proof (cases "\<exists>d. p = ''*.'' @ d")
  case True
  then obtain d where "p = ''*.'' @ d" by blast
  then show ?thesis using matchesHostPattern_wildcard [of h d] by auto
next
  case False
  then have "\<not> startsWith p ''*.''" using wildcard_suffix by blast
  with False show ?thesis by (auto simp: matchesHostPattern_exact)
qed

lemma findCredentialForHost_hd:
  "findCredentialForHost h rs =
     (case findAllCredentialsForHost h rs of [] \<Rightarrow> None | c # _ \<Rightarrow> Some c)"
  by (simp add: findCredentialForHost_def findAllCredentialsForHost_def find_eq_hd_filter)

lemma findCredentialForHost_SomeD:
  "findCredentialForHost h rs = Some c \<Longrightarrow> c \<in> set rs \<and> matchesHostPattern h (cr_hostPattern c)"
  by (auto simp: findCredentialForHost_def find_Some_iff)

lemma findAll_memD:
  "c \<in> set (findAllCredentialsForHost h rs) \<Longrightarrow> c \<in> set rs \<and> matchesHostPattern h (cr_hostPattern c)"
  by (simp add: findAllCredentialsForHost_def)

lemma filterByCredentialMethod_memD:
  "c \<in> set (filterByCredentialMethod cs m) \<Longrightarrow>
     c \<in> set cs \<and> (m = None \<or> cr_credentialMethod c = None \<or> cr_credentialMethod c = m)"
  by (auto simp: filterByCredentialMethod_def split: option.splits)

lemma selectCredentialByHeaders_None:
  "selectCredentialByHeaders cs hs = None \<longleftrightarrow> cs = []"
  by (auto simp: selectCredentialByHeaders_def split: list.splits option.splits)

lemma selectCredentialByHeaders_mem:
  "selectCredentialByHeaders cs hs = Some c \<Longrightarrow> c \<in> set cs"
  by (auto simp: selectCredentialByHeaders_def simp del: find.simps
      split: list.splits option.splits dest!: find_SomeD)

lemma selectCredentialByHeaders_header:
  assumes "selectCredentialByHeaders cs hs = Some c" "d \<in> set cs"
    and "js_has hs (toLowerCase (cr_header d))"
  shows "js_has hs (toLowerCase (cr_header c))"
  using assms
  by (auto simp: selectCredentialByHeaders_def find_None_iff simp del: find.simps
      split: list.splits option.splits dest!: find_SomeD)

text \<open>
  The credential chosen for an intercepted CONNECT request is one of the configured rules,
  its pattern matches the host, it belongs to the active billing method (or to none), and when
  the agent sent the header of some candidate, it sent the header of the chosen one.
\<close>
theorem selected_credential_legitimate:
  assumes "selectCredentialByHeaders
      (filterByCredentialMethod (findAllCredentialsForHost host rs) active) hs = Some c"
  shows "c \<in> set rs \<and> matchesHostPattern host (cr_hostPattern c) \<and>
    (active = None \<or> cr_credentialMethod c = None \<or> cr_credentialMethod c = active) \<and>
    ((\<exists>d \<in> set (filterByCredentialMethod (findAllCredentialsForHost host rs) active).
        js_has hs (toLowerCase (cr_header d))) \<longrightarrow> js_has hs (toLowerCase (cr_header c)))"
  using assms selectCredentialByHeaders_header [OF assms]
  by (blast dest: selectCredentialByHeaders_mem filterByCredentialMethod_memD findAll_memD)

definition anthropic_oauth_rule :: CredentialRule where
  "anthropic_oauth_rule =
     \<lparr>cr_name = ''anthropic-oauth'', cr_hostPattern = ''api.anthropic.com'',
      cr_header = ''Authorization'', cr_value = ''Bearer t'', cr_values = None,
      cr_rateLimit = None, cr_rules = None, cr_expiresAt = None,
      cr_credentialMethod = Some Oauth\<rparr>"

definition anthropic_key_rule :: CredentialRule where
  "anthropic_key_rule =
     \<lparr>cr_name = ''anthropic-api-key'', cr_hostPattern = ''api.anthropic.com'',
      cr_header = ''x-api-key'', cr_value = ''sk-1'', cr_values = Some [''sk-1'', ''sk-2''],
      cr_rateLimit = Some \<lparr>requests = 2, windowSeconds = 60\<rparr>, cr_rules = None,
      cr_expiresAt = None, cr_credentialMethod = Some Api_key\<rparr>"

lemmas example_rules = anthropic_oauth_rule_def anthropic_key_rule_def

theorem selected_credential_legitimate_witness:
  "cr_credentialMethod anthropic_key_rule = Some Api_key \<and>
   matchesHostPattern ''api.anthropic.com'' (cr_hostPattern anthropic_key_rule)"
proof -
  have "selectCredentialByHeaders
      (filterByCredentialMethod
        (findAllCredentialsForHost ''api.anthropic.com'' [anthropic_oauth_rule, anthropic_key_rule])
        (Some Api_key)) [(''x-api-key'', HStr ''placeholder'')] = Some anthropic_key_rule"
    by code_simp
  from selected_credential_legitimate [OF this] show ?thesis
    by (simp add: anthropic_key_rule_def)
qed

end
