(* ===== verification/Sliding_Window.thy ===== *)
theory Sliding_Window
  imports Prelude
begin

text \<open>
  The contract that the two rate limiters of the program share (the proxy's per-credential
  limiter and the auth bridge's per-address and global limiters), and what a client gets from
  it: whatever the interleaving of keys and of housekeeping, no window of the configured
  length ever holds more admitted requests of a key than the configured limit.

  An attempt reads the clock up to twice, once to decide and once to record, because the
  proxy's \<^verbatim>\<open>RateLimiter.consume\<close> does; \<open>stamp\<close> says which of the two readings is recorded.
\<close>

datatype 'k wevent = Attempt 'k time time | Maintain time

fun admitted ::
  "('k \<Rightarrow> time \<Rightarrow> time \<Rightarrow> 's \<Rightarrow> bool \<times> 's) \<Rightarrow> (time \<Rightarrow> 's \<Rightarrow> 's) \<Rightarrow> (time \<Rightarrow> time \<Rightarrow> time)
     \<Rightarrow> 's \<Rightarrow> 'k wevent list \<Rightarrow> ('k \<times> time) list" where
  "admitted att mnt stamp s [] = []"
| "admitted att mnt stamp s (Attempt k a b # es) =
     (let r = att k a b s
      in (if fst r then [(k, stamp a b)] else []) @ admitted att mnt stamp (snd r) es)"
| "admitted att mnt stamp s (Maintain n # es) = admitted att mnt stamp (mnt n s) es"

text \<open>The clock never goes back: each reading is at least the one before it.\<close>

fun clock_ok :: "time \<Rightarrow> 'k wevent list \<Rightarrow> bool" where
  "clock_ok t [] \<longleftrightarrow> True"
| "clock_ok t (Attempt k a b # es) \<longleftrightarrow> t \<le> a \<and> a \<le> b \<and> clock_ok b es"
| "clock_ok t (Maintain n # es) \<longleftrightarrow> t \<le> n \<and> clock_ok n es"

definition window_count :: "int \<Rightarrow> time \<Rightarrow> 'k \<Rightarrow> ('k \<times> time) list \<Rightarrow> nat" where
  "window_count w t k adm = length (filter (\<lambda>e. fst e = k \<and> t - w < snd e \<and> snd e \<le> t) adm)"

definition times_of :: "'k \<Rightarrow> ('k \<times> time) list \<Rightarrow> time list" where
  "times_of k adm = map snd (filter (\<lambda>e. fst e = k) adm)"

lemma times_of_append [simp]: "times_of k (xs @ ys) = times_of k xs @ times_of k ys"
  by (simp add: times_of_def)

lemma times_of_single [simp]: "times_of k [(j, t)] = (if j = k then [t] else [])"
  by (simp add: times_of_def)

lemma times_of_Nil [simp]: "times_of k [] = []"
  by (simp add: times_of_def)

lemma window_count_times:
  "window_count w t k adm = length (filter (\<lambda>x. t - w < x \<and> x \<le> t) (times_of k adm))"
  by (induction adm) (auto simp: window_count_def times_of_def)

lemma filter_window_shrink:
  fixes a b w :: int
  assumes "a \<le> b"
  shows "filter (\<lambda>t. b - w < t) (filter (\<lambda>t. a - w < t) xs) = filter (\<lambda>t. b - w < t) xs"
  using assms by (induction xs) auto

locale sliding_window =
  fixes att :: "'k \<Rightarrow> time \<Rightarrow> time \<Rightarrow> 's \<Rightarrow> bool \<times> 's"
    and mnt :: "time \<Rightarrow> 's \<Rightarrow> 's"
    and stamp :: "time \<Rightarrow> time \<Rightarrow> time"
    and hits :: "'s \<Rightarrow> 'k \<Rightarrow> time list"
    and known :: "'k set"
    and limit :: "'k \<Rightarrow> nat"
    and window :: "'k \<Rightarrow> int"
    and ok :: "'s \<Rightarrow> bool"
  assumes verdict: "ok s \<Longrightarrow> k \<in> known \<Longrightarrow>
        fst (att k a b s) \<longleftrightarrow> length (filter (\<lambda>t. a - window k < t) (hits s k)) < limit k"
    and recorded: "ok s \<Longrightarrow> k \<in> known \<Longrightarrow>
        hits (snd (att k a b s)) k =
          filter (\<lambda>t. a - window k < t) (hits s k) @ (if fst (att k a b s) then [stamp a b] else [])"
    and stamp_ge: "a \<le> b \<Longrightarrow> a \<le> stamp a b"
    and stamp_le: "a \<le> b \<Longrightarrow> stamp a b \<le> b"
    and frame: "ok s \<Longrightarrow> j \<in> known \<Longrightarrow> j \<noteq> k \<Longrightarrow> hits (snd (att k a b s)) j = hits s j"
    and ok_att: "ok s \<Longrightarrow> ok (snd (att k a b s))"
    and maintained: "ok s \<Longrightarrow> j \<in> known \<Longrightarrow>
        filter (\<lambda>t. n - window j < t) (hits (mnt n s) j) = filter (\<lambda>t. n - window j < t) (hits s j)"
    and ok_mnt: "ok s \<Longrightarrow> ok (mnt n s)"
begin

text \<open>
  What the state knows about the history \<open>H\<close> of a key at time \<open>now\<close>: every entry a later
  decision can still see is stored, and no window of the history is over the limit.
\<close>

definition tracks :: "'k \<Rightarrow> time \<Rightarrow> 's \<Rightarrow> time list \<Rightarrow> bool" where
  "tracks k now s H \<longleftrightarrow> ok s \<and> (\<forall>x \<in> set H. x \<le> now) \<and>
     (\<forall>t \<ge> now. filter (\<lambda>x. t - window k < x) (hits s k) = filter (\<lambda>x. t - window k < x) H) \<and>
     (\<forall>t. length (filter (\<lambda>x. t - window k < x \<and> x \<le> t) H) \<le> limit k)"

lemma tracks_start: "ok s \<Longrightarrow> hits s k = [] \<Longrightarrow> tracks k now s []"
  by (simp add: tracks_def)

lemma tracks_maintain:
  assumes "tracks k now s H" "k \<in> known" "now \<le> n"
  shows "tracks k n (mnt n s) H"
proof -
  have "filter (\<lambda>x. t - window k < x) (hits (mnt n s) k) = filter (\<lambda>x. t - window k < x) H"
    if "n \<le> t" for t
  proof -
    have "filter (\<lambda>x. t - window k < x) (hits (mnt n s) k) =
        filter (\<lambda>x. t - window k < x) (filter (\<lambda>x. n - window k < x) (hits (mnt n s) k))"
      using that by (simp only: filter_window_shrink)
    also have "\<dots> = filter (\<lambda>x. t - window k < x) (hits s k)"
      using assms that by (simp only: maintained [of s k n] tracks_def filter_window_shrink)
    finally show ?thesis using assms that by (simp add: tracks_def)
  qed
  with assms show ?thesis by (fastforce simp: tracks_def ok_mnt)
qed

lemma tracks_other:
  assumes "tracks k now s H" "k \<in> known" "j \<noteq> k" "now \<le> b"
  shows "tracks k b (snd (att j a b s)) H"
  using assms frame [of s k j a b] by (fastforce simp: tracks_def ok_att)

lemma tracks_reject:
  assumes tr: "tracks k now s H" and "k \<in> known" "now \<le> a" "a \<le> b" "\<not> fst (att k a b s)"
  shows "tracks k b (snd (att k a b s)) H"
proof -
  have "filter (\<lambda>x. t - window k < x) (hits (snd (att k a b s)) k) = filter (\<lambda>x. t - window k < x) H"
    if "b \<le> t" for t
  proof -
    have "filter (\<lambda>x. t - window k < x) (hits (snd (att k a b s)) k) =
        filter (\<lambda>x. t - window k < x) (hits s k)"
      using assms that by (simp add: recorded tracks_def filter_window_shrink
          del: filter_filter)
    with assms that show ?thesis by (simp add: tracks_def)
  qed
  with assms show ?thesis by (fastforce simp: tracks_def ok_att)
qed

lemma tracks_admit_bound:
  assumes tr: "tracks k now s H" and k: "k \<in> known" and "now \<le> a" "a \<le> b" "fst (att k a b s)"
  shows "length (filter (\<lambda>x. t - window k < x \<and> x \<le> t) (H @ [stamp a b])) \<le> limit k"
proof (cases "t - window k < stamp a b \<and> stamp a b \<le> t")
  case True
  have "length (filter (\<lambda>x. t - window k < x \<and> x \<le> t) H) \<le> length (filter (\<lambda>x. a - window k < x) H)"
  proof -
    have "filter (\<lambda>x. t - window k < x \<and> x \<le> t) H =
        filter (\<lambda>x. t - window k < x \<and> x \<le> t) (filter (\<lambda>x. a - window k < x) H)"
      using True assms stamp_ge [of a b] by (simp, intro filter_cong) auto
    then show ?thesis by (simp only: length_filter_le)
  qed
  also have "\<dots> = length (filter (\<lambda>x. a - window k < x) (hits s k))"
    using assms by (simp add: tracks_def)
  also have "\<dots> < limit k" using assms verdict [of s k a b] by (simp add: tracks_def)
  finally show ?thesis using True by simp
next
  case False
  then show ?thesis using tr by (auto simp: tracks_def)
qed

lemma tracks_admit:
  assumes tr: "tracks k now s H" and k: "k \<in> known" and "now \<le> a" "a \<le> b" "fst (att k a b s)"
  shows "tracks k b (snd (att k a b s)) (H @ [stamp a b])"
proof -
  have "filter (\<lambda>x. t - window k < x) (hits (snd (att k a b s)) k) =
      filter (\<lambda>x. t - window k < x) (H @ [stamp a b])" if "b \<le> t" for t
    using assms that by (simp add: recorded tracks_def filter_window_shrink del: filter_filter)
  moreover have "\<forall>x \<in> set (H @ [stamp a b]). x \<le> b" using assms stamp_le [of a b] by (fastforce simp: tracks_def)
  ultimately show ?thesis
    using assms tracks_admit_bound [OF assms] by (simp add: tracks_def ok_att del: filter_append)
qed

lemma tracks_run:
  assumes "tracks k now s (times_of k H)" "k \<in> known" "clock_ok now es"
  shows "window_count (window k) t k (H @ admitted att mnt stamp s es) \<le> limit k"
  using assms
proof (induction es arbitrary: now s H)
  case Nil
  then show ?case by (simp add: window_count_times tracks_def)
next
  case (Cons e es)
  show ?case
  proof (cases e)
    case (Attempt j a b)
    let ?s' = "snd (att j a b s)"
    let ?H' = "H @ (if fst (att j a b s) then [(j, stamp a b)] else [])"
    have "tracks k b ?s' (times_of k ?H')"
    proof (cases "j = k")
      case True
      with Attempt Cons.prems show ?thesis
        by (cases "fst (att k a b s)") (auto intro: tracks_admit tracks_reject)
    next
      case False
      with Attempt Cons.prems show ?thesis
        by (auto intro!: tracks_other)
    qed
    with Attempt Cons.prems Cons.IH [of b ?s' ?H'] show ?thesis
      by (simp add: Let_def split: if_splits)
  next
    case (Maintain n)
    with Cons.prems have "tracks k n (mnt n s) (times_of k H)"
      by (auto intro: tracks_maintain)
    with Maintain Cons.prems Cons.IH [of n "mnt n s" H] show ?thesis by simp
  qed
qed

theorem window_bound:
  assumes "ok s" "k \<in> known" "hits s k = []" "clock_ok now es"
  shows "window_count (window k) t k (admitted att mnt stamp s es) \<le> limit k"
  using tracks_run [of k now s "[]" es t] tracks_start [of s k now] assms by simp

text \<open>A rejected key is admitted again once the oldest visible entry has left the window.\<close>

theorem retry_admits:
  assumes "ok s" "k \<in> known" "length (hits s k) \<le> limit k" "hits s k = x # xs"
    and "x + window k \<le> a"
  shows "fst (att k a b s)"
proof -
  have "length (filter (\<lambda>t. a - window k < t) (x # xs)) \<le> length xs"
    using assms(5) by simp
  also have "\<dots> < limit k" using assms(3,4) by simp
  finally show ?thesis using assms verdict by simp
qed

end

end
