(* ===== verification/Proxy_Rate_Limiter.thy ===== *)
theory Proxy_Rate_Limiter
  imports Credential_Schema Sliding_Window
begin

text \<open>
  \<^verbatim>\<open>src/src/proxy/rate-limiter.ts\<close>: the per-credential sliding-window limiter of the proxy,
  and \<^verbatim>\<open>buildRateLimiter\<close> of \<^verbatim>\<open>src/src/proxy/main.ts\<close>. Its state is the \<^verbatim>\<open>windows\<close> map. The
  limiter is an instance of the sliding-window contract.
\<close>

record WindowEntry =
  timestamps :: "time list"
  we_rule :: RateLimitRule

type_synonym RateLimiter = "(string, WindowEntry) js_map"

text \<open>\<open>None\<close> as the number of remaining requests is \<^verbatim>\<open>Infinity\<close>.\<close>

record RateLimitResult =
  allowed :: bool
  remaining :: "nat option"
  retryAfterMs :: int

definition register :: "string \<Rightarrow> RateLimitRule \<Rightarrow> RateLimiter \<Rightarrow> RateLimiter" where
  "register credentialName rl lim = js_set credentialName \<lparr>timestamps = [], we_rule = rl\<rparr> lim"

definition windowMs :: "RateLimitRule \<Rightarrow> int" where
  "windowMs rl = int (windowSeconds rl) * 1000"

definition evict :: "time \<Rightarrow> WindowEntry \<Rightarrow> WindowEntry" where
  "evict currentTime e =
     e\<lparr>timestamps := filter (\<lambda>t. t > currentTime - windowMs (we_rule e)) (timestamps e)\<rparr>"

definition check :: "string \<Rightarrow> time \<Rightarrow> RateLimiter \<Rightarrow> RateLimitResult \<times> RateLimiter" where
  "check credentialName currentTime lim =
     (case js_get lim credentialName of
        None \<Rightarrow> (\<lparr>allowed = True, remaining = None, retryAfterMs = 0\<rparr>, lim)
      | Some entry \<Rightarrow>
          (let e = evict currentTime entry;
               lim' = js_set credentialName e lim
           in if length (timestamps e) \<ge> requests (we_rule e) then
                (let oldestInWindow = (case timestamps e of [] \<Rightarrow> currentTime | t # _ \<Rightarrow> t);
                     wait = oldestInWindow + windowMs (we_rule e) - currentTime
                 in (\<lparr>allowed = False, remaining = Some 0, retryAfterMs = max 0 wait\<rparr>, lim'))
              else
                (\<lparr>allowed = True,
                  remaining = Some (requests (we_rule e) - length (timestamps e)),
                  retryAfterMs = 0\<rparr>, lim')))"

definition record_request :: "string \<Rightarrow> time \<Rightarrow> RateLimiter \<Rightarrow> RateLimiter" where
  "record_request credentialName now lim =
     (case js_get lim credentialName of
        None \<Rightarrow> lim
      | Some entry \<Rightarrow>
          js_set credentialName (entry\<lparr>timestamps := timestamps entry @ [now]\<rparr>) lim)"

text \<open>
  \<^verbatim>\<open>consume(name)\<close> without an explicit time reads \<^verbatim>\<open>Date.now()\<close> in \<^verbatim>\<open>check\<close> and again in
  \<^verbatim>\<open>record\<close>: the two readings are \<open>checkNow\<close> and \<open>recordNow\<close>.
\<close>

definition consume :: "string \<Rightarrow> time \<Rightarrow> time \<Rightarrow> RateLimiter \<Rightarrow> RateLimitResult \<times> RateLimiter" where
  "consume credentialName checkNow recordNow lim =
     (let (result, lim1) = check credentialName checkNow lim
      in if allowed result then (result, record_request credentialName recordNow lim1)
         else (result, lim1))"

definition reset :: "RateLimiter \<Rightarrow> RateLimiter" where
  "reset lim = map (\<lambda>(k, e). (k, e\<lparr>timestamps := []\<rparr>)) lim"

definition stats :: "string \<Rightarrow> time \<Rightarrow> RateLimiter \<Rightarrow> (nat \<times> nat \<times> nat) option" where
  "stats credentialName now lim =
     map_option (\<lambda>entry.
       (length (filter (\<lambda>t. t > now - windowMs (we_rule entry)) (timestamps entry)),
        requests (we_rule entry), windowSeconds (we_rule entry)))
     (js_get lim credentialName)"

definition buildRateLimiter :: "CredentialRule list \<Rightarrow> RateLimiter" where
  "buildRateLimiter cs =
     fold (\<lambda>cred lim. case cr_rateLimit cred of
             None \<Rightarrow> lim | Some rl \<Rightarrow> register (cr_name cred) rl lim) cs []"

section \<open>The limiter meets the sliding-window contract\<close>

definition consume_step :: "string \<Rightarrow> time \<Rightarrow> time \<Rightarrow> RateLimiter \<Rightarrow> bool \<times> RateLimiter" where
  "consume_step k a b lim = (allowed (fst (consume k a b lim)), snd (consume k a b lim))"

definition limiter_hits :: "RateLimiter \<Rightarrow> string \<Rightarrow> time list" where
  "limiter_hits lim k = (case js_get lim k of None \<Rightarrow> [] | Some e \<Rightarrow> timestamps e)"

definition ruled :: "(string \<Rightarrow> RateLimitRule option) \<Rightarrow> RateLimiter \<Rightarrow> bool" where
  "ruled rs lim \<longleftrightarrow> (\<forall>k. map_option we_rule (js_get lim k) = rs k)"

definition no_maintenance :: "time \<Rightarrow> RateLimiter \<Rightarrow> RateLimiter" where
  "no_maintenance n lim = lim"

lemmas limiter_defs = consume_step_def consume_def check_def record_request_def evict_def Let_def

lemma consume_unregistered:
  "js_get lim k = None \<Longrightarrow>
     consume k a b lim = (\<lparr>allowed = True, remaining = None, retryAfterMs = 0\<rparr>, lim)"
  by (simp add: limiter_defs)

lemma consume_registered:
  fixes a b :: time
  assumes "js_get lim k = Some e"
  defines "live \<equiv> filter (\<lambda>t. a - windowMs (we_rule e) < t) (timestamps e)"
  shows "allowed (fst (consume k a b lim)) \<longleftrightarrow> length live < requests (we_rule e)"
    and "js_get (snd (consume k a b lim)) j =
      (if j = k then Some (e\<lparr>timestamps := live @
          (if length live < requests (we_rule e) then [b] else [])\<rparr>)
       else js_get lim j)"
  using assms by (auto simp: limiter_defs js_get_set)

lemma js_get_consume_other: "j \<noteq> k \<Longrightarrow> js_get (snd (consume k a b lim)) j = js_get lim j"
  by (cases "js_get lim k") (simp_all add: consume_unregistered consume_registered)

lemma ruled_consume:
  assumes "ruled rs lim"
  shows "ruled rs (snd (consume k a b lim))"
proof (cases "js_get lim k")
  case (Some e)
  with assms have "rs k = Some (we_rule e)" by (metis option.map(2) ruled_def)
  with assms show ?thesis by (simp add: ruled_def consume_registered(2) [OF Some])
qed (use assms in \<open>simp add: consume_unregistered\<close>)

lemma ruled_knownE:
  assumes "ruled rs s" "rs k \<noteq> None"
  obtains e where "js_get s k = Some e" "rs k = Some (we_rule e)"
  using assms by (cases "js_get s k") (auto simp: ruled_def dest: spec [of _ k])

interpretation proxy_window: sliding_window consume_step no_maintenance "\<lambda>a b. b" limiter_hits
  "{k. rs k \<noteq> None}" "\<lambda>k. requests (the (rs k))" "\<lambda>k. windowMs (the (rs k))" "ruled rs"
  for rs :: "string \<Rightarrow> RateLimitRule option"
proof unfold_locales
  fix s :: RateLimiter and k j :: string and a b n :: time
  assume ok: "ruled rs s"
  show "ruled rs (snd (consume_step k a b s))"
    using ok by (simp add: consume_step_def ruled_consume)
  show "ruled rs (no_maintenance n s)" using ok by (simp add: no_maintenance_def)
  show "j \<noteq> k \<Longrightarrow> limiter_hits (snd (consume_step k a b s)) j = limiter_hits s j"
    by (simp add: limiter_hits_def consume_step_def js_get_consume_other)
  assume "k \<in> {k. rs k \<noteq> None}"
  with ok obtain e where e: "js_get s k = Some e" "rs k = Some (we_rule e)"
    by (auto elim: ruled_knownE)
  show "fst (consume_step k a b s) \<longleftrightarrow>
      length (filter (\<lambda>t. a - windowMs (the (rs k)) < t) (limiter_hits s k)) < requests (the (rs k))"
    using e by (simp add: consume_step_def consume_registered(1) limiter_hits_def)
  show "limiter_hits (snd (consume_step k a b s)) k =
      filter (\<lambda>t. a - windowMs (the (rs k)) < t) (limiter_hits s k) @
      (if fst (consume_step k a b s) then [b] else [])"
    using e by (simp add: consume_step_def consume_registered limiter_hits_def)
qed (simp_all add: no_maintenance_def)

section \<open>Properties\<close>

text \<open>
  C2. Whatever credentials the requests of the proxy are charged to and in whatever order, with
  a clock that never goes back no window of a rule's length holds more admitted requests of
  that rule's credential than the rule allows.
\<close>
theorem proxy_rate_limit_respected:
  assumes "js_get lim k = Some \<lparr>timestamps = [], we_rule = rl\<rparr>"
    and "clock_ok now es"
  shows "window_count (windowMs rl) t k (admitted consume_step no_maintenance (\<lambda>a b. b) lim es) \<le> requests rl"
proof -
  define rs where "rs = (\<lambda>j. map_option we_rule (js_get lim j))"
  have "ruled rs lim" by (simp add: ruled_def rs_def)
  moreover have "rs k = Some rl" "limiter_hits lim k = []"
    using assms by (simp_all add: rs_def limiter_hits_def)
  ultimately show ?thesis
    using proxy_window.window_bound [of rs lim k now es t] assms(2) by simp
qed

theorem proxy_rate_limit_respected_witness:
  "window_count 1000 1900 ''k''
     (admitted consume_step no_maintenance (\<lambda>a b. b)
        (register ''k'' \<lparr>requests = 2, windowSeconds = 1\<rparr> [])
        [Attempt ''k'' 1000 1000, Attempt ''k'' 1500 1500, Attempt ''k'' 1900 1900]) \<le> 2 \<and>
   map snd (admitted consume_step no_maintenance (\<lambda>a b. b)
        (register ''k'' \<lparr>requests = 2, windowSeconds = 1\<rparr> [])
        [Attempt ''k'' 1000 1000, Attempt ''k'' 1500 1500, Attempt ''k'' 1900 1900]) = [1000, 1500]"
  using proxy_rate_limit_respected
    [of "register ''k'' \<lparr>requests = 2, windowSeconds = 1\<rparr> []" "''k''"
        "\<lparr>requests = 2, windowSeconds = 1\<rparr>" 1000
        "[Attempt ''k'' 1000 1000, Attempt ''k'' 1500 1500, Attempt ''k'' 1900 1900]" 1900]
  by (simp add: register_def windowMs_def limiter_defs)

lemma consume_length_bound:
  assumes "js_get lim k = Some e" "length (timestamps e) \<le> requests (we_rule e)"
  shows "\<exists>e'. js_get (snd (consume k a b lim)) k = Some e' \<and> we_rule e' = we_rule e \<and>
    length (timestamps e') \<le> requests (we_rule e')"
proof -
  let ?live = "filter (\<lambda>t. a - windowMs (we_rule e) < t) (timestamps e)"
  have "length ?live \<le> requests (we_rule e)"
    using length_filter_le [of "\<lambda>t. a - windowMs (we_rule e) < t" "timestamps e"] assms(2) by linarith
  then show ?thesis
    by (simp add: consume_registered(2) [OF assms(1)])
qed

text \<open>
  A rejection is honest and useful: the retry delay it reports is strictly positive, and a
  request for the credential made that many milliseconds later is admitted.
\<close>
theorem proxy_retry_after_suffices:
  assumes "js_get lim k = Some e" "length (timestamps e) \<le> requests (we_rule e)"
    and "1 \<le> requests (we_rule e)"
    and "\<not> allowed (fst (consume k a b lim))"
  shows "0 < retryAfterMs (fst (consume k a b lim)) \<and>
    allowed (fst (consume k (a + retryAfterMs (fst (consume k a b lim))) c
      (snd (consume k a b lim))))"
proof -
  let ?w = "windowMs (we_rule e)"
  let ?live = "filter (\<lambda>t. a - ?w < t) (timestamps e)"
  have full: "requests (we_rule e) \<le> length ?live"
    using assms(4) consume_registered(1) [OF assms(1)] by (simp add: not_less)
  with assms(3) obtain x xs where live: "?live = x # xs" by (cases ?live) auto
  have "x \<in> set ?live" unfolding live by simp
  then have pos: "0 < x + ?w - a" by simp
  have ra: "retryAfterMs (fst (consume k a b lim)) = x + ?w - a"
    using full live pos assms(1) by (simp add: limiter_defs)
  have st: "js_get (snd (consume k a b lim)) k = Some (e\<lparr>timestamps := x # xs\<rparr>)"
    using full by (simp add: consume_registered(2) [OF assms(1)] live)
  have len: "length xs < requests (we_rule e)"
    using length_filter_le [of "\<lambda>t. a - ?w < t" "timestamps e"] live assms(2) by simp
  have "length (filter (\<lambda>t. (a + (x + ?w - a)) - ?w < t) (x # xs)) < requests (we_rule e)"
    by (simp add: le_less_trans [OF length_filter_le len])
  then show ?thesis
    using ra pos consume_registered(1) [OF st, of "a + (x + ?w - a)" c] by simp
qed

theorem proxy_retry_after_suffices_witness:
  "let lim = [(''k'', \<lparr>timestamps = [1000], we_rule = \<lparr>requests = 1, windowSeconds = 1\<rparr>\<rparr>)];
       r = consume ''k'' 1500 1500 lim
   in 0 < retryAfterMs (fst r) \<and> retryAfterMs (fst r) = 500 \<and>
      allowed (fst (consume ''k'' 2000 2000 (snd r)))"
  using proxy_retry_after_suffices
    [of "[(''k'', \<lparr>timestamps = [1000], we_rule = \<lparr>requests = 1, windowSeconds = 1\<rparr>\<rparr>)]" "''k''"
        "\<lparr>timestamps = [1000], we_rule = \<lparr>requests = 1, windowSeconds = 1\<rparr>\<rparr>" 1500 1500 2000]
  by (simp add: limiter_defs windowMs_def)

lemma js_get_build_gen:
  "js_get (fold (\<lambda>cred lim. case cr_rateLimit cred of
             None \<Rightarrow> lim | Some rl \<Rightarrow> register (cr_name cred) rl lim) cs lim) k =
   (case find (\<lambda>c. cr_name c = k \<and> cr_rateLimit c \<noteq> None) (rev cs) of
      None \<Rightarrow> js_get lim k
    | Some c \<Rightarrow> Some \<lparr>timestamps = [], we_rule = the (cr_rateLimit c)\<rparr>)"
proof (induction cs arbitrary: lim rule: rev_induct)
  case Nil
  then show ?case by simp
next
  case (snoc c cs)
  then show ?case
    by (auto simp: register_def js_get_set split: option.splits)
qed

text \<open>Every credential of a rule list starts with an empty window under its last rule.\<close>

lemma js_get_buildRateLimiter:
  "js_get (buildRateLimiter cs) k =
   map_option (\<lambda>c. \<lparr>timestamps = [], we_rule = the (cr_rateLimit c)\<rparr>)
     (find (\<lambda>c. cr_name c = k \<and> cr_rateLimit c \<noteq> None) (rev cs))"
  unfolding buildRateLimiter_def js_get_build_gen by (simp split: option.splits)

lemma js_get_reset: "js_get (reset lim) k = map_option (timestamps_update (\<lambda>_. [])) (js_get lim k)"
  by (induction lim) (auto simp: reset_def)

end
