(* ===== verification/Key_Rotator.thy ===== *)
theory Key_Rotator
  imports Credential_Schema
begin

text \<open>
  \<^verbatim>\<open>src/src/proxy/key-rotator.ts\<close>: round-robin over the keys of a multi-key credential. The
  state is the \<^verbatim>\<open>counters\<close> map from credential names to the number of keys handed out.
\<close>

type_synonym KeyRotator = "(string, nat) js_map"

definition getNextValue :: "CredentialRule \<Rightarrow> KeyRotator \<Rightarrow> string \<times> KeyRotator" where
  "getNextValue credential counters =
     (case cr_values credential of
        None \<Rightarrow> (cr_value credential, counters)
      | Some vs \<Rightarrow>
          if vs = [] then (cr_value credential, counters)
          else
            (let current = js_count counters (cr_name credential);
                 idx = current mod length vs;
                 v = (if idx < length vs then vs ! idx else cr_value credential)
             in (v, js_set (cr_name credential) (current + 1) counters)))"

definition resetRotator :: "KeyRotator \<Rightarrow> KeyRotator" where
  "resetRotator counters = []"

definition getCounter :: "string \<Rightarrow> KeyRotator \<Rightarrow> nat" where
  "getCounter credentialName counters = js_count counters credentialName"

text \<open>The values handed out to a sequence of requests, each with the credential it used.\<close>

fun handouts :: "CredentialRule list \<Rightarrow> KeyRotator \<Rightarrow> (CredentialRule \<times> string) list" where
  "handouts [] counters = []"
| "handouts (c # cs) counters =
     (let r = getNextValue c counters in (c, fst r) # handouts cs (snd r))"

lemma getNextValue_multi:
  assumes "cr_values c = Some vs" "vs \<noteq> []"
  shows "getNextValue c ctr = (vs ! (js_count ctr (cr_name c) mod length vs), js_incr (cr_name c) ctr)"
  using assms by (simp add: getNextValue_def Let_def js_incr_def)

lemma getNextValue_single:
  "cr_values c = None \<or> cr_values c = Some [] \<Longrightarrow> getNextValue c ctr = (cr_value c, ctr)"
  by (auto simp: getNextValue_def)

lemma count_getNextValue_other:
  "n \<noteq> cr_name c \<Longrightarrow> js_count (snd (getNextValue c ctr)) n = js_count ctr n"
  by (auto simp: getNextValue_def Let_def js_count_def js_get_set split: option.splits)

lemma handouts_round_robin:
  assumes "cr_values c = Some vs" "vs \<noteq> []"
    and "\<forall>d \<in> set cs. cr_name d = cr_name c \<longrightarrow> d = c"
  shows "map snd (filter (\<lambda>e. fst e = c) (handouts cs ctr)) =
    map (\<lambda>i. vs ! ((js_count ctr (cr_name c) + i) mod length vs)) [0..<count_list cs c]"
  using assms(3)
proof (induction cs arbitrary: ctr)
  case Nil
  then show ?case by simp
next
  case (Cons d cs)
  let ?n = "js_count ctr (cr_name c)"
  show ?case
  proof (cases "d = c")
    case True
    have cnt: "js_count (js_incr (cr_name c) ctr) (cr_name c) = Suc ?n"
      by (simp add: js_counter.cnt_bump)
    have "map (\<lambda>i. vs ! ((?n + i) mod length vs)) [0..<Suc (count_list cs c)] =
        vs ! (?n mod length vs) # map (\<lambda>i. vs ! ((Suc ?n + i) mod length vs)) [0..<count_list cs c]"
      by (simp add: map_upt_Suc del: upt_Suc)
    with True Cons cnt show ?thesis
      by (simp add: Let_def getNextValue_multi [OF assms(1,2)] del: upt_Suc)
  next
    case False
    with Cons.prems have "cr_name d \<noteq> cr_name c" by auto
    with False Cons show ?thesis
      by (simp add: Let_def count_getNextValue_other)
  qed
qed

text \<open>
  Key rotation is fair: however requests for other credentials are interleaved, as many
  consecutive requests for a multi-key credential as it has keys use every key exactly once.
\<close>
theorem key_rotation_fair:
  assumes "cr_values c = Some vs" "vs \<noteq> []"
    and "\<forall>d \<in> set cs. cr_name d = cr_name c \<longrightarrow> d = c"
    and "count_list cs c = length vs"
  shows "mset (map snd (filter (\<lambda>e. fst e = c) (handouts cs ctr))) = mset vs"
proof -
  let ?n = "js_count ctr (cr_name c)"
  have "map (\<lambda>i. vs ! ((?n + i) mod length vs)) [0..<length vs] = rotate ?n vs"
    by (rule nth_equalityI) (simp_all add: nth_rotate add.commute)
  then show ?thesis
    using handouts_round_robin [OF assms(1,2,3), of ctr] assms(4) by (simp add: mset_rotate)
qed

theorem key_rotation_fair_witness:
  "mset (map snd (filter (\<lambda>e. fst e = anthropic_key_rule)
     (handouts [anthropic_key_rule, anthropic_oauth_rule, anthropic_key_rule] []))) =
   {#''sk-1'', ''sk-2''#}"
  using key_rotation_fair [of anthropic_key_rule "[''sk-1'', ''sk-2'']"
      "[anthropic_key_rule, anthropic_oauth_rule, anthropic_key_rule]" "[]"]
  by (simp add: example_rules)

end
