(* ===== verification/Proxy_Metrics.thy ===== *)
theory Proxy_Metrics
  imports Prelude
begin

text \<open>
  \<^verbatim>\<open>src/src/proxy/metrics.ts\<close>: request counters and latency percentiles of the proxy. Durations
  are integers (milliseconds). \<^verbatim>\<open>Math.ceil((p / 100) * n)\<close> is computed in exact arithmetic; for
  the percentiles the code asks for (50, 90, 99) and every \<open>n\<close> up to the buffer size of 1000
  the double-precision value is the same.
\<close>

record CircularBuffer =
  cb_buffer :: "int list"
  cb_capacity :: nat
  cb_index :: nat
  cb_count :: nat

definition newBuffer :: "nat \<Rightarrow> CircularBuffer" where
  "newBuffer capacity =
     \<lparr>cb_buffer = replicate capacity 0, cb_capacity = capacity, cb_index = 0, cb_count = 0\<rparr>"

definition push :: "int \<Rightarrow> CircularBuffer \<Rightarrow> CircularBuffer" where
  "push v b =
     b\<lparr>cb_buffer := (cb_buffer b)[cb_index b mod cb_capacity b := v],
       cb_index := cb_index b + 1,
       cb_count := (if cb_count b < cb_capacity b then cb_count b + 1 else cb_count b)\<rparr>"

definition sorted_values :: "CircularBuffer \<Rightarrow> int list" where
  "sorted_values b = sort (take (cb_count b) (cb_buffer b))"

definition percentile :: "int list \<Rightarrow> int \<Rightarrow> int" where
  "percentile xs p =
     (if length xs = 0 then 0
      else let idx = ceil_div (p * int (length xs)) 100 - 1;
               i = nat (max 0 idx)
           in if i < length xs then xs ! i else 0)"

record ProxyMetrics =
  startedAt :: time
  totalRequests :: nat
  credentialCounts :: "(string, nat) js_map"
  statusCodeCounts :: "(string, nat) js_map"
  rateLimitHits :: nat
  latencyBuffer :: CircularBuffer

definition newMetrics :: "time \<Rightarrow> nat \<Rightarrow> ProxyMetrics" where
  "newMetrics now latencyBufferSize =
     \<lparr>startedAt = now, totalRequests = 0, credentialCounts = [], statusCodeCounts = [],
      rateLimitHits = 0, latencyBuffer = newBuffer latencyBufferSize\<rparr>"

definition record_metrics :: "string \<Rightarrow> nat \<Rightarrow> int \<Rightarrow> ProxyMetrics \<Rightarrow> ProxyMetrics" where
  "record_metrics credentialName statusCode durationMs m =
     m\<lparr>totalRequests := totalRequests m + 1,
       credentialCounts := js_incr credentialName (credentialCounts m),
       statusCodeCounts := js_incr (show_nat statusCode) (statusCodeCounts m),
       latencyBuffer := push durationMs (latencyBuffer m)\<rparr>"

definition recordRateLimitHit :: "ProxyMetrics \<Rightarrow> ProxyMetrics" where
  "recordRateLimitHit m = m\<lparr>rateLimitHits := rateLimitHits m + 1\<rparr>"

record MetricsSnapshot =
  snap_uptime :: int
  snap_totalRequests :: nat
  snap_perCredential :: "(string, nat) js_map"
  snap_statusCodes :: "(string, nat) js_map"
  snap_rateLimitHits :: nat
  snap_p50 :: int
  snap_p90 :: int
  snap_p99 :: int
  snap_count :: nat

definition snapshot :: "time \<Rightarrow> ProxyMetrics \<Rightarrow> MetricsSnapshot" where
  "snapshot now m =
     (let xs = sorted_values (latencyBuffer m)
      in \<lparr>snap_uptime = now - startedAt m,
          snap_totalRequests = totalRequests m,
          snap_perCredential = credentialCounts m,
          snap_statusCodes = statusCodeCounts m,
          snap_rateLimitHits = rateLimitHits m,
          snap_p50 = percentile xs 50,
          snap_p90 = percentile xs 90,
          snap_p99 = percentile xs 99,
          snap_count = cb_count (latencyBuffer m)\<rparr>)"

definition resetMetrics :: "ProxyMetrics \<Rightarrow> ProxyMetrics" where
  "resetMetrics m =
     m\<lparr>totalRequests := 0, credentialCounts := [], statusCodeCounts := [], rateLimitHits := 0\<rparr>"

section \<open>The circular buffer holds the most recent values\<close>

definition holds_last :: "int list \<Rightarrow> CircularBuffer \<Rightarrow> bool" where
  "holds_last ds b \<longleftrightarrow>
     0 < cb_capacity b \<and> length (cb_buffer b) = cb_capacity b \<and> cb_index b = length ds \<and>
     cb_count b = min (length ds) (cb_capacity b) \<and>
     (\<forall>j < length ds. length ds \<le> j + cb_capacity b \<longrightarrow>
        cb_buffer b ! (j mod cb_capacity b) = ds ! j) \<and>
     mset (take (cb_count b) (cb_buffer b)) = mset (drop (length ds - cb_capacity b) ds)"

lemma holds_last_new: "0 < c \<Longrightarrow> holds_last [] (newBuffer c)"
  by (simp add: holds_last_def newBuffer_def)

lemma mod_eq_window:
  fixes j n c :: nat
  assumes "j mod c = n mod c" "j < n" "n < j + c"
  shows False
proof -
  from assms(1,2) have "c dvd n - j" by (metis less_imp_le mod_eq_dvd_iff_nat)
  with assms(2,3) show False by (auto dest: dvd_imp_le)
qed

lemma push_slots:
  assumes h: "holds_last ds b" and j: "j < Suc (length ds)" "Suc (length ds) \<le> j + cb_capacity b"
  shows "(cb_buffer b)[length ds mod cb_capacity b := v] ! (j mod cb_capacity b) = (ds @ [v]) ! j"
proof (cases "j = length ds")
  case True
  with h show ?thesis by (auto simp: holds_last_def nth_append)
next
  case False
  with j have lt: "j < length ds" by simp
  with j have "j mod cb_capacity b \<noteq> length ds mod cb_capacity b"
    using mod_eq_window [of j "cb_capacity b" "length ds"] by auto
  with lt j h show ?thesis by (auto simp: holds_last_def nth_append)
qed

lemma push_mset:
  assumes h: "holds_last ds b"
  shows "mset (take (min (Suc (length ds)) (cb_capacity b))
      ((cb_buffer b)[length ds mod cb_capacity b := v])) =
    mset (drop (Suc (length ds) - cb_capacity b) (ds @ [v]))"
proof (cases "length ds < cb_capacity b")
  case True
  with h have "mset (take (length ds) (cb_buffer b)) = mset ds"
    by (auto simp: holds_last_def min_def)
  moreover have "take (Suc (length ds)) ((cb_buffer b)[length ds := v]) =
      take (length ds) (cb_buffer b) @ [v]"
    using True h by (simp add: holds_last_def take_Suc_conv_app_nth)
  ultimately show ?thesis using True by (simp add: min_def)
next
  case False
  let ?c = "cb_capacity b"
  let ?n = "length ds"
  have c: "0 < ?c" "length (cb_buffer b) = ?c" using h by (auto simp: holds_last_def)
  have old: "cb_buffer b ! (?n mod ?c) = ds ! (?n - ?c)"
  proof -
    have "(?n - ?c) mod ?c = ?n mod ?c" using False by (simp add: le_mod_geq not_less)
    with h False c show ?thesis by (auto simp: holds_last_def dest!: spec [of _ "?n - ?c"])
  qed
  have all: "mset (cb_buffer b) = mset (drop (?n - ?c) ds)"
    using h False by (auto simp: holds_last_def min_def split: if_splits)
  have split: "drop (?n - ?c) ds = ds ! (?n - ?c) # drop (Suc ?n - ?c) ds"
    using False c by (metis Cons_nth_drop_Suc Suc_diff_le diff_less not_less less_le_trans)
  have "mset ((cb_buffer b)[?n mod ?c := v]) = add_mset v (mset (cb_buffer b) - {#cb_buffer b ! (?n mod ?c)#})"
    using c by (simp add: mset_update)
  also have "\<dots> = add_mset v (mset (drop (Suc ?n - ?c) ds))"
    unfolding all old split by simp
  finally show ?thesis using False c by (simp add: min_def)
qed

lemma holds_last_push:
  assumes "holds_last ds b"
  shows "holds_last (ds @ [v]) (push v b)"
proof -
  have cnt: "cb_count (push v b) = min (Suc (length ds)) (cb_capacity b)"
    using assms by (auto simp: push_def holds_last_def)
  have buf: "cb_buffer (push v b) = (cb_buffer b)[length ds mod cb_capacity b := v]"
    using assms by (simp add: push_def holds_last_def)
  have "cb_capacity (push v b) = cb_capacity b" "cb_index (push v b) = Suc (length ds)"
    using assms by (simp_all add: push_def holds_last_def)
  with cnt buf push_slots [OF assms] push_mset [OF assms, of v] show ?thesis
    using assms by (simp add: holds_last_def)
qed

lemma holds_last_run: "0 < c \<Longrightarrow> holds_last ds (fold push ds (newBuffer c))"
  by (induction ds rule: rev_induct) (auto intro: holds_last_new holds_last_push)

section \<open>The counters agree\<close>

fun run_metrics :: "(string \<times> nat \<times> int) list \<Rightarrow> ProxyMetrics \<Rightarrow> ProxyMetrics" where
  "run_metrics [] m = m"
| "run_metrics ((c, s, d) # es) m = run_metrics es (record_metrics c s d m)"

lemma run_metrics_fields:
  "totalRequests (run_metrics es m) = totalRequests m + length es"
  "credentialCounts (run_metrics es m) = fold js_incr (map fst es) (credentialCounts m)"
  "statusCodeCounts (run_metrics es m) =
     fold js_incr (map (\<lambda>e. show_nat (fst (snd e))) es) (statusCodeCounts m)"
  "latencyBuffer (run_metrics es m) = fold push (map (\<lambda>e. snd (snd e)) es) (latencyBuffer m)"
  by (induction es m rule: run_metrics.induct) (simp_all add: record_metrics_def)

lemma count_list_show_nat:
  "count_list (map (\<lambda>e. show_nat (f e)) es) (show_nat s) = length (filter (\<lambda>e. f e = s) es)"
  by (induction es) (auto dest: show_nat_inj)

text \<open>
  After any sequence of completed requests the snapshot reports the number of requests, per
  credential and per status code exactly the requests that had it, and as latencies exactly
  the most recent ones, as many as the buffer holds.
\<close>
theorem metrics_snapshot_exact:
  assumes "0 < sz"
  shows "let m = run_metrics es (newMetrics start sz) in
    snap_totalRequests (snapshot now m) = length es \<and>
    js_count (snap_perCredential (snapshot now m)) c = length (filter (\<lambda>e. fst e = c) es) \<and>
    js_count (snap_statusCodes (snapshot now m)) (show_nat s) =
      length (filter (\<lambda>e. fst (snd e) = s) es) \<and>
    snap_count (snapshot now m) = min (length es) sz \<and>
    sorted_values (latencyBuffer m) =
      sort (drop (length es - sz) (map (\<lambda>e. snd (snd e)) es))"
proof -
  define m where "m = run_metrics es (newMetrics start sz)"
  let ?ds = "map (\<lambda>e. snd (snd e)) es"
  have h: "holds_last ?ds (latencyBuffer m)"
    using holds_last_run [OF assms(1), of ?ds]
    by (simp add: m_def run_metrics_fields newMetrics_def)
  have cap: "cb_capacity (fold push xs b) = cb_capacity b" for xs b
    by (induction xs arbitrary: b) (simp_all add: push_def)
  have "cb_capacity (latencyBuffer m) = sz"
    by (simp add: m_def run_metrics_fields newMetrics_def cap newBuffer_def)
  with h have "mset (take (cb_count (latencyBuffer m)) (cb_buffer (latencyBuffer m))) =
      mset (drop (length es - sz) ?ds)"
    and cnt: "cb_count (latencyBuffer m) = min (length es) sz"
    by (auto simp: holds_last_def)
  then have "sorted_values (latencyBuffer m) = sort (drop (length es - sz) ?ds)"
    unfolding sorted_values_def by (metis mset_sort properties_for_sort sorted_sort)
  moreover have "count_list (map fst es) c = length (filter (\<lambda>e. fst e = c) es)"
    by (induction es) auto
  ultimately show ?thesis
    using cnt by (simp add: snapshot_def Let_def m_def run_metrics_fields newMetrics_def
        js_counter.cnt_run count_list_show_nat js_count_def [of "[]"])
qed

theorem metrics_snapshot_exact_witness:
  "snap_count (snapshot 9 (run_metrics [(''a'', 200, 7), (''b'', 502, 3), (''a'', 200, 5)]
     (newMetrics 0 2))) = 2 \<and>
   sorted_values (latencyBuffer (run_metrics [(''a'', 200, 7), (''b'', 502, 3), (''a'', 200, 5)]
     (newMetrics 0 2))) = [3, 5]"
  using metrics_snapshot_exact
    [where sz = 2 and es = "[(''a'', 200, 7), (''b'', 502, 3), (''a'', 200, 5)]" and start = 0
       and now = 9]
  by (simp add: Let_def)

text \<open>
  The comment on \<^verbatim>\<open>reset\<close> says that all metrics are reset; the latency buffer is not: after
  a reset the snapshot still reports the latencies recorded before it.
\<close>
theorem metrics_reset_keeps_latencies:
  "snap_totalRequests (snapshot now (resetMetrics m)) = 0 \<and>
   snap_p50 (snapshot now (resetMetrics m)) = snap_p50 (snapshot now m) \<and>
   snap_count (snapshot now (resetMetrics m)) = snap_count (snapshot now m)"
  by (simp add: resetMetrics_def snapshot_def Let_def)

end
