(* ===== verification/Expiring_Store.thy ===== *)
theory Expiring_Store
  imports Prelude
begin

text \<open>
  The contract shared by the stores whose entries carry an absolute expiry time and are
  removed lazily when a read finds them expired: the proxy's certificate cache and the auth
  bridge's session store.
\<close>

locale expiring_store =
  fixes entry :: "'s \<Rightarrow> 'k \<Rightarrow> ('v \<times> time) option"
    and lookup :: "time \<Rightarrow> 'k \<Rightarrow> 's \<Rightarrow> 'v option \<times> 's"
  assumes lookup_value: "fst (lookup now k s) =
        (case entry s k of None \<Rightarrow> None | Some (v, expiry) \<Rightarrow> if now > expiry then None else Some v)"
    and lookup_entry: "entry (snd (lookup now k s)) j =
        (if j = k \<and> (\<exists>v expiry. entry s k = Some (v, expiry) \<and> now > expiry) then None
         else entry s j)"
begin

definition reads :: "(time \<times> 'k) list \<Rightarrow> 's \<Rightarrow> 's" where
  "reads qs s = fold (\<lambda>(now, k) s. snd (lookup now k s)) qs s"

lemma entry_reads:
  "entry (reads qs s) k = entry s k \<or> entry (reads qs s) k = None"
proof (induction qs arbitrary: s)
  case (Cons q qs)
  obtain n j where q: "q = (n, j)" by (cases q)
  have "entry (snd (lookup n j s)) k = entry s k \<or> entry (snd (lookup n j s)) k = None"
    by (simp add: lookup_entry)
  with Cons.IH [of "snd (lookup n j s)"] q show ?case by (auto simp: reads_def)
qed (simp add: reads_def)

lemma entry_reads_live:
  assumes "entry s k = Some (v, expiry)" "\<forall>(n, j) \<in> set qs. j = k \<longrightarrow> n \<le> expiry"
  shows "entry (reads qs s) k = Some (v, expiry)"
  using assms
proof (induction qs arbitrary: s)
  case Nil
  then show ?case by (simp add: reads_def)
next
  case (Cons q qs)
  obtain n j where q: "q = (n, j)" by (cases q)
  have "entry (snd (lookup n j s)) k = Some (v, expiry)"
    using Cons.prems q by (auto simp: lookup_entry)
  with Cons q show ?case by (simp add: reads_def)
qed

text \<open>Until it expires an entry is returned by every read.\<close>

theorem live_until_expiry:
  assumes "entry s k = Some (v, expiry)" "\<forall>(n, j) \<in> set qs. j = k \<longrightarrow> n \<le> expiry"
    and "now \<le> expiry"
  shows "fst (lookup now k (reads qs s)) = Some v"
  using entry_reads_live [OF assms(1,2)] assms(3) by (simp add: lookup_value)

text \<open>Past its expiry it is returned by no read, whatever was read in between.\<close>

theorem dead_after_expiry:
  assumes "entry s k = Some (v, expiry)" "expiry < now"
  shows "fst (lookup now k (reads qs s)) = None"
  using entry_reads [of qs s k] assms by (auto simp: lookup_value)

end

end
