(* ===== verification/Cert_Cache.thy ===== *)
theory Cert_Cache
  imports Expiring_Store
begin

text \<open>
  \<^verbatim>\<open>src/src/proxy/cert-cache.ts\<close>: the LRU cache of per-domain TLS contexts with expiry. The
  recency order is the insertion order of the underlying \<^verbatim>\<open>Map\<close>: a hit deletes and re-inserts.
\<close>

record 'v CertCacheEntry =
  ce_value :: 'v
  ce_expiresAt :: time

record 'v CertCache =
  cc_cache :: "(string, 'v CertCacheEntry) js_map"
  cc_maxEntries :: nat
  cc_ttlMs :: int

definition newCertCache :: "nat option \<Rightarrow> int option \<Rightarrow> 'v CertCache" where
  "newCertCache maxEntries ttlMs =
     \<lparr>cc_cache = [],
      cc_maxEntries = (case maxEntries of None \<Rightarrow> 200 | Some n \<Rightarrow> n),
      cc_ttlMs = (case ttlMs of None \<Rightarrow> 30 * 24 * 60 * 60 * 1000 | Some t \<Rightarrow> t)\<rparr>"

definition cc_get :: "time \<Rightarrow> string \<Rightarrow> 'v CertCache \<Rightarrow> 'v option \<times> 'v CertCache" where
  "cc_get now key c =
     (case js_get (cc_cache c) key of
        None \<Rightarrow> (None, c)
      | Some entry \<Rightarrow>
          if now > ce_expiresAt entry
          then (None, c\<lparr>cc_cache := js_delete key (cc_cache c)\<rparr>)
          else (Some (ce_value entry),
                c\<lparr>cc_cache := js_set key entry (js_delete key (cc_cache c))\<rparr>))"

definition cc_set :: "time \<Rightarrow> string \<Rightarrow> 'v \<Rightarrow> 'v CertCache \<Rightarrow> 'v CertCache" where
  "cc_set now key v c =
     (let m1 = js_delete key (cc_cache c);
          m2 = (if length m1 \<ge> cc_maxEntries c
                then (case m1 of [] \<Rightarrow> m1 | (firstKey, _) # _ \<Rightarrow> js_delete firstKey m1)
                else m1)
      in c\<lparr>cc_cache := js_set key \<lparr>ce_value = v, ce_expiresAt = now + cc_ttlMs c\<rparr> m2\<rparr>)"

text \<open>
  \<^verbatim>\<open>getOrCreate\<close> awaits the generator between its read and its write; \<open>between\<close> is whatever
  other calls did to the cache meanwhile.
\<close>

definition getOrCreate ::
  "time \<Rightarrow> time \<Rightarrow> string \<Rightarrow> (string \<Rightarrow> 'v) \<Rightarrow> ('v CertCache \<Rightarrow> 'v CertCache) \<Rightarrow> 'v CertCache
     \<Rightarrow> 'v \<times> 'v CertCache" where
  "getOrCreate now1 now2 key generator between c =
     (case cc_get now1 key c of
        (Some v, c1) \<Rightarrow> (v, c1)
      | (None, c1) \<Rightarrow> (generator key, cc_set now2 key (generator key) (between c1)))"

definition cc_size :: "'v CertCache \<Rightarrow> nat" where
  "cc_size c = length (cc_cache c)"

definition cc_clear :: "'v CertCache \<Rightarrow> 'v CertCache" where
  "cc_clear c = c\<lparr>cc_cache := []\<rparr>"

definition cc_has :: "time \<Rightarrow> string \<Rightarrow> 'v CertCache \<Rightarrow> bool \<times> 'v CertCache" where
  "cc_has now key c =
     (case js_get (cc_cache c) key of
        None \<Rightarrow> (False, c)
      | Some entry \<Rightarrow>
          if now > ce_expiresAt entry
          then (False, c\<lparr>cc_cache := js_delete key (cc_cache c)\<rparr>)
          else (True, c))"

section \<open>The cache meets the expiring-store contract\<close>

definition cc_entry :: "'v CertCache \<Rightarrow> string \<Rightarrow> ('v \<times> time) option" where
  "cc_entry c k = map_option (\<lambda>e. (ce_value e, ce_expiresAt e)) (js_get (cc_cache c) k)"

interpretation cert_store: expiring_store cc_entry cc_get
  by unfold_locales
    (auto simp: cc_get_def cc_entry_def js_get_set js_get_delete split: option.splits)

section \<open>Recency\<close>

datatype 'v cc_op = CGet time string | CSet time string 'v

fun cc_apply :: "'v cc_op \<Rightarrow> 'v CertCache \<Rightarrow> 'v CertCache" where
  "cc_apply (CGet now k) c = snd (cc_get now k c)"
| "cc_apply (CSet now k v) c = cc_set now k v c"

fun op_key :: "'v cc_op \<Rightarrow> string" where
  "op_key (CGet now k) = k"
| "op_key (CSet now k v) = k"

fun op_time :: "'v cc_op \<Rightarrow> time" where
  "op_time (CGet now k) = now"
| "op_time (CSet now k v) = now"

fun is_set_of :: "string \<Rightarrow> 'v cc_op \<Rightarrow> bool" where
  "is_set_of j (CGet now k) \<longleftrightarrow> False"
| "is_set_of j (CSet now k v) \<longleftrightarrow> j = k"

lemma cc_apply_max [simp]: "cc_maxEntries (cc_apply op c) = cc_maxEntries c"
  by (cases op) (simp_all add: cc_get_def cc_set_def Let_def split: option.splits)

lemma js_delete_first: "js_wf ((k, v) # m) \<Longrightarrow> js_delete k ((k, v) # m) = m"
  by (auto simp: js_delete_def filter_id_conv)

lemma cc_wf_apply:
  assumes "js_wf (cc_cache c)"
  shows "js_wf (cc_cache (cc_apply op c))"
proof (cases op)
  case (CGet now k)
  with assms show ?thesis
    by (auto simp: cc_get_def js_wf_delete intro!: js_wf_set js_wf_delete split: option.splits)
next
  case (CSet now k v)
  let ?m1 = "js_delete k (cc_cache c)"
  have "js_wf (case ?m1 of [] \<Rightarrow> ?m1 | (f, _) # _ \<Rightarrow> js_delete f ?m1)"
    using js_wf_delete [OF js_wf_delete [OF assms]] js_wf_delete [OF assms]
    by (simp split: list.splits prod.splits) metis
  with CSet js_wf_delete [OF assms] show ?thesis
    by (simp add: cc_set_def Let_def js_wf_set)
qed

lemma cc_size_apply:
  assumes "js_wf (cc_cache c)" "length (cc_cache c) \<le> max 1 (cc_maxEntries c)"
  shows "length (cc_cache (cc_apply op c)) \<le> max 1 (cc_maxEntries c)"
proof (cases op)
  case (CGet now k)
  then show ?thesis
    using assms by (auto simp: cc_get_def jsm.size_refresh js_size_delete split: option.splits
        simp del: map_of_eq_None_iff)
next
  case (CSet now k v)
  let ?m1 = "js_delete k (cc_cache c)"
  have wf1: "js_wf ?m1" using assms(1) by (rule js_wf_delete)
  have len1: "length ?m1 \<le> max 1 (cc_maxEntries c)"
    using assms(2) length_filter_le [of "\<lambda>e. fst e \<noteq> k" "cc_cache c"]
    unfolding js_delete_def by linarith
  have absent: "js_get (js_delete j ?m1) k = None" for j by (simp add: js_get_delete)
  show ?thesis
  proof (cases ?m1)
    case Nil
    with CSet show ?thesis by (simp add: cc_set_def Let_def)
  next
    case (Cons e m)
    obtain j w where e: "e = (j, w)" by (cases e)
    have del: "js_delete j ?m1 = m" using wf1 Cons e js_delete_first by simp
    have "js_get m k = None" using absent [of j] del by simp
    moreover have "js_get ?m1 k = None" by (simp add: js_get_delete)
    ultimately show ?thesis
      using CSet Cons e del len1 by (simp add: cc_set_def Let_def js_size_set)
  qed
qed

text \<open>
  \<open>k\<close> sits in the cache with entry \<open>e\<close> and every key more recent than it is in \<open>T\<close>.
\<close>

definition recent :: "string \<Rightarrow> 'v CertCacheEntry \<Rightarrow> string set \<Rightarrow> (string, 'v CertCacheEntry) js_map \<Rightarrow> bool" where
  "recent k e T m \<longleftrightarrow> js_wf m \<and> (\<exists>A B. m = A @ (k, e) # B \<and> fst ` set B \<subseteq> T)"

lemma recentI: "js_wf m \<Longrightarrow> m = A @ (k, e) # B \<Longrightarrow> fst ` set B \<subseteq> T \<Longrightarrow> recent k e T m"
  unfolding recent_def by blast

lemma recentE:
  assumes "recent k e T m"
  obtains A B where "js_wf m" "m = A @ (k, e) # B" "fst ` set B \<subseteq> T"
  using assms unfolding recent_def by blast

lemma recent_mono: "recent k e T m \<Longrightarrow> T \<subseteq> U \<Longrightarrow> recent k e U m"
  unfolding recent_def by blast

lemma recent_get: "recent k e T m \<Longrightarrow> js_get m k = Some e"
  by (erule recentE, rule map_of_is_SomeI) auto

lemma recent_delete:
  assumes "recent k e T m" "j \<noteq> k"
  shows "recent k e (T - {j}) (js_delete j m)"
proof -
  from assms(1) obtain A B where m: "js_wf m" "m = A @ (k, e) # B" "fst ` set B \<subseteq> T"
    by (rule recentE)
  from m(2) assms(2) have "js_delete j m = js_delete j A @ (k, e) # js_delete j B"
    by (simp add: js_delete_def)
  moreover have "fst ` set (js_delete j B) \<subseteq> T - {j}" using m(3) by (auto simp: js_keys_delete)
  ultimately show ?thesis using js_wf_delete [OF m(1)] by (intro recentI)
qed

lemma recent_append:
  assumes "recent k e T m" "js_get m j = None"
  shows "recent k e (insert j T) (js_set j w m)"
proof -
  from assms(1) obtain A B where m: "js_wf m" "m = A @ (k, e) # B" "fst ` set B \<subseteq> T"
    by (rule recentE)
  have "js_set j w m = A @ (k, e) # (B @ [(j, w)])"
    using js_set_absent [OF assms(2), of w] m(2) by simp
  moreover have "fst ` set (B @ [(j, w)]) \<subseteq> insert j T" using m(3) by auto
  ultimately show ?thesis using js_wf_set [OF m(1)] by (intro recentI)
qed

lemma recent_evict:
  assumes r: "recent k e T m" and T: "finite T" "Suc (card T) < n" and "n \<le> length m"
    and m: "m = (j, w) # m'"
  shows "j \<noteq> k \<and> recent k e T (js_delete j m)"
proof -
  from r obtain A B where AB: "js_wf m" "m = A @ (k, e) # B" "fst ` set B \<subseteq> T"
    by (rule recentE)
  have "A \<noteq> []"
  proof
    assume "A = []"
    with AB have len: "length m = Suc (length B)" and "distinct (map fst B)" by auto
    then have "length B = card (fst ` set B)" by (metis distinct_card length_map set_map)
    also have "\<dots> \<le> card T" using AB T by (intro card_mono)
    finally show False using T(2) assms(4) len by linarith
  qed
  then obtain A' where A: "A = (j, w) # A'" using AB m by (cases A) auto
  then have "m = (j, w) # (A' @ (k, e) # B)" using AB by simp
  with AB(1) have "js_delete j m = A' @ (k, e) # B" "j \<noteq> k" "js_wf (js_delete j m)"
    by (auto simp: js_delete_first js_wf_delete)
  with AB(3) show ?thesis by (auto intro: recentI)
qed

lemma recent_apply:
  assumes r: "recent k e T (cc_cache c)" and T: "finite T" "k \<notin> T"
    and small: "card (insert (op_key op) T - {k}) < cc_maxEntries c"
    and op: "\<not> is_set_of k op" "op_time op \<le> ce_expiresAt e"
  shows "recent k e (insert (op_key op) T - {k}) (cc_cache (cc_apply op c))"
proof (cases op)
  case (CGet now j)
  show ?thesis
  proof (cases "j = k")
    case True
    have "js_get (js_delete k (cc_cache c)) k = None" by (simp add: js_get_delete)
    then have "js_set k e (js_delete k (cc_cache c)) = js_delete k (cc_cache c) @ [(k, e)]"
      by (rule js_set_absent)
    moreover have "js_wf (js_set k e (js_delete k (cc_cache c)))"
      using r by (auto simp: recent_def intro!: js_wf_set js_wf_delete)
    ultimately have "recent k e {} (js_set k e (js_delete k (cc_cache c)))"
      by (intro recentI [where B = "[]"]) auto
    then have "recent k e {} (cc_cache (cc_apply op c))"
      using recent_get [OF r] True CGet op by (simp add: cc_get_def)
    then show ?thesis by (rule recent_mono) simp
  next
    case False
    let ?m1 = "js_delete j (cc_cache c)"
    have d: "recent k e (T - {j}) ?m1" using r False by (rule recent_delete)
    have "recent k e (insert j (T - {j})) (js_set j x ?m1)" for x
      using d by (rule recent_append) (simp add: js_get_delete)
    then have "recent k e (insert j T - {k}) (js_set j x ?m1)" for x
      by (rule recent_mono) (use False T in auto)
    moreover have "recent k e (insert j T - {k}) ?m1" 
      by (rule recent_mono [OF d]) (use T in auto)
    moreover have "recent k e (insert j T - {k}) (cc_cache c)"
      by (rule recent_mono [OF r]) (use T in auto)
    ultimately show ?thesis using CGet by (auto simp: cc_get_def split: option.splits)
  qed
next
  case (CSet now j v)
  with op have jk: "j \<noteq> k" by auto
  let ?m1 = "js_delete j (cc_cache c)"
  let ?m2 = "if length ?m1 \<ge> cc_maxEntries c
                then (case ?m1 of [] \<Rightarrow> ?m1 | (f, _) # _ \<Rightarrow> js_delete f ?m1) else ?m1"
  have d: "recent k e (T - {j}) ?m1" using r jk by (rule recent_delete)
  have "insert j T - {k} = insert j (T - {j})" using T jk by auto
  then have cardT: "Suc (card (T - {j})) < cc_maxEntries c" using small CSet T
    by (simp add: card.insert_remove)
  have m1j: "js_get ?m1 j = None" by (simp add: js_get_delete)
  have m2: "recent k e (T - {j}) ?m2 \<and> js_get ?m2 j = None"
  proof (cases "length ?m1 \<ge> cc_maxEntries c")
    case True
    then obtain f w m' where m1: "?m1 = (f, w) # m'" using cardT by (cases ?m1) auto
    have "js_get (js_delete f ?m1) j = None" using m1j js_get_delete [of f ?m1 j] by metis
    with True m1 show ?thesis using recent_evict [OF d _ cardT True m1] T by simp
  qed (use d m1j in simp)
  then have "recent k e (insert j (T - {j})) (js_set j x ?m2)" for x
    by (intro recent_append) blast+
  then have "recent k e (insert j T - {k}) (js_set j x ?m2)" for x
    by (rule recent_mono) (use jk T in auto)
  then show ?thesis using CSet by (simp add: cc_set_def Let_def)
qed

lemma recent_run:
  assumes "recent k e T (cc_cache c)" "finite T" "k \<notin> T"
    and "card (T \<union> op_key ` set ops - {k}) < cc_maxEntries c"
    and "\<forall>op \<in> set ops. \<not> is_set_of k op \<and> op_time op \<le> ce_expiresAt e"
  shows "recent k e (T \<union> op_key ` set ops - {k}) (cc_cache (fold cc_apply ops c))"
  using assms
proof (induction ops arbitrary: T c)
  case Nil
  then show ?case by (simp add: Diff_triv)
next
  case (Cons op ops)
  let ?T = "insert (op_key op) T - {k}"
  have sub: "?T \<union> op_key ` set ops - {k} = T \<union> op_key ` set (op # ops) - {k}" by auto
  have "card ?T \<le> card (T \<union> op_key ` set (op # ops) - {k})"
    using Cons.prems by (intro card_mono) auto
  with Cons.prems have "recent k e ?T (cc_cache (cc_apply op c))"
    by (intro recent_apply) auto
  with Cons.prems sub show ?case
    using Cons.IH [of ?T "cc_apply op c"] by simp
qed

text \<open>
  The certificate cache is a true LRU cache: a certificate that has just been used or stored
  is still returned, unexpired, after any reads and any stores of other domains, as long as
  these touch fewer other domains than the cache has places.
\<close>
theorem cert_cache_lru:
  assumes "js_wf (cc_cache c)" "cc_cache c = A @ [(k, e)]"
    and "\<forall>op \<in> set ops. \<not> is_set_of k op \<and> op_time op \<le> ce_expiresAt e"
    and "card (op_key ` set ops - {k}) < cc_maxEntries c"
    and "now \<le> ce_expiresAt e"
  shows "fst (cc_get now k (fold cc_apply ops c)) = Some (ce_value e)"
proof -
  have "recent k e {} (cc_cache c)" using assms(1,2) by (intro recentI [where B = "[]"]) auto
  from recent_run [OF this, of ops] assms(3,4)
  have "js_get (cc_cache (fold cc_apply ops c)) k = Some e" by (auto intro: recent_get)
  with assms(5) show ?thesis by (simp add: cc_get_def)
qed

theorem cert_cache_lru_witness:
  "fst (cc_get 5 ''a'' (fold cc_apply [CSet 1 ''b'' 2, CGet 2 ''a'', CSet 3 ''b'' 3]
     (cc_set 0 ''a'' (1::nat) (newCertCache (Some 2) (Some 10))))) = Some 1"
proof -
  let ?c = "cc_set 0 ''a'' (1::nat) (newCertCache (Some 2) (Some 10))"
  let ?e = "\<lparr>ce_value = 1 :: nat, ce_expiresAt = 10\<rparr>"
  have c: "cc_cache ?c = [] @ [(''a'', ?e)]" "cc_maxEntries ?c = 2" by code_simp+
  have "{''b'', ''a'', ''b''} - {''a''} = {''b''}" by auto
  then have "card (op_key ` set [CSet 1 ''b'' (2::nat), CGet 2 ''a'', CSet 3 ''b'' 3] - {''a''}) <
      cc_maxEntries ?c"
    using c(2) by simp
  with cert_cache_lru [OF _ c(1), of "[CSet 1 ''b'' 2, CGet 2 ''a'', CSet 3 ''b'' 3]" 5] c
  show ?thesis by simp
qed

text \<open>
  The cache never holds more entries than its capacity (a capacity of zero still admits the
  entry being stored).
\<close>
theorem cert_cache_bounded:
  "cc_size (fold cc_apply ops (newCertCache n ttl :: 'a CertCache)) \<le> max 1 (case n of None \<Rightarrow> 200 | Some k \<Rightarrow> k)"
proof -
  have "js_wf (cc_cache (fold cc_apply ops c)) \<and>
      length (cc_cache (fold cc_apply ops c)) \<le> max 1 (cc_maxEntries c)"
    if "js_wf (cc_cache c)" "length (cc_cache c) \<le> max 1 (cc_maxEntries c)" for c :: "'a CertCache"
    using that
  proof (induction ops arbitrary: c)
    case (Cons op ops)
    then show ?case
      using Cons.IH [of "cc_apply op c"] cc_wf_apply cc_size_apply by force
  qed simp
  from this [of "newCertCache n ttl"] show ?thesis
    by (simp add: cc_size_def newCertCache_def)
qed

end
