(* ===== verification/Effects.thy ===== *)
theory Effects
  imports Prelude
begin

text \<open>
  Straight-line asynchronous code that calls other services and may throw. A computation is the
  list of calls it made with its result, an error message on the left; the services it calls are
  functions from the call to a result. Also the JSON values that cross the components' interfaces.
\<close>

type_synonym ('a, 'r) act = "'a list \<times> (string + 'r)"

definition ret :: "'r \<Rightarrow> ('a, 'r) act" where
  "ret x = ([], Inr x)"

definition throw :: "string \<Rightarrow> ('a, 'r) act" where
  "throw e = ([], Inl e)"

definition call :: "'a \<Rightarrow> string + 'r \<Rightarrow> ('a, 'r) act" where
  "call a r = ([a], r)"

definition bindA :: "('a, 'r) act \<Rightarrow> ('r \<Rightarrow> ('a, 's) act) \<Rightarrow> ('a, 's) act" where
  "bindA m f =
     (case m of
        (as, Inl e) \<Rightarrow> (as, Inl e)
      | (as, Inr x) \<Rightarrow> (as @ fst (f x), snd (f x)))"

text \<open>\<^verbatim>\<open>try { m } catch (e) { h(e) }\<close>\<close>

definition tryA :: "('a, 'r) act \<Rightarrow> (string \<Rightarrow> ('a, 'r) act) \<Rightarrow> ('a, 'r) act" where
  "tryA m h =
     (case m of
        (as, Inl e) \<Rightarrow> (as @ fst (h e), snd (h e))
      | (as, Inr x) \<Rightarrow> (as, Inr x))"

text \<open>A loop over a list whose body is run for its effects.\<close>

fun forA :: "'x list \<Rightarrow> ('x \<Rightarrow> ('a, unit) act) \<Rightarrow> ('a, unit) act" where
  "forA [] f = ret ()"
| "forA (x # xs) f = bindA (f x) (\<lambda>_. forA xs f)"

definition whenA :: "bool \<Rightarrow> ('a, unit) act \<Rightarrow> ('a, unit) act" where
  "whenA b m = (if b then m else ret ())"

lemma ret_simps [simp]: "fst (ret x) = []" "snd (ret x) = Inr x" "fst (throw e) = []" "snd (throw e) = Inl e"
  by (simp_all add: ret_def throw_def)

lemma call_simps [simp]: "fst (call a r) = [a]" "snd (call a r) = r"
  by (simp_all add: call_def)

lemma bindA_ret [simp]: "bindA (ret x) f = f x" "bindA (throw e) f = throw e"
  by (simp_all add: bindA_def ret_def throw_def)

lemma fst_bindA: "fst (bindA m f) = fst m @ (case snd m of Inl e \<Rightarrow> [] | Inr x \<Rightarrow> fst (f x))"
  by (cases m) (auto simp: bindA_def split: sum.splits)

lemma snd_bindA: "snd (bindA m f) = (case snd m of Inl e \<Rightarrow> Inl e | Inr x \<Rightarrow> snd (f x))"
  by (cases m) (auto simp: bindA_def split: sum.splits)

lemma fst_tryA: "fst (tryA m h) = fst m @ (case snd m of Inl e \<Rightarrow> fst (h e) | Inr x \<Rightarrow> [])"
  by (cases m) (auto simp: tryA_def split: sum.splits)

lemma snd_tryA: "snd (tryA m h) = (case snd m of Inl e \<Rightarrow> snd (h e) | Inr x \<Rightarrow> Inr x)"
  by (cases m) (auto simp: tryA_def split: sum.splits)

lemmas act_simps = fst_bindA snd_bindA fst_tryA snd_tryA

lemma bindA_assoc: "bindA (bindA m f) g = bindA m (\<lambda>x. bindA (f x) g)"
  by (rule prod_eqI) (auto simp: act_simps split: sum.splits)

text \<open>A predicate on calls holds of everything a computation calls.\<close>

definition only :: "('a \<Rightarrow> bool) \<Rightarrow> ('a, 'r) act \<Rightarrow> bool" where
  "only P m \<longleftrightarrow> list_all P (fst m)"

lemma only_intros [intro, simp]:
  "only P (ret x)" "only P (throw e)" "P a \<Longrightarrow> only P (call a r)"
  by (simp_all add: only_def)

lemma only_bindA [intro!]: "only P m \<Longrightarrow> (\<And>x. only P (f x)) \<Longrightarrow> only P (bindA m f)"
  by (auto simp: only_def fst_bindA split: sum.splits)

lemma only_tryA [intro!]: "only P m \<Longrightarrow> (\<And>e. only P (h e)) \<Longrightarrow> only P (tryA m h)"
  by (auto simp: only_def fst_tryA split: sum.splits)

lemma only_forA [intro!]: "(\<And>x. only P (f x)) \<Longrightarrow> only P (forA xs f)"
  by (induction xs) auto

lemma only_whenA [intro!]: "only P m \<Longrightarrow> only P (whenA b m)"
  by (simp add: whenA_def)

lemma only_case_option [intro!]: "only P m \<Longrightarrow> (\<And>y. only P (f y)) \<Longrightarrow> only P (case z of None \<Rightarrow> m | Some y \<Rightarrow> f y)"
  by (cases z) auto

lemma only_mono: "only P m \<Longrightarrow> (\<And>a. P a \<Longrightarrow> Q a) \<Longrightarrow> only Q m"
  by (auto simp: only_def list_all_iff)

lemma only_filter: "only (\<lambda>a. \<not> P a) m \<Longrightarrow> filter P (fst m) = []"
  by (simp add: only_def list_all_iff filter_empty_conv)

lemma filter_bindA:
  "filter P (fst (bindA m f)) = filter P (fst m) @ (case snd m of Inl e \<Rightarrow> [] | Inr x \<Rightarrow> filter P (fst (f x)))"
  by (simp add: fst_bindA split: sum.splits)

text \<open>A computation makes a call of kind \<open>P\<close> at most once.\<close>

definition once :: "('a \<Rightarrow> bool) \<Rightarrow> ('a, 'r) act \<Rightarrow> bool" where
  "once P m \<longleftrightarrow> length (filter P (fst m)) \<le> 1"

lemma only_once [intro]: "only (\<lambda>a. \<not> P a) m \<Longrightarrow> once P m"
  by (simp add: once_def only_filter)

lemma once_call [intro!]: "once P (call a r)"
  by (simp add: once_def)

lemma once_bindA1: "only (\<lambda>a. \<not> P a) m \<Longrightarrow> (\<And>x. once P (f x)) \<Longrightarrow> once P (bindA m f)"
  by (auto simp: once_def filter_bindA only_filter split: sum.splits)

lemma once_bindA2: "once P m \<Longrightarrow> (\<And>x. only (\<lambda>a. \<not> P a) (f x)) \<Longrightarrow> once P (bindA m f)"
  by (auto simp: once_def filter_bindA only_filter split: sum.splits)

lemma once_tryA: "once P m \<Longrightarrow> (\<And>e. only (\<lambda>a. \<not> P a) (h e)) \<Longrightarrow> once P (tryA m h)"
  by (auto simp: once_def fst_tryA only_filter split: sum.splits)

text \<open>A string as a condition: \<^verbatim>\<open>undefined\<close>, \<^verbatim>\<open>null\<close> and the empty string are false.\<close>

definition truthy :: "string option \<Rightarrow> bool" where
  "truthy s \<longleftrightarrow> s \<noteq> None \<and> s \<noteq> Some []"

lemma truthy_simps [simp]: "\<not> truthy None" "truthy (Some s) \<longleftrightarrow> s \<noteq> []"
  by (simp_all add: truthy_def)

section \<open>JSON values\<close>

text \<open>Numbers are integers: the modelled code reads sizes, ports, counts and timestamps.\<close>

datatype json =
    JNull
  | JBool bool
  | JNum int
  | JStr string
  | JArr "json list"
  | JObj "(string \<times> json) list"

fun field :: "json \<Rightarrow> string \<Rightarrow> json option" where
  "field (JObj kvs) k = map_of kvs k"
| "field _ k = None"

fun as_string :: "json option \<Rightarrow> string option" where
  "as_string (Some (JStr s)) = Some s"
| "as_string _ = None"

fun as_number :: "json option \<Rightarrow> int option" where
  "as_number (Some (JNum n)) = Some n"
| "as_number _ = None"

end
