(* ===== verification/Audit_Log.thy ===== *)
theory Audit_Log
  imports Prelude
begin

text \<open>
  \<^verbatim>\<open>src/src/proxy/audit-log.ts\<close>: the append-only log of the proxy, one line per request. The state is the
  file with the flag that its directory was made; an append may fail and is then dropped. Shown: the
  log can be read back, line by line and field by field.
\<close>

record AuditEntry =
  ae_timestamp :: string
  ae_method :: string
  ae_host :: string
  ae_statusCode :: int
  ae_durationMs :: int
  ae_credentialName :: string

record AuditLog =
  al_file :: string
  al_initialized :: bool

definition newline :: char where
  "newline = CHR 0x0A"

definition audit_initialize :: "AuditLog \<Rightarrow> AuditLog" where
  "audit_initialize log = (if al_initialized log then log else log\<lparr>al_initialized := True\<rparr>)"

definition audit_line :: "AuditEntry \<Rightarrow> string" where
  "audit_line e =
     ae_timestamp e @ '' '' @ ae_method e @ '' '' @ ae_host e @ '' '' @
     show_int (ae_statusCode e) @ '' '' @ show_int (ae_durationMs e) @ ''ms '' @
     ''credential='' @ ae_credentialName e @ [newline]"

definition audit_log :: "bool \<Rightarrow> AuditEntry \<Rightarrow> AuditLog \<Rightarrow> AuditLog" where
  "audit_log append_ok e log =
     (let log = (if al_initialized log then log else audit_initialize log)
      in if append_ok then log\<lparr>al_file := al_file log @ audit_line e\<rparr> else log)"

text \<open>\<open>isoTime\<close> is \<^verbatim>\<open>new Date(t).toISOString()\<close>.\<close>

definition logRequest ::
    "(time \<Rightarrow> string) \<Rightarrow> bool \<Rightarrow> time \<Rightarrow> string \<Rightarrow> string \<Rightarrow> int \<Rightarrow> time \<Rightarrow> string \<Rightarrow> AuditLog \<Rightarrow> AuditLog" where
  "logRequest isoTime append_ok now method host statusCode startTime credentialName log =
     audit_log append_ok
       \<lparr>ae_timestamp = isoTime now, ae_method = method, ae_host = host, ae_statusCode = statusCode,
        ae_durationMs = now - startTime, ae_credentialName = credentialName\<rparr> log"

section \<open>Reading the log\<close>

definition clean_word :: "string \<Rightarrow> bool" where
  "clean_word s \<longleftrightarrow> CHR '' '' \<notin> set s \<and> newline \<notin> set s"

definition clean_entry :: "AuditEntry \<Rightarrow> bool" where
  "clean_entry e \<longleftrightarrow> clean_word (ae_timestamp e) \<and> clean_word (ae_method e) \<and> clean_word (ae_host e) \<and>
     clean_word (ae_credentialName e)"

definition audit_fields :: "AuditEntry \<Rightarrow> string list" where
  "audit_fields e = [ae_timestamp e, ae_method e, ae_host e, show_int (ae_statusCode e),
     show_int (ae_durationMs e) @ ''ms'', ''credential='' @ ae_credentialName e]"

text \<open>What a reader of the file sees: its lines, split at spaces; the piece after the last newline is dropped.\<close>

definition read_log :: "string \<Rightarrow> string list list" where
  "read_log file = map (split_on (CHR '' '')) (butlast (split_on newline file))"

lemma clean_show_int: "clean_word (show_int i)"
  by (auto simp: clean_word_def newline_def dest: show_int_chars)

lemma audit_line_split:
  assumes "clean_entry e"
  obtains body where "audit_line e = body @ [newline]" "newline \<notin> set body"
    "split_on (CHR '' '') body = audit_fields e"
proof -
  let ?sp = "CHR '' ''"
  let ?body = "ae_timestamp e @ ?sp # ae_method e @ ?sp # ae_host e @ ?sp # show_int (ae_statusCode e) @ ?sp #
    (show_int (ae_durationMs e) @ ''ms'') @ ?sp # ''credential='' @ ae_credentialName e"
  have ms: "clean_word (show_int (ae_durationMs e) @ ''ms'')" "clean_word (''credential='' @ ae_credentialName e)"
    using assms clean_show_int [of "ae_durationMs e"] by (auto simp: clean_word_def clean_entry_def newline_def)
  have "audit_line e = ?body @ [newline]" by (simp add: audit_line_def)
  moreover have "newline \<notin> set ?body"
    using assms ms clean_show_int [of "ae_statusCode e"] by (auto simp: clean_entry_def clean_word_def newline_def)
  moreover have "split_on ?sp ?body = audit_fields e"
    using assms ms clean_show_int [of "ae_statusCode e"]
    unfolding audit_fields_def clean_entry_def clean_word_def by (simp only: split_on_append split_on_id not_False_eq_True simp_thms)
  ultimately show thesis by (rule that)
qed

lemma audit_log_file:
  "al_file (fold (audit_log True) es log) = al_file log @ concat (map audit_line es)"
  by (induction es arbitrary: log) (simp_all add: audit_log_def audit_initialize_def Let_def)

text \<open>
  The audit log can be read back: after any entries whose fields contain no blanks, the lines
  of the file are exactly those entries in order, each with its six fields.
\<close>

theorem audit_log_readable:
  assumes "\<forall>e \<in> set es. clean_entry e"
  shows "read_log (al_file (fold (audit_log True) es \<lparr>al_file = '''', al_initialized = i\<rparr>)) = map audit_fields es"
proof -
  have "butlast (split_on newline (concat (map audit_line es))) = map (\<lambda>e. butlast (audit_line e)) es \<and>
      map (\<lambda>e. split_on (CHR '' '') (butlast (audit_line e))) es = map audit_fields es"
    using assms
  proof (induction es)
    case (Cons e es)
    obtain body where b: "audit_line e = body @ [newline]" "newline \<notin> set body"
        "split_on (CHR '' '') body = audit_fields e"
      using audit_line_split Cons.prems by (metis list.set_intros(1))
    then show ?case using Cons by (simp add: split_on_append)
  qed simp
  then show ?thesis by (simp add: audit_log_file read_log_def comp_def)
qed

theorem audit_log_readable_witness:
  "read_log (al_file (fold (audit_log True)
      [\<lparr>ae_timestamp = ''t'', ae_method = ''GET'', ae_host = ''h'', ae_statusCode = 200, ae_durationMs = 5,
        ae_credentialName = ''c''\<rparr>] \<lparr>al_file = '''', al_initialized = False\<rparr>)) =
    [[''t'', ''GET'', ''h'', show_int 200, show_int 5 @ ''ms'', ''credential=c'']]"
  using audit_log_readable [of "[\<lparr>ae_timestamp = ''t'', ae_method = ''GET'', ae_host = ''h'',
      ae_statusCode = 200, ae_durationMs = 5, ae_credentialName = ''c''\<rparr>]" False]
  by (simp add: clean_entry_def clean_word_def newline_def audit_fields_def)

end
