(* ===== verification/Cost_Log.thy ===== *)
theory Cost_Log
  imports Effects Audit_Log
begin

text \<open>
  \<^verbatim>\<open>src/src/proxy/cost-log.ts\<close>: token usage from the bodies of API responses. \<open>parse\<close> stands for
  \<^verbatim>\<open>JSON.parse\<close>, \<open>None\<close> when it throws. Shown: what the scan of a streamed body computes, and that
  a streamed answer is billed like the same answer sent in one piece.
\<close>

record CostEntry =
  ce_ts :: string
  ce_credential :: string
  ce_model :: string
  ce_inputTokens :: int
  ce_outputTokens :: int
  ce_cacheCreationInputTokens :: "int option"
  ce_cacheReadInputTokens :: "int option"

section \<open>Parsing\<close>

text \<open>A value as a condition.\<close>

fun json_true :: "json option \<Rightarrow> bool" where
  "json_true None \<longleftrightarrow> False"
| "json_true (Some JNull) \<longleftrightarrow> False"
| "json_true (Some (JBool b)) \<longleftrightarrow> b"
| "json_true (Some (JNum n)) \<longleftrightarrow> n \<noteq> 0"
| "json_true (Some (JStr s)) \<longleftrightarrow> s \<noteq> ''''"
| "json_true (Some v) \<longleftrightarrow> True"

definition nonzero :: "int option \<Rightarrow> bool" where
  "nonzero n \<longleftrightarrow> n \<noteq> None \<and> n \<noteq> Some 0"

definition orZero :: "int option \<Rightarrow> int" where
  "orZero n = (case n of Some k \<Rightarrow> k | None \<Rightarrow> 0)"

text \<open>The common end of both parsers: no entry when everything is zero.\<close>

definition costEntry ::
    "string \<Rightarrow> string \<Rightarrow> string \<Rightarrow> int \<Rightarrow> int \<Rightarrow> int option \<Rightarrow> int option \<Rightarrow> CostEntry option" where
  "costEntry ts credentialName model inputTokens outputTokens cacheCreation cacheRead =
     (if inputTokens = 0 \<and> outputTokens = 0 \<and> \<not> nonzero cacheCreation \<and> \<not> nonzero cacheRead then None
      else Some \<lparr>ce_ts = ts, ce_credential = credentialName, ce_model = model,
                 ce_inputTokens = inputTokens, ce_outputTokens = outputTokens,
                 ce_cacheCreationInputTokens = cacheCreation, ce_cacheReadInputTokens = cacheRead\<rparr>)"

text \<open>A property access on a value that is not an object or array gives \<^verbatim>\<open>undefined\<close>, except on \<^verbatim>\<open>null\<close>.\<close>

definition parseJsonUsage ::
    "(string \<Rightarrow> json option) \<Rightarrow> string \<Rightarrow> string \<Rightarrow> string \<Rightarrow> CostEntry option" where
  "parseJsonUsage parse ts body credentialName =
     (case parse body of
        None \<Rightarrow> None
      | Some parsed \<Rightarrow>
          (if \<not> json_true (field parsed ''usage'') then None
           else
             let usage = the (field parsed ''usage'')
             in costEntry ts credentialName
                  (case as_string (field parsed ''model'') of Some m \<Rightarrow> m | None \<Rightarrow> ''unknown'')
                  (orZero (as_number (field usage ''input_tokens'')))
                  (orZero (as_number (field usage ''output_tokens'')))
                  (as_number (field usage ''cache_creation_input_tokens''))
                  (as_number (field usage ''cache_read_input_tokens''))))"

text \<open>The variables of the scan.\<close>

record sse_state =
  ss_input :: int
  ss_output :: int
  ss_creation :: "int option"
  ss_read :: "int option"
  ss_model :: string

definition set_if :: "'a option \<Rightarrow> ('a \<Rightarrow> 's \<Rightarrow> 's) \<Rightarrow> 's \<Rightarrow> 's" where
  "set_if v f s = (case v of Some x \<Rightarrow> f x s | None \<Rightarrow> s)"

definition sseStart :: "json \<Rightarrow> sse_state \<Rightarrow> sse_state" where
  "sseStart event s =
     (if field event ''type'' = Some (JStr ''message_start'') \<and> json_true (field event ''message'') then
        let message = the (field event ''message'');
            s = set_if (as_string (field message ''model'')) (\<lambda>m s. s\<lparr>ss_model := m\<rparr>) s
        in if json_true (field message ''usage'') then
             let usage = the (field message ''usage'');
                 s = set_if (as_number (field usage ''input_tokens'')) (\<lambda>n s. s\<lparr>ss_input := n\<rparr>) s;
                 s = set_if (as_number (field usage ''cache_creation_input_tokens'')) (\<lambda>n s. s\<lparr>ss_creation := Some n\<rparr>) s
             in set_if (as_number (field usage ''cache_read_input_tokens'')) (\<lambda>n s. s\<lparr>ss_read := Some n\<rparr>) s
           else s
      else s)"

definition sseDelta :: "json \<Rightarrow> sse_state \<Rightarrow> sse_state" where
  "sseDelta event s =
     (if field event ''type'' = Some (JStr ''message_delta'') \<and> json_true (field event ''usage'') then
        set_if (as_number (field (the (field event ''usage'')) ''output_tokens'')) (\<lambda>n s. s\<lparr>ss_output := n\<rparr>) s
      else s)"

definition sseLine :: "(string \<Rightarrow> json option) \<Rightarrow> string \<Rightarrow> sse_state \<Rightarrow> sse_state" where
  "sseLine parse line s =
     (if \<not> startsWith line ''data: '' then s
      else
        let jsonStr = drop 6 line
        in if \<not> startsWith (trimStart jsonStr) ''{'' then s
           else case parse jsonStr of
                  None \<Rightarrow> s
                | Some event \<Rightarrow> sseDelta event (sseStart event s))"

definition sse_init :: sse_state where
  "sse_init = \<lparr>ss_input = 0, ss_output = 0, ss_creation = None, ss_read = None, ss_model = ''unknown''\<rparr>"

definition parseSseUsage ::
    "(string \<Rightarrow> json option) \<Rightarrow> string \<Rightarrow> string \<Rightarrow> string \<Rightarrow> CostEntry option" where
  "parseSseUsage parse ts body credentialName =
     (let s = fold (sseLine parse) (split_on newline body) sse_init
      in costEntry ts credentialName (ss_model s) (ss_input s) (ss_output s) (ss_creation s) (ss_read s))"

definition parseAnthropicUsage ::
    "(string \<Rightarrow> json option) \<Rightarrow> string \<Rightarrow> string \<Rightarrow> string \<Rightarrow> CostEntry option" where
  "parseAnthropicUsage parse ts body credentialName =
     (if startsWith (trimStart body) ''{'' then parseJsonUsage parse ts body credentialName
      else parseSseUsage parse ts body credentialName)"

section \<open>The file\<close>

text \<open>\<open>render\<close> is \<^verbatim>\<open>JSON.stringify\<close>; a failing append is dropped.\<close>

record CostLog =
  cl_file :: string
  cl_initialized :: bool

definition cost_ensureDir :: "CostLog \<Rightarrow> CostLog" where
  "cost_ensureDir log = (if cl_initialized log then log else log\<lparr>cl_initialized := True\<rparr>)"

definition cost_log :: "(CostEntry \<Rightarrow> string) \<Rightarrow> bool \<Rightarrow> CostEntry \<Rightarrow> CostLog \<Rightarrow> CostLog" where
  "cost_log render append_ok e log =
     (let log = cost_ensureDir log
      in if append_ok then log\<lparr>cl_file := cl_file log @ render e @ [newline]\<rparr> else log)"

section \<open>Streamed answers\<close>

text \<open>The events of a streamed body, in order.\<close>

definition sse_event :: "(string \<Rightarrow> json option) \<Rightarrow> string \<Rightarrow> json option" where
  "sse_event parse line =
     (if startsWith line ''data: '' \<and> startsWith (trimStart (drop 6 line)) ''{'' then parse (drop 6 line) else None)"

lemma sseLine_event:
  "sseLine parse line s = (case sse_event parse line of None \<Rightarrow> s | Some e \<Rightarrow> sseDelta e (sseStart e s))"
  by (simp add: sseLine_def sse_event_def Let_def)

lemma fold_sseLine:
  "fold (sseLine parse) ls s = fold (\<lambda>e s. sseDelta e (sseStart e s)) (List.map_filter (sse_event parse) ls) s"
  by (induction ls arbitrary: s) (auto simp: sseLine_event List.map_filter_def)

text \<open>An event that is neither a start nor a delta.\<close>

definition irrelevant :: "json \<Rightarrow> bool" where
  "irrelevant e \<longleftrightarrow> field e ''type'' \<noteq> Some (JStr ''message_start'') \<and> field e ''type'' \<noteq> Some (JStr ''message_delta'')"

lemma fold_irrelevant:
  "\<forall>e \<in> set es. irrelevant e \<Longrightarrow> fold (\<lambda>e s. sseDelta e (sseStart e s)) es s = s"
  by (induction es) (auto simp: irrelevant_def sseDelta_def sseStart_def)

text \<open>
  A streamed answer is billed like the same answer in one piece: when the lines of a streamed
  body contain one start event with the answer's model and usage and, later, one delta event with
  the output tokens, and otherwise only events of other types, comments or lines that do not parse,
  the entry equals the one for a JSON body with that model and usage.
\<close>

theorem streamed_usage_equals_json_usage:
  assumes "List.map_filter (sse_event parse) (split_on newline body) = before @ [start_event] @ between @ [delta_event] @ behind"
    and "\<forall>e \<in> set (before @ between @ behind). irrelevant e"
    and "start_event = JObj [(''type'', JStr ''message_start''),
           (''message'', JObj [(''model'', JStr model), (''usage'', JObj usage)])]"
    and "delta_event = JObj [(''type'', JStr ''message_delta''), (''usage'', JObj [(''output_tokens'', JNum out)])]"
    and "\<not> startsWith (trimStart body) ''{''" "startsWith (trimStart json_body) ''{''"
    and "parse json_body = Some (JObj [(''model'', JStr model),
           (''usage'', JObj (js_set ''output_tokens'' (JNum out) usage))])"
  shows "parseAnthropicUsage parse ts body credentialName = parseAnthropicUsage parse ts json_body credentialName"
proof -
  have out: "as_number (map_of (js_set ''output_tokens'' (JNum out) usage) ''output_tokens'') = Some out"
    by (simp add: js_get_set)
  have others: "map_of (js_set ''output_tokens'' (JNum out) usage) k = map_of usage k" if "k \<noteq> ''output_tokens''" for k
    using that by (simp add: js_get_set)
  have "fold (sseLine parse) (split_on newline body) sse_init = sseDelta delta_event (sseStart start_event sse_init)"
    using assms(1,2) fold_irrelevant [of before] fold_irrelevant [of between] fold_irrelevant [of behind]
    by (simp add: fold_sseLine) (simp add: assms(3,4) sseDelta_def sseStart_def)
  also have "\<dots> = \<lparr>ss_input = orZero (as_number (map_of usage ''input_tokens'')), ss_output = out,
      ss_creation = as_number (map_of usage ''cache_creation_input_tokens''),
      ss_read = as_number (map_of usage ''cache_read_input_tokens''), ss_model = model\<rparr>"
    by (auto simp: assms(3,4) sseDelta_def sseStart_def Let_def set_if_def sse_init_def orZero_def split: option.split)
  finally show ?thesis
    using assms(5-7) out others
    by (simp add: parseAnthropicUsage_def parseSseUsage_def parseJsonUsage_def Let_def orZero_def)
qed

definition toy_start :: json where
  "toy_start = JObj [(''type'', JStr ''message_start''),
     (''message'', JObj [(''model'', JStr ''m''), (''usage'', JObj [(''input_tokens'', JNum 5)])])]"

definition toy_delta :: json where
  "toy_delta = JObj [(''type'', JStr ''message_delta''), (''usage'', JObj [(''output_tokens'', JNum 7)])]"

definition toy_json :: json where
  "toy_json = JObj [(''model'', JStr ''m''), (''usage'', JObj [(''input_tokens'', JNum 5), (''output_tokens'', JNum 7)])]"

definition toy_parse :: "string \<Rightarrow> json option" where
  "toy_parse = map_of [(''{s'', toy_start), (''{d'', toy_delta), (''{j'', toy_json)]"

definition toy_stream :: string where
  "toy_stream = ''data: {s'' @ newline # '': x'' @ newline # ''data: {d''"

theorem streamed_usage_equals_json_usage_witness:
  "parseAnthropicUsage toy_parse ''t'' toy_stream ''c'' = parseAnthropicUsage toy_parse ''t'' ''{j'' ''c'' \<and>
   parseAnthropicUsage toy_parse ''t'' toy_stream ''c'' =
     Some \<lparr>ce_ts = ''t'', ce_credential = ''c'', ce_model = ''m'', ce_inputTokens = 5, ce_outputTokens = 7,
           ce_cacheCreationInputTokens = None, ce_cacheReadInputTokens = None\<rparr>"
proof -
  have "List.map_filter (sse_event toy_parse) (split_on newline toy_stream) = [toy_start, toy_delta]"
    by (simp add: toy_stream_def newline_def List.map_filter_def sse_event_def startsWith_def trimStart_def
        is_space_def toy_parse_def Let_def)
  then have "parseAnthropicUsage toy_parse ''t'' toy_stream ''c'' = parseAnthropicUsage toy_parse ''t'' ''{j'' ''c''"
    by (intro streamed_usage_equals_json_usage [where before = "[]" and between = "[]" and behind = "[]" and model = "''m''"
          and usage = "[(''input_tokens'', JNum 5)]" and out = 7])
      (simp_all add: toy_start_def toy_delta_def toy_json_def toy_parse_def toy_stream_def startsWith_def
        trimStart_def is_space_def Let_def)
  moreover have "parseAnthropicUsage toy_parse ''t'' ''{j'' ''c'' =
      Some \<lparr>ce_ts = ''t'', ce_credential = ''c'', ce_model = ''m'', ce_inputTokens = 5, ce_outputTokens = 7,
           ce_cacheCreationInputTokens = None, ce_cacheReadInputTokens = None\<rparr>"
    by (simp add: parseAnthropicUsage_def parseJsonUsage_def startsWith_def trimStart_def is_space_def Let_def
        toy_parse_def toy_json_def costEntry_def orZero_def nonzero_def)
  ultimately show ?thesis by simp
qed

end
