(* ===== verification/Mitm_Handler.thy ===== *)
theory Mitm_Handler
  imports Proxy_Rate_Limiter Key_Rotator Proxy_Metrics Cert_Cache Cost_Log
begin

text \<open>
  \<^verbatim>\<open>src/src/proxy/mitm-handler.ts\<close>: what the proxy does with a CONNECT tunnel it terminates itself, and with
  each request in it. The limiter, the key rotator, the metrics and the logs are objects shared with
  the proxy server, so they are one record \<open>Shared\<close>. A forwarded request is a value; the upstream's
  answer enters as a separate step. Certificates and \<^verbatim>\<open>JSON.parse\<close> are parameters. Shown: exactly
  which headers leave, that the rules of the credential are enforced, that the client gets the
  upstream's bytes, and that requests inside a tunnel are not counted against the rate limit.
\<close>

section \<open>State and messages\<close>

text \<open>
  \<open>sh_costLog\<close> and \<open>sh_audit\<close> list the entries logged; the methods, the hosts and the
  statuses are what the code passes to \<^verbatim>\<open>logRequest\<close>.
\<close>

record AuditRecord =
  au_method :: string
  au_host :: string
  au_status :: nat
  au_start :: time
  au_credential :: string

record Shared =
  sh_rateLimiter :: RateLimiter
  sh_keyRotator :: "KeyRotator option"
  sh_metrics :: "ProxyMetrics option"
  sh_costLog :: "CostEntry list option"
  sh_audit :: "AuditRecord list"

record HttpRequest =
  rq_method :: "string option"
  rq_url :: "string option"
  rq_headers :: headers

record UpstreamRequest =
  up_hostname :: string
  up_port :: int
  up_path :: string
  up_method :: string
  up_headers :: headers

record HttpResponse =
  rs_status :: nat
  rs_headers :: "(string \<times> string) list"
  rs_body :: string

definition logAudit :: "string \<Rightarrow> string \<Rightarrow> nat \<Rightarrow> time \<Rightarrow> string \<Rightarrow> Shared \<Rightarrow> Shared" where
  "logAudit m host status start credentialName sh =
     sh\<lparr>sh_audit := sh_audit sh @ [\<lparr>au_method = m, au_host = host, au_status = status, au_start = start,
                                  au_credential = credentialName\<rparr>]\<rparr>"

definition withMetrics :: "(ProxyMetrics \<Rightarrow> ProxyMetrics) \<Rightarrow> Shared \<Rightarrow> Shared" where
  "withMetrics f sh = sh\<lparr>sh_metrics := map_option f (sh_metrics sh)\<rparr>"

text \<open>
  \<^verbatim>\<open>Number(s)\<close> of a header or port text: blank is 0, decimal digits with an optional sign are their
  value, anything else is \<^verbatim>\<open>NaN\<close> (\<open>None\<close>). Fractions, exponents and other bases are left out; the
  HTTP parser lets only digits through as a content length.
\<close>

definition digit_value :: "char \<Rightarrow> nat option" where
  "digit_value c = (let n = (of_char c :: nat) in if 48 \<le> n \<and> n \<le> 57 then Some (n - 48) else None)"

fun digits_value :: "nat \<Rightarrow> string \<Rightarrow> nat option" where
  "digits_value acc [] = Some acc"
| "digits_value acc (c # cs) =
     (case digit_value c of None \<Rightarrow> None | Some d \<Rightarrow> digits_value (10 * acc + d) cs)"

definition js_number :: "string \<Rightarrow> int option" where
  "js_number s =
     (case trim s of
        [] \<Rightarrow> Some 0
      | c # cs \<Rightarrow>
          if c = CHR ''-'' then (if cs = [] then None else map_option (\<lambda>n. - int n) (digits_value 0 cs))
          else if c = CHR ''+'' then (if cs = [] then None else map_option int (digits_value 0 cs))
          else map_option int (digits_value 0 (c # cs)))"

text \<open>\<^verbatim>\<open>Number(req.headers['content-length'] ?? 0)\<close>\<close>

definition contentLength :: "headers \<Rightarrow> int option" where
  "contentLength hs =
     (case js_get hs ''content-length'' of
        None \<Rightarrow> Some 0
      | Some (HStr s) \<Rightarrow> js_number s
      | Some (HList ss) \<Rightarrow> js_number (join_with '','' ss))"

definition HOP_BY_HOP_HEADERS :: "string list" where
  "HOP_BY_HOP_HEADERS = [''host'', ''connection'', ''keep-alive'', ''proxy-authorization'', ''proxy-connection'',
     ''te'', ''trailer'', ''transfer-encoding'', ''upgrade'']"

section \<open>The rules of a credential\<close>

text \<open>A comparison with \<^verbatim>\<open>NaN\<close> is false.\<close>

definition exceeds :: "int option \<Rightarrow> int \<Rightarrow> bool" where
  "exceeds n k = (case n of Some m \<Rightarrow> m > k | None \<Rightarrow> False)"

definition enforceRules :: "CredentialRule \<Rightarrow> string \<Rightarrow> string \<Rightarrow> int option \<Rightarrow> nat option" where
  "enforceRules credential m path len =
     (case cr_rules credential of
        None \<Rightarrow> None
      | Some rules \<Rightarrow>
          if (case rr_methods rules of Some (x # xs) \<Rightarrow> m \<notin> set (x # xs) | _ \<Rightarrow> False) then Some 403
          else if (case rr_pathPrefixes rules of
                     Some (x # xs) \<Rightarrow> \<not> list_ex (startsWith path) (x # xs) | _ \<Rightarrow> False) then Some 403
          else if (case rr_maxBodySize rules of Some k \<Rightarrow> exceeds len k | None \<Rightarrow> False) then Some 413
          else None)"

section \<open>Headers\<close>

text \<open>
  Injection and removal of the competing authentication header. Header names arrive in lower case
  from the HTTP parser. Header order is that of the map.
\<close>

definition injectCredential :: "CredentialRule \<Rightarrow> string \<Rightarrow> headers \<Rightarrow> headers" where
  "injectCredential credential credValue hs =
     (let name = toLowerCase (cr_header credential);
          hs = js_set name (HStr credValue) hs
      in if name = ''authorization'' then js_delete ''x-api-key'' hs
         else if name = ''x-api-key'' then js_delete ''authorization'' hs
         else hs)"

definition mitmHeaders :: "bool \<Rightarrow> CredentialRule \<Rightarrow> string \<Rightarrow> headers \<Rightarrow> headers" where
  "mitmHeaders shouldTrackCost credential credValue hs =
     (let out = injectCredential credential credValue
                  (filter (\<lambda>(k, v). k \<notin> set HOP_BY_HOP_HEADERS) hs)
      in if shouldTrackCost then js_delete ''accept-encoding'' out else out)"

text \<open>The value to inject, from the rotator when there is one.\<close>

definition nextCredentialValue :: "CredentialRule \<Rightarrow> Shared \<Rightarrow> string \<times> Shared" where
  "nextCredentialValue credential sh =
     (case sh_keyRotator sh of
        None \<Rightarrow> (cr_value credential, sh)
      | Some rot \<Rightarrow>
          (fst (getNextValue credential rot), sh\<lparr>sh_keyRotator := Some (snd (getNextValue credential rot))\<rparr>))"

definition shouldTrackCost :: "CredentialRule \<Rightarrow> Shared \<Rightarrow> bool" where
  "shouldTrackCost credential sh \<longleftrightarrow> sh_costLog sh \<noteq> None \<and> str_includes (cr_hostPattern credential) ''anthropic''"

section \<open>Handlers\<close>

datatype mitm_outcome = Rejected HttpResponse | Forwarded CredentialRule UpstreamRequest

definition handleMitmRequest ::
    "time \<Rightarrow> HttpRequest \<Rightarrow> string \<Rightarrow> int \<Rightarrow> CredentialRule list \<Rightarrow> Shared \<Rightarrow> mitm_outcome \<times> Shared" where
  "handleMitmRequest startTime req hostname port credentials sh =
     (let m = (case rq_method req of Some m \<Rightarrow> m | None \<Rightarrow> ''GET'');
          reqPath = (case rq_url req of Some u \<Rightarrow> u | None \<Rightarrow> ''/'')
      in case selectCredentialByHeaders credentials (rq_headers req) of
           None \<Rightarrow>
             (Rejected \<lparr>rs_status = 502, rs_headers = [(''Content-Type'', ''text/plain'')],
                        rs_body = ''Bad Gateway: no matching credential''\<rparr>, sh)
         | Some credential \<Rightarrow>
             (case enforceRules credential m reqPath (contentLength (rq_headers req)) of
                Some status \<Rightarrow>
                  (Rejected \<lparr>rs_status = status, rs_headers = [], rs_body = ''''\<rparr>,
                   logAudit (m @ ''-MITM'') hostname status startTime (cr_name credential) sh)
              | None \<Rightarrow>
                  let (credValue, sh') = nextCredentialValue credential sh
                  in (Forwarded credential
                        \<lparr>up_hostname = hostname, up_port = port, up_path = reqPath, up_method = m,
                         up_headers = mitmHeaders (shouldTrackCost credential sh) credential credValue (rq_headers req)\<rparr>,
                      sh')))"

definition MAX_COST_BODY :: nat where
  "MAX_COST_BODY = 1024 * 1024"

text \<open>The data listener of a tracked response: what goes to the client, the kept chunks, their size.\<close>

fun bufferChunks :: "string list \<Rightarrow> string \<times> string list \<times> nat \<Rightarrow> string \<times> string list \<times> nat" where
  "bufferChunks [] acc = acc"
| "bufferChunks (chunk # cs) (sent, chunks, totalSize) =
     bufferChunks cs
       (if totalSize < MAX_COST_BODY then (sent @ chunk, chunks @ [chunk], totalSize + length chunk)
        else (sent @ chunk, chunks, totalSize))"

text \<open>
  The upstream's answer: its status and headers go to the client at once, its body chunk by chunk;
  at the end come the cost entry, the metrics and the audit line. The result is the body the client
  receives.
\<close>

definition onMitmResponse ::
    "(string \<Rightarrow> json option) \<Rightarrow> string \<Rightarrow> time \<Rightarrow> time \<Rightarrow> string \<Rightarrow> string \<Rightarrow> CredentialRule \<Rightarrow>
     nat option \<Rightarrow> string list \<Rightarrow> Shared \<Rightarrow> (nat \<times> string) \<times> Shared" where
  "onMitmResponse parse ts startTime now m hostname credential upstreamStatus body sh =
     (let statusCode = (case upstreamStatus of Some s \<Rightarrow> s | None \<Rightarrow> 502);
          finish = (\<lambda>sh. logAudit (m @ ''-MITM'') hostname statusCode startTime (cr_name credential)
                      (withMetrics (record_metrics (cr_name credential) statusCode (now - startTime)) sh))
      in if shouldTrackCost credential sh \<and> 200 \<le> statusCode \<and> statusCode < 300 then
           (let (sent, chunks, totalSize) = bufferChunks body ('''', [], 0);
                costEntry = parseAnthropicUsage parse ts (concat chunks) (cr_name credential);
                sh1 = (case costEntry of
                         None \<Rightarrow> sh
                       | Some e \<Rightarrow> sh\<lparr>sh_costLog := map_option (\<lambda>es. es @ [e]) (sh_costLog sh)\<rparr>)
            in ((statusCode, sent), finish sh1))
         else ((statusCode, concat body), finish sh))"

text \<open>The request to the upstream fails; the client gets a 502 if nothing was sent yet.\<close>

definition onMitmError ::
    "time \<Rightarrow> time \<Rightarrow> string \<Rightarrow> string \<Rightarrow> CredentialRule \<Rightarrow> string \<Rightarrow> bool \<Rightarrow> Shared \<Rightarrow> HttpResponse option \<times> Shared" where
  "onMitmError startTime now m hostname credential msg headersSent sh =
     ((if headersSent then None
       else Some \<lparr>rs_status = 502, rs_headers = [(''Content-Type'', ''text/plain'')],
                  rs_body = ''Bad Gateway: '' @ msg\<rparr>),
      logAudit (m @ ''-MITM'') hostname 502 startTime (cr_name credential)
        (withMetrics (record_metrics (cr_name credential) 502 (now - startTime)) sh))"

datatype mitm_connect = NoCredential | ConnectRefused nat | MitmTunnel "CredentialRule list"

text \<open>
  The CONNECT request: the limit of the first credential, then the certificate of the host from the
  cache. \<open>generator\<close> is the certificate signing and \<open>between\<close> what other tunnels do to the
  cache while it is awaited; \<open>checkNow\<close>, \<open>recordNow\<close> and \<open>certNow\<close> are the
  readings of the clock.
\<close>

definition mitmConnect ::
    "(string \<Rightarrow> 'ctx) \<Rightarrow> ('ctx CertCache \<Rightarrow> 'ctx CertCache) \<Rightarrow> time \<Rightarrow> time \<Rightarrow> time \<Rightarrow> time \<Rightarrow>
     string \<Rightarrow> CredentialRule list \<Rightarrow> 'ctx CertCache \<Rightarrow> Shared \<Rightarrow> mitm_connect \<times> 'ctx CertCache \<times> Shared" where
  "mitmConnect generator between startTime checkNow recordNow certNow hostname credentials cache sh =
     (case credentials of
        [] \<Rightarrow> (NoCredential, cache, sh)
      | primary # _ \<Rightarrow>
          let (ok, sh1) =
            (if cr_rateLimit primary \<noteq> None then
               (let (result, lim) = consume (cr_name primary) checkNow recordNow (sh_rateLimiter sh)
                in (allowed result, sh\<lparr>sh_rateLimiter := lim\<rparr>))
             else (True, sh))
          in if \<not> ok then
               (ConnectRefused 429, cache,
                logAudit ''CONNECT-MITM'' hostname 429 startTime (cr_name primary)
                  (withMetrics recordRateLimitHit sh1))
             else
               (MitmTunnel credentials,
                snd (getOrCreate certNow certNow hostname generator between cache), sh1))"

section \<open>Headers that leave the proxy\<close>

definition competing :: "string \<Rightarrow> string option" where
  "competing name =
     (if name = ''authorization'' then Some ''x-api-key''
      else if name = ''x-api-key'' then Some ''authorization'' else None)"

lemma get_injectCredential:
  "js_get (injectCredential c v hs) k =
     (if competing (toLowerCase (cr_header c)) = Some k then None
      else if k = toLowerCase (cr_header c) then Some (HStr v) else js_get hs k)"
  by (auto simp: injectCredential_def competing_def Let_def js_get_set js_get_delete)

lemma map_of_filter_key: "map_of (filter (\<lambda>(k, v). P k) m) k = (if P k then map_of m k else None)"
  by (induction m) auto

text \<open>
  C6. The headers of an intercepted request leave the proxy exactly so: the header of the
  credential carries the real value whatever the agent sent in it, the competing authentication
  header and the hop-by-hop headers are gone, so is the accepted encoding when the answer's cost is
  tracked, and every other header is the agent's.
\<close>

theorem mitm_headers_exact:
  "js_get (mitmHeaders track c v hs) k =
     (if track \<and> k = ''accept-encoding'' then None
      else if competing (toLowerCase (cr_header c)) = Some k then None
      else if k = toLowerCase (cr_header c) then Some (HStr v)
      else if k \<in> set HOP_BY_HOP_HEADERS then None
      else js_get hs k)"
  by (simp add: mitmHeaders_def Let_def js_get_delete get_injectCredential map_of_filter_key)

section \<open>The rules are enforced\<close>

definition rules_allow :: "RequestRules \<Rightarrow> string \<Rightarrow> string \<Rightarrow> int option \<Rightarrow> bool" where
  "rules_allow rules m path len \<longleftrightarrow>
     (\<forall>ms. rr_methods rules = Some ms \<and> ms \<noteq> [] \<longrightarrow> m \<in> set ms) \<and>
     (\<forall>ps. rr_pathPrefixes rules = Some ps \<and> ps \<noteq> [] \<longrightarrow> (\<exists>p \<in> set ps. prefix p path)) \<and>
     (\<forall>k n. rr_maxBodySize rules = Some k \<and> len = Some n \<longrightarrow> n \<le> k)"

lemma enforceRules_None:
  "enforceRules c m path len = None \<longleftrightarrow> (\<forall>rules. cr_rules c = Some rules \<longrightarrow> rules_allow rules m path len)"
  by (auto simp: enforceRules_def rules_allow_def list_ex_iff startsWith_prefix exceeds_def
      split: option.splits list.splits if_splits)

definition request_method :: "HttpRequest \<Rightarrow> string" where
  "request_method req = (case rq_method req of Some m \<Rightarrow> m | None \<Rightarrow> ''GET'')"

definition request_path :: "HttpRequest \<Rightarrow> string" where
  "request_path req = (case rq_url req of Some u \<Rightarrow> u | None \<Rightarrow> ''/'')"

lemma handleMitmRequest_forwarded:
  "fst (handleMitmRequest t req h p cs sh) = Forwarded c up \<longleftrightarrow>
     selectCredentialByHeaders cs (rq_headers req) = Some c \<and>
     (\<forall>rules. cr_rules c = Some rules \<longrightarrow>
        rules_allow rules (request_method req) (request_path req) (contentLength (rq_headers req))) \<and>
     up = \<lparr>up_hostname = h, up_port = p, up_path = request_path req, up_method = request_method req,
           up_headers = mitmHeaders (shouldTrackCost c sh) c (fst (nextCredentialValue c sh)) (rq_headers req)\<rparr>"
  unfolding enforceRules_None [symmetric]
  by (auto simp: handleMitmRequest_def Let_def request_method_def request_path_def
      split: option.splits prod.splits)

text \<open>
  A request inside a tunnel is forwarded exactly when a credential is selected and its rules
  allow the method, the path and the announced body size; it then goes to the host and port of the
  tunnel with the agent's own method and path. Otherwise nothing leaves.
\<close>

theorem mitm_forwards_iff_allowed:
  "(\<exists>c up. fst (handleMitmRequest t req h p cs sh) = Forwarded c up) \<longleftrightarrow>
     (\<exists>c. selectCredentialByHeaders cs (rq_headers req) = Some c \<and>
        (\<forall>rules. cr_rules c = Some rules \<longrightarrow>
           rules_allow rules (request_method req) (request_path req) (contentLength (rq_headers req))))
   \<and> (\<forall>c up. fst (handleMitmRequest t req h p cs sh) = Forwarded c up \<longrightarrow>
        c \<in> set cs \<and> up_hostname up = h \<and> up_port up = p \<and> up_method up = request_method req \<and>
        up_path up = request_path req)"
  by (auto simp: handleMitmRequest_forwarded dest: selectCredentialByHeaders_mem)

section \<open>Answers\<close>

lemma bufferChunks_sent: "fst (bufferChunks cs (sent, chunks, n)) = sent @ concat cs"
  by (induction cs arbitrary: sent chunks n) (simp_all)

text \<open>
  The client of a tunnel gets the upstream's answer unchanged, tracked or not: the status, 502
  when there is none, and the bytes of the body in order; and the request is counted and logged
  exactly once.
\<close>

theorem mitm_response_transparent:
  "fst (onMitmResponse parse ts t0 now m h c status body sh) =
     ((case status of Some s \<Rightarrow> s | None \<Rightarrow> 502), concat body) \<and>
   sh_audit (snd (onMitmResponse parse ts t0 now m h c status body sh)) = sh_audit sh @
     [\<lparr>au_method = m @ ''-MITM'', au_host = h, au_status = (case status of Some s \<Rightarrow> s | None \<Rightarrow> 502),
       au_start = t0, au_credential = cr_name c\<rparr>] \<and>
   sh_metrics (snd (onMitmResponse parse ts t0 now m h c status body sh)) =
     map_option (record_metrics (cr_name c) (case status of Some s \<Rightarrow> s | None \<Rightarrow> 502) (now - t0)) (sh_metrics sh)"
proof -
  obtain sent chunks n where b: "bufferChunks body ('''', [], 0) = (sent, chunks, n)" using prod_cases3 by blast
  then have "sent = concat body" using bufferChunks_sent [of body "''''" "[]" 0] by simp
  then show ?thesis
    by (auto simp: onMitmResponse_def Let_def b logAudit_def withMetrics_def split: option.splits)
qed

section \<open>Requests inside a tunnel are not limited\<close>

fun tunnelRequests ::
    "(time \<times> HttpRequest) list \<Rightarrow> string \<Rightarrow> int \<Rightarrow> CredentialRule list \<Rightarrow> Shared \<Rightarrow> mitm_outcome list \<times> Shared" where
  "tunnelRequests [] h p cs sh = ([], sh)"
| "tunnelRequests ((t, req) # reqs) h p cs sh =
     (let (out, sh1) = handleMitmRequest t req h p cs sh;
          (outs, sh2) = tunnelRequests reqs h p cs sh1
      in (out # outs, sh2))"

lemma handleMitmRequest_limiter: "sh_rateLimiter (snd (handleMitmRequest t req h p cs sh)) = sh_rateLimiter sh"
  by (auto simp: handleMitmRequest_def Let_def logAudit_def nextCredentialValue_def split: option.splits)

text \<open>
  The rate limit of a credential is charged once per CONNECT and not for the requests in the
  tunnel: however small the limit, every request of a tunnel is forwarded when the credential has
  no other rules, and the limiter is never consulted.
\<close>

theorem tunnel_requests_not_limited:
  assumes "cr_rules c = None"
  shows "list_all (\<lambda>out. \<exists>up. out = Forwarded c up) (fst (tunnelRequests reqs h p [c] sh)) \<and>
    length (fst (tunnelRequests reqs h p [c] sh)) = length reqs \<and>
    sh_rateLimiter (snd (tunnelRequests reqs h p [c] sh)) = sh_rateLimiter sh"
proof (induction reqs arbitrary: sh)
  case (Cons r reqs)
  obtain t req where r: "r = (t, req)" by fastforce
  obtain out sh1 where h: "handleMitmRequest t req h p [c] sh = (out, sh1)" by fastforce
  obtain outs sh2 where o: "tunnelRequests reqs h p [c] sh1 = (outs, sh2)" by fastforce
  have "\<exists>up. out = Forwarded c up"
    using handleMitmRequest_forwarded [of t req h p "[c]" sh c] h assms
    by (simp add: selectCredentialByHeaders_def)
  moreover have "sh_rateLimiter sh1 = sh_rateLimiter sh"
    using handleMitmRequest_limiter [of t req h p "[c]" sh] h by simp
  ultimately show ?case using Cons.IH [of sh1] h o r by simp
qed simp

definition plain_request :: HttpRequest where
  "plain_request = \<lparr>rq_method = Some ''GET'', rq_url = Some ''/'', rq_headers = []\<rparr>"

definition fresh_shared :: Shared where
  "fresh_shared = \<lparr>sh_rateLimiter = buildRateLimiter [anthropic_key_rule], sh_keyRotator = Some [],
     sh_metrics = None, sh_costLog = None, sh_audit = []\<rparr>"

theorem tunnel_requests_not_limited_witness:
  "cr_rateLimit anthropic_key_rule = Some \<lparr>requests = 2, windowSeconds = 60\<rparr> \<and>
   length (fst (tunnelRequests [(0, plain_request), (1, plain_request), (2, plain_request)] ''h'' 443
      [anthropic_key_rule] fresh_shared)) = 3 \<and>
   list_all (\<lambda>out. \<exists>up. out = Forwarded anthropic_key_rule up)
     (fst (tunnelRequests [(0, plain_request), (1, plain_request), (2, plain_request)] ''h'' 443
        [anthropic_key_rule] fresh_shared))"
  using tunnel_requests_not_limited [of anthropic_key_rule
      "[(0, plain_request), (1, plain_request), (2, plain_request)]" "''h''" 443 fresh_shared]
  by (simp add: anthropic_key_rule_def)

theorem mitm_forwards_iff_allowed_witness:
  "\<exists>c up. fst (handleMitmRequest 0 plain_request ''h'' 443 [anthropic_key_rule] fresh_shared) = Forwarded c up \<and>
     up_hostname up = ''h'' \<and> up_path up = ''/''"
proof -
  have "\<exists>c up. fst (handleMitmRequest 0 plain_request ''h'' 443 [anthropic_key_rule] fresh_shared) = Forwarded c up"
    by (simp add: handleMitmRequest_forwarded selectCredentialByHeaders_def anthropic_key_rule_def)
  then show ?thesis
    using mitm_forwards_iff_allowed [of 0 plain_request "''h''" 443 "[anthropic_key_rule]" fresh_shared]
    by (auto simp: request_path_def plain_request_def)
qed

end
