(* ===== verification/Proxy_Server.thy ===== *)
theory Proxy_Server
  imports Mitm_Handler
begin

text \<open>
  \<^verbatim>\<open>src/src/proxy/proxy-server.ts\<close> and the start and reload of \<^verbatim>\<open>src/src/proxy/main.ts\<close>: the forward proxy. Plain
  requests get the first matching credential; CONNECT requests are intercepted when a credential of
  the active method matches and a CA is loaded, and tunnelled through otherwise. \<open>newURL\<close> is the URL
  parser, of which the code uses host name, path and query. Shown: credentials only ever travel to
  hosts they match, in which cases a CONNECT is intercepted, what a plain request is sent on with;
  and that the active billing method does not bind plain requests.
\<close>

section \<open>State\<close>

record Url =
  url_hostname :: string
  url_pathname :: string
  url_search :: string

record 'ctx Proxy =
  px_credentials :: "CredentialRule list"
  px_shared :: Shared
  px_pinningBypass :: "string list"
  px_activeCredentialMethod :: "CredentialMethod option"
  px_mitm :: "'ctx CertCache option"

definition newProxyServer ::
    "CredentialRule list \<Rightarrow> Shared \<Rightarrow> string list option \<Rightarrow> CredentialMethod option \<Rightarrow> bool \<Rightarrow> 'ctx Proxy" where
  "newProxyServer credentials shared pinningBypass activeMethod hasCA =
     \<lparr>px_credentials = credentials, px_shared = shared,
      px_pinningBypass = (case pinningBypass of Some hs \<Rightarrow> hs | None \<Rightarrow> []),
      px_activeCredentialMethod = activeMethod,
      px_mitm = (if hasCA then Some (newCertCache None None) else None)\<rparr>"

text \<open>
  The limiter is replaced; rotator, metrics, cost log and bypass hosts only when given. The MITM
  handler is handed the same objects, so the two keep sharing them.
\<close>

definition orKeep :: "'a option \<Rightarrow> 'a option \<Rightarrow> 'a option" where
  "orKeep new old = (case new of Some x \<Rightarrow> Some x | None \<Rightarrow> old)"

definition reloadCredentials ::
    "CredentialRule list \<Rightarrow> RateLimiter \<Rightarrow> KeyRotator option \<Rightarrow> ProxyMetrics option \<Rightarrow> CostEntry list option \<Rightarrow>
     string list option \<Rightarrow> 'ctx Proxy \<Rightarrow> 'ctx Proxy" where
  "reloadCredentials credentials rateLimiter keyRotator metrics costLog pinningBypass px =
     px\<lparr>px_credentials := credentials,
        px_shared := (px_shared px)\<lparr>sh_rateLimiter := rateLimiter,
          sh_keyRotator := orKeep keyRotator (sh_keyRotator (px_shared px)),
          sh_metrics := orKeep metrics (sh_metrics (px_shared px)),
          sh_costLog := orKeep costLog (sh_costLog (px_shared px))\<rparr>,
        px_pinningBypass := (case pinningBypass of Some hs \<Rightarrow> hs | None \<Rightarrow> px_pinningBypass px)\<rparr>"

section \<open>Plain requests\<close>

definition plainText :: "nat \<Rightarrow> string \<Rightarrow> HttpResponse" where
  "plainText status body = \<lparr>rs_status = status, rs_headers = [(''Content-Type'', ''text/plain'')], rs_body = body\<rparr>"

datatype plain_outcome =
    Responded HttpResponse
  | Sent_on "CredentialRule option" UpstreamRequest

text \<open>The limit of the credential: the answer when it is exhausted, and the limiter afterwards.\<close>

definition rateLimited :: "time \<Rightarrow> time \<Rightarrow> CredentialRule \<Rightarrow> Shared \<Rightarrow> int option \<times> Shared" where
  "rateLimited checkNow recordNow credential sh =
     (if cr_rateLimit credential = None then (None, sh)
      else
        let (result, lim) = consume (cr_name credential) checkNow recordNow (sh_rateLimiter sh);
            sh1 = sh\<lparr>sh_rateLimiter := lim\<rparr>
        in if allowed result then (None, sh1)
           else (Some (ceil_div (retryAfterMs result) 1000), withMetrics recordRateLimitHit sh1))"

definition tooManyRequests :: "CredentialRule \<Rightarrow> int \<Rightarrow> HttpResponse" where
  "tooManyRequests credential seconds =
     \<lparr>rs_status = 429, rs_headers = [(''Content-Type'', ''text/plain''), (''Retry-After'', show_int seconds)],
      rs_body = ''Rate limited: '' @ cr_name credential @ ''. Retry after '' @ show_int seconds @ ''s''\<rparr>"

text \<open>The rules of a plain request, with the texts of the answers.\<close>

definition plainRules :: "CredentialRule \<Rightarrow> string \<Rightarrow> string \<Rightarrow> int option \<Rightarrow> HttpResponse option" where
  "plainRules credential m path len =
     (case cr_rules credential of
        None \<Rightarrow> None
      | Some rules \<Rightarrow>
          if (case rr_methods rules of Some (x # xs) \<Rightarrow> m \<notin> set (x # xs) | _ \<Rightarrow> False) then
            Some (plainText 403 (''Forbidden: method '' @ m @ '' not allowed for '' @ cr_name credential))
          else if (case rr_pathPrefixes rules of
                     Some (x # xs) \<Rightarrow> \<not> list_ex (startsWith path) (x # xs) | _ \<Rightarrow> False) then
            Some (plainText 403 (''Forbidden: path '' @ path @ '' not allowed for '' @ cr_name credential))
          else (case rr_maxBodySize rules of
                  Some k \<Rightarrow>
                    if exceeds len k then
                      Some (plainText 413 (''Payload too large: '' @ show_int (the len) @ '' exceeds '' @
                        show_int k @ '' bytes''))
                    else None
                | None \<Rightarrow> None))"

definition plainHeaders :: "headers \<Rightarrow> headers" where
  "plainHeaders hs =
     filter (\<lambda>(k, v). toLowerCase k \<notin> set [''host'', ''proxy-authorization'', ''proxy-connection'']) hs"

text \<open>
  \<open>render\<close> prints a metrics snapshot. \<open>startTime\<close>, \<open>checkNow\<close> and \<open>recordNow\<close> are the readings of
  the clock.
\<close>

definition handleRequest ::
    "(MetricsSnapshot option \<Rightarrow> string) \<Rightarrow> (string \<Rightarrow> Url option) \<Rightarrow> time \<Rightarrow> time \<Rightarrow> time \<Rightarrow> HttpRequest \<Rightarrow>
     'ctx Proxy \<Rightarrow> plain_outcome \<times> 'ctx Proxy" where
  "handleRequest render newURL startTime checkNow recordNow req px =
     (let url = (case rq_url req of Some u \<Rightarrow> u | None \<Rightarrow> ''/'');
          sh = px_shared px;
          logged = (case rq_method req of Some m \<Rightarrow> m | None \<Rightarrow> ''UNKNOWN'')
      in if url = ''/healthz'' \<and> rq_method req = Some ''GET'' then (Responded (plainText 200 ''ok''), px)
         else if url = ''/metrics'' \<and> rq_method req = Some ''GET'' then
           (Responded \<lparr>rs_status = 200, rs_headers = [(''Content-Type'', ''application/json'')],
                       rs_body = render (map_option (snapshot startTime) (sh_metrics sh))\<rparr>, px)
         else case newURL url of
           None \<Rightarrow>
             (Responded (plainText 400 ''Bad Request: invalid URL''),
              px\<lparr>px_shared := logAudit logged url 400 startTime ''none'' sh\<rparr>)
         | Some target \<Rightarrow>
             let hostname = url_hostname target;
                 path = url_pathname target @ url_search target;
                 forward = (\<lambda>credential hs sh.
                   (Sent_on credential \<lparr>up_hostname = hostname, up_port = 443, up_path = path,
                      up_method = (case rq_method req of Some m \<Rightarrow> m | None \<Rightarrow> ''GET''), up_headers = hs\<rparr>,
                    px\<lparr>px_shared := sh\<rparr>))
             in case findCredentialForHost hostname (px_credentials px) of
                  None \<Rightarrow> forward None (plainHeaders (rq_headers req)) sh
                | Some credential \<Rightarrow>
                    (case rateLimited checkNow recordNow credential sh of
                       (Some seconds, sh1) \<Rightarrow>
                         (Responded (tooManyRequests credential seconds),
                          px\<lparr>px_shared := logAudit logged hostname 429 startTime (cr_name credential) sh1\<rparr>)
                     | (None, sh1) \<Rightarrow>
                         let m = (case rq_method req of Some m \<Rightarrow> m | None \<Rightarrow> ''GET'')
                         in case plainRules credential m (url_pathname target) (contentLength (rq_headers req)) of
                              Some response \<Rightarrow>
                                (Responded response,
                                 px\<lparr>px_shared := logAudit m hostname (rs_status response) startTime
                                                   (cr_name credential) sh1\<rparr>)
                            | None \<Rightarrow>
                                let (credValue, sh2) = nextCredentialValue credential sh1
                                in forward (Some credential)
                                     (injectCredential credential credValue (plainHeaders (rq_headers req))) sh2))"

definition credentialName :: "CredentialRule option \<Rightarrow> string" where
  "credentialName c = (case c of Some r \<Rightarrow> cr_name r | None \<Rightarrow> ''none'')"

text \<open>The upstream's answer, or its failure; a failure is logged but not counted.\<close>

definition onPlainResponse ::
    "time \<Rightarrow> time \<Rightarrow> string option \<Rightarrow> string \<Rightarrow> CredentialRule option \<Rightarrow> nat option \<Rightarrow> string list \<Rightarrow>
     'ctx Proxy \<Rightarrow> (nat \<times> string) \<times> 'ctx Proxy" where
  "onPlainResponse startTime now m hostname credential upstreamStatus body px =
     (let statusCode = (case upstreamStatus of Some s \<Rightarrow> s | None \<Rightarrow> 502)
      in ((statusCode, concat body),
          px\<lparr>px_shared :=
               logAudit (case m of Some m \<Rightarrow> m | None \<Rightarrow> ''UNKNOWN'') hostname statusCode startTime (credentialName credential)
                 (withMetrics (record_metrics (credentialName credential) statusCode (now - startTime)) (px_shared px))\<rparr>))"

definition onPlainError ::
    "time \<Rightarrow> string option \<Rightarrow> string \<Rightarrow> CredentialRule option \<Rightarrow> string \<Rightarrow> bool \<Rightarrow> 'ctx Proxy \<Rightarrow>
     HttpResponse option \<times> 'ctx Proxy" where
  "onPlainError startTime m hostname credential msg headersSent px =
     ((if headersSent then None else Some (plainText 502 (''Bad Gateway: '' @ msg))),
      px\<lparr>px_shared := logAudit (case m of Some m \<Rightarrow> m | None \<Rightarrow> ''UNKNOWN'') hostname 502 startTime
                        (credentialName credential) (px_shared px)\<rparr>)"

section \<open>CONNECT requests\<close>

datatype connect_outcome =
    Bad_connect
  | Connect_limited
  | Intercepted "CredentialRule list" string int
  | Passthrough "CredentialRule option" string int

text \<open>\<^verbatim>\<open>target.split(':')\<close> and \<^verbatim>\<open>Number(portStr) || 443\<close>\<close>

definition connectHost :: "string \<Rightarrow> string" where
  "connectHost target = hd (split_on (CHR '':'') target)"

definition connectPort :: "string \<Rightarrow> int" where
  "connectPort target =
     (case split_on (CHR '':'') target of
        _ # portStr # _ \<Rightarrow> (case js_number portStr of Some p \<Rightarrow> if p = 0 then 443 else p | None \<Rightarrow> 443)
      | _ \<Rightarrow> 443)"

definition connectCredentials :: "string \<Rightarrow> 'ctx Proxy \<Rightarrow> CredentialRule list" where
  "connectCredentials hostname px =
     filterByCredentialMethod (findAllCredentialsForHost hostname (px_credentials px)) (px_activeCredentialMethod px)"

definition handleConnect ::
    "(string \<Rightarrow> 'ctx) \<Rightarrow> ('ctx CertCache \<Rightarrow> 'ctx CertCache) \<Rightarrow> time \<Rightarrow> time \<Rightarrow> time \<Rightarrow> time \<Rightarrow> HttpRequest \<Rightarrow>
     'ctx Proxy \<Rightarrow> connect_outcome \<times> 'ctx Proxy" where
  "handleConnect generator between startTime checkNow recordNow certNow req px =
     (let target = (case rq_url req of Some u \<Rightarrow> u | None \<Rightarrow> '''');
          hostname = connectHost target; port = connectPort target
      in if hostname = '''' then (Bad_connect, px)
         else
           let allCredentials = connectCredentials hostname px
           in case (if allCredentials \<noteq> [] \<and> hostname \<notin> set (px_pinningBypass px) then px_mitm px else None) of
                Some cache \<Rightarrow>
                  (case mitmConnect generator between startTime checkNow recordNow certNow hostname allCredentials
                          cache (px_shared px) of
                     (MitmTunnel cs, cache', sh) \<Rightarrow>
                       (Intercepted cs hostname port, px\<lparr>px_mitm := Some cache', px_shared := sh\<rparr>)
                   | (_, cache', sh) \<Rightarrow> (Connect_limited, px\<lparr>px_mitm := Some cache', px_shared := sh\<rparr>))
              | None \<Rightarrow>
                  (case allCredentials of
                     [] \<Rightarrow> (Passthrough None hostname port, px)
                   | credential # _ \<Rightarrow>
                       if cr_rateLimit credential = None then (Passthrough (Some credential) hostname port, px)
                       else
                         let (result, lim) = consume (cr_name credential) checkNow recordNow (sh_rateLimiter (px_shared px));
                             sh = (px_shared px)\<lparr>sh_rateLimiter := lim\<rparr>
                         in if allowed result then (Passthrough (Some credential) hostname port, px\<lparr>px_shared := sh\<rparr>)
                            else (Connect_limited,
                                  px\<lparr>px_shared := logAudit ''CONNECT'' target 429 startTime (cr_name credential) sh\<rparr>)))"

text \<open>The end of a passed-through tunnel, or its failure.\<close>

definition onTunnelEnd :: "nat \<Rightarrow> string \<Rightarrow> time \<Rightarrow> CredentialRule option \<Rightarrow> 'ctx Proxy \<Rightarrow> 'ctx Proxy" where
  "onTunnelEnd status target startTime credential px =
     px\<lparr>px_shared := logAudit ''CONNECT'' target status startTime (credentialName credential) (px_shared px)\<rparr>"

section \<open>Credentials are confined to their hosts\<close>

definition credential_values :: "CredentialRule \<Rightarrow> string set" where
  "credential_values c = insert (cr_value c) (case cr_values c of Some vs \<Rightarrow> set vs | None \<Rightarrow> {})"

lemma nextCredentialValue_values: "fst (nextCredentialValue c sh) \<in> credential_values c"
  by (auto simp: nextCredentialValue_def getNextValue_def credential_values_def Let_def split: option.splits)

lemma nextCredentialValue_eq: "nextCredentialValue c sh = (v, sh') \<Longrightarrow> v \<in> credential_values c"
  using nextCredentialValue_values [of c sh] by simp


lemma mitmConnect_tunnel: "mitmConnect g b t cn rn en h cs cache sh = (MitmTunnel cs', x, y) \<Longrightarrow> cs' = cs"
  by (auto simp: mitmConnect_def Let_def split: list.splits prod.splits if_splits)

lemma handleConnect_intercepted:
  assumes "fst (handleConnect g b t cn rn en req px) = Intercepted cs h p"
  shows "cs = connectCredentials h px \<and> cs \<noteq> [] \<and> h \<notin> set (px_pinningBypass px) \<and> px_mitm px \<noteq> None"
  using assms
  by (auto simp: handleConnect_def Let_def split: if_splits option.splits list.splits prod.splits mitm_connect.splits
      dest: mitmConnect_tunnel)


definition demo_proxy :: "CredentialMethod option \<Rightarrow> unit Proxy" where
  "demo_proxy m = \<lparr>px_credentials = [anthropic_oauth_rule, anthropic_key_rule], px_shared = fresh_shared,
     px_pinningBypass = [], px_activeCredentialMethod = m, px_mitm = Some (newCertCache None None)\<rparr>"





text \<open>
  Interception is decided by configuration alone: a CONNECT is intercepted only if a credential
  of the active method matches the host, a CA is loaded and the host is not exempted from
  interception; and it is passed through only if one of these fails.
\<close>

theorem connect_decision:
  "(case fst (handleConnect g b t cn rn en req px) of
      Intercepted cs h p \<Rightarrow>
        connectCredentials h px \<noteq> [] \<and> px_mitm px \<noteq> None \<and> h \<notin> set (px_pinningBypass px) \<and>
        cs = connectCredentials h px
    | Passthrough c h p \<Rightarrow>
        (connectCredentials h px = [] \<or> px_mitm px = None \<or> h \<in> set (px_pinningBypass px)) \<and>
        c = (case connectCredentials h px of [] \<Rightarrow> None | c # _ \<Rightarrow> Some c)
    | Bad_connect \<Rightarrow> connectHost (case rq_url req of Some u \<Rightarrow> u | None \<Rightarrow> '''') = ''''
    | Connect_limited \<Rightarrow>
        (\<exists>c \<in> set (connectCredentials (connectHost (case rq_url req of Some u \<Rightarrow> u | None \<Rightarrow> '''')) px).
          cr_rateLimit c \<noteq> None))"
proof (cases "fst (handleConnect g b t cn rn en req px)")
  case (Intercepted cs h p)
  then show ?thesis using handleConnect_intercepted [OF Intercepted] by auto
next
  case Connect_limited
  then show ?thesis
    by (auto simp: handleConnect_def mitmConnect_def Let_def
        split: if_splits option.splits list.splits prod.splits mitm_connect.splits)
qed (auto simp: handleConnect_def Let_def split: if_splits option.splits list.splits prod.splits mitm_connect.splits)

section \<open>Plain requests\<close>

lemma findCredentialForHost_Some:
  "findCredentialForHost h cs = Some c \<Longrightarrow> c \<in> set cs \<and> matchesHostPattern h (cr_hostPattern c)"
  by (auto simp: findCredentialForHost_def dest: find_SomeD)

lemma findCredentialForHost_None:
  "findCredentialForHost h cs = None \<longleftrightarrow> (\<forall>c \<in> set cs. \<not> matchesHostPattern h (cr_hostPattern c))"
  by (auto simp: findCredentialForHost_def find_None_iff)

lemma plainRules_None:
  "plainRules c m path len = None \<longleftrightarrow> (\<forall>rules. cr_rules c = Some rules \<longrightarrow> rules_allow rules m path len)"
  by (auto simp: plainRules_def rules_allow_def list_ex_iff startsWith_prefix exceeds_def
      split: option.splits list.splits if_splits)

text \<open>
  A plain request that is sent on goes to port 443 of the host of its URL. With a credential, it
  is the first configured one that matches that host, the request satisfies its rules, and the
  headers are the agent's with that credential injected; without one, no credential matches the
  host and the headers are the agent's. In both cases the proxy's own headers are dropped.
\<close>

theorem plain_request_sent_on:
  assumes "fst (handleRequest render newURL t cn rn req px) = Sent_on credential up"
  shows "\<exists>target. newURL (request_path req) = Some target \<and>
    up_hostname up = url_hostname target \<and> up_port up = 443 \<and>
    findCredentialForHost (url_hostname target) (px_credentials px) = credential \<and>
    (case credential of
       None \<Rightarrow>
         (\<forall>c \<in> set (px_credentials px). \<not> matchesHostPattern (up_hostname up) (cr_hostPattern c)) \<and>
         up_headers up = plainHeaders (rq_headers req)
     | Some c \<Rightarrow>
         c \<in> set (px_credentials px) \<and> matchesHostPattern (up_hostname up) (cr_hostPattern c) \<and>
         (\<forall>rules. cr_rules c = Some rules \<longrightarrow>
            rules_allow rules (request_method req) (url_pathname target) (contentLength (rq_headers req))) \<and>
         (\<exists>v \<in> credential_values c. up_headers up = injectCredential c v (plainHeaders (rq_headers req))))"
proof -
  have u: "(case rq_url req of Some u \<Rightarrow> u | None \<Rightarrow> ''/'') = request_path req" by (simp add: request_path_def)
  have m: "(case rq_method req of Some m \<Rightarrow> m | None \<Rightarrow> ''GET'') = request_method req"
    by (simp add: request_method_def)
  obtain target where target: "newURL (request_path req) = Some target"
    using assms unfolding handleRequest_def u Let_def by (auto split: if_splits option.splits)
  show ?thesis
  proof (cases "findCredentialForHost (url_hostname target) (px_credentials px)")
    case None
    have "credential = None \<and> up_hostname up = url_hostname target \<and> up_port up = 443 \<and>
        up_headers up = plainHeaders (rq_headers req)"
      using assms unfolding handleRequest_def u m Let_def target option.case None by (auto split: if_splits)
    then show ?thesis using target None by (simp add: findCredentialForHost_None [symmetric])
  next
    case (Some c)
    have "credential = Some c \<and> up_hostname up = url_hostname target \<and> up_port up = 443 \<and>
        plainRules c (request_method req) (url_pathname target) (contentLength (rq_headers req)) = None \<and>
        (\<exists>v \<in> credential_values c. up_headers up = injectCredential c v (plainHeaders (rq_headers req)))"
      using assms unfolding handleRequest_def u m Let_def target option.case Some
      by (auto split: if_splits option.splits prod.splits dest!: nextCredentialValue_eq)
    then show ?thesis
      using target Some findCredentialForHost_Some [OF Some]
      by (auto simp: plainRules_None)
  qed
qed


definition demo_url :: "string \<Rightarrow> Url option" where
  "demo_url u =
     Some \<lparr>url_hostname = ''api.anthropic.com'', url_pathname = ''/v1/messages'', url_search = ''''\<rparr>"

lemma demo_plain:
  "fst (handleRequest (\<lambda>s. '''') demo_url 0 0 0 plain_request (demo_proxy (Some Api_key))) =
     Sent_on (Some anthropic_oauth_rule)
       \<lparr>up_hostname = ''api.anthropic.com'', up_port = 443, up_path = ''/v1/messages'',
        up_method = request_method plain_request,
        up_headers = injectCredential anthropic_oauth_rule (cr_value anthropic_oauth_rule)
                       (plainHeaders (rq_headers plain_request))\<rparr>"
proof -
  have "findCredentialForHost ''api.anthropic.com'' (px_credentials (demo_proxy (Some Api_key))) =
      Some anthropic_oauth_rule"
    by (simp add: demo_proxy_def findCredentialForHost_def matchesHostPattern_def startsWith_def example_rules)
  moreover have "rateLimited 0 0 anthropic_oauth_rule fresh_shared = (None, fresh_shared)"
    "plainRules anthropic_oauth_rule m p l = None"
    "fst (nextCredentialValue anthropic_oauth_rule fresh_shared) = cr_value anthropic_oauth_rule" for m p l
    by (simp_all add: rateLimited_def plainRules_def nextCredentialValue_def getNextValue_def fresh_shared_def
        example_rules)
  ultimately show ?thesis
    by (auto simp: handleRequest_def demo_url_def demo_proxy_def plain_request_def request_method_def split: prod.splits)
qed

theorem plain_request_sent_on_witness:
  "findCredentialForHost ''api.anthropic.com'' (px_credentials (demo_proxy (Some Api_key))) = Some anthropic_oauth_rule"
  using plain_request_sent_on [OF demo_plain] by (auto simp: demo_url_def)

text \<open>
  The active billing method does not bind plain requests: with API keys chosen, an intercepted
  tunnel to the API host is left with the API key alone, but a plain request to the same host is
  sent on with the OAuth credential, because it is the first one configured.
\<close>

theorem plain_requests_ignore_active_method:
  "connectCredentials ''api.anthropic.com'' (demo_proxy (Some Api_key)) = [anthropic_key_rule] \<and>
   cr_credentialMethod anthropic_oauth_rule = Some Oauth \<and>
   (\<exists>up. fst (handleRequest (\<lambda>s. '''') demo_url 0 0 0 plain_request (demo_proxy (Some Api_key))) =
           Sent_on (Some anthropic_oauth_rule) up)"
  by (simp add: demo_plain)
    (simp add: connectCredentials_def demo_proxy_def filterByCredentialMethod_def findAllCredentialsForHost_def
      matchesHostPattern_def startsWith_def example_rules)

end
