(* ===== verification/JSON_Text.thy ===== *)
theory JSON_Text
  imports Effects
begin

text \<open>
  \<^verbatim>\<open>JSON.stringify\<close> and \<^verbatim>\<open>JSON.parse\<close> as the code uses them: for files that are written with an
  indentation of two and read back, and for one-line records. Numbers are integers (a fraction or an
  exponent is not read), characters are the first 256 code points, and a repeated key keeps its
  first position and its last value. Shown: what was written is read back.
\<close>

section \<open>Printing\<close>

definition hex_digit :: "nat \<Rightarrow> char" where
  "hex_digit n = (if n < 10 then char_of (48 + n) else char_of (87 + n))"

definition esc_char :: "char \<Rightarrow> string" where
  "esc_char c =
     (let n = (of_char c :: nat) in
      if c = CHR 0x22 then [CHR 0x5C, CHR 0x22]
      else if c = CHR 0x5C then [CHR 0x5C, CHR 0x5C]
      else if n = 8 then [CHR 0x5C, CHR ''b'']
      else if n = 9 then [CHR 0x5C, CHR ''t'']
      else if n = 10 then [CHR 0x5C, CHR ''n'']
      else if n = 12 then [CHR 0x5C, CHR ''f'']
      else if n = 13 then [CHR 0x5C, CHR ''r'']
      else if n < 32 then [CHR 0x5C, CHR ''u'', CHR ''0'', CHR ''0'', hex_digit (n div 16), hex_digit (n mod 16)]
      else [c])"

definition quote :: "string \<Rightarrow> string" where
  "quote s = CHR 0x22 # concat (map esc_char s) @ [CHR 0x22]"

text \<open>
  The step of the indentation, \<open>None\<close> for the one-line form, and the current level.
\<close>

definition line_break :: "nat option \<Rightarrow> nat \<Rightarrow> string" where
  "line_break ind lvl = (case ind of None \<Rightarrow> [] | Some k \<Rightarrow> CHR 0x0A # replicate (k * lvl) (CHR '' ''))"

definition colon :: "nat option \<Rightarrow> string" where
  "colon ind = (case ind of None \<Rightarrow> '':'' | Some k \<Rightarrow> '': '')"

fun print_json :: "nat option \<Rightarrow> nat \<Rightarrow> json \<Rightarrow> string" where
  "print_json ind lvl JNull = ''null''"
| "print_json ind lvl (JBool b) = (if b then ''true'' else ''false'')"
| "print_json ind lvl (JNum n) = show_int n"
| "print_json ind lvl (JStr s) = quote s"
| "print_json ind lvl (JArr xs) =
     (if xs = [] then ''[]''
      else ''['' @ line_break ind (Suc lvl) @
           join_with ('','' @ line_break ind (Suc lvl)) (map (print_json ind (Suc lvl)) xs) @
           line_break ind lvl @ '']'')"
| "print_json ind lvl (JObj kvs) =
     (if kvs = [] then ''{}''
      else ''{'' @ line_break ind (Suc lvl) @
           join_with ('','' @ line_break ind (Suc lvl))
             (map (\<lambda>(k, v). quote k @ colon ind @ print_json ind (Suc lvl) v) kvs) @
           line_break ind lvl @ ''}'')"

definition stringify :: "json \<Rightarrow> string" where
  "stringify j = print_json None 0 j"

definition stringify2 :: "json \<Rightarrow> string" where
  "stringify2 j = print_json (Some 2) 0 j"

section \<open>Tokens\<close>

datatype json_tok =
    TNull | TTrue | TFalse | TNum int | TStr string | TLBrace | TRBrace | TLBracket | TRBracket | TColon | TComma

definition is_ws :: "char \<Rightarrow> bool" where
  "is_ws c \<longleftrightarrow> c = CHR '' '' \<or> c = CHR 0x09 \<or> c = CHR 0x0A \<or> c = CHR 0x0D"

definition is_digit :: "char \<Rightarrow> bool" where
  "is_digit c \<longleftrightarrow> 48 \<le> (of_char c :: nat) \<and> (of_char c :: nat) \<le> 57"

definition hex_value :: "char \<Rightarrow> nat option" where
  "hex_value c =
     (let n = (of_char c :: nat) in
      if 48 \<le> n \<and> n \<le> 57 then Some (n - 48)
      else if 97 \<le> n \<and> n \<le> 102 then Some (n - 87)
      else if 65 \<le> n \<and> n \<le> 70 then Some (n - 55)
      else None)"

definition hex4 :: "char \<Rightarrow> char \<Rightarrow> char \<Rightarrow> char \<Rightarrow> char option" where
  "hex4 a b c d =
     (case (hex_value a, hex_value b, hex_value c, hex_value d) of
        (Some w, Some x, Some y, Some z) \<Rightarrow>
          (let n = ((w * 16 + x) * 16 + y) * 16 + z in if n < 256 then Some (char_of n) else None)
      | _ \<Rightarrow> None)"

definition simple_escape :: "char \<Rightarrow> char option" where
  "simple_escape e =
     (if e = CHR 0x22 \<or> e = CHR 0x5C \<or> e = CHR ''/'' then Some e
      else if e = CHR ''b'' then Some (CHR 0x08)
      else if e = CHR ''t'' then Some (CHR 0x09)
      else if e = CHR ''n'' then Some (CHR 0x0A)
      else if e = CHR ''f'' then Some (CHR 0x0C)
      else if e = CHR ''r'' then Some (CHR 0x0D)
      else None)"

text \<open>The rest of a string literal, after its opening quote.\<close>

fun str_body :: "string \<Rightarrow> (string \<times> string) option" where
  "str_body [] = None"
| "str_body (c # s) =
     (if c = CHR 0x22 then Some ([], s)
      else if c = CHR 0x5C then
        (case s of
           [] \<Rightarrow> None
         | e # s1 \<Rightarrow>
             if e = CHR ''u'' then
               (case s1 of
                  h1 # h2 # h3 # h4 # s2 \<Rightarrow>
                    (case hex4 h1 h2 h3 h4 of
                       None \<Rightarrow> None
                     | Some d \<Rightarrow> map_option (\<lambda>(w, r). (d # w, r)) (str_body s2))
                | _ \<Rightarrow> None)
             else
               (case simple_escape e of
                  None \<Rightarrow> None
                | Some d \<Rightarrow> map_option (\<lambda>(w, r). (d # w, r)) (str_body s1)))
      else if (of_char c :: nat) < 32 then None
      else map_option (\<lambda>(w, r). (c # w, r)) (str_body s))"

definition read_nat :: "string \<Rightarrow> nat" where
  "read_nat ds = foldl (\<lambda>n c. 10 * n + (of_char c - 48)) 0 ds"

text \<open>What may follow an integer.\<close>

definition num_end :: "string \<Rightarrow> bool" where
  "num_end s \<longleftrightarrow> (case s of [] \<Rightarrow> True | c # _ \<Rightarrow> \<not> is_digit c \<and> c \<notin> set ''.eE'')"

definition lex_nat :: "string \<Rightarrow> (nat \<times> string) option" where
  "lex_nat s =
     (let ds = takeWhile is_digit s; r = dropWhile is_digit s in
      if ds = [] \<or> (hd ds = CHR ''0'' \<and> ds \<noteq> ''0'') \<or> \<not> num_end r then None else Some (read_nat ds, r))"

definition lex_tok :: "char \<Rightarrow> string \<Rightarrow> (json_tok \<times> string) option" where
  "lex_tok c s =
     (if c = CHR ''{'' then Some (TLBrace, s)
      else if c = CHR ''}'' then Some (TRBrace, s)
      else if c = CHR ''['' then Some (TLBracket, s)
      else if c = CHR '']'' then Some (TRBracket, s)
      else if c = CHR '':'' then Some (TColon, s)
      else if c = CHR '','' then Some (TComma, s)
      else if c = CHR 0x22 then map_option (\<lambda>(w, r). (TStr w, r)) (str_body s)
      else if startsWith (c # s) ''null'' then Some (TNull, drop 3 s)
      else if startsWith (c # s) ''true'' then Some (TTrue, drop 3 s)
      else if startsWith (c # s) ''false'' then Some (TFalse, drop 4 s)
      else if c = CHR ''-'' then map_option (\<lambda>(n, r). (TNum (- int n), r)) (lex_nat s)
      else map_option (\<lambda>(n, r). (TNum (int n), r)) (lex_nat (c # s)))"

lemma str_body_shorter: "str_body s = Some (w, r) \<Longrightarrow> length r < length s"
proof (induction s arbitrary: w rule: length_induct)
  case (1 s)
  then obtain c t where s: "s = c # t" by (cases s) auto
  have "r = t \<or> (\<exists>t' w'. length t' \<le> length t \<and> str_body t' = Some (w', r))"
    using 1(2) unfolding s
    by (subst (asm) str_body.simps) (auto split: if_splits list.splits option.splits)
  then consider "r = t" | t' w' where "length t' \<le> length t" "str_body t' = Some (w', r)" by blast
  then show ?case
  proof cases
    case 2
    then have "length r < length t'" using 1(1) s by simp
    with 2(1) s show ?thesis by simp
  qed (simp add: s)
qed

lemma lex_nat_shorter: "lex_nat s = Some (n, r) \<Longrightarrow> length r < length s"
proof -
  assume "lex_nat s = Some (n, r)"
  then have r: "r = dropWhile is_digit s" "takeWhile is_digit s \<noteq> []"
    by (auto simp: lex_nat_def Let_def split: if_splits)
  have "length (takeWhile is_digit s @ dropWhile is_digit s) = length s" by simp
  then show ?thesis using r by (simp only: length_append) (metis length_greater_0_conv less_add_same_cancel2)
qed

lemma lex_tok_shorter: "lex_tok c s = Some (t, r) \<Longrightarrow> length r < Suc (length s)"
  by (auto simp: lex_tok_def dest: str_body_shorter lex_nat_shorter split: if_splits)

function lex :: "string \<Rightarrow> json_tok list option" where
  "lex [] = Some []"
| "lex (c # s) =
     (if is_ws c then lex s
      else case lex_tok c s of
             None \<Rightarrow> None
           | Some (t, r) \<Rightarrow> map_option (Cons t) (lex r))"
  by pat_completeness auto

termination
  by (relation "measure length") (auto dest: lex_tok_shorter)

section \<open>Parsing\<close>

text \<open>\<open>fuel\<close> bounds the recursion; the number of tokens is enough (\<open>parse_value_toks\<close>).\<close>

fun parse_value :: "nat \<Rightarrow> json_tok list \<Rightarrow> (json \<times> json_tok list) option"
  and parse_elems :: "nat \<Rightarrow> json_tok list \<Rightarrow> (json list \<times> json_tok list) option"
  and parse_members :: "nat \<Rightarrow> json_tok list \<Rightarrow> ((string \<times> json) list \<times> json_tok list) option" where
  "parse_value 0 ts = None"
| "parse_value (Suc fuel) ts =
     (case ts of
        TNull # r \<Rightarrow> Some (JNull, r)
      | TTrue # r \<Rightarrow> Some (JBool True, r)
      | TFalse # r \<Rightarrow> Some (JBool False, r)
      | TNum n # r \<Rightarrow> Some (JNum n, r)
      | TStr s # r \<Rightarrow> Some (JStr s, r)
      | TLBracket # TRBracket # r \<Rightarrow> Some (JArr [], r)
      | TLBracket # r \<Rightarrow> map_option (\<lambda>(xs, q). (JArr xs, q)) (parse_elems fuel r)
      | TLBrace # TRBrace # r \<Rightarrow> Some (JObj [], r)
      | TLBrace # r \<Rightarrow>
          map_option (\<lambda>(kvs, q). (JObj (fold (\<lambda>(k, v) m. js_set k v m) kvs []), q)) (parse_members fuel r)
      | _ \<Rightarrow> None)"
| "parse_elems 0 ts = None"
| "parse_elems (Suc fuel) ts =
     (case parse_value fuel ts of
        Some (x, TComma # r) \<Rightarrow> map_option (\<lambda>(xs, q). (x # xs, q)) (parse_elems fuel r)
      | Some (x, TRBracket # r) \<Rightarrow> Some ([x], r)
      | _ \<Rightarrow> None)"
| "parse_members 0 ts = None"
| "parse_members (Suc fuel) ts =
     (case ts of
        TStr k # TColon # ts1 \<Rightarrow>
          (case parse_value fuel ts1 of
             Some (v, TComma # r) \<Rightarrow> map_option (\<lambda>(kvs, q). ((k, v) # kvs, q)) (parse_members fuel r)
           | Some (v, TRBrace # r) \<Rightarrow> Some ([(k, v)], r)
           | _ \<Rightarrow> None)
      | _ \<Rightarrow> None)"

definition parse_json :: "string \<Rightarrow> json option" where
  "parse_json s =
     (case lex s of
        None \<Rightarrow> None
      | Some ts \<Rightarrow> (case parse_value (Suc (length ts)) ts of Some (j, []) \<Rightarrow> Some j | _ \<Rightarrow> None))"

section \<open>Reading tokens back\<close>

lemma hex_value_digit: "n < 16 \<Longrightarrow> hex_value (hex_digit n) = Some n"
  by (auto simp: hex_value_def hex_digit_def Let_def take_bit_eq_mod)

lemma char_eqI: "(of_char c :: nat) = of_char d \<Longrightarrow> c = d"
  by simp

lemma str_body_quote: "str_body (concat (map esc_char s) @ CHR 0x22 # r) = Some (s, r)"
proof (induction s)
  case (Cons c s)
  let ?n = "(of_char c :: nat)"
  have hex: "hex4 (CHR ''0'') (CHR ''0'') (hex_digit (?n div 16)) (hex_digit (?n mod 16)) = Some c"
    if "?n < 32"
  proof -
    have "hex_value (CHR ''0'') = Some 0" by (simp add: hex_value_def)
    then show ?thesis using that by (simp add: hex4_def hex_value_digit)
  qed
  have "?n = 8 \<Longrightarrow> c = CHR 0x08" "?n = 9 \<Longrightarrow> c = CHR 0x09" "?n = 10 \<Longrightarrow> c = CHR 0x0A"
    "?n = 12 \<Longrightarrow> c = CHR 0x0C" "?n = 13 \<Longrightarrow> c = CHR 0x0D"
    by (rule char_eqI, simp)+
  then show ?case
    using Cons hex by (auto simp: esc_char_def Let_def simple_escape_def)
qed simp

lemma read_nat_snoc: "read_nat (ds @ [c]) = 10 * read_nat ds + (of_char c - 48)"
  by (simp add: read_nat_def)

lemma read_show_nat: "read_nat (show_nat n) = n"
proof (induction n rule: show_nat.induct)
  case (1 n)
  show ?case
  proof (cases "n < 10")
    case True
    then show ?thesis by (simp add: show_nat.simps [of n] read_nat_def digit_char_code)
  next
    case False
    then show ?thesis
      using 1 by (subst show_nat.simps) (simp add: read_nat_snoc digit_char_code)
  qed
qed

lemma show_nat_leading: "n \<noteq> 0 \<Longrightarrow> hd (show_nat n) \<noteq> CHR ''0''"
proof (induction n rule: show_nat.induct)
  case (1 n)
  show ?case
  proof (cases "n < 10")
    case True
    then have "digit_char n \<noteq> digit_char 0" using digit_char_inj [of n 0] "1.prems" by auto
    moreover have "digit_char 0 = CHR ''0''" by (rule char_eqI) (simp add: digit_char_def)
    ultimately show ?thesis using True by (simp add: show_nat.simps [of n])
  next
    case False
    then have "n div 10 \<noteq> 0" by auto
    with 1 False show ?thesis by (subst show_nat.simps) simp
  qed
qed

lemma lex_nat_show: "num_end s \<Longrightarrow> lex_nat (show_nat n @ s) = Some (n, s)"
proof -
  assume s: "num_end s"
  have d: "\<forall>c \<in> set (show_nat n). is_digit c" by (auto simp: is_digit_def dest: show_nat_digits)
  moreover have "takeWhile is_digit s = []" "dropWhile is_digit s = s"
    using s by (cases s; simp add: num_end_def)+
  ultimately have "takeWhile is_digit (show_nat n @ s) = show_nat n" "dropWhile is_digit (show_nat n @ s) = s"
    by simp_all
  moreover have "hd (show_nat n) = CHR ''0'' \<Longrightarrow> show_nat n = ''0''"
    using show_nat_leading [of n] by (cases "n = 0") (auto simp: show_nat.simps [of 0] digit_char_def)
  ultimately show ?thesis using s by (auto simp: lex_nat_def Let_def read_show_nat)
qed

lemma lex_Cons_digit: "is_digit c \<Longrightarrow> lex_tok c s = map_option (\<lambda>(n, r). (TNum (int n), r)) (lex_nat (c # s))"
proof -
  assume "is_digit c"
  then have "c \<noteq> CHR ''{'' \<and> c \<noteq> CHR ''}'' \<and> c \<noteq> CHR ''['' \<and> c \<noteq> CHR '']'' \<and> c \<noteq> CHR '':'' \<and> c \<noteq> CHR '','' \<and>
      c \<noteq> CHR 0x22 \<and> c \<noteq> CHR ''n'' \<and> c \<noteq> CHR ''t'' \<and> c \<noteq> CHR ''f'' \<and> c \<noteq> CHR ''-''"
    by (intro conjI notI) (simp_all add: is_digit_def)
  then show ?thesis by (simp add: lex_tok_def startsWith_def)
qed

lemma lex_show_int: "num_end s \<Longrightarrow> lex (show_int n @ s) = map_option (Cons (TNum n)) (lex s)"
proof (cases "n < 0")
  case True
  assume "num_end s"
  then show ?thesis
    using True by (simp add: show_int_def lex_tok_def is_ws_def lex_nat_show startsWith_def)
next
  case False
  assume s: "num_end s"
  obtain c ds where c: "show_nat (nat n) = c # ds" by (cases "show_nat (nat n)") auto
  then have d: "is_digit c" using show_nat_digits [of c "nat n"] by (simp add: is_digit_def)
  then have "\<not> is_ws c" by (auto simp: is_ws_def is_digit_def)
  then show ?thesis
    using False c d lex_nat_show [OF s, of "nat n"] by (simp add: show_int_def lex_Cons_digit)
qed

lemma lex_quote: "lex (quote w @ s) = map_option (Cons (TStr w)) (lex s)"
  by (simp add: quote_def is_ws_def lex_tok_def str_body_quote)

lemma lex_punctuation:
  "lex (CHR ''{'' # s) = map_option (Cons TLBrace) (lex s)" "lex (CHR ''}'' # s) = map_option (Cons TRBrace) (lex s)"
  "lex (CHR ''['' # s) = map_option (Cons TLBracket) (lex s)" "lex (CHR '']'' # s) = map_option (Cons TRBracket) (lex s)"
  "lex (CHR '','' # s) = map_option (Cons TComma) (lex s)" "lex (CHR '':'' # s) = map_option (Cons TColon) (lex s)"
  by (simp_all add: is_ws_def lex_tok_def)

lemma lex_keyword:
  "lex (CHR ''n'' # CHR ''u'' # CHR ''l'' # CHR ''l'' # s) = map_option (Cons TNull) (lex s)"
  "lex (CHR ''t'' # CHR ''r'' # CHR ''u'' # CHR ''e'' # s) = map_option (Cons TTrue) (lex s)"
  "lex (CHR ''f'' # CHR ''a'' # CHR ''l'' # CHR ''s'' # CHR ''e'' # s) = map_option (Cons TFalse) (lex s)"
  by (simp_all add: is_ws_def lex_tok_def startsWith_def)

text \<open>The text \<open>w\<close>, followed by \<open>s\<close>, is read as the tokens \<open>ts\<close>.\<close>

definition reads :: "string \<Rightarrow> json_tok list \<Rightarrow> string \<Rightarrow> bool" where
  "reads w ts s \<longleftrightarrow> lex (w @ s) = (case lex s of None \<Rightarrow> None | Some x \<Rightarrow> Some (ts @ x))"

lemma reads_append: "reads w ts (w' @ s) \<Longrightarrow> reads w' ts' s \<Longrightarrow> reads (w @ w') (ts @ ts') s"
  by (simp add: reads_def split: option.splits)

lemma reads_lex: "lex (w @ s) = map_option ((@) ts) (lex s) \<Longrightarrow> reads w ts s"
  by (simp add: reads_def map_option_case)

lemma reads_tok: "lex (w @ s) = map_option (Cons t) (lex s) \<Longrightarrow> reads w [t] s"
  by (simp add: reads_def split: option.split)

lemma reads_skip: "lex (w @ s) = lex s \<Longrightarrow> reads w [] s"
  by (simp add: reads_def split: option.split)

lemma reads_Nil: "reads [] [] s"
  by (rule reads_skip) simp

lemma reads_char:
  "reads ''{'' [TLBrace] s" "reads ''}'' [TRBrace] s" "reads ''['' [TLBracket] s" "reads '']'' [TRBracket] s"
  "reads '','' [TComma] s"
  by (rule reads_tok, simp only: append.simps lex_punctuation)+

lemma reads_quote: "reads (quote w) [TStr w] s"
  by (intro reads_tok lex_quote)

lemma reads_num: "num_end s \<Longrightarrow> reads (show_int n) [TNum n] s"
  by (intro reads_tok lex_show_int)

lemma reads_keyword: "reads ''null'' [TNull] s" "reads ''true'' [TTrue] s" "reads ''false'' [TFalse] s"
  by (rule reads_tok, simp only: append.simps lex_keyword)+

lemma lex_spaces: "lex (replicate n (CHR '' '') @ s) = lex s"
  by (induction n) (simp_all add: is_ws_def)

lemma reads_break: "reads (line_break ind l) [] s"
  by (rule reads_skip, cases ind) (simp_all add: line_break_def is_ws_def lex_spaces)

lemma reads_colon: "reads (colon ind) [TColon] s"
proof (rule reads_tok, cases ind)
  case None
  then show "lex (colon ind @ s) = map_option (Cons TColon) (lex s)"
    by (simp add: colon_def lex_punctuation del: lex.simps)
next
  case (Some k)
  have "lex (CHR '' '' # s) = lex s" by (simp add: is_ws_def)
  then show "lex (colon ind @ s) = map_option (Cons TColon) (lex s)"
    using Some by (simp add: colon_def lex_punctuation del: lex.simps)
qed

lemma num_end_break:
  "c \<in> set '',]}'' \<Longrightarrow> num_end (line_break ind l @ c # s)" "num_end (CHR '','' # s)" "num_end []"
  by (auto simp: num_end_def line_break_def is_digit_def split: option.split)

fun comma_sep :: "json_tok list list \<Rightarrow> json_tok list" where
  "comma_sep [] = []"
| "comma_sep [w] = w"
| "comma_sep (w # ws) = w @ TComma # comma_sep ws"

fun toks :: "json \<Rightarrow> json_tok list" where
  "toks JNull = [TNull]"
| "toks (JBool b) = [if b then TTrue else TFalse]"
| "toks (JNum n) = [TNum n]"
| "toks (JStr s) = [TStr s]"
| "toks (JArr xs) = TLBracket # comma_sep (map toks xs) @ [TRBracket]"
| "toks (JObj kvs) = TLBrace # comma_sep (map (\<lambda>(k, v). TStr k # TColon # toks v) kvs) @ [TRBrace]"

lemma reads_join:
  assumes "\<And>i s. i \<in> set is \<Longrightarrow> num_end s \<Longrightarrow> reads (f i) (g i) s" "num_end s"
  shows "reads (join_with ('','' @ line_break ind l) (map f is)) (comma_sep (map g is)) s"
  using assms
proof (induction "is" rule: induct_list012)
  case 1
  show ?case by (simp add: reads_Nil)
next
  case (3 i j js)
  have "reads ('','' @ line_break ind l) ([TComma] @ []) t" for t by (intro reads_append reads_char reads_break)
  moreover have "reads (join_with ('','' @ line_break ind l) (map f (j # js))) (comma_sep (map g (j # js))) s"
    by (rule 3(2)) (use 3(3,4) in auto)
  ultimately have "reads (('','' @ line_break ind l) @ join_with ('','' @ line_break ind l) (map f (j # js)))
      (([TComma] @ []) @ comma_sep (map g (j # js))) s" by (rule reads_append)
  moreover have "reads (f i) (g i) (('','' @ line_break ind l) @ join_with ('','' @ line_break ind l) (map f (j # js)) @ s)"
    using 3(3) by (simp add: num_end_break(2))
  ultimately have "reads (f i @ ('','' @ line_break ind l) @ join_with ('','' @ line_break ind l) (map f (j # js)))
      (g i @ ([TComma] @ []) @ comma_sep (map g (j # js))) s"
    by - (rule reads_append, simp_all)
  then show ?case by simp
qed simp

lemma reads_block:
  assumes "\<And>s. num_end s \<Longrightarrow> reads body ts s" "reads [a] [ta] (line_break ind k @ body @ line_break ind l @ [b] @ s)"
    "reads [b] [tb] s" "b \<in> set ''}]''"
  shows "reads ([a] @ line_break ind k @ body @ line_break ind l @ [b]) (ta # ts @ [tb]) s"
proof -
  have "reads body ts (line_break ind l @ b # s)"
    by (rule assms(1), rule num_end_break(1), use assms(4) in auto)
  moreover have "reads (line_break ind l @ [b]) ([] @ [tb]) s" by (intro reads_append reads_break assms(3))
  ultimately have "reads (body @ line_break ind l @ [b]) (ts @ [] @ [tb]) s" by - (rule reads_append, simp_all)
  then have "reads (line_break ind k @ body @ line_break ind l @ [b]) ([] @ ts @ [] @ [tb]) s"
    by - (rule reads_append [OF reads_break])
  then have "reads ([a] @ line_break ind k @ body @ line_break ind l @ [b]) ([ta] @ [] @ ts @ [] @ [tb]) s"
    using assms(2) by - (rule reads_append, simp_all)
  then show ?thesis by simp
qed

lemma reads_print: "num_end s \<Longrightarrow> reads (print_json ind lvl j) (toks j) s"
proof (induction j arbitrary: lvl s)
  case (JArr xs)
  show ?case
  proof (cases "xs = []")
    case True
    have "reads (''['' @ '']'') ([TLBracket] @ [TRBracket]) s" by (intro reads_append reads_char)
    then show ?thesis using True by simp
  next
    case False
    have "reads (join_with ('','' @ line_break ind (Suc lvl)) (map (print_json ind (Suc lvl)) xs))
        (comma_sep (map toks xs)) s" if "num_end s" for s
      using that by (intro reads_join JArr)
    from reads_block [OF this reads_char(3) reads_char(4)] False show ?thesis by simp
  qed
next
  case (JObj kvs)
  let ?f = "\<lambda>(k, v). quote k @ colon ind @ print_json ind (Suc lvl) v"
  let ?g = "\<lambda>(k, v). TStr k # TColon # toks v"
  show ?case
  proof (cases "kvs = []")
    case True
    have "reads (''{'' @ ''}'') ([TLBrace] @ [TRBrace]) s" by (intro reads_append reads_char)
    then show ?thesis using True by simp
  next
    case False
    have item: "reads (?f i) (?g i) s" if "i \<in> set kvs" "num_end s" for i s
    proof -
      obtain k v where kv: "i = (k, v)" by (cases i)
      have "reads (print_json ind (Suc lvl) v) (toks v) s" using JObj(1) [OF that(1)] that(2) kv by (simp add: snds.simps)
      then have "reads (quote k @ colon ind @ print_json ind (Suc lvl) v) ([TStr k] @ [TColon] @ toks v) s"
        by (intro reads_append reads_quote reads_colon)
      then show ?thesis by (simp add: kv)
    qed
    have "reads (join_with ('','' @ line_break ind (Suc lvl)) (map ?f kvs)) (comma_sep (map ?g kvs)) s"
      if "num_end s" for s
      using item that by (intro reads_join) auto
    from reads_block [OF this reads_char(1) reads_char(2)] False show ?thesis by simp
  qed
qed (simp_all add: reads_num reads_quote reads_keyword del: append.simps)

section \<open>Parsing back\<close>

lemma toks_not_close: "toks j = TRBracket # r \<Longrightarrow> False" "toks j = TRBrace # r \<Longrightarrow> False"
  by (cases j; simp split: if_splits)+

lemma toks_Cons: "\<exists>t ts. toks j = t # ts \<and> t \<noteq> TRBracket \<and> t \<noteq> TRBrace"
  by (cases j) auto

lemma parse_elems_toks:
  assumes "\<And>x n r. x \<in> set xs \<Longrightarrow> length (toks x) \<le> n \<Longrightarrow> parse_value n (toks x @ r) = Some (x, r)"
    "xs \<noteq> []" "length (comma_sep (map toks xs)) < n"
  shows "parse_elems n (comma_sep (map toks xs) @ TRBracket # r) = Some (xs, r)"
  using assms
proof (induction xs arbitrary: n rule: induct_list012)
  case (2 x)
  then show ?case by (cases n) simp_all
next
  case (3 x y ys)
  then obtain k where n: "n = Suc k" by (cases n) auto
  have "parse_elems k (comma_sep (map toks (y # ys)) @ TRBracket # r) = Some (y # ys, r)"
    using 3(3,5) n by (intro 3(2)) auto
  then show ?case using 3(3,5) n by simp
qed simp

lemma parse_members_toks:
  assumes "\<And>k x n r. (k, x) \<in> set kvs \<Longrightarrow> length (toks x) \<le> n \<Longrightarrow> parse_value n (toks x @ r) = Some (x, r)"
    "kvs \<noteq> []" "length (comma_sep (map (\<lambda>(k, v). TStr k # TColon # toks v) kvs)) < n"
  shows "parse_members n (comma_sep (map (\<lambda>(k, v). TStr k # TColon # toks v) kvs) @ TRBrace # r) = Some (kvs, r)"
  using assms
proof (induction kvs arbitrary: n rule: induct_list012)
  case (2 x)
  then show ?case by (cases n; cases x) simp_all
next
  case (3 x y ys)
  then obtain m where n: "n = Suc m" by (cases n) auto
  obtain k v where x: "x = (k, v)" by (cases x)
  have "parse_members m (comma_sep (map (\<lambda>(k, v). TStr k # TColon # toks v) (y # ys)) @ TRBrace # r) = Some (y # ys, r)"
    using 3(3,5) n by (intro 3(2)) (auto split: prod.splits)
  then show ?case using 3(3) [of k v] 3(5) n x by simp
qed simp

text \<open>Values whose objects have no key twice: the ones a JavaScript object can hold.\<close>

fun json_wf :: "json \<Rightarrow> bool" where
  "json_wf (JArr xs) \<longleftrightarrow> list_all json_wf xs"
| "json_wf (JObj kvs) \<longleftrightarrow> distinct (map fst kvs) \<and> list_all (\<lambda>(k, v). json_wf v) kvs"
| "json_wf _ \<longleftrightarrow> True"

lemma fold_js_set: "distinct (map fst (m @ kvs)) \<Longrightarrow> fold (\<lambda>(k, v) m. js_set k v m) kvs m = m @ kvs"
proof (induction kvs arbitrary: m)
  case (Cons e kvs)
  obtain k v where e: "e = (k, v)" by (cases e)
  have "js_get m k = None" using Cons.prems e by (auto simp: map_of_eq_None_iff)
  then show ?case using Cons.IH [of "m @ [(k, v)]"] Cons.prems e by (simp add: js_set_absent)
qed simp

lemma parse_value_toks: "json_wf j \<Longrightarrow> length (toks j) \<le> n \<Longrightarrow> parse_value n (toks j @ r) = Some (j, r)"
proof (induction j arbitrary: n r)
  case (JArr xs)
  then obtain k where n: "n = Suc k" by (cases n) auto
  show ?case
  proof (cases xs)
    case (Cons x ys)
    have e: "parse_elems k (comma_sep (map toks xs) @ TRBracket # r) = Some (xs, r)"
      using JArr n Cons by (intro parse_elems_toks) (auto simp: list_all_iff)
    obtain t ts where "comma_sep (map toks xs) @ TRBracket # r = t # ts" "t \<noteq> TRBracket"
      using toks_Cons [of x] Cons by (cases ys) auto
    then show ?thesis using e n by (cases t) simp_all
  qed (simp add: n)
next
  case (JObj kvs)
  then obtain k where n: "n = Suc k" by (cases n) auto
  let ?g = "\<lambda>(k, v). TStr k # TColon # toks v"
  show ?case
  proof (cases kvs)
    case (Cons x ys)
    have e: "parse_members k (comma_sep (map ?g kvs) @ TRBrace # r) = Some (kvs, r)"
    proof (rule parse_members_toks)
      show "parse_value m (toks y @ q) = Some (y, q)" if "(a, y) \<in> set kvs" "length (toks y) \<le> m" for a y m q
        using JObj(1) [OF that(1)] JObj(2) that by (auto simp: list_all_iff snds.simps)
    qed (use JObj n Cons in auto)
    obtain t ts where "comma_sep (map ?g kvs) @ TRBrace # r = TStr t # ts"
      using Cons by (cases ys; cases x) auto
    then show ?thesis using e n JObj(2) fold_js_set [of "[]" kvs] by simp
  qed (simp add: n)
qed (auto simp: Suc_le_eq gr0_conv_Suc)

lemma parse_print_json: "json_wf j \<Longrightarrow> parse_json (print_json ind 0 j) = Some j"
  using reads_print [of "[]" ind 0 j] parse_value_toks [of j "Suc (length (toks j))" "[]"]
  by (simp add: reads_def num_end_def parse_json_def)

text \<open>Whatever is parsed has no key twice in an object.\<close>

lemma js_wf_fold_set: "js_wf m \<Longrightarrow> js_wf (fold (\<lambda>(k, v) m. js_set k v m) kvs m)"
  by (induction kvs arbitrary: m) (auto intro!: js_wf_set)

lemma fold_set_values:
  "list_all (\<lambda>(k, v). P v) m \<Longrightarrow> list_all (\<lambda>(k, v). P v) kvs \<Longrightarrow>
   list_all (\<lambda>(k, v). P v) (fold (\<lambda>(k, v) m. js_set k v m) kvs m)"
proof (induction kvs arbitrary: m)
  case (Cons e kvs)
  have "list_all (\<lambda>(k, v). P v) m \<Longrightarrow> P v \<Longrightarrow> list_all (\<lambda>(k, v). P v) (js_set k v m)" for k v
    by (induction k v m rule: js_set.induct) auto
  with Cons show ?case by (cases e) simp
qed simp

lemma parse_wf:
  "parse_value n ts = Some (j, r) \<Longrightarrow> json_wf j"
  "parse_elems n ts = Some (xs, r) \<Longrightarrow> list_all json_wf xs"
  "parse_members n ts = Some (kvs, r) \<Longrightarrow> list_all (\<lambda>(k, v). json_wf v) kvs"
proof (induction n ts and n ts and n ts arbitrary: j r and xs r and kvs r
    rule: parse_value_parse_elems_parse_members.induct)
  case (2 fuel ts)
  then show ?case
    by (auto intro!: js_wf_fold_set fold_set_values split: list.splits json_tok.splits option.splits)
next
  case (4 fuel ts)
  then show ?case by (auto split: list.splits json_tok.splits option.splits)
next
  case (6 fuel ts)
  then show ?case by (auto split: list.splits json_tok.splits option.splits)
qed simp_all

lemma parse_json_wf: "parse_json s = Some j \<Longrightarrow> json_wf j"
  unfolding parse_json_def
  by (auto simp del: parse_value.simps dest: parse_wf(1) split: option.splits prod.splits list.splits)

end
