(* ===== verification/Credential_Store.thy ===== *)
theory Credential_Store
  imports Credential_Schema JSON_Text
begin

text \<open>
  \<^verbatim>\<open>src/src/proxy/credential-store.ts\<close>: the encrypted credential file and its key file. The secrets
  directory maps file names to files, with whether their owner may read and write them; every operation takes the
  directory and returns its result with the new directory. A byte is a character. The cipher
  (\<open>seal\<close>, \<open>unseal\<close>) is a parameter with the law of AES-GCM; random bytes are arguments. Shown: what
  decryption accepts, that what is saved is loaded again, what adding, removing and migrating
  credentials do to the stored rules, that the database password never changes once handed out, and
  that adding a credential does not check it.
\<close>

section \<open>Files\<close>

datatype disk_file = Missing | File bool bool string

type_synonym disk = "string \<Rightarrow> disk_file"

datatype store_error =
    ENOENT string
  | EACCES string
  | EncryptedDataTooShort
  | InvalidKeyLength
  | AuthenticationFailed
  | InvalidKeyFile nat
  | InvalidJson
  | InvalidSchema
  | CredentialNotFound string

type_synonym 'a op = "disk \<Rightarrow> (store_error + 'a) \<times> disk"

definition pureS :: "store_error + 'a \<Rightarrow> 'a op" where
  "pureS r d = (r, d)"

definition bindS :: "'a op \<Rightarrow> ('a \<Rightarrow> 'b op) \<Rightarrow> 'b op" where
  "bindS m f d = (case m d of (Inl e, d1) \<Rightarrow> (Inl e, d1) | (Inr x, d1) \<Rightarrow> f x d1)"

definition readFile :: "string \<Rightarrow> string op" where
  "readFile name d =
     (case d name of
        Missing \<Rightarrow> (Inl (ENOENT name), d)
      | File r w c \<Rightarrow> (if r then Inr c else Inl (EACCES name), d))"

text \<open>The mode (readable, writable by the owner) is used only when the file is created.\<close>

definition writeFile :: "string \<Rightarrow> bool \<times> bool \<Rightarrow> string \<Rightarrow> unit op" where
  "writeFile name mode c d =
     (case d name of
        Missing \<Rightarrow> (Inr (), d(name := File (fst mode) (snd mode) c))
      | File r w c' \<Rightarrow> (if w then (Inr (), d(name := File r w c)) else (Inl (EACCES name), d)))"

section \<open>Encryption\<close>

type_synonym seal_fun = "string \<Rightarrow> string \<Rightarrow> string \<Rightarrow> string \<times> string"
type_synonym unseal_fun = "string \<Rightarrow> string \<Rightarrow> string \<Rightarrow> string \<Rightarrow> string option"

text \<open>
  AES-256-GCM: for a key and an initialisation vector, a text and its ciphertext with the 16-byte
  tag determine each other, and decryption accepts nothing else.
\<close>

definition aead :: "seal_fun \<Rightarrow> unseal_fun \<Rightarrow> bool" where
  "aead seal unseal \<longleftrightarrow>
     (\<forall>k iv p. length (fst (seal k iv p)) = 16) \<and>
     (\<forall>k iv t c p. unseal k iv t c = Some p \<longleftrightarrow> seal k iv p = (t, c))"

definition IV_LENGTH :: nat where "IV_LENGTH = 16"
definition AUTH_TAG_LENGTH :: nat where "AUTH_TAG_LENGTH = 16"
definition KEY_LENGTH :: nat where "KEY_LENGTH = 32"

definition encrypt :: "seal_fun \<Rightarrow> string \<Rightarrow> string \<Rightarrow> string \<Rightarrow> store_error + string" where
  "encrypt seal iv plaintext key =
     (if length key \<noteq> KEY_LENGTH then Inl InvalidKeyLength
      else let (authTag, encrypted) = seal key iv plaintext in Inr (iv @ authTag @ encrypted))"

definition decrypt :: "unseal_fun \<Rightarrow> string \<Rightarrow> string \<Rightarrow> store_error + string" where
  "decrypt unseal dat key =
     (if length dat < IV_LENGTH + AUTH_TAG_LENGTH then Inl EncryptedDataTooShort
      else
        let iv = take IV_LENGTH dat;
            authTag = take AUTH_TAG_LENGTH (drop IV_LENGTH dat);
            ciphertext = drop (IV_LENGTH + AUTH_TAG_LENGTH) dat
        in if length key \<noteq> KEY_LENGTH then Inl InvalidKeyLength
           else case unseal key iv authTag ciphertext of
                  None \<Rightarrow> Inl AuthenticationFailed
                | Some p \<Rightarrow> Inr p)"

section \<open>The JSON form of the rules\<close>

definition opt_field :: "string \<Rightarrow> ('a \<Rightarrow> json) \<Rightarrow> 'a option \<Rightarrow> (string \<times> json) list" where
  "opt_field k f v = (case v of None \<Rightarrow> [] | Some x \<Rightarrow> [(k, f x)])"

definition strings_json :: "string list \<Rightarrow> json" where
  "strings_json ss = JArr (map JStr ss)"

definition limit_json :: "RateLimitRule \<Rightarrow> json" where
  "limit_json l = JObj [(''requests'', JNum (int (requests l))), (''windowSeconds'', JNum (int (windowSeconds l)))]"

definition request_rules_json :: "RequestRules \<Rightarrow> json" where
  "request_rules_json r = JObj (opt_field ''methods'' strings_json (rr_methods r) @
     opt_field ''pathPrefixes'' strings_json (rr_pathPrefixes r) @ opt_field ''maxBodySize'' JNum (rr_maxBodySize r))"

definition method_json :: "CredentialMethod \<Rightarrow> json" where
  "method_json m = JStr (case m of Oauth \<Rightarrow> ''oauth'' | Api_key \<Rightarrow> ''api_key'')"

definition rule_json :: "CredentialRule \<Rightarrow> json" where
  "rule_json c = JObj ([(''name'', JStr (cr_name c)), (''hostPattern'', JStr (cr_hostPattern c)),
      (''header'', JStr (cr_header c)), (''value'', JStr (cr_value c))] @
     opt_field ''values'' strings_json (cr_values c) @ opt_field ''rateLimit'' limit_json (cr_rateLimit c) @
     opt_field ''rules'' request_rules_json (cr_rules c) @ opt_field ''expiresAt'' JNum (cr_expiresAt c) @
     opt_field ''credentialMethod'' method_json (cr_credentialMethod c))"

definition rules_json :: "CredentialRules \<Rightarrow> json" where
  "rules_json r = JObj [(''credentials'', JArr (map rule_json (crs_credentials r))),
     (''pinningBypass'', strings_json (crs_pinningBypass r)),
     (''secrets'', JObj (map (\<lambda>(k, v). (k, JStr v)) (crs_secrets r)))]"

text \<open>
  The shapes the schema accepts; \<open>None\<close> is a rejection. An optional field may be absent but not of
  another shape; unknown fields are dropped.
\<close>

fun those_map :: "('a \<Rightarrow> 'b option) \<Rightarrow> 'a list \<Rightarrow> 'b list option" where
  "those_map f [] = Some []"
| "those_map f (x # xs) =
     (case f x of None \<Rightarrow> None | Some y \<Rightarrow> (case those_map f xs of None \<Rightarrow> None | Some ys \<Rightarrow> Some (y # ys)))"

fun json_string :: "json \<Rightarrow> string option" where
  "json_string (JStr s) = Some s"
| "json_string _ = None"

fun json_int :: "json \<Rightarrow> int option" where
  "json_int (JNum n) = Some n"
| "json_int _ = None"

fun json_nat :: "json \<Rightarrow> nat option" where
  "json_nat (JNum n) = (if 0 \<le> n then Some (nat n) else None)"
| "json_nat _ = None"

fun json_list :: "(json \<Rightarrow> 'a option) \<Rightarrow> json \<Rightarrow> 'a list option" where
  "json_list f (JArr xs) = those_map f xs"
| "json_list f _ = None"

fun json_record :: "(json \<Rightarrow> 'a option) \<Rightarrow> json \<Rightarrow> (string, 'a) js_map option" where
  "json_record f (JObj kvs) = those_map (\<lambda>(k, v). map_option (Pair k) (f v)) kvs"
| "json_record f _ = None"

definition required :: "string \<Rightarrow> (json \<Rightarrow> 'a option) \<Rightarrow> json \<Rightarrow> 'a option" where
  "required k f j = (case field j k of None \<Rightarrow> None | Some v \<Rightarrow> f v)"

definition optional :: "string \<Rightarrow> (json \<Rightarrow> 'a option) \<Rightarrow> json \<Rightarrow> 'a option option" where
  "optional k f j = (case field j k of None \<Rightarrow> Some None | Some v \<Rightarrow> map_option Some (f v))"

definition default_to :: "'a \<Rightarrow> string \<Rightarrow> (json \<Rightarrow> 'a option) \<Rightarrow> json \<Rightarrow> 'a option" where
  "default_to x k f j = (case field j k of None \<Rightarrow> Some x | Some v \<Rightarrow> f v)"

fun is_object :: "json \<Rightarrow> bool" where
  "is_object (JObj kvs) \<longleftrightarrow> True"
| "is_object _ \<longleftrightarrow> False"

definition json_method :: "json \<Rightarrow> CredentialMethod option" where
  "json_method j =
     (case json_string j of
        Some s \<Rightarrow> if s = ''oauth'' then Some Oauth else if s = ''api_key'' then Some Api_key else None
      | None \<Rightarrow> None)"

definition json_limit :: "json \<Rightarrow> RateLimitRule option" where
  "json_limit j =
     (case (required ''requests'' json_nat j, required ''windowSeconds'' json_nat j) of
        (Some r, Some w) \<Rightarrow> Some \<lparr>requests = r, windowSeconds = w\<rparr>
      | _ \<Rightarrow> None)"

definition json_request_rules :: "json \<Rightarrow> RequestRules option" where
  "json_request_rules j =
     (if is_object j then
        case (optional ''methods'' (json_list json_string) j, optional ''pathPrefixes'' (json_list json_string) j,
              optional ''maxBodySize'' json_int j) of
          (Some ms, Some ps, Some k) \<Rightarrow> Some \<lparr>rr_methods = ms, rr_pathPrefixes = ps, rr_maxBodySize = k\<rparr>
        | _ \<Rightarrow> None
      else None)"

definition json_rule :: "json \<Rightarrow> CredentialRule option" where
  "json_rule j =
     (case (required ''name'' json_string j, required ''hostPattern'' json_string j,
            required ''header'' json_string j, required ''value'' json_string j) of
        (Some n, Some hp, Some h, Some v) \<Rightarrow>
          (case (optional ''values'' (json_list json_string) j, optional ''rateLimit'' json_limit j,
                 optional ''rules'' json_request_rules j, optional ''expiresAt'' json_int j,
                 optional ''credentialMethod'' json_method j) of
             (Some vs, Some l, Some rs, Some e, Some m) \<Rightarrow>
               Some \<lparr>cr_name = n, cr_hostPattern = hp, cr_header = h, cr_value = v, cr_values = vs,
                     cr_rateLimit = l, cr_rules = rs, cr_expiresAt = e, cr_credentialMethod = m\<rparr>
           | _ \<Rightarrow> None)
      | _ \<Rightarrow> None)"

definition json_rules :: "json \<Rightarrow> CredentialRules option" where
  "json_rules j =
     (if is_object j then
        case (default_to [] ''credentials'' (json_list json_rule) j,
              default_to [] ''pinningBypass'' (json_list json_string) j,
              default_to [] ''secrets'' (json_record json_string) j) of
          (Some cs, Some ps, Some ss) \<Rightarrow> Some \<lparr>crs_credentials = cs, crs_pinningBypass = ps, crs_secrets = ss\<rparr>
        | _ \<Rightarrow> None
      else None)"

text \<open>\<^verbatim>\<open>JSON.parse\<close> and \<^verbatim>\<open>parseCredentialRules\<close> of a decrypted text.\<close>

definition read_rules :: "string \<Rightarrow> store_error + CredentialRules" where
  "read_rules text =
     (case parse_json text of
        None \<Rightarrow> Inl InvalidJson
      | Some j \<Rightarrow>
          (case json_rules j of
             None \<Rightarrow> Inl InvalidSchema
           | Some r \<Rightarrow> (case parseCredentialRules r of Inl e \<Rightarrow> Inl InvalidSchema | Inr r \<Rightarrow> Inr r)))"

section \<open>Key and credential files\<close>

definition encName :: string where "encName = ''credentials.enc''"
definition keyName :: string where "keyName = ''credentials.key''"

definition readKeyFile :: "string \<Rightarrow> string op" where
  "readKeyFile keyPath =
     bindS (readFile keyPath) (\<lambda>key.
       pureS (if length key \<noteq> KEY_LENGTH then Inl (InvalidKeyFile (length key)) else Inr key))"

definition writeKeyFile :: "string \<Rightarrow> string \<Rightarrow> unit op" where
  "writeKeyFile keyPath key = writeFile keyPath (True, False) key"

definition saveCredentials :: "seal_fun \<Rightarrow> string \<Rightarrow> CredentialRules \<Rightarrow> string \<Rightarrow> string \<Rightarrow> unit op" where
  "saveCredentials seal iv rules encPath key =
     bindS (pureS (encrypt seal iv (stringify2 (rules_json rules)) key)) (writeFile encPath (True, True))"

definition emptyRules :: CredentialRules where
  "emptyRules = \<lparr>crs_credentials = [], crs_pinningBypass = [], crs_secrets = []\<rparr>"

definition loadCredentials :: "unseal_fun \<Rightarrow> string \<Rightarrow> string \<Rightarrow> CredentialRules op" where
  "loadCredentials unseal encPath key d =
     (case readFile encPath d of
        (Inl (ENOENT n), d1) \<Rightarrow> (Inr emptyRules, d1)
      | (Inl e, d1) \<Rightarrow> (Inl e, d1)
      | (Inr dat, d1) \<Rightarrow>
          ((case decrypt unseal dat key of Inl e \<Rightarrow> Inl e | Inr text \<Rightarrow> read_rules text), d1))"

section \<open>The store\<close>

text \<open>
  A store: the cipher, the key override of the containers, and the random bytes the next operation
  would draw.
\<close>

record Store =
  st_seal :: seal_fun
  st_unseal :: unseal_fun
  st_keyOverride :: "string option"
  st_newKey :: string
  st_iv :: string

definition ensureKey :: "Store \<Rightarrow> string op" where
  "ensureKey st d =
     (case st_keyOverride st of
        Some k \<Rightarrow> (Inr k, d)
      | None \<Rightarrow>
          (case readKeyFile keyName d of
             (Inr k, d1) \<Rightarrow> (Inr k, d1)
           | (Inl e, d1) \<Rightarrow>
               bindS (writeKeyFile keyName (st_newKey st)) (\<lambda>_. pureS (Inr (st_newKey st))) d1))"

definition load :: "Store \<Rightarrow> CredentialRules op" where
  "load st = bindS (ensureKey st) (loadCredentials (st_unseal st) encName)"

definition save :: "Store \<Rightarrow> CredentialRules \<Rightarrow> unit op" where
  "save st rules = bindS (ensureKey st) (saveCredentials (st_seal st) (st_iv st) rules encName)"

definition withoutCredential :: "string \<Rightarrow> CredentialRules \<Rightarrow> CredentialRules" where
  "withoutCredential name rules =
     rules\<lparr>crs_credentials := filter (\<lambda>r. cr_name r \<noteq> name) (crs_credentials rules)\<rparr>"

definition pushCredential :: "CredentialRule \<Rightarrow> CredentialRules \<Rightarrow> CredentialRules" where
  "pushCredential c rules = rules\<lparr>crs_credentials := crs_credentials rules @ [c]\<rparr>"

definition newCredential :: "string \<Rightarrow> string \<Rightarrow> string \<Rightarrow> string \<Rightarrow> RateLimitRule option \<Rightarrow> CredentialRule" where
  "newCredential name hostPattern header val rateLimit =
     \<lparr>cr_name = name, cr_hostPattern = hostPattern, cr_header = header, cr_value = val, cr_values = None,
      cr_rateLimit = rateLimit, cr_rules = None, cr_expiresAt = None, cr_credentialMethod = None\<rparr>"

definition addCredential ::
    "Store \<Rightarrow> string \<Rightarrow> string \<Rightarrow> string \<Rightarrow> string \<Rightarrow> RateLimitRule option \<Rightarrow> CredentialRules op" where
  "addCredential st name hostPattern header val rateLimit =
     bindS (load st) (\<lambda>rules.
       let rules' = pushCredential (newCredential name hostPattern header val rateLimit) (withoutCredential name rules)
       in bindS (save st rules') (\<lambda>_. pureS (Inr rules')))"

definition removeCredential :: "Store \<Rightarrow> string \<Rightarrow> CredentialRules op" where
  "removeCredential st name =
     bindS (load st) (\<lambda>rules.
       let rules' = withoutCredential name rules
       in if length (crs_credentials rules') = length (crs_credentials rules)
          then pureS (Inl (CredentialNotFound name))
          else bindS (save st rules') (\<lambda>_. pureS (Inr rules')))"

definition listCredentials :: "Store \<Rightarrow> (string \<times> string \<times> string) list op" where
  "listCredentials st =
     bindS (load st) (\<lambda>rules.
       pureS (Inr (map (\<lambda>r. (cr_name r, cr_hostPattern r, cr_header r)) (crs_credentials rules))))"

definition readKey :: "string op" where
  "readKey = readKeyFile keyName"

section \<open>Migration and secrets\<close>

record Migration =
  mg_file :: string
  mg_name :: string
  mg_hostPattern :: string
  mg_header :: string
  mg_valuePrefix :: "string option"
  mg_credentialMethod :: "CredentialMethod option"

definition migrations :: "Migration list" where
  "migrations =
     [\<lparr>mg_file = ''oauth-token'', mg_name = ''anthropic-oauth'', mg_hostPattern = ''api.anthropic.com'',
       mg_header = ''Authorization'', mg_valuePrefix = Some ''Bearer '', mg_credentialMethod = Some Oauth\<rparr>,
      \<lparr>mg_file = ''api-key'', mg_name = ''anthropic-api-key'', mg_hostPattern = ''api.anthropic.com'',
       mg_header = ''x-api-key'', mg_valuePrefix = None, mg_credentialMethod = Some Api_key\<rparr>]"

text \<open>The text of a plaintext file, trimmed, when there is one.\<close>

definition readTrimmed :: "string \<Rightarrow> disk \<Rightarrow> string option" where
  "readTrimmed name d = (case fst (readFile name d) of Inl e \<Rightarrow> None | Inr s \<Rightarrow> if trim s = [] then None else Some (trim s))"

definition migrateOne :: "disk \<Rightarrow> Migration \<Rightarrow> CredentialRules \<times> bool \<Rightarrow> CredentialRules \<times> bool" where
  "migrateOne d m acc =
     (let (rules, changed) = acc in
      if list_ex (\<lambda>r. cr_name r = mg_name m) (crs_credentials rules) then (rules, changed)
      else case readTrimmed (mg_file m) d of
             None \<Rightarrow> (rules, changed)
           | Some val \<Rightarrow>
               (pushCredential
                  \<lparr>cr_name = mg_name m, cr_hostPattern = mg_hostPattern m, cr_header = mg_header m,
                   cr_value = (case mg_valuePrefix m of Some p \<Rightarrow> p @ val | None \<Rightarrow> val), cr_values = None,
                   cr_rateLimit = None, cr_rules = None, cr_expiresAt = None,
                   cr_credentialMethod = mg_credentialMethod m\<rparr> rules, True))"

definition migrateAuthTokens :: "Store \<Rightarrow> unit op" where
  "migrateAuthTokens st =
     bindS (load st) (\<lambda>rules d.
       let (rules', changed) = fold (migrateOne d) migrations (rules, False)
       in if changed then save st rules' d else (Inr (), d))"

definition getSecret :: "Store \<Rightarrow> string \<Rightarrow> string option op" where
  "getSecret st name = bindS (load st) (\<lambda>rules. pureS (Inr (js_get (crs_secrets rules) name)))"

definition withSecret :: "string \<Rightarrow> string \<Rightarrow> CredentialRules \<Rightarrow> CredentialRules" where
  "withSecret name val rules = rules\<lparr>crs_secrets := js_set name val (crs_secrets rules)\<rparr>"

definition setSecret :: "Store \<Rightarrow> string \<Rightarrow> string \<Rightarrow> unit op" where
  "setSecret st name val = bindS (load st) (\<lambda>rules. save st (withSecret name val rules))"

text \<open>\<open>fresh\<close> is the password the operation would draw.\<close>

definition dbPassword :: "Store \<Rightarrow> string \<Rightarrow> string op" where
  "dbPassword st fresh =
     bindS (load st) (\<lambda>rules d.
       if truthy (js_get (crs_secrets rules) ''db-password'') then
         (Inr (the (js_get (crs_secrets rules) ''db-password'')), d)
       else
         let password = (case readTrimmed ''db-password'' d of Some p \<Rightarrow> p | None \<Rightarrow> fresh)
         in bindS (save st (withSecret ''db-password'' password rules)) (\<lambda>_. pureS (Inr password)) d)"

section \<open>The JSON form is read back\<close>

lemma those_map_map: "(\<And>x. x \<in> set xs \<Longrightarrow> g (f x) = Some x) \<Longrightarrow> those_map g (map f xs) = Some xs"
  by (induction xs) auto

lemma map_of_opt_field:
  "map_of (opt_field k f v @ rest) j =
     (if j = k then (case v of None \<Rightarrow> map_of rest j | Some x \<Rightarrow> Some (f x)) else map_of rest j)"
  "map_of (opt_field k f v) j = (if j = k then map_option f v else None)"
  by (auto simp: opt_field_def split: option.split)

lemma opt_field_wf:
  "list_all (\<lambda>(k, v). json_wf v) (opt_field k f v) \<longleftrightarrow> (\<forall>x. v = Some x \<longrightarrow> json_wf (f x))"
  "map fst (opt_field k f v) = (if v = None then [] else [k])"
  by (auto simp: opt_field_def split: option.split)

lemma json_strings: "json_list json_string (strings_json ss) = Some ss" "json_wf (strings_json ss)"
  by (simp_all add: strings_json_def those_map_map list_all_iff)

lemma json_limit: "json_limit (limit_json l) = Some l" "json_wf (limit_json l)"
  by (simp_all add: json_limit_def limit_json_def required_def)

lemma json_method: "json_method (method_json m) = Some m" "json_wf (method_json m)"
  by (cases m; simp add: json_method_def method_json_def)+

lemma json_request_rules: "json_request_rules (request_rules_json r) = Some r" "json_wf (request_rules_json r)"
  by (cases r, simp add: json_request_rules_def request_rules_json_def optional_def map_of_opt_field json_strings
      del: map_of_append split: option.split)
    (simp add: request_rules_json_def opt_field_wf json_strings)

lemma json_rule: "json_rule (rule_json c) = Some c"
proof -
  have "required ''name'' json_string (rule_json c) = Some (cr_name c)"
    "required ''hostPattern'' json_string (rule_json c) = Some (cr_hostPattern c)"
    "required ''header'' json_string (rule_json c) = Some (cr_header c)"
    "required ''value'' json_string (rule_json c) = Some (cr_value c)"
    "optional ''values'' (json_list json_string) (rule_json c) = Some (cr_values c)"
    "optional ''rateLimit'' json_limit (rule_json c) = Some (cr_rateLimit c)"
    "optional ''rules'' json_request_rules (rule_json c) = Some (cr_rules c)"
    "optional ''expiresAt'' json_int (rule_json c) = Some (cr_expiresAt c)"
    "optional ''credentialMethod'' json_method (rule_json c) = Some (cr_credentialMethod c)"
    by (simp_all add: rule_json_def required_def optional_def map_of_opt_field json_strings json_limit
        json_request_rules json_method del: map_of_append split: option.split)
  then show ?thesis by (simp add: json_rule_def)
qed

lemma json_wf_rule: "json_wf (rule_json c)"
  by (simp add: rule_json_def opt_field_wf json_strings json_limit json_method json_request_rules)

lemma json_rules: "json_rules (rules_json r) = Some r"
  by (cases r)
    (simp add: json_rules_def rules_json_def default_to_def those_map_map json_rule json_strings case_prod_beta)

lemma json_wf_rules: "js_wf (crs_secrets r) \<Longrightarrow> json_wf (rules_json r)"
  by (simp add: rules_json_def json_wf_rule json_strings list_all_iff case_prod_beta comp_def)

definition rules_ok :: "CredentialRules \<Rightarrow> bool" where
  "rules_ok r \<longleftrightarrow> credentialRulesSchema r \<and> js_wf (crs_secrets r)"

lemma read_written:
  assumes "js_wf (crs_secrets r)"
  shows "read_rules (stringify2 (rules_json r)) = (if credentialRulesSchema r then Inr r else Inl InvalidSchema)"
  using assms
  by (simp add: read_rules_def stringify2_def parse_print_json json_wf_rules json_rules parseCredentialRules_def)

section \<open>Decryption\<close>

lemma decrypt_encrypt:
  assumes "aead seal unseal" "length iv = IV_LENGTH" "length key = KEY_LENGTH"
  shows "\<exists>c. encrypt seal iv p key = Inr c \<and> decrypt unseal c key = Inr p"
proof -
  obtain t c where s: "seal key iv p = (t, c)" by (cases "seal key iv p")
  then have "unseal key iv t c = Some p" using assms(1) by (simp add: aead_def)
  moreover have "length t = 16" using assms(1) s unfolding aead_def by (metis fst_conv)
  ultimately show ?thesis
    using assms(2,3) s by (simp add: encrypt_def decrypt_def IV_LENGTH_def AUTH_TAG_LENGTH_def)
qed

text \<open>
  C8. Decryption accepts exactly what encryption under the same key produced: it returns \<open>p\<close> for a
  file if and only if the file is the encryption of \<open>p\<close> under that key and the 16 bytes it starts
  with. A file that was cut short, changed in any byte or written under another key is an error.
\<close>

theorem decrypt_accepts_exactly_encryptions:
  assumes "aead seal unseal"
  shows "decrypt unseal dat key = Inr p \<longleftrightarrow>
    length dat \<ge> IV_LENGTH + AUTH_TAG_LENGTH \<and> encrypt seal (take IV_LENGTH dat) p key = Inr dat"
proof (cases "length dat < IV_LENGTH + AUTH_TAG_LENGTH \<or> length key \<noteq> KEY_LENGTH")
  case True
  then show ?thesis by (auto simp: decrypt_def encrypt_def Let_def)
next
  case False
  let ?iv = "take 16 dat" and ?t = "take 16 (drop 16 dat)" and ?c = "drop 32 dat"
  have split: "dat = ?iv @ ?t @ ?c"
    by (simp flip: append_assoc take_add)
  have "decrypt unseal dat key = Inr p \<longleftrightarrow> unseal key ?iv ?t ?c = Some p"
    using False by (simp add: decrypt_def Let_def IV_LENGTH_def AUTH_TAG_LENGTH_def split: option.splits)
  also have "\<dots> \<longleftrightarrow> seal key ?iv p = (?t, ?c)" using assms by (simp add: aead_def)
  also have "\<dots> \<longleftrightarrow> (\<exists>t c. seal key ?iv p = (t, c) \<and> ?iv @ t @ c = dat)"
  proof
    assume "seal key ?iv p = (?t, ?c)"
    then show "\<exists>t c. seal key ?iv p = (t, c) \<and> ?iv @ t @ c = dat" using split by metis
  next
    assume "\<exists>t c. seal key ?iv p = (t, c) \<and> ?iv @ t @ c = dat"
    then obtain t c where tc: "seal key ?iv p = (t, c)" "?iv @ t @ c = dat" by blast
    then have "length t = 16" using assms unfolding aead_def by (metis fst_conv)
    moreover have "t @ c = ?t @ ?c" using tc(2) split by (metis same_append_eq)
    moreover have "length ?t = 16" using False by (auto simp: IV_LENGTH_def AUTH_TAG_LENGTH_def min_def)
    ultimately show "seal key ?iv p = (?t, ?c)" using tc(1) by (simp add: append_eq_append_conv)
  qed
  also have "\<dots> \<longleftrightarrow> encrypt seal (take IV_LENGTH dat) p key = Inr dat"
    using False by (auto simp: encrypt_def IV_LENGTH_def split: prod.splits)
  finally show ?thesis using False by simp
qed

text \<open>A cipher with the law: the text itself, tagged with sixteen characters.\<close>

definition toy_seal :: seal_fun where
  "toy_seal k iv p = (replicate 16 (CHR ''t''), p)"

definition toy_unseal :: unseal_fun where
  "toy_unseal k iv t c = (if t = replicate 16 (CHR ''t'') then Some c else None)"

lemma toy_aead: "aead toy_seal toy_unseal"
  by (auto simp: aead_def toy_seal_def toy_unseal_def)

theorem decrypt_accepts_exactly_encryptions_witness:
  "decrypt toy_unseal (replicate 16 (CHR ''i'') @ replicate 16 (CHR ''t'') @ ''hello'') (replicate 32 (CHR ''k'')) =
     Inr ''hello''"
  by (simp add: decrypt_accepts_exactly_encryptions [OF toy_aead] encrypt_def toy_seal_def IV_LENGTH_def
      AUTH_TAG_LENGTH_def KEY_LENGTH_def)

section \<open>The rules a directory holds\<close>

text \<open>The key the store uses, when it can be read.\<close>

definition the_key :: "Store \<Rightarrow> disk \<Rightarrow> string option" where
  "the_key st d =
     (case st_keyOverride st of
        Some k \<Rightarrow> Some k
      | None \<Rightarrow> (case fst (readKeyFile keyName d) of Inr k \<Rightarrow> Some k | Inl e \<Rightarrow> None))"

text \<open>
  The store is set up: the cipher has its law, random bytes have their lengths, there is a key, and
  the credential file is missing or accessible to its owner.
\<close>

definition set_up :: "Store \<Rightarrow> disk \<Rightarrow> bool" where
  "set_up st d \<longleftrightarrow>
     aead (st_seal st) (st_unseal st) \<and> length (st_iv st) = IV_LENGTH \<and>
     (\<exists>k. the_key st d = Some k \<and> length k = KEY_LENGTH) \<and>
     (d encName = Missing \<or> (\<exists>c. d encName = File True True c))"

definition rules_on :: "Store \<Rightarrow> disk \<Rightarrow> store_error + CredentialRules" where
  "rules_on st d = fst (load st d)"

lemma names_distinct [simp]: "encName \<noteq> keyName" "keyName \<noteq> encName" "encName \<noteq> ''db-password''"
  "encName \<noteq> ''oauth-token''" "encName \<noteq> ''api-key''"
  by (simp_all add: encName_def keyName_def)

lemma readKeyFile_disk: "snd (readKeyFile p d) = d"
  by (auto simp: readKeyFile_def bindS_def readFile_def pureS_def split: disk_file.splits)

lemma ensureKey_the_key: "the_key st d = Some k \<Longrightarrow> ensureKey st d = (Inr k, d)"
  using readKeyFile_disk [of keyName d]
  by (auto simp: the_key_def ensureKey_def split: option.splits sum.splits prod.splits)

lemma the_key_upd: "name \<noteq> keyName \<Longrightarrow> the_key st (d(name := f)) = the_key st d"
  by (simp add: the_key_def readKeyFile_def readFile_def bindS_def pureS_def
      split: option.split disk_file.split)

lemma loadCredentials_disk: "loadCredentials u p k d = (fst (loadCredentials u p k d), d)"
  by (auto simp: loadCredentials_def readFile_def split: disk_file.splits)

lemma load_disk: "the_key st d = Some k \<Longrightarrow> load st d = (rules_on st d, d)"
  using loadCredentials_disk [of "st_unseal st" encName k d]
  by (simp add: rules_on_def load_def bindS_def ensureKey_the_key)

lemma rules_on_random [simp]: "rules_on (st\<lparr>st_iv := iv\<rparr>) d = rules_on st d"
  by (cases "st_keyOverride st")
    (auto simp: rules_on_def load_def bindS_def ensureKey_def writeKeyFile_def pureS_def writeFile_def
      split: sum.splits prod.splits disk_file.splits)

text \<open>Saving: the directory then holds the rules when they satisfy the schema, and none otherwise.\<close>

lemma save_rules:
  assumes "set_up st d" "js_wf (crs_secrets rules)"
  shows "\<exists>d'. save st rules d = (Inr (), d') \<and> set_up st d' \<and> (\<forall>n. n \<noteq> encName \<longrightarrow> d' n = d n) \<and>
    rules_on st d' = (if credentialRulesSchema rules then Inr rules else Inl InvalidSchema)"
proof -
  obtain k where k: "the_key st d = Some k" "length k = KEY_LENGTH" using assms(1) by (auto simp: set_up_def)
  obtain c where c: "encrypt (st_seal st) (st_iv st) (stringify2 (rules_json rules)) k = Inr c"
    "decrypt (st_unseal st) c k = Inr (stringify2 (rules_json rules))"
    using decrypt_encrypt assms(1) k(2) unfolding set_up_def by blast
  let ?d = "d(encName := File True True c)"
  have "save st rules d = (Inr (), ?d)"
    using assms(1) c(1)
    by (auto simp: save_def bindS_def ensureKey_the_key [OF k(1)] saveCredentials_def pureS_def writeFile_def set_up_def)
  moreover have k': "the_key st ?d = Some k" using k(1) by (simp add: the_key_upd)
  moreover have "rules_on st ?d = read_rules (stringify2 (rules_json rules))"
    using c(2) by (simp add: rules_on_def load_def bindS_def ensureKey_the_key [OF k'] loadCredentials_def readFile_def)
  moreover have "set_up st ?d" using assms(1) k k' by (auto simp: set_up_def)
  ultimately show ?thesis using read_written [OF assms(2)] by auto
qed

lemma load_set_up: "set_up st d \<Longrightarrow> load st d = (rules_on st d, d)"
  by (auto simp: set_up_def load_disk)

lemma json_record_keys: "those_map (\<lambda>(k, v). map_option (Pair k) (f v)) kvs = Some ss \<Longrightarrow> map fst ss = map fst kvs"
  by (induction kvs arbitrary: ss) (auto split: option.splits)

lemma json_rules_wf: "json_wf j \<Longrightarrow> json_rules j = Some r \<Longrightarrow> js_wf (crs_secrets r)"
proof -
  assume wf: "json_wf j" and r: "json_rules j = Some r"
  then obtain kvs where j: "j = JObj kvs" by (cases j) (auto simp: json_rules_def)
  have "default_to [] ''secrets'' (json_record json_string) j = Some (crs_secrets r)"
    using r by (auto simp: json_rules_def split: if_splits option.splits)
  then show "js_wf (crs_secrets r)"
  proof (cases "map_of kvs ''secrets''")
    case (Some v)
    have "json_wf v" using wf j map_of_SomeD [OF Some] by (auto simp: list_all_iff)
    then show ?thesis
      using \<open>default_to [] ''secrets'' _ j = _\<close> Some j
      by (cases v) (auto simp: default_to_def dest: json_record_keys)
  qed (auto simp: default_to_def j)
qed

lemma read_rulesD: "read_rules text = Inr r \<Longrightarrow> rules_ok r"
proof -
  assume "read_rules text = Inr r"
  then obtain j where "parse_json text = Some j" "json_rules j = Some r" "credentialRulesSchema r"
    by (auto simp: read_rules_def parseCredentialRules_def split: option.splits if_splits)
  then show "rules_ok r" by (auto simp: rules_ok_def intro: json_rules_wf parse_json_wf)
qed

lemma rules_on_ok: "set_up st d \<Longrightarrow> rules_on st d = Inr r \<Longrightarrow> rules_ok r"
proof -
  assume "set_up st d" and r: "rules_on st d = Inr r"
  then obtain k where "the_key st d = Some k" by (auto simp: set_up_def)
  then have "r = emptyRules \<or> (\<exists>text. read_rules text = Inr r)"
    using r by (auto simp: rules_on_def load_def bindS_def ensureKey_the_key loadCredentials_def readFile_def
        split: disk_file.splits if_splits sum.splits store_error.splits)
  then show "rules_ok r"
    using read_rulesD by (auto simp: rules_ok_def emptyRules_def credentialRulesSchema_def)
qed

lemma rules_ok_secret: "rules_ok r \<Longrightarrow> rules_ok (withSecret n v r)"
  by (auto simp: rules_ok_def withSecret_def credentialRulesSchema_def intro!: js_wf_set)

text \<open>What a saving operation leaves on the disk.\<close>

lemma save_ok:
  assumes "set_up st d" "rules_ok rules"
  shows "\<exists>d'. save st rules d = (Inr (), d') \<and> set_up st d' \<and> (\<forall>n. n \<noteq> encName \<longrightarrow> d' n = d n) \<and>
    rules_on st d' = Inr rules"
  using save_rules [of st d rules] assms by (simp add: rules_ok_def)

section \<open>Adding and removing credentials\<close>

text \<open>
  Adding a credential to a readable store succeeds and stores all other credentials in their
  order with the new one at the end, replacing one of the same name, and every secret, so that a
  later load returns them -- exactly when the new credential satisfies the schema. The credential is
  not checked before it is saved: with one that does not satisfy it, the call also succeeds, but
  from then on no rule can be loaded any more.
\<close>

theorem add_credential_stored:
  assumes "set_up st d" "rules_on st d = Inr rules"
  shows "\<exists>rules' d'. addCredential st name hp h v lim d = (Inr rules', d') \<and> set_up st d' \<and>
    rules' = rules\<lparr>crs_credentials := filter (\<lambda>r. cr_name r \<noteq> name) (crs_credentials rules) @
                     [newCredential name hp h v lim]\<rparr> \<and>
    rules_on st d' =
      (if credentialRuleSchema (newCredential name hp h v lim) then Inr rules' else Inl InvalidSchema)"
proof -
  let ?c = "newCredential name hp h v lim"
  let ?r = "pushCredential ?c (withoutCredential name rules)"
  have ok: "rules_ok rules" using assms by (rule rules_on_ok)
  then have "js_wf (crs_secrets ?r)" by (simp add: rules_ok_def pushCredential_def withoutCredential_def)
  from save_rules [OF assms(1) this] obtain d' where d':
    "save st ?r d = (Inr (), d')" "set_up st d'"
    "rules_on st d' = (if credentialRulesSchema ?r then Inr ?r else Inl InvalidSchema)" by blast
  have "addCredential st name hp h v lim d = (Inr ?r, d')"
    using d'(1) assms by (simp add: addCredential_def bindS_def load_set_up Let_def pureS_def)
  moreover have "credentialRulesSchema ?r \<longleftrightarrow> credentialRuleSchema ?c"
    using ok by (auto simp: rules_ok_def credentialRulesSchema_def pushCredential_def withoutCredential_def)
  ultimately show ?thesis
    using d' by (simp add: pushCredential_def withoutCredential_def)
qed

text \<open>
  Removing a credential fails without touching the disk when no credential has that name, and
  otherwise leaves exactly the others, in their order.
\<close>

theorem remove_credential_stored:
  assumes "set_up st d" "rules_on st d = Inr rules"
  shows "if \<exists>r \<in> set (crs_credentials rules). cr_name r = name
    then \<exists>d'. removeCredential st name d = (Inr (withoutCredential name rules), d') \<and>
           rules_on st d' = Inr (withoutCredential name rules)
    else removeCredential st name d = (Inl (CredentialNotFound name), d)"
proof -
  let ?r = "withoutCredential name rules"
  have "length (filter P xs) = length xs \<longleftrightarrow> (\<forall>x \<in> set xs. P x)" for P and xs :: "CredentialRule list"
    by (metis filter_id_conv length_filter_less less_irrefl)
  then have len: "length (crs_credentials ?r) = length (crs_credentials rules) \<longleftrightarrow>
      \<not> (\<exists>r \<in> set (crs_credentials rules). cr_name r = name)"
    by (simp add: withoutCredential_def)
  have "rules_ok ?r" using rules_on_ok [OF assms]
    by (auto simp: rules_ok_def withoutCredential_def credentialRulesSchema_def)
  from save_ok [OF assms(1) this] obtain d' where "save st ?r d = (Inr (), d')" "rules_on st d' = Inr ?r" by blast
  then show ?thesis
    using len assms by (auto simp: removeCredential_def bindS_def load_set_up Let_def pureS_def)
qed

section \<open>The database password\<close>

text \<open>
  Once a database password was handed out, it stays: every later call, with whatever random
  bytes, returns the same one, and so does reading the secret.
\<close>

theorem db_password_stable:
  assumes "set_up st d" "dbPassword st fresh d = (Inr p, d')" "p \<noteq> []" "length iv = IV_LENGTH"
  shows "dbPassword (st\<lparr>st_iv := iv\<rparr>) fresh' d' = (Inr p, d') \<and>
    getSecret (st\<lparr>st_iv := iv\<rparr>) ''db-password'' d' = (Inr (Some p), d')"
proof -
  obtain rules where r: "rules_on st d = Inr rules"
    using assms(1,2) by (auto simp: dbPassword_def bindS_def load_set_up split: sum.splits)
  have "set_up st d' \<and> (\<exists>rules'. rules_on st d' = Inr rules' \<and> js_get (crs_secrets rules') ''db-password'' = Some p)"
  proof (cases "truthy (js_get (crs_secrets rules) ''db-password'')")
    case True
    then show ?thesis using assms(1,2) r by (auto simp: dbPassword_def bindS_def load_set_up truthy_def)
  next
    case False
    let ?p = "case readTrimmed ''db-password'' d of Some p \<Rightarrow> p | None \<Rightarrow> fresh"
    from save_ok [OF assms(1) rules_ok_secret [OF rules_on_ok [OF assms(1) r]]] obtain d1 where
      "save st (withSecret ''db-password'' ?p rules) d = (Inr (), d1)" "set_up st d1"
      "rules_on st d1 = Inr (withSecret ''db-password'' ?p rules)" by blast
    then show ?thesis
      using assms(1,2) r False
      by (auto simp: dbPassword_def bindS_def load_set_up Let_def pureS_def withSecret_def js_get_set)
  qed
  then obtain rules' where "set_up st d'" "rules_on st d' = Inr rules'"
    "js_get (crs_secrets rules') ''db-password'' = Some p" by blast
  moreover from this have "set_up (st\<lparr>st_iv := iv\<rparr>) d'" using assms(4) by (simp add: set_up_def the_key_def)
  ultimately show ?thesis
    using assms(3) by (simp add: dbPassword_def getSecret_def bindS_def load_set_up pureS_def)
qed

section \<open>Migration\<close>

definition migrated :: "disk \<Rightarrow> CredentialRules \<Rightarrow> Migration \<Rightarrow> bool" where
  "migrated d rules m \<longleftrightarrow>
     (\<exists>r \<in> set (crs_credentials rules). cr_name r = mg_name m) \<or> readTrimmed (mg_file m) d = None"

definition extends :: "CredentialRules \<Rightarrow> CredentialRules \<Rightarrow> bool" where
  "extends rules rules' \<longleftrightarrow> (\<exists>new. rules' = rules\<lparr>crs_credentials := crs_credentials rules @ new\<rparr>)"

definition migration_ok :: "Migration \<Rightarrow> bool" where
  "migration_ok m \<longleftrightarrow> 1 \<le> length (mg_name m) \<and> length (mg_name m) \<le> 128 \<and> hostPattern_regex (mg_hostPattern m) \<and>
     mg_hostPattern m \<noteq> [] \<and> 1 \<le> length (mg_header m) \<and> length (mg_header m) \<le> 256"

lemma migrations_ok: "m \<in> set migrations \<Longrightarrow> migration_ok m \<and> mg_file m \<noteq> encName"
proof -
  have "hostPattern_regex ''api.anthropic.com''"
    by (simp add: hostPattern_regex_def host_label_def is_alnum_def startsWith_def)
  then show "m \<in> set migrations \<Longrightarrow> migration_ok m \<and> mg_file m \<noteq> encName"
    by (auto simp: migrations_def migration_ok_def encName_def)
qed

lemma extends_refl: "extends r r"
  unfolding extends_def by (rule exI [of _ "[]"]) simp

lemma extends_trans: "extends a b \<Longrightarrow> extends b c \<Longrightarrow> extends a c"
  by (auto simp: extends_def)

lemma migrated_extends: "migrated d r m \<Longrightarrow> extends r r' \<Longrightarrow> migrated d r' m"
  by (auto simp: migrated_def extends_def)

lemma readTrimmed_nonempty: "readTrimmed f d = Some v \<Longrightarrow> v \<noteq> []"
  by (auto simp: readTrimmed_def split: sum.splits if_splits)

lemma readTrimmed_cong: "d' f = d f \<Longrightarrow> readTrimmed f d' = readTrimmed f d"
  by (simp add: readTrimmed_def readFile_def split: disk_file.split)

lemma migrateOne_step:
  assumes "migrateOne d m (rules, ch) = (rules', ch')" "migration_ok m"
  shows "extends rules rules' \<and> migrated d rules' m \<and> (rules' = rules \<and> ch' = ch \<or> ch') \<and>
    (rules_ok rules \<longrightarrow> rules_ok rules') \<and> (migrated d rules m \<longrightarrow> rules' = rules \<and> ch' = ch)"
proof (cases "migrated d rules m")
  case True
  then have "rules' = rules \<and> ch' = ch"
    using assms(1) by (auto simp: migrateOne_def migrated_def list_ex_iff split: if_splits option.splits)
  then show ?thesis using True extends_refl by auto
next
  case False
  then obtain v where v: "readTrimmed (mg_file m) d = Some v" by (auto simp: migrated_def)
  moreover have "(case mg_valuePrefix m of None \<Rightarrow> v | Some p \<Rightarrow> p @ v) \<noteq> []"
    using readTrimmed_nonempty [OF v] by (simp split: option.split)
  ultimately show ?thesis
    using assms False
    by (auto simp: migrateOne_def migrated_def list_ex_iff pushCredential_def extends_def rules_ok_def
        credentialRulesSchema_def credentialRuleSchema_def migration_ok_def Suc_le_eq split: option.split)
qed

lemma migrate_fold:
  assumes "fold (migrateOne d) ms (rules, ch) = (rules', ch')" "\<forall>m \<in> set ms. migration_ok m"
  shows "extends rules rules' \<and> (\<forall>m \<in> set ms. migrated d rules' m) \<and> (rules' = rules \<and> ch' = ch \<or> ch') \<and>
    (rules_ok rules \<longrightarrow> rules_ok rules') \<and> ((\<forall>m \<in> set ms. migrated d rules m) \<longrightarrow> rules' = rules \<and> ch' = ch)"
  using assms
proof (induction ms arbitrary: rules ch)
  case Nil
  then show ?case by (simp add: extends_refl)
next
  case (Cons m ms)
  obtain r c where rc: "migrateOne d m (rules, ch) = (r, c)" by (cases "migrateOne d m (rules, ch)")
  have s: "extends rules r \<and> migrated d r m \<and> (r = rules \<and> c = ch \<or> c) \<and> (rules_ok rules \<longrightarrow> rules_ok r) \<and>
      (migrated d rules m \<longrightarrow> r = rules \<and> c = ch)"
    using migrateOne_step [OF rc] Cons.prems(2) by simp
  have f: "fold (migrateOne d) ms (r, c) = (rules', ch')" using Cons.prems(1) rc by simp
  show ?case using s Cons.IH [OF f] Cons.prems(2) by (auto intro: extends_trans migrated_extends)
qed

text \<open>
  Migrating the plaintext token files adds rules and touches none: the old rules stay in front
  unchanged, afterwards there is a rule for every token file that has content, and migrating again
  changes nothing. Every other file is left alone.
\<close>

theorem migration_idempotent:
  assumes "set_up st d" "rules_on st d = Inr rules" "length iv = IV_LENGTH"
  shows "\<exists>rules' d'. migrateAuthTokens st d = (Inr (), d') \<and> rules_on st d' = Inr rules' \<and>
    extends rules rules' \<and> (\<forall>m \<in> set migrations. migrated d rules' m) \<and>
    (\<forall>n. n \<noteq> encName \<longrightarrow> d' n = d n) \<and>
    migrateAuthTokens (st\<lparr>st_iv := iv\<rparr>) d' = (Inr (), d')"
proof -
  obtain r ch where f: "fold (migrateOne d) migrations (rules, False) = (r, ch)"
    by (cases "fold (migrateOne d) migrations (rules, False)")
  have s: "extends rules r" "\<forall>m \<in> set migrations. migrated d r m" "r = rules \<or> ch" "rules_ok r"
    using migrate_fold [OF f] migrations_ok rules_on_ok [OF assms(1,2)] by auto
  obtain d' where d': "migrateAuthTokens st d = (Inr (), d')" "set_up st d'" "\<forall>n. n \<noteq> encName \<longrightarrow> d' n = d n"
    "rules_on st d' = Inr r"
  proof (cases ch)
    case True
    then show thesis
      using that save_ok [OF assms(1) s(4)] assms f
      by (auto simp: migrateAuthTokens_def bindS_def load_set_up)
  next
    case False
    then show thesis using that [of d] s(3) assms f by (auto simp: migrateAuthTokens_def bindS_def load_set_up)
  qed
  have m': "migrated d' r m" if "m \<in> set migrations" for m
    using s(2) that d'(3) migrations_ok [OF that] readTrimmed_cong [of d' "mg_file m" d] by (simp add: migrated_def)
  obtain r' ch' where f': "fold (migrateOne d') migrations (r, False) = (r', ch')"
    by (cases "fold (migrateOne d') migrations (r, False)")
  have "\<not> ch'" using migrate_fold [OF f'] m' migrations_ok by auto
  moreover have "set_up (st\<lparr>st_iv := iv\<rparr>) d'" using d'(2) assms(3) by (simp add: set_up_def the_key_def)
  ultimately have "migrateAuthTokens (st\<lparr>st_iv := iv\<rparr>) d' = (Inr (), d')"
    using d'(4) f' by (simp add: migrateAuthTokens_def bindS_def load_set_up)
  then show ?thesis using d' s by blast
qed

section \<open>A concrete store\<close>

definition toy_store :: Store where
  "toy_store = \<lparr>st_seal = toy_seal, st_unseal = toy_unseal, st_keyOverride = Some (replicate 32 (CHR ''k'')),
     st_newKey = replicate 32 (CHR ''n''), st_iv = replicate 16 (CHR ''i'')\<rparr>"

definition toy_disk :: disk where
  "toy_disk = (\<lambda>n. Missing)(''api-key'' := File True True ''sk-1'')"

lemma toy_set_up: "set_up toy_store toy_disk" "rules_on toy_store toy_disk = Inr emptyRules"
  by (simp_all add: set_up_def toy_store_def toy_aead IV_LENGTH_def KEY_LENGTH_def the_key_def toy_disk_def encName_def
      rules_on_def load_def bindS_def ensureKey_def loadCredentials_def readFile_def)

theorem add_credential_stored_witness:
  "\<exists>rules' d'. addCredential toy_store ''n'' ''*.example.com'' ''x-key'' ''v'' None toy_disk = (Inr rules', d') \<and>
    rules_on toy_store d' = Inr rules' \<and> crs_credentials rules' = [newCredential ''n'' ''*.example.com'' ''x-key'' ''v'' None]"
proof -
  have "credentialRuleSchema (newCredential ''n'' ''*.example.com'' ''x-key'' ''v'' None)"
    by (simp add: credentialRuleSchema_def newCredential_def hostPattern_regex_def host_label_def is_alnum_def startsWith_def)
  then show ?thesis
    using add_credential_stored [OF toy_set_up, of "''n''" "''*.example.com''" "''x-key''" "''v''" None]
    by (auto simp: emptyRules_def)
qed

theorem remove_credential_stored_witness:
  "removeCredential toy_store ''n'' toy_disk = (Inl (CredentialNotFound ''n''), toy_disk)"
  using remove_credential_stored [OF toy_set_up, of "''n''"] by (simp add: emptyRules_def)

theorem db_password_stable_witness:
  "\<exists>d'. dbPassword toy_store ''secret'' toy_disk = (Inr ''secret'', d') \<and>
    dbPassword (toy_store\<lparr>st_iv := replicate 16 (CHR ''j'')\<rparr>) ''other'' d' = (Inr ''secret'', d')"
proof -
  have "rules_ok emptyRules" by (simp add: rules_ok_def emptyRules_def credentialRulesSchema_def)
  then obtain d' where "save toy_store (withSecret ''db-password'' ''secret'' emptyRules) toy_disk = (Inr (), d')"
    using save_ok [OF toy_set_up(1) rules_ok_secret] by blast
  then have "dbPassword toy_store ''secret'' toy_disk = (Inr ''secret'', d')"
    using toy_set_up
    by (simp add: dbPassword_def bindS_def load_set_up emptyRules_def readTrimmed_def readFile_def toy_disk_def Let_def
        pureS_def)
  then show ?thesis
    using db_password_stable [OF toy_set_up(1), of "''secret''" "''secret''" d' "replicate 16 (CHR ''j'')" "''other''"]
    by (auto simp: IV_LENGTH_def)
qed

theorem migration_idempotent_witness:
  "\<exists>rules' d'. migrateAuthTokens toy_store toy_disk = (Inr (), d') \<and> rules_on toy_store d' = Inr rules' \<and>
    (\<exists>r \<in> set (crs_credentials rules'). cr_name r = ''anthropic-api-key'') \<and>
    migrateAuthTokens toy_store d' = (Inr (), d')"
proof -
  have "readTrimmed ''api-key'' toy_disk \<noteq> None"
    by (simp add: readTrimmed_def readFile_def toy_disk_def trim_def is_space_def)
  moreover have "toy_store\<lparr>st_iv := replicate 16 (CHR ''i'')\<rparr> = toy_store" by (simp add: toy_store_def)
  ultimately show ?thesis
    using migration_idempotent [OF toy_set_up, of "replicate 16 (CHR ''i'')"]
    by (auto simp: IV_LENGTH_def migrations_def migrated_def)
qed

end
