(* ===== verification/Proxy_Main.thy ===== *)
theory Proxy_Main
  imports Proxy_Server Credential_Store
begin

text \<open>
  \<^verbatim>\<open>src/src/proxy/main.ts\<close>: the entry point of the proxy container, with its reload on SIGHUP and its
  expiry checks, and \<^verbatim>\<open>src/src/proxy/placeholders.ts\<close>, what an agent gets instead of a credential. The
  cipher is a parameter as in the store. Shown: what a reload puts in place; that a reload that cannot
  read the file discards the working credentials; that expiry warnings stay those of the first start.
\<close>

section \<open>Configuration\<close>

text \<open>\<^verbatim>\<open>Buffer.from(s, 'hex')\<close>: pairs of hexadecimal digits, up to the first that is none.\<close>

fun hex_bytes :: "string \<Rightarrow> string" where
  "hex_bytes (a # b # s) =
     (case (hex_value a, hex_value b) of
        (Some x, Some y) \<Rightarrow> char_of (16 * x + y) # hex_bytes s
      | _ \<Rightarrow> [])"
| "hex_bytes _ = []"

definition EXPIRY_WARN_THRESHOLD :: int where
  "EXPIRY_WARN_THRESHOLD = 60 * 60 * 1000"

definition secretsFile :: string where
  "secretsFile = ''/secrets/credentials.enc''"

text \<open>Every failure ends in the empty rules.\<close>

definition loadCredentialRules :: "unseal_fun \<Rightarrow> string \<Rightarrow> disk \<Rightarrow> CredentialRules" where
  "loadCredentialRules unseal keyHex d =
     (if keyHex = [] then emptyRules
      else case fst (readFile secretsFile d) of
             Inl e \<Rightarrow> emptyRules
           | Inr encryptedData \<Rightarrow>
               (case decrypt unseal encryptedData (hex_bytes keyHex) of
                  Inl e \<Rightarrow> emptyRules
                | Inr text \<Rightarrow> (case read_rules text of Inl e \<Rightarrow> emptyRules | Inr rules \<Rightarrow> rules)))"

text \<open>\<^verbatim>\<open>Math.round(a / b)\<close>: halves are rounded up.\<close>

definition round_div :: "int \<Rightarrow> int \<Rightarrow> int" where
  "round_div a b = (2 * a + b) div (2 * b)"

datatype expiry_warning = Expired string int | Expires_soon string int

definition checkExpiration :: "time \<Rightarrow> CredentialRule \<Rightarrow> expiry_warning list" where
  "checkExpiration now cred =
     (case cr_expiresAt cred of
        None \<Rightarrow> []
      | Some e \<Rightarrow>
          if e = 0 then []
          else
            let timeLeft = e - now in
            if timeLeft \<le> 0 then [Expired (cr_name cred) (round_div (- timeLeft) 1000)]
            else if timeLeft \<le> EXPIRY_WARN_THRESHOLD then [Expires_soon (cr_name cred) (round_div timeLeft 60000)]
            else [])"

definition checkExpirations :: "time \<Rightarrow> CredentialRule list \<Rightarrow> expiry_warning list" where
  "checkExpirations now credentials = concat (map (checkExpiration now) credentials)"

definition activeMethod :: "string option \<Rightarrow> CredentialMethod option" where
  "activeMethod raw =
     (if raw = Some ''oauth'' then Some Oauth else if raw = Some ''api_key'' then Some Api_key else None)"

section \<open>The process\<close>

text \<open>
  The server, the rules the closure of the expiry timer holds, and the warnings printed.
\<close>

record 'ctx ProxyProcess =
  pp_server :: "'ctx Proxy"
  pp_timerRules :: "CredentialRules"
  pp_warnings :: "expiry_warning list"

definition proxy_main ::
    "unseal_fun \<Rightarrow> string \<Rightarrow> string option \<Rightarrow> bool \<Rightarrow> time \<Rightarrow> disk \<Rightarrow> 'ctx ProxyProcess" where
  "proxy_main unseal keyHex credentialMethodRaw hasCA now d =
     (let rules = loadCredentialRules unseal keyHex d;
          shared = \<lparr>sh_rateLimiter = buildRateLimiter (crs_credentials rules), sh_keyRotator = Some [],
                    sh_metrics = Some (newMetrics now 1000), sh_costLog = Some [], sh_audit = []\<rparr>
      in \<lparr>pp_server = newProxyServer (crs_credentials rules) shared (Some (crs_pinningBypass rules))
                        (activeMethod credentialMethodRaw) hasCA,
          pp_timerRules = rules,
          pp_warnings = checkExpirations now (crs_credentials rules)\<rparr>)"

definition expiryTimer :: "time \<Rightarrow> 'ctx ProxyProcess \<Rightarrow> 'ctx ProxyProcess" where
  "expiryTimer now pp =
     pp\<lparr>pp_warnings := pp_warnings pp @ checkExpirations now (crs_credentials (pp_timerRules pp))\<rparr>"

definition onSighup :: "unseal_fun \<Rightarrow> string \<Rightarrow> time \<Rightarrow> disk \<Rightarrow> 'ctx ProxyProcess \<Rightarrow> 'ctx ProxyProcess" where
  "onSighup unseal keyHex now d pp =
     (let newRules = loadCredentialRules unseal keyHex d;
          keyRotator = map_option resetRotator (sh_keyRotator (px_shared (pp_server pp)))
      in pp\<lparr>pp_server := reloadCredentials (crs_credentials newRules) (buildRateLimiter (crs_credentials newRules))
                           keyRotator None None (Some (crs_pinningBypass newRules)) (pp_server pp),
            pp_warnings := pp_warnings pp @ checkExpirations now (crs_credentials newRules)\<rparr>)"

section \<open>Placeholders\<close>

definition PLACEHOLDER_OAUTH_TOKEN :: string where
  "PLACEHOLDER_OAUTH_TOKEN = ''flowhelm-proxy-placeholder-oauth-token''"

definition PLACEHOLDER_API_KEY :: string where
  "PLACEHOLDER_API_KEY = ''sk-ant-REDACTED''"

text \<open>
  The environment variables of the orchestrator stand behind options that are not given.
\<close>

definition getPlaceholderEnv ::
    "CredentialMethod option \<Rightarrow> bool option \<Rightarrow> bool option \<Rightarrow> (string \<Rightarrow> string option) \<Rightarrow> (string, string) js_map" where
  "getPlaceholderEnv credentialMethod optOAuth optApiKey env =
     (let hasOAuth = (case optOAuth of Some b \<Rightarrow> b | None \<Rightarrow> truthy (env ''CLAUDE_CODE_OAUTH_TOKEN''));
          hasApiKey = (case optApiKey of Some b \<Rightarrow> b | None \<Rightarrow> truthy (env ''ANTHROPIC_API_KEY''));
          m = (case credentialMethod of
                 Some m \<Rightarrow> m
               | None \<Rightarrow> if hasOAuth \<and> \<not> hasApiKey then Oauth else if hasApiKey then Api_key else Api_key)
      in if m = Oauth then js_set ''CLAUDE_CODE_OAUTH_TOKEN'' PLACEHOLDER_OAUTH_TOKEN []
         else js_set ''ANTHROPIC_API_KEY'' PLACEHOLDER_API_KEY [])"

text \<open>
  An agent container gets exactly one placeholder, the one of the configured method when there is
  one, and never a real credential of the environment.
\<close>

lemma placeholder_env_single:
  "getPlaceholderEnv m o1 o2 env =
     (if m = Some Oauth \<or> m = None \<and>
         (case o1 of Some b \<Rightarrow> b | None \<Rightarrow> truthy (env ''CLAUDE_CODE_OAUTH_TOKEN'')) \<and>
         \<not> (case o2 of Some b \<Rightarrow> b | None \<Rightarrow> truthy (env ''ANTHROPIC_API_KEY''))
      then [(''CLAUDE_CODE_OAUTH_TOKEN'', PLACEHOLDER_OAUTH_TOKEN)]
      else [(''ANTHROPIC_API_KEY'', PLACEHOLDER_API_KEY)])"
  by (cases m; cases "the m") (auto simp: getPlaceholderEnv_def Let_def)

section \<open>Reload\<close>

text \<open>
  What a store on the host saved is what the proxy loads, when the proxy has the key of the store.
\<close>

lemma load_what_was_saved:
  assumes "aead seal unseal" "length iv = IV_LENGTH" "length key = KEY_LENGTH" "hex_bytes keyHex = key"
    and "js_wf (crs_secrets rules)" "credentialRulesSchema rules"
    and "encrypt seal iv (stringify2 (rules_json rules)) key = Inr c" "d secretsFile = File True w c"
  shows "loadCredentialRules unseal keyHex d = rules"
proof -
  have "keyHex \<noteq> []" using assms(3,4) by (auto simp: KEY_LENGTH_def)
  moreover have "decrypt unseal c key = Inr (stringify2 (rules_json rules))"
    using decrypt_encrypt [OF assms(1-3)] assms(7) by (metis sum.inject(2))
  ultimately show ?thesis
    using assms by (simp add: loadCredentialRules_def readFile_def read_written)
qed

text \<open>
  A reload puts exactly the rules of the file in place: afterwards every CONNECT is decided by
  the credentials of the file, the rate limits are those of the file with no request counted, keys
  are handed out from the first again, hosts are exempted as the file says, and metrics, logs,
  certificates and the billing method are what they were.
\<close>

theorem reload_puts_file_in_place:
  assumes "loadCredentialRules unseal keyHex d = rules"
  shows "let px = pp_server pp; px' = pp_server (onSighup unseal keyHex now d pp) in
    px_credentials px' = crs_credentials rules \<and> px_pinningBypass px' = crs_pinningBypass rules \<and>
    sh_rateLimiter (px_shared px') = buildRateLimiter (crs_credentials rules) \<and>
    sh_keyRotator (px_shared px') = map_option (\<lambda>_. []) (sh_keyRotator (px_shared px)) \<and>
    sh_metrics (px_shared px') = sh_metrics (px_shared px) \<and> sh_costLog (px_shared px') = sh_costLog (px_shared px) \<and>
    sh_audit (px_shared px') = sh_audit (px_shared px) \<and> px_mitm px' = px_mitm px \<and>
    px_activeCredentialMethod px' = px_activeCredentialMethod px \<and>
    connectCredentials h px' =
      filterByCredentialMethod (findAllCredentialsForHost h (crs_credentials rules)) (px_activeCredentialMethod px)"
  using assms
  by (cases "sh_keyRotator (px_shared (pp_server pp))")
    (simp_all add: onSighup_def reloadCredentials_def orKeep_def resetRotator_def connectCredentials_def Let_def)

theorem reload_puts_file_in_place_witness:
  "px_credentials (pp_server (onSighup toy_unseal ''00'' 0 (\<lambda>n. Missing)
      (proxy_main toy_unseal ''00'' None True 0 (\<lambda>n. Missing) :: unit ProxyProcess))) = []"
  using reload_puts_file_in_place
    [of toy_unseal "''00''" "\<lambda>n. Missing" emptyRules "proxy_main toy_unseal ''00'' None True 0 (\<lambda>n. Missing) :: unit ProxyProcess" 0]
  by (simp add: loadCredentialRules_def readFile_def Let_def emptyRules_def)

text \<open>
  A reload that cannot read, decrypt or validate the credential file does not keep the running
  configuration: loading never throws, so the handler for a failed reload is never entered, and the
  proxy goes on without any credential, any exemption and any rate limit.
\<close>

theorem failed_reload_drops_credentials:
  assumes "keyHex = [] \<or> (\<exists>e. fst (readFile secretsFile d) = Inl e) \<or>
    (\<exists>dat e. fst (readFile secretsFile d) = Inr dat \<and> decrypt unseal dat (hex_bytes keyHex) = Inl e)"
  shows "px_credentials (pp_server (onSighup unseal keyHex now d pp)) = [] \<and>
    px_pinningBypass (pp_server (onSighup unseal keyHex now d pp)) = [] \<and>
    sh_rateLimiter (px_shared (pp_server (onSighup unseal keyHex now d pp))) = []"
proof -
  have "loadCredentialRules unseal keyHex d = emptyRules"
    using assms by (auto simp: loadCredentialRules_def split: sum.split)
  then show ?thesis
    by (simp add: onSighup_def reloadCredentials_def Let_def emptyRules_def buildRateLimiter_def)
qed

definition expiring_rule :: CredentialRule where
  "expiring_rule = newCredential ''k'' ''api.example.com'' ''x-key'' ''v'' None\<lparr>cr_expiresAt := Some 1000\<rparr>"

definition running_proxy :: "unit ProxyProcess" where
  "running_proxy =
     \<lparr>pp_server = newProxyServer [expiring_rule] \<lparr>sh_rateLimiter = [], sh_keyRotator = Some [], sh_metrics = None,
          sh_costLog = None, sh_audit = []\<rparr> None None False,
      pp_timerRules = emptyRules\<lparr>crs_credentials := [expiring_rule]\<rparr>, pp_warnings = []\<rparr>"

theorem failed_reload_drops_credentials_witness:
  "px_credentials (pp_server running_proxy) = [expiring_rule] \<and>
   px_credentials (pp_server (onSighup toy_unseal ''00'' 5 (\<lambda>n. File True True ''half a fi'') running_proxy)) = []"
proof -
  have "decrypt toy_unseal ''half a fi'' (hex_bytes ''00'') = Inl EncryptedDataTooShort"
    by (simp add: decrypt_def IV_LENGTH_def AUTH_TAG_LENGTH_def)
  then show ?thesis
    using failed_reload_drops_credentials [of "''00''" "\<lambda>n. File True True ''half a fi''" toy_unseal 5 running_proxy]
    by (simp add: readFile_def running_proxy_def newProxyServer_def)
qed

text \<open>
  The expiry timer keeps checking the rules of the first start: after a reload that removed the
  expiring credential, the timer still reports it as expired, and it reports nothing about the
  credentials the reload brought.
\<close>

theorem expiry_timer_keeps_first_rules:
  "pp_warnings (expiryTimer later (onSighup unseal keyHex now d pp)) =
     pp_warnings (onSighup unseal keyHex now d pp) @ checkExpirations later (crs_credentials (pp_timerRules pp)) \<and>
   px_credentials (pp_server (expiryTimer 3000 (onSighup toy_unseal ''00'' 2000 (\<lambda>n. Missing) running_proxy))) = [] \<and>
   pp_warnings (expiryTimer 3000 (onSighup toy_unseal ''00'' 2000 (\<lambda>n. Missing) running_proxy)) = [Expired ''k'' 2]"
  by (simp add: expiryTimer_def onSighup_def Let_def running_proxy_def loadCredentialRules_def readFile_def
      emptyRules_def checkExpirations_def checkExpiration_def expiring_rule_def newCredential_def
      reloadCredentials_def round_div_def)

section \<open>What the proxy works with\<close>

text \<open>What happens to the process after its start: a SIGHUP that finds some disk, or a tick of the timer.\<close>

datatype proxy_signal = Sighup time disk | Tick time

fun proxy_signal_step :: "unseal_fun \<Rightarrow> string \<Rightarrow> proxy_signal \<Rightarrow> 'ctx ProxyProcess \<Rightarrow> 'ctx ProxyProcess" where
  "proxy_signal_step unseal keyHex (Sighup now d) pp = onSighup unseal keyHex now d pp"
| "proxy_signal_step unseal keyHex (Tick now) pp = expiryTimer now pp"

lemma loaded_rules_typed: "credentialRulesSchema (loadCredentialRules unseal keyHex d)"
  using read_rulesD
  by (auto simp: loadCredentialRules_def emptyRules_def credentialRulesSchema_def rules_ok_def split: sum.split)

lemma signals_typed:
  "\<forall>c \<in> set (px_credentials (pp_server pp)). credentialRuleSchema c \<Longrightarrow>
   \<forall>c \<in> set (px_credentials (pp_server (fold (proxy_signal_step unseal keyHex) sigs pp))). credentialRuleSchema c"
proof (induction sigs arbitrary: pp)
  case (Cons s sigs)
  have "\<forall>c \<in> set (px_credentials (pp_server (proxy_signal_step unseal keyHex s pp))). credentialRuleSchema c"
    using Cons.prems loaded_rules_typed [unfolded credentialRulesSchema_def]
    by (cases s) (auto simp: onSighup_def expiryTimer_def reloadCredentials_def Let_def)
  then show ?case using Cons.IH by simp
qed simp

lemma process_rules_typed:
  "\<forall>c \<in> set (px_credentials (pp_server (fold (proxy_signal_step unseal keyHex) sigs
     (proxy_main unseal keyHex method_raw ca now d)))). credentialRuleSchema c"
  using loaded_rules_typed [unfolded credentialRulesSchema_def]
  by (intro signals_typed) (auto simp: proxy_main_def newProxyServer_def Let_def)

lemma typed_value_nonempty:
  assumes "credentialRuleSchema c" shows "fst (getNextValue c ctr) \<noteq> []"
proof (cases "cr_values c")
  case None
  then show ?thesis using assms by (auto simp: getNextValue_def credentialRuleSchema_def)
next
  case (Some vs)
  then have "vs \<noteq> []" "\<forall>v \<in> set vs. v \<noteq> []" using assms by (auto simp: credentialRuleSchema_def)
  then show ?thesis using getNextValue_multi [OF Some] nth_mem [of "js_count ctr (cr_name c) mod length vs" vs] by auto
qed

text \<open>
  C15. The proxy never works with an ill-typed credential, whatever files it finds: after its start and
  any reloads and timer ticks, with any content on the disk, every credential in place satisfies the
  schema, and whatever state the key rotation is in, the header it injects has a name and a value.
\<close>

theorem proxy_rules_typed:
  assumes "c \<in> set (px_credentials (pp_server (fold (proxy_signal_step unseal keyHex) sigs
      (proxy_main unseal keyHex method_raw ca now d))))"
  shows "credentialRuleSchema c \<and> toLowerCase (cr_header c) \<noteq> [] \<and> fst (nextCredentialValue c sh) \<noteq> []"
proof -
  have t: "credentialRuleSchema c" using process_rules_typed assms by blast
  then have "cr_header c \<noteq> []" "cr_value c \<noteq> []" by (auto simp: credentialRuleSchema_def)
  then show ?thesis using t typed_value_nonempty [OF t]
    by (cases "sh_keyRotator sh") (simp_all add: nextCredentialValue_def toLowerCase_def)
qed

definition typed_rules :: CredentialRules where
  "typed_rules = emptyRules\<lparr>crs_credentials := [newCredential ''n'' ''*.example.com'' ''x-key'' ''v'' None]\<rparr>"

definition typed_disk :: disk where
  "typed_disk = (\<lambda>n. Missing)(secretsFile := File True True
     (replicate 16 (CHR ''i'') @ replicate 16 (CHR ''t'') @ stringify2 (rules_json typed_rules)))"

definition zero_key :: string where
  "zero_key = concat (replicate 32 ''00'')"

lemma typed_disk_loads: "loadCredentialRules toy_unseal zero_key typed_disk = typed_rules"
proof (rule load_what_was_saved [OF toy_aead])
  show "length (replicate 16 (CHR ''i'')) = IV_LENGTH" by (simp add: IV_LENGTH_def)
  have h: "hex_bytes zero_key = replicate 32 (char_of (0 :: nat))"
    by (simp add: zero_key_def numeral_eq_Suc hex_value_def)
  show "length (hex_bytes zero_key) = KEY_LENGTH" by (simp add: h KEY_LENGTH_def)
  show "hex_bytes zero_key = hex_bytes zero_key" ..
  show "js_wf (crs_secrets typed_rules)" by (simp add: typed_rules_def emptyRules_def)
  show "credentialRulesSchema typed_rules"
    by (simp add: typed_rules_def emptyRules_def credentialRulesSchema_def credentialRuleSchema_def newCredential_def
        hostPattern_regex_def host_label_def is_alnum_def startsWith_def)
  show "encrypt toy_seal (replicate 16 (CHR ''i'')) (stringify2 (rules_json typed_rules)) (hex_bytes zero_key) =
      Inr (replicate 16 (CHR ''i'') @ replicate 16 (CHR ''t'') @ stringify2 (rules_json typed_rules))"
    by (simp add: encrypt_def toy_seal_def h KEY_LENGTH_def)
  show "typed_disk secretsFile = File True True
      (replicate 16 (CHR ''i'') @ replicate 16 (CHR ''t'') @ stringify2 (rules_json typed_rules))"
    by (simp add: typed_disk_def)
qed

lemma proxy_rules_typed_witness:
  "\<exists>c. px_credentials (pp_server (onSighup toy_unseal zero_key 5 typed_disk
      (proxy_main toy_unseal zero_key None True 0 (\<lambda>n. Missing) :: unit ProxyProcess))) = [c] \<and> credentialRuleSchema c"
proof -
  let ?c = "newCredential ''n'' ''*.example.com'' ''x-key'' ''v'' None"
  have p: "px_credentials (pp_server (onSighup toy_unseal zero_key 5 typed_disk
      (proxy_main toy_unseal zero_key None True 0 (\<lambda>n. Missing) :: unit ProxyProcess))) = [?c]"
    by (simp add: onSighup_def reloadCredentials_def Let_def typed_disk_loads) (simp add: typed_rules_def)
  then show ?thesis
    using proxy_rules_typed [of ?c toy_unseal zero_key "[Sighup 5 typed_disk]" None True 0 "\<lambda>n. Missing", where 'a = unit] by auto
qed

end
