(* ===== verification/Bridge_Rate_Limit.thy ===== *)
theory Bridge_Rate_Limit
  imports Sliding_Window
begin

text \<open>
  \<^verbatim>\<open>src/services/auth-bridge/rate-limit.ts\<close>: the auth bridge's limiter, with one bucket of
  timestamps per key (an endpoint name and a client address) and one global bucket. The
  periodic \<^verbatim>\<open>pruneAll\<close> is the maintenance step of the sliding-window contract.
\<close>

record BridgeRule =
  maxRequests :: nat
  br_windowMs :: int

definition RATE_LIMITS_sessionCreate :: BridgeRule where
  "RATE_LIMITS_sessionCreate = \<lparr>maxRequests = 5, br_windowMs = 60000\<rparr>"

definition RATE_LIMITS_poll :: BridgeRule where
  "RATE_LIMITS_poll = \<lparr>maxRequests = 30, br_windowMs = 60000\<rparr>"

definition RATE_LIMITS_submit :: BridgeRule where
  "RATE_LIMITS_submit = \<lparr>maxRequests = 3, br_windowMs = 60000\<rparr>"

definition RATE_LIMITS_qr :: BridgeRule where
  "RATE_LIMITS_qr = \<lparr>maxRequests = 30, br_windowMs = 60000\<rparr>"

definition GLOBAL_SESSION_LIMIT :: BridgeRule where
  "GLOBAL_SESSION_LIMIT = \<lparr>maxRequests = 1000, br_windowMs = 3600000\<rparr>"

record BridgeLimiter =
  buckets :: "(string, time list) js_map"
  globalBucket :: "time list"

definition newBridgeLimiter :: BridgeLimiter where
  "newBridgeLimiter = \<lparr>buckets = [], globalBucket = []\<rparr>"

definition bridge_check :: "time \<Rightarrow> string \<Rightarrow> BridgeRule \<Rightarrow> BridgeLimiter \<Rightarrow> bool \<times> BridgeLimiter" where
  "bridge_check now key rl lim =
     (let cutoff = now - br_windowMs rl;
          entry = (case js_get (buckets lim) key of None \<Rightarrow> [] | Some ts \<Rightarrow> ts);
          live = filter (\<lambda>t. t > cutoff) entry
      in if length live \<ge> maxRequests rl
         then (False, lim\<lparr>buckets := js_set key live (buckets lim)\<rparr>)
         else (True, lim\<lparr>buckets := js_set key (live @ [now]) (buckets lim)\<rparr>))"

definition bridge_checkGlobal :: "time \<Rightarrow> BridgeRule \<Rightarrow> BridgeLimiter \<Rightarrow> bool \<times> BridgeLimiter" where
  "bridge_checkGlobal now rl lim =
     (let cutoff = now - br_windowMs rl;
          live = filter (\<lambda>t. t > cutoff) (globalBucket lim)
      in if length live \<ge> maxRequests rl
         then (False, lim\<lparr>globalBucket := live\<rparr>)
         else (True, lim\<lparr>globalBucket := live @ [now]\<rparr>))"

definition bridge_remaining :: "time \<Rightarrow> string \<Rightarrow> BridgeRule \<Rightarrow> BridgeLimiter \<Rightarrow> nat" where
  "bridge_remaining now key rl lim =
     (case js_get (buckets lim) key of
        None \<Rightarrow> maxRequests rl
      | Some ts \<Rightarrow> maxRequests rl - length (filter (\<lambda>t. t > now - br_windowMs rl) ts))"

text \<open>\<open>None\<close> is \<^verbatim>\<open>Infinity\<close>, the minimum of no timestamps (only under a limit of zero).\<close>

definition bridge_retryAfterMs :: "time \<Rightarrow> string \<Rightarrow> BridgeRule \<Rightarrow> BridgeLimiter \<Rightarrow> int option" where
  "bridge_retryAfterMs now key rl lim =
     (case js_get (buckets lim) key of
        None \<Rightarrow> Some 0
      | Some ts \<Rightarrow>
          (let active = filter (\<lambda>t. t > now - br_windowMs rl) ts
           in if length active < maxRequests rl then Some 0
              else if active = [] then None
              else Some (Min (set active) + br_windowMs rl - now)))"

definition pruneAll :: "time \<Rightarrow> BridgeLimiter \<Rightarrow> BridgeLimiter" where
  "pruneAll now lim =
     (let cutoff = now - 3600000
      in lim\<lparr>buckets := filter (\<lambda>e. snd e \<noteq> [])
               (map (\<lambda>(k, ts). (k, filter (\<lambda>t. t > cutoff) ts)) (buckets lim)),
             globalBucket := filter (\<lambda>t. t > cutoff) (globalBucket lim)\<rparr>)"

definition limiter_destroy :: "BridgeLimiter \<Rightarrow> BridgeLimiter" where
  "limiter_destroy lim = lim\<lparr>buckets := [], globalBucket := []\<rparr>"

section \<open>Instances of the sliding-window contract\<close>

definition bucket_hits :: "BridgeLimiter \<Rightarrow> string \<Rightarrow> time list" where
  "bucket_hits lim k = (case js_get (buckets lim) k of None \<Rightarrow> [] | Some ts \<Rightarrow> ts)"

definition check_step ::
  "(string \<Rightarrow> BridgeRule) \<Rightarrow> string \<Rightarrow> time \<Rightarrow> time \<Rightarrow> BridgeLimiter \<Rightarrow> bool \<times> BridgeLimiter" where
  "check_step rule_of k a b lim = bridge_check a k (rule_of k) lim"

definition checkGlobal_step ::
  "BridgeRule \<Rightarrow> unit \<Rightarrow> time \<Rightarrow> time \<Rightarrow> BridgeLimiter \<Rightarrow> bool \<times> BridgeLimiter" where
  "checkGlobal_step rl u a b lim = bridge_checkGlobal a rl lim"

definition buckets_wf :: "BridgeLimiter \<Rightarrow> bool" where
  "buckets_wf lim \<longleftrightarrow> js_wf (buckets lim)"

lemma map_fst_apsnd: "map fst (map (\<lambda>(k, v). (k, f v)) m) = map fst m"
  by (induction m) auto

lemma js_get_map_snd: "js_get (map (\<lambda>(k, v). (k, f v)) m) j = map_option f (js_get m j)"
  by (induction m) auto

lemma js_get_filter_snd:
  "js_wf m \<Longrightarrow> js_get (filter (\<lambda>e. P (snd e)) m) k =
     (case js_get m k of None \<Rightarrow> None | Some v \<Rightarrow> if P v then Some v else None)"
proof (induction m)
  case (Cons e m)
  obtain j w where e: "e = (j, w)" by (cases e)
  show ?case
  proof (cases "j = k")
    case True
    with Cons.prems e have "js_get m k = None" by (auto simp: map_of_eq_None_iff)
    with True e Cons show ?thesis by auto
  qed (use Cons e in auto)
qed simp

lemma bucket_hits_pruneAll:
  assumes "buckets_wf lim"
  shows "bucket_hits (pruneAll now lim) k = filter (\<lambda>t. t > now - 3600000) (bucket_hits lim k)"
proof -
  let ?m = "map (\<lambda>(k, ts). (k, filter (\<lambda>t. t > now - 3600000) ts)) (buckets lim)"
  have "js_wf ?m" using assms unfolding buckets_wf_def map_fst_apsnd .
  from js_get_filter_snd [OF this, of "\<lambda>ts. ts \<noteq> []" k] show ?thesis
    by (auto simp: bucket_hits_def pruneAll_def Let_def js_get_map_snd split: option.splits)
qed

lemma buckets_wf_pruneAll:
  assumes "buckets_wf lim"
  shows "buckets_wf (pruneAll now lim)"
proof -
  have "js_wf (map (\<lambda>(k, ts). (k, filter (\<lambda>t. t > now - 3600000) ts)) (buckets lim))"
    using assms unfolding buckets_wf_def map_fst_apsnd .
  then show ?thesis unfolding buckets_wf_def pruneAll_def Let_def
    by (simp add: distinct_map_filter del: map_map)
qed

lemma bucket_hits_check:
  "bucket_hits (snd (bridge_check now k rl lim)) j =
     (if j = k then filter (\<lambda>t. now - br_windowMs rl < t) (bucket_hits lim k) @
        (if fst (bridge_check now k rl lim) then [now] else [])
      else bucket_hits lim j)"
  by (auto simp: bridge_check_def Let_def bucket_hits_def js_get_set split: option.splits)

lemma fst_bridge_check:
  "fst (bridge_check now k rl lim) \<longleftrightarrow>
     length (filter (\<lambda>t. now - br_windowMs rl < t) (bucket_hits lim k)) < maxRequests rl"
  by (auto simp: bridge_check_def Let_def bucket_hits_def split: option.splits)

lemma buckets_wf_check: "buckets_wf lim \<Longrightarrow> buckets_wf (snd (bridge_check now k rl lim))"
  by (simp add: buckets_wf_def bridge_check_def Let_def js_wf_set)

lemma filter_horizon:
  fixes n w h :: int
  assumes "w \<le> h"
  shows "filter (\<lambda>t. n - w < t) (filter (\<lambda>t. t > n - h) xs) = filter (\<lambda>t. n - w < t) xs"
  using assms by (induction xs) auto

interpretation bridge_window: sliding_window "check_step rule_of" pruneAll "\<lambda>a b. a" bucket_hits
  "{k. br_windowMs (rule_of k) \<le> 3600000}" "\<lambda>k. maxRequests (rule_of k)"
  "\<lambda>k. br_windowMs (rule_of k)" buckets_wf
  for rule_of :: "string \<Rightarrow> BridgeRule"
  by unfold_locales
    (simp_all add: check_step_def fst_bridge_check bucket_hits_check buckets_wf_check
      bucket_hits_pruneAll buckets_wf_pruneAll filter_horizon del: filter_filter)

interpretation bridge_global: sliding_window "checkGlobal_step rl" pruneAll "\<lambda>a b. a"
  "\<lambda>lim u. globalBucket lim" "{u. br_windowMs rl \<le> 3600000}" "\<lambda>u. maxRequests rl"
  "\<lambda>u. br_windowMs rl" "\<lambda>lim. True"
  for rl :: BridgeRule
  by unfold_locales
    (auto simp: checkGlobal_step_def bridge_checkGlobal_def Let_def pruneAll_def filter_horizon
      simp del: filter_filter split: if_splits)

section \<open>Properties\<close>

text \<open>
  For every assignment of rules to keys with windows of at most an hour, the bridge admits
  in no window more requests of a key than its rule allows, whatever the order of requests
  and however often the hourly pruning runs in between.
\<close>
theorem bridge_rate_limit_respected:
  assumes "br_windowMs (rule_of k) \<le> 3600000" "clock_ok now es"
  shows "window_count (br_windowMs (rule_of k)) t k
      (admitted (check_step rule_of) pruneAll (\<lambda>a b. a) newBridgeLimiter es)
    \<le> maxRequests (rule_of k)"
  using bridge_window.window_bound [of newBridgeLimiter k rule_of now es t] assms
  by (simp add: buckets_wf_def newBridgeLimiter_def bucket_hits_def)

definition submit_burst :: "string wevent list" where
  "submit_burst = [Attempt ''submit:1'' 10 10, Attempt ''submit:1'' 20 20, Maintain 25,
     Attempt ''submit:1'' 30 30, Attempt ''submit:1'' 40 40]"

theorem bridge_rate_limit_respected_witness:
  "window_count 60000 50 ''submit:1''
     (admitted (check_step (\<lambda>k. RATE_LIMITS_submit)) pruneAll (\<lambda>a b. a) newBridgeLimiter
        submit_burst) \<le> 3 \<and>
   map snd (admitted (check_step (\<lambda>k. RATE_LIMITS_submit)) pruneAll (\<lambda>a b. a) newBridgeLimiter
        submit_burst) = [10, 20, 30]"
proof
  have rl: "maxRequests RATE_LIMITS_submit = 3" "br_windowMs RATE_LIMITS_submit = 60000"
    by (simp_all add: RATE_LIMITS_submit_def)
  have "clock_ok 0 submit_burst" by (simp add: submit_burst_def)
  from bridge_rate_limit_respected [of "\<lambda>k. RATE_LIMITS_submit" "''submit:1''", OF _ this, of 50]
  show "window_count 60000 50 ''submit:1'' (admitted (check_step (\<lambda>k. RATE_LIMITS_submit)) pruneAll
      (\<lambda>a b. a) newBridgeLimiter submit_burst) \<le> 3" by (simp add: rl)
  show "map snd (admitted (check_step (\<lambda>k. RATE_LIMITS_submit)) pruneAll (\<lambda>a b. a)
      newBridgeLimiter submit_burst) = [10, 20, 30]" by code_simp
qed

text \<open>The global session limit holds in every hour, across all clients.\<close>

lemma global_session_limit_respected:
  assumes "clock_ok now es"
  shows "window_count 3600000 t ()
      (admitted (checkGlobal_step GLOBAL_SESSION_LIMIT) pruneAll (\<lambda>a b. a) newBridgeLimiter es)
    \<le> 1000"
  using bridge_global.window_bound
    [where s = newBridgeLimiter and k = "()" and rl = GLOBAL_SESSION_LIMIT and now = now and es = es
      and t = t] assms
  by (simp add: newBridgeLimiter_def GLOBAL_SESSION_LIMIT_def)

text \<open>The delay a rejection reports is positive and at most the window.\<close>

lemma bridge_retryAfterMs_bounds:
  assumes "\<not> fst (bridge_check now k rl lim)" "1 \<le> maxRequests rl"
    and "\<forall>t \<in> set (bucket_hits lim k). t \<le> now"
  shows "\<exists>d. bridge_retryAfterMs now k rl (snd (bridge_check now k rl lim)) = Some d \<and>
    0 < d \<and> d \<le> br_windowMs rl"
proof -
  let ?live = "filter (\<lambda>t. now - br_windowMs rl < t) (bucket_hits lim k)"
  have full: "maxRequests rl \<le> length ?live"
    using assms(1) by (simp add: fst_bridge_check not_less)
  then have ne: "?live \<noteq> []" using assms(2) by auto
  have st: "js_get (buckets (snd (bridge_check now k rl lim))) k = Some ?live"
    using assms(1) by (auto simp: bridge_check_def Let_def bucket_hits_def js_get_set
        split: option.splits if_splits)
  have "Min (set ?live) \<in> set ?live" using ne by (intro Min_in finite_set) (simp only: set_empty not_False_eq_True)
  then have "now - br_windowMs rl < Min (set ?live)" "Min (set ?live) \<le> now"
    using assms(3) by auto
  with full ne st show ?thesis
    by (simp add: bridge_retryAfterMs_def Let_def not_less)
qed

end
