(* ===== verification/Bridge_Store.thy ===== *)
theory Bridge_Store
  imports Expiring_Store
begin

text \<open>
  \<^verbatim>\<open>src/services/auth-bridge/store.ts\<close>: the bridge's ephemeral session store. The objects in
  the map are mutated in place by \<^verbatim>\<open>submitCredentials\<close>; in the model the entry is replaced.
\<close>

record SessionData =
  sd_publicKey :: string
  sd_expiresAt :: time
  sd_encrypted :: "string option"
  sd_ephemeralPublicKey :: "string option"
  sd_nonce :: "string option"

record SessionStore =
  sessions :: "(string, SessionData) js_map"
  ss_ttlMs :: int
  ss_maxSessions :: nat

definition newSessionStore :: "int option \<Rightarrow> nat option \<Rightarrow> SessionStore" where
  "newSessionStore ttlMs maxSessions =
     \<lparr>sessions = [],
      ss_ttlMs = (case ttlMs of None \<Rightarrow> 600000 | Some t \<Rightarrow> t),
      ss_maxSessions = (case maxSessions of None \<Rightarrow> 10000 | Some n \<Rightarrow> n)\<rparr>"

definition store_create :: "time \<Rightarrow> string \<Rightarrow> string \<Rightarrow> SessionStore \<Rightarrow> bool \<times> SessionStore" where
  "store_create now token publicKey st =
     (if length (sessions st) \<ge> ss_maxSessions st then (False, st)
      else (True, st\<lparr>sessions := js_set token
              \<lparr>sd_publicKey = publicKey, sd_expiresAt = now + ss_ttlMs st, sd_encrypted = None,
               sd_ephemeralPublicKey = None, sd_nonce = None\<rparr> (sessions st)\<rparr>))"

definition store_get :: "time \<Rightarrow> string \<Rightarrow> SessionStore \<Rightarrow> SessionData option \<times> SessionStore" where
  "store_get now token st =
     (case js_get (sessions st) token of
        None \<Rightarrow> (None, st)
      | Some session \<Rightarrow>
          if now > sd_expiresAt session
          then (None, st\<lparr>sessions := js_delete token (sessions st)\<rparr>)
          else (Some session, st))"

definition store_has :: "time \<Rightarrow> string \<Rightarrow> SessionStore \<Rightarrow> bool \<times> SessionStore" where
  "store_has now token st = (let r = store_get now token st in (fst r \<noteq> None, snd r))"

text \<open>A JavaScript string is true when it is not empty.\<close>

definition submitted :: "SessionData \<Rightarrow> bool" where
  "submitted session \<longleftrightarrow> (case sd_encrypted session of None \<Rightarrow> False | Some e \<Rightarrow> e \<noteq> [])"

definition submitCredentials ::
  "time \<Rightarrow> string \<Rightarrow> string \<Rightarrow> string \<Rightarrow> string \<Rightarrow> SessionStore \<Rightarrow> bool \<times> SessionStore" where
  "submitCredentials now token encrypted ephemeralPublicKey nonce st =
     (case store_get now token st of
        (None, st1) \<Rightarrow> (False, st1)
      | (Some session, st1) \<Rightarrow>
          if submitted session then (False, st1)
          else (True, st1\<lparr>sessions := js_set token
                 (session\<lparr>sd_encrypted := Some encrypted,
                          sd_ephemeralPublicKey := Some ephemeralPublicKey,
                          sd_nonce := Some nonce\<rparr>) (sessions st1)\<rparr>))"

definition store_delete :: "string \<Rightarrow> SessionStore \<Rightarrow> bool \<times> SessionStore" where
  "store_delete token st =
     (js_get (sessions st) token \<noteq> None, st\<lparr>sessions := js_delete token (sessions st)\<rparr>)"

definition store_size :: "SessionStore \<Rightarrow> nat" where
  "store_size st = length (sessions st)"

definition store_cleanup :: "time \<Rightarrow> SessionStore \<Rightarrow> nat \<times> SessionStore" where
  "store_cleanup now st =
     (length (filter (\<lambda>e. now > sd_expiresAt (snd e)) (sessions st)),
      st\<lparr>sessions := filter (\<lambda>e. \<not> now > sd_expiresAt (snd e)) (sessions st)\<rparr>)"

definition store_destroy :: "SessionStore \<Rightarrow> SessionStore" where
  "store_destroy st = st\<lparr>sessions := []\<rparr>"

section \<open>The store meets the expiring-store contract\<close>

definition session_entry :: "SessionStore \<Rightarrow> string \<Rightarrow> (SessionData \<times> time) option" where
  "session_entry st k = map_option (\<lambda>s. (s, sd_expiresAt s)) (js_get (sessions st) k)"

interpretation session_store: expiring_store session_entry store_get
  by unfold_locales
    (auto simp: store_get_def session_entry_def js_get_delete split: option.splits)

section \<open>Sequences of operations\<close>

datatype store_op =
    OCreate time string string
  | OGet time string
  | OSubmit time string string string string
  | ODelete string
  | OCleanup time

fun store_apply :: "store_op \<Rightarrow> SessionStore \<Rightarrow> SessionStore" where
  "store_apply (OCreate now t pk) st = snd (store_create now t pk st)"
| "store_apply (OGet now t) st = snd (store_get now t st)"
| "store_apply (OSubmit now t e pk n) st = snd (submitCredentials now t e pk n st)"
| "store_apply (ODelete t) st = snd (store_delete t st)"
| "store_apply (OCleanup now) st = snd (store_cleanup now st)"

definition store_ok :: "SessionStore \<Rightarrow> bool" where
  "store_ok st \<longleftrightarrow> js_wf (sessions st) \<and> length (sessions st) \<le> ss_maxSessions st"

lemmas store_defs = store_create_def store_get_def submitCredentials_def store_delete_def
  store_cleanup_def store_has_def Let_def

lemma store_ok_new: "store_ok (newSessionStore ttl n)"
  by (simp add: store_ok_def newSessionStore_def)

lemma length_js_delete_le: "length (js_delete k m) \<le> length m"
  by (simp add: js_delete_def)

lemma store_ok_create: "store_ok st \<Longrightarrow> store_ok (snd (store_create now t pk st))"
  by (auto simp: store_ok_def store_create_def js_size_set intro!: js_wf_set)

lemma store_ok_get: "store_ok st \<Longrightarrow> store_ok (snd (store_get now t st))"
  using length_js_delete_le [of t "sessions st"]
  by (auto simp: store_ok_def store_get_def intro!: js_wf_delete split: option.splits)

lemma store_ok_submit:
  assumes "store_ok st"
  shows "store_ok (snd (submitCredentials now t e pk n st))"
proof (cases "js_get (sessions st) t")
  case None
  with assms show ?thesis by (simp add: submitCredentials_def store_get_def)
next
  case (Some s)
  with assms store_ok_get [OF assms, of now t] show ?thesis
    by (auto simp: submitCredentials_def store_get_def store_ok_def js_size_set js_wf_set
        simp del: map_of_eq_None_iff)
qed

lemma store_ok_delete: "store_ok st \<Longrightarrow> store_ok (snd (store_delete t st))"
  using length_js_delete_le [of t "sessions st"]
  by (auto simp: store_ok_def store_delete_def intro!: js_wf_delete)

lemma store_ok_cleanup: "store_ok st \<Longrightarrow> store_ok (snd (store_cleanup now st))"
  by (auto simp: store_ok_def store_cleanup_def distinct_map_filter
      intro: le_trans [OF length_filter_le])

lemmas store_ok_ops = store_ok_create store_ok_get store_ok_submit store_ok_delete store_ok_cleanup

lemma store_ok_apply: "store_ok st \<Longrightarrow> store_ok (store_apply op st)"
  by (cases op) (simp_all add: store_ok_ops)

text \<open>
  No sequence of operations makes the store hold more sessions than its maximum, and no
  token ever has two sessions.
\<close>
theorem session_store_bounded:
  "store_size (fold store_apply ops (newSessionStore ttl n)) \<le>
     (case n of None \<Rightarrow> 10000 | Some k \<Rightarrow> k) \<and>
   js_wf (sessions (fold store_apply ops (newSessionStore ttl n)))"
proof -
  have inv: "store_ok st \<Longrightarrow> store_ok (fold store_apply ops st)" for st
    by (induction ops arbitrary: st) (auto intro: store_ok_apply)
  have "ss_maxSessions (store_apply op st) = ss_maxSessions st" for op st
    by (cases op) (auto simp: store_defs split: option.splits if_splits)
  then have "ss_maxSessions (fold store_apply ops st) = ss_maxSessions st" for st
    by (induction ops arbitrary: st) auto
  with inv [OF store_ok_new] show ?thesis
    by (simp add: store_ok_def store_size_def newSessionStore_def)
qed

section \<open>The first submission wins\<close>

fun replaces :: "string \<Rightarrow> store_op \<Rightarrow> bool" where
  "replaces t (OCreate now t' pk) \<longleftrightarrow> t = t'"
| "replaces t (ODelete t') \<longleftrightarrow> t = t'"
| "replaces t _ \<longleftrightarrow> False"

lemma submitted_kept_step:
  assumes "js_wf (sessions st)" "js_get (sessions st) t = Some s" "submitted s" "\<not> replaces t op"
  shows "js_get (sessions (store_apply op st)) t = Some s \<or>
    js_get (sessions (store_apply op st)) t = None"
proof (cases op)
  case (OSubmit now t' e pk n)
  show ?thesis
  proof (cases "t' = t")
    case True
    with OSubmit assms show ?thesis
      by (auto simp: submitCredentials_def store_get_def js_get_delete)
  next
    case False
    with OSubmit assms show ?thesis
      by (auto simp: submitCredentials_def store_get_def js_get_delete js_get_set
          split: option.splits)
  qed
next
  case (OCleanup now)
  have "js_get (filter (\<lambda>e. \<not> now > sd_expiresAt (snd e)) (sessions st)) t = Some s \<or>
      js_get (filter (\<lambda>e. \<not> now > sd_expiresAt (snd e)) (sessions st)) t = None"
  proof (cases "js_get (filter (\<lambda>e. \<not> now > sd_expiresAt (snd e)) (sessions st)) t")
    case (Some s')
    then have "(t, s') \<in> set (sessions st)" by (auto dest!: map_of_SomeD)
    with assms(1,2) have "s' = s" by simp
    with Some show ?thesis by simp
  qed simp
  with OCleanup show ?thesis by (simp add: store_cleanup_def)
qed (use assms in \<open>auto simp: store_defs js_get_set js_get_delete split: option.splits\<close>)

lemma absent_kept_step:
  assumes "js_get (sessions st) t = None" "\<not> replaces t op"
  shows "js_get (sessions (store_apply op st)) t = None"
proof (cases op)
  case (OCleanup now)
  with assms(1) show ?thesis by (auto simp: store_cleanup_def map_of_eq_None_iff)
qed (use assms in \<open>auto simp: store_defs js_get_set js_get_delete split: option.splits if_splits\<close>)

lemma wf_apply: "js_wf (sessions st) \<Longrightarrow> js_wf (sessions (store_apply op st))"
  by (cases op)
    (auto simp: store_defs distinct_map_filter intro!: js_wf_set js_wf_delete split: option.splits)

lemma submitted_kept_run:
  assumes "js_wf (sessions st)" "submitted s" "\<forall>op \<in> set ops. \<not> replaces t op"
    and "js_get (sessions st) t = Some s \<or> js_get (sessions st) t = None"
  shows "js_get (sessions (fold store_apply ops st)) t = Some s \<or>
    js_get (sessions (fold store_apply ops st)) t = None"
  using assms
proof (induction ops arbitrary: st)
  case (Cons op ops)
  have "js_get (sessions (store_apply op st)) t = Some s \<or>
      js_get (sessions (store_apply op st)) t = None"
    using Cons.prems submitted_kept_step absent_kept_step by (metis list.set_intros(1))
  with Cons show ?case using wf_apply by simp
qed simp

text \<open>
  The first submission wins: once the browser has submitted credentials for a session, a poll
  can only ever see these credentials or no session, whatever is read, submitted, cleaned up
  or created and deleted for other tokens, until the session is deleted or its token reissued.
\<close>
theorem first_submission_wins:
  assumes "js_wf (sessions st)"
    and "submitCredentials now t e pk n st = (True, st1)" "e \<noteq> []"
    and "\<forall>op \<in> set ops. \<not> replaces t op"
    and "store_get later t (fold store_apply ops st1) = (Some s, st2)"
  shows "sd_encrypted s = Some e \<and> sd_ephemeralPublicKey s = Some pk \<and> sd_nonce s = Some n"
proof -
  from assms(2) obtain s0 where s0: "js_get (sessions st) t = Some s0" "\<not> now > sd_expiresAt s0"
    by (auto simp: submitCredentials_def store_get_def split: option.splits if_splits)
  let ?s = "s0\<lparr>sd_encrypted := Some e, sd_ephemeralPublicKey := Some pk, sd_nonce := Some n\<rparr>"
  have st1: "st1 = st\<lparr>sessions := js_set t ?s (sessions st)\<rparr>"
    using assms(2) s0 by (auto simp: submitCredentials_def store_get_def split: if_splits)
  have "submitted ?s" using assms(3) by (simp add: submitted_def)
  moreover have "js_wf (sessions st1)" using st1 assms(1) by (simp add: js_wf_set)
  ultimately have "js_get (sessions (fold store_apply ops st1)) t = Some ?s \<or>
      js_get (sessions (fold store_apply ops st1)) t = None"
    using assms(4) st1 by (intro submitted_kept_run) (auto simp: js_get_set)
  with assms(5) have "s = ?s"
    by (auto simp: store_get_def split: option.splits if_splits)
  then show ?thesis by simp
qed

definition store_with_session :: SessionStore where
  "store_with_session = snd (store_create 0 ''t'' ''k'' (newSessionStore None None))"

theorem first_submission_wins_witness:
  "sd_encrypted (the (fst (store_get 40 ''t''
     (fold store_apply [OSubmit 20 ''t'' ''x'' ''p'' ''n'', OCleanup 30]
       (snd (submitCredentials 10 ''t'' ''e'' ''p'' ''n'' store_with_session)))))) = Some ''e''"
proof -
  let ?r = "submitCredentials 10 ''t'' ''e'' ''p'' ''n'' store_with_session"
  let ?ops = "[OSubmit 20 ''t'' ''x'' ''p'' ''n'', OCleanup 30]"
  let ?g = "store_get 40 ''t'' (fold store_apply ?ops (snd ?r))"
  have wf: "js_wf (sessions store_with_session)" by (simp add: store_with_session_def newSessionStore_def store_defs submitted_def)
  have "fst ?r" by (simp add: store_with_session_def newSessionStore_def store_defs submitted_def)
  then have r: "?r = (True, snd ?r)" by (metis prod.collapse)
  have ops: "\<forall>op \<in> set ?ops. \<not> replaces ''t'' op" by simp
  have "fst ?g \<noteq> None" by (simp add: store_with_session_def newSessionStore_def store_defs submitted_def)
  then have g: "?g = (Some (the (fst ?g)), snd ?g)" by (metis option.collapse prod.collapse)
  show ?thesis using first_submission_wins [OF wf r _ ops g] by blast
qed

end
