(* ===== verification/Bridge_Token.thy ===== *)
theory Bridge_Token
  imports Prelude
begin

text \<open>
  \<^verbatim>\<open>src/services/auth-bridge/token.ts\<close>: short session tokens. \<^verbatim>\<open>crypto.randomBytes\<close> is the
  parameter \<open>rand\<close>: \<open>rand i n\<close> is the answer to the \<open>i\<close>-th request, \<open>n\<close> bytes. The sampling loop
  has no bound in the source, so a run that never ends is the value \<^const>\<open>None\<close>.
\<close>

definition SAFE_ALPHABET :: string where
  "SAFE_ALPHABET = ''23456789ABCDEFGHJKLMNPQRSTUVWXYZabcdefghijkmnpqrstuvwxyz''"

definition TOKEN_LENGTH :: nat where
  "TOKEN_LENGTH = 5"

definition MAX_RETRIES :: nat where
  "MAX_RETRIES = 10"

definition rejectThreshold :: nat where
  "rejectThreshold = 224"

fun takeBytes :: "nat list \<Rightarrow> string \<Rightarrow> string" where
  "takeBytes [] chars = chars"
| "takeBytes (byte # bytes) chars =
     takeBytes bytes
       (if byte < rejectThreshold \<and> length chars < TOKEN_LENGTH
        then chars @ [SAFE_ALPHABET ! (byte mod length SAFE_ALPHABET)] else chars)"

partial_function (option) rawTokenLoop ::
  "(nat \<Rightarrow> nat \<Rightarrow> nat list) \<Rightarrow> nat \<Rightarrow> string \<Rightarrow> (string \<times> nat) option" where
  "rawTokenLoop rand i chars =
     (if length chars < TOKEN_LENGTH
      then rawTokenLoop rand (Suc i) (takeBytes (rand i (TOKEN_LENGTH - length chars + 4)) chars)
      else Some (chars, i))"

definition generateRawToken :: "(nat \<Rightarrow> nat \<Rightarrow> nat list) \<Rightarrow> nat \<Rightarrow> (string \<times> nat) option" where
  "generateRawToken rand i = rawTokenLoop rand i []"

datatype token_error = NoUniqueToken

text \<open>
  The caller's \<^verbatim>\<open>existsFn\<close> reads (and lazily cleans) a store: it takes and returns the state.
\<close>

fun uniqueLoop ::
  "nat \<Rightarrow> (nat \<Rightarrow> nat \<Rightarrow> nat list) \<Rightarrow> nat \<Rightarrow> (string \<Rightarrow> 's \<Rightarrow> bool \<times> 's) \<Rightarrow> 's
     \<Rightarrow> ((token_error + string) \<times> nat \<times> 's) option" where
  "uniqueLoop 0 rand i existsFn s = Some (Inl NoUniqueToken, i, s)"
| "uniqueLoop (Suc retries) rand i existsFn s =
     (case generateRawToken rand i of
        None \<Rightarrow> None
      | Some (token, i') \<Rightarrow>
          (let r = existsFn token s
           in if fst r then uniqueLoop retries rand i' existsFn (snd r)
              else Some (Inr token, i', snd r)))"

definition generateUniqueToken ::
  "(nat \<Rightarrow> nat \<Rightarrow> nat list) \<Rightarrow> nat \<Rightarrow> (string \<Rightarrow> 's \<Rightarrow> bool \<times> 's) \<Rightarrow> 's
     \<Rightarrow> ((token_error + string) \<times> nat \<times> 's) option" where
  "generateUniqueToken rand i existsFn s = uniqueLoop MAX_RETRIES rand i existsFn s"

section \<open>The alphabet and the sampling\<close>

lemma length_SAFE_ALPHABET: "length SAFE_ALPHABET = 56"
  by (simp add: SAFE_ALPHABET_def)

lemma distinct_SAFE_ALPHABET: "distinct SAFE_ALPHABET"
  by (simp add: SAFE_ALPHABET_def)

lemma length_filter_upt: "length (filter P [0..<n]) = card {b. b < n \<and> P b}"
proof -
  have "distinct (filter P [0..<n])" by simp
  then have "length (filter P [0..<n]) = card (set (filter P [0..<n]))"
    by (rule distinct_card [symmetric])
  also have "set (filter P [0..<n]) = {b. b < n \<and> P b}" by auto
  finally show ?thesis .
qed

text \<open>
  Rejection sampling has no modulo bias: among the 256 byte values, each character of the
  alphabet is produced by exactly four accepted ones.
\<close>
theorem token_sampling_unbiased:
  "(\<forall>c \<in> set SAFE_ALPHABET.
      length (filter (\<lambda>b. takeBytes [b] [] = [c]) [0..<256]) = 4) \<and>
   length (filter (\<lambda>b. takeBytes [b] [] = []) [0..<256]) = 256 - 4 * length SAFE_ALPHABET"
proof
  have eq: "filter (\<lambda>b. takeBytes [b] [] = [SAFE_ALPHABET ! k]) [0..<256] =
      filter (\<lambda>b. b < 224 \<and> b mod 56 = k) [0..<256]" if "k < 56" for k
  proof (rule filter_cong [OF refl])
    fix b :: nat
    have "SAFE_ALPHABET ! (b mod 56) = SAFE_ALPHABET ! k \<longleftrightarrow> b mod 56 = k"
      using nth_eq_iff_index_eq [OF distinct_SAFE_ALPHABET, of "b mod 56" k] that
      by (simp add: length_SAFE_ALPHABET)
    then show "takeBytes [b] [] = [SAFE_ALPHABET ! k] \<longleftrightarrow> b < 224 \<and> b mod 56 = k"
      by (simp add: rejectThreshold_def TOKEN_LENGTH_def length_SAFE_ALPHABET)
  qed
  have cnt: "length (filter (\<lambda>b. b < 224 \<and> b mod 56 = k) [0..<256]) = 4" if "k < 56" for k :: nat
  proof -
    have "b \<in> {k, k + 56, k + 112, k + 168}" if "b < 224" "b mod 56 = k" for b
    proof -
      have "b = 56 * (b div 56) + k" using that(2) by (metis mult_div_mod_eq)
      moreover have "b div 56 < 4" using that(1) by simp
      then have "b div 56 \<in> {0, 1, 2, 3}" by auto
      ultimately show ?thesis by auto
    qed
    with that have "{b. b < 256 \<and> b < 224 \<and> b mod 56 = k} = {k, k + 56, k + 112, k + 168}"
      by (auto simp: mod_add_right_eq [symmetric])
    then show ?thesis by (simp only: length_filter_upt) simp
  qed
  show "\<forall>c \<in> set SAFE_ALPHABET. length (filter (\<lambda>b. takeBytes [b] [] = [c]) [0..<256]) = 4"
  proof
    fix c assume "c \<in> set SAFE_ALPHABET"
    then obtain k where "k < 56" "c = SAFE_ALPHABET ! k"
      by (auto simp: in_set_conv_nth length_SAFE_ALPHABET)
    with eq cnt show "length (filter (\<lambda>b. takeBytes [b] [] = [c]) [0..<256]) = 4"
      by (simp del: upt_rec_numeral upt_Suc)
  qed
  have "filter (\<lambda>b. takeBytes [b] [] = []) [0..<256] = filter (\<lambda>b. \<not> b < 224) [0..<256]"
    by (rule filter_cong [OF refl]) (simp add: rejectThreshold_def TOKEN_LENGTH_def)
  also have "length \<dots> = card {224..<256::nat}"
    unfolding length_filter_upt by (rule arg_cong [of _ _ card]) auto
  finally show "length (filter (\<lambda>b. takeBytes [b] [] = []) [0..<256]) = 256 - 4 * length SAFE_ALPHABET"
    by (simp add: length_SAFE_ALPHABET)
qed

theorem token_sampling_unbiased_witness:
  "length (filter (\<lambda>b. takeBytes [b] [] = ''z'') [0..<256]) = 4"
  using token_sampling_unbiased by (simp add: SAFE_ALPHABET_def del: upt_rec_numeral upt_Suc)

section \<open>The loop\<close>

definition partial_token :: "string \<Rightarrow> bool" where
  "partial_token chars \<longleftrightarrow> length chars \<le> TOKEN_LENGTH \<and> set chars \<subseteq> set SAFE_ALPHABET"

lemma partial_token_takeBytes: "partial_token chars \<Longrightarrow> partial_token (takeBytes bytes chars)"
proof (induction bytes arbitrary: chars)
  case (Cons b bytes)
  have "SAFE_ALPHABET ! (b mod length SAFE_ALPHABET) \<in> set SAFE_ALPHABET"
    by (rule nth_mem) (simp add: length_SAFE_ALPHABET)
  with Cons show ?case by (auto simp: partial_token_def)
qed simp

lemma length_takeBytes_mono: "length chars \<le> length (takeBytes bytes chars)"
proof (induction bytes arbitrary: chars)
  case (Cons b bytes)
  show ?case
    using Cons.IH [of chars] Cons.IH [of "chars @ [SAFE_ALPHABET ! (b mod length SAFE_ALPHABET)]"]
    by simp
qed simp

lemma length_takeBytes_progress:
  assumes "length chars < TOKEN_LENGTH" "\<exists>b \<in> set bytes. b < rejectThreshold"
  shows "length chars < length (takeBytes bytes chars)"
  using assms
proof (induction bytes arbitrary: chars)
  case (Cons b bytes)
  show ?case
  proof (cases "b < rejectThreshold")
    case True
    let ?c = "chars @ [SAFE_ALPHABET ! (b mod length SAFE_ALPHABET)]"
    have "length ?c \<le> length (takeBytes bytes ?c)" by (rule length_takeBytes_mono)
    with True Cons.prems(1) show ?thesis by simp
  next
    case False
    with Cons show ?thesis by auto
  qed
qed simp

lemma rawTokenLoop_partial:
  assumes "rawTokenLoop rand i chars = Some (t, i')" "partial_token chars"
  shows "partial_token t \<and> length t = TOKEN_LENGTH"
proof -
  have "rawTokenLoop rand i chars = Some r \<Longrightarrow> partial_token chars \<longrightarrow>
      partial_token (fst r) \<and> length (fst r) = TOKEN_LENGTH" for r
  proof (induction rule: rawTokenLoop.raw_induct [rotated, consumes 1])
    case (1 loop rand i chars r)
    then show ?case
      using partial_token_takeBytes
      by (auto simp: partial_token_def split: if_splits)
  qed
  with assms show ?thesis by fastforce
qed

text \<open>\<open>rand\<close> is usable when acceptable bytes keep coming.\<close>

definition supplies :: "(nat \<Rightarrow> nat \<Rightarrow> nat list) \<Rightarrow> bool" where
  "supplies rand \<longleftrightarrow>
     (\<forall>i. \<exists>j \<ge> i. \<forall>n \<ge> TOKEN_LENGTH. \<exists>b \<in> set (rand j n). b < rejectThreshold)"

lemma rawTokenLoop_step:
  "length chars < TOKEN_LENGTH \<Longrightarrow>
     rawTokenLoop rand i chars =
       rawTokenLoop rand (Suc i) (takeBytes (rand i (TOKEN_LENGTH - length chars + 4)) chars)"
  by (subst rawTokenLoop.simps) simp

lemma rawTokenLoop_done:
  "\<not> length chars < TOKEN_LENGTH \<Longrightarrow> rawTokenLoop rand i chars = Some (chars, i)"
  by (subst rawTokenLoop.simps) simp

lemma rawTokenLoop_returns:
  assumes sup: "supplies rand"
  shows "\<exists>r. rawTokenLoop rand i chars = Some r"
proof (induction "TOKEN_LENGTH - length chars" arbitrary: i chars rule: less_induct)
  case less
  show ?case
  proof (cases "length chars < TOKEN_LENGTH")
    case False
    then show ?thesis by (simp add: rawTokenLoop_done)
  next
    case short: True
    obtain j where j: "i \<le> j" "\<forall>n \<ge> TOKEN_LENGTH. \<exists>b \<in> set (rand j n). b < rejectThreshold"
      using sup unfolding supplies_def by blast
    have "i' \<le> j \<Longrightarrow> \<exists>r. rawTokenLoop rand i' chars = Some r" for i'
    proof (induction "j - i'" arbitrary: i')
      case 0
      let ?b = "rand i' (TOKEN_LENGTH - length chars + 4)"
      have "TOKEN_LENGTH \<le> TOKEN_LENGTH - length chars + 4"
        using short by (simp add: TOKEN_LENGTH_def)
      with 0 j have "\<exists>b \<in> set ?b. b < rejectThreshold" by auto
      with short have "length chars < length (takeBytes ?b chars)"
        by (rule length_takeBytes_progress)
      then show ?case using less short by (simp add: rawTokenLoop_step)
    next
      case (Suc d)
      let ?c = "takeBytes (rand i' (TOKEN_LENGTH - length chars + 4)) chars"
      have next_i: "\<exists>r. rawTokenLoop rand (Suc i') chars = Some r" using Suc by auto
      show ?case
      proof (cases "length chars < length ?c")
        case True
        then show ?thesis using less short by (simp add: rawTokenLoop_step)
      next
        case False
        then have "\<not> (\<exists>b \<in> set (rand i' (TOKEN_LENGTH - length chars + 4)). b < rejectThreshold)"
          using length_takeBytes_progress [OF short] by blast
        moreover have "takeBytes bs chars = chars" if "\<not> (\<exists>b \<in> set bs. b < rejectThreshold)" for bs
          using that by (induction bs) auto
        ultimately show ?thesis using next_i short by (simp add: rawTokenLoop_step)
      qed
    qed
    then show ?thesis using j(1) .
  qed
qed

text \<open>
  As long as the random source keeps supplying acceptable bytes, token generation returns,
  and the token has exactly five characters, all from the unambiguous alphabet.
\<close>
theorem generateRawToken_returns:
  assumes "supplies rand"
  shows "\<exists>t i'. generateRawToken rand i = Some (t, i') \<and> length t = 5 \<and>
    set t \<subseteq> set SAFE_ALPHABET \<and> set t \<inter> set ''0Oo1lI'' = {}"
proof -
  obtain t i' where r: "generateRawToken rand i = Some (t, i')"
    using rawTokenLoop_returns [OF assms, of i "[]"] by (auto simp: generateRawToken_def)
  then have "partial_token t \<and> length t = TOKEN_LENGTH"
    unfolding generateRawToken_def by (rule rawTokenLoop_partial) (simp add: partial_token_def)
  moreover have "set SAFE_ALPHABET \<inter> set ''0Oo1lI'' = {}" by (simp add: SAFE_ALPHABET_def)
  ultimately show ?thesis using r by (auto simp: partial_token_def TOKEN_LENGTH_def)
qed

theorem generateRawToken_returns_witness:
  "\<exists>t i'. generateRawToken (\<lambda>i n. replicate n (i mod 2)) 3 = Some (t, i') \<and> length t = 5 \<and>
    set t \<subseteq> set SAFE_ALPHABET \<and> set t \<inter> set ''0Oo1lI'' = {}"
proof (rule generateRawToken_returns)
  have "(i mod 2 :: nat) < 224" for i by (rule less_trans [of _ 2]) simp_all
  then show "supplies (\<lambda>i n. replicate n (i mod 2))"
    by (auto simp: supplies_def rejectThreshold_def TOKEN_LENGTH_def intro!: exI)
qed

text \<open>
  A token handed out as unique was checked free in the state that is handed back, and giving up
  means that every one of the ten candidates was taken when it was tried.
\<close>

lemma uniqueLoop_free:
  "uniqueLoop n rand i existsFn s = Some (Inr token, i', s') \<Longrightarrow>
     \<exists>s0. existsFn token s0 = (False, s')"
proof (induction n arbitrary: i s)
  case (Suc n)
  then obtain t j where g: "generateRawToken rand i = Some (t, j)"
    by (auto split: option.splits)
  show ?case
  proof (cases "fst (existsFn t s)")
    case True
    with Suc g show ?thesis by (auto simp: Let_def)
  next
    case False
    with Suc.prems g have "t = token" "s' = snd (existsFn t s)" by (auto simp: Let_def)
    with False show ?thesis by (metis prod.collapse)
  qed
qed simp

end
