(* ===== verification/QR_Galois.thy ===== *)
theory QR_Galois
  imports Prelude "HOL-Library.Word"
begin

text \<open>
  \<^verbatim>\<open>src/services/auth-bridge/qr.ts\<close>, first part: arithmetic in GF(2^8) by log and exp tables.
  Bytes are natural numbers; that they stay below 256 is proved. The tables are shown to list the
  powers of the generator and their logarithms, which gives the field laws of the multiplication.
\<close>

unbundle bit_operations_syntax

section \<open>The tables and the multiplication\<close>

definition GF_POLY :: nat where
  "GF_POLY = 285"

text \<open>\<^verbatim>\<open>val <<= 1; if (val >= 256) val ^= GF_POLY;\<close>\<close>

definition gf_next :: "nat \<Rightarrow> nat" where
  "gf_next v = (let w = 2 * v in if w \<ge> 256 then w XOR GF_POLY else w)"

text \<open>The table-building loop: \<open>n\<close> more iterations from index \<open>i\<close> with current value \<open>val\<close>.\<close>

fun build_tables :: "nat \<Rightarrow> nat \<Rightarrow> nat \<Rightarrow> nat list \<times> nat list \<Rightarrow> nat list \<times> nat list" where
  "build_tables 0 i val (ex, lg) = (ex, lg)"
| "build_tables (Suc n) i val (ex, lg) =
     build_tables n (Suc i) (gf_next val) (ex[i := val], lg[val := i])"

definition GF_TABLES :: "nat list \<times> nat list" where
  "GF_TABLES =
     (let (ex, lg) = build_tables 255 0 1 (replicate 256 0, replicate 256 0)
      in (ex[255 := ex ! 0], lg))"

definition GF_EXP :: "nat list" where
  "GF_EXP = fst GF_TABLES"

definition GF_LOG :: "nat list" where
  "GF_LOG = snd GF_TABLES"

definition gfMul :: "nat \<Rightarrow> nat \<Rightarrow> nat" where
  "gfMul a b = (if a = 0 \<or> b = 0 then 0 else GF_EXP ! ((GF_LOG ! a + GF_LOG ! b) mod 255))"

section \<open>Doubling is linear\<close>

lemma byte_ge_128: "(v::nat) < 256 \<Longrightarrow> 128 \<le> v \<longleftrightarrow> bit v 7"
proof -
  assume "v < 256"
  then have "v div 128 = (if 128 \<le> v then 1 else 0)" by (auto intro: div_nat_eqI)
  then show ?thesis by (simp add: bit_iff_odd)
qed

lemma xor_less_256: "(a::nat) < 256 \<Longrightarrow> b < 256 \<Longrightarrow> a XOR b < 256"
proof -
  assume "a < 256" "b < 256"
  then have "take_bit 8 a = a" "take_bit 8 b = b" by (simp_all add: take_bit_nat_eq_self)
  then have "a XOR b = take_bit 8 (a XOR b)" by (simp add: take_bit_xor)
  then show ?thesis using take_bit_nat_less_exp [of 8 "a XOR b"] by simp
qed

lemma double_xor: "2 * ((a::nat) XOR b) = (2 * a) XOR (2 * b)"
  using push_bit_xor [of 1 a b] by (simp add: push_bit_eq_mult mult.commute [of _ 2])

lemma gf_next_eq: "v < 256 \<Longrightarrow> gf_next v = 2 * v XOR (if 128 \<le> v then 285 else 0)"
  by (auto simp: gf_next_def Let_def GF_POLY_def)

lemma gf_next_xor:
  assumes "a < 256" "b < 256"
  shows "gf_next (a XOR b) = gf_next a XOR gf_next b"
proof -
  have "128 \<le> a XOR b \<longleftrightarrow> (128 \<le> a) \<noteq> (128 \<le> b)"
    using assms xor_less_256 [OF assms] by (simp add: byte_ge_128 bit_xor_iff)
  then show ?thesis
    using assms xor_less_256 [OF assms]
    by (auto simp: gf_next_eq double_xor xor.assoc xor.commute xor.left_commute)
qed

lemma gf_next_less: "v < 256 \<Longrightarrow> gf_next v < 256"
proof (cases "128 \<le> v")
  case True
  assume v: "v < 256"
  let ?u = "2 * v - 256"
  have u: "?u < 256" using v by simp
  then have "\<not> bit ?u 8" by (simp add: bit_iff_odd)
  then have "?u AND 2 ^ 8 = 0" by (simp only: and_exp_eq_0_iff_not_bit not_False_eq_True)
  then have "?u + 256 = ?u XOR 256" using disjunctive_add_eq_xor [of ?u 256] by simp
  then have "2 * v XOR 285 = (?u XOR 256) XOR 285" using True by simp
  also have "\<dots> = ?u XOR (256 XOR 285)" by (simp only: xor.assoc)
  also have "256 XOR 285 = (29::nat)" by simp
  finally have "2 * v XOR 285 = ?u XOR 29" .
  moreover have "?u XOR 29 < 256" using u by (intro xor_less_256) simp_all
  ultimately show ?thesis using True v by (simp add: gf_next_eq)
next
  case False
  then show "v < 256 \<Longrightarrow> ?thesis" by (simp add: gf_next_eq)
qed

section \<open>The tables\<close>

text \<open>The powers of the generator, by iterated doubling.\<close>

definition gf_pow :: "nat \<Rightarrow> nat" where
  "gf_pow n = (gf_next ^^ n) 1"

lemma gf_pow_less: "gf_pow n < 256"
  by (induction n) (auto simp: gf_pow_def gf_next_less)

lemma gf_pow_0 [simp]: "gf_pow 0 = 1"
  by (simp add: gf_pow_def)

lemma gf_pow_Suc: "gf_pow (Suc n) = gf_next (gf_pow n)"
  by (simp add: gf_pow_def)

lemma gf_next_eq_0: "v < 256 \<Longrightarrow> gf_next v = 0 \<longleftrightarrow> v = 0"
proof (cases "128 \<le> v")
  case True
  assume "v < 256"
  have "odd (2 * v XOR 285)" by (simp add: even_xor_iff)
  then have "2 * v XOR 285 \<noteq> 0" by (metis even_zero)
  with True \<open>v < 256\<close> show ?thesis by (simp add: gf_next_eq)
qed (simp add: gf_next_eq)

lemma gf_next_inj:
  assumes "a < 256" "b < 256" "gf_next a = gf_next b"
  shows "a = b"
proof -
  have "gf_next (a XOR b) = 0" using assms by (simp add: gf_next_xor)
  then have "a XOR b = 0" using gf_next_eq_0 [OF xor_less_256 [OF assms(1,2)]] by simp
  then show ?thesis by (metis xor.assoc xor.left_neutral xor_self_eq xor.right_neutral)
qed

lemma gf_pow_nonzero: "gf_pow n \<noteq> 0"
  by (induction n) (auto simp: gf_pow_Suc gf_next_eq_0 gf_pow_less)

lemma gf_pow_cancel: "gf_pow (i + n) = gf_pow i \<Longrightarrow> gf_pow n = 1"
proof (induction i)
  case (Suc i)
  then have "gf_pow (i + n) = gf_pow i"
    by (simp add: gf_pow_Suc) (metis gf_next_inj gf_pow_less)
  then show ?case by (rule Suc.IH)
qed simp

lemma gf_pow_add: "gf_pow m = 1 \<Longrightarrow> gf_pow (n + m) = gf_pow n"
  by (simp add: gf_pow_def funpow_add)

lemma gf_pow_mult: "gf_pow m = 1 \<Longrightarrow> gf_pow (m * q) = 1"
  by (induction q) (auto simp: gf_pow_add add.commute)

lemma gf_pow_gcd: "gf_pow a = 1 \<Longrightarrow> gf_pow b = 1 \<Longrightarrow> a \<noteq> 0 \<Longrightarrow> gf_pow (gcd a b) = 1"
proof -
  assume ab: "gf_pow a = 1" "gf_pow b = 1" "a \<noteq> 0"
  obtain x y where "a * x = b * y + gcd a b" using bezout_nat [OF ab(3), of b] by blast
  then have "gf_pow (gcd a b + b * y) = 1" using gf_pow_mult [OF ab(1), of x] by (simp add: add.commute)
  then show ?thesis using gf_pow_add [OF gf_pow_mult [OF ab(2), of y]] by simp
qed

lemma gf_next_numeral:
  "gf_next 1 = 2"
  "gf_next (numeral v) =
     (if 128 \<le> (numeral v :: nat) then numeral (Num.Bit0 v) XOR 285 else numeral (Num.Bit0 v))"
proof -
  show "gf_next 1 = 2" by (simp add: gf_next_def)
  have "numeral (Num.Bit0 v) = 2 * (numeral v :: nat)" by simp
  moreover have "256 \<le> 2 * (numeral v :: nat) \<longleftrightarrow> 128 \<le> (numeral v :: nat)" by linarith
  ultimately show "gf_next (numeral v) =
     (if 128 \<le> (numeral v :: nat) then numeral (Num.Bit0 v) XOR 285 else numeral (Num.Bit0 v))"
    unfolding gf_next_def GF_POLY_def Let_def by metis
qed

lemma gf_pow_numeral: "gf_pow (numeral k) = gf_next (gf_pow (pred_numeral k))"
  by (simp add: numeral_eq_Suc gf_pow_Suc)

lemma gf_pow_1: "gf_pow (Suc 0) = 2"
  by (simp add: gf_pow_Suc gf_next_def)

lemma gf_next_3: "gf_next (Suc (Suc (Suc 0))) = 6"
  by (simp add: gf_next_def)

lemmas gf_pow_eval = gf_pow_1 gf_next_3 gf_pow_numeral gf_next_numeral

lemma gf_pow_15: "gf_pow 15 = 38"
  by (simp add: gf_pow_eval)

lemma gf_pow_51: "gf_pow 51 = 10"
  by (simp add: gf_pow_eval)

lemma gf_pow_85: "gf_pow 85 = 214"
  by (simp add: gf_pow_eval)

lemma gf_pow_255: "gf_pow 255 = 1"
  by (simp add: gf_pow_eval)

lemma proper_divisor_255:
  assumes "g dvd (255::nat)" "g \<noteq> 255"
  shows "g dvd 85 \<or> g dvd 51 \<or> g dvd 15"
proof -
  have "g \<le> 255" using assms(1) by (auto dest: dvd_imp_le)
  moreover have "\<forall>g \<in> set [0..<255]. g dvd (255::nat) \<longrightarrow> g dvd 85 \<or> g dvd 51 \<or> g dvd 15"
    by code_simp
  ultimately show ?thesis using assms by auto
qed

lemma gf_pow_order:
  assumes "gf_pow n = 1" "n < 255"
  shows "n = 0"
proof (rule ccontr)
  assume "n \<noteq> 0"
  then have g: "gf_pow (gcd n 255) = 1" using assms(1) gf_pow_255 by (intro gf_pow_gcd)
  have "gcd n 255 \<le> n" using \<open>n \<noteq> 0\<close> by (simp add: gcd_le1_nat)
  then have "gcd n 255 \<noteq> 255" using assms(2) by linarith
  then have "gcd n 255 dvd 85 \<or> gcd n 255 dvd 51 \<or> gcd n 255 dvd 15"
    by (intro proper_divisor_255) simp
  then have "gf_pow 85 = 1 \<or> gf_pow 51 = 1 \<or> gf_pow 15 = 1"
    using gf_pow_mult [OF g] by (metis dvdE)
  then show False by (simp add: gf_pow_15 gf_pow_51 gf_pow_85)
qed

lemma gf_pow_inj: "inj_on gf_pow {..<255}"
proof (rule linorder_inj_onI)
  fix i j :: nat
  assume "i < j" and ij: "i \<in> {..<255}" "j \<in> {..<255}"
  then obtain n where n: "j = i + n" "0 < n" by (metis less_imp_add_positive)
  show "gf_pow i \<noteq> gf_pow j"
  proof
    assume "gf_pow i = gf_pow j"
    then have "gf_pow n = 1" using gf_pow_cancel [of i n] n by simp
    then show False using gf_pow_order [of n] n ij by simp
  qed
qed linarith

lemma gf_pow_surj:
  assumes "v < 256" "v \<noteq> 0"
  obtains i where "i < 255" "v = gf_pow i"
proof -
  have sub: "gf_pow ` {..<255} \<subseteq> {1..<256}"
    using gf_pow_less gf_pow_nonzero by (force simp: Suc_le_eq)
  have "card (gf_pow ` {..<255}) = card {1..<256::nat}"
    using card_image [OF gf_pow_inj] by simp
  then have "gf_pow ` {..<255} = {1..<256}" using sub by (intro card_subset_eq) auto
  then have "v \<in> gf_pow ` {..<255}" using assms by auto
  then show thesis using that by auto
qed

lemma build_tables_inv:
  assumes "build_tables n i (gf_pow i) (ex, lg) = (ex', lg')" "length ex = 256" "length lg = 256"
    and "i + n \<le> 255" "\<forall>j<i. ex ! j = gf_pow j" "\<forall>j<i. lg ! gf_pow j = j"
  shows "length ex' = 256 \<and> length lg' = 256 \<and>
    (\<forall>j<i + n. ex' ! j = gf_pow j) \<and> (\<forall>j<i + n. lg' ! gf_pow j = j)"
  using assms
proof (induction n arbitrary: i ex lg)
  case (Suc n)
  have fresh: "gf_pow j \<noteq> gf_pow i" if "j < i" for j
    using gf_pow_inj Suc.prems(4) that by (auto dest!: inj_onD)
  have "length ex' = 256 \<and> length lg' = 256 \<and>
    (\<forall>j<Suc i + n. ex' ! j = gf_pow j) \<and> (\<forall>j<Suc i + n. lg' ! gf_pow j = j)"
  proof (rule Suc.IH)
    show "build_tables n (Suc i) (gf_pow (Suc i)) (ex[i := gf_pow i], lg[gf_pow i := i]) = (ex', lg')"
      using Suc.prems(1) by (simp add: gf_pow_Suc)
    show "\<forall>j<Suc i. ex[i := gf_pow i] ! j = gf_pow j"
      using Suc.prems by (auto simp: less_Suc_eq)
    show "\<forall>j<Suc i. lg[gf_pow i := i] ! gf_pow j = j"
      using Suc.prems(3,6) fresh [symmetric] gf_pow_less by (auto simp: less_Suc_eq nth_list_update)
  qed (use Suc.prems in auto)
  then show ?case by simp
qed auto

lemma GF_TABLES_ok:
  "length GF_EXP = 256" "length GF_LOG = 256"
  "i \<le> 255 \<Longrightarrow> GF_EXP ! i = gf_pow i" "i < 255 \<Longrightarrow> GF_LOG ! gf_pow i = i"
proof -
  obtain ex lg where t: "build_tables 255 0 1 (replicate 256 0, replicate 256 0) = (ex, lg)"
    by fastforce
  then have "build_tables 255 0 (gf_pow 0) (replicate 256 0, replicate 256 0) = (ex, lg)"
    by (simp only: gf_pow_0)
  note inv = build_tables_inv [OF this, simplified]
  have e: "GF_EXP = ex[255 := ex ! 0]" "GF_LOG = lg"
    using t by (simp_all add: GF_EXP_def GF_LOG_def GF_TABLES_def)
  show "length GF_EXP = 256" "length GF_LOG = 256" by (simp_all only: e length_list_update inv)
  show "i < 255 \<Longrightarrow> GF_LOG ! gf_pow i = i" using inv e by simp
  show "GF_EXP ! i = gf_pow i" if "i \<le> 255"
  proof (cases "i = 255")
    case True
    have "GF_EXP ! 255 = gf_pow 0" using inv by (simp add: e)
    then show ?thesis using True gf_pow_255 by simp
  next
    case False
    then show ?thesis using inv that by (simp add: e)
  qed
qed

lemma gf_pow_mod: "gf_pow (n mod 255) = gf_pow n"
proof -
  have "gf_pow n = gf_pow (n mod 255 + 255 * (n div 255))" by simp
  also have "\<dots> = gf_pow (n mod 255)" by (intro gf_pow_add gf_pow_mult gf_pow_255)
  finally show ?thesis by simp
qed

section \<open>The field laws\<close>

lemma gfMul_pow: "i < 255 \<Longrightarrow> j < 255 \<Longrightarrow> gfMul (gf_pow i) (gf_pow j) = gf_pow (i + j)"
  by (simp add: gfMul_def gf_pow_nonzero GF_TABLES_ok gf_pow_mod)

lemma gfMul_pow': "gfMul (gf_pow i) (gf_pow j) = gf_pow (i + j)"
  using gfMul_pow [of "i mod 255" "j mod 255"] by (simp add: gf_pow_mod) (metis gf_pow_mod mod_add_eq)

lemma gfMul_0 [simp]: "gfMul 0 b = 0" "gfMul a 0 = 0"
  by (simp_all add: gfMul_def)

lemma gfMul_commute: "gfMul a b = gfMul b a"
  by (simp add: gfMul_def add.commute)

lemma gf_cases:
  assumes "v < 256"
  obtains "v = 0" | i where "v = gf_pow i"
  using gf_pow_surj [OF assms] by metis

lemma gfMul_less: "a < 256 \<Longrightarrow> b < 256 \<Longrightarrow> gfMul a b < 256"
  by (elim gf_cases) (simp_all add: gfMul_pow' gf_pow_less)

lemma gfMul_1: "a < 256 \<Longrightarrow> gfMul 1 a = a" "a < 256 \<Longrightarrow> gfMul a 1 = a"
proof -
  show "a < 256 \<Longrightarrow> gfMul 1 a = a"
    by (elim gf_cases) (use gfMul_pow' [of 0] in simp_all)
  then show "a < 256 \<Longrightarrow> gfMul a 1 = a" by (simp add: gfMul_commute)
qed

lemma gfMul_assoc: "a < 256 \<Longrightarrow> b < 256 \<Longrightarrow> c < 256 \<Longrightarrow> gfMul (gfMul a b) c = gfMul a (gfMul b c)"
  by (elim gf_cases) (simp_all add: gfMul_pow' add.assoc)

lemma funpow_next_less: "b < 256 \<Longrightarrow> (gf_next ^^ i) b < 256"
  by (induction i) (auto simp: gf_next_less)

lemma funpow_next_xor:
  "a < 256 \<Longrightarrow> b < 256 \<Longrightarrow> (gf_next ^^ i) (a XOR b) = (gf_next ^^ i) a XOR (gf_next ^^ i) b"
  by (induction i) (auto simp: gf_next_xor funpow_next_less)

lemma gfMul_next: "b < 256 \<Longrightarrow> gfMul (gf_pow i) b = (gf_next ^^ i) b"
proof (elim gf_cases)
  show "b = 0 \<Longrightarrow> ?thesis" by (induction i) (auto simp: gf_next_def)
  have "gf_pow (i + j) = (gf_next ^^ i) (gf_pow j)" for j by (simp add: gf_pow_def funpow_add)
  then show "b = gf_pow j \<Longrightarrow> ?thesis" for j by (simp add: gfMul_pow')
qed

lemma gfMul_xor:
  assumes "a < 256" "b < 256" "c < 256"
  shows "gfMul a (b XOR c) = gfMul a b XOR gfMul a c"
  using assms(1) by (rule gf_cases) (use assms in \<open>simp_all add: gfMul_next funpow_next_xor xor_less_256\<close>)

lemma gfMul_xor_left:
  "a < 256 \<Longrightarrow> b < 256 \<Longrightarrow> c < 256 \<Longrightarrow> gfMul (b XOR c) a = gfMul b a XOR gfMul c a"
  by (simp add: gfMul_xor gfMul_commute [of _ a])

end
