(* ===== verification/QR_Reed_Solomon.thy ===== *)
theory QR_Reed_Solomon
  imports QR_Galois
begin

text \<open>
  \<^verbatim>\<open>src/services/auth-bridge/qr.ts\<close>, second part: polynomial multiplication, the generator polynomial
  and the Reed-Solomon encoder by long division. The main result is that the encoder is right: the
  block of data and error correction codewords vanishes at every root of the generator polynomial.
\<close>

section \<open>The encoder\<close>

text \<open>\<^verbatim>\<open>for (j...) m[i + j] ^= f(j)\<close>: the inner loop of both polynomial routines.\<close>

definition xorAt :: "nat \<Rightarrow> (nat \<Rightarrow> nat) \<Rightarrow> nat \<Rightarrow> nat list \<Rightarrow> nat list" where
  "xorAt i f n m = fold (\<lambda>j m. m[i + j := (m ! (i + j)) XOR f j]) [0..<n] m"

definition polyMul :: "nat list \<Rightarrow> nat list \<Rightarrow> nat list" where
  "polyMul a b =
     fold (\<lambda>i result. xorAt i (\<lambda>j. gfMul (a ! i) (b ! j)) (length b) result)
       [0..<length a] (replicate (length a + length b - 1) 0)"

definition rsGenerator :: "nat \<Rightarrow> nat list" where
  "rsGenerator ecCount = fold (\<lambda>i gen. polyMul gen [1, GF_EXP ! i]) [0..<ecCount] [1]"

definition rsDivide :: "nat list \<Rightarrow> nat \<Rightarrow> nat list \<Rightarrow> nat list" where
  "rsDivide gen n msg =
     fold (\<lambda>i msg. let coeff = msg ! i
           in if coeff \<noteq> 0 then xorAt i (\<lambda>j. gfMul (gen ! j) coeff) (length gen) msg else msg)
       [0..<n] msg"

definition rsEncode :: "nat list \<Rightarrow> nat \<Rightarrow> nat list" where
  "rsEncode data ecCount =
     drop (length data)
       (rsDivide (rsGenerator ecCount) (length data) (data @ replicate ecCount 0))"

section \<open>Polynomials\<close>

text \<open>
  A polynomial is the list of its coefficients, the highest first, as in the code; its value is
  computed by Horner's rule. \<open>xors\<close> is the sum of two polynomials of the same length.
\<close>

definition bytes :: "nat list \<Rightarrow> bool" where
  "bytes xs \<longleftrightarrow> (\<forall>x \<in> set xs. x < 256)"

lemma bytes_simps [simp]:
  "bytes []" "bytes (x # xs) \<longleftrightarrow> x < 256 \<and> bytes xs" "bytes (xs @ ys) \<longleftrightarrow> bytes xs \<and> bytes ys"
  "bytes (replicate n 0)"
  by (auto simp: bytes_def)

lemma bytes_take: "bytes xs \<Longrightarrow> bytes (take n xs)" "bytes xs \<Longrightarrow> bytes (drop n xs)"
  by (auto simp: bytes_def dest: in_set_takeD in_set_dropD)

lemma bytes_nthD: "bytes xs \<Longrightarrow> i < length xs \<Longrightarrow> xs ! i < 256"
  by (simp add: bytes_def)

fun pevalFrom :: "nat \<Rightarrow> nat list \<Rightarrow> nat \<Rightarrow> nat" where
  "pevalFrom acc [] z = acc"
| "pevalFrom acc (c # cs) z = pevalFrom (gfMul acc z XOR c) cs z"

definition peval :: "nat list \<Rightarrow> nat \<Rightarrow> nat" where
  "peval cs z = pevalFrom 0 cs z"

definition xors :: "nat list \<Rightarrow> nat list \<Rightarrow> nat list" where
  "xors xs ys = map2 (XOR) xs ys"

lemma length_xors [simp]: "length (xors xs ys) = min (length xs) (length ys)"
  by (simp add: xors_def)

lemma nth_xors [simp]: "i < length xs \<Longrightarrow> i < length ys \<Longrightarrow> xors xs ys ! i = (xs ! i) XOR (ys ! i)"
  by (simp add: xors_def)

lemma bytes_nth: "bytes xs \<longleftrightarrow> (\<forall>i < length xs. xs ! i < 256)"
  by (simp add: bytes_def all_set_conv_all_nth)

lemma bytes_xors: "bytes xs \<Longrightarrow> bytes ys \<Longrightarrow> bytes (xors xs ys)"
  by (auto simp: bytes_nth xor_less_256)

lemma pevalFrom_append: "pevalFrom acc (xs @ ys) z = pevalFrom (pevalFrom acc xs z) ys z"
  by (induction xs arbitrary: acc) auto

lemma pevalFrom_less: "acc < 256 \<Longrightarrow> bytes xs \<Longrightarrow> z < 256 \<Longrightarrow> pevalFrom acc xs z < 256"
  by (induction xs arbitrary: acc) (auto simp: gfMul_less xor_less_256)

lemma peval_less: "bytes xs \<Longrightarrow> z < 256 \<Longrightarrow> peval xs z < 256"
  by (simp add: peval_def pevalFrom_less)

lemma pevalFrom_xors:
  "length xs = length ys \<Longrightarrow> bytes xs \<Longrightarrow> bytes ys \<Longrightarrow> z < 256 \<Longrightarrow> a < 256 \<Longrightarrow> b < 256 \<Longrightarrow>
   pevalFrom (a XOR b) (xors xs ys) z = pevalFrom a xs z XOR pevalFrom b ys z"
proof (induction xs ys arbitrary: a b rule: list_induct2)
  case (Cons x xs y ys)
  have "(gfMul (a XOR b) z XOR (x XOR y)) = (gfMul a z XOR x) XOR (gfMul b z XOR y)"
    using Cons.prems by (simp add: gfMul_xor_left) (simp only: xor.assoc xor.commute xor.left_commute)
  then show ?case
    using Cons.prems Cons.IH [of "gfMul a z XOR x" "gfMul b z XOR y"]
    by (simp add: xors_def gfMul_less xor_less_256)
qed (simp add: xors_def)

lemma peval_xors:
  "length xs = length ys \<Longrightarrow> bytes xs \<Longrightarrow> bytes ys \<Longrightarrow> z < 256 \<Longrightarrow>
   peval (xors xs ys) z = peval xs z XOR peval ys z"
  using pevalFrom_xors [of xs ys z 0 0] by (simp add: peval_def)

lemma peval_zeros_append: "peval (replicate i 0 @ xs) z = peval xs z"
  by (induction i) (simp_all add: peval_def)

lemma pevalFrom_scale:
  "c < 256 \<Longrightarrow> bytes xs \<Longrightarrow> z < 256 \<Longrightarrow> acc < 256 \<Longrightarrow>
   pevalFrom (gfMul c acc) (map (gfMul c) xs) z = gfMul c (pevalFrom acc xs z)"
  by (induction xs arbitrary: acc) (auto simp: gfMul_xor gfMul_assoc gfMul_less xor_less_256 simp flip: gfMul_xor)

lemma peval_scale: "c < 256 \<Longrightarrow> bytes xs \<Longrightarrow> z < 256 \<Longrightarrow> peval (map (gfMul c) xs) z = gfMul c (peval xs z)"
  using pevalFrom_scale [of c xs z 0] by (simp add: peval_def)

text \<open>The value of \<open>x\<close> shifted by \<open>k\<close> places.\<close>

definition pshift :: "nat \<Rightarrow> nat \<Rightarrow> nat \<Rightarrow> nat" where
  "pshift z k x = pevalFrom x (replicate k 0) z"

lemma pshift_simps [simp]: "pshift z 0 x = x" "pshift z (Suc k) x = pshift z k (gfMul x z)"
  by (simp_all add: pshift_def)

lemma peval_append_zeros: "peval (xs @ replicate k 0) z = pshift z k (peval xs z)"
  by (simp add: peval_def pevalFrom_append pshift_def)

lemma pshift_0 [simp]: "pshift z k 0 = 0"
  by (induction k) auto

lemma pshift_mult: "c < 256 \<Longrightarrow> x < 256 \<Longrightarrow> z < 256 \<Longrightarrow> pshift z k (gfMul c x) = gfMul c (pshift z k x)"
  by (induction k arbitrary: x) (auto simp: gfMul_assoc gfMul_less)

lemma pshift_less: "x < 256 \<Longrightarrow> z < 256 \<Longrightarrow> pshift z k x < 256"
  by (simp add: pshift_def pevalFrom_less)

section \<open>Multiplying polynomials\<close>

text \<open>The inner loop adds the polynomial \<open>f 0, \<dots>, f (n - 1)\<close>, shifted to position \<open>i\<close>.\<close>

definition polyRow :: "nat \<Rightarrow> nat list \<Rightarrow> nat \<Rightarrow> nat list" where
  "polyRow i ys l = replicate i 0 @ ys @ replicate (l - i - length ys) 0"

lemma length_polyRow [simp]: "i + length ys \<le> l \<Longrightarrow> length (polyRow i ys l) = l"
  by (simp add: polyRow_def)

lemma bytes_polyRow: "bytes ys \<Longrightarrow> bytes (polyRow i ys l)"
  by (auto simp: polyRow_def)

lemma peval_polyRow: "peval (polyRow i ys l) z = pshift z (l - i - length ys) (peval ys z)"
  by (simp add: polyRow_def peval_zeros_append peval_append_zeros)

lemma nth_row:
  "k < l \<Longrightarrow> i + length ys \<le> l \<Longrightarrow>
   polyRow i ys l ! k = (if i \<le> k \<and> k < i + length ys then ys ! (k - i) else 0)"
  by (auto simp: polyRow_def nth_append)

lemma xorAt_Suc: "xorAt i f (Suc n) m = (xorAt i f n m)[i + n := (xorAt i f n m ! (i + n)) XOR f n]"
  by (simp add: xorAt_def)

lemma length_xorAt [simp]: "length (xorAt i f n m) = length m"
  by (induction n) (simp_all add: xorAt_Suc, simp add: xorAt_def)

lemma nth_xorAt:
  "i + n \<le> length m \<Longrightarrow> k < length m \<Longrightarrow>
   xorAt i f n m ! k = (if i \<le> k \<and> k < i + n then (m ! k) XOR f (k - i) else m ! k)"
proof (induction n)
  case (Suc n)
  then show ?case by (auto simp: xorAt_Suc nth_list_update)
qed (simp add: xorAt_def)

lemma xorAt_row:
  "i + n \<le> length m \<Longrightarrow> xorAt i f n m = xors m (polyRow i (map f [0..<n]) (length m))"
  by (rule nth_equalityI) (auto simp: nth_xorAt nth_row)

lemma xorAt_scale:
  "i + length g \<le> length m \<Longrightarrow>
   xorAt i (\<lambda>j. gfMul c (g ! j)) (length g) m = xors m (polyRow i (map (gfMul c) g) (length m))"
proof -
  have "map (\<lambda>j. gfMul c (g ! j)) [0..<length g] = map (gfMul c) g"
    by (rule nth_equalityI) auto
  then show "i + length g \<le> length m \<Longrightarrow> ?thesis" by (simp add: xorAt_row)
qed

lemma bytes_scale: "c < 256 \<Longrightarrow> bytes g \<Longrightarrow> bytes (map (gfMul c) g)"
  by (auto simp: bytes_def gfMul_less)

text \<open>The multiplication after \<open>n\<close> rows.\<close>

definition polyRows :: "nat list \<Rightarrow> nat list \<Rightarrow> nat \<Rightarrow> nat list" where
  "polyRows a b n =
     fold (\<lambda>i result. xorAt i (\<lambda>j. gfMul (a ! i) (b ! j)) (length b) result)
       [0..<n] (replicate (length a + length b - 1) 0)"

lemma polyRows_0: "polyRows a b 0 = replicate (length a + length b - 1) 0"
  by (simp add: polyRows_def)

lemma length_polyRows [simp]: "length (polyRows a b n) = length a + length b - 1"
  by (induction n) (simp_all add: polyRows_def)

lemma polyRows_Suc:
  "n < length a \<Longrightarrow> polyRows a b (Suc n) =
   xors (polyRows a b n) (polyRow n (map (gfMul (a ! n)) b) (length a + length b - 1))"
proof -
  assume "n < length a"
  then have "n + length b \<le> length (polyRows a b n)" by simp
  then show ?thesis
    using xorAt_scale [of n b "polyRows a b n" "a ! n"] by (simp only: length_polyRows) (simp add: polyRows_def)
qed

lemma bytes_polyRows: "bytes a \<Longrightarrow> bytes b \<Longrightarrow> n \<le> length a \<Longrightarrow> bytes (polyRows a b n)"
proof (induction n)
  case (Suc n)
  then show ?case
    by (simp only: polyRows_Suc Suc_le_eq) (intro bytes_xors bytes_polyRow bytes_scale; simp add: bytes_nthD)
qed (simp add: polyRows_0)

lemma peval_take_Suc:
  assumes "n < length a" "bytes a" "z < 256"
  shows "peval (take (Suc n) a @ replicate (length a - Suc n) 0) z =
    peval (take n a @ replicate (length a - n) 0) z XOR pshift z (length a - Suc n) (a ! n)"
proof -
  let ?k = "length a - Suc n"
  have "take (Suc n) a @ replicate ?k 0 =
    xors (take n a @ replicate (length a - n) 0) (polyRow n [a ! n] (length a))"
  proof (rule nth_equalityI)
    fix i
    assume "i < length (take (Suc n) a @ replicate ?k 0)"
    then have "i < length a" using assms(1) by simp
    then show "(take (Suc n) a @ replicate ?k 0) ! i =
        xors (take n a @ replicate (length a - n) 0) (polyRow n [a ! n] (length a)) ! i"
      using assms(1) by (auto simp: nth_append nth_row less_Suc_eq)
  qed (use assms(1) in simp)
  moreover have "peval [a ! n] z = a ! n" by (simp add: peval_def)
  moreover have "bytes (take n a @ replicate (length a - n) 0)"
    using assms(2) by (simp add: bytes_take)
  moreover have "bytes (polyRow n [a ! n] (length a))"
    using assms by (intro bytes_polyRow) (simp add: bytes_nthD)
  ultimately show ?thesis using assms(1,3) by (simp add: peval_xors peval_polyRow)
qed

lemma peval_polyRows:
  assumes "n \<le> length a" "bytes a" "bytes b" "z < 256" "b \<noteq> []"
  shows "peval (polyRows a b n) z =
    gfMul (peval (take n a @ replicate (length a - n) 0) z) (peval b z)"
  using assms(1)
proof (induction n)
  case 0
  then show ?case
    using peval_zeros_append [of "length a" "[]"] peval_zeros_append [of "length a + length b - 1" "[]"]
    by (simp add: polyRows_0 peval_def)
next
  case (Suc n)
  let ?A = "peval (take n a @ replicate (length a - n) 0) z" and ?k = "length a - Suc n"
  have an: "a ! n < 256" using Suc.prems assms(2) by (simp add: bytes_nthD)
  have A: "?A < 256" using assms by (intro peval_less) (simp_all add: bytes_take)
  have B: "peval b z < 256" using assms by (intro peval_less)
  have k: "length a + length b - 1 - n - length b = ?k" using assms(5) Suc.prems by (cases b) auto
  have "peval (polyRows a b (Suc n)) z =
      peval (polyRows a b n) z XOR pshift z ?k (gfMul (a ! n) (peval b z))"
    using Suc.prems assms k an bytes_polyRows [of a b n]
    by (simp add: polyRows_Suc peval_xors bytes_polyRow bytes_scale peval_polyRow peval_scale)
  also have "\<dots> = gfMul ?A (peval b z) XOR gfMul (pshift z ?k (a ! n)) (peval b z)"
  proof -
    have "pshift z ?k (gfMul (a ! n) (peval b z)) = gfMul (pshift z ?k (a ! n)) (peval b z)"
      using pshift_mult [OF B an assms(4), of ?k] by (simp only: gfMul_commute)
    then show ?thesis using Suc.IH Suc.prems by (simp only: Suc_leD)
  qed
  also have "\<dots> = gfMul (?A XOR pshift z ?k (a ! n)) (peval b z)"
    using A B an assms(4) by (simp add: gfMul_xor_left pshift_less)
  finally show ?case using Suc.prems assms by (simp add: peval_take_Suc)
qed

lemma polyMul_rows: "polyMul a b = polyRows a b (length a)"
  by (simp add: polyMul_def polyRows_def)

lemma length_polyMul [simp]: "length (polyMul a b) = length a + length b - 1"
  by (simp add: polyMul_rows)

lemma bytes_polyMul: "bytes a \<Longrightarrow> bytes b \<Longrightarrow> bytes (polyMul a b)"
  by (simp add: polyMul_rows bytes_polyRows)

lemma peval_polyMul:
  "bytes a \<Longrightarrow> bytes b \<Longrightarrow> z < 256 \<Longrightarrow> b \<noteq> [] \<Longrightarrow>
   peval (polyMul a b) z = gfMul (peval a z) (peval b z)"
  by (simp add: polyMul_rows peval_polyRows)

lemma polyRows_lead:
  "0 < n \<Longrightarrow> n \<le> length a \<Longrightarrow> b \<noteq> [] \<Longrightarrow> polyRows a b n ! 0 = gfMul (a ! 0) (b ! 0)"
proof (induction n)
  case (Suc n)
  then have n: "n < length a" "0 < length a" "0 < length b" by auto
  then have "0 < length a + length b - 1" by linarith
  note n = n this
  show ?case
  proof (cases n)
    case 0
    then show ?thesis using n Suc.prems by (simp add: polyRows_Suc nth_row polyRows_0)
  next
    case (Suc m)
    then show ?thesis using n Suc.IH Suc.prems by (simp add: polyRows_Suc nth_row)
  qed
qed simp

lemma polyMul_lead: "a \<noteq> [] \<Longrightarrow> b \<noteq> [] \<Longrightarrow> polyMul a b ! 0 = gfMul (a ! 0) (b ! 0)"
  by (simp add: polyMul_rows polyRows_lead)

section \<open>The generator polynomial\<close>

lemma rsGenerator_simps: "rsGenerator 0 = [1]" "rsGenerator (Suc n) = polyMul (rsGenerator n) [1, GF_EXP ! n]"
  by (simp_all add: rsGenerator_def)

lemma GF_EXP_less: "n \<le> 255 \<Longrightarrow> GF_EXP ! n < 256"
  by (simp add: GF_TABLES_ok gf_pow_less)

lemma length_rsGenerator [simp]: "length (rsGenerator n) = Suc n"
  by (induction n) (simp_all add: rsGenerator_simps)

lemma bytes_rsGenerator: "n \<le> 256 \<Longrightarrow> bytes (rsGenerator n)"
  by (induction n) (simp_all add: rsGenerator_simps bytes_polyMul GF_EXP_less)

lemma rsGenerator_monic: "n \<le> 256 \<Longrightarrow> rsGenerator n ! 0 = 1"
proof (induction n)
  case (Suc n)
  have "rsGenerator n \<noteq> []" by (metis length_rsGenerator list.size(3) nat.distinct(1))
  then show ?case using Suc gfMul_1(1) [of 1] by (simp add: rsGenerator_simps polyMul_lead)
qed (simp add: rsGenerator_simps)

lemma rsGenerator_roots: "i < n \<Longrightarrow> n \<le> 256 \<Longrightarrow> peval (rsGenerator n) (GF_EXP ! i) = 0"
proof (induction n)
  case (Suc n)
  let ?z = "GF_EXP ! i"
  have z: "?z < 256" using Suc.prems by (intro GF_EXP_less) simp
  have e: "peval [1, GF_EXP ! n] ?z = ?z XOR GF_EXP ! n"
    using z gfMul_1 by (simp add: peval_def)
  have "peval (rsGenerator (Suc n)) ?z = gfMul (peval (rsGenerator n) ?z) (?z XOR GF_EXP ! n)"
    using Suc.prems z by (simp add: rsGenerator_simps peval_polyMul bytes_rsGenerator GF_EXP_less flip: e)
  then show ?case using Suc by (cases "i = n") simp_all
qed simp

section \<open>The long division\<close>

text \<open>A division step subtracts a multiple of the generator and clears the leading coefficient.\<close>

definition rsStep :: "nat list \<Rightarrow> nat \<Rightarrow> nat list \<Rightarrow> nat list" where
  "rsStep gen i msg =
     (let coeff = msg ! i
      in if coeff \<noteq> 0 then xorAt i (\<lambda>j. gfMul (gen ! j) coeff) (length gen) msg else msg)"

lemma rsDivide_simps:
  "rsDivide gen 0 msg = msg" "rsDivide gen (Suc n) msg = rsStep gen n (rsDivide gen n msg)"
  by (simp_all add: rsDivide_def rsStep_def)

lemma rsStep_xors:
  "i + length gen \<le> length msg \<Longrightarrow>
   rsStep gen i msg = xors msg (polyRow i (map (gfMul (msg ! i)) gen) (length msg))"
proof -
  assume l: "i + length gen \<le> length msg"
  have "map (gfMul 0) gen = replicate (length gen) 0" by (rule nth_equalityI) simp_all
  then have "msg = xors msg (polyRow i (map (gfMul 0) gen) (length msg))"
    using l by (intro nth_equalityI) (auto simp: nth_row)
  then show ?thesis
    using xorAt_scale [OF l] by (auto simp: rsStep_def Let_def gfMul_commute [of _ "msg ! i"])
qed

lemma length_rsDivide [simp]: "length (rsDivide gen n msg) = length msg"
  by (induction n) (simp_all add: rsDivide_simps rsStep_def Let_def)

lemma bytes_rsStep:
  "bytes gen \<Longrightarrow> bytes msg \<Longrightarrow> gen \<noteq> [] \<Longrightarrow> i + length gen \<le> length msg \<Longrightarrow> bytes (rsStep gen i msg)"
proof -
  assume *: "bytes gen" "bytes msg" "gen \<noteq> []" "i + length gen \<le> length msg"
  then have "i < length msg" by (cases gen) simp_all
  then show ?thesis using * by (simp add: rsStep_xors bytes_xors bytes_polyRow bytes_scale bytes_nthD)
qed

lemma peval_rsStep:
  assumes "bytes gen" "bytes msg" "gen \<noteq> []" "i + length gen \<le> length msg" "z < 256" "peval gen z = 0"
  shows "peval (rsStep gen i msg) z = peval msg z"
proof -
  have c: "msg ! i < 256" using assms by (cases gen) (simp_all add: bytes_nthD)
  have "peval (polyRow i (map (gfMul (msg ! i)) gen) (length msg)) z = 0"
    using assms c by (simp add: peval_polyRow peval_scale)
  then show ?thesis using assms c by (simp add: rsStep_xors peval_xors bytes_polyRow bytes_scale)
qed

lemma rsStep_clears:
  assumes "bytes msg" "gen \<noteq> []" "i + length gen \<le> length msg" "gen ! 0 = 1"
  shows "rsStep gen i msg ! i = 0" "k < i \<Longrightarrow> rsStep gen i msg ! k = msg ! k"
proof -
  have i: "i < length msg" using assms by (cases gen) simp_all
  have "gfMul (msg ! i) 1 = msg ! i" using assms i by (intro gfMul_1) (simp add: bytes_nthD)
  then show "rsStep gen i msg ! i = 0" using assms i by (simp add: rsStep_xors nth_row)
  show "k < i \<Longrightarrow> rsStep gen i msg ! k = msg ! k" using assms i by (simp add: rsStep_xors nth_row)
qed

lemma rsDivide_inv:
  assumes "bytes gen" "bytes msg" "gen ! 0 = 1" "length msg = l + length gen - 1" "gen \<noteq> []" "n \<le> l"
  shows "bytes (rsDivide gen n msg) \<and> (\<forall>k<n. rsDivide gen n msg ! k = 0)"
  using assms(6)
proof (induction n)
  case (Suc n)
  have l: "n + length gen \<le> length (rsDivide gen n msg)" using Suc.prems assms(4,5) by (cases gen) simp_all
  show ?case
    using Suc assms l rsStep_clears [OF _ assms(5) l assms(3)] bytes_rsStep [OF assms(1) _ assms(5) l]
    by (auto simp: rsDivide_simps less_Suc_eq)
qed (simp add: rsDivide_simps assms(2))

lemma peval_rsDivide:
  assumes "bytes gen" "bytes msg" "gen ! 0 = 1" "length msg = l + length gen - 1" "gen \<noteq> []" "n \<le> l"
    and "z < 256" "peval gen z = 0"
  shows "peval (rsDivide gen n msg) z = peval msg z"
  using assms(6)
proof (induction n)
  case (Suc n)
  have l: "n + length gen \<le> length (rsDivide gen n msg)" using Suc.prems assms(4,5) by (cases gen) simp_all
  show ?case
    using Suc rsDivide_inv [OF assms(1-5), of n] peval_rsStep [OF assms(1) _ assms(5) l assms(7,8)]
    by (simp add: rsDivide_simps)
qed (simp add: rsDivide_simps)

section \<open>The code words are multiples of the generator\<close>

lemma length_rsEncode [simp]: "length (rsEncode data ecCount) = ecCount"
  by (simp add: rsEncode_def)

lemma rsEncode_bytes: "bytes data \<Longrightarrow> ecCount \<le> 256 \<Longrightarrow> bytes (rsEncode data ecCount)"
  using rsDivide_inv [of "rsGenerator ecCount" "data @ replicate ecCount 0" "length data" "length data"]
  by (simp add: rsEncode_def bytes_take bytes_rsGenerator rsGenerator_monic flip: length_0_conv)

lemma rs_syndromes:
  assumes "bytes data" "ecCount \<le> 255" "i < ecCount"
  shows "peval (data @ rsEncode data ecCount) (GF_EXP ! i) = 0"
proof -
  let ?g = "rsGenerator ecCount" and ?n = "length data"
  let ?m = "data @ replicate ecCount 0"
  let ?r = "rsDivide ?g ?n ?m"
  have g: "bytes ?g" "?g ! 0 = 1" "?g \<noteq> []" "length ?m = ?n + length ?g - 1" "bytes ?m"
    using assms by (simp_all add: bytes_rsGenerator rsGenerator_monic flip: length_0_conv)
  have inv: "bytes ?r \<and> (\<forall>k<?n. ?r ! k = 0)" by (rule rsDivide_inv [OF g(1,5,2,4,3) le_refl])
  have r: "?r = replicate ?n 0 @ rsEncode data ecCount"
    by (rule nth_equalityI) (use inv in \<open>auto simp: nth_append rsEncode_def\<close>)
  let ?z = "GF_EXP ! i"
  have z: "?z < 256" using assms by (intro GF_EXP_less) simp
  have "peval ?r ?z = peval ?m ?z"
    using assms by (intro peval_rsDivide [OF g(1,5,2,4,3) le_refl z] rsGenerator_roots) simp_all
  moreover have "data @ rsEncode data ecCount = xors ?m ?r"
    by (simp only: r) (rule nth_equalityI, auto simp: nth_append)
  ultimately show ?thesis using g z inv by (simp add: peval_xors)
qed

text \<open>
  Reed-Solomon encoding is right: for every block of data bytes, the block followed by its
  \<open>ecCount\<close> error correction codewords, read as a polynomial, vanishes at the roots
  \<open>\<alpha>^0, \<dots>, \<alpha>^(ecCount - 1)\<close>, so all syndromes a decoder computes are zero; and exactly
  \<open>ecCount\<close> bytes are produced.
\<close>

theorem rs_syndromes_vanish:
  assumes "bytes data" "ecCount \<le> 255"
  shows "length (rsEncode data ecCount) = ecCount \<and> bytes (rsEncode data ecCount) \<and>
    (\<forall>i < ecCount. peval (data @ rsEncode data ecCount) (GF_EXP ! i) = 0)"
  using assms by (simp add: rs_syndromes rsEncode_bytes)

theorem rs_syndromes_vanish_witness:
  "length (rsEncode [16, 32] 3) = 3 \<and> bytes (rsEncode [16, 32] 3) \<and>
    list_all (\<lambda>i. peval ([16, 32] @ rsEncode [16, 32] 3) (GF_EXP ! i) = 0) [0, 1, 2]"
  using rs_syndromes_vanish [of "[16, 32]" 3] by simp

end
