(* ===== verification/QR_Codewords.thy ===== *)
theory QR_Codewords
  imports QR_Reed_Solomon
begin

text \<open>
  \<^verbatim>\<open>src/services/auth-bridge/qr.ts\<close>, third part: the version tables, the choice of the version, the bit
  stream of the data and the interleaved codewords. A decoder, written as its own definition, reads
  back what the encoder writes, and every interleaved block is a Reed-Solomon code word.
\<close>

section \<open>Tables\<close>

record version_info =
  totalCW :: nat
  ecPerBlock :: nat
  blocks :: nat
  dataCW :: nat

text \<open>The tables are objects with the keys 1 to 4; other keys are \<^verbatim>\<open>undefined\<close>.\<close>

definition VERSION_TABLE :: "nat \<Rightarrow> version_info option" where
  "VERSION_TABLE = map_of
     [(1, \<lparr>totalCW = 26, ecPerBlock = 10, blocks = 1, dataCW = 16\<rparr>),
      (2, \<lparr>totalCW = 44, ecPerBlock = 16, blocks = 1, dataCW = 28\<rparr>),
      (3, \<lparr>totalCW = 70, ecPerBlock = 26, blocks = 1, dataCW = 44\<rparr>),
      (4, \<lparr>totalCW = 100, ecPerBlock = 18, blocks = 2, dataCW = 64\<rparr>)]"

definition BYTE_CAPACITY :: "nat \<Rightarrow> nat option" where
  "BYTE_CAPACITY = map_of [(1, 14), (2, 26), (3, 42), (4, 62)]"

definition versionSize :: "nat \<Rightarrow> nat" where
  "versionSize version = 17 + version * 4"

definition charCountBits :: "nat \<Rightarrow> nat" where
  "charCountBits version = (if version \<le> 9 then 8 else 16)"

definition ALIGNMENT_POSITIONS :: "nat \<Rightarrow> nat list option" where
  "ALIGNMENT_POSITIONS = map_of [(1, []), (2, [6, 18]), (3, [6, 22]), (4, [6, 26])]"

section \<open>Encoding the data\<close>

datatype qr_error = DataTooLong nat

text \<open>The loop over the versions; a comparison with \<^verbatim>\<open>undefined\<close> is false.\<close>

definition selectVersion :: "nat \<Rightarrow> qr_error + nat" where
  "selectVersion dataLength =
     (case find (\<lambda>v. case BYTE_CAPACITY v of Some c \<Rightarrow> dataLength \<le> c | None \<Rightarrow> False) [1..<5] of
        Some v \<Rightarrow> Inr v
      | None \<Rightarrow> Inl (DataTooLong dataLength))"

definition pushBits :: "nat \<Rightarrow> nat \<Rightarrow> nat list \<Rightarrow> nat list" where
  "pushBits value n bits = bits @ map (\<lambda>i. drop_bit i value mod 2) (rev [0..<n])"

function padToByte :: "nat list \<Rightarrow> nat list" where
  "padToByte bits = (if length bits mod 8 \<noteq> 0 then padToByte (bits @ [0]) else bits)"
  by auto
termination
  by (relation "measure (\<lambda>bits. nat (- int (length bits) mod 8))") (simp, simp, presburger)

declare padToByte.simps [simp del]

definition padBytes :: "nat list" where
  "padBytes = [236, 17]"

function padFill :: "nat \<Rightarrow> nat \<Rightarrow> nat list \<Rightarrow> nat list" where
  "padFill tot padIdx bits =
     (if length bits < tot then padFill tot (Suc padIdx) (pushBits (padBytes ! (padIdx mod 2)) 8 bits)
      else bits)"
  by auto
termination
  by (relation "measure (\<lambda>(tot, padIdx, bits). tot - length bits)") (auto simp: pushBits_def)

declare padFill.simps [simp del]

definition byteAt :: "nat list \<Rightarrow> nat \<Rightarrow> nat" where
  "byteAt bits i =
     fold (\<lambda>j byte. (2 * byte) OR (if i + j < length bits then bits ! (i + j) else 0)) [0..<8] 0"

definition bitsToBytes :: "nat list \<Rightarrow> nat list" where
  "bitsToBytes bits = map (\<lambda>k. byteAt bits (8 * k)) [0..<(length bits + 7) div 8]"

text \<open>\<open>None\<close> is the type error of a version without table entry.\<close>

definition encodeData :: "nat list \<Rightarrow> nat \<Rightarrow> nat list option" where
  "encodeData data version =
     (case VERSION_TABLE version of
        None \<Rightarrow> None
      | Some info \<Rightarrow>
          let bits = pushBits 4 4 [];
              bits = pushBits (length data) (charCountBits version) bits;
              bits = fold (\<lambda>byte. pushBits byte 8) data bits;
              totalDataBits = dataCW info * 8;
              terminatorLen = min 4 (totalDataBits - length bits);
              bits = pushBits 0 terminatorLen bits;
              bits = padToByte bits;
              bits = padFill totalDataBits 0 bits
          in Some (bitsToBytes bits))"

section \<open>Blocks and interleaving\<close>

text \<open>The loop that cuts the data into blocks and computes their error correction codewords.\<close>

fun cutBlocks :: "nat \<Rightarrow> nat \<Rightarrow> nat \<Rightarrow> nat list \<Rightarrow> nat \<Rightarrow> nat list \<Rightarrow> (nat list \<times> nat list) list" where
  "cutBlocks dataCWPerBlock shortBlocks ec dataBytes offset [] = []"
| "cutBlocks dataCWPerBlock shortBlocks ec dataBytes offset (b # bs) =
     (let blockLen = dataCWPerBlock + (if b \<ge> shortBlocks then 1 else 0);
          block = take blockLen (drop offset dataBytes)
      in (block, rsEncode block ec)
         # cutBlocks dataCWPerBlock shortBlocks ec dataBytes (offset + blockLen) bs)"

definition interleave :: "nat list list \<Rightarrow> nat \<Rightarrow> nat list" where
  "interleave blks n =
     concat (map (\<lambda>i. concat (map (\<lambda>block. if i < length block then [block ! i] else []) blks)) [0..<n])"

definition buildCodewords :: "nat list \<Rightarrow> nat \<Rightarrow> nat list option" where
  "buildCodewords dataBytes version =
     (case VERSION_TABLE version of
        None \<Rightarrow> None
      | Some info \<Rightarrow>
          let numBlocks = blocks info;
              dataCWPerBlock = dataCW info div numBlocks;
              shortBlocks = numBlocks - dataCW info mod numBlocks;
              pairs = cutBlocks dataCWPerBlock shortBlocks (ecPerBlock info) dataBytes 0 [0..<numBlocks];
              dataBlocks = map fst pairs; ecBlocks = map snd pairs;
              maxDataLen = Max (set (map length dataBlocks))
          in Some (interleave dataBlocks maxDataLen @ interleave ecBlocks (ecPerBlock info)))"

section \<open>Bits and numbers\<close>

definition toBits :: "nat \<Rightarrow> nat \<Rightarrow> nat list" where
  "toBits n v = map (\<lambda>i. drop_bit i v mod 2) (rev [0..<n])"

definition fromBits :: "nat list \<Rightarrow> nat" where
  "fromBits bits = fold (\<lambda>b acc. 2 * acc + b) bits 0"

definition binary :: "nat list \<Rightarrow> bool" where
  "binary bits \<longleftrightarrow> (\<forall>b \<in> set bits. b < 2)"

lemma binary_simps [simp]:
  "binary []" "binary (b # bs) \<longleftrightarrow> b < 2 \<and> binary bs" "binary (xs @ ys) \<longleftrightarrow> binary xs \<and> binary ys"
  by (auto simp: binary_def)

lemma binary_take: "binary bs \<Longrightarrow> binary (take n bs)" "binary bs \<Longrightarrow> binary (drop n bs)"
  by (auto simp: binary_def dest: in_set_takeD in_set_dropD)

lemma pushBits_toBits: "pushBits v n bits = bits @ toBits n v"
  by (simp add: pushBits_def toBits_def)

lemma length_toBits [simp]: "length (toBits n v) = n"
  by (simp add: toBits_def)

lemma binary_toBits [simp]: "binary (toBits n v)"
  by (auto simp: toBits_def binary_def)

lemma toBits_0 [simp]: "toBits 0 v = []"
  by (simp add: toBits_def)

lemma toBits_Suc: "toBits (Suc n) v = toBits n (v div 2) @ [v mod 2]"
proof -
  have "rev [0..<Suc n] = map Suc (rev [0..<n]) @ [0]"
    by (metis map_Suc_upt rev.simps(2) rev_map upt_conv_Cons zero_less_Suc)
  then show ?thesis by (simp add: toBits_def drop_bit_Suc)
qed

lemma fromBits_snoc: "fromBits (bs @ [b]) = 2 * fromBits bs + b"
  by (simp add: fromBits_def)

lemma fromBits_toBits: "v < 2 ^ n \<Longrightarrow> fromBits (toBits n v) = v"
proof (induction n arbitrary: v)
  case (Suc n)
  then have "v div 2 < 2 ^ n" by (simp add: less_mult_imp_div_less mult.commute)
  then show ?case using Suc.IH by (simp add: toBits_Suc fromBits_snoc)
qed (simp add: fromBits_def)

lemma toBits_fromBits: "binary bs \<Longrightarrow> toBits (length bs) (fromBits bs) = bs"
  by (induction bs rule: rev_induct) (auto simp: toBits_Suc fromBits_snoc)

lemma fromBits_less: "binary bs \<Longrightarrow> fromBits bs < 2 ^ length bs"
  by (induction bs rule: rev_induct) (auto simp: fromBits_snoc, simp add: fromBits_def)

lemma or_bit: "b < 2 \<Longrightarrow> (2 * (a::nat)) OR b = 2 * a + b"
  by (cases "b = 0") (auto simp: less_2_cases_iff or_Suc_0_eq)

lemma take_drop_nth: "i + n \<le> length xs \<Longrightarrow> take n (drop i xs) = map (\<lambda>j. xs ! (i + j)) [0..<n]"
  by (rule nth_equalityI) auto

lemma byteAt_fromBits:
  assumes "binary bits" "i + 8 \<le> length bits"
  shows "byteAt bits i = fromBits (take 8 (drop i bits))"
proof -
  have b: "bits ! (i + j) < 2" if "j < 8" for j
    using assms that by (simp add: binary_def)
  have "byteAt bits i = fold (\<lambda>j acc. 2 * acc + bits ! (i + j)) [0..<8] 0"
    unfolding byteAt_def by (rule fold_cong) (use assms b in \<open>auto simp: or_bit\<close>)
  also have "\<dots> = fromBits (map (\<lambda>j. bits ! (i + j)) [0..<8])"
    by (simp add: fromBits_def fold_map comp_def del: upt_rec_numeral)
  finally show ?thesis using assms by (simp add: take_drop_nth del: upt_rec_numeral)
qed

lemma concat_slices:
  assumes "n * len = length data"
  shows "concat (map (\<lambda>b. take len (drop (b * len) data)) [0..<n]) = data"
proof -
  have "concat (map (\<lambda>b. take len (drop (b * len) data)) [0..<k]) = take (k * len) data" for k
  proof (induction k)
    case (Suc k)
    have "take (Suc k * len) data = take (k * len) data @ take len (drop (k * len) data)"
      using take_add [of "k * len" len data] by (simp add: add.commute)
    then show ?case using Suc by simp
  qed simp
  then show ?thesis using assms by simp
qed

lemma bitsToBytes_inverse:
  assumes "binary bits" "length bits = 8 * n"
  shows "length (bitsToBytes bits) = n" "bytes (bitsToBytes bits)"
    "concat (map (toBits 8) (bitsToBytes bits)) = bits"
proof -
  have e: "bitsToBytes bits = map (\<lambda>k. fromBits (take 8 (drop (8 * k) bits))) [0..<n]"
    using assms by (auto simp: bitsToBytes_def byteAt_fromBits)
  show "length (bitsToBytes bits) = n" by (simp add: e)
  have "fromBits (take 8 (drop (8 * k) bits)) < 256" if "k < n" for k
    using fromBits_less [of "take 8 (drop (8 * k) bits)"] assms that by (simp add: binary_take)
  then show "bytes (bitsToBytes bits)" by (auto simp: e bytes_def)
  have "toBits 8 (fromBits (take 8 (drop (8 * k) bits))) = take 8 (drop (8 * k) bits)" if "k < n" for k
    using toBits_fromBits [of "take 8 (drop (8 * k) bits)"] assms that by (simp add: binary_take)
  then have "concat (map (toBits 8) (bitsToBytes bits)) =
      concat (map (\<lambda>k. take 8 (drop (8 * k) bits)) [0..<n])"
    by (auto simp: e intro!: arg_cong [where f = concat])
  also have "\<dots> = bits" using concat_slices [of n 8 bits] assms(2) by (simp add: mult.commute)
  finally show "concat (map (toBits 8) (bitsToBytes bits)) = bits" .
qed

section \<open>The bit stream can be read back\<close>

text \<open>A reader of byte-mode data with an eight bit length, as in versions 1 to 9.\<close>

definition decodeData :: "nat list \<Rightarrow> nat list option" where
  "decodeData cws =
     (let bits = concat (map (toBits 8) cws)
      in if take 4 bits = [0, 1, 0, 0]
         then Some (map (\<lambda>k. fromBits (take 8 (drop (12 + 8 * k) bits)))
                      [0..<fromBits (take 8 (drop 4 bits))])
         else None)"

lemma padFill_ok:
  "length bits mod 8 = 0 \<Longrightarrow> tot mod 8 = 0 \<Longrightarrow> length bits \<le> tot \<Longrightarrow>
   \<exists>pad. padFill tot k bits = bits @ pad \<and> length (bits @ pad) = tot \<and> binary pad"
proof (induction tot k bits rule: padFill.induct)
  case (1 tot k bits)
  show ?case
  proof (cases "length bits < tot")
    case True
    let ?p = "toBits 8 (padBytes ! (k mod 2))"
    have "length bits + 8 \<le> tot" using True 1(2,3) by presburger
    then obtain pad where "padFill tot (Suc k) (bits @ ?p) = (bits @ ?p) @ pad"
        "length ((bits @ ?p) @ pad) = tot" "binary pad"
      using 1(1) [OF True] 1(2,3) by (auto simp: pushBits_toBits)
    then show ?thesis
      using True by (intro exI [of _ "?p @ pad"]) (simp add: padFill.simps [of tot k] pushBits_toBits)
  next
    case False
    then show ?thesis using 1(4) by (simp add: padFill.simps)
  qed
qed

lemma fold_pushBits: "fold (\<lambda>byte. pushBits byte 8) data bits = bits @ concat (map (toBits 8) data)"
  by (induction data arbitrary: bits) (auto simp: pushBits_toBits)

lemma length_concat_toBits [simp]: "length (concat (map (toBits 8) data)) = 8 * length data"
  by (induction data) auto

lemma binary_concat_toBits [simp]: "binary (concat (map (toBits 8) data))"
  by (induction data) auto

lemma drop_concat_toBits:
  "k < length data \<Longrightarrow> take 8 (drop (8 * k) (concat (map (toBits 8) data) @ rest)) = toBits 8 (data ! k)"
proof (induction data arbitrary: k)
  case (Cons d data)
  then show ?case by (cases k) auto
qed simp

lemma selectVersion_cases:
  assumes "selectVersion n = Inr v"
  shows "v \<in> {1, 2, 3, 4}" "\<exists>info. VERSION_TABLE v = Some info \<and> n + 2 \<le> dataCW info"
  using assms by (auto simp: selectVersion_def BYTE_CAPACITY_def VERSION_TABLE_def upt_rec split: if_splits)

lemma encodeData_bits:
  assumes "VERSION_TABLE v = Some info" "v \<le> 9" "length data + 2 \<le> dataCW info"
  obtains pad where "encodeData data v =
      Some (bitsToBytes (toBits 4 4 @ toBits 8 (length data) @ concat (map (toBits 8) data) @ pad))"
    "binary pad" "12 + 8 * length data + length pad = 8 * dataCW info"
proof -
  let ?bits = "toBits 4 4 @ toBits 8 (length data) @ concat (map (toBits 8) data) @ toBits 4 0"
  have l: "length ?bits = 16 + 8 * length data" by simp
  then have "length ?bits mod 8 = 0" by presburger
  moreover have "length ?bits \<le> dataCW info * 8" using assms(3) l by simp
  ultimately obtain pad where pad: "padFill (dataCW info * 8) 0 ?bits = ?bits @ pad"
      "length (?bits @ pad) = dataCW info * 8" "binary pad"
    using padFill_ok [of ?bits "dataCW info * 8" 0] by auto
  have "min 4 (dataCW info * 8 - (12 + 8 * length data)) = 4" using assms(3) by simp
  then have "encodeData data v = Some (bitsToBytes (?bits @ pad))"
    using assms(1,2) pad(1) l \<open>length ?bits mod 8 = 0\<close>
    by (simp add: encodeData_def Let_def pushBits_toBits fold_pushBits charCountBits_def
        padToByte.simps del: concat_map_singleton)
  then show thesis using pad l by (intro that [of "toBits 4 0 @ pad"]) simp_all
qed

text \<open>
  Encoding the data of a QR code can be undone: for every byte string that \<open>selectVersion\<close>
  accepts, \<open>encodeData\<close> fills exactly the data codewords of the chosen version with bytes, and the
  decoder reads the same bytes back from them.
\<close>

lemma qr_data_roundtrip:
  assumes "bytes data" "selectVersion (length data) = Inr v"
  shows "\<exists>info cws. VERSION_TABLE v = Some info \<and> encodeData data v = Some cws \<and>
    length cws = dataCW info \<and> bytes cws \<and> decodeData cws = Some data"
proof -
  obtain info where info: "VERSION_TABLE v = Some info" "length data + 2 \<le> dataCW info" and v: "v \<le> 9"
    using selectVersion_cases [OF assms(2)] by auto
  obtain pad where pad: "encodeData data v =
      Some (bitsToBytes (toBits 4 4 @ toBits 8 (length data) @ concat (map (toBits 8) data) @ pad))"
    "binary pad" "12 + 8 * length data + length pad = 8 * dataCW info"
    using encodeData_bits [OF info(1) v info(2)] .
  let ?bits = "toBits 4 4 @ toBits 8 (length data) @ concat (map (toBits 8) data) @ pad"
  have "binary ?bits" "length ?bits = 8 * dataCW info" using pad by simp_all
  note inv = bitsToBytes_inverse [OF this]
  have "length data < 2 ^ 8"
    using info by (auto simp: VERSION_TABLE_def split: if_splits)
  then have n: "fromBits (toBits 8 (length data)) = length data" by (rule fromBits_toBits)
  have "take 4 ?bits = [0, 1, 0, 0]" by (simp add: toBits_def upt_rec drop_bit_eq_div)
  moreover have "take 8 (drop 4 ?bits) = toBits 8 (length data)" by simp
  moreover have "fromBits (take 8 (drop (12 + 8 * k) ?bits)) = data ! k" if "k < length data" for k
  proof -
    have "drop (12 + 8 * k) ?bits = drop (8 * k) (concat (map (toBits 8) data) @ pad)" by simp
    then show ?thesis
      using that assms(1) drop_concat_toBits [OF that] by (simp only:) (simp add: fromBits_toBits bytes_nthD)
  qed
  ultimately have "decodeData (bitsToBytes ?bits) = Some (map (\<lambda>k. data ! k) [0..<length data])"
    unfolding decodeData_def inv(3) Let_def by (simp only: n if_True option.inject) (auto intro: map_cong)
  then show ?thesis using info pad(1) inv by (auto simp: map_nth)
qed

lemma qr_data_roundtrip_example:
  "\<exists>info cws. VERSION_TABLE 1 = Some info \<and> encodeData [72, 105] 1 = Some cws \<and>
    length cws = dataCW info \<and> bytes cws \<and> decodeData cws = Some [72, 105]"
  using qr_data_roundtrip [of "[72, 105]" 1]
  by (simp add: selectVersion_def BYTE_CAPACITY_def upt_rec)

section \<open>The interleaved blocks are code words\<close>

text \<open>Block \<open>b\<close> as a reader collects it from the interleaved codewords.\<close>

definition blockOf :: "version_info \<Rightarrow> nat list \<Rightarrow> nat \<Rightarrow> nat list" where
  "blockOf info cws b =
     map (\<lambda>i. cws ! (i * blocks info + b)) [0..<dataCW info div blocks info] @
     map (\<lambda>i. cws ! (dataCW info + i * blocks info + b)) [0..<ecPerBlock info]"

lemma concat_uniform_length: "\<forall>x \<in> set xs. length (f x) = m \<Longrightarrow> length (concat (map f xs)) = length xs * m"
  by (induction xs) auto

lemma concat_uniform_nth:
  "\<forall>x \<in> set xs. length (f x) = m \<Longrightarrow> i < length xs \<Longrightarrow> b < m \<Longrightarrow>
   concat (map f xs) ! (i * m + b) = f (xs ! i) ! b"
proof (induction xs arbitrary: i)
  case (Cons x xs)
  then show ?case by (cases i) (auto simp: nth_append)
qed simp

lemma interleave_uniform:
  assumes "\<forall>blk \<in> set blks. length blk = n"
  shows "interleave blks n = concat (map (\<lambda>i. map (\<lambda>blk. blk ! i) blks) [0..<n])"
proof -
  have "concat (map (\<lambda>blk. if i < length blk then [blk ! i] else []) blks) = map (\<lambda>blk. blk ! i) blks"
    if "i < n" for i
    using assms that by (induction blks) auto
  then show ?thesis by (auto simp: interleave_def intro!: arg_cong [where f = concat])
qed

lemma interleave_length: "\<forall>blk \<in> set blks. length blk = n \<Longrightarrow> length (interleave blks n) = n * length blks"
  by (simp add: interleave_uniform concat_uniform_length [where m = "length blks"])

lemma interleave_nth:
  "\<forall>blk \<in> set blks. length blk = n \<Longrightarrow> i < n \<Longrightarrow> b < length blks \<Longrightarrow>
   interleave blks n ! (i * length blks + b) = blks ! b ! i"
  using concat_uniform_nth [of "[0..<n]" "\<lambda>i. map (\<lambda>blk. blk ! i) blks" "length blks" i b]
  by (simp add: interleave_uniform)

lemma interleave_bytes: "\<forall>blk \<in> set blks. bytes blk \<Longrightarrow> bytes (interleave blks n)"
  by (auto simp: interleave_def bytes_def)

lemma blockOf_interleave:
  assumes D: "\<forall>x \<in> set D. length x = len" "length D = blocks info"
    and E: "\<forall>x \<in> set E. length x = ecPerBlock info" "length E = blocks info"
    and len: "len * blocks info = dataCW info" and b: "b < blocks info"
  shows "blockOf info (interleave D len @ interleave E (ecPerBlock info)) b = D ! b @ E ! b"
proof -
  let ?nb = "blocks info" and ?ec = "ecPerBlock info"
  let ?cws = "interleave D len @ interleave E ?ec"
  have lD: "length (interleave D len) = dataCW info"
    using interleave_length [OF D(1)] D(2) len by simp
  have "?cws ! (i * ?nb + b) = D ! b ! i" if "i < len" for i
  proof -
    have "Suc i * ?nb \<le> len * ?nb" using that by (intro mult_le_mono1) simp
    then show ?thesis
      using interleave_nth [OF D(1) that, of b] D(2) b lD len by (simp add: nth_append)
  qed
  then have "map (\<lambda>i. ?cws ! (i * ?nb + b)) [0..<len] = D ! b"
    using D b by (intro nth_equalityI) simp_all
  moreover have "?cws ! (dataCW info + i * ?nb + b) = E ! b ! i" if "i < ?ec" for i
    using interleave_nth [OF E(1) that, of b] E(2) b lD by (simp add: nth_append)
  then have "map (\<lambda>i. ?cws ! (dataCW info + i * ?nb + b)) [0..<?ec] = E ! b"
    using E b by (intro nth_equalityI) simp_all
  moreover have "dataCW info div ?nb = len" using len b by (simp flip: len)
  ultimately show ?thesis by (simp only: blockOf_def)
qed

lemma cutBlocks_uniform:
  "cutBlocks len nb ec data (k * len) [k..<nb] =
   map (\<lambda>b. (take len (drop (b * len) data), rsEncode (take len (drop (b * len) data)) ec)) [k..<nb]"
proof (induction "nb - k" arbitrary: k)
  case (Suc m)
  then have k: "k < nb" by simp
  have "cutBlocks len nb ec data (Suc k * len) [Suc k..<nb] =
      map (\<lambda>b. (take len (drop (b * len) data), rsEncode (take len (drop (b * len) data)) ec)) [Suc k..<nb]"
    using Suc.hyps by (intro Suc.hyps(1)) simp
  then show ?case using k by (simp add: upt_conv_Cons Let_def add.commute)
qed simp

lemma version_table_props:
  assumes "VERSION_TABLE v = Some info"
  shows "dataCW info mod blocks info = 0" "0 < blocks info" "ecPerBlock info \<le> 255"
    "totalCW info = dataCW info + ecPerBlock info * blocks info"
  using assms by (auto simp: VERSION_TABLE_def split: if_splits)

lemma interleaved_blocks:
  assumes "VERSION_TABLE v = Some info" "bytes data" "length data = dataCW info"
  shows "\<exists>cws. buildCodewords data v = Some cws \<and> length cws = totalCW info \<and> bytes cws \<and>
    concat (map (\<lambda>b. take (dataCW info div blocks info) (blockOf info cws b)) [0..<blocks info]) = data \<and>
    (\<forall>b < blocks info. \<forall>i < ecPerBlock info. peval (blockOf info cws b) (GF_EXP ! i) = 0)"
proof -
  note props = version_table_props [OF assms(1)]
  let ?nb = "blocks info" and ?ec = "ecPerBlock info" and ?len = "dataCW info div blocks info"
  let ?blk = "\<lambda>b. take ?len (drop (b * ?len) data)"
  let ?D = "map ?blk [0..<?nb]" and ?E = "map (\<lambda>b. rsEncode (?blk b) ?ec) [0..<?nb]"
  let ?cws = "interleave ?D ?len @ interleave ?E ?ec"
  have len: "?nb * ?len = length data" using props(1) assms(3) by auto
  have blk: "length (?blk b) = ?len" if "b < ?nb" for b
  proof -
    have "Suc b * ?len \<le> ?nb * ?len" using that by (intro mult_le_mono1) simp
    then show ?thesis using len by simp
  qed
  then have D: "\<forall>x \<in> set ?D. length x = ?len" by simp
  have E: "\<forall>x \<in> set ?E. length x = ?ec" by simp
  have "length ` (?blk ` {0..<?nb}) = {?len}" using blk props(2) by force
  then have "Max (length ` (?blk ` {0..<?nb})) = ?len" by simp
  then have b: "buildCodewords data v = Some ?cws"
    using assms(1) props(1) cutBlocks_uniform [of ?len ?nb ?ec data 0]
    by (simp add: buildCodewords_def Let_def comp_def image_image)
  have bo: "blockOf info ?cws b = ?blk b @ rsEncode (?blk b) ?ec" if "b < ?nb" for b
    using blockOf_interleave [OF D _ E _ _ that] len assms(3) that by (simp add: mult.commute)
  have blkb: "bytes (?blk b)" for b using assms(2) by (simp add: bytes_take)
  have "\<forall>b < ?nb. \<forall>i < ?ec. peval (blockOf info ?cws b) (GF_EXP ! i) = 0"
    using rs_syndromes [OF blkb] props(3) by (simp add: bo)
  moreover have "take ?len (blockOf info ?cws b) = ?blk b" if "b < ?nb" for b
    using blk [OF that] by (simp only: bo [OF that] take_append) simp
  then have "map (\<lambda>b. take ?len (blockOf info ?cws b)) [0..<?nb] = map ?blk [0..<?nb]" by simp
  then have "concat (map (\<lambda>b. take ?len (blockOf info ?cws b)) [0..<?nb]) = data"
    using concat_slices [OF len] by (simp only:)
  moreover have "length ?cws = totalCW info"
    using interleave_length [OF D] interleave_length [OF E] props(4) len assms(3) by (simp add: mult.commute)
  moreover have "bytes ?cws"
    using blkb props(3) by (simp add: interleave_bytes rsEncode_bytes)
  ultimately show ?thesis using b by blast
qed

text \<open>
  The codewords of every version are right: there are exactly as many bytes as the version
  holds; collecting the blocks from the interleaved sequence gives back the data; and every block
  with its error correction codewords vanishes at all roots of the generator polynomial.
\<close>

theorem qr_blocks_are_codewords:
  assumes "VERSION_TABLE v = Some info" "bytes data" "length data = dataCW info"
  shows "\<exists>cws. buildCodewords data v = Some cws \<and> length cws = totalCW info \<and> bytes cws \<and>
    concat (map (\<lambda>b. take (dataCW info div blocks info) (blockOf info cws b)) [0..<blocks info]) = data \<and>
    (\<forall>b < blocks info. \<forall>i < ecPerBlock info. peval (blockOf info cws b) (GF_EXP ! i) = 0)"
  by (rule interleaved_blocks [OF assms])

theorem qr_blocks_are_codewords_witness:
  "\<exists>cws. buildCodewords (replicate 16 7) 1 = Some cws \<and> length cws = 26 \<and> bytes cws \<and>
    concat (map (\<lambda>b. take 16 (blockOf \<lparr>totalCW = 26, ecPerBlock = 10, blocks = 1, dataCW = 16\<rparr> cws b)) [0..<1])
      = replicate 16 7 \<and>
    (\<forall>b < 1. \<forall>i < 10. peval (blockOf \<lparr>totalCW = 26, ecPerBlock = 10, blocks = 1, dataCW = 16\<rparr> cws b) (GF_EXP ! i) = 0)"
  using qr_blocks_are_codewords [of 1 "\<lparr>totalCW = 26, ecPerBlock = 10, blocks = 1, dataCW = 16\<rparr>" "replicate 16 7"]
  by (simp add: VERSION_TABLE_def bytes_def)

end
