(* ===== verification/QR_Matrix.thy ===== *)
theory QR_Matrix
  imports QR_Codewords
begin

text \<open>
  \<^verbatim>\<open>src/services/auth-bridge/qr.ts\<close>, last part: placement of the patterns and of the data bits,
  masks, format information, penalty, choice of the mask and rendering. A matrix is a function on
  (row, column), with its side as a separate number; a double loop is a fold over the indices it
  visits. A written character is its code point. Shown, in \<open>QR_Reader\<close>: a reader gets the text back.
\<close>

type_synonym 'a grid = "int \<times> int \<Rightarrow> 'a"

section \<open>Placement of the patterns\<close>

text \<open>The matrix under construction (\<open>None\<close>: not yet placed) and the reserved modules.\<close>

type_synonym canvas = "bool option grid \<times> bool grid"

definition put_module :: "int \<times> int \<Rightarrow> bool \<Rightarrow> canvas \<Rightarrow> canvas" where
  "put_module p dark cv = ((fst cv)(p := Some dark), (snd cv)(p := True))"

definition finderDark :: "int \<Rightarrow> int \<Rightarrow> bool" where
  "finderDark r c \<longleftrightarrow>
     0 \<le> r \<and> r \<le> 6 \<and> 0 \<le> c \<and> c \<le> 6 \<and>
     (r = 0 \<or> r = 6 \<or> c = 0 \<or> c = 6 \<or> (2 \<le> r \<and> r \<le> 4 \<and> 2 \<le> c \<and> c \<le> 4))"

definition placeFinder :: "int \<Rightarrow> int \<Rightarrow> int \<Rightarrow> canvas \<Rightarrow> canvas" where
  "placeFinder sz row col cv =
     fold (\<lambda>r cv. fold (\<lambda>c cv.
       let mr = row + r; mc = col + c in
       if mr < 0 \<or> mr \<ge> sz \<or> mc < 0 \<or> mc \<ge> sz then cv
       else put_module (mr, mc) (finderDark r c) cv) [-1..7] cv) [-1..7] cv"

definition placeTiming :: "int \<Rightarrow> canvas \<Rightarrow> canvas" where
  "placeTiming sz cv =
     fold (\<lambda>i cv.
       let dark = (i mod 2 = 0);
           cv = (if fst cv (6, i) = None then put_module (6, i) dark cv else cv)
       in if fst cv (i, 6) = None then put_module (i, 6) dark cv else cv) [8..sz - 9] cv"

definition placeAlignment :: "int \<Rightarrow> int \<Rightarrow> canvas \<Rightarrow> canvas" where
  "placeAlignment row col cv =
     fold (\<lambda>r cv. fold (\<lambda>c cv.
       put_module (row + r, col + c) (\<bar>r\<bar> = 2 \<or> \<bar>c\<bar> = 2 \<or> (r = 0 \<and> c = 0)) cv) [-2..2] cv) [-2..2] cv"

definition alignPositions :: "nat \<Rightarrow> int list" where
  "alignPositions version = (case ALIGNMENT_POSITIONS version of Some ps \<Rightarrow> map int ps | None \<Rightarrow> [])"

definition placeAlignments :: "nat \<Rightarrow> canvas \<Rightarrow> canvas" where
  "placeAlignments version cv =
     (let ps = alignPositions version in
      fold (\<lambda>row cv. fold (\<lambda>col cv. if snd cv (row, col) then cv else placeAlignment row col cv) ps cv) ps cv)"

definition reserve :: "int \<times> int \<Rightarrow> bool grid \<Rightarrow> bool grid" where
  "reserve p res = (if \<not> res p then res(p := True) else res)"

definition reserveFormat :: "int \<Rightarrow> bool grid \<Rightarrow> bool grid" where
  "reserveFormat sz res =
     fold (\<lambda>i res. reserve (sz - 1 - i, 8) res) [0..7]
       (fold (\<lambda>i res. reserve (8, sz - 1 - i) res) [0..7]
         (fold (\<lambda>i res. reserve (i, 8) (reserve (8, i) res)) [0..8] res))"

definition placePatterns :: "nat \<Rightarrow> canvas" where
  "placePatterns version =
     (let sz = int (versionSize version);
          cv = (\<lambda>_. None, \<lambda>_. False);
          cv = placeFinder sz 0 0 cv;
          cv = placeFinder sz 0 (sz - 7) cv;
          cv = placeFinder sz (sz - 7) 0 cv;
          cv = placeTiming sz cv;
          cv = placeAlignments version cv;
          cv = put_module (sz - 8, 8) True cv
      in (fst cv, reserveFormat sz (snd cv)))"

section \<open>Placement of the data\<close>

text \<open>The columns at which the two-column strips start, from right to left, without column 6.\<close>

function stripCols :: "int \<Rightarrow> int list" where
  "stripCols col =
     (if col < 0 then [] else if col = 6 then stripCols (col - 1) else col # stripCols (col - 2))"
  by auto
termination by (relation "measure (\<lambda>col. nat (col + 1))") auto

declare stripCols.simps [simp del]

definition goingUp :: "int \<Rightarrow> int \<Rightarrow> bool" where
  "goingUp sz col \<longleftrightarrow>
     (let stripIndex = (if col \<ge> 7 then (sz - 1 - col) div 2 else (sz - 2 - col) div 2)
      in stripIndex mod 2 = 0)"

definition stripVisit :: "int \<Rightarrow> int \<Rightarrow> (int \<times> int) list" where
  "stripVisit sz col =
     concat (map (\<lambda>i. let row = (if goingUp sz col then sz - 1 - i else i) in
       filter (\<lambda>(r, c). \<not> (c < 0 \<or> c \<ge> sz)) (map (\<lambda>dc. (row, col + dc)) [0, -1])) [0..sz - 1])"

definition visit :: "int \<Rightarrow> (int \<times> int) list" where
  "visit sz = concat (map (stripVisit sz) (stripCols (sz - 1)))"

definition placeBit :: "nat list \<Rightarrow> bool grid \<Rightarrow> int \<times> int \<Rightarrow> bool option grid \<times> nat \<Rightarrow> bool option grid \<times> nat" where
  "placeBit bits reserved p st =
     (if reserved p then st
      else ((fst st)(p := Some (if snd st < length bits then bits ! snd st = 1 else False)), Suc (snd st)))"

definition codewordBits :: "nat list \<Rightarrow> nat list" where
  "codewordBits codewords = concat (map (\<lambda>cw. map (\<lambda>b. drop_bit b cw mod 2) (rev [0..<8])) codewords)"

definition buildMatrix :: "nat list \<Rightarrow> nat \<Rightarrow> bool grid" where
  "buildMatrix codewords version =
     (let sz = int (versionSize version);
          (matrix, reserved) = placePatterns version;
          st = fold (placeBit (codewordBits codewords) reserved) (visit sz) (matrix, 0)
      in (\<lambda>p. fst st p = Some True))"

section \<open>Masks\<close>

definition MASK_FUNCTIONS :: "(int \<Rightarrow> int \<Rightarrow> bool) list" where
  "MASK_FUNCTIONS =
     [\<lambda>r c. (r + c) mod 2 = 0,
      \<lambda>r c. r mod 2 = 0,
      \<lambda>r c. c mod 3 = 0,
      \<lambda>r c. (r + c) mod 3 = 0,
      \<lambda>r c. (r div 2 + c div 3) mod 2 = 0,
      \<lambda>r c. (r * c) mod 2 + (r * c) mod 3 = 0,
      \<lambda>r c. ((r * c) mod 2 + (r * c) mod 3) mod 2 = 0,
      \<lambda>r c. ((r + c) mod 2 + (r * c) mod 3) mod 2 = 0]"

definition markFinder :: "int \<Rightarrow> int \<Rightarrow> int \<Rightarrow> bool grid \<Rightarrow> bool grid" where
  "markFinder sz row col res =
     fold (\<lambda>r res. fold (\<lambda>c res.
       let mr = row + r; mc = col + c in
       if mr \<ge> 0 \<and> mr < sz \<and> mc \<ge> 0 \<and> mc < sz then res((mr, mc) := True) else res) [-1..7] res) [-1..7] res"

definition overlapsFinder :: "int \<Rightarrow> int \<Rightarrow> int \<Rightarrow> bool" where
  "overlapsFinder sz row col \<longleftrightarrow>
     list_ex (\<lambda>(fr, fc). row \<ge> fr - 1 \<and> row \<le> fr + 7 \<and> col \<ge> fc - 1 \<and> col \<le> fc + 7)
       [(0, 0), (0, sz - 7), (sz - 7, 0)]"

definition markAlignments :: "int \<Rightarrow> int list \<Rightarrow> bool grid \<Rightarrow> bool grid" where
  "markAlignments sz ps res =
     fold (\<lambda>row res. fold (\<lambda>col res.
       if overlapsFinder sz row col then res
       else fold (\<lambda>r res. fold (\<lambda>c res. res((row + r, col + c) := True)) [-2..2] res) [-2..2] res) ps res) ps res"

definition buildReservedMask :: "nat \<Rightarrow> bool grid" where
  "buildReservedMask version =
     (let sz = int (versionSize version);
          res = markFinder sz 0 0 (\<lambda>_. False);
          res = markFinder sz 0 (sz - 7) res;
          res = markFinder sz (sz - 7) 0 res;
          res = fold (\<lambda>i res. res((6, i) := True, (i, 6) := True)) [8..sz - 9] res;
          res = markAlignments sz (alignPositions version) res;
          res = res((sz - 8, 8) := True);
          res = fold (\<lambda>i res. res((8, i) := True, (i, 8) := True)) [0..8] res
      in fold (\<lambda>i res. res((8, sz - 1 - i) := True, (sz - 1 - i, 8) := True)) [0..7] res)"

text \<open>Every module of the double loop is read and written once.\<close>

definition applyMask :: "int \<Rightarrow> bool grid \<Rightarrow> bool grid \<Rightarrow> nat \<Rightarrow> bool grid" where
  "applyMask sz matrix reservedMask maskIdx =
     (\<lambda>(r, c). if 0 \<le> r \<and> r < sz \<and> 0 \<le> c \<and> c < sz \<and> \<not> reservedMask (r, c) \<and> (MASK_FUNCTIONS ! maskIdx) r c
               then \<not> matrix (r, c) else matrix (r, c))"

section \<open>Format information\<close>

definition FORMAT_BITS :: "nat list" where
  "FORMAT_BITS = [21522, 20773, 24188, 23371, 17913, 16590, 20375, 19104]"

definition formatBit :: "nat \<Rightarrow> nat \<Rightarrow> bool" where
  "formatBit maskIdx i \<longleftrightarrow> drop_bit (14 - i) (FORMAT_BITS ! maskIdx) mod 2 = 1"

definition formatPos :: "nat \<Rightarrow> int \<times> int" where
  "formatPos i =
     (if i < 8 then (8, int (if i < 6 then i else i + 1))
      else (if i = 8 then 7 else int (14 - i), 8))"

definition formatMirror :: "int \<Rightarrow> nat \<Rightarrow> int \<times> int" where
  "formatMirror sz i = (if i < 8 then (sz - 1 - int i, 8) else (8, sz - 15 + int i))"

definition writeFormatInfo :: "int \<Rightarrow> bool grid \<Rightarrow> nat \<Rightarrow> bool grid" where
  "writeFormatInfo sz matrix maskIdx =
     fold (\<lambda>i m. m(formatPos i := formatBit maskIdx i, formatMirror sz i := formatBit maskIdx i)) [0..<15] matrix"

section \<open>Penalty\<close>

text \<open>Rule 1 along one line of modules: the current run and the score so far.\<close>

fun runScore :: "bool \<Rightarrow> int \<Rightarrow> bool list \<Rightarrow> int" where
  "runScore prev runLen [] = (if runLen \<ge> 5 then runLen - 2 else 0)"
| "runScore prev runLen (x # xs) =
     (if x = prev then runScore prev (runLen + 1) xs
      else (if runLen \<ge> 5 then runLen - 2 else 0) + runScore x 1 xs)"

definition lineScore :: "bool list \<Rightarrow> int" where
  "lineScore xs = (case xs of [] \<Rightarrow> 0 | x # xs \<Rightarrow> runScore x 1 xs)"

definition row_of :: "bool grid \<Rightarrow> int \<Rightarrow> int \<Rightarrow> bool list" where
  "row_of m sz r = map (\<lambda>c. m (r, c)) [0..sz - 1]"

definition col_of :: "bool grid \<Rightarrow> int \<Rightarrow> int \<Rightarrow> bool list" where
  "col_of m sz c = map (\<lambda>r. m (r, c)) [0..sz - 1]"

definition blockScore :: "bool grid \<Rightarrow> int \<Rightarrow> int \<Rightarrow> int" where
  "blockScore m r c =
     (let v = m (r, c) in if v = m (r, c + 1) \<and> v = m (r + 1, c) \<and> v = m (r + 1, c + 1) then 3 else 0)"

definition pattern1 :: "bool list" where
  "pattern1 = [True, False, True, True, True, False, True, False, False, False, False]"

definition pattern2 :: "bool list" where
  "pattern2 = [False, False, False, False, True, False, True, True, True, False, True]"

definition patternScore :: "bool list \<Rightarrow> int" where
  "patternScore xs = (if xs = pattern1 \<or> xs = pattern2 then 40 else 0)"

text \<open>
  Rule 4: the quotient \<^verbatim>\<open>pct / 5\<close> is \<^verbatim>\<open>darkCount * 20 / total\<close>, of which only the floor is used.
\<close>

definition proportionScore :: "int \<Rightarrow> int \<Rightarrow> int" where
  "proportionScore darkCount tot =
     (let prev5 = (darkCount * 20 div tot) * 5; next5 = prev5 + 5
      in min (\<bar>prev5 - 50\<bar> div 5) (\<bar>next5 - 50\<bar> div 5) * 10)"

definition penaltyScore :: "int \<Rightarrow> bool grid \<Rightarrow> int" where
  "penaltyScore sz m =
     sum_list (map (\<lambda>r. lineScore (row_of m sz r)) [0..sz - 1]) +
     sum_list (map (\<lambda>c. lineScore (col_of m sz c)) [0..sz - 1]) +
     sum_list (map (\<lambda>r. sum_list (map (blockScore m r) [0..sz - 2])) [0..sz - 2]) +
     sum_list (map (\<lambda>r. sum_list (map (\<lambda>c. patternScore (map (\<lambda>k. m (r, c + k)) [0..10])) [0..sz - 11])) [0..sz - 1]) +
     sum_list (map (\<lambda>c. sum_list (map (\<lambda>r. patternScore (map (\<lambda>k. m (r + k, c)) [0..10])) [0..sz - 11])) [0..sz - 1]) +
     proportionScore (sum_list (map (\<lambda>r. sum_list (map (\<lambda>c. if m (r, c) then 1 else 0) [0..sz - 1])) [0..sz - 1]))
       (sz * sz)"

section \<open>Generation\<close>

text \<open>\<^verbatim>\<open>TextEncoder\<close> on code points below 256.\<close>

definition utf8 :: "string \<Rightarrow> nat list" where
  "utf8 s = concat (map (\<lambda>ch. let n = of_char ch in if n < 128 then [n] else [192 + n div 64, 128 + n mod 64]) s)"

text \<open>A finished symbol: the side and the modules.\<close>

type_synonym symbol = "int \<times> bool grid"

definition maskedMatrix :: "nat \<Rightarrow> bool grid \<Rightarrow> nat \<Rightarrow> bool grid" where
  "maskedMatrix version baseMatrix m =
     (let sz = int (versionSize version)
      in writeFormatInfo sz (applyMask sz baseMatrix (buildReservedMask version) m) m)"

text \<open>The best matrix so far and its score; \<open>None\<close> is \<^verbatim>\<open>Infinity\<close>.\<close>

definition tryMask :: "nat \<Rightarrow> bool grid \<Rightarrow> nat \<Rightarrow> bool grid \<times> int option \<Rightarrow> bool grid \<times> int option" where
  "tryMask version baseMatrix m best =
     (let masked = maskedMatrix version baseMatrix m;
          score = penaltyScore (int (versionSize version)) masked
      in if (case snd best of None \<Rightarrow> True | Some bestScore \<Rightarrow> score < bestScore) then (masked, Some score) else best)"

definition generateQRMatrix :: "string \<Rightarrow> qr_error + symbol" where
  "generateQRMatrix text =
     (let data = utf8 text in
      case selectVersion (length data) of
        Inl e \<Rightarrow> Inl e
      | Inr version \<Rightarrow>
          let dataBytes = the (encodeData data version);
              codewords = the (buildCodewords dataBytes version);
              baseMatrix = buildMatrix codewords version
          in Inr (int (versionSize version), fst (fold (tryMask version baseMatrix) [0..<8] (baseMatrix, None))))"

section \<open>Rendering\<close>

definition symbolModule :: "symbol \<Rightarrow> int \<Rightarrow> int \<Rightarrow> bool" where
  "symbolModule qr r c =
     (if r < 0 \<or> r \<ge> fst qr \<or> c < 0 \<or> c \<ge> fst qr then False else snd qr (r, c))"

definition halfBlock :: "bool \<Rightarrow> bool \<Rightarrow> nat" where
  "halfBlock upper lower =
     (if upper \<and> lower then 0x2588 else if upper \<and> \<not> lower then 0x2580
      else if \<not> upper \<and> lower then 0x2584 else 32)"

function pairRows :: "int \<Rightarrow> int \<Rightarrow> int list" where
  "pairRows r bound = (if r < bound then r # pairRows (r + 2) bound else [])"
  by auto
termination by (relation "measure (\<lambda>(r, bound). nat (bound - r))") auto

declare pairRows.simps [simp del]

definition renderLine :: "symbol \<Rightarrow> int \<Rightarrow> nat list" where
  "renderLine qr r = map (\<lambda>c. halfBlock (symbolModule qr r c) (symbolModule qr (r + 1) c)) [-1..fst qr]"

fun join_lines :: "nat list list \<Rightarrow> nat list" where
  "join_lines [] = []"
| "join_lines [l] = l"
| "join_lines (l # ls) = l @ 10 # join_lines ls"

definition renderQRText :: "symbol \<Rightarrow> nat list" where
  "renderQRText qr = join_lines (map (renderLine qr) (pairRows (-1) (fst qr + 1)))"

definition generateQR :: "string \<Rightarrow> qr_error + nat list" where
  "generateQR text = (case generateQRMatrix text of Inl e \<Rightarrow> Inl e | Inr qr \<Rightarrow> Inr (renderQRText qr))"

end
