(* ===== verification/QR_Reader.thy ===== *)
theory QR_Reader
  imports QR_Matrix
begin

text \<open>
  A reader of QR symbols that shares the mask functions, the order of the modules and the tables of the
  generator: a device for the proofs about the generator, and not a reader of the standard, which is that of
  \<open>QR_Standard\<close>. It knows which modules are function modules, finds the mask from the format information, undoes the
  mask, collects the blocks and decodes the data. Shown: it reads back every text that the generator accepts, and
  the mask with the least penalty is the one used.
\<close>

section \<open>The reader\<close>

text \<open>
  The function modules of a version: finder patterns with separators and format information in three
  corners, the timing row and column, and the alignment pattern of the versions above 1.
\<close>

definition functionModule :: "nat \<Rightarrow> int \<times> int \<Rightarrow> bool" where
  "functionModule version = (\<lambda>(r, c). let sz = int (versionSize version) in
     (r \<le> 8 \<and> c \<le> 8) \<or> (r \<le> 8 \<and> sz - 8 \<le> c) \<or> (sz - 8 \<le> r \<and> c \<le> 8) \<or> r = 6 \<or> c = 6 \<or>
     (version \<noteq> 1 \<and> sz - 9 \<le> r \<and> r \<le> sz - 5 \<and> sz - 9 \<le> c \<and> c \<le> sz - 5))"

definition dataModules :: "nat \<Rightarrow> (int \<times> int) list" where
  "dataModules version = filter (\<lambda>p. \<not> functionModule version p) (visit (int (versionSize version)))"

definition readMask :: "symbol \<Rightarrow> nat option" where
  "readMask qr = find (\<lambda>m. \<forall>i \<in> set [0..<15]. snd qr (formatPos i) = formatBit m i) [0..<8]"

definition readModules :: "nat \<Rightarrow> nat \<Rightarrow> symbol \<Rightarrow> nat list" where
  "readModules version m qr =
     map (\<lambda>(r, c). of_bool (snd qr (r, c) \<noteq> (MASK_FUNCTIONS ! m) r c)) (dataModules version)"

definition readBlocks :: "version_info \<Rightarrow> nat list \<Rightarrow> nat list" where
  "readBlocks info cws =
     concat (map (\<lambda>b. take (dataCW info div blocks info) (blockOf info cws b)) [0..<blocks info])"

definition decodeQR :: "symbol \<Rightarrow> nat list option" where
  "decodeQR qr =
     (let version = nat ((fst qr - 17) div 4) in
      case (VERSION_TABLE version, readMask qr) of
        (Some info, Some m) \<Rightarrow>
          decodeData (readBlocks info (bitsToBytes (take (8 * totalCW info) (readModules version m qr))))
      | _ \<Rightarrow> None)"

section \<open>Reserved modules\<close>

text \<open>
  What a step of the construction reserves: on a grid of flags, and on a canvas, where a module is
  placed exactly when it is reserved (until the format information is reserved).
\<close>

declare split_paired_All [simp del] split_paired_Ex [simp del]

definition marks :: "(bool grid \<Rightarrow> bool grid) \<Rightarrow> (int \<times> int \<Rightarrow> bool) \<Rightarrow> bool" where
  "marks f S \<longleftrightarrow> (\<forall>res p. f res p \<longleftrightarrow> S p \<or> res p)"

definition consistent :: "canvas \<Rightarrow> bool" where
  "consistent cv \<longleftrightarrow> (\<forall>p. fst cv p = None \<longleftrightarrow> \<not> snd cv p)"

definition paints :: "(canvas \<Rightarrow> canvas) \<Rightarrow> (int \<times> int \<Rightarrow> bool) \<Rightarrow> bool" where
  "paints f S \<longleftrightarrow>
     (\<forall>cv. consistent cv \<longrightarrow> consistent (f cv) \<and> (\<forall>p. snd (f cv) p \<longleftrightarrow> S p \<or> snd cv p))"

named_theorems marking \<open>what the steps of the construction reserve\<close>

lemma marks_fold [marking]:
  "(\<And>x. marks (f x) (S x)) \<Longrightarrow> marks (fold f xs) (\<lambda>p. \<exists>x \<in> set xs. S x p)"
  by (induction xs) (auto simp: marks_def)

lemma marks_basic [marking]:
  "marks (\<lambda>res. res(q := True)) (\<lambda>p. p = q)"
  "marks (\<lambda>res. res(q := True, q' := True)) (\<lambda>p. p = q \<or> p = q')"
  "marks (reserve q) (\<lambda>p. p = q)"
  "marks (\<lambda>res. reserve q (reserve q' res)) (\<lambda>p. p = q \<or> p = q')"
  by (auto simp: marks_def reserve_def)

lemma marks_if [marking]:
  "marks f S \<Longrightarrow> marks (\<lambda>res. if b then f res else res) (\<lambda>p. b \<and> S p)"
  "marks f S \<Longrightarrow> marks (\<lambda>res. if b then res else f res) (\<lambda>p. \<not> b \<and> S p)"
  by (auto simp: marks_def)

lemma marksD: "marks f S \<Longrightarrow> f res p \<longleftrightarrow> S p \<or> res p"
  by (simp add: marks_def)

lemma paints_fold [marking]:
  "(\<And>x. paints (f x) (S x)) \<Longrightarrow> paints (fold f xs) (\<lambda>p. \<exists>x \<in> set xs. S x p)"
  by (induction xs) (auto simp: paints_def)

lemma paints_put [marking]: "paints (put_module q d) (\<lambda>p. p = q)"
  by (auto simp: paints_def consistent_def put_module_def)

lemma paints_if [marking]:
  "paints f S \<Longrightarrow> paints (\<lambda>cv. if b then cv else f cv) (\<lambda>p. \<not> b \<and> S p)"
  by (auto simp: paints_def)

lemma paints_free [marking]: "paints (\<lambda>cv. if fst cv q = None then put_module q d cv else cv) (\<lambda>p. p = q)"
  by (auto simp: paints_def consistent_def put_module_def)

lemma paints_comp: "paints f S \<Longrightarrow> paints g T \<Longrightarrow> paints (\<lambda>cv. g (f cv)) (\<lambda>p. T p \<or> S p)"
  by (auto simp: paints_def)

lemma paintsD: "paints f S \<Longrightarrow> consistent cv \<Longrightarrow> consistent (f cv)"
  "paints f S \<Longrightarrow> consistent cv \<Longrightarrow> snd (f cv) p \<longleftrightarrow> S p \<or> snd cv p"
  by (auto simp: paints_def)

definition inside :: "int \<Rightarrow> int \<times> int \<Rightarrow> bool" where
  "inside sz p \<longleftrightarrow> 0 \<le> fst p \<and> fst p < sz \<and> 0 \<le> snd p \<and> snd p < sz"

definition square :: "int \<Rightarrow> int \<Rightarrow> int \<Rightarrow> int \<Rightarrow> int \<times> int \<Rightarrow> bool" where
  "square r0 c0 r1 c1 p \<longleftrightarrow> r0 \<le> fst p \<and> fst p \<le> r1 \<and> c0 \<le> snd p \<and> snd p \<le> c1"

lemma ex_square:
  "(\<exists>r \<in> set [a..b]. \<exists>c \<in> set [a'..b']. Q (r0 + r) (c0 + c) \<and> p = (r0 + r, c0 + c)) \<longleftrightarrow>
   square (r0 + a) (c0 + a') (r0 + b) (c0 + b') p \<and> Q (fst p) (snd p)"
proof
  assume "square (r0 + a) (c0 + a') (r0 + b) (c0 + b') p \<and> Q (fst p) (snd p)"
  then show "\<exists>r \<in> set [a..b]. \<exists>c \<in> set [a'..b']. Q (r0 + r) (c0 + c) \<and> p = (r0 + r, c0 + c)"
    by (intro bexI [of _ "fst p - r0"] bexI [of _ "snd p - c0"]) (auto simp: square_def)
qed (auto simp: square_def)

lemma placeFinder_paints [marking]:
  "paints (placeFinder sz r0 c0) (\<lambda>p. square (r0 - 1) (c0 - 1) (r0 + 7) (c0 + 7) p \<and> inside sz p)"
proof -
  have "paints (placeFinder sz r0 c0) (\<lambda>p. \<exists>r \<in> set [-1..7]. \<exists>c \<in> set [-1..7].
     \<not> (r0 + r < 0 \<or> r0 + r \<ge> sz \<or> c0 + c < 0 \<or> c0 + c \<ge> sz) \<and> p = (r0 + r, c0 + c))"
    unfolding placeFinder_def Let_def by (intro marking)
  then show ?thesis
    unfolding ex_square [where Q = "\<lambda>r c. \<not> (r < 0 \<or> r \<ge> sz \<or> c < 0 \<or> c \<ge> sz)"]
    by (simp add: inside_def not_less not_le conj_ac)
qed

lemma placeTiming_paints [marking]:
  "paints (placeTiming sz) (\<lambda>p. \<exists>i \<in> set [8..sz - 9]. p = (i, 6) \<or> p = (6, i))"
  unfolding placeTiming_def Let_def by (intro paints_fold paints_comp paints_free)

lemma placeAlignment_paints [marking]:
  "paints (placeAlignment r0 c0) (\<lambda>p. square (r0 - 2) (c0 - 2) (r0 + 2) (c0 + 2) p)"
proof -
  have "paints (placeAlignment r0 c0) (\<lambda>p. \<exists>r \<in> set [-2..2]. \<exists>c \<in> set [-2..2]. p = (r0 + r, c0 + c))"
    unfolding placeAlignment_def by (intro marking)
  then show ?thesis
    using ex_square [where Q = "\<lambda>r c. True" and a = "-2" and b = 2 and a' = "-2" and b' = 2 and ?r0.0 = r0 and ?c0.0 = c0]
    by (simp only: simp_thms) simp
qed

lemma set_line:
  "(\<exists>i \<in> set [a..b]. p = (x, y - i)) \<longleftrightarrow> fst p = x \<and> y - b \<le> snd p \<and> snd p \<le> y - a"
  "(\<exists>i \<in> set [a..b]. p = (y - i, x)) \<longleftrightarrow> snd p = x \<and> y - b \<le> fst p \<and> fst p \<le> y - a"
  "(\<exists>i \<in> set [a..b]. p = (x, i)) \<longleftrightarrow> fst p = x \<and> a \<le> snd p \<and> snd p \<le> b"
  "(\<exists>i \<in> set [a..b]. p = (i, x)) \<longleftrightarrow> snd p = x \<and> a \<le> fst p \<and> fst p \<le> b"
proof -
  show "(\<exists>i \<in> set [a..b]. p = (x, y - i)) \<longleftrightarrow> fst p = x \<and> y - b \<le> snd p \<and> snd p \<le> y - a"
    by (cases p) (auto intro!: bexI [of _ "y - snd p"])
  show "(\<exists>i \<in> set [a..b]. p = (y - i, x)) \<longleftrightarrow> snd p = x \<and> y - b \<le> fst p \<and> fst p \<le> y - a"
    by (cases p) (auto intro!: bexI [of _ "y - fst p"])
qed (cases p, auto)+

definition formatArea :: "int \<Rightarrow> int \<times> int \<Rightarrow> bool" where
  "formatArea sz p \<longleftrightarrow>
     (fst p = 8 \<and> 0 \<le> snd p \<and> snd p \<le> 8) \<or> (snd p = 8 \<and> 0 \<le> fst p \<and> fst p \<le> 8) \<or>
     (fst p = 8 \<and> sz - 8 \<le> snd p \<and> snd p \<le> sz - 1) \<or> (snd p = 8 \<and> sz - 8 \<le> fst p \<and> fst p \<le> sz - 1)"

lemma reserveFormat_marks: "reserveFormat sz res p \<longleftrightarrow> formatArea sz p \<or> res p"
proof -
  have f: "fold (\<lambda>i res. reserve (i, 8) (reserve (8, i) res)) [0..8] res p \<longleftrightarrow>
      (\<exists>i \<in> set [0..8]. p = (i, 8) \<or> p = (8, i)) \<or> res p"
    "fold (\<lambda>i. reserve (8, sz - 1 - i)) [0..7] res p \<longleftrightarrow> (\<exists>i \<in> set [0..7]. p = (8, sz - 1 - i)) \<or> res p"
    "fold (\<lambda>i. reserve (sz - 1 - i, 8)) [0..7] res p \<longleftrightarrow> (\<exists>i \<in> set [0..7]. p = (sz - 1 - i, 8)) \<or> res p" for res
    by (rule marksD, intro marking)+
  show ?thesis
    unfolding reserveFormat_def f bex_disj_distrib set_line by (auto simp: formatArea_def)
qed

lemma alignPositions_eq:
  "alignPositions 1 = []"
  "v \<in> {2, 3, 4} \<Longrightarrow> alignPositions v = [6, int (versionSize v) - 7]"
  by (auto simp: alignPositions_def ALIGNMENT_POSITIONS_def versionSize_def)

definition alignment :: "nat \<Rightarrow> int \<times> int \<Rightarrow> bool" where
  "alignment v p \<longleftrightarrow> v \<noteq> 1 \<and> (let sz = int (versionSize v) in square (sz - 9) (sz - 9) (sz - 5) (sz - 5) p)"

lemma placeAlignments_eq:
  assumes v: "v \<in> {1, 2, 3, 4}" and c: "consistent cv" and sz: "sz = int (versionSize v)"
    and r: "snd cv (6, 6)" "snd cv (6, sz - 7)" "snd cv (sz - 7, 6)" "\<not> snd cv (sz - 7, sz - 7)"
  shows "consistent (placeAlignments v cv) \<and> (snd (placeAlignments v cv) p \<longleftrightarrow> alignment v p \<or> snd cv p)"
proof (cases "v = 1")
  case False
  then have "alignPositions v = [6, sz - 7]" using v sz by (simp add: alignPositions_eq)
  then have "placeAlignments v cv = placeAlignment (sz - 7) (sz - 7) cv"
    using r by (simp add: placeAlignments_def)
  then show ?thesis
    using paintsD [OF placeAlignment_paints c] False sz by (auto simp: alignment_def Let_def)
qed (use c in \<open>auto simp: placeAlignments_def alignPositions_eq(1) [unfolded One_nat_def] alignment_def Let_def\<close>)

definition finders :: "int \<Rightarrow> int \<times> int \<Rightarrow> bool" where
  "finders sz p \<longleftrightarrow> inside sz p \<and>
     (square (-1) (-1) 7 7 p \<or> square (-1) (sz - 8) 7 sz p \<or> square (sz - 8) (-1) sz 7 p)"

definition timing :: "int \<Rightarrow> int \<times> int \<Rightarrow> bool" where
  "timing sz p \<longleftrightarrow> (fst p = 6 \<and> 8 \<le> snd p \<and> snd p \<le> sz - 9) \<or> (snd p = 6 \<and> 8 \<le> fst p \<and> fst p \<le> sz - 9)"

lemma version_sizes: "v \<in> {1, 2, 3, 4} \<Longrightarrow> int (versionSize v) \<in> {21, 25, 29, 33}"
  by (auto simp: versionSize_def)

lemma functionModule_union:
  assumes "v \<in> {1, 2, 3, 4}" "sz = int (versionSize v)" "inside sz p"
  shows "functionModule v p \<longleftrightarrow>
    finders sz p \<or> timing sz p \<or> alignment v p \<or> p = (sz - 8, 8) \<or> formatArea sz p"
proof -
  have sz: "sz \<ge> 21" using version_sizes [OF assms(1)] assms(2) by auto
  obtain r c where p: "p = (r, c)" by force
  have i: "0 \<le> r" "r < sz" "0 \<le> c" "c < sz" using assms(3) by (auto simp: inside_def p)
  note defs = finders_def timing_def formatArea_def square_def inside_def fst_conv snd_conv
  have 1: "finders sz (r, c) \<or> formatArea sz (r, c)" if "r \<le> 8" "c \<le> 8"
    using that i sz by (cases "r = 8"; cases "c = 8") (auto simp: defs)
  have 2: "finders sz (r, c) \<or> formatArea sz (r, c)" if "r \<le> 8" "sz - 8 \<le> c"
    using that i sz by (cases "r = 8") (auto simp: defs)
  have 3: "finders sz (r, c) \<or> formatArea sz (r, c)" if "sz - 8 \<le> r" "c \<le> 8"
    using that i sz by (cases "c = 8") (auto simp: defs)
  have 4: "finders sz (r, c) \<or> timing sz (r, c)" if "r = 6"
    using that i sz by (cases "c \<le> 7"; cases "sz - 8 \<le> c") (auto simp: defs)
  have 5: "finders sz (r, c) \<or> timing sz (r, c)" if "c = 6"
    using that i sz by (cases "r \<le> 7"; cases "sz - 8 \<le> r") (auto simp: defs)
  have fm: "functionModule v (r, c) \<longleftrightarrow> (r \<le> 8 \<and> c \<le> 8) \<or> (r \<le> 8 \<and> sz - 8 \<le> c) \<or> (sz - 8 \<le> r \<and> c \<le> 8) \<or>
      r = 6 \<or> c = 6 \<or> alignment v (r, c)"
    using assms(2) by (simp add: functionModule_def alignment_def square_def Let_def)
  show ?thesis
  proof
    assume "functionModule v p"
    then show "finders sz p \<or> timing sz p \<or> alignment v p \<or> p = (sz - 8, 8) \<or> formatArea sz p"
      unfolding p fm using 1 2 3 4 5 by blast
  next
    assume "finders sz p \<or> timing sz p \<or> alignment v p \<or> p = (sz - 8, 8) \<or> formatArea sz p"
    then show "functionModule v p"
      unfolding p fm by (elim disjE) (auto simp: defs)
  qed
qed

lemma finder_corners:
  assumes "sz \<ge> 21"
  shows "finders sz (6, 6)" "finders sz (6, sz - 7)" "finders sz (sz - 7, 6)"
    "\<not> timing sz (sz - 7, sz - 7)" "\<not> finders sz (sz - 7, sz - 7)"
  using assms by (auto simp: finders_def timing_def square_def inside_def)

lemma placePatterns_reserved:
  assumes v: "v \<in> {1, 2, 3, 4}" and p: "inside (int (versionSize v)) p"
  shows "snd (placePatterns v) p \<longleftrightarrow> functionModule v p"
proof -
  define sz where "sz = int (versionSize v)"
  define cv0 :: canvas where "cv0 = (\<lambda>_. None, \<lambda>_. False)"
  define cv1 where "cv1 = placeFinder sz 0 0 cv0"
  define cv2 where "cv2 = placeFinder sz 0 (sz - 7) cv1"
  define cv3 where "cv3 = placeFinder sz (sz - 7) 0 cv2"
  define cv4 where "cv4 = placeTiming sz cv3"
  define cv5 where "cv5 = placeAlignments v cv4"
  have sz: "sz \<ge> 21" using version_sizes [OF v] sz_def by auto
  have c0: "consistent cv0" by (simp add: consistent_def cv0_def)
  have c1: "consistent cv1" using paintsD(1) [OF placeFinder_paints c0] cv1_def by simp
  have c2: "consistent cv2" using paintsD(1) [OF placeFinder_paints c1] cv2_def by simp
  have c3: "consistent cv3" using paintsD(1) [OF placeFinder_paints c2] cv3_def by simp
  have c4: "consistent cv4" using paintsD(1) [OF placeTiming_paints c3] cv4_def by simp
  have s3: "snd cv3 q \<longleftrightarrow> finders sz q" for q
    using paintsD(2) [OF placeFinder_paints c0, of sz 0 0 q] paintsD(2) [OF placeFinder_paints c1, of sz 0 "sz - 7" q]
      paintsD(2) [OF placeFinder_paints c2, of sz "sz - 7" 0 q]
    by (auto simp: cv3_def cv2_def cv1_def cv0_def finders_def)
  have s4: "snd cv4 q \<longleftrightarrow> timing sz q \<or> finders sz q" for q
    using paintsD(2) [OF placeTiming_paints c3, of sz q] s3 [of q]
    unfolding cv4_def bex_disj_distrib set_line by (auto simp: timing_def)
  have corners: "snd cv4 (6, 6)" "snd cv4 (6, sz - 7)" "snd cv4 (sz - 7, 6)" "\<not> snd cv4 (sz - 7, sz - 7)"
    using finder_corners [of sz] sz unfolding s4 by blast+
  have s5: "snd cv5 q \<longleftrightarrow> alignment v q \<or> timing sz q \<or> finders sz q" for q
    using placeAlignments_eq [OF v c4 sz_def corners, of q] unfolding cv5_def s4 by blast
  have "snd (placePatterns v) p \<longleftrightarrow> formatArea sz p \<or> p = (sz - 8, 8) \<or> snd cv5 p"
    by (simp add: placePatterns_def Let_def reserveFormat_marks put_module_def fun_upd_def
        flip: sz_def cv0_def cv1_def cv2_def cv3_def cv4_def cv5_def)
  then show ?thesis
    using functionModule_union [OF v sz_def] p s5 [of p] sz_def by auto
qed

lemma markFinder_marks [marking]:
  "marks (markFinder sz r0 c0) (\<lambda>p. square (r0 - 1) (c0 - 1) (r0 + 7) (c0 + 7) p \<and> inside sz p)"
proof -
  have "marks (markFinder sz r0 c0) (\<lambda>p. \<exists>r \<in> set [-1..7]. \<exists>c \<in> set [-1..7].
     (r0 + r \<ge> 0 \<and> r0 + r < sz \<and> c0 + c \<ge> 0 \<and> c0 + c < sz) \<and> p = (r0 + r, c0 + c))"
    unfolding markFinder_def Let_def by (intro marking)
  then show ?thesis
    unfolding ex_square [where Q = "\<lambda>r c. r \<ge> 0 \<and> r < sz \<and> c \<ge> 0 \<and> c < sz"]
    by (simp add: inside_def conj_ac)
qed

lemma markAlignments_eq:
  assumes v: "v \<in> {1, 2, 3, 4}" and sz: "sz = int (versionSize v)"
  shows "markAlignments sz (alignPositions v) res p \<longleftrightarrow> alignment v p \<or> res p"
proof (cases "v = 1")
  case False
  have "marks (fold (\<lambda>r. fold (\<lambda>c res. res((sz - 7 + r, sz - 7 + c) := True)) [-2..2]) [-2..2])
      (\<lambda>p. \<exists>r \<in> set [-2..2]. \<exists>c \<in> set [-2..2]. True \<and> p = (sz - 7 + r, sz - 7 + c))"
    unfolding simp_thms by (intro marking)
  then have m: "fold (\<lambda>r. fold (\<lambda>c res. res((sz - 7 + r, sz - 7 + c) := True)) [-2..2]) [-2..2] res p \<longleftrightarrow>
      square (sz - 9) (sz - 9) (sz - 5) (sz - 5) p \<or> res p"
    unfolding ex_square [where Q = "\<lambda>r c. True"] by (simp add: marks_def)
  have "sz \<ge> 25" using False v sz by (auto simp: versionSize_def)
  then have o: "overlapsFinder sz 6 6" "overlapsFinder sz 6 (sz - 7)" "overlapsFinder sz (sz - 7) 6"
    "\<not> overlapsFinder sz (sz - 7) (sz - 7)"
    by (auto simp: overlapsFinder_def)
  have "alignPositions v = [6, sz - 7]" using False v sz by (simp add: alignPositions_eq)
  then have "markAlignments sz (alignPositions v) res =
      fold (\<lambda>r. fold (\<lambda>c res. res((sz - 7 + r, sz - 7 + c) := True)) [-2..2]) [-2..2] res"
    using o by (simp only: markAlignments_def fold_simps if_True if_False id_apply)
  then show ?thesis using m False sz by (simp only: alignment_def Let_def) simp
qed (simp add: markAlignments_def alignPositions_eq(1) [unfolded One_nat_def] alignment_def)

lemma buildReservedMask_reserved:
  assumes v: "v \<in> {1, 2, 3, 4}" and p: "inside (int (versionSize v)) p"
  shows "buildReservedMask v p \<longleftrightarrow> functionModule v p"
proof -
  define sz where "sz = int (versionSize v)"
  have f: "fold (\<lambda>i res. res((6, i) := True, (i, 6) := True)) [8..sz - 9] res p \<longleftrightarrow>
      (\<exists>i \<in> set [8..sz - 9]. p = (6, i) \<or> p = (i, 6)) \<or> res p"
    "fold (\<lambda>i res. res((8, i) := True, (i, 8) := True)) [0..8] res p \<longleftrightarrow>
      (\<exists>i \<in> set [0..8]. p = (8, i) \<or> p = (i, 8)) \<or> res p"
    "fold (\<lambda>i res. res((8, sz - 1 - i) := True, (sz - 1 - i, 8) := True)) [0..7] res p \<longleftrightarrow>
      (\<exists>i \<in> set [0..7]. p = (8, sz - 1 - i) \<or> p = (sz - 1 - i, 8)) \<or> res p"
    "(res(q := True)) p \<longleftrightarrow> p = q \<or> res p" for res :: "bool grid" and q
    by (rule marksD, intro marking)+
  have m: "markFinder sz r0 c0 res p \<longleftrightarrow> (square (r0 - 1) (c0 - 1) (r0 + 7) (c0 + 7) p \<and> inside sz p) \<or> res p" for r0 c0 res
    by (rule marksD [OF markFinder_marks])
  show ?thesis
    using functionModule_union [OF v sz_def] p
    unfolding buildReservedMask_def Let_def sz_def [symmetric] f markAlignments_eq [OF v sz_def] m bex_disj_distrib set_line
    by (auto simp: finders_def timing_def formatArea_def)
qed

section \<open>Data modules\<close>

lemma distinct_concat_map:
  assumes "distinct xs" "\<And>x. x \<in> set xs \<Longrightarrow> distinct (f x)"
    "\<And>x y. x \<in> set xs \<Longrightarrow> y \<in> set xs \<Longrightarrow> x \<noteq> y \<Longrightarrow> set (f x) \<inter> set (f y) = {}"
  shows "distinct (concat (map f xs))"
  using assms
proof (induction xs)
  case (Cons x xs)
  then have "set (f x) \<inter> \<Union> (set ` f ` set xs) = {}" by fastforce
  then show ?case using Cons by auto
qed simp

lemma set_stripVisit:
  "p \<in> set (stripVisit sz col) \<Longrightarrow> inside sz p \<and> (snd p = col \<or> snd p = col - 1)"
  by (auto simp: stripVisit_def inside_def Let_def split: if_splits)

lemma distinct_stripVisit: "distinct (stripVisit sz col)"
  unfolding stripVisit_def by (rule distinct_concat_map) (auto simp: Let_def split: if_splits)

lemma stripCols_visit:
  "distinct (concat (map (stripVisit sz) (stripCols col))) \<and>
   (\<forall>p \<in> set (concat (map (stripVisit sz) (stripCols col))). inside sz p \<and> snd p \<le> col)"
proof (induction col rule: stripCols.induct)
  case (1 col)
  consider "col < 0" | "col = 6" | "col \<ge> 0" "col \<noteq> 6" by linarith
  then show ?case
  proof cases
    case 2
    then show ?thesis using 1(1) by (fastforce simp: stripCols.simps [of 6])
  next
    case 3
    then have e: "stripCols col = col # stripCols (col - 2)" by (simp add: stripCols.simps [of col])
    have IH: "distinct (concat (map (stripVisit sz) (stripCols (col - 2))))"
      "\<And>p. p \<in> set (concat (map (stripVisit sz) (stripCols (col - 2)))) \<Longrightarrow> inside sz p \<and> snd p \<le> col - 2"
      using 1(2) 3 by auto
    then have "set (stripVisit sz col) \<inter> set (concat (map (stripVisit sz) (stripCols (col - 2)))) = {}"
      using set_stripVisit [of _ sz col] by fastforce
    moreover have "inside sz p \<and> snd p \<le> col" if "p \<in> set (stripVisit sz col)" for p
      using set_stripVisit [OF that] by auto
    ultimately show ?thesis using IH distinct_stripVisit [of sz col] unfolding e by fastforce
  qed (simp add: stripCols.simps [of col])
qed

lemma visit_distinct: "distinct (visit sz)"
  and visit_inside: "p \<in> set (visit sz) \<Longrightarrow> inside sz p"
  using stripCols_visit [of sz "sz - 1"] by (auto simp: visit_def)

lemma placeBit_simps:
  "res p \<Longrightarrow> placeBit bits res p st = st"
  "\<not> res p \<Longrightarrow> placeBit bits res p (m, k) =
     (m(p := Some (if k < length bits then bits ! k = 1 else False)), Suc k)"
  by (simp_all add: placeBit_def)

lemma placeBit_other: "q \<notin> set ps \<Longrightarrow> fst (fold (placeBit bits res) ps (m, k)) q = m q"
proof (induction ps arbitrary: m k)
  case (Cons p ps)
  then show ?case by (cases "res p") (simp_all add: placeBit_simps)
qed simp

lemma fold_placeBit:
  "distinct ps \<Longrightarrow> i < length (filter (\<lambda>p. \<not> res p) ps) \<Longrightarrow>
   fst (fold (placeBit bits res) ps (m, k)) (filter (\<lambda>p. \<not> res p) ps ! i) =
     Some (if k + i < length bits then bits ! (k + i) = 1 else False)"
proof (induction ps arbitrary: m k i)
  case (Cons p ps)
  show ?case
  proof (cases "res p")
    case False
    then show ?thesis
      using Cons by (cases i) (simp_all add: placeBit_simps placeBit_other)
  qed (use Cons in \<open>simp add: placeBit_simps\<close>)
qed simp

lemma filter_reserved:
  "v \<in> {1, 2, 3, 4} \<Longrightarrow> filter (\<lambda>p. \<not> snd (placePatterns v) p) (visit (int (versionSize v))) = dataModules v"
  unfolding dataModules_def by (rule filter_cong) (auto simp: placePatterns_reserved visit_inside)

lemma buildMatrix_bit:
  assumes "v \<in> {1, 2, 3, 4}" "i < length (dataModules v)" "i < length (codewordBits cws)"
  shows "buildMatrix cws v (dataModules v ! i) \<longleftrightarrow> codewordBits cws ! i = 1"
  using fold_placeBit [OF visit_distinct [of "int (versionSize v)"], of i "snd (placePatterns v)" "codewordBits cws" "fst (placePatterns v)" 0]
    assms
  by (simp add: buildMatrix_def Let_def filter_reserved case_prod_beta)

lemma dataModules_counts1:
  "length (dataModules 1) = 208"
  by code_simp

lemma dataModules_counts2:
  "length (dataModules 2) = 359"
  by code_simp

lemma dataModules_counts3:
  "length (dataModules 3) = 567"
  by code_simp

lemma dataModules_counts4:
  "length (dataModules 4) = 807"
  by code_simp

lemma dataModules_count:
  assumes "VERSION_TABLE v = Some info"
  shows "8 * totalCW info \<le> length (dataModules v)"
  using assms dataModules_counts1 dataModules_counts2 dataModules_counts3 dataModules_counts4
  by (auto simp: VERSION_TABLE_def split: if_splits)

section \<open>Mask and format information\<close>

lemma fold_write:
  assumes "\<And>j. j \<in> set xs \<Longrightarrow> a j = p \<Longrightarrow> x j = d" "\<And>j. j \<in> set xs \<Longrightarrow> b j = p \<Longrightarrow> x j = d"
    "(\<exists>j \<in> set xs. a j = p) \<or> m p = d"
  shows "fold (\<lambda>i m. m(a i := x i, b i := x i)) xs m p = d"
  using assms
proof (induction xs arbitrary: m)
  case (Cons j xs)
  show ?case unfolding fold_simps comp_apply
    by (rule Cons.IH) (use Cons.prems in auto)
qed simp

lemma fold_write':
  assumes "\<And>j. j \<in> set xs \<Longrightarrow> a j \<noteq> p" "\<And>j. j \<in> set xs \<Longrightarrow> b j = p \<Longrightarrow> x j = d" "\<exists>j \<in> set xs. b j = p"
  shows "fold (\<lambda>i m. m(a i := x i, b i := x i)) xs m p = d"
  using assms
proof (induction xs arbitrary: m)
  case (Cons j xs)
  show ?case
  proof (cases "\<exists>k \<in> set xs. b k = p")
    case False
    then have "b j = p" "x j = d" using Cons.prems by auto
    then show ?thesis unfolding fold_simps comp_apply
      by (intro fold_write) (use Cons.prems in auto)
  qed (use Cons in auto)
qed simp

lemma formatPos_inj: "i < 15 \<Longrightarrow> j < 15 \<Longrightarrow> formatPos i = formatPos j \<Longrightarrow> i = j"
  by (auto simp: formatPos_def split: if_splits)

lemma formatMirror_other: "sz \<ge> 21 \<Longrightarrow> i < 15 \<Longrightarrow> j < 15 \<Longrightarrow> formatMirror sz i \<noteq> formatPos j"
  by (auto simp: formatPos_def formatMirror_def)

lemma writeFormatInfo_read:
  "sz \<ge> 21 \<Longrightarrow> i < 15 \<Longrightarrow> writeFormatInfo sz mat k (formatPos i) \<longleftrightarrow> formatBit k i"
  unfolding writeFormatInfo_def
  by (rule fold_write) (auto dest: formatPos_inj formatMirror_other)

lemma writeFormatInfo_mirror:
  assumes "sz \<ge> 21" shows "writeFormatInfo sz mat k (sz - 8, 8) \<longleftrightarrow> formatBit k 7"
  unfolding writeFormatInfo_def
proof (rule fold_write')
  show "formatPos j \<noteq> (sz - 8, 8)" if "j \<in> set [0..<15]" for j
    using formatMirror_other [of sz 7 j] that assms by (simp add: formatMirror_def)
  show "formatBit k j = formatBit k 7" if "formatMirror sz j = (sz - 8, 8)" for j
  proof -
    have "j = 7" using that by (simp add: formatMirror_def split: if_splits)
    then show ?thesis by simp
  qed
  show "\<exists>j \<in> set [0..<15]. formatMirror sz j = (sz - 8, 8)"
    by (rule bexI [of _ 7]) (simp_all add: formatMirror_def)
qed

lemma writeFormatInfo_other:
  assumes "v \<in> {1, 2, 3, 4}" "\<not> functionModule v p"
  shows "writeFormatInfo (int (versionSize v)) mat k p = mat p"
proof -
  have "formatPos i \<noteq> p" "formatMirror (int (versionSize v)) i \<noteq> p" if "i < 15" for i
    using assms that by (auto simp: functionModule_def formatPos_def formatMirror_def Let_def split: if_splits)
  then show ?thesis unfolding writeFormatInfo_def by (intro fold_write) auto
qed

lemma masked_data:
  assumes "v \<in> {1, 2, 3, 4}" "p \<in> set (dataModules v)"
  shows "maskedMatrix v mat k p \<longleftrightarrow> mat p \<noteq> (MASK_FUNCTIONS ! k) (fst p) (snd p)"
proof -
  have p: "inside (int (versionSize v)) p" "\<not> functionModule v p"
    using assms(2) visit_inside by (auto simp: dataModules_def)
  then have "\<not> buildReservedMask v p" using buildReservedMask_reserved assms(1) by blast
  then show ?thesis
    using writeFormatInfo_other [OF assms(1) p(2)] p(1)
    by (cases p) (auto simp: maskedMatrix_def applyMask_def inside_def Let_def)
qed

lemma formatBit_7: "m < 8 \<Longrightarrow> formatBit m 7 \<longleftrightarrow> 4 \<le> m"
proof -
  assume "m < 8"
  then have "m = 0 \<or> m = 1 \<or> m = 2 \<or> m = 3 \<or> m = 4 \<or> m = 5 \<or> m = 6 \<or> m = 7" by arith
  then show ?thesis by (elim disjE) (simp_all add: formatBit_def FORMAT_BITS_def drop_bit_eq_div)
qed

lemma formats_distinct: "distinct (map (\<lambda>m. (formatBit m 2, formatBit m 3, formatBit m 4)) [0..<8])"
  by (simp add: upt_rec formatBit_def FORMAT_BITS_def drop_bit_eq_div)

lemma formats_differ:
  "m < 8 \<Longrightarrow> k < 8 \<Longrightarrow> (\<forall>i < 15. formatBit m i = formatBit k i) \<Longrightarrow> m = k"
  using formats_distinct unfolding distinct_map
  by (intro inj_onD [where f = "\<lambda>m. (formatBit m 2, formatBit m 3, formatBit m 4)" and A = "set [0..<8]"]) auto

lemma readMask_masked:
  assumes "v \<in> {1, 2, 3, 4}" "k < 8"
  shows "readMask (sz, maskedMatrix v mat k) = Some k"
proof -
  have "int (versionSize v) \<ge> 21" using version_sizes [OF assms(1)] by auto
  then have r: "maskedMatrix v mat k (formatPos i) = formatBit k i" if "i < 15" for i
    using that by (simp add: maskedMatrix_def writeFormatInfo_read Let_def)
  have "(\<forall>i \<in> set [0..<15]. snd (sz, maskedMatrix v mat k) (formatPos i) = formatBit m i) \<longleftrightarrow> m = k" if "m < 8" for m
    using r formats_differ [OF that assms(2)] by auto
  then have "readMask (sz, maskedMatrix v mat k) = find (\<lambda>m. m = k) [0..<8]"
    unfolding readMask_def by (intro find_cong) auto
  also have "\<dots> = Some k" unfolding find_Some_iff by (rule exI [of _ k]) (use assms(2) in auto)
  finally show ?thesis .
qed

text \<open>The loop over the masks keeps the first one with the least penalty.\<close>

definition maskPenalty :: "nat \<Rightarrow> bool grid \<Rightarrow> nat \<Rightarrow> int" where
  "maskPenalty v mat m = penaltyScore (int (versionSize v)) (maskedMatrix v mat m)"

lemma fold_tryMask:
  "0 < n \<Longrightarrow> \<exists>m < n. fold (tryMask v mat) [0..<n] (mat, None) = (maskedMatrix v mat m, Some (maskPenalty v mat m)) \<and>
     (\<forall>k < n. maskPenalty v mat m \<le> maskPenalty v mat k) \<and> (\<forall>k < m. maskPenalty v mat m < maskPenalty v mat k)"
proof (induction n)
  case (Suc n)
  show ?case
  proof (cases n)
    case 0
    then show ?thesis by (simp add: tryMask_def Let_def maskPenalty_def)
  next
    case (Suc n')
    then obtain m where m: "m < n"
      "fold (tryMask v mat) [0..<n] (mat, None) = (maskedMatrix v mat m, Some (maskPenalty v mat m))"
      "\<forall>k < n. maskPenalty v mat m \<le> maskPenalty v mat k" "\<forall>k < m. maskPenalty v mat m < maskPenalty v mat k"
      using Suc.IH by auto
    show ?thesis
    proof (cases "maskPenalty v mat n < maskPenalty v mat m")
      case True
      then have "fold (tryMask v mat) [0..<Suc n] (mat, None) = (maskedMatrix v mat n, Some (maskPenalty v mat n))"
        using m(2) by (simp add: tryMask_def Let_def maskPenalty_def)
      moreover have "\<forall>k < n. maskPenalty v mat n < maskPenalty v mat k" using True m(3) by force
      ultimately show ?thesis by (intro exI [of _ n]) (auto simp: less_Suc_eq order.strict_implies_order)
    next
      case False
      then have "fold (tryMask v mat) [0..<Suc n] (mat, None) = (maskedMatrix v mat m, Some (maskPenalty v mat m))"
        using m(2) by (simp add: tryMask_def Let_def maskPenalty_def)
      then show ?thesis using m False by (intro exI [of _ m]) (auto simp: less_Suc_eq)
    qed
  qed
qed simp

section \<open>Reading back\<close>

lemma codewordBits_toBits: "codewordBits cws = concat (map (toBits 8) cws)"
  unfolding codewordBits_def toBits_def [abs_def] ..

lemma bitsToBytes_codewords: "bytes cws \<Longrightarrow> bitsToBytes (codewordBits cws) = cws"
proof (rule nth_equalityI)
  let ?bits = "concat (map (toBits 8) cws)"
  show l: "length (bitsToBytes (codewordBits cws)) = length cws"
    by (simp add: codewordBits_toBits bitsToBytes_def)
  fix k assume b: "bytes cws" and "k < length (bitsToBytes (codewordBits cws))"
  then have k: "k < length cws" using l by simp
  have "bitsToBytes (codewordBits cws) ! k = fromBits (take 8 (drop (8 * k) (?bits @ [])))"
    using k by (simp add: codewordBits_toBits bitsToBytes_def byteAt_fromBits)
  also have "\<dots> = cws ! k"
    using b k drop_concat_toBits [OF k, of "[]"] by (simp add: fromBits_toBits bytes_nthD)
  finally show "bitsToBytes (codewordBits cws) ! k = cws ! k" .
qed

lemma readModules_bits:
  assumes v: "v \<in> {1, 2, 3, 4}" and n: "8 * length cws \<le> length (dataModules v)"
  shows "take (8 * length cws) (readModules v k (sz, maskedMatrix v (buildMatrix cws v) k)) = codewordBits cws"
proof (rule nth_equalityI)
  have len: "length (codewordBits cws) = 8 * length cws" by (simp add: codewordBits_toBits)
  then show "length (take (8 * length cws) (readModules v k (sz, maskedMatrix v (buildMatrix cws v) k))) =
      length (codewordBits cws)"
    using n by (simp add: readModules_def)
  fix i assume "i < length (take (8 * length cws) (readModules v k (sz, maskedMatrix v (buildMatrix cws v) k)))"
  then have i: "i < 8 * length cws" "i < length (dataModules v)" using n by auto
  have "codewordBits cws ! i < 2"
    using i(1) len binary_concat_toBits [of cws] nth_mem [of i "codewordBits cws"]
    unfolding codewordBits_toBits [symmetric] binary_def by simp
  then have bit: "of_bool (codewordBits cws ! i = 1) = codewordBits cws ! i" by (cases "codewordBits cws ! i = 0") simp_all
  let ?p = "dataModules v ! i"
  have "take (8 * length cws) (readModules v k (sz, maskedMatrix v (buildMatrix cws v) k)) ! i =
      of_bool (maskedMatrix v (buildMatrix cws v) k ?p \<noteq> (MASK_FUNCTIONS ! k) (fst ?p) (snd ?p))"
    using i by (simp add: readModules_def case_prod_beta)
  also have "\<dots> = of_bool (buildMatrix cws v ?p)"
    using masked_data [OF v, of ?p] i(2) by simp
  also have "\<dots> = codewordBits cws ! i"
    using buildMatrix_bit [OF v i(2), of cws] i(1) len by (simp only: bit)
  finally show "take (8 * length cws) (readModules v k (sz, maskedMatrix v (buildMatrix cws v) k)) ! i = codewordBits cws ! i" .
qed

lemma utf8_char: "n < 256 \<Longrightarrow> bytes (if n < 128 then [n] else [192 + n div 64, 128 + n mod 64])"
proof -
  assume "n < 256"
  then have "n div 64 < 4" by (simp add: less_mult_imp_div_less)
  moreover have "n mod 64 < 64" by simp
  ultimately have "192 + n div 64 < 256" "128 + n mod 64 < 256" by linarith+
  then show ?thesis by (simp add: bytes_def)
qed

lemma utf8_bytes: "bytes (utf8 s)"
proof (induction s)
  case (Cons ch s)
  have "utf8 (ch # s) = (let n = of_char ch in if n < 128 then [n] else [192 + n div 64, 128 + n mod 64]) @ utf8 s"
    by (simp add: utf8_def)
  then show ?case
    using Cons utf8_char [OF of_char_less_256 [of ch]] by (simp add: Let_def)
qed (simp add: utf8_def bytes_def)

text \<open>What the generator returns: the base matrix of the encoded text under the best mask.\<close>

lemma generateQRMatrix_cases:
  assumes "generateQRMatrix text = Inr qr"
  obtains v info data cws m where "encodeData (utf8 text) v = Some data" "selectVersion (length (utf8 text)) = Inr v" "VERSION_TABLE v = Some info"
    "v \<in> {1, 2, 3, 4}" "decodeData data = Some (utf8 text)" "bytes data" "length data = dataCW info"
    "buildCodewords data v = Some cws" "m < 8" "qr = (int (versionSize v), maskedMatrix v (buildMatrix cws v) m)"
    "\<forall>k < 8. maskPenalty v (buildMatrix cws v) m \<le> maskPenalty v (buildMatrix cws v) k"
proof -
  obtain v where v: "selectVersion (length (utf8 text)) = Inr v"
    using assms by (auto simp: generateQRMatrix_def Let_def split: sum.splits)
  obtain info data where data: "VERSION_TABLE v = Some info" "encodeData (utf8 text) v = Some data"
    "length data = dataCW info" "bytes data" "decodeData data = Some (utf8 text)"
    using qr_data_roundtrip [OF utf8_bytes v] by blast
  obtain cws where cws: "buildCodewords data v = Some cws"
    using interleaved_blocks [OF data(1,4,3)] by blast
  obtain m where m: "m < 8" "fold (tryMask v (buildMatrix cws v)) [0..<8] (buildMatrix cws v, None) =
      (maskedMatrix v (buildMatrix cws v) m, Some (maskPenalty v (buildMatrix cws v) m))"
    "\<forall>k < 8. maskPenalty v (buildMatrix cws v) m \<le> maskPenalty v (buildMatrix cws v) k"
    using fold_tryMask [of 8 v "buildMatrix cws v", OF zero_less_numeral] by blast
  have "qr = (int (versionSize v), maskedMatrix v (buildMatrix cws v) m)"
    using assms m(2) by (simp add: generateQRMatrix_def v data(2) cws Let_def)
  then show thesis using that v data cws m selectVersion_cases(1) [OF v] by blast
qed

lemma generated_symbol_readable:
  assumes "generateQRMatrix text = Inr qr"
  shows "decodeQR qr = Some (utf8 text) \<and> length (utf8 text) \<le> 62"
  using assms
proof (cases rule: generateQRMatrix_cases)
  case (1 v info data cws m)
  have c: "length cws = totalCW info" "bytes cws" "readBlocks info cws = data"
    using interleaved_blocks [OF 1(3,6,7)] 1(8) by (auto simp: readBlocks_def)
  have "take (8 * totalCW info) (readModules v m qr) = codewordBits cws"
    using readModules_bits [OF 1(4), of cws] dataModules_count [OF 1(3)] c(1) 1(10) by simp
  moreover have "nat ((fst qr - 17) div 4) = v" by (simp add: 1(10) versionSize_def)
  ultimately have "decodeQR qr = Some (utf8 text)"
    using readMask_masked [OF 1(4,9)] 1(3,5,10) c bitsToBytes_codewords [OF c(2)]
    by (simp add: decodeQR_def Let_def)
  moreover have "length (utf8 text) \<le> 62"
    using 1(2) by (auto simp: selectVersion_def BYTE_CAPACITY_def upt_rec split: if_splits)
  ultimately show ?thesis by simp
qed

lemma generated_symbol_refused:
  "generateQRMatrix text = Inl e \<longleftrightarrow> e = DataTooLong (length (utf8 text)) \<and> length (utf8 text) > 62"
  by (auto simp: generateQRMatrix_def Let_def selectVersion_def BYTE_CAPACITY_def upt_rec split: sum.splits if_splits)

text \<open>
  The mask of a finished symbol is one with the least penalty score among all eight.
\<close>

theorem least_penalty_mask:
  "case generateQRMatrix text of
     Inl e \<Rightarrow> True
   | Inr qr \<Rightarrow> \<exists>v data cws m. selectVersion (length (utf8 text)) = Inr v \<and> encodeData (utf8 text) v = Some data \<and>
       buildCodewords data v = Some cws \<and> readMask qr = Some m \<and>
       penaltyScore (fst qr) (snd qr) = Min (maskPenalty v (buildMatrix cws v) ` {..<8})"
proof (cases "generateQRMatrix text")
  case (Inr qr)
  from Inr show ?thesis
  proof (cases rule: generateQRMatrix_cases)
    case (1 v info data cws m)
    have "Min (maskPenalty v (buildMatrix cws v) ` {..<8}) = maskPenalty v (buildMatrix cws v) m"
      using 1(9,11) by (intro Min_eqI) auto
    then show ?thesis
      using Inr 1(1,2,8,10) readMask_masked [OF 1(4,9)] by (auto simp: maskPenalty_def)
  qed
qed simp

text \<open>
  The module above the lower left separator, which the standard keeps dark and which
  \<open>buildMatrix\<close> makes dark, is overwritten with bit 7 of the format information: it is light in every
  symbol whose mask is one of the first four.
\<close>

theorem dark_module_overwritten:
  "case generateQRMatrix text of
     Inl e \<Rightarrow> True
   | Inr qr \<Rightarrow> \<exists>m. readMask qr = Some m \<and> m < 8 \<and> (snd qr (fst qr - 8, 8) \<longleftrightarrow> 4 \<le> m)"
proof (cases "generateQRMatrix text")
  case (Inr qr)
  from Inr show ?thesis
  proof (cases rule: generateQRMatrix_cases)
    case (1 v info data cws m)
    let ?sz = "int (versionSize v)"
    have "?sz \<ge> 21" using version_sizes [OF 1(4)] by auto
    then have "writeFormatInfo ?sz mat m (?sz - 8, 8) = formatBit m 7" for mat
      by (rule writeFormatInfo_mirror)
    moreover have "formatBit m 7 \<longleftrightarrow> 4 \<le> m"
      using 1(9) by (rule formatBit_7)
    ultimately show ?thesis
      using Inr 1(10) readMask_masked [OF 1(4,9)] 1(9) by (auto simp: maskedMatrix_def Let_def)
  qed
qed simp

end
