(* ===== verification/QR_Standard.thy ===== *)
theory QR_Standard
  imports QR_Reader
begin

text \<open>
  A reader of QR symbols of the versions 1 to 4 at error correction level M, written from ISO/IEC 18004 and not
  from the generator: it has its own sizes and block structure, function modules, order of the data modules, mask
  conditions, check of the format information and arithmetic of the error correction code. Only the decoding of a byte segment
  (\<^const>\<open>decodeData\<close>), which no part of the generator uses, is that of \<open>QR_Codewords\<close>. Shown: it reads back every text
  that the generator accepts, with no error to correct.
\<close>

section \<open>The reader\<close>

definition stdSide :: "nat \<Rightarrow> int" where
  "stdSide v = 4 * int v + 17"

text \<open>The block structure at level M: codewords, error correction codewords of a block, blocks, data codewords.\<close>

definition stdInfo :: "nat \<Rightarrow> version_info" where
  "stdInfo v =
     (if v = 1 then \<lparr>totalCW = 26, ecPerBlock = 10, blocks = 1, dataCW = 16\<rparr>
      else if v = 2 then \<lparr>totalCW = 44, ecPerBlock = 16, blocks = 1, dataCW = 28\<rparr>
      else if v = 3 then \<lparr>totalCW = 70, ecPerBlock = 26, blocks = 1, dataCW = 44\<rparr>
      else \<lparr>totalCW = 100, ecPerBlock = 18, blocks = 2, dataCW = 64\<rparr>)"

text \<open>
  Finder patterns with separators and format information in three corners, the timing patterns in row and column 6, and from
  version 2 on one alignment pattern, centred seven modules from the right and the bottom.
\<close>

definition stdFunction :: "nat \<Rightarrow> int \<times> int \<Rightarrow> bool" where
  "stdFunction v = (\<lambda>(r, c). let n = stdSide v in
     (r < 9 \<and> c < 9) \<or> (r < 9 \<and> c > n - 9) \<or> (r > n - 9 \<and> c < 9) \<or> r = 6 \<or> c = 6 \<or>
     (v > 1 \<and> \<bar>r - (n - 7)\<bar> \<le> 2 \<and> \<bar>c - (n - 7)\<bar> \<le> 2))"

text \<open>
  Pairs of columns from the right edge to the left, the timing column left out, the first pair upwards and then in turn; in each row the
  right module first.
\<close>

definition stdColumn :: "int \<Rightarrow> int \<Rightarrow> int" where
  "stdColumn n k = (if n - 1 - 2 * k > 6 then n - 1 - 2 * k else n - 2 - 2 * k)"

definition stdPair :: "int \<Rightarrow> int \<Rightarrow> (int \<times> int) list" where
  "stdPair n k =
     concat (map (\<lambda>r. [(r, stdColumn n k), (r, stdColumn n k - 1)]) (if even k then rev [0..n - 1] else [0..n - 1]))"

definition stdOrder :: "int \<Rightarrow> (int \<times> int) list" where
  "stdOrder n = concat (map (stdPair n) [0..(n - 1) div 2 - 1])"

text \<open>The condition under which a mask inverts a module.\<close>

fun stdMask :: "nat \<Rightarrow> int \<Rightarrow> int \<Rightarrow> bool" where
  "stdMask m i j =
     (if m = 0 then even (i + j)
      else if m = 1 then even i
      else if m = 2 then 3 dvd j
      else if m = 3 then 3 dvd (i + j)
      else if m = 4 then even (i div 2 + j div 3)
      else if m = 5 then 6 dvd (i * j)
      else if m = 6 then even ((i * j) mod 2 + (i * j) mod 3)
      else even ((i + j) mod 2 + (i * j) mod 3))"

text \<open>
  The format information beside the upper left finder pattern, most significant bit first. It is masked with
  \<open>101010000010010\<close>; the word is five data bits, the level (\<open>00\<close> for M) and the mask, and ten bits that make it divisible
  by \<open>10100110111\<close>.
\<close>

definition stdFormatModules :: "(int \<times> int) list" where
  "stdFormatModules = [(8, 0), (8, 1), (8, 2), (8, 3), (8, 4), (8, 5), (8, 7), (8, 8), (7, 8), (5, 8), (4, 8), (3, 8), (2, 8), (1, 8), (0, 8)]"

definition bchRemainder :: "nat \<Rightarrow> nat" where
  "bchRemainder w = fold (\<lambda>k w. if bit w (10 + k) then w XOR push_bit k 1335 else w) [4, 3, 2, 1, 0] w"

definition stdFormat :: "nat list \<Rightarrow> nat option" where
  "stdFormat bits =
     (let w = fromBits bits XOR 21522
      in if bchRemainder w = 0 \<and> w div 8192 = 0 then Some (w div 1024) else None)"

definition stdReadMask :: "symbol \<Rightarrow> nat option" where
  "stdReadMask qr = stdFormat (map (\<lambda>p. of_bool (snd qr p)) stdFormatModules)"

definition stdBits :: "nat \<Rightarrow> nat \<Rightarrow> symbol \<Rightarrow> nat list" where
  "stdBits v m qr =
     map (\<lambda>(r, c). of_bool (snd qr (r, c) \<noteq> stdMask m r c)) (filter (\<lambda>p. \<not> stdFunction v p) (stdOrder (stdSide v)))"

definition stdCodewords :: "nat \<Rightarrow> nat list \<Rightarrow> nat list" where
  "stdCodewords n bits = map (\<lambda>k. fromBits (take 8 (drop (8 * k) bits))) [0..<n]"

text \<open>
  The field of 256 elements is that of \<open>x^8 + x^4 + x^3 + x^2 + 1\<close>; a block is free of errors when its polynomial vanishes at the powers
  of \<open>x\<close>: the value at \<open>x^i\<close> by Horner's rule.
\<close>

definition stdDouble :: "nat \<Rightarrow> nat" where
  "stdDouble a = (if a < 128 then 2 * a else (2 * a) XOR 285)"

definition stdSyndrome :: "nat \<Rightarrow> nat list \<Rightarrow> nat" where
  "stdSyndrome i cws = fold (\<lambda>c acc. (stdDouble ^^ i) acc XOR c) cws 0"

definition stdRead :: "symbol \<Rightarrow> nat list option" where
  "stdRead qr =
     (let v = nat ((fst qr - 17) div 4)
      in if v \<notin> {1, 2, 3, 4} \<or> fst qr \<noteq> stdSide v then None
         else case stdReadMask qr of
           None \<Rightarrow> None
         | Some m \<Rightarrow>
             (let info = stdInfo v;
                  cws = stdCodewords (totalCW info) (stdBits v m qr);
                  bs = map (blockOf info cws) [0..<blocks info]
              in if list_all (\<lambda>b. list_all (\<lambda>i. stdSyndrome i b = 0) [0..<ecPerBlock info]) bs
                 then decodeData (concat (map (take (dataCW info div blocks info)) bs))
                 else None))"

section \<open>The generator keeps to the standard\<close>

lemma VERSION_TABLE_std: "VERSION_TABLE v = Some info \<Longrightarrow> info = stdInfo v \<and> v \<in> {1, 2, 3, 4}"
  by (auto simp: VERSION_TABLE_def stdInfo_def split: if_splits)

lemma functionModule_std: "v \<in> {1, 2, 3, 4} \<Longrightarrow> functionModule v p = stdFunction v p"
proof (cases p)
  case (Pair r c)
  assume v: "v \<in> {1, 2, 3, 4}"
  let ?n = "stdSide v"
  have n: "int (versionSize v) = ?n" by (simp add: stdSide_def versionSize_def)
  have "(?n - 8 \<le> x) = (x > ?n - 9)" "(x \<le> 8) = (x < 9)" for x :: int by linarith+
  moreover have "(?n - 9 \<le> r \<and> r \<le> ?n - 5 \<and> ?n - 9 \<le> c \<and> c \<le> ?n - 5) = (\<bar>r - (?n - 7)\<bar> \<le> 2 \<and> \<bar>c - (?n - 7)\<bar> \<le> 2)"
    by (simp add: abs_le_iff) linarith
  moreover have "(v \<noteq> 1) = (v > 1)" using v by auto
  ultimately show ?thesis unfolding Pair functionModule_def stdFunction_def Let_def n by simp
qed

lemma stripCols_std:
  "stripCols 20 = map (stdColumn 21) [0..9]" "stripCols 24 = map (stdColumn 25) [0..11]"
  "stripCols 28 = map (stdColumn 29) [0..13]" "stripCols 32 = map (stdColumn 33) [0..15]"
  by (code_simp)+

lemma goingUp_std:
  "list_all (\<lambda>k. goingUp 21 (stdColumn 21 k) = even k) [0..9]" "list_all (\<lambda>k. goingUp 25 (stdColumn 25 k) = even k) [0..11]"
  "list_all (\<lambda>k. goingUp 29 (stdColumn 29 k) = even k) [0..13]" "list_all (\<lambda>k. goingUp 33 (stdColumn 33 k) = even k) [0..15]"
  by (code_simp)+

lemma stripVisit_std:
  assumes "goingUp n (stdColumn n k) = even k" "0 < stdColumn n k" "stdColumn n k < n"
  shows "stripVisit n (stdColumn n k) = stdPair n k"
proof -
  let ?c = "stdColumn n k"
  have f: "filter (\<lambda>(r, c). \<not> (c < 0 \<or> c \<ge> n)) (map (\<lambda>dc. (row, ?c + dc)) [0, -1]) = [(row, ?c), (row, ?c - 1)]" for row
    using assms(2,3) by auto
  have r: "rev [0..n - 1] = map (\<lambda>i. n - 1 - i) [0..n - 1]"
  proof (rule nth_equalityI)
    fix i assume "i < length (rev [0..n - 1])"
    then have i: "i < nat n" by simp
    then have "rev [0..n - 1] ! i = [0..n - 1] ! (nat n - Suc i)" by (simp add: rev_nth)
    also have "\<dots> = n - 1 - int i" using i by (subst nth_upto) linarith+
    finally show "rev [0..n - 1] ! i = map (\<lambda>i. n - 1 - i) [0..n - 1] ! i" using i by (simp add: nth_upto)
  qed simp
  show ?thesis
  proof (cases "even k")
    case True
    then have "stripVisit n ?c = concat (map (\<lambda>i. [(n - 1 - i, ?c), (n - 1 - i, ?c - 1)]) [0..n - 1])"
      unfolding stripVisit_def Let_def assms(1) f by simp
    then show ?thesis using True unfolding stdPair_def by (simp add: r comp_def)
  next
    case False
    then show ?thesis unfolding stripVisit_def Let_def assms(1) f by (simp add: stdPair_def)
  qed
qed

lemma visit_std:
  assumes "n \<in> {21, 25, 29, 33}"
  shows "visit n = stdOrder n"
proof -
  have c: "stripCols (n - 1) = map (stdColumn n) [0..(n - 1) div 2 - 1]" using assms stripCols_std by auto
  have g: "list_all (\<lambda>k. goingUp n (stdColumn n k) = even k) [0..(n - 1) div 2 - 1]" using assms goingUp_std by auto
  have "stripVisit n (stdColumn n k) = stdPair n k" if "k \<in> set [0..(n - 1) div 2 - 1]" for k
  proof (rule stripVisit_std)
    show "goingUp n (stdColumn n k) = even k" using g that unfolding list_all_iff by blast
    show "0 < stdColumn n k" "stdColumn n k < n" using that assms by (auto simp: stdColumn_def)
  qed
  then show ?thesis unfolding visit_def stdOrder_def c map_map comp_def by (intro arg_cong [where f = concat] map_cong refl)
qed

lemma mod_2_3: "((x::int) mod 2 = 0 \<and> x mod 3 = 0) = (6 dvd x)"
  by presburger

lemma mask_std:
  assumes "m < 8" "0 \<le> r" "0 \<le> c"
  shows "(MASK_FUNCTIONS ! m) r c = stdMask m r c"
proof -
  have "m \<in> {0, 1, 2, 3, 4, 5, 6, 7}" using assms(1) by auto
  moreover have "(r * c) mod 2 + (r * c) mod 3 = 0 \<longleftrightarrow> 6 dvd (r * c)"
  proof -
    have "(r * c) mod 2 + (r * c) mod 3 = 0 \<longleftrightarrow> (r * c) mod 2 = 0 \<and> (r * c) mod 3 = 0"
      using pos_mod_sign [of 2 "r * c"] pos_mod_sign [of 3 "r * c"] by linarith
    also have "\<dots> \<longleftrightarrow> 6 dvd (r * c)" unfolding mod_2_3 ..
    finally show ?thesis .
  qed
  ultimately show ?thesis by (elim insertE emptyE) (simp_all add: MASK_FUNCTIONS_def mod_eq_0_iff_dvd)
qed

lemma format_std: "m < 8 \<Longrightarrow> stdFormat (map (\<lambda>i. of_bool (formatBit m i)) [0..<15]) = Some m"
proof -
  assume "m < 8"
  then have "m \<in> {0, 1, 2, 3, 4, 5, 6, 7}" by auto
  then show ?thesis
    by (elim insertE emptyE) (simp_all add: stdFormat_def formatBit_def FORMAT_BITS_def fromBits_def bchRemainder_def upt_rec drop_bit_eq_div bit_0)
qed

lemma formatModules_std: "stdFormatModules = map formatPos [0..<15]"
  by code_simp

lemma stdReadMask_generated:
  assumes "v \<in> {1, 2, 3, 4}" "m < 8"
  shows "stdReadMask (n, maskedMatrix v mat m) = Some m"
proof -
  have "int (versionSize v) \<ge> 21" using version_sizes [OF assms(1)] by auto
  then have "map (\<lambda>p. of_bool (snd (n, maskedMatrix v mat m) p) :: nat) stdFormatModules = map (\<lambda>i. of_bool (formatBit m i)) [0..<15]"
    unfolding formatModules_std map_map comp_def
    by (intro map_cong refl) (simp add: maskedMatrix_def writeFormatInfo_read Let_def)
  then show ?thesis unfolding stdReadMask_def using format_std [OF assms(2)] by (simp only: snd_conv)
qed

lemma stdDouble_next: "a < 256 \<Longrightarrow> stdDouble a = gf_next a"
  by (simp add: stdDouble_def gf_next_def GF_POLY_def Let_def)

lemma stdDouble_power: "a < 256 \<Longrightarrow> (stdDouble ^^ i) a = gfMul a (gf_pow i)"
proof (induction i)
  case 0
  then show ?case using gfMul_1(2) [of a] by simp
next
  case (Suc i)
  have "(stdDouble ^^ Suc i) a = stdDouble ((gf_next ^^ i) a)"
    using Suc gfMul_next [of a i] by (simp add: gfMul_commute)
  also have "\<dots> = (gf_next ^^ Suc i) a" using funpow_next_less [OF Suc.prems, of i] by (simp add: stdDouble_next)
  finally show ?case using gfMul_next [OF Suc.prems, of "Suc i"] by (simp add: gfMul_commute)
qed

lemma stdSyndrome_peval:
  assumes "bytes cws"
  shows "stdSyndrome i cws = peval cws (gf_pow i)"
proof -
  have "acc < 256 \<Longrightarrow> bytes cws \<Longrightarrow> fold (\<lambda>c acc. (stdDouble ^^ i) acc XOR c) cws acc = pevalFrom acc cws (gf_pow i)" for acc
    by (induction cws arbitrary: acc) (simp_all add: stdDouble_power xor_less_256 gfMul_less gf_pow_less)
  then show ?thesis using assms by (simp add: stdSyndrome_def peval_def)
qed

lemma stdBits_generated:
  assumes "v \<in> {1, 2, 3, 4}" "m < 8"
  shows "stdBits v m qr = readModules v m qr"
proof -
  have n: "int (versionSize v) = stdSide v" by (simp add: stdSide_def versionSize_def)
  have "stdSide v \<in> {21, 25, 29, 33}" using assms(1) by (auto simp: stdSide_def)
  then have o: "visit (stdSide v) = stdOrder (stdSide v)" by (rule visit_std)
  have "filter (\<lambda>p. \<not> stdFunction v p) (stdOrder (stdSide v)) = dataModules v"
    unfolding dataModules_def n o by (rule filter_cong) (simp_all add: functionModule_std [OF assms(1)])
  moreover have "(of_bool (snd qr p \<noteq> stdMask m (fst p) (snd p)) :: nat) = (of_bool (snd qr p \<noteq> (MASK_FUNCTIONS ! m) (fst p) (snd p)) :: nat)"
    if "p \<in> set (dataModules v)" for p
  proof -
    have "inside (int (versionSize v)) p" using that visit_inside by (auto simp: dataModules_def)
    then show ?thesis using mask_std [OF assms(2), of "fst p" "snd p"] by (simp add: inside_def del: stdMask.simps)
  qed
  ultimately show ?thesis
    unfolding stdBits_def readModules_def case_prod_beta prod.collapse by (metis (mono_tags, lifting) map_cong)
qed

lemma stdCodewords_bits: "bytes cws \<Longrightarrow> take (8 * length cws) bits = codewordBits cws \<Longrightarrow> stdCodewords (length cws) bits = cws"
proof (rule nth_equalityI)
  assume b: "bytes cws" and t: "take (8 * length cws) bits = codewordBits cws"
  show "length (stdCodewords (length cws) bits) = length cws" by (simp add: stdCodewords_def)
  fix k assume "k < length (stdCodewords (length cws) bits)"
  then have k: "k < length cws" by (simp add: stdCodewords_def)
  then have "take 8 (drop (8 * k) (take (8 * length cws) bits)) = take 8 (drop (8 * k) bits)"
    by (simp add: drop_take min_def)
  then have "stdCodewords (length cws) bits ! k = fromBits (take 8 (drop (8 * k) (concat (map (toBits 8) cws) @ [])))"
    using k t by (simp add: stdCodewords_def codewordBits_toBits)
  also have "\<dots> = cws ! k" using b k drop_concat_toBits [OF k, of "[]"] by (simp add: fromBits_toBits bytes_nthD)
  finally show "stdCodewords (length cws) bits ! k = cws ! k" .
qed

lemma blockOf_bytes:
  assumes "bytes cws" "v \<in> {1, 2, 3, 4}" "length cws = totalCW (stdInfo v)" "b < blocks (stdInfo v)"
  shows "bytes (blockOf (stdInfo v) cws b)"
proof -
  have "i * blocks (stdInfo v) + b < length cws" if "i < dataCW (stdInfo v) div blocks (stdInfo v)" for i
    using assms(2-4) that by (auto simp: stdInfo_def)
  moreover have "dataCW (stdInfo v) + i * blocks (stdInfo v) + b < length cws" if "i < ecPerBlock (stdInfo v)" for i
    using assms(2-4) that by (auto simp: stdInfo_def)
  ultimately show ?thesis using assms(1) by (auto simp: blockOf_def bytes_def)
qed

lemma generated_symbol_std:
  assumes "generateQRMatrix text = Inr qr"
  shows "stdRead qr = Some (utf8 text)"
  using assms
proof (cases rule: generateQRMatrix_cases)
  case (1 v info data cws m)
  have i: "info = stdInfo v" using VERSION_TABLE_std [OF 1(3)] by simp
  obtain "length cws = totalCW info" "bytes cws" and d: "concat (map (\<lambda>b. take (dataCW info div blocks info) (blockOf info cws b)) [0..<blocks info]) = data"
    and s: "\<forall>b < blocks info. \<forall>k < ecPerBlock info. peval (blockOf info cws b) (GF_EXP ! k) = 0"
    using interleaved_blocks [OF 1(3,6,7)] 1(8) by auto
  note c = this(1,2)
  have "take (8 * totalCW info) (readModules v m qr) = codewordBits cws"
    using readModules_bits [OF 1(4), of cws] dataModules_count [OF 1(3)] c(1) 1(10) by simp
  then have w: "stdCodewords (totalCW info) (stdBits v m qr) = cws"
    using stdCodewords_bits [OF c(2)] c(1) stdBits_generated [OF 1(4,9)] by simp
  have "stdSyndrome k (blockOf info cws b) = 0" if "b < blocks info" "k < ecPerBlock info" for b k
  proof -
    have "k \<le> 255" using that(2) version_table_props(3) [OF 1(3)] by simp
    moreover have "peval (blockOf info cws b) (GF_EXP ! k) = 0" using s that by blast
    moreover have "bytes (blockOf info cws b)" using blockOf_bytes [OF c(2) 1(4)] c(1) that(1) by (simp add: i)
    ultimately show ?thesis using GF_TABLES_ok(3) [of k] by (simp add: stdSyndrome_peval)
  qed
  then have e: "list_all (\<lambda>b. list_all (\<lambda>k. stdSyndrome k b = 0) [0..<ecPerBlock info]) (map (blockOf info cws) [0..<blocks info])"
    by (simp add: list_all_iff)
  have "nat ((fst qr - 17) div 4) = v" "fst qr = stdSide v" by (simp_all add: 1(10) versionSize_def stdSide_def)
  moreover have "stdReadMask qr = Some m" unfolding 1(10) by (rule stdReadMask_generated [OF 1(4,9)])
  ultimately show ?thesis
    using 1(4,5) w e d by (simp add: stdRead_def Let_def i [symmetric] comp_def)
qed

text \<open>
  C9. A reader written from the standard reads back exactly the bytes of the text from every symbol that the generator returns: it finds the
  side of a version, a valid format word of level M in the copy beside the upper left finder pattern, and, under the mask that it names, blocks
  without an error. The only error of the generator is that of a text longer than version 4 holds.
\<close>

theorem qr_readable:
  "case generateQRMatrix text of
     Inr qr \<Rightarrow> stdRead qr = Some (utf8 text) \<and> length (utf8 text) \<le> 62
   | Inl e \<Rightarrow> e = DataTooLong (length (utf8 text)) \<and> length (utf8 text) > 62"
  using generated_symbol_std [of "text"] generated_symbol_readable [of "text"] generated_symbol_refused [of "text"]
  by (auto split: sum.split)

end
