(* ===== verification/Bridge_Server.thy ===== *)
theory Bridge_Server
  imports Bridge_Rate_Limit Bridge_Store Bridge_Token QR_Standard JSON_Text Credential_Schema
begin

text \<open>
  \<^verbatim>\<open>src/services/auth-bridge/server.ts\<close>: the relay through which a browser hands encrypted
  credentials to a headless machine. A request is answered at once, or its handler waits for the
  request body (\<open>Waiting\<close>) and is resumed by the end of the body; other requests run in between, so
  the two halves are separate steps on the server state. The clock is read once per half.

  Bodies are text whose characters have code points below 256; the chunks of a body are cut
  between characters.
\<close>

section \<open>Requests and replies\<close>

record BridgeRequest =
  rq_method :: string
  rq_url :: string
  rq_forwarded :: "string option"
  rq_remote :: "string option"

text \<open>Status, headers of \<^verbatim>\<open>writeHead\<close> and the code points of the body.\<close>

record Reply =
  rp_status :: nat
  rp_headers :: "(string \<times> string) list"
  rp_body :: "nat list"

definition codes :: "string \<Rightarrow> nat list" where
  "codes = map of_char"

definition getClientIP :: "BridgeRequest \<Rightarrow> string" where
  "getClientIP req =
     (case rq_forwarded req of
        Some xff \<Rightarrow> trim (hd (split_on (CHR '','') xff))
      | None \<Rightarrow> (case rq_remote req of Some a \<Rightarrow> a | None \<Rightarrow> ''0.0.0.0''))"

datatype body_event = BodyData string | BodyEnd | BodyError

text \<open>
  The promise resolves with the first event that decides it; \<open>None\<close>: not decided yet. The outcome
  \<open>Some None\<close> is \<^verbatim>\<open>null\<close>.
\<close>

definition MAX_BODY :: nat where
  "MAX_BODY = 65536"

fun parseBody :: "nat \<Rightarrow> string \<Rightarrow> body_event list \<Rightarrow> json option option" where
  "parseBody n chunks [] = None"
| "parseBody n chunks (BodyData chunk # evs) =
     (if n + length (utf8 chunk) > MAX_BODY then Some None
      else parseBody (n + length (utf8 chunk)) (chunks @ chunk) evs)"
| "parseBody n chunks (BodyEnd # evs) = Some (parse_json chunks)"
| "parseBody n chunks (BodyError # evs) = Some None"

definition json_reply :: "nat \<Rightarrow> (string \<times> json) list \<Rightarrow> Reply" where
  "json_reply status data =
     (let body = stringify (JObj data)
      in \<lparr>rp_status = status,
          rp_headers = [(''Content-Type'', ''application/json''), (''Content-Length'', show_nat (length (utf8 body)))],
          rp_body = codes body\<rparr>)"

definition error_reply :: "nat \<Rightarrow> string \<Rightarrow> Reply" where
  "error_reply status msg = json_reply status [(''error'', JStr msg)]"

text \<open>\<open>None\<close> is \<^verbatim>\<open>Infinity\<close>, as in \<^const>\<open>bridge_retryAfterMs\<close>.\<close>

definition rateLimited :: "int option \<Rightarrow> Reply" where
  "rateLimited retryAfterMs =
     \<lparr>rp_status = 429,
      rp_headers = [(''Content-Type'', ''application/json''),
        (''Retry-After'', case retryAfterMs of Some ms \<Rightarrow> show_int (ceil_div ms 1000) | None \<Rightarrow> ''Infinity'')],
      rp_body = codes (stringify (JObj [(''error'', JStr ''Too many requests'')]))\<rparr>"

definition parsePath :: "string \<Rightarrow> string \<times> string list" where
  "parsePath url =
     (let path = hd (split_on (CHR ''?'') url)
      in (path, filter (\<lambda>s. s \<noteq> []) (split_on (CHR ''/'') path)))"

section \<open>The server\<close>

record BridgeServer =
  bs_baseUrl :: string
  bs_corsOrigin :: string
  bs_page :: string
  bs_store :: SessionStore
  bs_limiter :: BridgeLimiter

definition DEFAULT_BASE_URL :: string where
  "DEFAULT_BASE_URL = ''https://flowhelm.to''"

definition dropSlash :: "string \<Rightarrow> string" where
  "dropSlash url = (if endsWith url ''/'' then butlast url else url)"

definition emptyPage :: string where
  "emptyPage = ''<!DOCTYPE html><html><body><p>Auth page not found. Check static/ directory.</p></body></html>''"

text \<open>\<open>origin\<close> stands for \<^verbatim>\<open>new URL(..).origin\<close>.\<close>

definition createBridgeServer ::
  "(string \<Rightarrow> string) \<Rightarrow> string \<Rightarrow> string option \<Rightarrow> string option \<Rightarrow> int option \<Rightarrow> nat option \<Rightarrow> BridgeServer" where
  "createBridgeServer origin page baseUrlOpt corsOpt ttlMs maxSessions =
     (let baseUrl = dropSlash (case baseUrlOpt of Some u \<Rightarrow> u | None \<Rightarrow> DEFAULT_BASE_URL)
      in \<lparr>bs_baseUrl = baseUrl,
          bs_corsOrigin = (case corsOpt of Some c \<Rightarrow> c | None \<Rightarrow> origin baseUrl),
          bs_page = (if page = [] then emptyPage else page),
          bs_store = newSessionStore ttlMs maxSessions,
          bs_limiter = newBridgeLimiter\<rparr>)"

definition corsHeaders :: "BridgeServer \<Rightarrow> (string \<times> string) list" where
  "corsHeaders srv =
     [(''Access-Control-Allow-Origin'', bs_corsOrigin srv),
      (''Access-Control-Allow-Methods'', ''GET, POST, DELETE, OPTIONS''),
      (''Access-Control-Allow-Headers'', ''Content-Type''),
      (''Access-Control-Max-Age'', ''86400'')]"

text \<open>A lookup in the store, which drops the session it finds expired.\<close>

definition session :: "time \<Rightarrow> string \<Rightarrow> BridgeServer \<Rightarrow> SessionData option \<times> BridgeServer" where
  "session now token srv = (let r = store_get now token (bs_store srv) in (fst r, srv\<lparr>bs_store := snd r\<rparr>))"

text \<open>A guard by the limiter: the continuation runs when the request is within the limit.\<close>

definition limited ::
  "time \<Rightarrow> string \<Rightarrow> BridgeRule \<Rightarrow> BridgeServer \<Rightarrow> (Reply \<Rightarrow> 'r) \<Rightarrow> (BridgeServer \<Rightarrow> 'r \<times> BridgeServer) \<Rightarrow> 'r \<times> BridgeServer" where
  "limited now key rl srv refuse go =
     (let r = bridge_check now key rl (bs_limiter srv); srv = srv\<lparr>bs_limiter := snd r\<rparr>
      in if fst r then go srv
         else (refuse (rateLimited (bridge_retryAfterMs now key rl (bs_limiter srv))), srv))"

definition noSession :: Reply where
  "noSession = error_reply 404 ''Session not found or expired''"

definition opt_entry :: "string \<Rightarrow> string option \<Rightarrow> (string \<times> json) list" where
  "opt_entry k v = (case v of Some s \<Rightarrow> [(k, JStr s)] | None \<Rightarrow> [])"

definition pollReply :: "SessionData \<Rightarrow> Reply" where
  "pollReply s =
     (if submitted s
      then json_reply 200 ((''status'', JStr ''ready'') # opt_entry ''encrypted'' (sd_encrypted s) @
             opt_entry ''ephemeralPublicKey'' (sd_ephemeralPublicKey s) @ opt_entry ''nonce'' (sd_nonce s))
      else json_reply 200 [(''status'', JStr ''pending'')])"

text \<open>\<^verbatim>\<open>s.replace(p, r)\<close>: the first occurrence (the replacements here contain no \<^verbatim>\<open>$\<close>).\<close>

fun replaceFirst :: "string \<Rightarrow> string \<Rightarrow> string \<Rightarrow> string" where
  "replaceFirst p r [] = (if p = [] then r else [])"
| "replaceFirst p r (c # s) = (if startsWith (c # s) p then r @ drop (length p) (c # s) else c # replaceFirst p r s)"

definition hexUpper :: "nat \<Rightarrow> char" where
  "hexUpper d = (if d < 10 then char_of (48 + d) else char_of (55 + d))"

definition uriUnreserved :: "char \<Rightarrow> bool" where
  "uriUnreserved c \<longleftrightarrow> is_alnum c \<or> c \<in> set ''-_.!~*()'' \<or> c = CHR 0x27"

definition encodeURIComponent :: "string \<Rightarrow> string" where
  "encodeURIComponent s =
     concat (map (\<lambda>c. if uriUnreserved c then [c]
       else concat (map (\<lambda>b. [CHR ''%'', hexUpper (b div 16), hexUpper (b mod 16)]) (utf8 [c]))) s)"

section \<open>Handlers\<close>

text \<open>The first half of a request: an answer, or the handler that waits for the body.\<close>

datatype outcome = Answer Reply | WaitCreate | WaitSubmit string

definition handlePoll :: "time \<Rightarrow> string \<Rightarrow> string \<Rightarrow> BridgeServer \<Rightarrow> Reply \<times> BridgeServer" where
  "handlePoll now ip token srv =
     limited now (''poll:'' @ ip) RATE_LIMITS_poll srv id (\<lambda>srv.
       case session now token srv of
         (None, srv) \<Rightarrow> (noSession, srv)
       | (Some s, srv) \<Rightarrow> (pollReply s, srv))"

definition internalError :: Reply where
  "internalError = error_reply 500 ''Internal server error''"

definition handleQR :: "time \<Rightarrow> string \<Rightarrow> string \<Rightarrow> BridgeServer \<Rightarrow> Reply \<times> BridgeServer" where
  "handleQR now ip token srv =
     limited now (''qr:'' @ ip) RATE_LIMITS_qr srv id (\<lambda>srv.
       case session now token srv of
         (None, srv) \<Rightarrow> (noSession, srv)
       | (Some s, srv) \<Rightarrow>
           (case generateQR (bs_baseUrl srv @ ''/'' @ token) of
              Inr qrText \<Rightarrow>
                (\<lparr>rp_status = 200, rp_headers = [(''Content-Type'', ''text/plain; charset=utf-8''), (''Cache-Control'', ''no-store'')],
                  rp_body = qrText\<rparr>, srv)
            | Inl e \<Rightarrow> (internalError, srv)))"

definition handlePage :: "time \<Rightarrow> string \<Rightarrow> BridgeServer \<Rightarrow> Reply \<times> BridgeServer" where
  "handlePage now token srv =
     (case session now token srv of
        (None, srv) \<Rightarrow>
          (\<lparr>rp_status = 404, rp_headers = [(''Content-Type'', ''text/plain'')],
            rp_body = codes ''Session not found or expired.''\<rparr>, srv)
      | (Some s, srv) \<Rightarrow>
          (\<lparr>rp_status = 200, rp_headers = [(''Content-Type'', ''text/html; charset=utf-8''), (''Cache-Control'', ''no-store'')],
            rp_body = codes (replaceFirst ''{{BASE_URL}}'' (bs_baseUrl srv) (replaceFirst ''{{TOKEN}}'' token (bs_page srv)))\<rparr>, srv))"

definition handleRedirect :: "time \<Rightarrow> string \<Rightarrow> BridgeServer \<Rightarrow> Reply \<times> BridgeServer" where
  "handleRedirect now token srv =
     (if token \<in> {''favicon.ico'', ''robots.txt''} then (\<lparr>rp_status = 404, rp_headers = [], rp_body = []\<rparr>, srv)
      else case session now token srv of
        (None, srv) \<Rightarrow> (noSession, srv)
      | (Some s, srv) \<Rightarrow>
          (\<lparr>rp_status = 302,
            rp_headers = [(''Location'', bs_baseUrl srv @ ''/a/'' @ token @ ''#pk='' @ encodeURIComponent (sd_publicKey s))],
            rp_body = []\<rparr>, srv))"

definition answer :: "Reply \<times> BridgeServer \<Rightarrow> outcome \<times> BridgeServer" where
  "answer r = (Answer (fst r), snd r)"

definition healthReply :: "BridgeServer \<Rightarrow> Reply" where
  "healthReply srv = json_reply 200 [(''status'', JStr ''ok''), (''sessions'', JNum (int (store_size (bs_store srv))))]"

definition startCreate :: "time \<Rightarrow> string \<Rightarrow> BridgeServer \<Rightarrow> outcome \<times> BridgeServer" where
  "startCreate now ip srv =
     limited now (''create:'' @ ip) RATE_LIMITS_sessionCreate srv Answer (\<lambda>srv.
       let r = bridge_checkGlobal now GLOBAL_SESSION_LIMIT (bs_limiter srv); srv = srv\<lparr>bs_limiter := snd r\<rparr>
       in if fst r then (WaitCreate, srv) else (Answer (rateLimited (Some 60000)), srv))"

definition startSubmit :: "time \<Rightarrow> string \<Rightarrow> string \<Rightarrow> BridgeServer \<Rightarrow> outcome \<times> BridgeServer" where
  "startSubmit now ip token srv =
     limited now (''submit:'' @ ip) RATE_LIMITS_submit srv Answer (\<lambda>srv. (WaitSubmit token, srv))"

definition handleDelete :: "string \<Rightarrow> BridgeServer \<Rightarrow> Reply \<times> BridgeServer" where
  "handleDelete token srv =
     (json_reply 200 [(''status'', JStr ''deleted'')], srv\<lparr>bs_store := snd (store_delete token (bs_store srv))\<rparr>)"

definition handleRequest :: "time \<Rightarrow> BridgeRequest \<Rightarrow> BridgeServer \<Rightarrow> outcome \<times> BridgeServer" where
  "handleRequest now req srv =
     (let met = rq_method req; (path, segs) = parsePath (rq_url req); ip = getClientIP req;
          api = (take 2 segs = [''api'', ''session''])
      in if met = ''OPTIONS'' then (Answer \<lparr>rp_status = 204, rp_headers = [], rp_body = []\<rparr>, srv)
      else if path = ''/health'' \<and> met = ''GET'' then (Answer (healthReply srv), srv)
      else if api \<and> length segs = 2 \<and> met = ''POST'' then startCreate now ip srv
      else if api \<and> length segs = 4 \<and> segs ! 3 = ''poll'' \<and> met = ''GET'' then answer (handlePoll now ip (segs ! 2) srv)
      else if api \<and> length segs = 3 \<and> met = ''POST'' then startSubmit now ip (segs ! 2) srv
      else if api \<and> length segs = 3 \<and> met = ''DELETE'' then answer (handleDelete (segs ! 2) srv)
      else if take 1 segs = [''qr''] \<and> length segs = 2 \<and> met = ''GET'' then answer (handleQR now ip (segs ! 1) srv)
      else if take 1 segs = [''a''] \<and> length segs = 2 \<and> met = ''GET'' then answer (handlePage now (segs ! 1) srv)
      else if length segs = 1 \<and> met = ''GET'' then answer (handleRedirect now (segs ! 0) srv)
      else (Answer (error_reply 404 ''Not found''), srv))"



definition bridge_stop :: "BridgeServer \<Rightarrow> BridgeServer" where
  "bridge_stop srv = srv\<lparr>bs_store := store_destroy (bs_store srv), bs_limiter := limiter_destroy (bs_limiter srv)\<rparr>"

section \<open>Events\<close>






section \<open>A submitted session stays until it expires or is deleted\<close>

text \<open>The session of token \<open>t\<close> is \<open>s\<close>.\<close>

definition holds :: "string \<Rightarrow> SessionData \<Rightarrow> BridgeServer \<Rightarrow> bool" where
  "holds t s srv \<longleftrightarrow> js_wf (sessions (bs_store srv)) \<and> js_get (sessions (bs_store srv)) t = Some s"

definition kept :: "string \<Rightarrow> SessionData \<Rightarrow> SessionStore \<Rightarrow> bool" where
  "kept t s st \<longleftrightarrow> js_wf (sessions st) \<and> js_get (sessions st) t = Some s"

lemma kept_get: "kept t s st \<Longrightarrow> now \<le> sd_expiresAt s \<Longrightarrow> kept t s (snd (store_get now k st))"
  by (auto simp: kept_def store_get_def js_get_delete intro!: js_wf_delete split: option.splits)

lemma kept_get_same: "kept t s st \<Longrightarrow> now \<le> sd_expiresAt s \<Longrightarrow> store_get now t st = (Some s, st)"
  by (simp add: kept_def store_get_def)

lemma kept_has: "kept t s st \<Longrightarrow> now \<le> sd_expiresAt s \<Longrightarrow> kept t s (snd (store_has now k st))"
  by (simp add: store_has_def Let_def kept_get)

lemma kept_submit:
  assumes "kept t s st" "submitted s" "now \<le> sd_expiresAt s"
  shows "kept t s (snd (submitCredentials now k e pk n st))"
proof (cases "k = t")
  case True
  then show ?thesis using assms kept_get_same by (simp add: submitCredentials_def)
next
  case False
  have "kept t s (snd (store_get now k st))" using kept_get assms(1,3) .
  then show ?thesis using False
    by (auto simp: submitCredentials_def kept_def js_get_set intro!: js_wf_set split: prod.splits option.splits)
qed

lemma kept_create: "kept t s st \<Longrightarrow> k \<noteq> t \<Longrightarrow> kept t s (snd (store_create now k pk st))"
  by (auto simp: kept_def store_create_def js_get_set intro!: js_wf_set)

lemma kept_delete: "kept t s st \<Longrightarrow> k \<noteq> t \<Longrightarrow> kept t s (snd (store_delete k st))"
  by (auto simp: kept_def store_delete_def js_get_delete intro!: js_wf_delete)

lemma kept_cleanup:
  assumes "kept t s st" "now \<le> sd_expiresAt s"
  shows "kept t s (snd (store_cleanup now st))"
proof -
  have "(t, s) \<in> set (sessions st)" using assms(1) by (auto simp: kept_def dest: map_of_SomeD)
  then show ?thesis using assms
    by (auto simp: kept_def store_cleanup_def distinct_map_filter intro!: map_of_is_SomeI)
qed


lemmas store_kept = kept_get kept_has kept_submit kept_create kept_delete kept_cleanup














definition demo_server :: BridgeServer where
  "demo_server = createBridgeServer id ''page'' None None None None
     \<lparr>bs_store := snd (store_create 0 ''tok'' ''key'' (newSessionStore None None))\<rparr>"




section \<open>Request bodies\<close>

lemma utf8_append: "utf8 (a @ b) = utf8 a @ utf8 b" "utf8 [] = []"
  by (simp_all add: utf8_def)

lemma parseBody_chunks:
  "n = length (utf8 acc) \<Longrightarrow>
   parseBody n acc (map BodyData chunks @ [BodyEnd]) =
     Some (if length (utf8 (acc @ concat chunks)) \<le> MAX_BODY \<or> chunks = [] then parse_json (acc @ concat chunks) else None)"
proof (induction chunks arbitrary: n acc)
  case (Cons c chunks)
  show ?case
  proof (cases "length (utf8 (acc @ c)) \<le> MAX_BODY")
    case True
    then show ?thesis
      using Cons.IH [of "n + length (utf8 c)" "acc @ c"] Cons.prems by (auto simp: utf8_append)
  next
    case False
    then show ?thesis using Cons.prems by (simp add: utf8_append)
  qed
qed simp

text \<open>
  A request body is the JSON value of its bytes however it is cut into chunks, and \<^verbatim>\<open>null\<close> when it
  is not JSON or longer than 64 KB.
\<close>

theorem body_read:
  "parseBody 0 [] (map BodyData chunks @ [BodyEnd]) =
     Some (if length (utf8 (concat chunks)) \<le> MAX_BODY then parse_json (concat chunks) else None)"
  using parseBody_chunks [of 0 "[]" chunks] by (cases "chunks = []") (simp_all add: utf8_append)

section \<open>Limits and forged addresses\<close>

definition submit_request :: "string \<Rightarrow> string \<Rightarrow> nat \<Rightarrow> BridgeRequest" where
  "submit_request token remote i =
     \<lparr>rq_method = ''POST'', rq_url = ''/api/session/'' @ token, rq_forwarded = Some (show_nat i), rq_remote = Some remote\<rparr>"

fun outcomes :: "time \<Rightarrow> BridgeRequest list \<Rightarrow> BridgeServer \<Rightarrow> outcome list" where
  "outcomes now [] srv = []"
| "outcomes now (req # reqs) srv = (let r = handleRequest now req srv in fst r # outcomes now reqs (snd r))"

lemma trim_show_nat: "trim (show_nat n) = show_nat n"
proof -
  have "\<not> is_space c" if "c \<in> set (show_nat n)" for c
    using show_nat_digits [of c n] that by (auto simp: is_space_def Let_def digit_char_code)
  then have d: "dropWhile is_space xs = xs" if "set xs \<subseteq> set (show_nat n)" for xs
    using that by (cases xs) auto
  show ?thesis by (simp add: trim_def d)
qed

lemma parsePath_submit:
  assumes "CHR ''/'' \<notin> set token" "CHR ''?'' \<notin> set token" "token \<noteq> []"
  shows "snd (parsePath (''/api/session/'' @ token)) = [''api'', ''session'', token]"
    "fst (parsePath (''/api/session/'' @ token)) \<noteq> ''/health''"
proof -
  have "CHR ''?'' \<notin> set (''/api/session/'' @ token)" using assms(2) by simp
  then have "split_on (CHR ''?'') (''/api/session/'' @ token) = [''/api/session/'' @ token]" by (rule split_on_id)
  then show "snd (parsePath (''/api/session/'' @ token)) = [''api'', ''session'', token]"
    "fst (parsePath (''/api/session/'' @ token)) \<noteq> ''/health''"
    using assms by (simp_all add: parsePath_def split_on_id)
qed

lemma submit_request_step:
  assumes "token \<noteq> []" "CHR ''/'' \<notin> set token" "CHR ''?'' \<notin> set token"
    and "js_get (buckets (bs_limiter srv)) (''submit:'' @ show_nat i) = None"
  shows "fst (handleRequest now (submit_request token remote i) srv) = WaitSubmit token"
    "buckets (bs_limiter (snd (handleRequest now (submit_request token remote i) srv))) =
       js_set (''submit:'' @ show_nat i) [now] (buckets (bs_limiter srv))"
proof -
  have "CHR '','' \<notin> set (show_nat i)" using show_nat_digits [of _ i] by fastforce
  then have "getClientIP (submit_request token remote i) = show_nat i"
    by (simp add: getClientIP_def submit_request_def split_on_id trim_show_nat)
  moreover obtain path segs where p: "parsePath (''/api/session/'' @ token) = (path, segs)" by force
  moreover have "segs = [''api'', ''session'', token]" "path \<noteq> ''/health''"
    using parsePath_submit [OF assms(2,3,1)] unfolding p by simp_all
  moreover have "rq_url (submit_request token remote i) = ''/api/session/'' @ token" by (simp add: submit_request_def)
  moreover have "rq_method (submit_request token remote i) = ''POST''" by (simp add: submit_request_def)
  ultimately have h: "handleRequest now (submit_request token remote i) srv = startSubmit now (show_nat i) token srv"
    by (simp only: handleRequest_def) (simp add: Let_def numeral_3_eq_3 numeral_2_eq_2)
  show "fst (handleRequest now (submit_request token remote i) srv) = WaitSubmit token"
    "buckets (bs_limiter (snd (handleRequest now (submit_request token remote i) srv))) =
       js_set (''submit:'' @ show_nat i) [now] (buckets (bs_limiter srv))"
    unfolding h using assms(4)
    by (simp_all add: startSubmit_def limited_def bridge_check_def Let_def RATE_LIMITS_submit_def)
qed

lemma forged_outcomes:
  assumes "token \<noteq> []" "CHR ''/'' \<notin> set token" "CHR ''?'' \<notin> set token"
  shows "distinct is \<Longrightarrow> (\<forall>i \<in> set is. js_get (buckets (bs_limiter srv)) (''submit:'' @ show_nat i) = None) \<Longrightarrow>
    outcomes now (map (submit_request token remote) is) srv = replicate (length is) (WaitSubmit token)"
proof (induction "is" arbitrary: srv)
  case (Cons i "is")
  note step = submit_request_step [OF assms, of srv i now remote]
  have "js_get (js_set (''submit:'' @ show_nat i) [now] (buckets (bs_limiter srv))) (''submit:'' @ show_nat j) = None"
    if "j \<in> set is" for j
  proof -
    have "show_nat i \<noteq> show_nat j" using that Cons.prems(1) show_nat_inj [of i j] by auto
    moreover have "js_get (buckets (bs_limiter srv)) (''submit:'' @ show_nat j) = None" using that Cons.prems(2) by simp
    ultimately show ?thesis by (simp add: js_get_set del: map_of_eq_None_iff)
  qed
  then show ?case
    using Cons.IH [of "snd (handleRequest now (submit_request token remote i) srv)"] Cons.prems step
    by (simp add: Let_def del: map_of_eq_None_iff)
qed simp

text \<open>
  The limit per address does not bind a client that names its own address: with a different
  \<^verbatim>\<open>X-Forwarded-For\<close> in each request, any number of submissions to one token from one connection gets
  past the limit of three per minute in the same instant.
\<close>

theorem forged_addresses_not_limited:
  "outcomes now (map (submit_request ''tok'' remote) [0..<n]) (createBridgeServer origin page baseUrl cors ttlMs maxSessions)
    = replicate n (WaitSubmit ''tok'')"
  by (subst forged_outcomes) (simp_all add: createBridgeServer_def newBridgeLimiter_def Let_def)

section \<open>The QR code of a session\<close>

lemma utf8_ascii: "list_all (\<lambda>c. (of_char c :: nat) < 128) s \<Longrightarrow> utf8 s = codes s"
  by (induction s) (auto simp: utf8_def codes_def Let_def)

lemma token_ascii: "set token \<subseteq> set SAFE_ALPHABET \<Longrightarrow> list_all (\<lambda>c. (of_char c :: nat) < 128) token"
proof -
  have "list_all (\<lambda>c. (of_char c :: nat) < 128) SAFE_ALPHABET" by (simp add: SAFE_ALPHABET_def)
  then show "set token \<subseteq> set SAFE_ALPHABET \<Longrightarrow> list_all (\<lambda>c. (of_char c :: nat) < 128) token"
    by (auto simp: list_all_iff)
qed

text \<open>
  The QR code a terminal shows leads to the session: for a server with the default address and
  every token of the form the server issues, the reply to a poll for the code of a live session is the
  rendering of a symbol from which a reader of the standard reads the address of the session.
\<close>

theorem qr_code_leads_to_session:
  assumes "bs_baseUrl srv = DEFAULT_BASE_URL" "length token = TOKEN_LENGTH" "set token \<subseteq> set SAFE_ALPHABET"
    and "js_get (sessions (bs_store srv)) token = Some s" "now \<le> sd_expiresAt s"
    and "fst (bridge_check now (''qr:'' @ ip) RATE_LIMITS_qr (bs_limiter srv))"
  shows "\<exists>qr. rp_status (fst (handleQR now ip token srv)) = 200 \<and>
    rp_body (fst (handleQR now ip token srv)) = renderQRText qr \<and>
    stdRead qr = Some (codes (DEFAULT_BASE_URL @ ''/'' @ token))"
proof -
  let ?url = "DEFAULT_BASE_URL @ ''/'' @ token"
  have a: "list_all (\<lambda>c. (of_char c :: nat) < 128) ?url"
    using token_ascii [OF assms(3)] by (simp add: DEFAULT_BASE_URL_def)
  have "length ?url = 25" using assms(2) by (simp add: DEFAULT_BASE_URL_def TOKEN_LENGTH_def)
  then have "length (utf8 ?url) \<le> 62" unfolding utf8_ascii [OF a] codes_def length_map by linarith
  then obtain qr where qr: "generateQRMatrix ?url = Inr qr"
    using generated_symbol_refused [of ?url] by (cases "generateQRMatrix ?url") auto
  have "stdRead qr = Some (codes ?url)"
    using generated_symbol_std [OF qr] utf8_ascii [OF a] by simp
  moreover have "store_get now token (bs_store srv) = (Some s, bs_store srv)"
    using assms(4,5) by (simp add: store_get_def)
  ultimately show ?thesis
    using assms(1,6) qr
    by (intro exI [of _ qr]) (simp add: handleQR_def limited_def session_def generateQR_def Let_def)
qed

theorem qr_code_leads_to_session_witness:
  "\<exists>qr. rp_status (fst (handleQR 5 ''1.2.3.4'' ''abcde'' (demo_server\<lparr>bs_store := snd (store_create 0 ''abcde'' ''key'' (newSessionStore None None))\<rparr>))) = 200 \<and>
    stdRead qr = Some (codes ''https://flowhelm.to/abcde'')"
  using qr_code_leads_to_session [of "demo_server\<lparr>bs_store := snd (store_create 0 ''abcde'' ''key'' (newSessionStore None None))\<rparr>" "''abcde''"
    "\<lparr>sd_publicKey = ''key'', sd_expiresAt = 600000, sd_encrypted = None, sd_ephemeralPublicKey = None, sd_nonce = None\<rparr>" 5 "''1.2.3.4''"]
  by (auto simp: demo_server_def createBridgeServer_def dropSlash_def DEFAULT_BASE_URL_def endsWith_def TOKEN_LENGTH_def SAFE_ALPHABET_def
      store_create_def newSessionStore_def bridge_check_def newBridgeLimiter_def RATE_LIMITS_qr_def Let_def)

end
