(* ===== verification/Message_Queue.thy ===== *)
theory Message_Queue
  imports Prelude
begin

text \<open>
  \<^verbatim>\<open>src/src/orchestrator/message-queue.ts\<close>: the persistent queue. The table is a list of rows, every SQL
  statement one function on it. The choice PostgreSQL makes among rows of the same age under
  \<^verbatim>\<open>LIMIT 1\<close> is the parameter \<open>tie\<close>. Shown: the status machine and its invariant, oldest-first
  delivery, bounded attempts, and that only completed messages ever leave the table. The contract
  a worker relies on is the locale \<open>work_queue\<close>.
\<close>

section \<open>Rows\<close>

datatype ChannelType = Telegram | Whatsapp | Gmail

text \<open>The free-form \<^verbatim>\<open>metadata\<close> of a message is left out: nothing modelled here reads it.\<close>

record InboundMessage =
  im_id :: string
  im_channel :: ChannelType
  im_userId :: string
  im_senderName :: string
  im_text :: "string option"
  im_audioPath :: "string option"
  im_imagePath :: "string option"
  im_replyToMessageId :: "string option"
  im_timestamp :: time
  im_isFromMe :: bool

datatype QueueStatus = Pending | Processing | Completed | Failed | Dead_letter

record QueueRow =
  q_id :: int
  q_message_id :: string
  q_chat_id :: string
  q_channel :: ChannelType
  q_payload :: InboundMessage
  q_status :: QueueStatus
  q_attempts :: int
  q_max_attempts :: int
  q_created_at :: time
  q_updated_at :: time
  q_error :: "string option"

record QueueTable =
  q_rows :: "QueueRow list"
  q_identity :: int

record QueuedItem =
  qi_id :: int
  qi_message :: InboundMessage
  qi_status :: QueueStatus
  qi_attempts :: int
  qi_maxAttempts :: int
  qi_createdAt :: time
  qi_updatedAt :: time
  qi_error :: "string option"

definition rowToItem :: "QueueRow \<Rightarrow> QueuedItem" where
  "rowToItem row = \<lparr>qi_id = q_id row, qi_message = q_payload row, qi_status = q_status row,
     qi_attempts = q_attempts row, qi_maxAttempts = q_max_attempts row,
     qi_createdAt = q_created_at row, qi_updatedAt = q_updated_at row, qi_error = q_error row\<rparr>"

section \<open>The statements\<close>

definition update_rows :: "(QueueRow \<Rightarrow> bool) \<Rightarrow> (QueueRow \<Rightarrow> QueueRow) \<Rightarrow> QueueTable \<Rightarrow> QueueTable" where
  "update_rows P f tbl = tbl\<lparr>q_rows := map (\<lambda>r. if P r then f r else r) (q_rows tbl)\<rparr>"

definition recoverStuckMessages :: "time \<Rightarrow> QueueTable \<Rightarrow> QueueTable" where
  "recoverStuckMessages now tbl =
     update_rows (\<lambda>r. q_status r = Processing) (\<lambda>r. r\<lparr>q_status := Pending, q_updated_at := now\<rparr>) tbl"

definition insert_row :: "time \<Rightarrow> InboundMessage \<Rightarrow> string \<Rightarrow> int \<Rightarrow> QueueTable \<Rightarrow> int \<times> QueueTable" where
  "insert_row now message chat maxAttempts tbl =
     (q_identity tbl,
      tbl\<lparr>q_rows := q_rows tbl @
            [\<lparr>q_id = q_identity tbl, q_message_id = im_id message, q_chat_id = chat,
              q_channel = im_channel message, q_payload = message, q_status = Pending,
              q_attempts = 0, q_max_attempts = maxAttempts, q_created_at = now, q_updated_at = now,
              q_error = None\<rparr>],
          q_identity := q_identity tbl + 1\<rparr>)"

definition oldest_rows :: "QueueRow list \<Rightarrow> QueueRow list" where
  "oldest_rows rs = filter (\<lambda>r. list_all (\<lambda>r'. q_created_at r \<le> q_created_at r') rs) rs"

text \<open>
  \<^verbatim>\<open>UPDATE ... WHERE id = (SELECT id ... ORDER BY created_at ASC LIMIT 1 FOR UPDATE SKIP LOCKED)
  RETURNING *\<close> over the pending rows that satisfy \<open>P\<close>.
\<close>

definition dequeue_where ::
    "(QueueRow list \<Rightarrow> QueueRow) \<Rightarrow> (QueueRow \<Rightarrow> bool) \<Rightarrow> time \<Rightarrow> QueueTable \<Rightarrow> QueuedItem option \<times> QueueTable" where
  "dequeue_where tie P now tbl =
     (case oldest_rows (filter (\<lambda>r. q_status r = Pending \<and> P r) (q_rows tbl)) of
        [] \<Rightarrow> (None, tbl)
      | r # rs \<Rightarrow>
          let chosen = tie (r # rs);
              claim = (\<lambda>r. r\<lparr>q_status := Processing, q_attempts := q_attempts r + 1, q_updated_at := now\<rparr>)
          in (Some (rowToItem (claim chosen)), update_rows (\<lambda>r. q_id r = q_id chosen) claim tbl))"

definition dequeue ::
    "(QueueRow list \<Rightarrow> QueueRow) \<Rightarrow> time \<Rightarrow> QueueTable \<Rightarrow> QueuedItem option \<times> QueueTable" where
  "dequeue tie now tbl = dequeue_where tie (\<lambda>r. True) now tbl"

definition dequeueForChat ::
    "(QueueRow list \<Rightarrow> QueueRow) \<Rightarrow> string \<Rightarrow> time \<Rightarrow> QueueTable \<Rightarrow> QueuedItem option \<times> QueueTable" where
  "dequeueForChat tie chatId now tbl = dequeue_where tie (\<lambda>r. q_chat_id r = chatId) now tbl"

definition acknowledge :: "int \<Rightarrow> time \<Rightarrow> QueueTable \<Rightarrow> QueueTable" where
  "acknowledge queueId now tbl =
     update_rows (\<lambda>r. q_id r = queueId) (\<lambda>r. r\<lparr>q_status := Completed, q_updated_at := now\<rparr>) tbl"

definition fail_row :: "int \<Rightarrow> string \<Rightarrow> time \<Rightarrow> QueueTable \<Rightarrow> QueueTable" where
  "fail_row queueId err now tbl =
     update_rows (\<lambda>r. q_id r = queueId)
       (\<lambda>r. r\<lparr>q_status := if q_attempts r \<ge> q_max_attempts r then Dead_letter else Pending,
              q_error := Some err, q_updated_at := now\<rparr>) tbl"

definition counts :: "QueueTable \<Rightarrow> QueueStatus \<Rightarrow> nat" where
  "counts tbl s = length (filter (\<lambda>r. q_status r = s) (q_rows tbl))"

definition getDeadLetters :: "QueueTable \<Rightarrow> QueuedItem list" where
  "getDeadLetters tbl =
     map rowToItem (sort_key q_created_at (filter (\<lambda>r. q_status r = Dead_letter) (q_rows tbl)))"

definition pendingCount :: "QueueTable \<Rightarrow> nat" where
  "pendingCount tbl = length (filter (\<lambda>r. q_status r = Pending) (q_rows tbl))"

definition purgeCompleted :: "int \<Rightarrow> time \<Rightarrow> QueueTable \<Rightarrow> nat \<times> QueueTable" where
  "purgeCompleted olderThanMs now tbl =
     (let doomed = (\<lambda>r. q_status r = Completed \<and> q_updated_at r < now - olderThanMs)
      in (length (filter doomed (q_rows tbl)), tbl\<lparr>q_rows := filter (\<lambda>r. \<not> doomed r) (q_rows tbl)\<rparr>))"

definition retryDeadLetter :: "int \<Rightarrow> time \<Rightarrow> QueueTable \<Rightarrow> bool \<times> QueueTable" where
  "retryDeadLetter queueId now tbl =
     (let hit = (\<lambda>r. q_id r = queueId \<and> q_status r = Dead_letter)
      in (0 < length (filter hit (q_rows tbl)),
          update_rows hit
            (\<lambda>r. r\<lparr>q_status := Pending, q_attempts := 0, q_error := None, q_updated_at := now\<rparr>) tbl))"

text \<open>\<open>srt\<close> is the database's ordering of text values.\<close>

definition pendingChatIds :: "(string list \<Rightarrow> string list) \<Rightarrow> QueueTable \<Rightarrow> string list" where
  "pendingChatIds srt tbl =
     srt (remdups (map q_chat_id (filter (\<lambda>r. q_status r = Pending) (q_rows tbl))))"

section \<open>The class\<close>

datatype queue_error = QueueNotStarted

record MessageQueue =
  mq_sql :: bool
  mq_maxAttempts :: int

definition newMessageQueue :: "int option \<Rightarrow> MessageQueue" where
  "newMessageQueue maxAttempts =
     \<lparr>mq_sql = False, mq_maxAttempts = (case maxAttempts of Some m \<Rightarrow> m | None \<Rightarrow> 3)\<rparr>"

definition queue_start :: "time \<Rightarrow> MessageQueue \<Rightarrow> QueueTable \<Rightarrow> MessageQueue \<times> QueueTable" where
  "queue_start now mq tbl = (mq\<lparr>mq_sql := True\<rparr>, recoverStuckMessages now tbl)"

definition queue_stop :: "MessageQueue \<Rightarrow> MessageQueue" where
  "queue_stop mq = mq\<lparr>mq_sql := False\<rparr>"

definition getSql :: "MessageQueue \<Rightarrow> 'a \<Rightarrow> queue_error + 'a" where
  "getSql mq stmt = (if mq_sql mq then Inr stmt else Inl QueueNotStarted)"

definition enqueue ::
    "InboundMessage \<Rightarrow> int option \<Rightarrow> time \<Rightarrow> MessageQueue \<Rightarrow> QueueTable \<Rightarrow> queue_error + int \<times> QueueTable" where
  "enqueue message maxAttempts now mq tbl =
     getSql mq (insert_row now message (im_userId message)
       (case maxAttempts of Some m \<Rightarrow> m | None \<Rightarrow> mq_maxAttempts mq) tbl)"

text \<open>
  The operations that write the table, as a sequence of calls of a started queue. A restart is a
  crash followed by \<open>queue_start\<close>.
\<close>

datatype queue_op =
    OpEnqueue InboundMessage int
  | OpDequeue
  | OpDequeueForChat string
  | OpAck int
  | OpFail int string
  | OpPurge int
  | OpRetry int
  | OpRestart

fun queue_apply :: "(QueueRow list \<Rightarrow> QueueRow) \<Rightarrow> time \<times> queue_op \<Rightarrow> QueueTable \<Rightarrow> QueueTable" where
  "queue_apply tie (now, OpEnqueue m k) tbl = snd (insert_row now m (im_userId m) k tbl)"
| "queue_apply tie (now, OpDequeue) tbl = snd (dequeue tie now tbl)"
| "queue_apply tie (now, OpDequeueForChat c) tbl = snd (dequeueForChat tie c now tbl)"
| "queue_apply tie (now, OpAck i) tbl = acknowledge i now tbl"
| "queue_apply tie (now, OpFail i e) tbl = fail_row i e now tbl"
| "queue_apply tie (now, OpPurge age) tbl = snd (purgeCompleted age now tbl)"
| "queue_apply tie (now, OpRetry i) tbl = snd (retryDeadLetter i now tbl)"
| "queue_apply tie (now, OpRestart) tbl = recoverStuckMessages now tbl"

definition queue_run :: "(QueueRow list \<Rightarrow> QueueRow) \<Rightarrow> (time \<times> queue_op) list \<Rightarrow> QueueTable \<Rightarrow> QueueTable" where
  "queue_run tie ops tbl = fold (queue_apply tie) ops tbl"

definition emptyTable :: QueueTable where
  "emptyTable = \<lparr>q_rows = [], q_identity = 1\<rparr>"

section \<open>Basic facts\<close>

definition tie_ok :: "(QueueRow list \<Rightarrow> QueueRow) \<Rightarrow> bool" where
  "tie_ok tie \<longleftrightarrow> (\<forall>rs. rs \<noteq> [] \<longrightarrow> tie rs \<in> set rs)"

definition table_wf :: "QueueTable \<Rightarrow> bool" where
  "table_wf tbl \<longleftrightarrow> distinct (map q_id (q_rows tbl)) \<and> (\<forall>r \<in> set (q_rows tbl). q_id r < q_identity tbl)"

named_theorems queue_defs

lemmas [queue_defs] = recoverStuckMessages_def insert_row_def dequeue_def dequeueForChat_def
  acknowledge_def fail_row_def purgeCompleted_def retryDeadLetter_def Let_def

lemma set_update_rows: "set (q_rows (update_rows P f tbl)) = (\<lambda>r. if P r then f r else r) ` set (q_rows tbl)"
  by (simp add: update_rows_def)

lemma update_rows_simps [simp]: "q_identity (update_rows P f tbl) = q_identity tbl"
  by (simp add: update_rows_def)

lemma update_rows_ids:
  "(\<And>r. q_id (f r) = q_id r) \<Longrightarrow> map q_id (q_rows (update_rows P f tbl)) = map q_id (q_rows tbl)"
  by (simp add: update_rows_def comp_def if_distrib cong: if_cong)

lemma table_wf_update: "(\<And>r. q_id (f r) = q_id r) \<Longrightarrow> table_wf tbl \<Longrightarrow> table_wf (update_rows P f tbl)"
  by (auto simp: table_wf_def update_rows_ids set_update_rows)

lemma oldest_rows_member: "r \<in> set (oldest_rows rs) \<longleftrightarrow> r \<in> set rs \<and> (\<forall>r' \<in> set rs. q_created_at r \<le> q_created_at r')"
  by (auto simp: oldest_rows_def list_all_iff)

lemma oldest_rows_empty [simp]: "oldest_rows rs = [] \<longleftrightarrow> rs = []"
proof (cases "rs = []")
  case False
  then obtain r where "r \<in> set rs" "\<forall>r' \<in> set rs. q_created_at r \<le> q_created_at r'"
    using ex_min_if_finite [of "q_created_at ` set rs"] by force
  then have "r \<in> set (oldest_rows rs)" by (simp add: oldest_rows_member)
  then show ?thesis using False by auto
qed (simp add: oldest_rows_def)

lemma oldest_rows_Nil [simp]: "oldest_rows [] = []"
  by (simp add: oldest_rows_def)

text \<open>Either nothing is pending, or one of the oldest pending rows is claimed.\<close>

lemma dequeue_where_cases:
  assumes "tie_ok tie"
  obtains
    "filter (\<lambda>r. q_status r = Pending \<and> P r) (q_rows tbl) = []" "dequeue_where tie P now tbl = (None, tbl)"
  | r where "r \<in> set (q_rows tbl)" "q_status r = Pending" "P r"
      "\<And>r'. r' \<in> set (q_rows tbl) \<Longrightarrow> q_status r' = Pending \<Longrightarrow> P r' \<Longrightarrow> q_created_at r \<le> q_created_at r'"
      "dequeue_where tie P now tbl =
        (Some (rowToItem (r\<lparr>q_status := Processing, q_attempts := q_attempts r + 1, q_updated_at := now\<rparr>)),
         update_rows (\<lambda>r'. q_id r' = q_id r)
           (\<lambda>r. r\<lparr>q_status := Processing, q_attempts := q_attempts r + 1, q_updated_at := now\<rparr>) tbl)"
proof (cases "oldest_rows (filter (\<lambda>r. q_status r = Pending \<and> P r) (q_rows tbl))")
  case Nil
  then show thesis using that(1) by (simp add: dequeue_where_def)
next
  case (Cons r rs)
  define c where "c = tie (r # rs)"
  have "c \<in> set (r # rs)" unfolding c_def using assms by (simp add: tie_ok_def del: list.set)
  then have "c \<in> set (oldest_rows (filter (\<lambda>r. q_status r = Pending \<and> P r) (q_rows tbl)))"
    by (simp only: Cons)
  then have "c \<in> set (q_rows tbl)" "q_status c = Pending" "P c"
      "\<forall>r' \<in> set (q_rows tbl). q_status r' = Pending \<and> P r' \<longrightarrow> q_created_at c \<le> q_created_at r'"
    by (auto simp only: oldest_rows_member set_filter mem_Collect_eq)
  then show thesis
    using Cons by (intro that(2) [of c]) (auto simp: dequeue_where_def Let_def c_def)
qed

lemma queue_apply_wf: "tie_ok tie \<Longrightarrow> table_wf tbl \<Longrightarrow> table_wf (queue_apply tie op tbl)"
proof (induction tie op tbl rule: queue_apply.induct)
  case (1 tie now m k tbl)
  then show ?case by (auto simp: table_wf_def queue_defs)
next
  case (2 tie now tbl)
  then show ?case
    by (cases rule: dequeue_where_cases [of tie "\<lambda>r. True" tbl now]) (auto simp: queue_defs intro!: table_wf_update)
next
  case (3 tie now c tbl)
  then show ?case
    by (cases rule: dequeue_where_cases [of tie "\<lambda>r. q_chat_id r = c" tbl now])
      (auto simp: queue_defs intro!: table_wf_update)
next
  case (6 tie now age tbl)
  then show ?case by (auto simp: table_wf_def queue_defs distinct_map_filter)
qed (auto simp: queue_defs intro!: table_wf_update)

lemma queue_run_wf: "tie_ok tie \<Longrightarrow> table_wf tbl \<Longrightarrow> table_wf (queue_run tie ops tbl)"
  unfolding queue_run_def by (induction ops arbitrary: tbl) (auto simp: queue_apply_wf)

section \<open>Delivery order\<close>

text \<open>
  Oldest first, whatever the database does with ties: \<open>dequeueForChat\<close> returns nothing exactly
  when the chat has no pending message; otherwise the item it returns was a pending message of that
  chat at least as old as every other one, its attempt is counted, its row is now processing, and
  every other row is unchanged.
\<close>

theorem dequeueForChat_oldest_first:
  assumes "tie_ok tie" "table_wf tbl"
  shows "case dequeueForChat tie chatId now tbl of
      (None, tbl') \<Rightarrow> tbl' = tbl \<and> (\<forall>r \<in> set (q_rows tbl). \<not> (q_status r = Pending \<and> q_chat_id r = chatId))
    | (Some item, tbl') \<Rightarrow> \<exists>r \<in> set (q_rows tbl). q_status r = Pending \<and> q_chat_id r = chatId \<and>
        (\<forall>r' \<in> set (q_rows tbl). q_status r' = Pending \<and> q_chat_id r' = chatId \<longrightarrow> q_created_at r \<le> q_created_at r') \<and>
        item = rowToItem (r\<lparr>q_status := Processing, q_attempts := q_attempts r + 1, q_updated_at := now\<rparr>) \<and>
        q_rows tbl' = map (\<lambda>r'. if r' = r
          then r\<lparr>q_status := Processing, q_attempts := q_attempts r + 1, q_updated_at := now\<rparr> else r') (q_rows tbl)"
proof (cases rule: dequeue_where_cases [OF assms(1), of "\<lambda>r. q_chat_id r = chatId" tbl now])
  case 1
  then show ?thesis by (auto simp: dequeueForChat_def filter_empty_conv)
next
  case (2 r)
  have "q_id r' = q_id r \<longleftrightarrow> r' = r" if "r' \<in> set (q_rows tbl)" for r'
    using that 2(1) assms(2) by (auto simp: table_wf_def distinct_map dest: inj_onD)
  then show ?thesis using 2 by (auto simp: dequeueForChat_def update_rows_def intro!: bexI [of _ r])
qed

definition sample_message :: InboundMessage where
  "sample_message = \<lparr>im_id = ''m'', im_channel = Telegram, im_userId = ''c'', im_senderName = ''s'',
     im_text = None, im_audioPath = None, im_imagePath = None, im_replyToMessageId = None,
     im_timestamp = 0, im_isFromMe = False\<rparr>"

definition sample_row :: "int \<Rightarrow> time \<Rightarrow> QueueRow" where
  "sample_row i t = \<lparr>q_id = i, q_message_id = ''m'', q_chat_id = ''c'', q_channel = Telegram,
     q_payload = sample_message, q_status = Pending, q_attempts = 0, q_max_attempts = 3,
     q_created_at = t, q_updated_at = t, q_error = None\<rparr>"

lemma tie_ok_hd: "tie_ok hd"
  by (simp add: tie_ok_def)

lemma queue_run_empty_wf: "tie_ok tie \<Longrightarrow> table_wf (queue_run tie ops emptyTable)"
  by (intro queue_run_wf) (simp_all add: table_wf_def emptyTable_def)

theorem dequeueForChat_oldest_first_witness:
  "case dequeueForChat hd ''c'' 9 \<lparr>q_rows = [sample_row 1 5, sample_row 2 3], q_identity = 3\<rparr> of
      (None, tbl') \<Rightarrow> False
    | (Some item, tbl') \<Rightarrow> qi_id item = 2 \<and> map q_status (q_rows tbl') = [Pending, Processing]"
  using dequeueForChat_oldest_first [OF tie_ok_hd, of
      "\<lparr>q_rows = [sample_row 1 5, sample_row 2 3], q_identity = 3\<rparr>" "''c''" 9]
  by (auto simp: table_wf_def sample_row_def rowToItem_def split: prod.splits option.splits)

section \<open>Attempts\<close>

text \<open>With \<open>k\<close> restarts so far.\<close>

definition attempts_ok :: "int \<Rightarrow> QueueTable \<Rightarrow> bool" where
  "attempts_ok k tbl \<longleftrightarrow> (\<forall>r \<in> set (q_rows tbl). 1 \<le> q_max_attempts r \<and>
     q_attempts r \<le> q_max_attempts r + k \<and> (q_status r = Pending \<longrightarrow> q_attempts r < q_max_attempts r + k))"

lemma attempts_ok_update:
  assumes "attempts_ok k tbl"
    and "\<And>r. r \<in> set (q_rows tbl) \<Longrightarrow> P r \<Longrightarrow> 1 \<le> q_max_attempts r \<Longrightarrow> q_attempts r \<le> q_max_attempts r + k \<Longrightarrow>
      (q_status r = Pending \<Longrightarrow> q_attempts r < q_max_attempts r + k) \<Longrightarrow>
      q_max_attempts (f r) = q_max_attempts r \<and> q_attempts (f r) \<le> q_max_attempts r + k' \<and>
      (q_status (f r) = Pending \<longrightarrow> q_attempts (f r) < q_max_attempts r + k')"
    and "k \<le> k'"
  shows "attempts_ok k' (update_rows P f tbl)"
proof -
  have "1 \<le> q_max_attempts (if P r then f r else r) \<and>
      q_attempts (if P r then f r else r) \<le> q_max_attempts (if P r then f r else r) + k' \<and>
      (q_status (if P r then f r else r) = Pending \<longrightarrow>
        q_attempts (if P r then f r else r) < q_max_attempts (if P r then f r else r) + k')"
    if r: "r \<in> set (q_rows tbl)" for r
    using assms(2) [OF r] assms(1,3) r unfolding attempts_ok_def by (smt (verit))
  then show ?thesis unfolding attempts_ok_def set_update_rows by blast
qed

lemma dequeue_where_attempts:
  assumes "tie_ok tie" "table_wf tbl" "attempts_ok k tbl"
  shows "attempts_ok k (snd (dequeue_where tie P now tbl))"
proof (cases rule: dequeue_where_cases [OF assms(1), of P tbl now])
  case (2 r)
  have "r' = r" if "r' \<in> set (q_rows tbl)" "q_id r' = q_id r" for r'
    using that 2(1) assms(2) by (auto simp: table_wf_def distinct_map dest: inj_onD)
  then show ?thesis using 2(2,5) assms(3) by (auto intro!: attempts_ok_update)
qed (use assms in simp)

fun op_ok :: "queue_op \<Rightarrow> bool" where
  "op_ok (OpEnqueue m k) \<longleftrightarrow> 1 \<le> k"
| "op_ok _ \<longleftrightarrow> True"

fun restarts :: "queue_op \<Rightarrow> int" where
  "restarts OpRestart = 1"
| "restarts _ = 0"

lemma queue_apply_attempts:
  assumes "tie_ok tie" "table_wf tbl" "attempts_ok k tbl" "0 \<le> k" "op_ok op"
  shows "attempts_ok (k + restarts op) (queue_apply tie (now, op) tbl)"
proof (cases op)
  case (OpEnqueue m n)
  then show ?thesis using assms by (auto simp: attempts_ok_def queue_defs)
next
  case (OpPurge age)
  then show ?thesis using assms by (auto simp: attempts_ok_def queue_defs)
qed (use assms in \<open>auto simp: queue_defs dequeue_where_attempts intro!: attempts_ok_update split: if_splits\<close>)

lemma queue_run_attempts:
  "tie_ok tie \<Longrightarrow> table_wf tbl \<Longrightarrow> attempts_ok k tbl \<Longrightarrow> 0 \<le> k \<Longrightarrow> list_all (op_ok \<circ> snd) ops \<Longrightarrow>
   attempts_ok (k + sum_list (map (restarts \<circ> snd) ops)) (queue_run tie ops tbl)"
proof (induction ops arbitrary: tbl k)
  case (Cons op ops)
  have "0 \<le> restarts (snd op)" by (cases "snd op") auto
  then have "attempts_ok (k + restarts (snd op) + sum_list (map (restarts \<circ> snd) ops))
      (queue_run tie ops (queue_apply tie op tbl))"
    using Cons.prems queue_apply_attempts [of tie tbl k "snd op" "fst op"]
    by (intro Cons.IH) (auto simp: queue_apply_wf)
  then show ?case by (simp add: queue_run_def add.assoc comp_def)
qed (simp add: queue_run_def)

text \<open>
  Retries are bounded: whatever operations are applied to an initially empty queue, no message
  has been handed out more often than its maximum (at least one) plus the number of restarts, since
  it was enqueued or taken back from the dead letters; and a message that waits for another attempt
  is still below that bound. Without restarts the maximum itself is the bound.
\<close>

theorem attempts_bounded:
  assumes "tie_ok tie" "list_all (op_ok \<circ> snd) ops" "r \<in> set (q_rows (queue_run tie ops emptyTable))"
  shows "q_attempts r \<le> q_max_attempts r + sum_list (map (restarts \<circ> snd) ops) \<and>
    (q_status r = Pending \<longrightarrow> q_attempts r < q_max_attempts r + sum_list (map (restarts \<circ> snd) ops))"
  using queue_run_attempts [of tie emptyTable 0 ops] assms
  by (auto simp: attempts_ok_def table_wf_def emptyTable_def)

definition failing_history :: "(time \<times> queue_op) list" where
  "failing_history = [(0, OpEnqueue sample_message 2), (1, OpDequeue), (2, OpFail 1 ''e''), (3, OpDequeue), (4, OpFail 1 ''e'')]"

lemma failing_history_result:
  "q_rows (queue_run hd failing_history emptyTable) =
    [\<lparr>q_id = 1, q_message_id = ''m'', q_chat_id = ''c'', q_channel = Telegram, q_payload = sample_message,
      q_status = Dead_letter, q_attempts = 2, q_max_attempts = 2, q_created_at = 0, q_updated_at = 4,
      q_error = Some ''e''\<rparr>]"
  by (simp add: failing_history_def queue_run_def emptyTable_def queue_defs dequeue_where_def oldest_rows_def
      update_rows_def rowToItem_def sample_message_def)

theorem attempts_bounded_witness:
  "let r = hd (q_rows (queue_run hd failing_history emptyTable))
   in q_attempts r \<le> q_max_attempts r + 0 \<and> q_attempts r = 2 \<and> q_status r = Dead_letter"
proof -
  let ?r = "hd (q_rows (queue_run hd failing_history emptyTable))"
  have "list_all (op_ok \<circ> snd) failing_history" "sum_list (map (restarts \<circ> snd) failing_history) = 0"
    by (simp_all add: failing_history_def)
  then have "q_attempts ?r \<le> q_max_attempts ?r + 0"
    using attempts_bounded [OF tie_ok_hd, of failing_history ?r] failing_history_result by simp
  then show ?thesis by (simp add: failing_history_result)
qed

section \<open>No message is lost\<close>

text \<open>The row of message \<open>r\<close>, not completed: its identity and contents are fixed.\<close>

definition unfinished :: "QueueRow \<Rightarrow> QueueTable \<Rightarrow> bool" where
  "unfinished r tbl \<longleftrightarrow> (\<exists>r' \<in> set (q_rows tbl). q_id r' = q_id r \<and> q_payload r' = q_payload r \<and>
     q_chat_id r' = q_chat_id r \<and> q_created_at r' = q_created_at r \<and> q_status r' \<noteq> Completed)"

lemma unfinished_update:
  assumes "unfinished r tbl"
    and "\<And>r'. q_id r' = q_id r \<Longrightarrow> P r' \<Longrightarrow> q_status r' \<noteq> Completed \<Longrightarrow>
      q_id (f r') = q_id r' \<and> q_payload (f r') = q_payload r' \<and> q_chat_id (f r') = q_chat_id r' \<and>
      q_created_at (f r') = q_created_at r' \<and> q_status (f r') \<noteq> Completed"
  shows "unfinished r (update_rows P f tbl)"
proof -
  obtain r' where r': "r' \<in> set (q_rows tbl)" "q_id r' = q_id r" "q_payload r' = q_payload r"
      "q_chat_id r' = q_chat_id r" "q_created_at r' = q_created_at r" "q_status r' \<noteq> Completed"
    using assms(1) by (auto simp: unfinished_def)
  then show ?thesis
    unfolding unfinished_def set_update_rows
    using assms(2) [OF r'(2)] by (intro bexI [of _ "if P r' then f r' else r'"]) auto
qed

lemma queue_apply_unfinished:
  assumes "tie_ok tie" "unfinished r tbl" "op \<noteq> OpAck (q_id r)"
  shows "unfinished r (queue_apply tie (now, op) tbl)"
proof (cases op)
  case OpDequeue
  then show ?thesis
    using assms by (cases rule: dequeue_where_cases [OF assms(1), of "\<lambda>r. True" tbl now])
      (auto simp: queue_defs intro!: unfinished_update)
next
  case (OpDequeueForChat c)
  then show ?thesis
    using assms by (cases rule: dequeue_where_cases [OF assms(1), of "\<lambda>r. q_chat_id r = c" tbl now])
      (auto simp: queue_defs intro!: unfinished_update)
next
  case (OpEnqueue m k)
  then show ?thesis using assms(2) by (auto simp: unfinished_def queue_defs)
next
  case (OpPurge age)
  then show ?thesis using assms(2) by (auto simp: unfinished_def queue_defs)
qed (use assms in \<open>auto simp: queue_defs intro!: unfinished_update split: if_splits\<close>)

text \<open>
  No message is lost: whatever operations are applied, restarts, failures and purges included,
  a message that is not completed stays in the table with its contents, chat and age until it is
  acknowledged.
\<close>

theorem unacknowledged_messages_stay:
  assumes "tie_ok tie" "r \<in> set (q_rows tbl)" "q_status r \<noteq> Completed"
    and "\<forall>now. (now, OpAck (q_id r)) \<notin> set ops"
  shows "\<exists>r' \<in> set (q_rows (queue_run tie ops tbl)). q_id r' = q_id r \<and> q_payload r' = q_payload r \<and>
    q_chat_id r' = q_chat_id r \<and> q_created_at r' = q_created_at r \<and> q_status r' \<noteq> Completed"
proof -
  have "unfinished r tbl" using assms(2,3) by (auto simp: unfinished_def)
  then have "unfinished r (queue_run tie ops tbl)"
    unfolding queue_run_def using assms(4)
  proof (induction ops arbitrary: tbl)
    case (Cons op ops)
    obtain now op' where op: "op = (now, op')" by fastforce
    have "unfinished r (queue_apply tie (now, op') tbl)"
      using Cons.prems op by (intro queue_apply_unfinished assms(1)) auto
    then show ?case using Cons.IH Cons.prems(2) op by simp
  qed simp
  then show ?thesis by (simp add: unfinished_def)
qed

theorem unacknowledged_messages_stay_witness:
  "\<exists>r' \<in> set (q_rows (queue_run hd [(1, OpDequeue), (2, OpRestart), (3, OpPurge 0)]
      \<lparr>q_rows = [sample_row 7 0], q_identity = 8\<rparr>)). q_id r' = 7 \<and> q_payload r' = sample_message \<and>
    q_chat_id r' = ''c'' \<and> q_created_at r' = 0 \<and> q_status r' \<noteq> Completed"
  using unacknowledged_messages_stay [OF tie_ok_hd, of "sample_row 7 0"
      "\<lparr>q_rows = [sample_row 7 0], q_identity = 8\<rparr>" "[(1, OpDequeue), (2, OpRestart), (3, OpPurge 0)]"]
  by (simp add: sample_row_def)

section \<open>The contract of a work queue\<close>

text \<open>
  What a pool of workers relies on: taking a job of a chat claims a pending one, and nothing but
  the worker that holds a job ends its claim. \<open>pending\<close> and \<open>claimed\<close> are the job ids in the two
  states; \<open>take\<close>, \<open>done\<close>, \<open>failed\<close> and \<open>submit\<close> the operations.
\<close>

locale work_queue =
  fixes wf :: "'q \<Rightarrow> bool"
    and pending :: "'q \<Rightarrow> 'c \<Rightarrow> int set"
    and claimed :: "'q \<Rightarrow> int set"
    and take_job :: "'c \<Rightarrow> time \<Rightarrow> 'q \<Rightarrow> 'i option \<times> 'q"
    and job_id :: "'i \<Rightarrow> int"
    and done_job :: "int \<Rightarrow> time \<Rightarrow> 'q \<Rightarrow> 'q"
    and failed_job :: "int \<Rightarrow> string \<Rightarrow> time \<Rightarrow> 'q \<Rightarrow> 'q"
    and submit :: "'m \<Rightarrow> time \<Rightarrow> 'q \<Rightarrow> 'q"
  assumes take_None: "wf q \<Longrightarrow> take_job c now q = (None, q') \<Longrightarrow> q' = q \<and> pending q c = {}"
    and take_Some: "wf q \<Longrightarrow> take_job c now q = (Some i, q') \<Longrightarrow>
      wf q' \<and> job_id i \<in> pending q c \<and> job_id i \<notin> claimed q \<and> claimed q' = insert (job_id i) (claimed q) \<and>
      (\<forall>c'. pending q' c' = pending q c' - {job_id i})"
    and done_job: "wf q \<Longrightarrow> wf (done_job j now q) \<and> claimed (done_job j now q) = claimed q - {j} \<and>
      (\<forall>c. pending (done_job j now q) c = pending q c - {j})"
    and failed_job: "wf q \<Longrightarrow> wf (failed_job j e now q) \<and> claimed (failed_job j e now q) = claimed q - {j} \<and>
      (\<forall>c. pending (failed_job j e now q) c - {j} = pending q c - {j})"
    and submit: "wf q \<Longrightarrow> wf (submit m now q) \<and> claimed (submit m now q) = claimed q \<and>
      (\<forall>c. pending q c \<subseteq> pending (submit m now q) c)"
begin

text \<open>The jobs held by the workers: no job twice, and all claimed.\<close>

definition holding :: "'q \<Rightarrow> int list \<Rightarrow> bool" where
  "holding q held \<longleftrightarrow> wf q \<and> distinct held \<and> set held \<subseteq> claimed q"

lemma holding_take: "holding q held \<Longrightarrow> take_job c now q = (Some i, q') \<Longrightarrow> holding q' (held @ [job_id i])"
  unfolding holding_def by (frule (1) take_Some [OF conjunct1]) auto

lemma holding_empty: "holding q held \<Longrightarrow> take_job c now q = (None, q') \<Longrightarrow> q' = q"
  unfolding holding_def by (auto dest: take_None)

lemma holding_done: "holding q held \<Longrightarrow> holding (done_job j now q) (remove1 j held)"
  unfolding holding_def using done_job [of q j now] by (auto simp: set_remove1_eq)

lemma holding_failed: "holding q held \<Longrightarrow> holding (failed_job j e now q) (remove1 j held)"
  unfolding holding_def using failed_job [of q j e now] by (auto simp: set_remove1_eq)

lemma holding_submit: "holding q held \<Longrightarrow> holding (submit m now q) held"
  unfolding holding_def using submit [of q m now] by auto

lemma holding_drop: "holding q held \<Longrightarrow> holding q (remove1 j held)"
  unfolding holding_def by (auto dest: set_remove1_subset [THEN subsetD])

end

definition pending_ids :: "QueueTable \<Rightarrow> string \<Rightarrow> int set" where
  "pending_ids tbl c = q_id ` {r \<in> set (q_rows tbl). q_status r = Pending \<and> q_chat_id r = c}"

definition processing_ids :: "QueueTable \<Rightarrow> int set" where
  "processing_ids tbl = q_id ` {r \<in> set (q_rows tbl). q_status r = Processing}"

text \<open>A message submitted with its attempt limit, as \<open>enqueue\<close> of a started queue does.\<close>

definition submit_message :: "InboundMessage \<times> int \<Rightarrow> time \<Rightarrow> QueueTable \<Rightarrow> QueueTable" where
  "submit_message mk now tbl = snd (insert_row now (fst mk) (im_userId (fst mk)) (snd mk) tbl)"

lemma table_wf_unique:
  "table_wf tbl \<Longrightarrow> r \<in> set (q_rows tbl) \<Longrightarrow> r' \<in> set (q_rows tbl) \<Longrightarrow> q_id r = q_id r' \<Longrightarrow> r = r'"
  by (auto simp: table_wf_def distinct_map dest: inj_onD)

text \<open>Changing the status of one row.\<close>

lemma pending_ids_iff:
  "i \<in> pending_ids tbl c \<longleftrightarrow> (\<exists>r \<in> set (q_rows tbl). q_id r = i \<and> q_status r = Pending \<and> q_chat_id r = c)"
  by (auto simp: pending_ids_def)

lemma processing_ids_iff:
  "i \<in> processing_ids tbl \<longleftrightarrow> (\<exists>r \<in> set (q_rows tbl). q_id r = i \<and> q_status r = Processing)"
  by (auto simp: processing_ids_def)

lemma bex_update_one:
  assumes "\<And>r. q_id (f r) = q_id r"
  shows "(\<exists>r \<in> set (q_rows (update_rows (\<lambda>r. q_id r = j) f tbl)). q_id r = i \<and> Q r) \<longleftrightarrow>
    (\<exists>r \<in> set (q_rows tbl). q_id r = i \<and> Q (if i = j then f r else r))"
proof -
  have "q_id (if q_id r = j then f r else r) = i \<and> Q (if q_id r = j then f r else r) \<longleftrightarrow>
      q_id r = i \<and> Q (if i = j then f r else r)" for r
    using assms by auto
  then show ?thesis by (simp only: set_update_rows bex_simps)
qed

lemma update_one_ids:
  assumes "\<And>r. q_id (f r) = q_id r" "\<And>r. q_chat_id (f r) = q_chat_id r"
  shows "i \<in> pending_ids (update_rows (\<lambda>r. q_id r = j) f tbl) c \<longleftrightarrow>
      (if i = j then \<exists>r \<in> set (q_rows tbl). q_id r = j \<and> q_chat_id r = c \<and> q_status (f r) = Pending
       else i \<in> pending_ids tbl c)"
    and "i \<in> processing_ids (update_rows (\<lambda>r. q_id r = j) f tbl) \<longleftrightarrow>
      (if i = j then \<exists>r \<in> set (q_rows tbl). q_id r = j \<and> q_status (f r) = Processing
       else i \<in> processing_ids tbl)"
  using bex_update_one [of f j tbl i] assms by (auto simp: pending_ids_iff processing_ids_iff)

definition queue_ready :: "(QueueRow list \<Rightarrow> QueueRow) \<Rightarrow> QueueTable \<Rightarrow> bool" where
  "queue_ready tie tbl \<longleftrightarrow> tie_ok tie \<and> table_wf tbl"

lemma dequeueForChat_None:
  assumes "queue_ready tie tbl" "dequeueForChat tie c now tbl = (None, tbl')"
  shows "tbl' = tbl \<and> pending_ids tbl c = {}"
proof -
  have tie: "tie_ok tie" using assms(1) by (simp add: queue_ready_def)
  show ?thesis
    by (cases rule: dequeue_where_cases [OF tie, of "\<lambda>r. q_chat_id r = c" tbl now])
      (use assms(2) in \<open>auto simp: dequeueForChat_def pending_ids_def filter_empty_conv\<close>)
qed

lemma dequeueForChat_Some:
  assumes "queue_ready tie tbl" "dequeueForChat tie c now tbl = (Some i, tbl')"
  shows "queue_ready tie tbl' \<and> qi_id i \<in> pending_ids tbl c \<and> qi_id i \<notin> processing_ids tbl \<and>
    processing_ids tbl' = insert (qi_id i) (processing_ids tbl) \<and>
    (\<forall>c'. pending_ids tbl' c' = pending_ids tbl c' - {qi_id i})"
proof -
  have tie: "tie_ok tie" and wf: "table_wf tbl" using assms(1) by (simp_all add: queue_ready_def)
  show ?thesis
  proof (cases rule: dequeue_where_cases [OF tie, of "\<lambda>r. q_chat_id r = c" tbl now])
    case 1
    then show ?thesis using assms(2) by (simp add: dequeueForChat_def)
  next
    case (2 r)
    let ?f = "\<lambda>r. r\<lparr>q_status := Processing, q_attempts := q_attempts r + 1, q_updated_at := now\<rparr>"
    have i: "qi_id i = q_id r" and tbl': "tbl' = update_rows (\<lambda>r'. q_id r' = q_id r) ?f tbl"
      using 2(5) assms(2) by (auto simp: dequeueForChat_def rowToItem_def)
    have "table_wf tbl'" unfolding tbl' using wf by (intro table_wf_update) simp_all
    moreover have "q_id r \<notin> processing_ids tbl"
      using table_wf_unique [OF wf _ 2(1)] 2(2) unfolding processing_ids_iff by (metis QueueStatus.distinct(1))
    moreover have "processing_ids tbl' = insert (q_id r) (processing_ids tbl)"
      using 2(1) by (intro set_eqI) (auto simp: tbl' update_one_ids)
    moreover have "pending_ids tbl' c' = pending_ids tbl c' - {q_id r}" for c'
      by (intro set_eqI) (auto simp: tbl' update_one_ids)
    moreover have "q_id r \<in> pending_ids tbl c" using 2(1,2,3) by (auto simp: pending_ids_iff)
    ultimately show ?thesis using tie by (simp add: i queue_ready_def)
  qed
qed

interpretation table_queue: work_queue "queue_ready tie" pending_ids processing_ids "dequeueForChat tie" qi_id
    acknowledge fail_row submit_message
  for tie
proof unfold_locales
  fix tbl tbl' c now and i j e and m :: "InboundMessage \<times> int"
  assume wf: "queue_ready tie tbl"
  show "dequeueForChat tie c now tbl = (None, tbl') \<Longrightarrow> tbl' = tbl \<and> pending_ids tbl c = {}"
    using wf by (rule dequeueForChat_None)
  show "dequeueForChat tie c now tbl = (Some i, tbl') \<Longrightarrow>
      queue_ready tie tbl' \<and> qi_id i \<in> pending_ids tbl c \<and> qi_id i \<notin> processing_ids tbl \<and>
      processing_ids tbl' = insert (qi_id i) (processing_ids tbl) \<and>
      (\<forall>c'. pending_ids tbl' c' = pending_ids tbl c' - {qi_id i})"
    using wf by (rule dequeueForChat_Some)
  show "queue_ready tie (acknowledge j now tbl) \<and>
      processing_ids (acknowledge j now tbl) = processing_ids tbl - {j} \<and>
      (\<forall>c. pending_ids (acknowledge j now tbl) c = pending_ids tbl c - {j})"
    using wf by (auto simp: queue_ready_def acknowledge_def update_one_ids intro!: table_wf_update split: if_splits)
  show "queue_ready tie (fail_row j e now tbl) \<and>
      processing_ids (fail_row j e now tbl) = processing_ids tbl - {j} \<and>
      (\<forall>c. pending_ids (fail_row j e now tbl) c - {j} = pending_ids tbl c - {j})"
    using wf by (auto simp: queue_ready_def fail_row_def update_one_ids intro!: table_wf_update split: if_splits)
  show "queue_ready tie (submit_message m now tbl) \<and>
      processing_ids (submit_message m now tbl) = processing_ids tbl \<and>
      (\<forall>c. pending_ids tbl c \<subseteq> pending_ids (submit_message m now tbl) c)"
    using wf by (auto simp: queue_ready_def table_wf_def submit_message_def insert_row_def
        pending_ids_def processing_ids_def)
qed

end
