(* ===== verification/Message_Router.thy ===== *)
theory Message_Router
  imports Complex_Main Effects Message_Queue
begin

text \<open>
  \<^verbatim>\<open>src/src/orchestrator/message-router.ts\<close>: delivering the agent's answer and extracting facts from its tool
  calls. The channel container, the session and profile lookups and the two writes to the database
  are parameters; each may fail. Shown: what an agent result leads to, and that a failing channel
  never keeps the answer out of the database.
\<close>

record ToolCallRecord =
  tc_tool :: string
  tc_args :: "(string \<times> json) list"
  tc_result :: "string option"

record AgentResult =
  ar_text :: string
  ar_toolCalls :: "ToolCallRecord list"
  ar_success :: bool
  ar_error :: "string option"

datatype SemanticMemoryType = Preference | Fact | Pattern | Contact | Instruction | Summary | Procedure

record ExtractedFact =
  ef_content :: string
  ef_type :: SemanticMemoryType
  ef_importance :: rat

section \<open>Facts from tool calls\<close>

definition extractFactFromToolCall ::
    "string \<Rightarrow> (string \<times> json) list \<Rightarrow> string option \<Rightarrow> ExtractedFact option" where
  "extractFactFromToolCall tool args result =
     (if str_includes tool ''gmail'' \<and> str_includes tool ''send'' \<and> truthy result then
        (let to = (case map_of args ''to'' of Some (JStr s) \<Rightarrow> s | _ \<Rightarrow> ''unknown'');
             subject = (case map_of args ''subject'' of Some (JStr s) \<Rightarrow> s | _ \<Rightarrow> '''')
         in Some \<lparr>ef_content = ''Sent email to '' @ to @ (if subject \<noteq> '''' then '': '' @ subject else ''''),
                 ef_type = Fact, ef_importance = 6 / 10\<rparr>)
      else if str_includes tool ''calendar'' \<and> str_includes tool ''insert'' \<and> truthy result then
        (let summary = (case map_of args ''summary'' of Some (JStr s) \<Rightarrow> s | _ \<Rightarrow> ''event'')
         in Some \<lparr>ef_content = ''Created calendar event: '' @ summary, ef_type = Fact, ef_importance = 6 / 10\<rparr>)
      else None)"

section \<open>Delivery\<close>

datatype router_call =
    ChannelSend ChannelType string string "string option"
  | GetActiveSession string
  | GetChatProfile string
  | StoreMessage string ChannelType string "string option" string
  | StoreSemanticMemory string SemanticMemoryType rat "string option" string

text \<open>The services behind the router, and whether it is started and has a channel client.\<close>

record router_env =
  rt_started :: bool
  rt_channelClient :: "(ChannelType \<Rightarrow> string \<Rightarrow> string \<Rightarrow> string option \<Rightarrow> string + unit) option"
  rt_session :: "string \<Rightarrow> string + string option"
  rt_profile :: "string \<Rightarrow> string + string option"
  rt_storeMessage :: "string \<Rightarrow> string \<Rightarrow> string + unit"
  rt_storeMemory :: "ExtractedFact \<Rightarrow> string + unit"

definition sendResponse ::
    "router_env \<Rightarrow> string \<Rightarrow> ChannelType \<Rightarrow> string \<Rightarrow> string option \<Rightarrow> (router_call, unit) act" where
  "sendResponse env chatId channel text replyToId =
     (if \<not> rt_started env then throw ''MessageRouter not started''
      else
        bindA
          (case rt_channelClient env of
             None \<Rightarrow> ret ()
           | Some send \<Rightarrow>
               tryA (call (ChannelSend channel chatId text replyToId) (send channel chatId text replyToId))
                 (\<lambda>e. ret ())) (\<lambda>_.
        bindA (call (GetActiveSession chatId) (rt_session env chatId)) (\<lambda>session.
        bindA (call (GetChatProfile chatId) (rt_profile env chatId)) (\<lambda>profile.
        call (StoreMessage chatId channel text session (case profile of Some p \<Rightarrow> p | None \<Rightarrow> ''''))
          (rt_storeMessage env chatId text)))))"

definition extractMemories :: "router_env \<Rightarrow> string \<Rightarrow> AgentResult \<Rightarrow> (router_call, unit) act" where
  "extractMemories env chatId result =
     bindA (call (GetActiveSession chatId) (rt_session env chatId)) (\<lambda>session.
     bindA (call (GetChatProfile chatId) (rt_profile env chatId)) (\<lambda>profile.
     forA (ar_toolCalls result) (\<lambda>c.
       case extractFactFromToolCall (tc_tool c) (tc_args c) (tc_result c) of
         None \<Rightarrow> ret ()
       | Some fc \<Rightarrow>
           call (StoreSemanticMemory (ef_content fc) (ef_type fc) (ef_importance fc) session
                   (case profile of Some p \<Rightarrow> p | None \<Rightarrow> ''''))
             (rt_storeMemory env fc))))"

definition handleAgentResult ::
    "router_env \<Rightarrow> string \<Rightarrow> ChannelType \<Rightarrow> AgentResult \<Rightarrow> string option \<Rightarrow> (router_call, unit) act" where
  "handleAgentResult env chatId channel result replyToId =
     bindA (whenA (ar_text result \<noteq> '''') (sendResponse env chatId channel (ar_text result) replyToId)) (\<lambda>_.
     whenA (ar_success result \<and> ar_text result \<noteq> '''') (extractMemories env chatId result))"

section \<open>Properties\<close>

text \<open>The memories an agent result stores, in order.\<close>

definition result_facts :: "AgentResult \<Rightarrow> ExtractedFact list" where
  "result_facts result =
     concat (map (\<lambda>c. case extractFactFromToolCall (tc_tool c) (tc_args c) (tc_result c) of
       None \<Rightarrow> [] | Some f \<Rightarrow> [f]) (ar_toolCalls result))"

lemma forA_facts:
  assumes "\<And>f. rt_storeMemory env f = Inr ()"
  shows "forA cs (\<lambda>c. case extractFactFromToolCall (tc_tool c) (tc_args c) (tc_result c) of
         None \<Rightarrow> ret ()
       | Some fc \<Rightarrow> call (StoreSemanticMemory (ef_content fc) (ef_type fc) (ef_importance fc) s p)
           (rt_storeMemory env fc)) =
    (map (\<lambda>f. StoreSemanticMemory (ef_content f) (ef_type f) (ef_importance f) s p)
       (concat (map (\<lambda>c. case extractFactFromToolCall (tc_tool c) (tc_args c) (tc_result c) of
          None \<Rightarrow> [] | Some f \<Rightarrow> [f]) cs)), Inr ())"
proof (induction cs)
  case (Cons c cs)
  then show ?case using assms by (auto simp: bindA_def call_def ret_def split: option.splits)
qed (simp add: ret_def)

text \<open>
  Whatever the channel container answers, an agent's non-empty text is written to the message
  history when the database works, after one delivery attempt; and exactly the facts found in the
  tool calls of a successful result are stored as memories, in the order of the calls. An empty
  text leads to nothing at all.
\<close>

theorem agent_result_delivered:
  assumes "rt_started env" "rt_session env chatId = Inr s" "rt_profile env chatId = Inr (Some p)"
    and "rt_storeMessage env chatId (ar_text result) = Inr ()" "\<And>f. rt_storeMemory env f = Inr ()"
  shows "handleAgentResult env chatId channel result replyTo =
    (if ar_text result = '''' then [] else
       (case rt_channelClient env of None \<Rightarrow> []
          | Some _ \<Rightarrow> [ChannelSend channel chatId (ar_text result) replyTo]) @
       [GetActiveSession chatId, GetChatProfile chatId, StoreMessage chatId channel (ar_text result) s p] @
       (if ar_success result
        then [GetActiveSession chatId, GetChatProfile chatId] @
          map (\<lambda>f. StoreSemanticMemory (ef_content f) (ef_type f) (ef_importance f) s p) (result_facts result)
        else []),
     Inr ())"
proof -
  have "handleAgentResult env chatId channel result replyTo = ([], Inr ())" if "ar_text result = ''''"
    using that by (simp add: handleAgentResult_def whenA_def ret_def bindA_def)
  moreover have "sendResponse env chatId channel (ar_text result) replyTo =
      ((case rt_channelClient env of None \<Rightarrow> []
          | Some _ \<Rightarrow> [ChannelSend channel chatId (ar_text result) replyTo]) @
       [GetActiveSession chatId, GetChatProfile chatId, StoreMessage chatId channel (ar_text result) s p], Inr ())"
    using assms by (auto simp: sendResponse_def bindA_def call_def tryA_def ret_def split: option.splits sum.splits)
  moreover have "extractMemories env chatId result =
      ([GetActiveSession chatId, GetChatProfile chatId] @
        map (\<lambda>f. StoreSemanticMemory (ef_content f) (ef_type f) (ef_importance f) s p) (result_facts result), Inr ())"
    using assms
    by (simp add: extractMemories_def forA_facts bindA_def call_def result_facts_def)
  ultimately show ?thesis
    by (auto simp: handleAgentResult_def whenA_def bindA_def ret_def)
qed

definition email_result :: AgentResult where
  "email_result = \<lparr>ar_text = ''ok'', ar_toolCalls =
     [\<lparr>tc_tool = ''gmail_send'', tc_args = [(''to'', JStr ''b'')], tc_result = Some ''1''\<rparr>], ar_success = True, ar_error = None\<rparr>"

definition failing_channel_env :: router_env where
  "failing_channel_env = \<lparr>rt_started = True, rt_channelClient = Some (\<lambda>c i t r. Inl ''down''),
     rt_session = (\<lambda>c. Inr (Some ''s'')), rt_profile = (\<lambda>c. Inr (Some ''p'')),
     rt_storeMessage = (\<lambda>c t. Inr ()), rt_storeMemory = (\<lambda>f. Inr ())\<rparr>"

theorem agent_result_delivered_witness:
  "handleAgentResult failing_channel_env ''c'' Telegram email_result None =
    ([ChannelSend Telegram ''c'' ''ok'' None, GetActiveSession ''c'', GetChatProfile ''c'',
      StoreMessage ''c'' Telegram ''ok'' (Some ''s'') ''p'', GetActiveSession ''c'', GetChatProfile ''c'',
      StoreSemanticMemory ''Sent email to b'' Fact (6 / 10) (Some ''s'') ''p''], Inr ())"
  using agent_result_delivered [of failing_channel_env "''c''" "Some ''s''" "''p''" email_result Telegram None]
  by (simp add: failing_channel_env_def email_result_def result_facts_def extractFactFromToolCall_def
      startsWith_def)

end
