(* ===== verification/Agent_Runtime.thy ===== *)
theory Agent_Runtime
  imports JSON_Text Message_Router
begin

text \<open>
  What the orchestrator runs in an agent container and how it reads the output:
  \<^verbatim>\<open>cli-response.ts\<close>, \<^verbatim>\<open>cli-runtime.ts\<close>, \<^verbatim>\<open>sdk-runtime.ts\<close>, \<^verbatim>\<open>mcp-config.ts\<close> and \<^verbatim>\<open>system-prompt.ts\<close> of
  \<^verbatim>\<open>src/src/agent\<close>, and the loop of \<^verbatim>\<open>warm-container-runtime.ts\<close> that executes, retries and parses. The
  two runtimes are instances of one locale, whose laws are what the abstract class asks of them.

  The fields of the parsed output are read without a check in the source, so they are whatever JSON
  values the agent printed.
\<close>

section \<open>JSON values as JavaScript reads them\<close>

fun json_truthy :: "json option \<Rightarrow> bool" where
  "json_truthy (Some (JBool b)) \<longleftrightarrow> b"
| "json_truthy (Some (JNum n)) \<longleftrightarrow> n \<noteq> 0"
| "json_truthy (Some (JStr s)) \<longleftrightarrow> s \<noteq> []"
| "json_truthy (Some JNull) \<longleftrightarrow> False"
| "json_truthy (Some _) \<longleftrightarrow> True"
| "json_truthy None \<longleftrightarrow> False"

text \<open>\<^verbatim>\<open>x ?? d\<close>\<close>

fun nullish :: "json option \<Rightarrow> json \<Rightarrow> json" where
  "nullish None d = d"
| "nullish (Some JNull) d = d"
| "nullish (Some v) d = v"

section \<open>The output of the command line agent\<close>

record ParsedCliResponse =
  pc_text :: json
  pc_success :: bool
  pc_error :: "json option"
  pc_sessionId :: json
  pc_numTurns :: json
  pc_inputTokens :: json
  pc_outputTokens :: json

definition failedResponse :: "string \<Rightarrow> string \<Rightarrow> ParsedCliResponse" where
  "failedResponse text err =
     \<lparr>pc_text = JStr text, pc_success = False, pc_error = Some (JStr err), pc_sessionId = JStr [],
      pc_numTurns = JNum 0, pc_inputTokens = JNum 0, pc_outputTokens = JNum 0\<rparr>"

text \<open>The error of a run: the printed result, or a fixed text when there is none.\<close>

definition agentError :: "json \<Rightarrow> json option" where
  "agentError j =
     (if json_truthy (field j ''is_error'')
      then Some (if json_truthy (field j ''result'') then the (field j ''result'') else JStr ''Agent returned an error'')
      else None)"

text \<open>\<^verbatim>\<open>/\{[\s\S]*\}/\<close>: from the first opening to the last closing brace.\<close>

definition braces :: "string \<Rightarrow> string option" where
  "braces s =
     (let r = dropWhile (\<lambda>c. c \<noteq> CHR ''{'') s; m = rev (dropWhile (\<lambda>c. c \<noteq> CHR ''}'') (rev r))
      in if m = [] then None else Some m)"

definition responseOf :: "json \<Rightarrow> string \<Rightarrow> string \<Rightarrow> ParsedCliResponse" where
  "responseOf j inTok outTok =
     \<lparr>pc_text = nullish (field j ''result'') (JStr []), pc_success = (\<not> json_truthy (field j ''is_error'')),
      pc_error = agentError j, pc_sessionId = nullish (field j ''session_id'') (JStr []),
      pc_numTurns = nullish (field j ''num_turns'') (JNum 0), pc_inputTokens = nullish (field j inTok) (JNum 0),
      pc_outputTokens = nullish (field j outTok) (JNum 0)\<rparr>"

text \<open>The type error of reading a property of \<^verbatim>\<open>null\<close> is on the left.\<close>

definition readResponse :: "json \<Rightarrow> string \<Rightarrow> string \<Rightarrow> string + ParsedCliResponse" where
  "readResponse j inTok outTok = (if j = JNull then Inl ''TypeError'' else Inr (responseOf j inTok outTok))"

definition errOr :: "string \<Rightarrow> string \<Rightarrow> string" where
  "errOr stderr d = (if trim stderr = [] then d else trim stderr)"

definition parseCliResponse :: "string \<Rightarrow> string \<Rightarrow> string + ParsedCliResponse" where
  "parseCliResponse stdout stderr =
     (let trimmed = trim stdout; failed = failedResponse trimmed ''Failed to parse agent response as JSON'' in
      if trimmed = [] then Inr (failedResponse [] (errOr stderr ''Empty response from agent''))
      else case parse_json trimmed of
        Some j \<Rightarrow> readResponse j ''total_input_tokens'' ''total_output_tokens''
      | None \<Rightarrow>
          (case braces trimmed of
             None \<Rightarrow> Inr failed
           | Some m \<Rightarrow>
               (case parse_json m of
                  None \<Rightarrow> Inr failed
                | Some j \<Rightarrow> readResponse j ''total_input_tokens'' ''total_output_tokens'')))"

definition json_lines :: "string \<Rightarrow> string list" where
  "json_lines s = split_on (CHR 0x0A) (trim s)"

text \<open>The loops skip blank lines, lines that are not JSON and lines without the wanted field.\<close>

definition assistantUuid :: "string \<Rightarrow> string option" where
  "assistantUuid line =
     (if trim line = [] then None
      else case parse_json (trim line) of
        None \<Rightarrow> None
      | Some e \<Rightarrow> if field e ''type'' = Some (JStr ''assistant'') then as_string (field e ''uuid'') else None)"

definition initSessionId :: "string \<Rightarrow> string option" where
  "initSessionId line =
     (if trim line = [] then None
      else case parse_json (trim line) of
        None \<Rightarrow> None
      | Some e \<Rightarrow> if field e ''type'' = Some (JStr ''system'') then as_string (field e ''session_id'') else None)"

fun first_some :: "('a \<Rightarrow> 'b option) \<Rightarrow> 'a list \<Rightarrow> 'b option" where
  "first_some f [] = None"
| "first_some f (x # xs) = (case f x of None \<Rightarrow> first_some f xs | Some y \<Rightarrow> Some y)"

definition extractLastAssistantUuid :: "string \<Rightarrow> string option" where
  "extractLastAssistantUuid s = first_some assistantUuid (rev (json_lines s))"

definition extractSessionIdFromJsonl :: "string \<Rightarrow> string option" where
  "extractSessionIdFromJsonl s = first_some initSessionId (json_lines s)"

section \<open>System prompt and tool configuration\<close>

definition promptLines :: "string list" where
  "promptLines =
     [[],
      ''## Core Behavior'',
      [],
      ''- Respond directly and concisely to the user's message.'',
      ''- Use the tools available to you when needed. Prefer action over explanation.'',
      ''- When you learn something about the user (preferences, facts, contacts), store it using memory tools so you can recall it later.'',
      ''- When you need context about the user or past conversations, search memory first.'',
      ''- Never fabricate information. If you don't know something and can't find it in memory, say so.'',
      ''- Respect the user's communication style. Match their formality level.'',
      [],
      ''## Memory Tools'',
      [],
      ''You have access to memory tools via MCP. Use them proactively:'',
      [],
      ''- **search_semantic**: Find stored facts, preferences, and patterns about the user.'',
      ''- **store_semantic**: Save new facts, preferences, or patterns you learn.'',
      ''- **recall_conversation**: Review recent conversation history.'',
      ''- **search_external**: Search uploaded documents and knowledge base.'',
      ''- **get_identity**: Get your configured identity and the user's profile.'',
      ''- **observe_personality**: Record observations about the user's communication style.'',
      [],
      ''Your appended context (below) contains pre-fetched memory relevant to this message. MCP tools let you search for additional context during your response.'',
      [],
      ''## Guidelines'',
      [],
      ''- Be helpful, accurate, and respectful.'',
      ''- Keep responses focused on what the user asked.'',
      ''- If a task requires multiple steps, break it down and execute each step.'',
      ''- For ambiguous requests, make reasonable assumptions and note them.'',
      ''- Prioritize the user's stated preferences (from memory) in your responses.'']"

definition buildSystemPrompt :: "bool \<Rightarrow> string option \<Rightarrow> string option \<Rightarrow> string option" where
  "buildSystemPrompt useCustom agentName username =
     (if \<not> useCustom then None
      else let name = (case agentName of Some n \<Rightarrow> n | None \<Rightarrow> ''FlowHelm Agent'');
               user = (if truthy username then '' for '' @ the username else [])
           in Some (join_with [CHR 0x0A]
                ((''You are '' @ name @ '', a personal AI assistant'' @ user @
                  ''. You help with tasks, answer questions, and manage information through conversation.'') # promptLines)))"

definition estimatePromptTokens :: "string \<Rightarrow> int" where
  "estimatePromptTokens prompt = ceil_div (int (length prompt)) 4"

definition DEFAULT_BRIDGE_SCRIPT :: string where
  "DEFAULT_BRIDGE_SCRIPT = ''/workspace/stdio-to-uds-bridge.cjs''"

definition DEFAULT_SOCKET_PATH :: string where
  "DEFAULT_SOCKET_PATH = ''/workspace/ipc/memory.sock''"

record McpConfigOptions =
  mo_socketPath :: "string option"
  mo_bridgeScriptPath :: "string option"
  mo_tcpHost :: "string option"
  mo_tcpPort :: "nat option"

definition mcpServer :: "string \<Rightarrow> (string \<times> json) list \<Rightarrow> json" where
  "mcpServer script env =
     JObj [(''mcpServers'', JObj [(''flowhelm'',
       JObj [(''command'', JStr ''node''), (''args'', JArr [JStr script]), (''env'', JObj env)])])]"

definition generateMcpConfig :: "McpConfigOptions \<Rightarrow> json" where
  "generateMcpConfig options =
     (let bridgeScript = (case mo_bridgeScriptPath options of Some s \<Rightarrow> s | None \<Rightarrow> DEFAULT_BRIDGE_SCRIPT) in
      if truthy (mo_tcpHost options) \<and> mo_tcpPort options \<noteq> None \<and> mo_tcpPort options \<noteq> Some 0
      then mcpServer bridgeScript
             [(''FLOWHELM_MCP_HOST'', JStr (the (mo_tcpHost options))),
              (''FLOWHELM_MCP_PORT'', JStr (show_nat (the (mo_tcpPort options))))]
      else mcpServer bridgeScript
             [(''FLOWHELM_MCP_SOCKET'',
               JStr (case mo_socketPath options of Some s \<Rightarrow> s | None \<Rightarrow> DEFAULT_SOCKET_PATH))])"

section \<open>Commands\<close>

record AgentTask =
  at_chatId :: string
  at_message :: string
  at_username :: string
  at_maxTurns :: nat
  at_env :: "(string, string) js_map"
  at_systemPrompt :: "string option"
  at_mcpPort :: "nat option"

record AgentConfig =
  cf_useCustomSystemPrompt :: bool
  cf_disableSlashCommands :: bool
  cf_tools :: "string option"

text \<open>The state of a warm container that the runtimes read and update.\<close>

record WarmContainer =
  wc_containerId :: string
  wc_containerName :: string
  wc_chatId :: string
  wc_sessionId :: "json option"
  wc_createdAt :: time
  wc_lastActivityAt :: time
  wc_messageCount :: nat
  wc_sessionDir :: string
  wc_ipcDir :: string

definition push_if :: "bool \<Rightarrow> string list \<Rightarrow> string list" where
  "push_if b xs = (if b then xs else [])"

text \<open>A session id is a string unless the agent printed something else.\<close>

fun session_text :: "json option \<Rightarrow> string" where
  "session_text (Some (JStr s)) = s"
| "session_text (Some j) = stringify j"
| "session_text None = []"

definition buildCliCommand :: "AgentConfig \<Rightarrow> AgentTask \<Rightarrow> WarmContainer \<Rightarrow> string list" where
  "buildCliCommand cfg task c =
     [''claude'', ''-p'', ''--output-format'', ''json'', ''--dangerously-skip-permissions'',
      ''--max-turns'', show_nat (at_maxTurns task)]
     @ (case buildSystemPrompt (cf_useCustomSystemPrompt cfg) None None of
          Some p \<Rightarrow> [''--system-prompt'', p] | None \<Rightarrow> [])
     @ push_if (truthy (at_systemPrompt task)) [''--append-system-prompt'', the (at_systemPrompt task)]
     @ [''--mcp-config'', ''/workspace/config/mcp-config.json'', ''--strict-mcp-config'']
     @ push_if (json_truthy (wc_sessionId c)) [''--resume'', session_text (wc_sessionId c)]
     @ push_if (cf_disableSlashCommands cfg) [''--disable-slash-commands'']
     @ push_if (truthy (cf_tools cfg)) [''--allowedTools'', the (cf_tools cfg)]
     @ [at_message task]"

definition buildSdkCommand :: "AgentConfig \<Rightarrow> AgentTask \<Rightarrow> WarmContainer \<Rightarrow> string list" where
  "buildSdkCommand cfg task c =
     [''node'', ''/workspace/sdk-runner.js'', ''--message'', at_message task,
      ''--max-turns'', show_nat (at_maxTurns task), ''--mcp-config'', ''/workspace/config/mcp-config.json'']
     @ push_if (truthy (at_systemPrompt task)) [''--append-system-prompt'', the (at_systemPrompt task)]
     @ (case buildSystemPrompt (cf_useCustomSystemPrompt cfg) None None of
          Some p \<Rightarrow> [''--system-prompt'', p] | None \<Rightarrow> [])
     @ push_if (json_truthy (wc_sessionId c)) [''--resume'', session_text (wc_sessionId c)]
     @ push_if (truthy (cf_tools cfg)) [''--allowed-tools'', the (cf_tools cfg)]"

text \<open>The output of the SDK runner is read without the search for braces.\<close>

definition parseSdkResult :: "string \<Rightarrow> string \<Rightarrow> string + ParsedCliResponse" where
  "parseSdkResult stdout stderr =
     (let trimmed = trim stdout in
      if trimmed = [] then Inr (failedResponse [] (errOr stderr ''Empty response from SDK runner''))
      else case parse_json trimmed of
        None \<Rightarrow> Inr (failedResponse trimmed ''Failed to parse SDK runner response as JSON'')
      | Some j \<Rightarrow> readResponse j ''input_tokens'' ''output_tokens'')"

section \<open>Executing a task\<close>

text \<open>
  One run of \<^verbatim>\<open>podman exec\<close> gives standard output and error, or throws; \<open>run\<close> answers the commands in
  their order. The result of \<^verbatim>\<open>runInContainer\<close> has the commands that were run, and on success the parsed
  output with the container after its update.
\<close>

type_synonym exec_fun = "nat \<Rightarrow> string list \<Rightarrow> string + (string \<times> string)"

definition NO_CONVERSATION :: string where
  "NO_CONVERSATION = ''No conversation found''"

definition resumeFailed :: "string \<times> string \<Rightarrow> bool" where
  "resumeFailed out \<longleftrightarrow> trim (fst out) = [] \<and> str_includes (snd out) NO_CONVERSATION"

definition afterResult :: "time \<Rightarrow> ParsedCliResponse \<Rightarrow> WarmContainer \<Rightarrow> WarmContainer" where
  "afterResult now p c =
     c\<lparr>wc_sessionId := (if json_truthy (Some (pc_sessionId p)) then Some (pc_sessionId p) else wc_sessionId c),
       wc_lastActivityAt := now, wc_messageCount := wc_messageCount c + 1\<rparr>"

definition finishRun ::
  "(string \<Rightarrow> string \<Rightarrow> string + ParsedCliResponse) \<Rightarrow> time \<Rightarrow> string \<times> string \<Rightarrow> WarmContainer
     \<Rightarrow> string + (ParsedCliResponse \<times> WarmContainer)" where
  "finishRun parse now out c =
     (case parse (fst out) (snd out) of Inl e \<Rightarrow> Inl e | Inr p \<Rightarrow> Inr (p, afterResult now p c))"

definition runInContainer ::
  "(AgentTask \<Rightarrow> WarmContainer \<Rightarrow> string list) \<Rightarrow> (string \<Rightarrow> string \<Rightarrow> string + ParsedCliResponse) \<Rightarrow> exec_fun
     \<Rightarrow> time \<Rightarrow> AgentTask \<Rightarrow> WarmContainer \<Rightarrow> string list list \<times> (string + (ParsedCliResponse \<times> WarmContainer))" where
  "runInContainer build parse run now task c =
     (let cmd = build task c in
      case run 0 cmd of
        Inl e \<Rightarrow> ([cmd], Inl e)
      | Inr out \<Rightarrow>
          if resumeFailed out
          then let c = c\<lparr>wc_sessionId := None\<rparr>; retry = build task c in
            (case run 1 retry of
               Inl e \<Rightarrow> ([cmd, retry], Inl e)
             | Inr out \<Rightarrow> ([cmd, retry], finishRun parse now out c))
          else ([cmd], finishRun parse now out c))"

section \<open>What a runtime owes the execution loop\<close>

text \<open>
  The command depends on the container only through its session, mentions the session when there is
  one and is the same as for a fresh container when there is none; blank output is a failure without
  a session.
\<close>

locale agent_runtime =
  fixes build :: "AgentTask \<Rightarrow> WarmContainer \<Rightarrow> string list"
    and parse :: "string \<Rightarrow> string \<Rightarrow> string + ParsedCliResponse"
  assumes build_session: "wc_sessionId c = wc_sessionId c' \<Longrightarrow> build t c = build t c'"
    and build_resume: "json_truthy (wc_sessionId c) \<Longrightarrow> sublist [''--resume'', session_text (wc_sessionId c)] (build t c)"
    and build_fresh: "\<not> json_truthy (wc_sessionId c) \<Longrightarrow> build t c = build t (c\<lparr>wc_sessionId := None\<rparr>)"
    and parse_blank: "trim out = [] \<Longrightarrow> \<exists>p. parse out err = Inr p \<and> \<not> pc_success p \<and> pc_sessionId p = JStr []"
begin

lemma commands_run:
  "fst (runInContainer build parse run now t c) \<in> {[build t c], [build t c, build t (c\<lparr>wc_sessionId := None\<rparr>)]}"
  by (auto simp: runInContainer_def Let_def split: sum.split)

lemma retried:
  "length (fst (runInContainer build parse run now t c)) = 2 \<longleftrightarrow>
   (\<exists>out. run 0 (build t c) = Inr out \<and> resumeFailed out)"
  by (auto simp: runInContainer_def Let_def split: sum.split)

text \<open>A run that says nothing keeps the session for the next one.\<close>

lemma silent_run_keeps_session:
  assumes "run 0 (build t c) = Inr (out, err)" "trim out = []" "\<not> str_includes err NO_CONVERSATION"
  shows "\<exists>p. snd (runInContainer build parse run now t c) = Inr (p, afterResult now p c) \<and> \<not> pc_success p \<and>
    wc_sessionId (afterResult now p c) = wc_sessionId c"
proof -
  obtain p where p: "parse out err = Inr p" "\<not> pc_success p" "pc_sessionId p = JStr []"
    using parse_blank [OF assms(2)] by blast
  then show ?thesis
    using assms by (auto simp: runInContainer_def resumeFailed_def finishRun_def afterResult_def Let_def)
qed

text \<open>A stale session is given up: the retry is the command of a container without session.\<close>

lemma stale_session_retried:
  assumes "run 0 (build t c) = Inr (out, err)" "trim out = []" "str_includes err NO_CONVERSATION"
    and "run 1 (build t (c\<lparr>wc_sessionId := None\<rparr>)) = Inr (out', err')" "parse out' err' = Inr p"
  shows "runInContainer build parse run now t c =
    ([build t c, build t (c\<lparr>wc_sessionId := None\<rparr>)], Inr (p, afterResult now p (c\<lparr>wc_sessionId := None\<rparr>)))"
  using assms by (simp add: runInContainer_def resumeFailed_def finishRun_def Let_def)

end

lemma push_if_simps [simp]: "push_if True xs = xs" "push_if False xs = []"
  by (simp_all add: push_if_def)

lemma sublist_skip: "sublist ys zs \<Longrightarrow> sublist ys (xs @ zs)"
  by (auto simp: sublist_append)

lemma parse_blank_output:
  "trim out = [] \<Longrightarrow> parseCliResponse out err = Inr (failedResponse [] (errOr err ''Empty response from agent''))"
  "trim out = [] \<Longrightarrow> parseSdkResult out err = Inr (failedResponse [] (errOr err ''Empty response from SDK runner''))"
  by (simp_all add: parseCliResponse_def parseSdkResult_def)

interpretation cli: agent_runtime "buildCliCommand cfg" parseCliResponse for cfg
proof unfold_locales
  fix c :: WarmContainer and t
  assume s: "json_truthy (wc_sessionId c)"
  show "sublist [''--resume'', session_text (wc_sessionId c)] (buildCliCommand cfg t c)"
    unfolding buildCliCommand_def push_if_def [of "json_truthy (wc_sessionId c)"] if_P [OF s] append_assoc
    by (rule sublist_skip, rule sublist_skip, rule sublist_skip, rule sublist_skip, rule sublist_append_rightI)
qed (auto simp: buildCliCommand_def parse_blank_output failedResponse_def)

interpretation sdk: agent_runtime "buildSdkCommand cfg" parseSdkResult for cfg
proof unfold_locales
  fix c :: WarmContainer and t
  assume s: "json_truthy (wc_sessionId c)"
  show "sublist [''--resume'', session_text (wc_sessionId c)] (buildSdkCommand cfg t c)"
    unfolding buildSdkCommand_def push_if_def [of "json_truthy (wc_sessionId c)"] if_P [OF s] append_assoc
    by (rule sublist_skip, rule sublist_skip, rule sublist_skip, rule sublist_append_rightI)
qed (auto simp: buildSdkCommand_def parse_blank_output failedResponse_def)

section \<open>Properties\<close>

text \<open>
  C11. A stale session is recovered from: when the first run prints nothing and reports that the
  conversation is unknown, exactly one more run follows, whose command is that of a container without
  a session; its output is the result, and the session it prints is the one later messages resume.
\<close>

theorem stale_session_recovered:
  assumes "run 0 (buildCliCommand cfg task c) = Inr (out, err)" "trim out = []" "str_includes err NO_CONVERSATION"
    and "run 1 (buildCliCommand cfg task (c\<lparr>wc_sessionId := None\<rparr>)) = Inr (out', err')"
    and "parseCliResponse out' err' = Inr p" "pc_sessionId p = JStr sid" "sid \<noteq> []"
  shows "\<exists>c'. runInContainer (buildCliCommand cfg) parseCliResponse run now task c =
      ([buildCliCommand cfg task c, buildCliCommand cfg task (c\<lparr>wc_sessionId := None\<rparr>)], Inr (p, c')) \<and>
    sublist [''--resume'', sid] (buildCliCommand cfg nextTask c') \<and> wc_messageCount c' = wc_messageCount c + 1"
proof -
  let ?c = "afterResult now p (c\<lparr>wc_sessionId := None\<rparr>)"
  have "wc_sessionId ?c = Some (JStr sid)" using assms(6,7) by (simp add: afterResult_def)
  moreover have "wc_messageCount ?c = wc_messageCount c + 1" by (simp add: afterResult_def)
  ultimately show ?thesis
    using cli.stale_session_retried [OF assms(1-5)] cli.build_resume [of ?c cfg nextTask] assms(7) by auto
qed

definition demo_task :: AgentTask where
  "demo_task = \<lparr>at_chatId = ''tg:1'', at_message = ''hi'', at_username = ''u'', at_maxTurns = 5, at_env = [],
     at_systemPrompt = None, at_mcpPort = None\<rparr>"

definition demo_container :: WarmContainer where
  "demo_container = \<lparr>wc_containerId = ''id'', wc_containerName = ''name'', wc_chatId = ''tg:1'',
     wc_sessionId = Some (JStr ''old''), wc_createdAt = 0, wc_lastActivityAt = 0, wc_messageCount = 3,
     wc_sessionDir = ''/s'', wc_ipcDir = ''/i''\<rparr>"

definition demo_config :: AgentConfig where
  "demo_config = \<lparr>cf_useCustomSystemPrompt = False, cf_disableSlashCommands = True, cf_tools = None\<rparr>"

definition demo_run :: exec_fun where
  "demo_run i cmd = (if i = 0 then Inr ([], ''No conversation found with session ID: old'')
     else Inr (''{\"result\":\"hello\",\"session_id\":\"new\"}'', []))"

lemma trim_Nil: "trim [] = []"
  by (simp add: trim_def)

theorem stale_session_recovered_witness:
  "\<exists>c'. runInContainer (buildCliCommand demo_config) parseCliResponse demo_run 7 demo_task demo_container =
      ([buildCliCommand demo_config demo_task demo_container,
        buildCliCommand demo_config demo_task (demo_container\<lparr>wc_sessionId := None\<rparr>)],
       Inr (responseOf (JObj [(''result'', JStr ''hello''), (''session_id'', JStr ''new'')])
              ''total_input_tokens'' ''total_output_tokens'', c')) \<and>
    sublist [''--resume'', ''new''] (buildCliCommand demo_config demo_task c')"
proof -
  have run: "demo_run 0 cmd = Inr ([], ''No conversation found with session ID: old'')"
    "demo_run 1 cmd = Inr (''{\"result\":\"hello\",\"session_id\":\"new\"}'', [])" for cmd
    by (simp_all add: demo_run_def)
  have inc: "str_includes ''No conversation found with session ID: old'' NO_CONVERSATION"
    by (simp add: NO_CONVERSATION_def startsWith_def)
  have p: "parseCliResponse ''{\"result\":\"hello\",\"session_id\":\"new\"}'' [] =
      Inr (responseOf (JObj [(''result'', JStr ''hello''), (''session_id'', JStr ''new'')])
              ''total_input_tokens'' ''total_output_tokens'')"
    by code_simp
  have "pc_sessionId (responseOf (JObj [(''result'', JStr ''hello''), (''session_id'', JStr ''new'')])
              ''total_input_tokens'' ''total_output_tokens'') = JStr ''new''"
    by (simp add: responseOf_def)
  then show ?thesis
    using stale_session_recovered [where run = demo_run and cfg = demo_config and task = demo_task and c = demo_container and sid = "''new''"
        and now = 7 and nextTask = demo_task, OF run(1) trim_Nil inc run(2) p] by auto
qed

section \<open>Reading noisy output\<close>

lemma dropWhile_stop: "\<not> P x \<Longrightarrow> dropWhile P (a @ x # r) = dropWhile P a @ x # r"
  by (induction a) auto

lemma trim_around:
  assumes "\<not> is_space x" "\<not> is_space y"
  shows "trim (a @ (x # w @ [y]) @ b) = dropWhile is_space a @ (x # w @ [y]) @ rev (dropWhile is_space (rev b))"
proof -
  have "dropWhile is_space (a @ x # w @ y # b) = dropWhile is_space a @ x # w @ y # b"
    using dropWhile_stop [of is_space x a "w @ y # b"] assms(1) by simp
  moreover have "dropWhile is_space (rev b @ y # rev w @ x # rev (dropWhile is_space a)) =
      dropWhile is_space (rev b) @ y # rev w @ x # rev (dropWhile is_space a)"
    using dropWhile_stop [of is_space y "rev b" "rev w @ x # rev (dropWhile is_space a)"] assms(2) by simp
  ultimately show ?thesis by (simp add: trim_def)
qed

lemma braces_around:
  assumes "CHR ''{'' \<notin> set a" "CHR ''}'' \<notin> set b"
  shows "braces (a @ (CHR ''{'' # w @ ''}'') @ b) = Some (CHR ''{'' # w @ ''}'')"
proof -
  have "dropWhile (\<lambda>c. c \<noteq> CHR ''{'') (a @ CHR ''{'' # w @ CHR ''}'' # b) = CHR ''{'' # w @ CHR ''}'' # b"
    using dropWhile_stop [of "\<lambda>c. c \<noteq> CHR ''{''" "CHR ''{''" a] assms(1) by (auto simp: dropWhile_eq_Nil_conv)
  moreover have "dropWhile (\<lambda>c. c \<noteq> CHR ''}'') (rev b @ CHR ''}'' # rev w @ ''{'') = CHR ''}'' # rev w @ ''{''"
    using dropWhile_stop [of "\<lambda>c. c \<noteq> CHR ''}''" "CHR ''}''" "rev b"] assms(2) by (auto simp: dropWhile_eq_Nil_conv)
  ultimately show ?thesis by (simp add: braces_def Let_def)
qed

lemma stringify_object: "\<exists>w. stringify (JObj m) = CHR ''{'' # w @ ''}''"
  by (auto simp: stringify_def)

text \<open>
  The result object of the agent is read from its output whether it stands alone, between
  blanks, or between other text without braces: the fields of the parsed response are those of the
  object, and the run succeeded exactly when the object does not say otherwise.
\<close>

theorem noisy_output_read:
  assumes "json_wf (JObj m)" "CHR ''{'' \<notin> set a" "CHR ''}'' \<notin> set b"
    and "trim (a @ stringify (JObj m) @ b) = stringify (JObj m) \<or> parse_json (trim (a @ stringify (JObj m) @ b)) = None"
  shows "parseCliResponse (a @ stringify (JObj m) @ b) err =
      Inr (responseOf (JObj m) ''total_input_tokens'' ''total_output_tokens'')"
proof -
  obtain w where w: "stringify (JObj m) = CHR ''{'' # w @ ''}''" using stringify_object by blast
  let ?a = "dropWhile is_space a" and ?b = "rev (dropWhile is_space (rev b))"
  have t: "trim (a @ stringify (JObj m) @ b) = ?a @ (CHR ''{'' # w @ ''}'') @ ?b"
    unfolding w by (rule trim_around) (simp_all add: is_space_def)
  have "CHR ''{'' \<notin> set ?a" "CHR ''}'' \<notin> set ?b" using assms(2,3) by (auto dest: set_dropWhileD)
  then have b: "braces (trim (a @ stringify (JObj m) @ b)) = Some (stringify (JObj m))"
    unfolding t [unfolded w] w by (rule braces_around)
  have p: "parse_json (stringify (JObj m)) = Some (JObj m)"
    using parse_print_json [OF assms(1)] by (simp add: stringify_def)
  have "trim (a @ stringify (JObj m) @ b) \<noteq> []" unfolding t by simp
  then show ?thesis
    using assms(4) b p by (auto simp: parseCliResponse_def readResponse_def Let_def)
qed

theorem noisy_output_read_witness:
  "parseCliResponse (''warning '' @ stringify (JObj [(''result'', JStr ''ok'')]) @ [CHR 0x0A]) [] =
     Inr (responseOf (JObj [(''result'', JStr ''ok'')]) ''total_input_tokens'' ''total_output_tokens'')"
proof (rule noisy_output_read)
  have "parse_json (trim (''warning '' @ stringify (JObj [(''result'', JStr ''ok'')]) @ [CHR 0x0A])) = None"
    by code_simp
  then show "trim (''warning '' @ stringify (JObj [(''result'', JStr ''ok'')]) @ [CHR 0x0A]) = stringify (JObj [(''result'', JStr ''ok'')]) \<or>
      parse_json (trim (''warning '' @ stringify (JObj [(''result'', JStr ''ok'')]) @ [CHR 0x0A])) = None" ..
qed simp_all

end
