(* ===== verification/Agent_Session.thy ===== *)
theory Agent_Session
  imports JSON_Text
begin

text \<open>
  \<^verbatim>\<open>src/src/agent/session-manager.ts\<close>: the table of agent sessions, one row per chat, that survives
  the containers. A session is written after every message, expires a fixed time after the last write
  and is restored to a directory when a container is created cold. The clock is an argument.
\<close>

section \<open>The table\<close>

record AgentSession =
  as_chatId :: string
  as_sessionId :: string
  as_sessionFiles :: json
  as_lastAssistantUuid :: "string option"
  as_messageCount :: nat
  as_createdAt :: time
  as_updatedAt :: time
  as_expiresAt :: time

text \<open>The rows, keyed by their primary key. \<open>sm_timer\<close>: the cleanup timer is armed.\<close>

record SessionManager =
  sm_rows :: "(string, AgentSession) js_map"
  sm_idleTimeout :: int
  sm_hardExpiry :: int
  sm_timer :: bool

definition sm_start :: "SessionManager \<Rightarrow> SessionManager" where
  "sm_start sm = (if sm_timer sm then sm else sm\<lparr>sm_timer := True\<rparr>)"

definition sm_stop :: "SessionManager \<Rightarrow> SessionManager" where
  "sm_stop sm = (if sm_timer sm then sm\<lparr>sm_timer := False\<rparr> else sm)"

text \<open>
  The files are a JSON object, or its text when the driver returns the column as a string. A text
  that does not parse throws.
\<close>

definition rowToSession :: "AgentSession \<Rightarrow> string + AgentSession" where
  "rowToSession row =
     (case as_sessionFiles row of
        JStr text \<Rightarrow>
          (case parse_json text of None \<Rightarrow> Inl ''SyntaxError'' | Some j \<Rightarrow> Inr (row\<lparr>as_sessionFiles := j\<rparr>))
      | _ \<Rightarrow> Inr row)"

definition getActiveSession :: "time \<Rightarrow> string \<Rightarrow> SessionManager \<Rightarrow> string + AgentSession option" where
  "getActiveSession now chatId sm =
     (case js_get (sm_rows sm) chatId of
        None \<Rightarrow> Inr None
      | Some row \<Rightarrow>
          if as_expiresAt row > now
          then (case rowToSession row of Inl e \<Rightarrow> Inl e | Inr s \<Rightarrow> Inr (Some s))
          else Inr None)"

definition saveSession ::
  "time \<Rightarrow> string \<Rightarrow> string \<Rightarrow> json \<Rightarrow> string option \<Rightarrow> nat option \<Rightarrow> SessionManager \<Rightarrow> SessionManager" where
  "saveSession now chatId sessionId sessionFiles lastUuid messageCount sm =
     (let createdAt = (case js_get (sm_rows sm) chatId of Some old \<Rightarrow> as_createdAt old | None \<Rightarrow> now)
      in sm\<lparr>sm_rows := js_set chatId
           \<lparr>as_chatId = chatId, as_sessionId = sessionId, as_sessionFiles = sessionFiles, as_lastAssistantUuid = lastUuid,
            as_messageCount = (case messageCount of Some n \<Rightarrow> n | None \<Rightarrow> 1), as_createdAt = createdAt,
            as_updatedAt = now, as_expiresAt = now + sm_hardExpiry sm\<rparr> (sm_rows sm)\<rparr>)"

definition deleteSession :: "string \<Rightarrow> SessionManager \<Rightarrow> SessionManager" where
  "deleteSession chatId sm = sm\<lparr>sm_rows := js_delete chatId (sm_rows sm)\<rparr>"

definition cleanupExpired :: "time \<Rightarrow> SessionManager \<Rightarrow> nat \<times> SessionManager" where
  "cleanupExpired now sm =
     (length (filter (\<lambda>e. as_expiresAt (snd e) \<le> now) (sm_rows sm)),
      sm\<lparr>sm_rows := filter (\<lambda>e. \<not> as_expiresAt (snd e) \<le> now) (sm_rows sm)\<rparr>)"

definition touchSession :: "time \<Rightarrow> string \<Rightarrow> SessionManager \<Rightarrow> SessionManager" where
  "touchSession now chatId sm =
     (case js_get (sm_rows sm) chatId of
        None \<Rightarrow> sm
      | Some row \<Rightarrow> sm\<lparr>sm_rows := js_set chatId
            (row\<lparr>as_updatedAt := now, as_expiresAt := now + sm_idleTimeout sm\<rparr>) (sm_rows sm)\<rparr>)"

text \<open>Newest first; rows with the same time of update come in the order of the table.\<close>

definition listActiveSessions :: "time \<Rightarrow> SessionManager \<Rightarrow> AgentSession list" where
  "listActiveSessions now sm =
     sort_key (\<lambda>r. - as_updatedAt r) (filter (\<lambda>r. as_expiresAt r > now) (map snd (sm_rows sm)))"

section \<open>Files\<close>

text \<open>
  \<^verbatim>\<open>path.join\<close> of an absolute directory and a relative path: empty and dot segments go, a double dot
  takes back the segment before it and stays at the root.
\<close>

fun normSegs :: "string list \<Rightarrow> string list \<Rightarrow> string list" where
  "normSegs acc [] = rev acc"
| "normSegs acc (s # ss) =
     (if s = [] \<or> s = ''.'' then normSegs acc ss
      else if s = ''..'' then normSegs (drop 1 acc) ss
      else normSegs (s # acc) ss)"

definition pathSegs :: "string \<Rightarrow> string list" where
  "pathSegs p = normSegs [] (split_on (CHR ''/'') p)"

definition path_join :: "string \<Rightarrow> string \<Rightarrow> string" where
  "path_join dir rel = concat (map ((#) (CHR ''/'')) (pathSegs (dir @ ''/'' @ rel)))"

text \<open>The files written by a restore, in order; the directories they need are made.\<close>

definition fileEntries :: "json \<Rightarrow> (string \<times> string) list" where
  "fileEntries j = (case j of JObj kvs \<Rightarrow> map (\<lambda>(k, v). (k, case v of JStr s \<Rightarrow> s | _ \<Rightarrow> stringify v)) kvs | _ \<Rightarrow> [])"

definition restoreToFilesystem ::
  "time \<Rightarrow> string \<Rightarrow> string \<Rightarrow> SessionManager \<Rightarrow> string + (AgentSession option \<times> (string \<times> string) list)" where
  "restoreToFilesystem now chatId targetDir sm =
     (case getActiveSession now chatId sm of
        Inl e \<Rightarrow> Inl e
      | Inr None \<Rightarrow> Inr (None, [])
      | Inr (Some s) \<Rightarrow> Inr (Some s, map (\<lambda>(p, c). (path_join targetDir p, c)) (fileEntries (as_sessionFiles s))))"

text \<open>A directory that cannot be listed and a file that cannot be read are \<open>None\<close>.\<close>

datatype fs_node = FileN "string option" | DirN "(string \<times> fs_node) list option"

definition isSessionFile :: "string \<Rightarrow> bool" where
  "isSessionFile filename \<longleftrightarrow>
     endsWith filename ''.jsonl'' \<or> endsWith filename ''.json'' \<or> filename = ''sessions-index.json''"

definition below :: "string \<Rightarrow> string \<Rightarrow> string" where
  "below dirName name = (if dirName = [] then name else dirName @ ''/'' @ name)"

fun walkDir :: "string \<Rightarrow> fs_node \<Rightarrow> (string, string) js_map \<Rightarrow> (string, string) js_map" where
  "walkDir dirName (FileN c) files = files"
| "walkDir dirName (DirN None) files = files"
| "walkDir dirName (DirN (Some entries)) files =
     fold (\<lambda>(name, node) files.
       case node of
         DirN es \<Rightarrow> walkDir (below dirName name) node files
       | FileN None \<Rightarrow> files
       | FileN (Some c) \<Rightarrow> if isSessionFile name then js_set (below dirName name) c files else files) entries files"

definition saveFromFilesystem ::
  "time \<Rightarrow> string \<Rightarrow> fs_node \<Rightarrow> string \<Rightarrow> string option \<Rightarrow> nat option \<Rightarrow> SessionManager \<Rightarrow> SessionManager" where
  "saveFromFilesystem now chatId dir sessionId lastUuid messageCount sm =
     saveSession now chatId sessionId (JObj (map (\<lambda>(k, v). (k, JStr v)) (walkDir [] dir []))) lastUuid messageCount sm"

section \<open>A session lasts until it expires\<close>

datatype session_op =
    SSave time string string json "string option" "nat option"
  | SDelete string
  | SCleanup time
  | STouch time string

fun session_step :: "session_op \<Rightarrow> SessionManager \<Rightarrow> SessionManager" where
  "session_step (SSave now c sid fs u n) sm = saveSession now c sid fs u n sm"
| "session_step (SDelete c) sm = deleteSession c sm"
| "session_step (SCleanup now) sm = snd (cleanupExpired now sm)"
| "session_step (STouch now c) sm = touchSession now c sm"

fun leaves :: "string \<Rightarrow> time \<Rightarrow> session_op \<Rightarrow> bool" where
  "leaves chat limit (SSave now c sid fs u n) \<longleftrightarrow> c \<noteq> chat"
| "leaves chat limit (SDelete c) \<longleftrightarrow> c \<noteq> chat"
| "leaves chat limit (SCleanup now) \<longleftrightarrow> now < limit"
| "leaves chat limit (STouch now c) \<longleftrightarrow> c \<noteq> chat"

definition has_row :: "string \<Rightarrow> AgentSession \<Rightarrow> SessionManager \<Rightarrow> bool" where
  "has_row chat r sm \<longleftrightarrow> js_wf (sm_rows sm) \<and> js_get (sm_rows sm) chat = Some r"

lemma has_row_step:
  assumes "has_row chat r sm" "leaves chat (as_expiresAt r) op"
  shows "has_row chat r (session_step op sm)"
proof (cases op)
  case (SCleanup now)
  have "(chat, r) \<in> set (sm_rows sm)" using assms(1) by (auto simp: has_row_def dest: map_of_SomeD)
  then show ?thesis using assms SCleanup
    by (auto simp: has_row_def cleanupExpired_def distinct_map_filter intro!: map_of_is_SomeI)
qed (use assms in \<open>auto simp: has_row_def saveSession_def deleteSession_def touchSession_def Let_def js_get_set js_get_delete
      intro!: js_wf_set js_wf_delete split: option.split\<close>)

lemma has_row_run: "has_row chat r sm \<Longrightarrow> list_all (leaves chat (as_expiresAt r)) ops \<Longrightarrow> has_row chat r (fold session_step ops sm)"
  by (induction ops arbitrary: sm) (simp_all add: has_row_step)

text \<open>
  What was saved for a chat is what a cold start restores: whatever is saved, touched or deleted
  for other chats and cleaned up before, until the expiry of the saved session the restore writes
  exactly its files below the target directory, and from its expiry on it writes nothing.
\<close>

theorem saved_session_restored:
  assumes "js_wf (sm_rows sm)" "list_all (leaves chat (a + sm_hardExpiry sm)) ops"
  shows "let sm' = fold session_step ops (saveSession a chat sid (JObj (map (\<lambda>(k, v). (k, JStr v)) files)) uuid n sm) in
    if b < a + sm_hardExpiry sm
    then \<exists>s. restoreToFilesystem b chat dir sm' = Inr (Some s, map (\<lambda>(p, c). (path_join dir p, c)) files) \<and> as_sessionId s = sid
    else restoreToFilesystem b chat dir sm' = Inr (None, [])"
proof -
  let ?sm = "saveSession a chat sid (JObj (map (\<lambda>(k, v). (k, JStr v)) files)) uuid n sm"
  obtain r where r: "has_row chat r ?sm" "as_expiresAt r = a + sm_hardExpiry sm" "as_sessionId r = sid"
    "as_sessionFiles r = JObj (map (\<lambda>(k, v). (k, JStr v)) files)"
    using assms(1) by (auto simp: has_row_def saveSession_def Let_def js_get_set intro!: js_wf_set)
  have g: "js_get (sm_rows (fold session_step ops ?sm)) chat = Some r"
    using has_row_run [OF r(1), of ops] assms(2) by (simp add: r(2) has_row_def)
  have "fileEntries (as_sessionFiles r) = files"
    by (simp add: r(4) fileEntries_def comp_def case_prod_beta)
  then show ?thesis
    using g r by (simp add: restoreToFilesystem_def getActiveSession_def rowToSession_def Let_def)
qed

definition empty_sessions :: SessionManager where
  "empty_sessions = \<lparr>sm_rows = [], sm_idleTimeout = 3600000, sm_hardExpiry = 86400000, sm_timer = False\<rparr>"

theorem saved_session_restored_witness:
  "\<exists>s. restoreToFilesystem 500 ''c'' ''/data/s''
     (fold session_step [SSave 10 ''d'' ''x'' (JObj []) None None, SCleanup 20]
       (saveSession 0 ''c'' ''sid'' (JObj (map (\<lambda>(k, v). (k, JStr v)) [(''projects/a.jsonl'', ''line'')])) None None empty_sessions))
     = Inr (Some s, [(''/data/s/projects/a.jsonl'', ''line'')]) \<and> as_sessionId s = ''sid''"
proof -
  have "path_join ''/data/s'' ''projects/a.jsonl'' = ''/data/s/projects/a.jsonl''" by code_simp
  then show ?thesis
    using saved_session_restored [of empty_sessions "''c''" 0 "[SSave 10 ''d'' ''x'' (JObj []) None None, SCleanup 20]" "''sid''"
        "[(''projects/a.jsonl'', ''line'')]" None None 500 "''/data/s''"]
    by (simp add: empty_sessions_def)
qed

section \<open>The hard expiry is not hard\<close>

fun daily :: "int \<Rightarrow> nat \<Rightarrow> string \<Rightarrow> SessionManager \<Rightarrow> SessionManager" where
  "daily d 0 chat sm = saveSession 0 chat ''sid'' (JObj []) None None sm"
| "daily d (Suc n) chat sm = saveSession (int (Suc n) * d) chat ''sid'' (JObj []) None None (daily d n chat sm)"

lemma daily_row:
  "\<exists>r. js_get (sm_rows (daily d n chat sm)) chat = Some r \<and> as_expiresAt r = int n * d + sm_hardExpiry sm \<and>
     as_sessionFiles r = JObj [] \<and>
     as_createdAt r = (case js_get (sm_rows sm) chat of Some old \<Rightarrow> as_createdAt old | None \<Rightarrow> 0)"
  "sm_hardExpiry (daily d n chat sm) = sm_hardExpiry sm"
proof (induction n)
  case (Suc n)
  {
    case 1
    then show ?case using Suc by (auto simp: saveSession_def Let_def js_get_set)
  next
    case 2
    then show ?case using Suc by (simp add: saveSession_def Let_def)
  }
qed (auto simp: saveSession_def Let_def js_get_set)

text \<open>
  The hard expiry does not bound the life of a session: a chat that is used at intervals shorter
  than it keeps one session, still active after any number of them.
\<close>

theorem used_session_never_expires:
  assumes "0 < sm_hardExpiry sm" "js_get (sm_rows sm) chat = None"
  shows "\<exists>s. getActiveSession (int n * d) chat (daily d n chat sm) = Inr (Some s) \<and> as_createdAt s = 0"
  using daily_row(1) [of d n chat sm] assms
  by (auto simp: getActiveSession_def rowToSession_def)

theorem used_session_never_expires_witness:
  "\<exists>s. getActiveSession (int 1000 * 80000000) ''c'' (daily 80000000 1000 ''c'' empty_sessions) = Inr (Some s) \<and> as_createdAt s = 0"
  by (rule used_session_never_expires) (simp_all add: empty_sessions_def)

end
