(* ===== verification/Podman_Runtime.thy ===== *)
theory Podman_Runtime
  imports Effects Complex_Main
begin

text \<open>
  How a container is described and created: the argument list of \<^verbatim>\<open>podman create\<close>
  (\<^verbatim>\<open>src/src/container/podman-runtime.ts\<close>), the resource limits in it (\<^verbatim>\<open>resource-limits.ts\<close>), and the
  start and stop of all containers of a user (\<^verbatim>\<open>lifecycle.ts\<close>). What podman answers is a parameter.
\<close>

section \<open>Container configuration\<close>

record MountConfig =
  mt_source :: string
  mt_target :: string
  mt_readOnly :: bool
  mt_selinuxLabel :: "string option"
  mt_chownToUser :: bool

record TmpfsConfig =
  tf_target :: string
  tf_size :: string
  tf_mode :: "string option"

record ContainerConfig =
  cc_name :: string
  cc_image :: string
  cc_memoryLimit :: string
  cc_cpuLimit :: string
  cc_pidsLimit :: int
  cc_readOnly :: bool
  cc_mounts :: "MountConfig list"
  cc_tmpfs :: "TmpfsConfig list"
  cc_env :: "(string, string) js_map"
  cc_ports :: "string list"
  cc_network :: string
  cc_securityOpts :: "string list"
  cc_userNamespace :: "string option"
  cc_workDir :: "string option"
  cc_command :: "string list"

datatype ContainerState = SCreated | SRunning | SPaused | SStopped | SExited | SUnknown

record ContainerInfo =
  ci_id :: string
  ci_name :: string
  ci_state :: ContainerState

section \<open>Resource limits\<close>

definition is_digit_char :: "char \<Rightarrow> bool" where
  "is_digit_char c \<longleftrightarrow> (let n = (of_char c :: nat) in 48 \<le> n \<and> n \<le> 57)"

text \<open>\<^verbatim>\<open>/^\d+[bkmg]?$/i\<close>\<close>

definition validateMemoryLimit :: "string \<Rightarrow> bool" where
  "validateMemoryLimit limit =
     (let digits = (if limit \<noteq> [] \<and> lower_char (last limit) \<in> set ''bkmg'' then butlast limit else limit)
      in digits \<noteq> [] \<and> list_all is_digit_char digits)"

text \<open>\<^verbatim>\<open>Number(s)\<close> is the argument \<open>num\<close>; \<open>None\<close> is \<^verbatim>\<open>NaN\<close>.\<close>

definition validateCpuLimit :: "(string \<Rightarrow> rat option) \<Rightarrow> string \<Rightarrow> bool" where
  "validateCpuLimit num limit = (case num limit of None \<Rightarrow> False | Some n \<Rightarrow> n > 0 \<and> n \<le> 128)"

definition validatePidsLimit :: "int \<Rightarrow> bool" where
  "validatePidsLimit limit \<longleftrightarrow> limit \<ge> 1 \<and> limit \<le> 32768"

datatype limit_error = BadMemory string | BadCpu string | BadPids int

definition buildResourceLimitArgs ::
  "(string \<Rightarrow> rat option) \<Rightarrow> string \<Rightarrow> string \<Rightarrow> int \<Rightarrow> limit_error + string list" where
  "buildResourceLimitArgs num memoryLimit cpuLimit pidsLimit =
     (if \<not> validateMemoryLimit memoryLimit then Inl (BadMemory memoryLimit)
      else if \<not> validateCpuLimit num cpuLimit then Inl (BadCpu cpuLimit)
      else if \<not> validatePidsLimit pidsLimit then Inl (BadPids pidsLimit)
      else Inr [''--memory'', memoryLimit, ''--cpus'', cpuLimit, ''--pids-limit'', show_int pidsLimit])"

section \<open>The arguments of podman create\<close>

text \<open>An option that is left out when its value is undefined or empty.\<close>

definition option_args :: "string \<Rightarrow> string option \<Rightarrow> string list" where
  "option_args flag v = (if truthy v then [flag, the v] else [])"

definition mountArg :: "MountConfig \<Rightarrow> string" where
  "mountArg m =
     (let opts = (if mt_readOnly m then [''ro''] else []) @
                 (if truthy (mt_selinuxLabel m) then [the (mt_selinuxLabel m)] else []) @
                 (if mt_chownToUser m then [''U''] else [])
      in mt_source m @ '':'' @ mt_target m @ (if opts = [] then [] else '':'' @ join_with '','' opts))"

definition tmpfsArg :: "TmpfsConfig \<Rightarrow> string" where
  "tmpfsArg t = tf_target t @ '':size='' @ tf_size t @ (if truthy (tf_mode t) then '',mode='' @ the (tf_mode t) else [])"

definition flag_each :: "string \<Rightarrow> string list \<Rightarrow> string list" where
  "flag_each flag vs = concat (map (\<lambda>v. [flag, v]) vs)"

definition buildCreateArgs :: "(string \<Rightarrow> rat option) \<Rightarrow> ContainerConfig \<Rightarrow> limit_error + string list" where
  "buildCreateArgs num cfg =
     (case buildResourceLimitArgs num (cc_memoryLimit cfg) (cc_cpuLimit cfg) (cc_pidsLimit cfg) of
        Inl e \<Rightarrow> Inl e
      | Inr limits \<Rightarrow> Inr (
          [''create'', ''--name'', cc_name cfg] @ limits
          @ (if cc_readOnly cfg then [''--read-only''] else [])
          @ option_args ''--userns'' (cc_userNamespace cfg)
          @ flag_each ''--publish'' (cc_ports cfg)
          @ option_args ''--network'' (Some (cc_network cfg))
          @ option_args ''--workdir'' (cc_workDir cfg)
          @ flag_each ''--volume'' (map mountArg (cc_mounts cfg))
          @ flag_each ''--tmpfs'' (map tmpfsArg (cc_tmpfs cfg))
          @ flag_each ''--env'' (map (\<lambda>(k, v). k @ ''='' @ v) (cc_env cfg))
          @ flag_each ''--security-opt'' (cc_securityOpts cfg)
          @ [cc_image cfg] @ cc_command cfg))"

text \<open>The state podman prints, read into the states of the program and back into a filter.\<close>

definition mapStatusToState :: "string \<Rightarrow> ContainerState" where
  "mapStatusToState status =
     (let n = toLowerCase status in
      if n = ''running'' then SRunning
      else if n = ''created'' then SCreated
      else if n = ''paused'' then SPaused
      else if n = ''exited'' \<or> n = ''stopped'' then SExited
      else SUnknown)"

definition mapStateToStatus :: "ContainerState \<Rightarrow> string" where
  "mapStateToStatus s =
     (case s of SRunning \<Rightarrow> ''running'' | SCreated \<Rightarrow> ''created'' | SPaused \<Rightarrow> ''paused''
      | SExited \<Rightarrow> ''exited'' | SStopped \<Rightarrow> ''exited'' | SUnknown \<Rightarrow> ''unknown'')"

section \<open>Starting and stopping the containers of a user\<close>

definition agentPrefix :: "string \<Rightarrow> string" where
  "agentPrefix username = ''flowhelm-agent-'' @ username @ ''-''"

definition agentContainer :: "string \<Rightarrow> string \<Rightarrow> string" where
  "agentContainer username taskId = ''flowhelm-agent-'' @ username @ ''-'' @ taskId"

definition proxyContainer :: "string \<Rightarrow> string" where
  "proxyContainer username = ''flowhelm-proxy-'' @ username"

definition channelContainer :: "string \<Rightarrow> string" where
  "channelContainer username = ''flowhelm-channel-'' @ username"

definition serviceContainer :: "string \<Rightarrow> string" where
  "serviceContainer username = ''flowhelm-service-'' @ username"

definition networkName :: "string \<Rightarrow> string" where
  "networkName username = ''flowhelm-network-'' @ username"

datatype runtime_call = CreateNetwork string | StopContainer string nat | RemoveContainer string

text \<open>
  The calls a manager makes, given the containers that podman lists under the name filter. A failing
  stop or removal is ignored, so the calls do not depend on their outcome; they run at once.
\<close>

definition userContainers :: "string \<Rightarrow> ContainerInfo list \<Rightarrow> ContainerInfo list" where
  "userContainers username cs =
     filter (\<lambda>c. startsWith (ci_name c) (agentPrefix username) \<or> ci_name c = proxyContainer username \<or>
                 ci_name c = channelContainer username \<or> ci_name c = serviceContainer username) cs"

definition lifecycle_stop :: "string \<Rightarrow> nat \<Rightarrow> ContainerInfo list \<Rightarrow> runtime_call list" where
  "lifecycle_stop username drainTimeout cs =
     (let us = userContainers username (filter (\<lambda>c. startsWith (ci_name c) ''flowhelm-'') cs)
      in map (\<lambda>c. StopContainer (ci_id c) drainTimeout) (filter (\<lambda>c. ci_state c = SRunning) us) @
         map (\<lambda>c. RemoveContainer (ci_id c)) us)"

definition ensureNetwork :: "string \<Rightarrow> bool \<Rightarrow> runtime_call list" where
  "ensureNetwork username networkExists = (if networkExists then [] else [CreateNetwork (networkName username)])"

definition cleanupOrphans :: "string \<Rightarrow> ContainerInfo list \<Rightarrow> runtime_call list" where
  "cleanupOrphans username cs =
     map (\<lambda>c. RemoveContainer (ci_id c))
       (filter (\<lambda>c. ci_state c \<noteq> SRunning) (filter (\<lambda>c. startsWith (ci_name c) (agentPrefix username)) cs))"

definition lifecycle_start :: "string \<Rightarrow> bool \<Rightarrow> ContainerInfo list \<Rightarrow> runtime_call list" where
  "lifecycle_start username networkExists cs = ensureNetwork username networkExists @ cleanupOrphans username cs"

definition isProxyHealthy :: "string \<Rightarrow> (string \<Rightarrow> bool) \<Rightarrow> (string \<Rightarrow> bool) \<Rightarrow> bool" where
  "isProxyHealthy username container_exists healthy =
     (if \<not> container_exists (proxyContainer username) then False else healthy (proxyContainer username))"

section \<open>Properties\<close>

lemma flag_each_simps [simp]: "flag_each f [] = []" "flag_each f (v # vs) = f # v # flag_each f vs"
  by (simp_all add: flag_each_def)

text \<open>
  Limits are checked before anything runs: arguments are built exactly when all three limits are
  valid, and then they carry the limits, every mount, and the image followed by the command at the end.
\<close>

theorem create_args_limited:
  "case buildCreateArgs num cfg of
     Inl e \<Rightarrow> \<not> (validateMemoryLimit (cc_memoryLimit cfg) \<and> validateCpuLimit num (cc_cpuLimit cfg) \<and> validatePidsLimit (cc_pidsLimit cfg))
   | Inr args \<Rightarrow> validateMemoryLimit (cc_memoryLimit cfg) \<and> validateCpuLimit num (cc_cpuLimit cfg) \<and> validatePidsLimit (cc_pidsLimit cfg) \<and>
       prefix [''create'', ''--name'', cc_name cfg, ''--memory'', cc_memoryLimit cfg, ''--cpus'', cc_cpuLimit cfg,
         ''--pids-limit'', show_int (cc_pidsLimit cfg)] args \<and>
       sublist (flag_each ''--volume'' (map mountArg (cc_mounts cfg))) args \<and>
       suffix (flag_each ''--security-opt'' (cc_securityOpts cfg) @ cc_image cfg # cc_command cfg) args"
proof (cases "validateMemoryLimit (cc_memoryLimit cfg) \<and> validateCpuLimit num (cc_cpuLimit cfg) \<and> validatePidsLimit (cc_pidsLimit cfg)")
  case True
  let ?limits = "[''--memory'', cc_memoryLimit cfg, ''--cpus'', cc_cpuLimit cfg, ''--pids-limit'', show_int (cc_pidsLimit cfg)]"
  let ?a = "(if cc_readOnly cfg then [''--read-only''] else []) @ option_args ''--userns'' (cc_userNamespace cfg)
     @ flag_each ''--publish'' (cc_ports cfg) @ option_args ''--network'' (Some (cc_network cfg))
     @ option_args ''--workdir'' (cc_workDir cfg)"
  let ?v = "flag_each ''--volume'' (map mountArg (cc_mounts cfg))"
  let ?b = "flag_each ''--tmpfs'' (map tmpfsArg (cc_tmpfs cfg)) @ flag_each ''--env'' (map (\<lambda>(k, v). k @ ''='' @ v) (cc_env cfg))"
  let ?c = "flag_each ''--security-opt'' (cc_securityOpts cfg) @ cc_image cfg # cc_command cfg"
  have "buildCreateArgs num cfg = Inr (([''create'', ''--name'', cc_name cfg] @ ?limits) @ ?a @ ?v @ ?b @ ?c)"
    using True by (simp add: buildCreateArgs_def buildResourceLimitArgs_def)
  then obtain args where args: "buildCreateArgs num cfg = Inr args"
    "args = ([''create'', ''--name'', cc_name cfg] @ ?limits) @ ?a @ ?v @ ?b @ ?c" by blast
  define a where "a = ?a"
  define v where "v = ?v"
  define b where "b = ?b"
  define c where "c = ?c"
  define l where "l = [''create'', ''--name'', cc_name cfg] @ ?limits"
  have args': "args = l @ a @ v @ b @ c" unfolding args(2) a_def v_def b_def c_def l_def by simp
  have "prefix l args" "sublist v args" "suffix c args"
    unfolding args' by (auto simp: suffix_def sublist_append)
  then show ?thesis using True args(1) by (simp add: l_def v_def c_def)
next
  case False
  then show ?thesis by (auto simp: buildCreateArgs_def buildResourceLimitArgs_def split: sum.split)
qed

lemma removed_containers:
  "RemoveContainer i \<in> set (lifecycle_stop u t cs) \<longleftrightarrow>
     (\<exists>c \<in> set cs. ci_id c = i \<and> startsWith (ci_name c) ''flowhelm-'' \<and>
        (startsWith (ci_name c) (agentPrefix u) \<or> ci_name c = proxyContainer u \<or>
         ci_name c = channelContainer u \<or> ci_name c = serviceContainer u))"
  by (auto simp: lifecycle_stop_def userContainers_def Let_def)

lemma agent_names:
  "prefix (agentPrefix u) (agentContainer v task) \<longleftrightarrow> prefix (u @ ''-'') (v @ ''-'' @ task)"
  "prefix ''flowhelm-'' (agentContainer v task)"
  "agentContainer v task \<noteq> proxyContainer u" "agentContainer v task \<noteq> channelContainer u"
  "agentContainer v task \<noteq> serviceContainer u"
  by (simp_all add: agentPrefix_def agentContainer_def proxyContainer_def channelContainer_def serviceContainer_def)

text \<open>
  Which containers a shutdown removes: those named for the user's proxy, channels and service,
  and every agent container whose name begins like the user's, which includes the agents of any other
  user whose name continues this one after a dash.
\<close>

theorem shutdown_scope:
  "RemoveContainer i \<in> set (lifecycle_stop u t [\<lparr>ci_id = i, ci_name = agentContainer v task, ci_state = s\<rparr>]) \<longleftrightarrow>
     prefix (u @ ''-'') (v @ ''-'' @ task)"
  by (simp add: removed_containers agent_names startsWith_prefix)

end
