(* ===== verification/Task_Pipeline.thy ===== *)
theory Task_Pipeline
  imports Message_Router
begin

text \<open>
  The body of \<^verbatim>\<open>processQueueItem\<close> in \<^verbatim>\<open>src/src/orchestrator/orchestrator.ts\<close>: transcription, the image
  note, channel commands, context, session, MCP server, agent, result, acknowledgement, and the
  failure handler. Every awaited service is a parameter that may throw. Shown: the user's own words
  survive the preparation, a handled command never reaches the agent, the agent is run at most once
  per item, and every item ends acknowledged or failed.
\<close>

section \<open>Preparing the text\<close>

text \<open>\<^verbatim>\<open>path.basename\<close>: the part after the last slash, trailing slashes ignored.\<close>

definition basename :: "string \<Rightarrow> string" where
  "basename p =
     rev (takeWhile (\<lambda>c. c \<noteq> CHR ''/'') (dropWhile (\<lambda>c. c = CHR ''/'') (rev p)))"

definition toServicePath :: "string \<Rightarrow> string \<Rightarrow> string" where
  "toServicePath serviceDownloadsPrefix hostPath = serviceDownloadsPrefix @ ''/'' @ basename hostPath"

definition newlines2 :: string where
  "newlines2 = [CHR 0x0A, CHR 0x0A]"

definition caption :: "string option \<Rightarrow> string" where
  "caption text = (case text of Some (c # cs) \<Rightarrow> (c # cs) @ newlines2 | _ \<Rightarrow> '''')"

definition orElse :: "string option \<Rightarrow> string \<Rightarrow> string" where
  "orElse text d = (case text of Some (c # cs) \<Rightarrow> c # cs | _ \<Rightarrow> d)"

text \<open>\<^verbatim>\<open>chatId.replace(/[^a-zA-Z0-9_-]/g, '_')\<close>\<close>

definition path_safe :: "char \<Rightarrow> bool" where
  "path_safe c \<longleftrightarrow> (let n = (of_char c :: nat) in
     97 \<le> n \<and> n \<le> 122 \<or> 65 \<le> n \<and> n \<le> 90 \<or> 48 \<le> n \<and> n \<le> 57 \<or> n = 95 \<or> n = 45)"

definition sanitizeForPath :: "string \<Rightarrow> string" where
  "sanitizeForPath chatId = map (\<lambda>c. if path_safe c then c else CHR ''_'') chatId"

datatype task_call =
    Transcribe string
  | Unlink string
  | HandleCommand string
  | SendResponse string
  | BuildAgentContext string
  | GetProfile
  | GetAgentIdentity string
  | ActiveSession
  | StartSession
  | BackfillSessionId string
  | StartMcp string
  | ExecuteAgent string string
  | HandleAgentResult AgentResult
  | Acknowledge int
  | FailItem int string

text \<open>
  What the task finds around it. A session lookup is done before (\<open>te_session\<close>) and after
  (\<open>te_session'\<close>) a session had to be started; \<open>te_command\<close> is the command handler, which
  answers whether it handled the text and with which response.
\<close>

record task_env =
  te_service :: "(string \<Rightarrow> string + string) option"
  te_servicePrefix :: string
  te_command :: "string \<Rightarrow> string + bool \<times> string option"
  te_send :: "string \<Rightarrow> string + unit"
  te_context :: "string \<Rightarrow> string + string"
  te_profile :: "string + string option"
  te_agentIdentity :: "string \<Rightarrow> string + bool"
  te_session :: "string + string option"
  te_startSession :: "string + unit"
  te_session' :: "string + string option"
  te_backfill :: "string \<Rightarrow> string + unit"
  te_ipcDir :: string
  te_hasMcp :: bool
  te_startMcp :: "string + unit"
  te_agent :: "(string \<Rightarrow> string \<Rightarrow> string + AgentResult) option"
  te_handleResult :: "AgentResult \<Rightarrow> string + unit"
  te_acknowledge :: "string + unit"
  te_fail :: "string + unit"

text \<open>Step 0: voice messages. The deletion of the audio file never throws.\<close>

definition transcribeStep :: "task_env \<Rightarrow> InboundMessage \<Rightarrow> (task_call, string option) act" where
  "transcribeStep env message =
     (if truthy (im_audioPath message) then
        let audioPath = the (im_audioPath message) in
        bindA
          (case te_service env of
             Some transcribe \<Rightarrow>
               (let containerPath = toServicePath (te_servicePrefix env) audioPath in
                tryA
                  (bindA (call (Transcribe containerPath) (transcribe containerPath)) (\<lambda>result.
                     ret (Some (caption (im_text message) @ ''[Voice message transcription]: '' @ result))))
                  (\<lambda>err. ret (Some (orElse (im_text message) ''[Voice message could not be transcribed]''))))
           | None \<Rightarrow>
               ret (Some (orElse (im_text message)
                      ''[Voice message received but service container is not configured]'')))
          (\<lambda>text. bindA (call (Unlink audioPath) (Inr ())) (\<lambda>_. ret text))
      else ret (im_text message))"

text \<open>Step 0.25: images.\<close>

definition imageStep :: "InboundMessage \<Rightarrow> string option \<Rightarrow> string option" where
  "imageStep message text =
     (if truthy (im_imagePath message) then
        Some (caption text @ ''[The user sent an image. View it at: '' @
          ''/workspace/downloads/'' @ basename (the (im_imagePath message)) @ '']'')
      else text)"

section \<open>The task\<close>

definition welcomeHint :: string where
  "welcomeHint = newlines2 @ ''<system_notice>Agent identity is not yet configured. '' @
     ''In your response, briefly mention that the user can personalize you with: '' @
     ''/identity set agent role=... or via CLI: flowhelm identity agent set --role \"...\"'' @
     ''</system_notice>''"

text \<open>Steps 1 and 1.1: the system prompt.\<close>

definition promptStep :: "task_env \<Rightarrow> string option \<Rightarrow> (task_call, string) act" where
  "promptStep env text =
     (let q = (case text of Some t \<Rightarrow> t | None \<Rightarrow> '''') in
      bindA (call (BuildAgentContext q) (te_context env q)) (\<lambda>systemPrompt.
      bindA (call GetProfile (te_profile env)) (\<lambda>chatProfile.
      case chatProfile of
        None \<Rightarrow> ret systemPrompt
      | Some pid \<Rightarrow>
          bindA (call (GetAgentIdentity pid) (te_agentIdentity env pid)) (\<lambda>known.
          ret (if known then systemPrompt else systemPrompt @ welcomeHint)))))"

text \<open>Step 1.5: the session.\<close>

definition sessionStep :: "task_env \<Rightarrow> (task_call, unit) act" where
  "sessionStep env =
     bindA (call ActiveSession (te_session env)) (\<lambda>session.
     bindA
       (case session of
          Some s \<Rightarrow> ret (Some s)
        | None \<Rightarrow>
            bindA (call StartSession (te_startSession env)) (\<lambda>_.
            call ActiveSession (te_session' env))) (\<lambda>session.
     case session of
       Some s \<Rightarrow> call (BackfillSessionId s) (te_backfill env s)
     | None \<Rightarrow> ret ()))"

text \<open>Step 2: the MCP server of the chat is started once.\<close>

definition mcpStep :: "task_env \<Rightarrow> string \<Rightarrow> (task_call, unit) act" where
  "mcpStep env chatId =
     whenA (\<not> te_hasMcp env)
       (call (StartMcp (te_ipcDir env @ ''/'' @ sanitizeForPath chatId @ ''-memory.sock'')) (te_startMcp env))"

text \<open>Steps 3 to 5: the agent, its result and the acknowledgement.\<close>

definition agentStep :: "task_env \<Rightarrow> int \<Rightarrow> string option \<Rightarrow> string \<Rightarrow> (task_call, unit) act" where
  "agentStep env queueId text systemPrompt =
     (case te_agent env of
        None \<Rightarrow> call (Acknowledge queueId) (te_acknowledge env)
      | Some execute \<Rightarrow>
          let m = (case text of Some t \<Rightarrow> t | None \<Rightarrow> '''') in
          bindA (call (ExecuteAgent m systemPrompt) (execute m systemPrompt)) (\<lambda>result.
          bindA (call (HandleAgentResult result) (te_handleResult env result)) (\<lambda>_.
          call (Acknowledge queueId) (te_acknowledge env))))"

definition agentTask :: "task_env \<Rightarrow> QueuedItem \<Rightarrow> string option \<Rightarrow> (task_call, unit) act" where
  "agentTask env item text =
     bindA (promptStep env text) (\<lambda>systemPrompt.
     bindA (sessionStep env) (\<lambda>_.
     bindA (mcpStep env (im_userId (qi_message item))) (\<lambda>_.
     agentStep env (qi_id item) text systemPrompt)))"

text \<open>Step 0.5: a text that starts with a slash goes to the command handler first.\<close>

definition processBody :: "task_env \<Rightarrow> QueuedItem \<Rightarrow> (task_call, unit) act" where
  "processBody env item =
     bindA (transcribeStep env (qi_message item)) (\<lambda>text0.
     let text = imageStep (qi_message item) text0;
         t = (case text of Some t \<Rightarrow> t | None \<Rightarrow> '''')
     in if startsWith (trim t) ''/'' then
          bindA (call (HandleCommand t) (te_command env t)) (\<lambda>cmdResult.
          if fst cmdResult then
            bindA (if truthy (snd cmdResult)
                   then call (SendResponse (the (snd cmdResult))) (te_send env (the (snd cmdResult)))
                   else ret ()) (\<lambda>_.
            call (Acknowledge (qi_id item)) (te_acknowledge env))
          else agentTask env item text)
        else agentTask env item text)"

definition deadLetterNotice :: "int \<Rightarrow> string" where
  "deadLetterNotice n = ''Task failed after '' @ show_int n @
     '' attempts. The message has been saved for admin review.''"

definition handleTaskFailure :: "task_env \<Rightarrow> QueuedItem \<Rightarrow> string \<Rightarrow> (task_call, unit) act" where
  "handleTaskFailure env item err =
     tryA
       (bindA (call (FailItem (qi_id item) err) (te_fail env)) (\<lambda>_.
        if qi_attempts item \<ge> qi_maxAttempts item
        then call (SendResponse (deadLetterNotice (qi_maxAttempts item)))
               (te_send env (deadLetterNotice (qi_maxAttempts item)))
        else ret ()))
       (\<lambda>failErr. ret ())"

definition runTask :: "task_env \<Rightarrow> QueuedItem \<Rightarrow> (task_call, unit) act" where
  "runTask env item = tryA (processBody env item) (\<lambda>err. handleTaskFailure env item err)"

section \<open>The user's words\<close>

lemma caption_prefix: "\<exists>suffix. caption (Some s) @ x = s @ suffix"
  by (cases s) (simp_all add: caption_def)

lemma orElse_prefix: "\<exists>suffix. orElse (Some s) d = s @ suffix"
  by (cases s) (simp_all add: orElse_def)

lemma transcribeStep_text:
  "\<exists>t. snd (transcribeStep env message) = Inr t \<and>
    (\<forall>s. im_text message = Some s \<longrightarrow> (\<exists>suffix. t = Some (s @ suffix)))"
  by (auto simp: transcribeStep_def Let_def act_simps caption_prefix orElse_prefix split: option.splits sum.splits)

text \<open>
  Preparing a message never fails and never loses the user's own words: whatever the
  transcription service does, and whether or not there is audio or an image, the text handed on
  starts with the text the user typed, and mentions the image when there is one.
\<close>

theorem user_text_preserved:
  "\<exists>t. snd (transcribeStep env message) = Inr t \<and>
    (\<forall>s. im_text message = Some s \<longrightarrow> (\<exists>suffix. imageStep message t = Some (s @ suffix))) \<and>
    (\<forall>p. im_imagePath message = Some p \<and> p \<noteq> [] \<longrightarrow>
      (\<exists>prefix. imageStep message t = Some (prefix @ ''/workspace/downloads/'' @ basename p @ '']'')))"
proof -
  obtain t where t: "snd (transcribeStep env message) = Inr t"
      "\<forall>s. im_text message = Some s \<longrightarrow> (\<exists>suffix. t = Some (s @ suffix))"
    using transcribeStep_text by blast
  have "\<exists>suffix. imageStep message t = Some (s @ suffix)" if "im_text message = Some s" for s
  proof -
    have "\<exists>suffix. t = Some (s @ suffix)" using t(2) that by simp
    then obtain suffix where "t = Some (s @ suffix)" ..
    then show ?thesis
      using caption_prefix [of "s @ suffix"] by (auto simp: imageStep_def)
  qed
  moreover have "\<exists>prefix. imageStep message t = Some (prefix @ ''/workspace/downloads/'' @ basename p @ '']'')"
    if "im_imagePath message = Some p" "p \<noteq> []" for p
    using that
    by (intro exI [of _ "caption t @ ''[The user sent an image. View it at: ''"]) (simp add: imageStep_def)
  ultimately show ?thesis using t(1) by blast
qed

section \<open>What a task calls\<close>

fun is_execute :: "task_call \<Rightarrow> bool" where
  "is_execute (ExecuteAgent m p) \<longleftrightarrow> True"
| "is_execute _ \<longleftrightarrow> False"

fun is_settle :: "task_call \<Rightarrow> bool" where
  "is_settle (Acknowledge i) \<longleftrightarrow> True"
| "is_settle (FailItem i e) \<longleftrightarrow> True"
| "is_settle _ \<longleftrightarrow> False"

lemma quiet_steps:
  "only (\<lambda>a. \<not> is_execute a \<and> \<not> is_settle a) (transcribeStep env message)"
  "only (\<lambda>a. \<not> is_execute a \<and> \<not> is_settle a) (promptStep env text)"
  "only (\<lambda>a. \<not> is_execute a \<and> \<not> is_settle a) (sessionStep env)"
  "only (\<lambda>a. \<not> is_execute a \<and> \<not> is_settle a) (mcpStep env c)"
  by (auto simp: transcribeStep_def promptStep_def sessionStep_def mcpStep_def Let_def split: option.split)

lemma quiet_steps_execute:
  "only (\<lambda>a. \<not> is_execute a) (transcribeStep env message)" "only (\<lambda>a. \<not> is_execute a) (promptStep env text)"
  "only (\<lambda>a. \<not> is_execute a) (sessionStep env)" "only (\<lambda>a. \<not> is_execute a) (mcpStep env c)"
  "only (\<lambda>a. \<not> is_execute a) (handleTaskFailure env item e)"
  by (auto simp: handleTaskFailure_def intro: quiet_steps [THEN only_mono])

lemma quiet_steps_settle:
  "only (\<lambda>a. \<not> is_settle a) (transcribeStep env message)" "only (\<lambda>a. \<not> is_settle a) (promptStep env text)"
  "only (\<lambda>a. \<not> is_settle a) (sessionStep env)" "only (\<lambda>a. \<not> is_settle a) (mcpStep env c)"
  by (auto intro: quiet_steps [THEN only_mono])

text \<open>The text a task works with.\<close>

definition preparedText :: "task_env \<Rightarrow> InboundMessage \<Rightarrow> string" where
  "preparedText env message =
     (case snd (transcribeStep env message) of
        Inr t \<Rightarrow> (case imageStep message t of Some s \<Rightarrow> s | None \<Rightarrow> '''')
      | Inl e \<Rightarrow> '''')"

lemma agentTask_once: "once is_execute (agentTask env item text)"
proof -
  have "once is_execute (agentStep env i text p)" for i p
    unfolding agentStep_def Let_def
    by (auto split: option.split intro!: once_bindA2 [OF once_call])
  then show ?thesis
    unfolding agentTask_def by (auto intro!: once_bindA1 quiet_steps_execute)
qed

lemma processBody_once: "once is_execute (processBody env item)"
  unfolding processBody_def Let_def
  by (auto intro!: once_bindA1 quiet_steps_execute agentTask_once)

lemma execute_free: "only (\<lambda>a. \<not> is_execute a) x \<Longrightarrow> ExecuteAgent m p \<notin> set (fst x)"
  by (auto simp: only_def list_all_iff)

lemma agentTask_text:
  "ExecuteAgent m p \<in> set (fst (agentTask env item text)) \<Longrightarrow> m = (case text of Some t \<Rightarrow> t | None \<Rightarrow> '''')"
  by (auto simp: agentTask_def agentStep_def act_simps execute_free quiet_steps_execute Let_def
      split: sum.splits option.splits)

text \<open>
  The agent runs at most once for a queue item, whatever throws, and what it is given is the
  prepared text; and when the text is a slash command, the agent is run only if the command handler
  answered that it does not handle it.
\<close>

theorem agent_runs_at_most_once:
  "length (filter is_execute (fst (runTask env item))) \<le> 1 \<and>
   (\<forall>m p. ExecuteAgent m p \<in> set (fst (runTask env item)) \<longrightarrow>
      m = preparedText env (qi_message item) \<and>
      (startsWith (trim m) ''/'' \<longrightarrow> (\<exists>r. te_command env m = Inr (False, r))))"
proof
  have "once is_execute (runTask env item)"
    unfolding runTask_def by (auto intro: once_tryA processBody_once quiet_steps_execute)
  then show "length (filter is_execute (fst (runTask env item))) \<le> 1" by (simp add: once_def)
  obtain t where t: "snd (transcribeStep env (qi_message item)) = Inr t" using transcribeStep_text by blast
  show "\<forall>m p. ExecuteAgent m p \<in> set (fst (runTask env item)) \<longrightarrow>
      m = preparedText env (qi_message item) \<and>
      (startsWith (trim m) ''/'' \<longrightarrow> (\<exists>r. te_command env m = Inr (False, r)))"
  proof (intro allI impI)
    fix m p
    assume "ExecuteAgent m p \<in> set (fst (runTask env item))"
    then have e: "ExecuteAgent m p \<in> set (fst (processBody env item))"
      by (auto simp: runTask_def act_simps execute_free quiet_steps_execute split: sum.splits)
    show "m = preparedText env (qi_message item) \<and>
        (startsWith (trim m) ''/'' \<longrightarrow> (\<exists>r. te_command env m = Inr (False, r)))"
      using e agentTask_text [of m p env item "imageStep (qi_message item) t"] t
      by (auto simp: processBody_def act_simps execute_free quiet_steps_execute Let_def preparedText_def
          intro: sym split: sum.splits if_splits option.splits)
  qed
qed

section \<open>Every task settles its item\<close>

text \<open>
  \<open>m\<close> acknowledges \<open>i\<close> as its last settling call, with answer \<open>ack\<close>, unless it throws before.
\<close>

definition acks :: "int \<Rightarrow> string + unit \<Rightarrow> (task_call, unit) act \<Rightarrow> bool" where
  "acks i ack m \<longleftrightarrow>
     (filter is_settle (fst m) = [Acknowledge i] \<and> snd m = ack) \<or>
     (filter is_settle (fst m) = [] \<and> (\<exists>e. snd m = Inl e))"

lemma acks_call: "acks i ack (call (Acknowledge i) ack)"
  by (simp add: acks_def)

lemma acks_bindA: "only (\<lambda>a. \<not> is_settle a) m \<Longrightarrow> (\<And>x. acks i ack (f x)) \<Longrightarrow> acks i ack (bindA m f)"
  by (cases "snd m") (auto simp: acks_def filter_bindA only_filter snd_bindA)

lemma agentTask_acks: "acks (qi_id item) (te_acknowledge env) (agentTask env item text)"
proof -
  have "acks i (te_acknowledge env) (agentStep env i text p)" for i p
    unfolding agentStep_def Let_def
    by (auto split: option.split intro!: acks_bindA acks_call)
  then show ?thesis
    unfolding agentTask_def by (auto intro!: acks_bindA quiet_steps_settle)
qed

lemma processBody_acks: "acks (qi_id item) (te_acknowledge env) (processBody env item)"
  unfolding processBody_def Let_def
  by (auto intro!: acks_bindA quiet_steps_settle agentTask_acks acks_call)

lemma handleTaskFailure_settle:
  "filter is_settle (fst (handleTaskFailure env item e)) = [FailItem (qi_id item) e]"
  "snd (handleTaskFailure env item e) = Inr ()"
  by (auto simp: handleTaskFailure_def act_simps split: sum.splits)

text \<open>
  Every task settles its item and never throws: it acknowledges the item and nothing else, or
  something threw and the item is reported as failed, exactly once; both happen only when the
  acknowledgement itself threw.
\<close>

theorem task_settles_item:
  "snd (runTask env item) = Inr () \<and>
   (filter is_settle (fst (runTask env item)) = [Acknowledge (qi_id item)] \<and> te_acknowledge env = Inr () \<or>
    (\<exists>e. filter is_settle (fst (runTask env item)) = [FailItem (qi_id item) e]) \<or>
    (\<exists>e. filter is_settle (fst (runTask env item)) = [Acknowledge (qi_id item), FailItem (qi_id item) e] \<and>
       te_acknowledge env = Inl e))"
proof (cases "snd (processBody env item)")
  case (Inl e)
  then show ?thesis
    using processBody_acks [of item env] handleTaskFailure_settle [of env item e]
    by (auto simp: acks_def runTask_def act_simps)
next
  case (Inr u)
  moreover have "filter is_settle (fst (processBody env item)) = [Acknowledge (qi_id item)]"
      "te_acknowledge env = Inr ()"
    using processBody_acks [of item env] Inr by (auto simp: acks_def)
  ultimately show ?thesis by (simp add: runTask_def act_simps)
qed

section \<open>A concrete task\<close>

definition sample_task_env :: task_env where
  "sample_task_env = \<lparr>te_service = Some (\<lambda>p. Inl ''timeout''), te_servicePrefix = ''/data'',
     te_command = (\<lambda>t. Inr (False, None)), te_send = (\<lambda>t. Inr ()), te_context = (\<lambda>t. Inr ''ctx''),
     te_profile = Inr None, te_agentIdentity = (\<lambda>p. Inr True), te_session = Inr (Some ''s''),
     te_startSession = Inr (), te_session' = Inr None, te_backfill = (\<lambda>s. Inr ()), te_ipcDir = ''/ipc'',
     te_hasMcp = True, te_startMcp = Inr (),
     te_agent = Some (\<lambda>m p. Inr \<lparr>ar_text = ''hi'', ar_toolCalls = [], ar_success = True, ar_error = None\<rparr>),
     te_handleResult = (\<lambda>r. Inr ()), te_acknowledge = Inr (), te_fail = Inr ()\<rparr>"

definition sample_voice :: InboundMessage where
  "sample_voice = sample_message\<lparr>im_text := Some ''/hey'', im_audioPath := Some ''/downloads/a.ogg'',
     im_imagePath := Some ''/downloads/b.jpg''\<rparr>"

definition sample_item :: QueuedItem where
  "sample_item = rowToItem ((sample_row 1 1)\<lparr>q_payload := sample_message\<lparr>im_text := Some ''/hey''\<rparr>\<rparr>)"

theorem user_text_preserved_witness:
  "\<exists>t suffix prefix. snd (transcribeStep sample_task_env sample_voice) = Inr t \<and>
     imageStep sample_voice t = Some (''/hey'' @ suffix) \<and>
     imageStep sample_voice t = Some (prefix @ ''/workspace/downloads/'' @ basename ''/downloads/b.jpg'' @ '']'')"
proof -
  have "im_text sample_voice = Some ''/hey''" "im_imagePath sample_voice = Some ''/downloads/b.jpg''"
    by (simp_all add: sample_voice_def)
  then show ?thesis using user_text_preserved [of sample_task_env sample_voice] by fastforce
qed

lemma sample_executes:
  "ExecuteAgent ''/hey'' ''ctx'' \<in> set (fst (runTask sample_task_env sample_item))"
  by (simp add: runTask_def processBody_def agentTask_def agentStep_def promptStep_def sessionStep_def mcpStep_def
      transcribeStep_def imageStep_def sample_task_env_def sample_item_def sample_row_def rowToItem_def
      sample_message_def act_simps Let_def trim_def is_space_def startsWith_def whenA_def)

theorem agent_runs_at_most_once_witness:
  "length (filter is_execute (fst (runTask sample_task_env sample_item))) \<le> 1 \<and>
   preparedText sample_task_env (qi_message sample_item) = ''/hey'' \<and>
   (\<exists>r. te_command sample_task_env ''/hey'' = Inr (False, r))"
proof -
  have "startsWith (trim ''/hey'') ''/''" by (simp add: trim_def is_space_def startsWith_def)
  then show ?thesis
    using agent_runs_at_most_once [of sample_task_env sample_item] sample_executes by metis
qed

end
