(* ===== verification/Warm_Container.thy ===== *)
theory Warm_Container
  imports Agent_Runtime Agent_Session Podman_Runtime Proxy_Main Task_Pipeline
begin

text \<open>
  \<^verbatim>\<open>src/src/agent/warm-container-runtime.ts\<close>: the container of a chat stays up between its messages. The
  first part is what a new container is given (environment, mounts, files) and how its session is read
  back; the second is the life of the containers as a state machine whose steps interleave at the
  awaits of the source: executions, health checks, creations, idle timers, shutdown.

  The hash of a chat id is a parameter; the home directory and the process environment are arguments.
\<close>

section \<open>What a container is given\<close>

record RuntimeConfig =
  rc_dataDir :: string
  rc_image :: string
  rc_memoryLimit :: string
  rc_cpuLimit :: string
  rc_pidsLimit :: int
  rc_credentialMethod :: "CredentialMethod option"
  rc_proxyUrl :: string
  rc_caCertPath :: "string option"
  rc_isMacOS :: bool

definition hashChatId :: "(string \<Rightarrow> string) \<Rightarrow> string \<Rightarrow> string" where
  "hashChatId sha chatId = take 12 (sha chatId)"

definition sessionDirOf :: "(string \<Rightarrow> string) \<Rightarrow> RuntimeConfig \<Rightarrow> string \<Rightarrow> string" where
  "sessionDirOf sha cfg chatId = path_join (rc_dataDir cfg) (''sessions/'' @ hashChatId sha chatId)"

definition mcpSocketPath :: "string \<Rightarrow> string" where
  "mcpSocketPath chatId = ''/workspace/ipc/'' @ sanitizeForPath chatId @ ''-memory.sock''"

definition mcpConfigFor :: "RuntimeConfig \<Rightarrow> AgentTask \<Rightarrow> json" where
  "mcpConfigFor cfg task =
     (if rc_isMacOS cfg \<and> at_mcpPort task \<noteq> None \<and> at_mcpPort task \<noteq> Some 0
      then generateMcpConfig \<lparr>mo_socketPath = Some [], mo_bridgeScriptPath = None,
             mo_tcpHost = Some ''host.containers.internal'', mo_tcpPort = at_mcpPort task\<rparr>
      else generateMcpConfig \<lparr>mo_socketPath = Some (mcpSocketPath (at_chatId task)), mo_bridgeScriptPath = None,
             mo_tcpHost = None, mo_tcpPort = None\<rparr>)"

text \<open>Object spread: later entries win and keep the place of earlier ones.\<close>

definition spread :: "('k, 'v) js_map \<Rightarrow> ('k, 'v) js_map \<Rightarrow> ('k, 'v) js_map" where
  "spread m new = fold (\<lambda>(k, v) m. js_set k v m) new m"

definition forwardedTokens :: "(string \<Rightarrow> string option) \<Rightarrow> (string, string) js_map" where
  "forwardedTokens penv =
     (if truthy (penv ''CLAUDE_CODE_OAUTH_TOKEN'') then [(''CLAUDE_CODE_OAUTH_TOKEN'', the (penv ''CLAUDE_CODE_OAUTH_TOKEN''))] else []) @
     (if truthy (penv ''ANTHROPIC_API_KEY'') then [(''ANTHROPIC_API_KEY'', the (penv ''ANTHROPIC_API_KEY''))] else [])"

definition CA_TARGET :: string where
  "CA_TARGET = ''/usr/local/share/ca-certificates/flowhelm-proxy-ca.crt''"

definition agentEnv :: "RuntimeConfig \<Rightarrow> (string \<Rightarrow> string option) \<Rightarrow> AgentTask \<Rightarrow> (string, string) js_map" where
  "agentEnv cfg penv task =
     spread (spread (spread
       [(''HTTPS_PROXY'', rc_proxyUrl cfg), (''HTTP_PROXY'', rc_proxyUrl cfg), (''NO_PROXY'', ''localhost,127.0.0.1''),
        (''HOME'', ''/home/flowhelm'')]
       (if truthy (rc_caCertPath cfg) then [(''NODE_EXTRA_CA_CERTS'', CA_TARGET)] else []))
       (if truthy (rc_caCertPath cfg) then getPlaceholderEnv (rc_credentialMethod cfg) None None penv else forwardedTokens penv))
       (at_env task)"

definition zmount :: "string \<Rightarrow> string \<Rightarrow> bool \<Rightarrow> MountConfig" where
  "zmount source target ro =
     \<lparr>mt_source = source, mt_target = target, mt_readOnly = ro, mt_selinuxLabel = Some ''Z'', mt_chownToUser = False\<rparr>"

definition agentMounts :: "(string \<Rightarrow> string) \<Rightarrow> RuntimeConfig \<Rightarrow> AgentTask \<Rightarrow> MountConfig list" where
  "agentMounts sha cfg task =
     (let dataDir = rc_dataDir cfg; chatHash = hashChatId sha (at_chatId task) in
      [zmount (sessionDirOf sha cfg (at_chatId task)) ''/home/flowhelm/.claude-host'' False]
      @ (if \<not> rc_isMacOS cfg then [zmount (path_join dataDir ''ipc'') ''/workspace/ipc'' False] else [])
      @ [zmount (path_join dataDir (''agent-config/'' @ chatHash)) ''/workspace/config'' True,
         zmount (path_join dataDir (''skills-sync/'' @ chatHash)) ''/workspace/.claude/skills'' True,
         zmount (path_join dataDir ''downloads'') ''/workspace/downloads'' True]
      @ (if truthy (rc_caCertPath cfg) then [zmount (the (rc_caCertPath cfg)) CA_TARGET True] else []))"

definition containerConfig ::
  "(string \<Rightarrow> string) \<Rightarrow> RuntimeConfig \<Rightarrow> (string \<Rightarrow> string option) \<Rightarrow> AgentTask \<Rightarrow> ContainerConfig" where
  "containerConfig sha cfg penv task =
     \<lparr>cc_name = agentContainer (at_username task) (hashChatId sha (at_chatId task)),
      cc_image = rc_image cfg, cc_memoryLimit = rc_memoryLimit cfg, cc_cpuLimit = rc_cpuLimit cfg,
      cc_pidsLimit = rc_pidsLimit cfg, cc_readOnly = False, cc_mounts = agentMounts sha cfg task,
      cc_tmpfs = [\<lparr>tf_target = ''/tmp'', tf_size = ''100m'', tf_mode = None\<rparr>],
      cc_env = agentEnv cfg penv task, cc_ports = [], cc_network = networkName (at_username task),
      cc_securityOpts = [''no-new-privileges''], cc_userNamespace = Some ''keep-id:uid=1000,gid=1000'',
      cc_workDir = Some ''/workspace'', cc_command = [''sleep'', ''infinity'']\<rparr>"

text \<open>
  The files written on the host before the container is created, in order: the tool configuration,
  the host's own Claude credentials when they can be read, and the restored session. \<open>hostFile\<close> is
  the disk; the copies of skill directories are left out.
\<close>

definition credentialsFile :: "(string \<Rightarrow> string option) \<Rightarrow> string" where
  "credentialsFile penv = path_join (case penv ''HOME'' of Some h \<Rightarrow> h | None \<Rightarrow> []) ''.claude/.credentials.json''"

definition provisionCredentials ::
  "(string \<Rightarrow> string option) \<Rightarrow> (string \<Rightarrow> string option) \<Rightarrow> string \<Rightarrow> (string \<times> string) list" where
  "provisionCredentials hostFile penv sessionDir =
     (case hostFile (credentialsFile penv) of
        Some c \<Rightarrow> [(path_join sessionDir ''.credentials.json'', c)]
      | None \<Rightarrow> [])"

definition provisionedFiles ::
  "(string \<Rightarrow> string) \<Rightarrow> RuntimeConfig \<Rightarrow> (string \<Rightarrow> string option) \<Rightarrow> (string \<Rightarrow> string option) \<Rightarrow> time
     \<Rightarrow> SessionManager \<Rightarrow> AgentTask \<Rightarrow> string + (AgentSession option \<times> (string \<times> string) list)" where
  "provisionedFiles sha cfg hostFile penv now sm task =
     (let chatHash = hashChatId sha (at_chatId task); sessionDir = sessionDirOf sha cfg (at_chatId task);
          config = (path_join (rc_dataDir cfg) (''agent-config/'' @ chatHash @ ''/mcp-config.json''), stringify2 (mcpConfigFor cfg task))
      in case restoreToFilesystem now (at_chatId task) sessionDir sm of
           Inl e \<Rightarrow> Inl e
         | Inr (s, files) \<Rightarrow> Inr (s, config # provisionCredentials hostFile penv sessionDir @ files))"

definition newContainer :: "time \<Rightarrow> string \<Rightarrow> (string \<Rightarrow> string) \<Rightarrow> RuntimeConfig \<Rightarrow> AgentTask \<Rightarrow> AgentSession option \<Rightarrow> WarmContainer" where
  "newContainer now cid sha cfg task restored =
     \<lparr>wc_containerId = cid, wc_containerName = agentContainer (at_username task) (hashChatId sha (at_chatId task)),
      wc_chatId = at_chatId task, wc_sessionId = map_option (\<lambda>s. JStr (as_sessionId s)) restored, wc_createdAt = now,
      wc_lastActivityAt = now, wc_messageCount = 0, wc_sessionDir = sessionDirOf sha cfg (at_chatId task),
      wc_ipcDir = path_join (rc_dataDir cfg) ''ipc''\<rparr>"

section \<open>Reading the session back\<close>

definition claudeDir :: string where
  "claudeDir = ''/home/flowhelm/.claude''"

text \<open>
  \<open>found\<close> is what \<^verbatim>\<open>find\<close> prints in the container, \<open>cat\<close> what \<^verbatim>\<open>cat\<close> prints for a path (\<open>None\<close>: it throws).
\<close>

definition readSessionFiles :: "string \<Rightarrow> (string \<Rightarrow> string option) \<Rightarrow> (string, string) js_map" where
  "readSessionFiles found cat =
     (let files = filter (\<lambda>p. p \<noteq> []) (split_on (CHR 0x0A) (trim found));
          m = fold (\<lambda>absPath m.
                let relativePath = drop (length claudeDir + 1) absPath in
                if relativePath = [] then m
                else case cat absPath of None \<Rightarrow> m | Some c \<Rightarrow> js_set relativePath c m) files []
      in case cat ''/home/flowhelm/.claude.json'' of
           Some c \<Rightarrow> if trim c = [] then m else js_set ''__claude.json'' c m
         | None \<Rightarrow> m)"

definition asyncBackupSession ::
  "time \<Rightarrow> string \<Rightarrow> (string \<Rightarrow> string option) \<Rightarrow> string \<Rightarrow> WarmContainer \<Rightarrow> string \<Rightarrow> SessionManager \<Rightarrow> SessionManager" where
  "asyncBackupSession now found cat chatId c sessionId sm =
     (if sessionId = [] then sm
      else let files = readSessionFiles found cat in
        if files = [] then sm
        else saveSession now chatId sessionId (JObj (map (\<lambda>(k, v). (k, JStr v)) files)) None (Some (wc_messageCount c)) sm)"

section \<open>Credentials and containers\<close>

lemma js_get_spread: "js_get (spread m new) k = (case map_of (rev new) k of Some v \<Rightarrow> Some v | None \<Rightarrow> js_get m k)"
  unfolding spread_def
  by (induction new arbitrary: m) (auto simp: js_get_set map_add_def split: option.splits)

text \<open>
  With the certificate of the proxy in place, the description of an agent container does not
  depend on the tokens in the environment of the orchestrator, only on which of them are set; and
  unless the task itself sets it, a token variable of the container is unset or a placeholder.
\<close>

theorem container_config_hides_tokens:
  assumes "truthy (rc_caCertPath cfg)"
    and "truthy (penv ''CLAUDE_CODE_OAUTH_TOKEN'') = truthy (penv' ''CLAUDE_CODE_OAUTH_TOKEN'')"
    and "truthy (penv ''ANTHROPIC_API_KEY'') = truthy (penv' ''ANTHROPIC_API_KEY'')"
    and "list_all (\<lambda>e. fst e \<notin> {''CLAUDE_CODE_OAUTH_TOKEN'', ''ANTHROPIC_API_KEY''}) (at_env task)"
  shows "containerConfig sha cfg penv task = containerConfig sha cfg penv' task \<and>
    js_get (cc_env (containerConfig sha cfg penv task)) ''CLAUDE_CODE_OAUTH_TOKEN'' \<in> {None, Some PLACEHOLDER_OAUTH_TOKEN} \<and>
    js_get (cc_env (containerConfig sha cfg penv task)) ''ANTHROPIC_API_KEY'' \<in> {None, Some PLACEHOLDER_API_KEY}"
proof -
  have t: "map_of (rev (at_env task)) k = None" if "k \<in> {''CLAUDE_CODE_OAUTH_TOKEN'', ''ANTHROPIC_API_KEY''}" for k
    using that assms(4) by (auto simp: map_of_eq_None_iff list_all_iff)
  have e: "getPlaceholderEnv m None None penv = getPlaceholderEnv m None None penv'" for m
    using assms(2,3) by (simp add: getPlaceholderEnv_def)
  show ?thesis
    using assms(1) t e
    by (auto simp: containerConfig_def agentEnv_def js_get_spread getPlaceholderEnv_def Let_def)
qed

text \<open>
  The real credentials reach the container all the same: whatever the proxy configuration, when the
  host has a Claude credentials file, its content is written to a file of the session directory, and
  that directory is mounted into the container.
\<close>

theorem host_credentials_reach_container:
  assumes "hostFile (credentialsFile penv) = Some secret" "provisionedFiles sha cfg hostFile penv now sm task = Inr (s, files)"
  shows "(path_join (sessionDirOf sha cfg (at_chatId task)) ''.credentials.json'', secret) \<in> set files \<and>
    zmount (sessionDirOf sha cfg (at_chatId task)) ''/home/flowhelm/.claude-host'' False
      \<in> set (cc_mounts (containerConfig sha cfg penv task))"
  using assms
  by (auto simp: provisionedFiles_def provisionCredentials_def containerConfig_def agentMounts_def Let_def
      split: sum.splits)

section \<open>A file name can leave the session directory\<close>

lemma split_on_join: "split_on c (a @ c # b) = split_on c a @ split_on c b"
  by (induction a) (auto split: list.split)

lemma split_on_noSep: "s \<in> set (split_on c w) \<Longrightarrow> c \<notin> set s"
proof (induction w arbitrary: s)
  case (Cons x w)
  obtain v vs where v: "split_on c w = v # vs" by (cases "split_on c w") auto
  then show ?case using Cons by (auto split: if_splits)
qed simp

lemma normSegs_append: "normSegs acc (xs @ ys) = normSegs (rev (normSegs acc xs)) ys"
  by (induction acc xs rule: normSegs.induct) auto

definition plain :: "string \<Rightarrow> bool" where
  "plain s \<longleftrightarrow> s \<noteq> [] \<and> s \<noteq> ''.'' \<and> s \<noteq> ''..'' \<and> CHR ''/'' \<notin> set s"

lemma normSegs_plain: "list_all plain xs \<Longrightarrow> normSegs acc xs = rev acc @ xs"
  by (induction xs arbitrary: acc) (auto simp: plain_def)

lemma normSegs_plain_result:
  "list_all plain acc \<Longrightarrow> (\<forall>s \<in> set xs. CHR ''/'' \<notin> set s) \<Longrightarrow> list_all plain (normSegs acc xs)"
proof (induction acc xs rule: normSegs.induct)
  case (2 acc s ss)
  have "list_all plain (drop 1 acc)" using 2(4) by (cases acc) auto
  moreover have "s \<noteq> [] \<Longrightarrow> s \<noteq> ''.'' \<Longrightarrow> s \<noteq> ''..'' \<Longrightarrow> plain s" using 2(5) by (simp add: plain_def)
  ultimately show ?case using 2 by auto
qed simp

lemma pathSegs_plain: "list_all plain (pathSegs p)"
  unfolding pathSegs_def by (rule normSegs_plain_result) (auto dest: split_on_noSep)

lemma split_slashes: "list_all plain segs \<Longrightarrow> split_on (CHR ''/'') (concat (map ((#) (CHR ''/'')) segs)) = [] # segs"
proof (induction segs)
  case (Cons s segs)
  then have "split_on (CHR ''/'') (s @ concat (map ((#) (CHR ''/'')) segs)) = s # segs"
  proof (cases segs)
    case Nil
    then show ?thesis using Cons.prems by (simp add: plain_def split_on_id)
  next
    case (Cons s' segs')
    then show ?thesis
      using Cons.IH Cons.prems split_on_join [of "CHR ''/''" s "s' @ concat (map ((#) (CHR ''/'')) segs')"]
      by (auto simp: plain_def split_on_id split: if_splits)
  qed
  then show ?case by simp
qed simp

lemma pathSegs_join: "pathSegs (path_join dir rel) = pathSegs (dir @ ''/'' @ rel)"
proof -
  let ?S = "pathSegs (dir @ ''/'' @ rel)"
  have "split_on (CHR ''/'') (path_join dir rel) = [] # ?S"
    unfolding path_join_def by (rule split_slashes [OF pathSegs_plain])
  then have "pathSegs (path_join dir rel) = normSegs [] ([] # ?S)"
    using pathSegs_def [of "path_join dir rel"] by (simp only:)
  also have "\<dots> = ?S" using normSegs_plain [OF pathSegs_plain, of "[]"] by simp
  finally show ?thesis .
qed

lemma pathSegs_append: "pathSegs (a @ ''/'' @ b) = normSegs (rev (pathSegs a)) (split_on (CHR ''/'') b)"
  using split_on_join [of "CHR ''/''" a b] by (simp add: pathSegs_def normSegs_append)

lemma path_join_up:
  assumes "plain h"
  shows "path_join (path_join d (''sessions/'' @ h)) (''../'' @ r) = path_join d (''sessions/'' @ r)"
proof -
  have h: "split_on (CHR ''/'') (''sessions/'' @ h) = [''sessions'', h]"
    using assms by (simp add: plain_def split_on_id)
  have up: "split_on (CHR ''/'') (''../'' @ r) = ''..'' # split_on (CHR ''/'') r"
    using split_on_append [of "CHR ''/''" "''..''" r] by simp
  have down: "split_on (CHR ''/'') (''sessions/'' @ r) = ''sessions'' # split_on (CHR ''/'') r"
    using split_on_append [of "CHR ''/''" "''sessions''" r] by simp
  have "pathSegs (path_join d (''sessions/'' @ h)) = pathSegs d @ [''sessions'', h]"
    using assms normSegs_plain [of "[''sessions'', h]" "rev (pathSegs d)"]
    unfolding pathSegs_join pathSegs_append h by (simp add: plain_def)
  then have "pathSegs (path_join d (''sessions/'' @ h) @ ''/'' @ ''../'' @ r) = pathSegs (d @ ''/'' @ ''sessions/'' @ r)"
    unfolding pathSegs_append up down by simp
  then show ?thesis unfolding path_join_def [of "path_join d (''sessions/'' @ h)"] path_join_def [of d "''sessions/'' @ r"]
    by simp
qed

text \<open>
  A directory \<^verbatim>\<open>x<newline>AAA...AAA..\<close> below the projects directory, with a file in it, makes \<^verbatim>\<open>find\<close> print two
  lines; the second is 23 characters and then a path that begins with a double dot.
\<close>

definition crafted :: "string \<Rightarrow> string" where
  "crafted r = replicate 23 (CHR ''A'') @ ''../'' @ r"

definition craftedFind :: "string \<Rightarrow> string" where
  "craftedFind r = claudeDir @ ''/projects/x'' @ [CHR 0x0A] @ crafted r"

lemma readSessionFiles_crafted:
  assumes r: "r \<noteq> []" "CHR 0x0A \<notin> set r" "\<not> is_space (last r)" and c: "cat (crafted r) = Some content"
    and o: "cat (claudeDir @ ''/projects/x'') = None" "cat ''/home/flowhelm/.claude.json'' = None"
  shows "readSessionFiles (craftedFind r) cat = [(''../'' @ r, content)]"
proof -
  have sp: "\<not> is_space (CHR ''/'')" "\<not> is_space (CHR ''A'')" by (simp_all add: is_space_def)
  have t: "trim (craftedFind r) = craftedFind r"
  proof -
    have "dropWhile is_space (rev r) = rev r" using r(1,3) by (cases r rule: rev_cases) auto
    then have "dropWhile is_space (rev r @ zs) = rev r @ zs" for zs using r(1,3) by (cases r rule: rev_cases) auto
    then show ?thesis
      using sp by (simp add: trim_def craftedFind_def claudeDir_def crafted_def)
  qed
  have "split_on (CHR 0x0A) (craftedFind r) = [claudeDir @ ''/projects/x'', crafted r]"
    using split_on_append [of "CHR 0x0A" "claudeDir @ ''/projects/x''" "crafted r"] split_on_id [of "CHR 0x0A" "crafted r"] r(2)
    by (simp add: craftedFind_def claudeDir_def crafted_def)
  moreover have "drop (length claudeDir + 1) (crafted r) = ''../'' @ r"
    by (simp add: claudeDir_def crafted_def)
  moreover have "crafted r \<noteq> []" "length (crafted r) = 26 + length r" by (simp_all add: crafted_def)
  ultimately show ?thesis
    using c o by (simp add: readSessionFiles_def t Let_def claudeDir_def)
qed

text \<open>
  A container chooses a file on the host outside its own session directory: for any two chats whose
  directory names are plain, a container of the first can make the backup and the next cold start of
  its chat write a content of its choice to a file of its choice below the session directory of the
  second.
\<close>

theorem backup_escapes_session_dir:
  assumes "rc_dataDir cfg = d" "plain (hashChatId sha chat)" "sid \<noteq> []" "0 < sm_hardExpiry sm"
    and "name \<noteq> []" "CHR 0x0A \<notin> set (victim @ ''/'' @ name)" "\<not> is_space (last name)"
    and "cat (crafted (victim @ ''/'' @ name)) = Some content"
    and "cat (claudeDir @ ''/projects/x'') = None" "cat ''/home/flowhelm/.claude.json'' = None"
  shows "\<exists>s. restoreToFilesystem now chat (sessionDirOf sha cfg chat)
      (asyncBackupSession now (craftedFind (victim @ ''/'' @ name)) cat chat c sid sm) =
    Inr (Some s, [(path_join d (''sessions/'' @ victim @ ''/'' @ name), content)])"
proof -
  let ?r = "victim @ ''/'' @ name"
  have f: "readSessionFiles (craftedFind ?r) cat = [(''../'' @ ?r, content)]"
    by (rule readSessionFiles_crafted) (use assms(5-10) in auto)
  have p: "path_join (sessionDirOf sha cfg chat) (''../'' @ ?r) = path_join d (''sessions/'' @ ?r)"
    unfolding sessionDirOf_def assms(1) by (rule path_join_up [OF assms(2)])
  show ?thesis
    using assms(3,4) f p
    by (simp add: asyncBackupSession_def Let_def restoreToFilesystem_def getActiveSession_def saveSession_def js_get_set
        rowToSession_def fileEntries_def)
qed

definition demo_rc :: RuntimeConfig where
  "demo_rc = \<lparr>rc_dataDir = ''/d'', rc_image = ''img'', rc_memoryLimit = ''512m'', rc_cpuLimit = ''1.0'', rc_pidsLimit = 64,
     rc_credentialMethod = None, rc_proxyUrl = ''http://proxy:10255'', rc_caCertPath = Some ''/ca.crt'', rc_isMacOS = False\<rparr>"

definition demo_cat :: "string \<Rightarrow> string option" where
  "demo_cat p = (if p = crafted ''bbbb/CLAUDE.md'' then Some ''obey'' else None)"

theorem backup_escapes_session_dir_witness:
  "\<exists>s. restoreToFilesystem 5 ''c'' (sessionDirOf (\<lambda>s. ''aaaa'') demo_rc ''c'')
      (asyncBackupSession 5 (craftedFind ''bbbb/CLAUDE.md'') demo_cat ''c'' demo_container ''sid'' empty_sessions) =
    Inr (Some s, [(''/d/sessions/bbbb/CLAUDE.md'', ''obey'')])"
proof -
  have "path_join ''/d'' ''sessions/bbbb/CLAUDE.md'' = ''/d/sessions/bbbb/CLAUDE.md''" by code_simp
  moreover have "plain (hashChatId (\<lambda>s. ''aaaa'') ''c'')" by (simp add: plain_def hashChatId_def)
  moreover have "rc_dataDir demo_rc = ''/d''" "0 < sm_hardExpiry empty_sessions" by (simp_all add: demo_rc_def empty_sessions_def)
  moreover have "demo_cat (crafted ''bbbb/CLAUDE.md'') = Some ''obey''" "demo_cat (claudeDir @ ''/projects/x'') = None"
    "demo_cat ''/home/flowhelm/.claude.json'' = None"
    by (simp_all add: demo_cat_def crafted_def claudeDir_def)
  ultimately show ?thesis
    using backup_escapes_session_dir [of demo_rc "''/d''" "\<lambda>s. ''aaaa''" "''c''" "''sid''" empty_sessions "''CLAUDE.md''" "''bbbb''"
        demo_cat "''obey''" 5 demo_container]
    by (simp add: is_space_def)
qed

text \<open>Witnesses of the statements on credentials.\<close>

theorem container_config_hides_tokens_witness:
  "containerConfig (\<lambda>s. s) demo_rc (\<lambda>k. Some ''real1'') demo_task = containerConfig (\<lambda>s. s) demo_rc (\<lambda>k. Some ''real2'') demo_task \<and>
   js_get (cc_env (containerConfig (\<lambda>s. s) demo_rc (\<lambda>k. Some ''real1'') demo_task)) ''ANTHROPIC_API_KEY'' \<in> {None, Some PLACEHOLDER_API_KEY}"
proof -
  have "truthy (rc_caCertPath demo_rc)" "list_all (\<lambda>e. fst e \<notin> {''CLAUDE_CODE_OAUTH_TOKEN'', ''ANTHROPIC_API_KEY''}) (at_env demo_task)"
    by (simp_all add: demo_rc_def demo_task_def)
  then show ?thesis
    using container_config_hides_tokens [of demo_rc "\<lambda>k. Some ''real1''" "\<lambda>k. Some ''real2''" demo_task "\<lambda>s. s"] by auto
qed

definition demo_host :: "string \<Rightarrow> string option" where
  "demo_host p = (if p = ''/home/me/.claude/.credentials.json'' then Some ''sk-ant-oat01-real'' else None)"

definition demo_penv :: "string \<Rightarrow> string option" where
  "demo_penv k = (if k = ''HOME'' then Some ''/home/me'' else None)"

theorem host_credentials_reach_container_witness:
  "(path_join (sessionDirOf (\<lambda>s. s) demo_rc ''tg:1'') ''.credentials.json'', ''sk-ant-oat01-real'')
     \<in> set (snd (the (case provisionedFiles (\<lambda>s. s) demo_rc demo_host demo_penv 0 empty_sessions demo_task of Inr x \<Rightarrow> Some x | Inl e \<Rightarrow> None)))"
proof -
  have "credentialsFile demo_penv = ''/home/me/.claude/.credentials.json''" by code_simp
  then have "demo_host (credentialsFile demo_penv) = Some ''sk-ant-oat01-real''" by (simp add: demo_host_def)
  moreover obtain s files where p: "provisionedFiles (\<lambda>s. s) demo_rc demo_host demo_penv 0 empty_sessions demo_task = Inr (s, files)"
    by (cases "provisionedFiles (\<lambda>s. s) demo_rc demo_host demo_penv 0 empty_sessions demo_task")
      (auto simp: provisionedFiles_def restoreToFilesystem_def getActiveSession_def empty_sessions_def Let_def)
  moreover have "at_chatId demo_task = ''tg:1''" by (simp add: demo_task_def)
  ultimately show ?thesis
    using host_credentials_reach_container [of demo_host demo_penv, OF _ p] p by simp
qed

end
