(* ===== verification/Warm_Lifecycle.thy ===== *)
theory Warm_Lifecycle
  imports Warm_Container
begin

text \<open>
  The life of the warm containers of \<^verbatim>\<open>src/src/agent/warm-container-runtime.ts\<close> as a state machine. Every
  function of the source that awaits is cut at its awaits; a suspended call is a thread, and any thread
  can go on at any time. The runtime below is podman: a container exists from its creation to its
  removal, and a name cannot be given to two existing containers (\<^verbatim>\<open>podman create --name\<close> fails).
\<close>

section \<open>State\<close>

text \<open>The suspended calls. \<open>Checking\<close>: \<^verbatim>\<open>isHealthy\<close>; \<open>Creating\<close>: \<^verbatim>\<open>createWarmContainer\<close>; \<open>Running\<close>: \<^verbatim>\<open>exec\<close>;
  \<open>Stopping\<close> and \<open>Removing\<close>: \<^verbatim>\<open>handleIdleTimeout\<close>; \<open>Draining\<close>: \<^verbatim>\<open>shutdown\<close> with the containers it takes down.\<close>

datatype thread =
    Checking string string
  | Creating string
  | Running string string
  | Stopping string string
  | Removing string string
  | Draining "string list"

text \<open>
  \<open>wm_containers\<close> and \<open>wm_timers\<close> are the maps of the class; \<open>wm_armed\<close> are the timers that the event loop
  will fire; \<open>wm_exists\<close> and \<open>wm_up\<close> are the containers that podman has and those that run, with the
  chat they were made for; \<open>wm_made\<close> are all containers ever made.
\<close>

record Warm =
  wm_containers :: "(string, WarmContainer) js_map"
  wm_timers :: "(string, nat) js_map"
  wm_armed :: "(nat \<times> string) list"
  wm_next :: nat
  wm_threads :: "thread list"
  wm_exists :: "(string \<times> string) list"
  wm_up :: "string list"
  wm_made :: "(string \<times> string) list"

definition newWarm :: Warm where
  "newWarm = \<lparr>wm_containers = [], wm_timers = [], wm_armed = [], wm_next = 0, wm_threads = [], wm_exists = [],
     wm_up = [], wm_made = []\<rparr>"

definition clearIdleTimer :: "string \<Rightarrow> Warm \<Rightarrow> Warm" where
  "clearIdleTimer chat w =
     (case js_get (wm_timers w) chat of
        None \<Rightarrow> w
      | Some t \<Rightarrow> w\<lparr>wm_armed := filter (\<lambda>a. fst a \<noteq> t) (wm_armed w), wm_timers := js_delete chat (wm_timers w)\<rparr>)"

definition resetIdleTimer :: "string \<Rightarrow> Warm \<Rightarrow> Warm" where
  "resetIdleTimer chat w =
     (let w = clearIdleTimer chat w; t = wm_next w
      in w\<lparr>wm_armed := (t, chat) # wm_armed w, wm_timers := js_set chat t (wm_timers w), wm_next := Suc t\<rparr>)"

definition spawn :: "thread \<Rightarrow> Warm \<Rightarrow> Warm" where
  "spawn th w = w\<lparr>wm_threads := th # wm_threads w\<rparr>"

definition leave :: "thread \<Rightarrow> Warm \<Rightarrow> Warm" where
  "leave th w = w\<lparr>wm_threads := remove1 th (wm_threads w)\<rparr>"

section \<open>Steps\<close>

text \<open>\<^verbatim>\<open>execute\<close> up to the first await of \<^verbatim>\<open>getOrCreateContainer\<close>.\<close>

definition beginExecute :: "string \<Rightarrow> Warm \<Rightarrow> Warm" where
  "beginExecute chat w =
     (case js_get (wm_containers w) chat of
        Some c \<Rightarrow> spawn (Checking chat (wc_containerId c)) w
      | None \<Rightarrow> spawn (Creating chat) w)"

definition healthAnswer :: "string \<Rightarrow> string \<Rightarrow> bool \<Rightarrow> Warm \<Rightarrow> Warm" where
  "healthAnswer chat cid healthy w =
     (let w = leave (Checking chat cid) w in
      if healthy then spawn (Running chat cid) w
      else spawn (Creating chat) (clearIdleTimer chat (w\<lparr>wm_containers := js_delete chat (wm_containers w)\<rparr>)))"

definition createdContainer :: "string \<Rightarrow> WarmContainer \<Rightarrow> Warm \<Rightarrow> Warm" where
  "createdContainer chat c w =
     (let w = (leave (Creating chat) w)\<lparr>wm_exists := (wc_containerId c, chat) # wm_exists w,
                wm_up := wc_containerId c # wm_up w, wm_made := (wc_containerId c, chat) # wm_made w,
                wm_containers := js_set chat c (wm_containers w)\<rparr>
      in spawn (Running chat (wc_containerId c)) (resetIdleTimer chat w))"

text \<open>
  The end of \<^verbatim>\<open>execute\<close>. The container object is shared with the map: an update is seen there as long as
  the map still has this container.
\<close>

definition executed :: "string \<Rightarrow> string \<Rightarrow> time \<Rightarrow> ParsedCliResponse \<Rightarrow> Warm \<Rightarrow> Warm" where
  "executed chat cid now p w =
     (let w = leave (Running chat cid) w;
          w = (case js_get (wm_containers w) chat of
                 Some c \<Rightarrow> if wc_containerId c = cid
                   then w\<lparr>wm_containers := js_set chat (afterResult now p c) (wm_containers w)\<rparr> else w
               | None \<Rightarrow> w)
      in resetIdleTimer chat w)"

definition timerFires :: "nat \<Rightarrow> string \<Rightarrow> Warm \<Rightarrow> Warm" where
  "timerFires t chat w =
     (let w = w\<lparr>wm_armed := remove1 (t, chat) (wm_armed w)\<rparr> in
      case js_get (wm_containers w) chat of
        None \<Rightarrow> w
      | Some c \<Rightarrow> spawn (Stopping chat (wc_containerId c)) w)"

text \<open>The \<^verbatim>\<open>finally\<close> of \<^verbatim>\<open>handleIdleTimeout\<close>.\<close>

definition forget :: "string \<Rightarrow> Warm \<Rightarrow> Warm" where
  "forget chat w = w\<lparr>wm_containers := js_delete chat (wm_containers w), wm_timers := js_delete chat (wm_timers w)\<rparr>"

definition podmanRemove :: "string \<Rightarrow> Warm \<Rightarrow> Warm" where
  "podmanRemove cid w =
     w\<lparr>wm_exists := filter (\<lambda>e. fst e \<noteq> cid) (wm_exists w), wm_up := filter (\<lambda>i. i \<noteq> cid) (wm_up w)\<rparr>"

definition podmanStop :: "string \<Rightarrow> Warm \<Rightarrow> Warm" where
  "podmanStop cid w = w\<lparr>wm_up := filter (\<lambda>i. i \<noteq> cid) (wm_up w)\<rparr>"

definition stopAnswer :: "string \<Rightarrow> string \<Rightarrow> bool \<Rightarrow> Warm \<Rightarrow> Warm" where
  "stopAnswer chat cid ok w =
     (let w = leave (Stopping chat cid) w in
      if ok then spawn (Removing chat cid) (podmanStop cid w) else forget chat w)"

definition removeAnswer :: "string \<Rightarrow> string \<Rightarrow> bool \<Rightarrow> Warm \<Rightarrow> Warm" where
  "removeAnswer chat cid ok w =
     (let w = leave (Removing chat cid) w in forget chat (if ok then podmanRemove cid w else w))"

text \<open>\<^verbatim>\<open>shutdown\<close>: all timers are cleared at once; the map is cleared after all containers were tried.\<close>

definition beginShutdown :: "Warm \<Rightarrow> Warm" where
  "beginShutdown w =
     spawn (Draining (map (wc_containerId \<circ> snd) (wm_containers w))) (w\<lparr>wm_armed := filter (\<lambda>a. fst a \<notin> snd ` set (wm_timers w)) (wm_armed w), wm_timers := []\<rparr>)"

definition endShutdown :: "string list \<Rightarrow> Warm \<Rightarrow> Warm" where
  "endShutdown cids w = (leave (Draining cids) w)\<lparr>wm_containers := []\<rparr>"

datatype warm_event =
    Execute string
  | Health string string bool
  | Created string WarmContainer
  | CreateFails string
  | LeftBehind string string
  | Executed string string time ParsedCliResponse
  | ExecFails string string
  | Fires nat string
  | Stopped string string bool
  | Removed string string bool
  | Dies string
  | Shutdown
  | Drains "string list" string
  | ShutdownDone "string list"

text \<open>
  Which events can happen. A creation succeeds only when the name of the chat's container is free and
  the id is new; \<open>LeftBehind\<close> is a creation that fails after the container exists (its start throws);
  a container can die by itself.
\<close>

definition nameFree :: "string \<Rightarrow> Warm \<Rightarrow> bool" where
  "nameFree chat w \<longleftrightarrow> chat \<notin> snd ` set (wm_exists w)"

fun enabled :: "warm_event \<Rightarrow> Warm \<Rightarrow> bool" where
  "enabled (Execute chat) w \<longleftrightarrow> True"
| "enabled (Health chat cid h) w \<longleftrightarrow> Checking chat cid \<in> set (wm_threads w)"
| "enabled (Created chat c) w \<longleftrightarrow> Creating chat \<in> set (wm_threads w) \<and> nameFree chat w \<and>
     wc_containerId c \<notin> fst ` set (wm_made w) \<and> wc_chatId c = chat"
| "enabled (CreateFails chat) w \<longleftrightarrow> Creating chat \<in> set (wm_threads w)"
| "enabled (LeftBehind chat cid) w \<longleftrightarrow> Creating chat \<in> set (wm_threads w) \<and> nameFree chat w \<and> cid \<notin> fst ` set (wm_made w)"
| "enabled (Executed chat cid now p) w \<longleftrightarrow> Running chat cid \<in> set (wm_threads w)"
| "enabled (ExecFails chat cid) w \<longleftrightarrow> Running chat cid \<in> set (wm_threads w)"
| "enabled (Fires t chat) w \<longleftrightarrow> (t, chat) \<in> set (wm_armed w)"
| "enabled (Stopped chat cid ok) w \<longleftrightarrow> Stopping chat cid \<in> set (wm_threads w)"
| "enabled (Removed chat cid ok) w \<longleftrightarrow> Removing chat cid \<in> set (wm_threads w)"
| "enabled (Dies cid) w \<longleftrightarrow> cid \<in> set (wm_up w)"
| "enabled Shutdown w \<longleftrightarrow> True"
| "enabled (Drains cids cid) w \<longleftrightarrow> Draining cids \<in> set (wm_threads w) \<and> cid \<in> set cids"
| "enabled (ShutdownDone cids) w \<longleftrightarrow> Draining cids \<in> set (wm_threads w)"

fun warm_step :: "warm_event \<Rightarrow> Warm \<Rightarrow> Warm" where
  "warm_step (Execute chat) w = beginExecute chat w"
| "warm_step (Health chat cid h) w = healthAnswer chat cid h w"
| "warm_step (Created chat c) w = createdContainer chat c w"
| "warm_step (CreateFails chat) w = leave (Creating chat) w"
| "warm_step (LeftBehind chat cid) w =
     (leave (Creating chat) w)\<lparr>wm_exists := (cid, chat) # wm_exists w, wm_made := (cid, chat) # wm_made w\<rparr>"
| "warm_step (Executed chat cid now p) w = executed chat cid now p w"
| "warm_step (ExecFails chat cid) w = leave (Running chat cid) w"
| "warm_step (Fires t chat) w = timerFires t chat w"
| "warm_step (Stopped chat cid ok) w = stopAnswer chat cid ok w"
| "warm_step (Removed chat cid ok) w = removeAnswer chat cid ok w"
| "warm_step (Dies cid) w = podmanStop cid w"
| "warm_step Shutdown w = beginShutdown w"
| "warm_step (Drains cids cid) w = podmanRemove cid w"
| "warm_step (ShutdownDone cids) w = endShutdown cids w"

inductive warm_reach :: "Warm \<Rightarrow> Warm \<Rightarrow> bool" where
  refl: "warm_reach w w"
| step: "warm_reach w w' \<Longrightarrow> enabled e w' \<Longrightarrow> warm_reach w (warm_step e w')"

text \<open>A run given by its events, all enabled in turn.\<close>

fun warm_run :: "warm_event list \<Rightarrow> Warm \<Rightarrow> Warm option" where
  "warm_run [] w = Some w"
| "warm_run (e # es) w = (if enabled e w then warm_run es (warm_step e w) else None)"

lemma warm_run_reach: "warm_reach w0 w \<Longrightarrow> warm_run es w = Some w' \<Longrightarrow> warm_reach w0 w'"
  by (induction es arbitrary: w) (auto split: if_splits intro: warm_reach.step)

section \<open>Chats do not share containers\<close>

text \<open>The container a suspended call works on, with the chat it works for.\<close>

fun owns :: "thread \<Rightarrow> (string \<times> string) option" where
  "owns (Checking chat cid) = Some (cid, chat)"
| "owns (Running chat cid) = Some (cid, chat)"
| "owns (Stopping chat cid) = Some (cid, chat)"
| "owns (Removing chat cid) = Some (cid, chat)"
| "owns _ = None"

definition isolated :: "Warm \<Rightarrow> bool" where
  "isolated w \<longleftrightarrow>
     distinct (map fst (wm_made w)) \<and> distinct (map snd (wm_exists w)) \<and> set (wm_exists w) \<subseteq> set (wm_made w) \<and>
     (\<forall>(chat, c) \<in> set (wm_containers w). (wc_containerId c, chat) \<in> set (wm_made w)) \<and>
     (\<forall>th \<in> set (wm_threads w). \<forall>o1. owns th = Some o1 \<longrightarrow> o1 \<in> set (wm_made w))"

lemma isolatedD:
  assumes "isolated w"
  shows "distinct (map fst (wm_made w))" "distinct (map snd (wm_exists w))" "set (wm_exists w) \<subseteq> set (wm_made w)"
    "(chat, c) \<in> set (wm_containers w) \<Longrightarrow> (wc_containerId c, chat) \<in> set (wm_made w)"
    "th \<in> set (wm_threads w) \<Longrightarrow> owns th = Some x \<Longrightarrow> x \<in> set (wm_made w)"
  using assms unfolding isolated_def by blast+

lemma isolatedI:
  assumes "distinct (map fst (wm_made w))" "distinct (map snd (wm_exists w))" "set (wm_exists w) \<subseteq> set (wm_made w)"
    "\<And>chat c. (chat, c) \<in> set (wm_containers w) \<Longrightarrow> (wc_containerId c, chat) \<in> set (wm_made w)"
    "\<And>th x. th \<in> set (wm_threads w) \<Longrightarrow> owns th = Some x \<Longrightarrow> x \<in> set (wm_made w)"
  shows "isolated w"
  using assms by (auto simp: isolated_def)

lemma timer_fields [simp]:
  "wm_containers (clearIdleTimer chat w) = wm_containers w" "wm_threads (clearIdleTimer chat w) = wm_threads w"
  "wm_exists (clearIdleTimer chat w) = wm_exists w" "wm_made (clearIdleTimer chat w) = wm_made w" "wm_up (clearIdleTimer chat w) = wm_up w"
  "wm_next (clearIdleTimer chat w) = wm_next w"
  "wm_containers (resetIdleTimer chat w) = wm_containers w" "wm_threads (resetIdleTimer chat w) = wm_threads w"
  "wm_exists (resetIdleTimer chat w) = wm_exists w" "wm_made (resetIdleTimer chat w) = wm_made w" "wm_up (resetIdleTimer chat w) = wm_up w"
  by (simp_all add: clearIdleTimer_def resetIdleTimer_def Let_def split: option.split)

lemma thread_fields [simp]:
  "wm_threads (spawn th w) = th # wm_threads w" "wm_threads (leave th w) = remove1 th (wm_threads w)"
  "wm_containers (spawn th w) = wm_containers w" "wm_containers (leave th w) = wm_containers w"
  "wm_exists (spawn th w) = wm_exists w" "wm_exists (leave th w) = wm_exists w"
  "wm_made (spawn th w) = wm_made w" "wm_made (leave th w) = wm_made w"
  "wm_up (spawn th w) = wm_up w" "wm_up (leave th w) = wm_up w"
  "wm_timers (spawn th w) = wm_timers w" "wm_timers (leave th w) = wm_timers w"
  "wm_armed (spawn th w) = wm_armed w" "wm_armed (leave th w) = wm_armed w"
  "wm_next (spawn th w) = wm_next w" "wm_next (leave th w) = wm_next w"
  by (simp_all add: spawn_def leave_def)

lemma podman_fields [simp]:
  "wm_containers (podmanRemove cid w) = wm_containers w" "wm_threads (podmanRemove cid w) = wm_threads w"
  "wm_made (podmanRemove cid w) = wm_made w" "wm_timers (podmanRemove cid w) = wm_timers w"
  "wm_armed (podmanRemove cid w) = wm_armed w" "wm_next (podmanRemove cid w) = wm_next w"
  "wm_containers (podmanStop cid w) = wm_containers w" "wm_threads (podmanStop cid w) = wm_threads w"
  "wm_made (podmanStop cid w) = wm_made w" "wm_exists (podmanStop cid w) = wm_exists w"
  "wm_timers (podmanStop cid w) = wm_timers w" "wm_armed (podmanStop cid w) = wm_armed w" "wm_next (podmanStop cid w) = wm_next w"
  by (simp_all add: podmanRemove_def podmanStop_def)

lemmas warm_defs = beginExecute_def healthAnswer_def createdContainer_def executed_def timerFires_def
  forget_def stopAnswer_def removeAnswer_def beginShutdown_def endShutdown_def Let_def

lemma js_delete_subset: "set (js_delete k m) \<subseteq> set m"
  by (auto simp: js_delete_def)

lemma set_js_set: "x \<in> set (js_set k v m) \<Longrightarrow> x = (k, v) \<or> x \<in> set m"
  by (induction m) (auto split: if_splits)

lemma isolated_spawn:
  "isolated w \<Longrightarrow> (\<And>x. owns th = Some x \<Longrightarrow> x \<in> set (wm_made w)) \<Longrightarrow> isolated (spawn th w)"
  by (auto simp: isolated_def)

lemma isolated_leave: "isolated w \<Longrightarrow> isolated (leave th w)"
  unfolding isolated_def thread_fields by (blast dest: notin_set_remove1)

lemma isolated_timers: "isolated w \<Longrightarrow> isolated (clearIdleTimer chat w)" "isolated w \<Longrightarrow> isolated (resetIdleTimer chat w)"
  by (simp_all add: isolated_def)

lemma isolated_armed: "isolated w \<Longrightarrow> isolated (w\<lparr>wm_armed := a\<rparr>)" "isolated w \<Longrightarrow> isolated (w\<lparr>wm_armed := a, wm_timers := t\<rparr>)"
  by (simp_all add: isolated_def)

lemma isolated_containers:
  assumes "isolated w" "\<And>chat c. (chat, c) \<in> set m \<Longrightarrow> (wc_containerId c, chat) \<in> set (wm_made w)"
  shows "isolated (w\<lparr>wm_containers := m\<rparr>)" "isolated (w\<lparr>wm_containers := m, wm_timers := t\<rparr>)"
  using assms by (auto simp: isolated_def)

lemma isolated_delete:
  assumes "isolated w"
  shows "isolated (w\<lparr>wm_containers := js_delete chat (wm_containers w)\<rparr>)"
    and "isolated (forget chat w)"
proof -
  have "(wc_containerId c, chat') \<in> set (wm_made w)" if "(chat', c) \<in> set (js_delete chat (wm_containers w))" for chat' c
    by (rule isolatedD(4) [OF assms subsetD [OF js_delete_subset that]])
  note k = isolated_containers [OF assms this]
  show "isolated (w\<lparr>wm_containers := js_delete chat (wm_containers w)\<rparr>)" by (rule k(1))
  show "isolated (forget chat w)" unfolding forget_def by (rule k(2))
qed

lemma isolated_podman:
  assumes "isolated w"
  shows "isolated (podmanStop cid w)" "isolated (podmanRemove cid w)"
proof -
  show "isolated (podmanStop cid w)" using assms by (simp add: isolated_def)
  show "isolated (podmanRemove cid w)"
  proof (rule isolatedI)
    show "distinct (map snd (wm_exists (podmanRemove cid w)))"
      using isolatedD(2) [OF assms] by (simp add: podmanRemove_def distinct_map_filter)
    show "set (wm_exists (podmanRemove cid w)) \<subseteq> set (wm_made (podmanRemove cid w))"
      using isolatedD(3) [OF assms] by (auto simp: podmanRemove_def)
  qed (use isolatedD(1,4,5) [OF assms] in \<open>simp_all only: podman_fields\<close>)
qed

lemma isolated_made:
  assumes "isolated w" "nameFree chat w" "cid \<notin> fst ` set (wm_made w)"
  shows "isolated (w\<lparr>wm_exists := (cid, chat) # wm_exists w, wm_made := (cid, chat) # wm_made w\<rparr>)"
    "isolated (w\<lparr>wm_exists := (cid, chat) # wm_exists w, wm_up := u, wm_made := (cid, chat) # wm_made w\<rparr>)"
  using assms unfolding isolated_def nameFree_def by auto

lemma isolated_get: "isolated w \<Longrightarrow> js_get (wm_containers w) chat = Some c \<Longrightarrow> (wc_containerId c, chat) \<in> set (wm_made w)"
  by (rule isolatedD(4)) (simp_all add: map_of_SomeD)

lemma isolated_set:
  assumes "isolated w" "(wc_containerId c, chat) \<in> set (wm_made w)"
  shows "isolated (w\<lparr>wm_containers := js_set chat c (wm_containers w)\<rparr>)"
proof (rule isolated_containers(1) [OF assms(1)])
  fix chat' c' assume "(chat', c') \<in> set (js_set chat c (wm_containers w))"
  from set_js_set [OF this] show "(wc_containerId c', chat') \<in> set (wm_made w)"
    using assms(2) isolatedD(4) [OF assms(1), of chat' c'] by auto
qed

lemmas isolated_intros = isolated_leave isolated_timers isolated_armed isolated_delete isolated_podman

lemma isolated_step:
  assumes w: "isolated w" and e: "enabled e w"
  shows "isolated (warm_step e w)"
proof (cases e)
  case (Execute chat)
  then show ?thesis using isolated_get [OF w, of chat] w
    by (auto simp: beginExecute_def split: option.split intro!: isolated_spawn)
next
  case (Health chat cid h)
  then have "(cid, chat) \<in> set (wm_made w)" using e isolatedD(5) [OF w] by fastforce
  moreover have "isolated (leave (Checking chat cid) w)" using w by (rule isolated_leave)
  ultimately show ?thesis using Health isolated_delete(1) [of "leave (Checking chat cid) w"]
    by (auto simp: healthAnswer_def Let_def intro!: isolated_spawn isolated_timers)
next
  case (Created chat c)
  let ?w = "(leave (Creating chat) w)\<lparr>wm_exists := (wc_containerId c, chat) # wm_exists w,
     wm_up := wc_containerId c # wm_up w, wm_made := (wc_containerId c, chat) # wm_made w\<rparr>"
  have "isolated ?w"
    using isolated_made(2) [where chat = chat and cid = "wc_containerId c" and u = "wc_containerId c # wm_up w", OF isolated_leave [OF w]] e Created
    by (simp add: nameFree_def)
  then have "isolated (?w\<lparr>wm_containers := js_set chat c (wm_containers ?w)\<rparr>)" by (rule isolated_set) simp
  then have "isolated (resetIdleTimer chat (?w\<lparr>wm_containers := js_set chat c (wm_containers ?w)\<rparr>))" by (rule isolated_timers)
  then show ?thesis using Created
    by (auto simp: createdContainer_def Let_def intro!: isolated_spawn)
next
  case (LeftBehind chat cid)
  then show ?thesis
    using isolated_made(1) [where chat = chat and cid = cid, OF isolated_leave [OF w]] e by (simp add: nameFree_def)
next
  case (Executed chat cid now p)
  let ?w = "leave (Running chat cid) w"
  have l: "isolated ?w" using w by (rule isolated_leave)
  have "isolated (?w\<lparr>wm_containers := js_set chat (afterResult now p c) (wm_containers ?w)\<rparr>)"
    if "js_get (wm_containers ?w) chat = Some c" for c
    using isolated_get [OF l that] by (intro isolated_set l) (simp add: afterResult_def)
  then show ?thesis using l Executed
    by (auto simp: executed_def Let_def intro!: isolated_timers split: option.split)
next
  case (Fires t chat)
  then show ?thesis using isolated_get [OF w, of chat] w
    by (auto simp: timerFires_def Let_def split: option.split intro!: isolated_spawn isolated_armed)
next
  case (Stopped chat cid ok)
  then have "(cid, chat) \<in> set (wm_made w)" using e isolatedD(5) [OF w] by fastforce
  then show ?thesis using Stopped w
    by (auto simp: stopAnswer_def Let_def intro!: isolated_spawn isolated_intros)
next
  case (Removed chat cid ok)
  then show ?thesis using w by (simp add: removeAnswer_def Let_def isolated_intros)
next
  case (ShutdownDone cids)
  then show ?thesis using isolated_containers(1) [of "leave (Draining cids) w" "[]"] w
    by (simp add: endShutdown_def isolated_intros)
next
  case Shutdown
  then show ?thesis using w by (auto simp: beginShutdown_def intro!: isolated_spawn isolated_armed)
qed (use w in \<open>simp_all add: isolated_intros\<close>)

lemma isolated_new: "isolated newWarm"
  by (simp add: isolated_def newWarm_def)

lemma isolated_reach: "warm_reach w w' \<Longrightarrow> isolated w \<Longrightarrow> isolated w'"
  by (induction rule: warm_reach.induct) (auto intro: isolated_step)

text \<open>
  C12. However executions, health checks, creations, timers, deaths and shutdowns interleave: a message
  runs only in a container that was made for its chat, so messages of different chats never run in one
  container; and a chat never has two existing containers.
\<close>

theorem chats_never_share_a_container:
  assumes "warm_reach newWarm w" "Running chat cid \<in> set (wm_threads w)" "Running chat' cid \<in> set (wm_threads w)"
  shows "chat = chat' \<and> (cid, chat) \<in> set (wm_made w) \<and> distinct (map snd (wm_exists w))"
proof -
  note I = isolatedD [OF isolated_reach [OF assms(1) isolated_new]]
  have "(cid, chat) \<in> set (wm_made w)" "(cid, chat') \<in> set (wm_made w)" using I(5) assms(2,3) by fastforce+
  then show ?thesis using I(2) eq_key_imp_eq_value [OF I(1)] by blast
qed

section \<open>Every warm container is going to be stopped\<close>

definition timers_ok :: "Warm \<Rightarrow> bool" where
  "timers_ok w \<longleftrightarrow>
     (\<forall>chat t. js_get (wm_timers w) chat = Some t \<longrightarrow> t < wm_next w) \<and>
     (\<forall>chat chat' t. js_get (wm_timers w) chat = Some t \<longrightarrow> js_get (wm_timers w) chat' = Some t \<longrightarrow> chat = chat')"

text \<open>What will stop the container of a chat: an armed timer, a stop under way or a shutdown.\<close>

definition reaper :: "string \<Rightarrow> Warm \<Rightarrow> bool" where
  "reaper chat w \<longleftrightarrow>
     (\<exists>t. js_get (wm_timers w) chat = Some t \<and> (t, chat) \<in> set (wm_armed w)) \<or>
     (\<exists>cid. Stopping chat cid \<in> set (wm_threads w) \<or> Removing chat cid \<in> set (wm_threads w)) \<or>
     (\<exists>cids. Draining cids \<in> set (wm_threads w))"

definition reaped :: "Warm \<Rightarrow> bool" where
  "reaped w \<longleftrightarrow> timers_ok w \<and> (\<forall>chat c. js_get (wm_containers w) chat = Some c \<longrightarrow> reaper chat w)"

lemma timers_ok_cong: "timers_ok w \<Longrightarrow> wm_timers w' = wm_timers w \<Longrightarrow> wm_next w' = wm_next w \<Longrightarrow> timers_ok w'"
  by (simp add: timers_ok_def)

lemma timers_ok_delete: "timers_ok w \<Longrightarrow> wm_timers w' = js_delete chat (wm_timers w) \<Longrightarrow> wm_next w' = wm_next w \<Longrightarrow> timers_ok w'"
  by (auto simp: timers_ok_def js_get_delete split: if_splits)

lemma timers_clear: "wm_timers (clearIdleTimer chat w) = js_delete chat (wm_timers w)"
proof (cases "js_get (wm_timers w) chat")
  case None
  then have "js_delete chat (wm_timers w) = wm_timers w" by (rule js_delete_absent)
  then show ?thesis using None by (simp add: clearIdleTimer_def)
qed (simp add: clearIdleTimer_def)

lemma timers_ok_clear: "timers_ok w \<Longrightarrow> timers_ok (clearIdleTimer chat w)"
  by (rule timers_ok_delete [OF _ timers_clear]) simp_all

lemma timers_ok_reset:
  assumes "timers_ok w" shows "timers_ok (resetIdleTimer chat w)"
proof -
  have k: "timers_ok (clearIdleTimer chat w)" using assms by (rule timers_ok_clear)
  have "t \<noteq> wm_next w" if "js_get (wm_timers (clearIdleTimer chat w)) chat' = Some t" for t chat'
    using k that by (auto simp: timers_ok_def)
  then show ?thesis using k
    by (auto simp: timers_ok_def resetIdleTimer_def Let_def js_get_set less_Suc_eq split: if_splits)
qed

lemma reaper_clear_other:
  assumes "timers_ok w" "reaper chat' w" "chat' \<noteq> chat"
  shows "reaper chat' (clearIdleTimer chat w)"
proof (cases "js_get (wm_timers w) chat")
  case (Some t)
  then have "t' \<noteq> t" if "js_get (wm_timers w) chat' = Some t'" for t'
    using assms(1,3) that by (auto simp: timers_ok_def)
  then show ?thesis using assms(2,3) Some
    by (auto simp: reaper_def clearIdleTimer_def js_get_delete)
qed (use assms in \<open>simp add: clearIdleTimer_def\<close>)

lemma reaper_reset: "reaper chat (resetIdleTimer chat w)"
  by (auto simp: reaper_def resetIdleTimer_def Let_def js_get_set)

lemma reaper_reset_other:
  assumes "timers_ok w" "reaper chat' w" "chat' \<noteq> chat"
  shows "reaper chat' (resetIdleTimer chat w)"
  using reaper_clear_other [OF assms] assms(3)
  by (auto simp: reaper_def resetIdleTimer_def Let_def js_get_set)

lemma reaped_reset: "timers_ok w \<Longrightarrow> (\<And>chat' c. js_get (wm_containers w) chat' = Some c \<Longrightarrow> chat' \<noteq> chat \<Longrightarrow> reaper chat' w) \<Longrightarrow>
    reaped (resetIdleTimer chat w)"
  unfolding reaped_def using reaper_reset reaper_reset_other timers_ok_reset by (metis timer_fields(7))

lemma reaper_mono:
  assumes "reaper chat w" "wm_timers w' = wm_timers w" "set (wm_armed w) \<subseteq> set (wm_armed w')"
    "\<And>cid. Stopping chat cid \<in> set (wm_threads w) \<Longrightarrow> Stopping chat cid \<in> set (wm_threads w')"
    "\<And>cid. Removing chat cid \<in> set (wm_threads w) \<Longrightarrow> Removing chat cid \<in> set (wm_threads w')"
    "\<And>cids. Draining cids \<in> set (wm_threads w) \<Longrightarrow> Draining cids \<in> set (wm_threads w')"
  shows "reaper chat w'"
  using assms(1,3-) unfolding reaper_def assms(2) by blast

lemma reaper_spawn: "reaper c w \<Longrightarrow> reaper c (spawn th w)"
  by (rule reaper_mono) auto

lemma reaped_spawn: "reaped w \<Longrightarrow> reaped (spawn th w)"
  by (auto simp: reaped_def intro: reaper_spawn timers_ok_cong)

lemma reaped_leave:
  assumes "reaped w" "owns th = None \<or> th = Checking chat cid \<or> th = Running chat cid" "\<And>cids. th \<noteq> Draining cids"
  shows "reaped (leave th w)"
proof -
  have "Stopping c i \<noteq> th" "Removing c i \<noteq> th" for c i using assms(2) by auto
  then have "reaper c (leave th w)" if "reaper c w" for c
    by (intro reaper_mono [OF that]) (simp_all add: in_set_remove1 not_sym [OF assms(3)])
  then show ?thesis using assms(1) timers_ok_cong [of w "leave th w"] by (auto simp: reaped_def)
qed

text \<open>A chat whose entry is dropped needs no reaper.\<close>

lemma reaped_drop:
  assumes "timers_ok w'" "\<And>c c'. c \<noteq> chat \<Longrightarrow> js_get (wm_containers w) c = Some c' \<Longrightarrow> reaper c w'"
    "wm_containers w' = js_delete chat (wm_containers w)"
  shows "reaped w'"
  using assms by (auto simp: reaped_def js_get_delete split: if_splits)

lemma reapedD: "reaped w \<Longrightarrow> timers_ok w" "reaped w \<Longrightarrow> js_get (wm_containers w) chat = Some c \<Longrightarrow> reaper chat w"
  by (auto simp: reaped_def)

lemma reaper_forget_other:
  assumes "reaper c w" "c \<noteq> chat"
  shows "reaper c (forget chat w)"
  using assms by (auto simp: reaper_def forget_def js_get_delete)

lemma reaped_forget:
  assumes "timers_ok w" "\<And>c c'. c \<noteq> chat \<Longrightarrow> js_get (wm_containers w) c = Some c' \<Longrightarrow> reaper c w"
  shows "reaped (forget chat w)"
proof (rule reaped_drop [where w = w and chat = chat])
  show "timers_ok (forget chat w)" using assms(1) by (rule timers_ok_delete) (simp_all add: forget_def)
  show "reaper c (forget chat w)" if "c \<noteq> chat" "js_get (wm_containers w) c = Some c'" for c c'
    using assms(2) [OF that] that(1) by (rule reaper_forget_other)
qed (simp add: forget_def)

lemma reaper_leave_other:
  assumes "reaper c w" "th = Stopping chat cid \<or> th = Removing chat cid" "c \<noteq> chat"
  shows "reaper c (leave th w)"
  using assms by (intro reaper_mono [OF assms(1)]) (auto simp: in_set_remove1)

lemma reaped_forget_leave:
  assumes "reaped w" "th = Stopping chat cid \<or> th = Removing chat cid"
  shows "reaped (forget chat (leave th w))"
proof (rule reaped_forget)
  show "timers_ok (leave th w)" using reapedD(1) [OF assms(1)] by (rule timers_ok_cong) simp_all
  show "reaper c (leave th w)" if "c \<noteq> chat" "js_get (wm_containers (leave th w)) c = Some c'" for c c'
    using that by (intro reaper_leave_other [OF reapedD(2) [OF assms(1)] assms(2)]) simp_all
qed

lemma reaped_podman: "reaped (podmanStop cid w) = reaped w" "reaped (podmanRemove cid w) = reaped w"
  by (simp_all add: reaped_def timers_ok_def reaper_def)

lemma reaped_new: "reaped newWarm"
  by (simp add: reaped_def timers_ok_def newWarm_def)

lemma reaped_cong:
  assumes "reaped w" "wm_timers w' = wm_timers w" "wm_armed w' = wm_armed w" "wm_next w' = wm_next w"
    "wm_threads w' = wm_threads w" "wm_containers w' = wm_containers w"
  shows "reaped w'"
  using assms by (simp add: reaped_def timers_ok_def reaper_def)

lemma reaped_beginExecute: "reaped w \<Longrightarrow> reaped (beginExecute chat w)"
  by (simp add: beginExecute_def reaped_spawn split: option.split)

lemma reaped_healthAnswer:
  assumes "reaped w" shows "reaped (healthAnswer chat cid h w)"
proof -
  let ?l = "leave (Checking chat cid) w"
  let ?d = "?l\<lparr>wm_containers := js_delete chat (wm_containers ?l)\<rparr>"
  have l: "reaped ?l" using assms by (rule reaped_leave) simp_all
  have t: "timers_ok ?d" using reapedD(1) [OF l] by (rule timers_ok_cong) simp_all
  have "reaper c (clearIdleTimer chat ?d)" if "c \<noteq> chat" "js_get (wm_containers ?l) c = Some c'" for c c'
  proof (rule reaper_clear_other [OF t _ that(1)])
    show "reaper c ?d" using reapedD(2) [OF l that(2)] by (simp add: reaper_def)
  qed
  then have "reaped (clearIdleTimer chat ?d)"
    by (rule reaped_drop [where w = ?l and chat = chat, OF timers_ok_clear [OF t]]) simp_all
  then show ?thesis using l by (simp add: healthAnswer_def Let_def reaped_spawn)
qed

lemma reaped_createdContainer:
  assumes "reaped w" shows "reaped (createdContainer chat c w)"
proof -
  have l: "reaped (leave (Creating chat) w)" using assms by (rule reaped_leave) simp_all
  let ?d = "(leave (Creating chat) w)\<lparr>wm_exists := (wc_containerId c, chat) # wm_exists w,
     wm_up := wc_containerId c # wm_up w, wm_made := (wc_containerId c, chat) # wm_made w,
     wm_containers := js_set chat c (wm_containers w)\<rparr>"
  have "reaped (resetIdleTimer chat ?d)"
  proof (rule reaped_reset)
    show "timers_ok ?d" using reapedD(1) [OF l] by (rule timers_ok_cong) simp_all
    show "reaper chat' ?d" if "js_get (wm_containers ?d) chat' = Some c'" "chat' \<noteq> chat" for chat' c'
    proof -
      have "js_get (wm_containers w) chat' = Some c'" using that by (simp add: js_get_set)
      then have "reaper chat' (leave (Creating chat) w)" by (intro reapedD(2) [OF l]) simp
      then show ?thesis by (simp add: reaper_def)
    qed
  qed
  then show ?thesis by (simp add: createdContainer_def Let_def reaped_spawn)
qed

lemma reaped_executed:
  assumes "reaped w" shows "reaped (executed chat cid now p w)"
proof -
  let ?l = "leave (Running chat cid) w"
  have l: "reaped ?l" using assms by (rule reaped_leave) simp_all
  have "reaped (resetIdleTimer chat (?l\<lparr>wm_containers := m\<rparr>))"
    if m: "\<And>c. c \<noteq> chat \<Longrightarrow> js_get m c = js_get (wm_containers ?l) c" for m
  proof (rule reaped_reset)
    show "timers_ok (?l\<lparr>wm_containers := m\<rparr>)" using reapedD(1) [OF l] by (rule timers_ok_cong) simp_all
    show "reaper c (?l\<lparr>wm_containers := m\<rparr>)" if "js_get (wm_containers (?l\<lparr>wm_containers := m\<rparr>)) c = Some c'" "c \<noteq> chat" for c c'
    proof -
      have "js_get (wm_containers ?l) c = Some c'" using that m [of c] by simp
      from reapedD(2) [OF l this] show ?thesis by (simp add: reaper_def)
    qed
  qed
  note k = this
  have same: "?l\<lparr>wm_containers := wm_containers ?l\<rparr> = ?l" by simp
  have "reaped (resetIdleTimer chat (?l\<lparr>wm_containers := wm_containers ?l\<rparr>))" by (rule k) simp
  then have "reaped (resetIdleTimer chat ?l)" unfolding same .
  moreover have "reaped (resetIdleTimer chat (?l\<lparr>wm_containers := js_set chat c (wm_containers ?l)\<rparr>))" for c
    by (rule k) (simp add: js_get_set)
  ultimately show ?thesis by (auto simp: executed_def Let_def js_get_set split: option.split)
qed

lemma reaped_timerFires:
  assumes "reaped w" shows "reaped (timerFires t chat w)"
proof -
  let ?w = "w\<lparr>wm_armed := remove1 (t, chat) (wm_armed w)\<rparr>"
  have t: "timers_ok ?w" using reapedD(1) [OF assms] by (rule timers_ok_cong) simp_all
  have o: "reaper c ?w" if "js_get (wm_containers w) c = Some c'" "c \<noteq> chat" for c c'
    using reapedD(2) [OF assms that(1)] that(2) by (auto simp: reaper_def)
  show ?thesis
  proof (cases "js_get (wm_containers w) chat")
    case None
    then have "reaper c ?w" if "js_get (wm_containers w) c = Some c'" for c c' using o [OF that] that by fastforce
    then show ?thesis using None t by (simp add: timerFires_def reaped_def)
  next
    case (Some x)
    let ?s = "spawn (Stopping chat (wc_containerId x)) ?w"
    have "reaper c ?s" if "js_get (wm_containers w) c = Some c'" for c c'
    proof (cases "c = chat")
      case True
      then show ?thesis unfolding reaper_def thread_fields by auto
    next
      case False
      then show ?thesis using o [OF that] by (intro reaper_spawn)
    qed
    moreover have "timers_ok ?s" using t by (rule timers_ok_cong) simp_all
    ultimately show ?thesis using Some by (simp add: timerFires_def reaped_def)
  qed
qed

lemma reaped_stopAnswer:
  assumes "reaped w" shows "reaped (stopAnswer chat cid ok w)"
proof (cases ok)
  case True
  let ?s = "spawn (Removing chat cid) (leave (Stopping chat cid) w)"
  have "reaper c ?s" if "js_get (wm_containers w) c = Some c'" for c c'
  proof (cases "c = chat")
    case True
    then show ?thesis unfolding reaper_def thread_fields by auto
  next
    case False
    then show ?thesis
      by (intro reaper_spawn reaper_leave_other [OF reapedD(2) [OF assms that]]) blast+
  qed
  moreover have "timers_ok ?s" using reapedD(1) [OF assms] by (rule timers_ok_cong) simp_all
  ultimately have "reaped ?s" by (simp add: reaped_def)
  then have "reaped (spawn (Removing chat cid) (podmanStop cid (leave (Stopping chat cid) w)))"
    by (rule reaped_cong) simp_all
  then show ?thesis using True by (simp add: stopAnswer_def Let_def)
next
  case False
  then show ?thesis using reaped_forget_leave [OF assms] by (simp add: stopAnswer_def Let_def)
qed

lemma forget_fields [simp]:
  "wm_containers (forget chat w) = js_delete chat (wm_containers w)" "wm_timers (forget chat w) = js_delete chat (wm_timers w)"
  "wm_armed (forget chat w) = wm_armed w" "wm_next (forget chat w) = wm_next w" "wm_threads (forget chat w) = wm_threads w"
  "wm_exists (forget chat w) = wm_exists w" "wm_up (forget chat w) = wm_up w" "wm_made (forget chat w) = wm_made w"
  by (simp_all add: forget_def)

lemma reaped_removeAnswer:
  assumes "reaped w" shows "reaped (removeAnswer chat cid ok w)"
  using reaped_forget_leave [OF assms, of "Removing chat cid" chat cid]
  by (rule reaped_cong) (simp_all add: removeAnswer_def Let_def)+

lemma reaped_drained: "timers_ok w \<Longrightarrow> Draining cids \<in> set (wm_threads w) \<Longrightarrow> reaped w"
  by (auto simp: reaped_def reaper_def)

lemma reaped_beginShutdown: "reaped w \<Longrightarrow> reaped (beginShutdown w)"
  by (rule reaped_drained [of _ "map (wc_containerId \<circ> snd) (wm_containers w)"]) (simp_all add: beginShutdown_def timers_ok_def)

lemma reaped_endShutdown: "reaped w \<Longrightarrow> reaped (endShutdown cs w)"
  by (simp add: reaped_def endShutdown_def timers_ok_def)

lemma reaped_step: "reaped w \<Longrightarrow> reaped (warm_step e w)"
proof (cases e)
  case (LeftBehind chat cid)
  assume "reaped w"
  then have "reaped (leave (Creating chat) w)" by (rule reaped_leave) simp_all
  then show ?thesis unfolding LeftBehind warm_step.simps by (rule reaped_cong) simp_all
qed (simp_all add: reaped_beginExecute reaped_healthAnswer reaped_createdContainer reaped_executed reaped_timerFires
  reaped_stopAnswer reaped_removeAnswer reaped_beginShutdown reaped_endShutdown reaped_podman reaped_leave)

lemma reaped_reach: "warm_reach w w' \<Longrightarrow> reaped w \<Longrightarrow> reaped w'"
  by (induction rule: warm_reach.induct) (auto intro: reaped_step)

text \<open>
  C13. No warm container is forgotten: in every state that can be reached, each container of the map has
  an idle timer that the event loop will fire, a stop under way, or a shutdown.
\<close>

theorem warm_containers_reaped:
  assumes "warm_reach newWarm w" "js_get (wm_containers w) chat = Some c"
  shows "(\<exists>t. js_get (wm_timers w) chat = Some t \<and> (t, chat) \<in> set (wm_armed w)) \<or>
    (\<exists>cid. Stopping chat cid \<in> set (wm_threads w) \<or> Removing chat cid \<in> set (wm_threads w)) \<or>
    (\<exists>cids. Draining cids \<in> set (wm_threads w))"
  using reapedD(2) [OF reaped_reach [OF assms(1) reaped_new] assms(2)] unfolding reaper_def .

section \<open>Runs\<close>

text \<open>A container of a run, with the times and the message count of a container just made.\<close>

definition aContainer :: "string \<Rightarrow> string \<Rightarrow> WarmContainer" where
  "aContainer chat cid = \<lparr>wc_containerId = cid, wc_containerName = ''n'', wc_chatId = chat, wc_sessionId = None, wc_createdAt = 0,
     wc_lastActivityAt = 0, wc_messageCount = 0, wc_sessionDir = ''d'', wc_ipcDir = ''i''\<rparr>"

definition anAnswer :: ParsedCliResponse where
  "anAnswer = failedResponse '''' ''''"

text \<open>
  Two chats, served at once.
\<close>

lemma chats_never_share_a_container_witness:
  "\<exists>w. warm_reach newWarm w \<and> Running ''a'' ''1'' \<in> set (wm_threads w) \<and> Running ''b'' ''2'' \<in> set (wm_threads w) \<and>
     distinct (map snd (wm_exists w))"
proof -
  obtain w where w: "warm_run [Execute ''a'', Execute ''b'', Created ''a'' (aContainer ''a'' ''1''),
      Created ''b'' (aContainer ''b'' ''2'')] newWarm = Some w"
    and th: "Running ''a'' ''1'' \<in> set (wm_threads w)" "Running ''b'' ''2'' \<in> set (wm_threads w)"
    by (simp add: warm_defs newWarm_def aContainer_def nameFree_def spawn_def leave_def resetIdleTimer_def clearIdleTimer_def)
  have r: "warm_reach newWarm w" by (rule warm_run_reach [OF warm_reach.refl w])
  from chats_never_share_a_container [OF r th(1) th(1)] r th show ?thesis by blast
qed

lemma warm_containers_reaped_witness:
  "\<exists>w t. warm_reach newWarm w \<and> js_get (wm_containers w) ''a'' = Some (aContainer ''a'' ''1'') \<and>
     js_get (wm_timers w) ''a'' = Some t \<and> (t, ''a'') \<in> set (wm_armed w)"
proof -
  obtain w where w: "warm_run [Execute ''a'', Created ''a'' (aContainer ''a'' ''1'')] newWarm = Some w"
    and c: "js_get (wm_containers w) ''a'' = Some (aContainer ''a'' ''1'')"
    and th: "wm_threads w = [Running ''a'' ''1'']"
    by (simp add: warm_defs newWarm_def aContainer_def nameFree_def spawn_def leave_def resetIdleTimer_def clearIdleTimer_def)
  have r: "warm_reach newWarm w" by (rule warm_run_reach [OF warm_reach.refl w])
  from warm_containers_reaped [OF r c] r c th show ?thesis by auto
qed

text \<open>
  The idle timer is armed when an execution ends and is not disarmed when the next one begins: a
  task that is still running when it fires has its container stopped and removed under it.
\<close>

theorem idle_timer_stops_running_task:
  "map_option (\<lambda>w. (wm_threads w, wm_up w, wm_exists w))
     (warm_run [Execute ''a'', Created ''a'' (aContainer ''a'' ''1''), Executed ''a'' ''1'' 10 anAnswer,
        Execute ''a'', Health ''a'' ''1'' True, Fires 1 ''a'', Stopped ''a'' ''1'' True, Removed ''a'' ''1'' True] newWarm)
   = Some ([Running ''a'' ''1''], [], [])"
  by (simp add: warm_defs newWarm_def aContainer_def nameFree_def spawn_def leave_def resetIdleTimer_def clearIdleTimer_def
      afterResult_def podmanStop_def podmanRemove_def)

section \<open>Containers that were left behind\<close>

text \<open>
  The state of an orchestrator that starts while the container of a chat still exists: one it left behind
  when it was killed, which \<^verbatim>\<open>cleanupOrphans\<close> keeps as long as the container runs.
\<close>

definition leftOver :: "string \<Rightarrow> string \<Rightarrow> Warm" where
  "leftOver chat cid = newWarm\<lparr>wm_exists := [(cid, chat)], wm_up := [cid], wm_made := [(cid, chat)]\<rparr>"

text \<open>Nothing of the chat but creations is under way, and its container is not in the map.\<close>

definition orphan :: "string \<Rightarrow> string \<Rightarrow> Warm \<Rightarrow> bool" where
  "orphan chat cid w \<longleftrightarrow>
     (cid, chat) \<in> set (wm_exists w) \<and> js_get (wm_containers w) chat = None \<and>
     (\<forall>th \<in> set (wm_threads w). (\<forall>i. owns th \<noteq> Some (i, chat)) \<and> (\<forall>cids. th = Draining cids \<longrightarrow> cid \<notin> set cids))"

lemma orphanI:
  assumes "(cid, chat) \<in> set (wm_exists w)" "js_get (wm_containers w) chat = None"
    "\<And>th i. th \<in> set (wm_threads w) \<Longrightarrow> owns th \<noteq> Some (i, chat)"
    "\<And>cids. Draining cids \<in> set (wm_threads w) \<Longrightarrow> cid \<notin> set cids"
  shows "orphan chat cid w"
  using assms by (auto simp: orphan_def)

lemma orphanD:
  assumes "orphan chat cid w"
  shows "(cid, chat) \<in> set (wm_exists w)" "js_get (wm_containers w) chat = None"
    "th \<in> set (wm_threads w) \<Longrightarrow> owns th \<noteq> Some (i, chat)"
    "Draining cids \<in> set (wm_threads w) \<Longrightarrow> cid \<notin> set cids"
  using assms by (auto simp: orphan_def)

lemma orphan_step:
  assumes i: "isolated w" and o: "orphan chat cid w" and e: "enabled e w"
  shows "orphan chat cid (warm_step e w)"
proof -
  note O = orphanD [OF o]
  have made: "(cid, chat) \<in> set (wm_made w)" using O(1) isolatedD(3) [OF i] by blast
  have other: "j \<noteq> cid" if "(j, k) \<in> set (wm_made w)" "k \<noteq> chat" for j k
    using that made eq_key_imp_eq_value [OF isolatedD(1) [OF i]] by fastforce
  have t: "k \<noteq> chat" "j \<noteq> cid" if "th \<in> set (wm_threads w)" "owns th = Some (j, k)" for th j k
    using O(3) [OF that(1)] that other [OF isolatedD(5) [OF i that]] by auto
  have taken: "\<not> nameFree chat w" using O(1) by (force simp: nameFree_def)
  have gone: "cid \<notin> wc_containerId ` snd ` set (wm_containers w)"
  proof
    assume "cid \<in> wc_containerId ` snd ` set (wm_containers w)"
    then obtain k c where k: "(k, c) \<in> set (wm_containers w)" "cid = wc_containerId c" by auto
    then have "(cid, k) \<in> set (wm_made w)" using isolatedD(4) [OF i] by blast
    then have "k = chat" using other by blast
    then show False using k(1) O(2) by (force simp: map_of_eq_None_iff)
  qed
  have keep: "\<And>th i x. th \<in> set (remove1 x (wm_threads w)) \<Longrightarrow> owns th \<noteq> Some (i, chat)"
    "\<And>cids x. Draining cids \<in> set (remove1 x (wm_threads w)) \<Longrightarrow> cid \<notin> set cids"
    using O(3,4) notin_set_remove1 by fast+
  show ?thesis
  proof (cases e)
    case (Execute k)
    then show ?thesis using O by (auto simp: beginExecute_def intro!: orphanI split: option.split)
  next
    case (Health k j h)
    then have "k \<noteq> chat" using e t(1) by fastforce
    then show ?thesis using O keep Health by (auto simp: healthAnswer_def Let_def js_get_delete intro!: orphanI)
  next
    case (Created k c)
    then have "k \<noteq> chat" using e taken by auto
    then show ?thesis using O keep Created by (auto simp: createdContainer_def Let_def js_get_set intro!: orphanI)
  next
    case (CreateFails k)
    then show ?thesis using O keep by (auto intro!: orphanI)
  next
    case (LeftBehind k j)
    then show ?thesis using O keep by (auto intro!: orphanI)
  next
    case (Executed k j now p)
    then have "k \<noteq> chat" using e t(1) by fastforce
    then show ?thesis using O keep Executed
      by (auto simp: executed_def Let_def js_get_set intro!: orphanI split: option.split)
  next
    case (ExecFails k j)
    then show ?thesis using O keep by (auto intro!: orphanI)
  next
    case (Fires n k)
    then show ?thesis using O by (auto simp: timerFires_def Let_def intro!: orphanI split: option.split)
  next
    case (Stopped k j ok)
    then have "k \<noteq> chat" using e t(1) by fastforce
    then show ?thesis using O keep Stopped by (auto simp: stopAnswer_def Let_def js_get_delete intro!: orphanI)
  next
    case (Removed k j ok)
    then have "k \<noteq> chat" "j \<noteq> cid" using e t by fastforce+
    then show ?thesis using O keep Removed
      by (auto simp: removeAnswer_def Let_def js_get_delete podmanRemove_def intro!: orphanI)
  next
    case (Dies j)
    then show ?thesis using O by (auto intro!: orphanI)
  next
    case Shutdown
    then show ?thesis using O gone by (auto simp: beginShutdown_def image_comp intro!: orphanI)
  next
    case (Drains cids j)
    then have "j \<noteq> cid" using e O(4) by auto
    then show ?thesis using O Drains by (auto simp: podmanRemove_def intro!: orphanI)
  next
    case (ShutdownDone cids)
    then show ?thesis using O keep by (auto simp: endShutdown_def intro!: orphanI)
  qed
qed

lemma orphan_reach: "warm_reach w w' \<Longrightarrow> isolated w \<Longrightarrow> orphan chat cid w \<Longrightarrow> isolated w' \<and> orphan chat cid w'"
  by (induction rule: warm_reach.induct) (auto intro: isolated_step orphan_step)

text \<open>
  A chat whose container an earlier orchestrator left running gets no answer any more: whatever is
  executed, fails, times out or is shut down after the start, no message of the chat reaches a container.
\<close>

theorem left_over_container_blocks_chat:
  assumes "warm_reach (leftOver chat cid) w"
  shows "Running chat cid' \<notin> set (wm_threads w)"
proof -
  have "isolated (leftOver chat cid)" "orphan chat cid (leftOver chat cid)"
    by (simp_all add: isolated_def orphan_def leftOver_def newWarm_def)
  from orphanD(3) [OF conjunct2 [OF orphan_reach [OF assms this]]] show ?thesis by fastforce
qed

lemma left_over_container_blocks_chat_witness:
  "\<exists>w. warm_run [Execute ''a'', CreateFails ''a'', Execute ''b'', Created ''b'' (aContainer ''b'' ''2'')] (leftOver ''a'' ''1'') = Some w \<and>
     Running ''b'' ''2'' \<in> set (wm_threads w) \<and> Running ''a'' ''1'' \<notin> set (wm_threads w)"
proof -
  obtain w where w: "warm_run [Execute ''a'', CreateFails ''a'', Execute ''b'', Created ''b'' (aContainer ''b'' ''2'')]
      (leftOver ''a'' ''1'') = Some w" and th: "Running ''b'' ''2'' \<in> set (wm_threads w)"
    by (simp add: warm_defs leftOver_def newWarm_def aContainer_def nameFree_def spawn_def leave_def resetIdleTimer_def clearIdleTimer_def)
  have "Running ''a'' ''1'' \<notin> set (wm_threads w)"
    by (rule left_over_container_blocks_chat [OF warm_run_reach [OF warm_reach.refl w]])
  with w th show ?thesis by blast
qed

end
