(* ===== verification/Orchestrator.thy ===== *)
theory Orchestrator
  imports Task_Pipeline
begin

text \<open>
  \<^verbatim>\<open>src/src/orchestrator/orchestrator.ts\<close>, the concurrency: notifications, the guards of \<^verbatim>\<open>onNewMessage\<close>, the
  atomic dequeue, running tasks, their settlement and the \<^verbatim>\<open>finally\<close> block with \<^verbatim>\<open>drainChat\<close>. Each
  piece of code between two awaits is one function on the state; a step relation interleaves them in
  every order, from the start of the process on: the recovery of the queue, the subscription, the scan for pending messages and
  the drain are separate steps with anything in between. Shown: no queue item is ever in two running tasks, the task counter is exact, and no
  message is stranded after the drain as long as no notification was refused for lack of capacity. Also shown: what
  the guards do not give, because they are checked before an await.
\<close>

section \<open>State\<close>

record ActiveTask =
  at_queueId :: int
  at_chatId :: string
  at_channel :: ChannelType
  at_startedAt :: time

text \<open>
  Code waiting for the database: \<open>Dequeue_new\<close> in \<^verbatim>\<open>onNewMessage\<close> and \<open>Dequeue_drain\<close> in \<^verbatim>\<open>drainChat\<close>,
  each with its chat.
\<close>

datatype waiting = Dequeue_new string | Dequeue_drain string

fun waiting_chat :: "waiting \<Rightarrow> string" where
  "waiting_chat (Dequeue_new c) = c"
| "waiting_chat (Dequeue_drain c) = c"

text \<open>
  How far \<^verbatim>\<open>start\<close> has come: the queue is recovered; its notifications are subscribed to; \<^verbatim>\<open>pendingChatIds\<close> has given its
  list; the list is worked through. A notification sent before the subscription is lost.
\<close>

datatype phase = Recovered | Subscribed | Scanned "string list" | Drained

text \<open>
  Besides the fields of the class: the queue table, the notifications not yet delivered, the code
  waiting for a dequeue, the items whose task body runs, and the items whose task has settled but
  whose \<^verbatim>\<open>finally\<close> block is still to come. \<open>o_refused\<close> only records, for the statements below,
  that a notification was turned away by the concurrency limit.
\<close>

record Orch =
  o_table :: QueueTable
  o_activeTasks :: "(string, ActiveTask) js_map"
  o_processingCount :: int
  o_stopping :: bool
  o_notified :: "string list"
  o_waiting :: "waiting list"
  o_running :: "QueuedItem list"
  o_settled :: "QueuedItem list"
  o_refused :: bool
  o_phase :: phase

definition item_chat :: "QueuedItem \<Rightarrow> string" where
  "item_chat item = im_userId (qi_message item)"

section \<open>The code between two awaits\<close>

text \<open>\<^verbatim>\<open>onNewMessage\<close> up to its await.\<close>

definition onNewMessage :: "nat \<Rightarrow> string \<Rightarrow> Orch \<Rightarrow> Orch" where
  "onNewMessage maxConcurrent chatId st =
     (if js_has (o_activeTasks st) chatId then st
      else if length (o_activeTasks st) \<ge> maxConcurrent then st\<lparr>o_refused := True\<rparr>
      else st\<lparr>o_waiting := o_waiting st @ [Dequeue_new chatId]\<rparr>)"

text \<open>The listener of \<^verbatim>\<open>start\<close>.\<close>

definition onNotify :: "nat \<Rightarrow> string \<Rightarrow> Orch \<Rightarrow> Orch" where
  "onNotify maxConcurrent chatId st = (if o_stopping st then st else onNewMessage maxConcurrent chatId st)"

text \<open>The beginning of \<^verbatim>\<open>processQueueItem\<close>.\<close>

definition processQueueItem :: "time \<Rightarrow> QueuedItem \<Rightarrow> Orch \<Rightarrow> Orch" where
  "processQueueItem now item st =
     st\<lparr>o_activeTasks := js_set (item_chat item)
          \<lparr>at_queueId = qi_id item, at_chatId = item_chat item,
           at_channel = im_channel (qi_message item), at_startedAt = now\<rparr> (o_activeTasks st),
        o_processingCount := o_processingCount st + 1,
        o_running := o_running st @ [item]\<rparr>"

text \<open>The await of \<^verbatim>\<open>dequeueForChat\<close> and what follows it, in \<^verbatim>\<open>onNewMessage\<close> and in \<^verbatim>\<open>drainChat\<close>.\<close>

definition resumeDequeue :: "(QueueRow list \<Rightarrow> QueueRow) \<Rightarrow> time \<Rightarrow> waiting \<Rightarrow> Orch \<Rightarrow> Orch" where
  "resumeDequeue tie now w st =
     (case dequeueForChat tie (waiting_chat w) now (o_table st) of
        (None, tbl) \<Rightarrow> st\<lparr>o_table := tbl, o_waiting := remove1 w (o_waiting st)\<rparr>
      | (Some item, tbl) \<Rightarrow>
          processQueueItem now item (st\<lparr>o_table := tbl, o_waiting := remove1 w (o_waiting st)\<rparr>))"

text \<open>How a task settles its item, see \<open>task_settles_item\<close>; \<open>Unsettled\<close> when the database fails.\<close>

datatype settlement = Acknowledged | Reported_failed string | Unsettled

definition settleTask :: "time \<Rightarrow> settlement \<Rightarrow> QueuedItem \<Rightarrow> Orch \<Rightarrow> Orch" where
  "settleTask now s item st =
     st\<lparr>o_table := (case s of
            Acknowledged \<Rightarrow> acknowledge (qi_id item) now (o_table st)
          | Reported_failed e \<Rightarrow> fail_row (qi_id item) e now (o_table st)
          | Unsettled \<Rightarrow> o_table st),
        o_running := remove1 item (o_running st),
        o_settled := o_settled st @ [item]\<rparr>"

text \<open>The \<^verbatim>\<open>finally\<close> block, with \<^verbatim>\<open>drainChat\<close> up to its await.\<close>

definition finishTask :: "QueuedItem \<Rightarrow> Orch \<Rightarrow> Orch" where
  "finishTask item st =
     st\<lparr>o_activeTasks := js_delete (item_chat item) (o_activeTasks st),
        o_processingCount := o_processingCount st - 1,
        o_settled := remove1 item (o_settled st),
        o_waiting := (if o_stopping st then o_waiting st else o_waiting st @ [Dequeue_drain (item_chat item)])\<rparr>"

text \<open>A channel enqueues a message; the trigger on the table notifies its chat, which is heard once \<^verbatim>\<open>start\<close> has subscribed.\<close>

definition submitMessage :: "InboundMessage \<Rightarrow> int \<Rightarrow> time \<Rightarrow> Orch \<Rightarrow> Orch" where
  "submitMessage m maxAttempts now st =
     st\<lparr>o_table := submit_message (m, maxAttempts) now (o_table st),
        o_notified := (if o_phase st = Recovered then o_notified st else o_notified st @ [im_userId m])\<rparr>"

text \<open>
  The state at \<^verbatim>\<open>start\<close> over the table a previous run left, which the start of the queue has recovered; the subscription; the
  answer to the query of \<^verbatim>\<open>drainPendingMessages\<close>; and its loop, which starts \<^verbatim>\<open>onNewMessage\<close> for every chat of the list in one go.
\<close>

definition orch_start :: "time \<Rightarrow> QueueTable \<Rightarrow> Orch" where
  "orch_start now tbl = \<lparr>o_table = recoverStuckMessages now tbl, o_activeTasks = [], o_processingCount = 0, o_stopping = False,
     o_notified = [], o_waiting = [], o_running = [], o_settled = [], o_refused = False, o_phase = Recovered\<rparr>"

definition subscribe :: "Orch \<Rightarrow> Orch" where
  "subscribe st = st\<lparr>o_phase := Subscribed\<rparr>"

definition scanPending :: "(string list \<Rightarrow> string list) \<Rightarrow> Orch \<Rightarrow> Orch" where
  "scanPending srt st = st\<lparr>o_phase := Scanned (pendingChatIds srt (o_table st))\<rparr>"

definition drainPendingMessages :: "nat \<Rightarrow> string list \<Rightarrow> Orch \<Rightarrow> Orch" where
  "drainPendingMessages maxConcurrent chatIds st = fold (onNewMessage maxConcurrent) chatIds (st\<lparr>o_phase := Drained\<rparr>)"

definition isProcessing :: "string \<Rightarrow> Orch \<Rightarrow> bool" where
  "isProcessing chatId st = js_has (o_activeTasks st) chatId"

section \<open>Interleavings\<close>

inductive orch_step ::
    "(string list \<Rightarrow> string list) \<Rightarrow> (QueueRow list \<Rightarrow> QueueRow) \<Rightarrow> nat \<Rightarrow> Orch \<Rightarrow> Orch \<Rightarrow> bool" for srt tie maxConcurrent where
  step_subscribe: "o_phase st = Recovered \<Longrightarrow> orch_step srt tie maxConcurrent st (subscribe st)"
| step_scan: "o_phase st = Subscribed \<Longrightarrow> orch_step srt tie maxConcurrent st (scanPending srt st)"
| step_drain: "o_phase st = Scanned cs \<Longrightarrow> orch_step srt tie maxConcurrent st (drainPendingMessages maxConcurrent cs st)"
| step_submit: "orch_step srt tie maxConcurrent st (submitMessage m k now st)"
| step_notify: "c \<in> set (o_notified st) \<Longrightarrow>
    orch_step srt tie maxConcurrent st
      (onNotify maxConcurrent c (st\<lparr>o_notified := remove1 c (o_notified st)\<rparr>))"
| step_dequeue: "w \<in> set (o_waiting st) \<Longrightarrow> orch_step srt tie maxConcurrent st (resumeDequeue tie now w st)"
| step_settle: "item \<in> set (o_running st) \<Longrightarrow> orch_step srt tie maxConcurrent st (settleTask now s item st)"
| step_finish: "item \<in> set (o_settled st) \<Longrightarrow> orch_step srt tie maxConcurrent st (finishTask item st)"
| step_stop: "orch_step srt tie maxConcurrent st (st\<lparr>o_stopping := True\<rparr>)"

inductive orch_reachable ::
    "(string list \<Rightarrow> string list) \<Rightarrow> (QueueRow list \<Rightarrow> QueueRow) \<Rightarrow> nat \<Rightarrow> Orch \<Rightarrow> Orch \<Rightarrow> bool" for srt tie maxConcurrent st0 where
  reach_init: "orch_reachable srt tie maxConcurrent st0 st0"
| reach_step: "orch_reachable srt tie maxConcurrent st0 st \<Longrightarrow> orch_step srt tie maxConcurrent st st' \<Longrightarrow>
    orch_reachable srt tie maxConcurrent st0 st'"

inductive_cases orch_stepE: "orch_step srt tie maxConcurrent st st'"

section \<open>The invariant\<close>

definition row_key :: "QueueRow \<Rightarrow> int \<times> string \<times> InboundMessage" where
  "row_key r = (q_id r, q_chat_id r, q_payload r)"

definition row_keys :: "QueueTable \<Rightarrow> (int \<times> string \<times> InboundMessage) set" where
  "row_keys tbl = row_key ` set (q_rows tbl)"

text \<open>Every row is filed under the chat of its message, as \<open>enqueue\<close> does.\<close>

definition chats_match :: "QueueTable \<Rightarrow> bool" where
  "chats_match tbl \<longleftrightarrow> (\<forall>r \<in> set (q_rows tbl). q_chat_id r = im_userId (q_payload r))"

abbreviation holds :: "(QueueRow list \<Rightarrow> QueueRow) \<Rightarrow> QueueTable \<Rightarrow> int list \<Rightarrow> bool" where
  "holds tie \<equiv> work_queue.holding (queue_ready tie) processing_ids"

definition orch_inv :: "(QueueRow list \<Rightarrow> QueueRow) \<Rightarrow> Orch \<Rightarrow> bool" where
  "orch_inv tie st \<longleftrightarrow>
     holds tie (o_table st) (map qi_id (o_running st)) \<and> chats_match (o_table st) \<and>
     (\<forall>item \<in> set (o_running st). (qi_id item, item_chat item, qi_message item) \<in> row_keys (o_table st)) \<and>
     o_processingCount st = int (length (o_running st) + length (o_settled st)) \<and>
     (\<forall>c. js_has (o_activeTasks st) c \<longrightarrow> c \<in> item_chat ` (set (o_running st) \<union> set (o_settled st)))"

lemma row_keys_update:
  "(\<And>r. row_key (f r) = row_key r) \<Longrightarrow> row_keys (update_rows P f tbl) = row_keys tbl"
  unfolding row_keys_def set_update_rows image_image by (rule image_cong) auto

lemma chats_match_keys: "chats_match tbl \<longleftrightarrow> (\<forall>(i, c, p) \<in> row_keys tbl. c = im_userId p)"
  by (auto simp: chats_match_def row_keys_def row_key_def)

lemma row_keys_ops [simp]:
  "row_keys (acknowledge i now tbl) = row_keys tbl" "row_keys (fail_row i e now tbl) = row_keys tbl"
  "row_keys (recoverStuckMessages now tbl) = row_keys tbl"
  by (auto simp: acknowledge_def fail_row_def recoverStuckMessages_def row_key_def intro!: row_keys_update)

lemma row_keys_submit: "row_keys tbl \<subseteq> row_keys (submit_message mk now tbl)"
  by (auto simp: row_keys_def submit_message_def insert_row_def)

lemma chats_match_ops:
  "chats_match tbl \<Longrightarrow> chats_match (acknowledge i now tbl)" "chats_match tbl \<Longrightarrow> chats_match (fail_row i e now tbl)"
  "chats_match tbl \<Longrightarrow> chats_match (recoverStuckMessages now tbl)"
  "chats_match tbl \<Longrightarrow> chats_match (submit_message mk now tbl)"
  by (simp_all add: chats_match_keys) (auto simp: row_keys_def row_key_def submit_message_def insert_row_def)

lemma dequeueForChat_keys:
  assumes "queue_ready tie tbl" "dequeueForChat tie c now tbl = (Some item, tbl')"
  shows "row_keys tbl' = row_keys tbl" "(qi_id item, c, qi_message item) \<in> row_keys tbl"
proof -
  have tie: "tie_ok tie" using assms(1) by (simp add: queue_ready_def)
  have "row_keys tbl' = row_keys tbl \<and> (qi_id item, c, qi_message item) \<in> row_keys tbl"
  proof (cases rule: dequeue_where_cases [OF tie, of "\<lambda>r. q_chat_id r = c" tbl now])
    case 1
    then show ?thesis using assms(2) by (simp add: dequeueForChat_def)
  next
    case (2 r)
    then have "(qi_id item, c, qi_message item) = row_key r"
      using assms(2) by (auto simp: dequeueForChat_def rowToItem_def row_key_def)
    moreover have "row_key r \<in> row_keys tbl" using 2(1) by (simp add: row_keys_def)
    moreover have "row_keys tbl' = row_keys tbl"
      using 2(5) assms(2) by (auto simp only: dequeueForChat_def prod.inject intro!: row_keys_update)
        (simp add: row_key_def)
    ultimately show ?thesis by simp
  qed
  then show "row_keys tbl' = row_keys tbl" "(qi_id item, c, qi_message item) \<in> row_keys tbl" by simp_all
qed

lemma dequeueForChat_chat:
  assumes "queue_ready tie tbl" "chats_match tbl" "dequeueForChat tie c now tbl = (Some item, tbl')"
  shows "item_chat item = c"
  using dequeueForChat_keys(2) [OF assms(1,3)] assms(2) by (auto simp: chats_match_keys item_chat_def)

lemma map_remove1_distinct:
  "distinct (map f xs) \<Longrightarrow> x \<in> set xs \<Longrightarrow> map f (remove1 x xs) = remove1 (f x) (map f xs)"
proof (induction xs)
  case (Cons a xs)
  then have "x \<noteq> a \<Longrightarrow> f x \<noteq> f a" by (metis distinct.simps(2) image_eqI list.set_map list.simps(9) set_ConsD)
  then show ?case using Cons by auto
qed simp

lemma int_length_remove1: "x \<in> set xs \<Longrightarrow> int (length (remove1 x xs)) = int (length xs) - 1"
  using length_pos_if_in_set [of x xs] by (cases "length xs") (simp_all add: length_remove1)

lemma inv_ready: "orch_inv tie st \<Longrightarrow> queue_ready tie (o_table st)"
  by (simp add: orch_inv_def table_queue.holding_def)

lemma inv_onNewMessage: "orch_inv tie (onNewMessage maxC c st) \<longleftrightarrow> orch_inv tie st"
  by (simp add: onNewMessage_def orch_inv_def)

lemma inv_fold: "orch_inv tie (fold (onNewMessage maxC) cs st) \<longleftrightarrow> orch_inv tie st"
  by (induction cs arbitrary: st) (simp_all add: inv_onNewMessage)

lemma inv_phase: "orch_inv tie (st\<lparr>o_phase := p\<rparr>) \<longleftrightarrow> orch_inv tie st"
  by (simp add: orch_inv_def)

lemma inv_submit: "orch_inv tie st \<Longrightarrow> orch_inv tie (submitMessage m k now st)"
  using row_keys_submit [of "o_table st" "(m, k)" now]
  by (auto simp: orch_inv_def submitMessage_def table_queue.holding_submit chats_match_ops)

lemma inv_dequeue: "orch_inv tie st \<Longrightarrow> orch_inv tie (resumeDequeue tie now w st)"
proof (cases "dequeueForChat tie (waiting_chat w) now (o_table st)")
  case (Pair res tbl)
  assume inv: "orch_inv tie st"
  show ?thesis
  proof (cases res)
    case None
    then have "tbl = o_table st" using dequeueForChat_None [OF inv_ready [OF inv]] Pair by blast
    then show ?thesis using inv None Pair by (simp add: resumeDequeue_def orch_inv_def)
  next
    case (Some item)
    note deq = Pair [unfolded Some]
    have "item_chat item = waiting_chat w"
      using dequeueForChat_chat [OF inv_ready [OF inv] _ deq] inv by (simp add: orch_inv_def)
    then show ?thesis
      using inv deq dequeueForChat_keys [OF inv_ready [OF inv] deq]
        table_queue.holding_take [of tie "o_table st" "map qi_id (o_running st)", OF _ deq]
      by (auto simp: resumeDequeue_def processQueueItem_def orch_inv_def js_keys_set chats_match_keys)
  qed
qed

lemma inv_settle:
  assumes "orch_inv tie st" "item \<in> set (o_running st)"
  shows "orch_inv tie (settleTask now s item st)"
proof -
  let ?r = "o_running st"
  have h: "holds tie (o_table st) (map qi_id ?r)" using assms(1) by (simp add: orch_inv_def)
  then have "map qi_id (remove1 item ?r) = remove1 (qi_id item) (map qi_id ?r)"
    using assms(2) by (intro map_remove1_distinct) (simp_all add: table_queue.holding_def)
  then have "holds tie (o_table (settleTask now s item st)) (map qi_id (remove1 item ?r))"
    using h by (cases s)
      (simp_all add: settleTask_def table_queue.holding_done table_queue.holding_failed table_queue.holding_drop)
  moreover have "set ?r \<union> set (o_settled st) \<subseteq> set (remove1 item ?r) \<union> set (o_settled st @ [item])"
    by (auto simp: in_set_remove1)
  then have "item_chat ` (set ?r \<union> set (o_settled st)) \<subseteq>
      item_chat ` (set (remove1 item ?r) \<union> set (o_settled st @ [item]))" by (rule image_mono)
  moreover have "chats_match (o_table (settleTask now s item st))"
      "row_keys (o_table (settleTask now s item st)) = row_keys (o_table st)"
    using assms(1) by (cases s; simp add: settleTask_def orch_inv_def chats_match_ops)+
  moreover note int_length_remove1 [OF assms(2)]
  moreover have "o_running (settleTask now s item st) = remove1 item ?r"
      "o_settled (settleTask now s item st) = o_settled st @ [item]"
      "o_activeTasks (settleTask now s item st) = o_activeTasks st"
      "o_processingCount (settleTask now s item st) = o_processingCount st"
    by (simp_all add: settleTask_def)
  ultimately show ?thesis
    using assms(1) set_remove1_subset [of item ?r] unfolding orch_inv_def by (simp add: subset_iff)
qed

lemma inv_finish:
  assumes "orch_inv tie st" "item \<in> set (o_settled st)"
  shows "orch_inv tie (finishTask item st)"
proof -
  have "c \<in> item_chat ` (set (o_running st) \<union> set (remove1 item (o_settled st)))"
    if "js_has (o_activeTasks st) c" "c \<noteq> item_chat item" for c
  proof -
    obtain i where "i \<in> set (o_running st) \<union> set (o_settled st)" "c = item_chat i"
      using assms(1) \<open>js_has (o_activeTasks st) c\<close> unfolding orch_inv_def by blast
    moreover then have "i \<noteq> item" using that(2) by blast
    ultimately show ?thesis by (auto simp: in_set_remove1)
  qed
  moreover note int_length_remove1 [OF assms(2)]
  ultimately show ?thesis
    using assms by (auto simp: orch_inv_def finishTask_def js_keys_delete)
qed

lemma orch_step_inv: "orch_step srt tie maxC st st' \<Longrightarrow> orch_inv tie st \<Longrightarrow> orch_inv tie st'"
proof (induction rule: orch_step.induct)
  case (step_notify c st)
  then have "orch_inv tie (st\<lparr>o_notified := remove1 c (o_notified st)\<rparr>)" by (simp add: orch_inv_def)
  then show ?case by (simp add: onNotify_def inv_onNewMessage)
next
  case (step_stop st)
  then show ?case by (simp add: orch_inv_def)
qed (simp_all add: inv_submit inv_dequeue inv_settle inv_finish inv_phase inv_fold subscribe_def scanPending_def drainPendingMessages_def)

lemma inv_start:
  assumes "tie_ok tie" "table_wf tbl" "chats_match tbl"
  shows "orch_inv tie (orch_start now tbl)"
proof -
  have "table_wf (recoverStuckMessages now tbl)"
    unfolding recoverStuckMessages_def using assms(2) by (intro table_wf_update) simp_all
  then show ?thesis
    using assms by (simp add: orch_inv_def orch_start_def table_queue.holding_def queue_ready_def chats_match_ops)
qed

lemma reachable_inv:
  "orch_reachable srt tie maxC st0 st \<Longrightarrow> orch_inv tie st0 \<Longrightarrow> orch_inv tie st"
  by (induction rule: orch_reachable.induct) (auto intro: orch_step_inv)

section \<open>No stranded message\<close>

text \<open>The chats something is still going to look for messages of; before the scan, that is every chat.\<close>

definition scanned :: "Orch \<Rightarrow> string set" where
  "scanned st = (case o_phase st of Scanned cs \<Rightarrow> set cs | Drained \<Rightarrow> {} | _ \<Rightarrow> UNIV)"

definition attended :: "Orch \<Rightarrow> string set" where
  "attended st = set (o_notified st) \<union> waiting_chat ` set (o_waiting st) \<union>
     item_chat ` set (o_running st) \<union> item_chat ` set (o_settled st) \<union> scanned st"

definition served :: "Orch \<Rightarrow> bool" where
  "served st \<longleftrightarrow> o_refused st \<or> o_stopping st \<or> (\<forall>c. pending_ids (o_table st) c \<noteq> {} \<longrightarrow> c \<in> attended st)"

lemma scanned_update [simp]:
  "scanned (st\<lparr>o_table := t\<rparr>) = scanned st" "scanned (st\<lparr>o_notified := n\<rparr>) = scanned st" "scanned (st\<lparr>o_waiting := w\<rparr>) = scanned st"
  "scanned (st\<lparr>o_running := r\<rparr>) = scanned st" "scanned (st\<lparr>o_settled := e\<rparr>) = scanned st" "scanned (st\<lparr>o_refused := b\<rparr>) = scanned st"
  "scanned (st\<lparr>o_activeTasks := a\<rparr>) = scanned st" "scanned (st\<lparr>o_processingCount := i\<rparr>) = scanned st" "scanned (st\<lparr>o_stopping := p\<rparr>) = scanned st"
  by (simp_all add: scanned_def)

lemma servedD: "served st \<Longrightarrow> \<not> o_refused st \<Longrightarrow> \<not> o_stopping st \<Longrightarrow> pending_ids (o_table st) c \<noteq> {} \<Longrightarrow> c \<in> attended st"
  by (simp add: served_def)

lemma image_remove1': "c \<in> f ` set xs \<Longrightarrow> c = f x \<or> c \<in> f ` set (remove1 x xs)"
proof (elim imageE)
  fix y
  assume "c = f y" "y \<in> set xs"
  then show ?thesis by (cases "y = x") auto
qed

lemma attended_onNewMessage:
  assumes "orch_inv tie st"
  shows "o_refused (onNewMessage maxC c st) \<or> insert c (attended st) \<subseteq> attended (onNewMessage maxC c st)"
proof (cases "js_has (o_activeTasks st) c")
  case True
  then have "c \<in> attended st" using assms by (auto simp: orch_inv_def attended_def)
  then show ?thesis using True by (simp add: onNewMessage_def)
next
  case False
  then show ?thesis by (auto simp: onNewMessage_def attended_def)
qed

lemma onNewMessage_same: "o_table (onNewMessage maxC c st) = o_table st" "o_stopping (onNewMessage maxC c st) = o_stopping st"
  "o_refused st \<Longrightarrow> o_refused (onNewMessage maxC c st)"
  by (simp_all add: onNewMessage_def)

lemma served_fold:
  "orch_inv tie st \<Longrightarrow>
   (\<And>c. \<not> o_refused st \<Longrightarrow> \<not> o_stopping st \<Longrightarrow> pending_ids (o_table st) c \<noteq> {} \<Longrightarrow> c \<in> set cs \<union> attended st) \<Longrightarrow>
   served (fold (onNewMessage maxC) cs st)"
proof (induction cs arbitrary: st)
  case (Cons c cs)
  let ?st = "onNewMessage maxC c st"
  have "c' \<in> set cs \<union> attended ?st" if "\<not> o_refused ?st" "\<not> o_stopping ?st" "pending_ids (o_table ?st) c' \<noteq> {}" for c'
    using Cons.prems(2) [of c'] attended_onNewMessage [OF Cons.prems(1), of maxC c] onNewMessage_same [where maxC = maxC and c = c and st = st] that by auto
  then show ?case using Cons.IH [of ?st] Cons.prems(1) by (simp add: inv_onNewMessage)
next
  case Nil
  then show ?case unfolding served_def by auto
qed

lemma served_onNewMessage:
  "orch_inv tie st \<Longrightarrow> (\<And>c. \<not> o_refused st \<Longrightarrow> \<not> o_stopping st \<Longrightarrow> pending_ids (o_table st) c \<noteq> {} \<Longrightarrow> c = c0 \<or> c \<in> attended st) \<Longrightarrow>
   served (onNewMessage maxC c0 st)"
  using served_fold [of tie st "[c0]" maxC] by simp

lemma pendingChatIds_all: "(\<And>cs. set (srt cs) = set cs) \<Longrightarrow> pending_ids tbl c \<noteq> {} \<Longrightarrow> c \<in> set (pendingChatIds srt tbl)"
  by (auto simp: pendingChatIds_def pending_ids_def)

lemma served_drain:
  assumes "orch_inv tie st" "served st" "o_phase st = Scanned cs"
  shows "served (drainPendingMessages maxC cs st)"
  unfolding drainPendingMessages_def
proof (rule served_fold [of tie])
  show "orch_inv tie (st\<lparr>o_phase := Drained\<rparr>)" using assms(1) by (simp add: inv_phase)
  fix c
  assume "\<not> o_refused (st\<lparr>o_phase := Drained\<rparr>)" "\<not> o_stopping (st\<lparr>o_phase := Drained\<rparr>)" "pending_ids (o_table (st\<lparr>o_phase := Drained\<rparr>)) c \<noteq> {}"
  then have "c \<in> attended st" using servedD [OF assms(2)] by simp
  then show "c \<in> set cs \<union> attended (st\<lparr>o_phase := Drained\<rparr>)" using assms(3) by (auto simp: attended_def scanned_def)
qed

lemma pending_ids_submit:
  "pending_ids (submit_message (m, k) now tbl) c \<noteq> {} \<Longrightarrow> pending_ids tbl c \<noteq> {} \<or> c = im_userId m"
  by (auto simp: pending_ids_def submit_message_def insert_row_def)

lemma served_submit: "served st \<Longrightarrow> served (submitMessage m k now st)"
proof -
  assume s: "served st"
  have "insert (im_userId m) (attended st) \<subseteq> attended (submitMessage m k now st)"
    by (auto simp: attended_def submitMessage_def) (simp add: scanned_def)
  moreover have "o_table (submitMessage m k now st) = submit_message (m, k) now (o_table st)"
      "o_refused (submitMessage m k now st) = o_refused st" "o_stopping (submitMessage m k now st) = o_stopping st"
    by (simp_all add: submitMessage_def)
  ultimately show ?thesis
    using servedD [OF s] pending_ids_submit [of m k now "o_table st"] unfolding served_def by (metis insert_iff subsetD)
qed

lemma served_dequeue:
  assumes inv: "orch_inv tie st" and s: "served st"
  shows "served (resumeDequeue tie now w st)"
proof (cases "dequeueForChat tie (waiting_chat w) now (o_table st)")
  case (Pair res tbl)
  let ?st = "resumeDequeue tie now w st"
  have flags: "o_refused ?st = o_refused st" "o_stopping ?st = o_stopping st" "o_table ?st = tbl"
    "o_notified ?st = o_notified st" "o_waiting ?st = remove1 w (o_waiting st)" "o_settled ?st = o_settled st"
    "set (o_running st) \<subseteq> set (o_running ?st)" "scanned ?st = scanned st"
    using Pair by (auto simp: resumeDequeue_def processQueueItem_def split: option.splits)
  have att: "c \<in> attended ?st" if "c \<in> attended st" "c \<noteq> waiting_chat w" for c
    using that flags(7) image_remove1' [of c waiting_chat "o_waiting st" w] unfolding attended_def flags(4-6,8) by blast
  show ?thesis
  proof (cases res)
    case None
    then have "tbl = o_table st \<and> pending_ids (o_table st) (waiting_chat w) = {}"
      using dequeueForChat_None [OF inv_ready [OF inv]] Pair by blast
    then show ?thesis using servedD [OF s] att unfolding served_def flags(1-3) by metis
  next
    case (Some item)
    note deq = Pair [unfolded Some]
    have "item_chat item = waiting_chat w"
      using dequeueForChat_chat [OF inv_ready [OF inv] _ deq] inv by (simp add: orch_inv_def)
    then have "waiting_chat w \<in> attended ?st"
      using deq by (auto simp: resumeDequeue_def processQueueItem_def attended_def)
    moreover have "pending_ids tbl c \<noteq> {} \<Longrightarrow> pending_ids (o_table st) c \<noteq> {}" for c
      using dequeueForChat_Some [OF inv_ready [OF inv] deq] by auto
    ultimately show ?thesis using servedD [OF s] att unfolding served_def flags(1-3) by metis
  qed
qed

lemma served_settle:
  assumes inv: "orch_inv tie st" and s: "served st" and item: "item \<in> set (o_running st)"
  shows "served (settleTask now t item st)"
proof -
  let ?st = "settleTask now t item st"
  have key: "(qi_id item, item_chat item, qi_message item) \<in> row_keys (o_table st)"
    using inv item by (simp add: orch_inv_def)
  have wf: "table_wf (o_table st)" using inv_ready [OF inv] by (simp add: queue_ready_def)
  have own: "c = item_chat item" if "qi_id item \<in> pending_ids (o_table ?st) c" for c
  proof -
    have "row_keys (o_table ?st) = row_keys (o_table st)" by (cases t) (simp_all add: settleTask_def)
    then have "\<exists>p. (qi_id item, c, p) \<in> row_keys (o_table st)"
      using that unfolding pending_ids_def row_keys_def row_key_def by (smt (verit) imageE image_eqI mem_Collect_eq)
    then show ?thesis
      using key wf by (auto simp: row_keys_def row_key_def dest: table_wf_unique)
  qed
  have "pending_ids (o_table ?st) c - {qi_id item} = pending_ids (o_table st) c - {qi_id item}" for c
    using table_queue.failed_job [OF inv_ready [OF inv]] table_queue.done_job [OF inv_ready [OF inv]]
    by (cases t) (auto simp: settleTask_def)
  then have "pending_ids (o_table ?st) c \<noteq> {} \<Longrightarrow> c = item_chat item \<or> pending_ids (o_table st) c \<noteq> {}" for c
    using own [of c] by blast
  moreover have "c \<in> attended ?st" if "c \<in> attended st \<or> c = item_chat item" for c
    using that image_remove1' [of c item_chat "o_running st" item] by (auto simp: attended_def settleTask_def)
  moreover have "o_refused ?st = o_refused st" "o_stopping ?st = o_stopping st" by (simp_all add: settleTask_def)
  ultimately show ?thesis using servedD [OF s] unfolding served_def by metis
qed

lemma served_finish:
  assumes s: "served st"
  shows "served (finishTask item st)"
proof -
  have "c \<in> attended (finishTask item st)" if "c \<in> attended st" "\<not> o_stopping st" for c
    using that image_remove1' [of c item_chat "o_settled st" item] by (auto simp: attended_def finishTask_def)
  moreover have "o_refused (finishTask item st) = o_refused st" "o_stopping (finishTask item st) = o_stopping st"
      "o_table (finishTask item st) = o_table st" by (simp_all add: finishTask_def)
  ultimately show ?thesis using servedD [OF s] unfolding served_def by metis
qed

lemma orch_step_served:
  assumes "\<And>cs. set (srt cs) = set cs"
  shows "orch_step srt tie maxC st st' \<Longrightarrow> orch_inv tie st \<Longrightarrow> served st \<Longrightarrow> served st'"
proof (induction rule: orch_step.induct)
  case (step_subscribe st)
  then show ?case by (simp add: served_def attended_def scanned_def subscribe_def)
next
  case (step_scan st)
  then show ?case using pendingChatIds_all [OF assms] by (simp add: served_def attended_def scanned_def scanPending_def)
next
  case (step_drain st cs)
  then show ?case using served_drain by blast
next
  case (step_notify c st)
  let ?st = "st\<lparr>o_notified := remove1 c (o_notified st)\<rparr>"
  have "orch_inv tie ?st" using step_notify by (simp add: orch_inv_def)
  moreover have "c' \<in> attended ?st" if "c' \<noteq> c" "c' \<in> attended st" for c'
    using that by (auto simp: attended_def in_set_remove1)
  ultimately have "served (onNewMessage maxC c ?st)"
    using servedD [OF step_notify(3)] by (intro served_onNewMessage [of tie]) (simp_all, blast)
  then show ?case by (simp add: onNotify_def) (simp add: served_def)
next
  case (step_stop st)
  then show ?case by (simp add: served_def)
qed (simp_all add: served_submit served_dequeue served_settle served_finish)

lemma served_start: "served (orch_start now tbl)"
  by (simp add: served_def attended_def scanned_def orch_start_def)

lemma reachable_served:
  "orch_reachable srt tie maxC st0 st \<Longrightarrow> (\<And>cs. set (srt cs) = set cs) \<Longrightarrow> orch_inv tie st0 \<Longrightarrow> served st0 \<Longrightarrow> served st"
  by (induction rule: orch_reachable.induct) (auto intro: orch_step_served reachable_inv)

text \<open>
  C4. No queue item is ever in two tasks: in every interleaving of notifications, dequeues,
  settlements and drains, during the start and after it, from any table a previous run left, the items of the running tasks are
  pairwise different and their rows are marked as processing; and the processing counter equals the
  number of tasks.
\<close>

theorem no_item_processed_twice:
  assumes "orch_reachable srt tie maxConcurrent (orch_start now tbl) st"
    and "tie_ok tie" "table_wf tbl" "chats_match tbl"
  shows "distinct (map qi_id (o_running st)) \<and>
    (\<forall>item \<in> set (o_running st). \<exists>r \<in> set (q_rows (o_table st)). q_id r = qi_id item \<and> q_status r = Processing) \<and>
    o_processingCount st = int (length (o_running st) + length (o_settled st))"
proof -
  have "orch_inv tie st" using assms by (intro reachable_inv [OF assms(1)] inv_start)
  then have "set (map qi_id (o_running st)) \<subseteq> processing_ids (o_table st) \<and> distinct (map qi_id (o_running st)) \<and>
      o_processingCount st = int (length (o_running st) + length (o_settled st))"
    by (simp add: orch_inv_def table_queue.holding_def)
  then show ?thesis by (fastforce simp: processing_ids_def)
qed

text \<open>
  C5. No message is stranded: once \<^verbatim>\<open>start\<close> has drained the queue, and as long as the orchestrator is not stopping and has not
  turned a notification away for lack of capacity, every chat with a pending message has a notification on
  its way, code waiting to dequeue for it, or a task that will look for more when it ends. So when
  nothing is in flight, nothing is pending.
\<close>

theorem no_stranded_message:
  assumes "orch_reachable srt tie maxConcurrent (orch_start now tbl) st"
    and "tie_ok tie" "table_wf tbl" "chats_match tbl" "\<And>cs. set (srt cs) = set cs"
    and "o_phase st = Drained" "\<not> o_refused st" "\<not> o_stopping st"
    and "r \<in> set (q_rows (o_table st))" "q_status r = Pending"
  shows "q_chat_id r \<in> set (o_notified st) \<or>
    (\<exists>w \<in> set (o_waiting st). waiting_chat w = q_chat_id r) \<or>
    (\<exists>item \<in> set (o_running st) \<union> set (o_settled st). item_chat item = q_chat_id r)"
proof -
  have "served st"
    using assms(2-5) by (intro reachable_served [OF assms(1)] inv_start served_start) auto
  moreover have "pending_ids (o_table st) (q_chat_id r) \<noteq> {}" using assms(9,10) by (auto simp: pending_ids_def)
  ultimately have "q_chat_id r \<in> attended st" using assms(7,8) by (intro servedD)
  moreover have "scanned st = {}" using assms(6) by (simp add: scanned_def)
  ultimately show ?thesis unfolding attended_def Un_iff image_iff bex_Un by (metis empty_iff)
qed

section \<open>What the guards do not give\<close>

text \<open>Two messages \<open>a\<close> and \<open>b\<close> of chat \<open>c\<close>, one of chat \<open>d\<close>, and a capacity of one task.\<close>

definition msg :: "string \<Rightarrow> string \<Rightarrow> InboundMessage" where
  "msg i chat = sample_message\<lparr>im_id := i, im_userId := chat\<rparr>"

definition race_start :: Orch where
  "race_start = drainPendingMessages 1 [] (scanPending id (subscribe (orch_start 0 emptyTable)))"

definition race_notified :: Orch where
  "race_notified = submitMessage (msg ''b'' ''c'') 3 2 (submitMessage (msg ''a'' ''c'') 3 1 race_start)"

definition notify_next :: "string \<Rightarrow> Orch \<Rightarrow> Orch" where
  "notify_next c st = onNotify 1 c (st\<lparr>o_notified := remove1 c (o_notified st)\<rparr>)"

definition race_waiting :: Orch where
  "race_waiting = notify_next ''c'' (notify_next ''c'' race_notified)"

definition race_end :: Orch where
  "race_end = resumeDequeue hd 4 (Dequeue_new ''c'') (resumeDequeue hd 3 (Dequeue_new ''c'') race_waiting)"

lemmas orch_eval = orch_start_def subscribe_def scanPending_def drainPendingMessages_def
  recoverStuckMessages_def emptyTable_def update_rows_def submitMessage_def submit_message_def
  insert_row_def msg_def sample_message_def notify_next_def onNotify_def onNewMessage_def
  resumeDequeue_def dequeueForChat_def dequeue_where_def oldest_rows_def rowToItem_def
  processQueueItem_def item_chat_def settleTask_def finishTask_def acknowledge_def Let_def

lemma race_start_eval: "race_start = \<lparr>o_table = \<lparr>q_rows = [], q_identity = 1\<rparr>, o_activeTasks = [], o_processingCount = 0, o_stopping = False,
     o_notified = [], o_waiting = [], o_running = [], o_settled = [], o_refused = False, o_phase = Drained\<rparr>"
  by (simp add: race_start_def orch_eval)

lemma race_notified_eval:
  "o_notified race_notified = [''c'', ''c'']" "o_activeTasks race_notified = []" "o_waiting race_notified = []"
  "o_running race_notified = []" "\<not> o_stopping race_notified"
  "q_rows (o_table race_notified) =
    [(sample_row 1 1)\<lparr>q_message_id := ''a'', q_payload := msg ''a'' ''c''\<rparr>,
     (sample_row 2 2)\<lparr>q_message_id := ''b'', q_payload := msg ''b'' ''c''\<rparr>]"
  by (simp_all add: race_notified_def race_start_eval orch_eval sample_row_def)

lemma race_waiting_eval:
  "o_waiting race_waiting = [Dequeue_new ''c'', Dequeue_new ''c'']" "o_running race_waiting = []"
  "o_table race_waiting = o_table race_notified" "o_notified race_waiting = []"
  by (simp_all add: race_waiting_def notify_next_def onNotify_def onNewMessage_def race_notified_eval)

lemma race_end_eval: "map (\<lambda>i. (qi_id i, item_chat i)) (o_running race_end) = [(1, ''c''), (2, ''c'')]"
  by (simp add: race_end_def resumeDequeue_def dequeueForChat_def dequeue_where_def race_waiting_eval
      race_notified_eval oldest_rows_def Let_def update_rows_def sample_row_def rowToItem_def
      processQueueItem_def item_chat_def msg_def sample_message_def)

abbreviation reach1 :: "Orch \<Rightarrow> bool" where
  "reach1 \<equiv> orch_reachable id hd 1 (orch_start 0 emptyTable)"

lemma reach_race_start: "reach1 race_start"
proof -
  have "reach1 (subscribe (orch_start 0 emptyTable))"
    by (rule reach_step [OF reach_init step_subscribe]) (simp add: orch_start_def)
  then have "reach1 (scanPending id (subscribe (orch_start 0 emptyTable)))"
    by (rule reach_step [OF _ step_scan]) (simp add: subscribe_def)
  then show ?thesis unfolding race_start_def
    by (rule reach_step [OF _ step_drain]) (simp add: orch_eval pendingChatIds_def emptyTable_def recoverStuckMessages_def update_rows_def)
qed

lemma reach_submit: "reach1 st \<Longrightarrow> reach1 (submitMessage m k now st)"
  by (rule reach_step) (auto intro: step_submit)

lemma reach_notify: "reach1 st \<Longrightarrow> c \<in> set (o_notified st) \<Longrightarrow> reach1 (notify_next c st)"
  unfolding notify_next_def by (rule reach_step) (auto intro: step_notify)

lemma reach_dequeue: "reach1 st \<Longrightarrow> w \<in> set (o_waiting st) \<Longrightarrow> reach1 (resumeDequeue hd now w st)"
  by (rule reach_step) (auto intro: step_dequeue)

lemma reach_settle: "reach1 st \<Longrightarrow> item \<in> set (o_running st) \<Longrightarrow> reach1 (settleTask now s item st)"
  by (rule reach_step) (auto intro: step_settle)

lemma reach_finish: "reach1 st \<Longrightarrow> item \<in> set (o_settled st) \<Longrightarrow> reach1 (finishTask item st)"
  by (rule reach_step) (auto intro: step_finish)

lemma notified_next: "o_notified (notify_next c st) = remove1 c (o_notified st)"
  by (simp add: notify_next_def onNotify_def onNewMessage_def)

lemma reach_race_end: "reach1 race_end"
proof -
  have "reach1 race_notified"
    unfolding race_notified_def by (intro reach_submit reach_race_start)
  then have "reach1 race_waiting"
    unfolding race_waiting_def by (intro reach_notify) (simp_all add: notified_next race_notified_eval)
  moreover have "Dequeue_new ''c'' \<in> set (o_waiting (resumeDequeue hd 3 (Dequeue_new ''c'') race_waiting))"
    by (auto simp: resumeDequeue_def processQueueItem_def race_waiting_eval split: prod.split option.split)
  ultimately show ?thesis
    unfolding race_end_def by (intro reach_dequeue) (simp_all add: race_waiting_eval)
qed

text \<open>
  The guards of \<open>onNewMessage\<close> are not enough for one task per chat, nor for the concurrency
  limit: with a limit of one, two notifications for the same chat that arrive before the first
  dequeue returns lead to two tasks of that chat running at once.
\<close>

theorem chat_tasks_can_overlap:
  "\<exists>st item item'. orch_reachable id hd 1 (orch_start 0 emptyTable) st \<and>
     o_running st = [item, item'] \<and> item_chat item = item_chat item' \<and> qi_id item \<noteq> qi_id item'"
proof -
  have "map (\<lambda>i. (qi_id i, item_chat i)) (o_running race_end) = [(1, ''c''), (2, ''c'')]" by (rule race_end_eval)
  then obtain item item' where "o_running race_end = [item, item']" "qi_id item = 1" "qi_id item' = 2"
      "item_chat item = ''c''" "item_chat item' = ''c''"
    by (auto simp: map_eq_Cons_conv)
  then show ?thesis using reach_race_end by (intro exI [of _ race_end] exI [of _ item] exI [of _ item']) simp
qed

text \<open>Chat \<open>c\<close> runs its task while the notification of chat \<open>d\<close> is refused.\<close>

definition refusal_running :: Orch where
  "refusal_running = resumeDequeue hd 2 (Dequeue_new ''c'') (notify_next ''c'' (submitMessage (msg ''a'' ''c'') 3 1 race_start))"

definition refusal_end :: Orch where
  "refusal_end =
     (let st = notify_next ''d'' (submitMessage (msg ''b'' ''d'') 3 3 refusal_running);
          item = hd (o_running st)
      in resumeDequeue hd 5 (Dequeue_drain ''c'') (finishTask item (settleTask 4 Acknowledged item st)))"

definition refusal_item :: QueuedItem where
  "refusal_item = \<lparr>qi_id = 1, qi_message = msg ''a'' ''c'', qi_status = Processing, qi_attempts = 1,
     qi_maxAttempts = 3, qi_createdAt = 1, qi_updatedAt = 2, qi_error = None\<rparr>"

lemma refusal_running_eval:
  "refusal_running = \<lparr>o_table = \<lparr>q_rows = [(sample_row 1 1)\<lparr>q_message_id := ''a'', q_payload := msg ''a'' ''c'',
       q_status := Processing, q_attempts := 1, q_updated_at := 2\<rparr>], q_identity = 2\<rparr>,
     o_activeTasks = [(''c'', \<lparr>at_queueId = 1, at_chatId = ''c'', at_channel = Telegram, at_startedAt = 2\<rparr>)],
     o_processingCount = 1, o_stopping = False, o_notified = [], o_waiting = [],
     o_running = [refusal_item], o_settled = [], o_refused = False, o_phase = Drained\<rparr>"
  by (simp add: refusal_running_def race_start_eval orch_eval sample_row_def refusal_item_def)

lemma refusal_mid_eval:
  "notify_next ''d'' (submitMessage (msg ''b'' ''d'') 3 3 refusal_running) =
    refusal_running\<lparr>o_refused := True, o_table := \<lparr>q_rows = q_rows (o_table refusal_running) @
      [(sample_row 2 3)\<lparr>q_message_id := ''b'', q_chat_id := ''d'', q_payload := msg ''b'' ''d''\<rparr>], q_identity = 3\<rparr>\<rparr>"
  by (simp add: refusal_running_eval notify_next_def onNotify_def onNewMessage_def submitMessage_def
      submit_message_def insert_row_def sample_row_def msg_def sample_message_def)

lemma refusal_end_eval:
  "o_notified refusal_end = []" "o_waiting refusal_end = []" "o_running refusal_end = []"
  "o_settled refusal_end = []" "\<not> o_stopping refusal_end"
  "map (\<lambda>r. (q_chat_id r, q_status r)) (q_rows (o_table refusal_end)) = [(''c'', Completed), (''d'', Pending)]"
  unfolding refusal_end_def Let_def refusal_mid_eval
  by (simp_all add: refusal_running_eval settleTask_def acknowledge_def
      update_rows_def finishTask_def item_chat_def resumeDequeue_def dequeueForChat_def dequeue_where_def
      refusal_item_def sample_row_def msg_def sample_message_def js_delete_def)

lemma reach_refusal_end: "reach1 refusal_end"
proof -
  let ?n = "notify_next ''c'' (submitMessage (msg ''a'' ''c'') 3 1 race_start)"
  have "reach1 (submitMessage (msg ''a'' ''c'') 3 1 race_start)"
    by (intro reach_submit reach_race_start)
  moreover have "''c'' \<in> set (o_notified (submitMessage (msg ''a'' ''c'') 3 1 race_start))"
    by (simp add: submitMessage_def msg_def race_start_eval)
  ultimately have "reach1 ?n" by (rule reach_notify)
  moreover have "Dequeue_new ''c'' \<in> set (o_waiting ?n)"
    by (simp add: race_start_eval orch_eval)
  ultimately have "reach1 refusal_running" unfolding refusal_running_def by (rule reach_dequeue)
  then have mid: "reach1 (notify_next ''d'' (submitMessage (msg ''b'' ''d'') 3 3 refusal_running))"
    by (intro reach_notify reach_submit) (simp_all add: submitMessage_def msg_def refusal_running_eval)
  have h: "hd (o_running (notify_next ''d'' (submitMessage (msg ''b'' ''d'') 3 3 refusal_running))) = refusal_item"
    "refusal_item \<in> set (o_running (notify_next ''d'' (submitMessage (msg ''b'' ''d'') 3 3 refusal_running)))"
    unfolding refusal_mid_eval by (simp_all add: refusal_running_eval)
  have "reach1 (finishTask refusal_item (settleTask 4 Acknowledged refusal_item
      (notify_next ''d'' (submitMessage (msg ''b'' ''d'') 3 3 refusal_running))))" (is "reach1 ?f")
    using mid h(2) by (intro reach_finish reach_settle) (simp_all add: settleTask_def)
  moreover have "Dequeue_drain ''c'' \<in> set (o_waiting ?f)"
    unfolding refusal_mid_eval
    by (simp add: finishTask_def settleTask_def refusal_running_eval item_chat_def refusal_item_def msg_def
        sample_message_def)
  ultimately show ?thesis unfolding refusal_end_def Let_def h(1) by (rule reach_dequeue)
qed

text \<open>
  A refused notification strands its message: with a limit of one there is a run that ends
  with no task, no notification and no dequeue under way, the orchestrator not stopping, and a
  message still pending. It stays there until its chat sends another one or the process restarts.
\<close>

theorem refused_notification_strands_message:
  "\<exists>st. orch_reachable id hd 1 (orch_start 0 emptyTable) st \<and> \<not> o_stopping st \<and>
     o_notified st = [] \<and> o_waiting st = [] \<and> o_running st = [] \<and> o_settled st = [] \<and>
     (\<exists>r \<in> set (q_rows (o_table st)). q_status r = Pending)"
proof -
  have "(''d'', Pending) \<in> set (map (\<lambda>r. (q_chat_id r, q_status r)) (q_rows (o_table refusal_end)))"
    unfolding refusal_end_eval(6) by simp
  then have "\<exists>r \<in> set (q_rows (o_table refusal_end)). q_status r = Pending" by force
  then show ?thesis using reach_refusal_end refusal_end_eval(1-5) by blast
qed

text \<open>The positive properties at the state of the first race.\<close>

lemma empty_table_ok: "table_wf emptyTable" "chats_match emptyTable"
  by (simp_all add: table_wf_def chats_match_def emptyTable_def)

theorem no_item_processed_twice_witness:
  "distinct (map qi_id (o_running race_end)) \<and> map qi_id (o_running race_end) = [1, 2] \<and>
    o_processingCount race_end = int (length (o_running race_end) + length (o_settled race_end))"
proof -
  have "map qi_id (o_running race_end) = map fst (map (\<lambda>i. (qi_id i, item_chat i)) (o_running race_end))" by simp
  then have "map qi_id (o_running race_end) = [1, 2]" unfolding race_end_eval by simp
  then show ?thesis
    using no_item_processed_twice [OF reach_race_end tie_ok_hd empty_table_ok] by simp
qed

lemma reach_race_notified: "reach1 race_notified"
  unfolding race_notified_def by (intro reach_submit reach_race_start)

theorem no_stranded_message_witness:
  "''c'' \<in> set (o_notified race_notified) \<or>
    (\<exists>w \<in> set (o_waiting race_notified). waiting_chat w = ''c'') \<or>
    (\<exists>item \<in> set (o_running race_notified) \<union> set (o_settled race_notified). item_chat item = ''c'')"
proof -
  define r where "r = (sample_row 1 1)\<lparr>q_message_id := ''a'', q_payload := msg ''a'' ''c''\<rparr>"
  have "r \<in> set (q_rows (o_table race_notified))" by (simp add: race_notified_eval r_def)
  moreover have "q_status r = Pending" "q_chat_id r = ''c''" by (simp_all add: r_def sample_row_def)
  moreover have "\<not> o_refused race_notified" "o_phase race_notified = Drained"
    by (simp_all add: race_notified_def race_start_eval submitMessage_def)
  ultimately show ?thesis
    using no_stranded_message [OF reach_race_notified tie_ok_hd empty_table_ok, of r] race_notified_eval(5) by simp
qed

end
