(* ===== verification/Queue_Refinement.thy ===== *)
theory Queue_Refinement
  imports Message_Queue
begin

text \<open>
  What the queue of \<^verbatim>\<open>src/src/orchestrator/message-queue.ts\<close> promises, as an abstract machine: one
  first-in first-out queue of message ids per chat. The table implements it as long as the clock gives
  every message a later time than the one before: every operation of the table is an operation on the
  abstract queues.
\<close>

section \<open>The abstract queues\<close>

type_synonym chat_queues = "string \<Rightarrow> int list"

text \<open>An id that comes back takes its place by age, not the end.\<close>

definition put_back :: "int \<Rightarrow> string \<Rightarrow> chat_queues \<Rightarrow> chat_queues" where
  "put_back i c f = f(c := insort i (f c))"

definition drop_id :: "int \<Rightarrow> chat_queues \<Rightarrow> chat_queues" where
  "drop_id i f = (\<lambda>c. filter (\<lambda>j. j \<noteq> i) (f c))"

definition put_end :: "int \<Rightarrow> string \<Rightarrow> chat_queues \<Rightarrow> chat_queues" where
  "put_end i c f = f(c := f c @ [i])"

fun list_head :: "'a list \<Rightarrow> 'a option" where
  "list_head [] = None"
| "list_head (x # xs) = Some x"

text \<open>The waiting messages of a chat, in the order of their rows.\<close>

definition waiting :: "QueueTable \<Rightarrow> chat_queues" where
  "waiting tbl c = map q_id (filter (\<lambda>r. q_status r = Pending \<and> q_chat_id r = c) (q_rows tbl))"

text \<open>Rows in the order of their insertion, ages and ids growing.\<close>

definition table_ordered :: "QueueTable \<Rightarrow> bool" where
  "table_ordered tbl \<longleftrightarrow>
     sorted_wrt (\<lambda>r r'. q_id r < q_id r' \<and> q_created_at r < q_created_at r') (q_rows tbl) \<and>
     (\<forall>r \<in> set (q_rows tbl). q_id r < q_identity tbl)"

lemma table_ordered_wf: "table_ordered tbl \<Longrightarrow> table_wf tbl"
proof -
  assume o: "table_ordered tbl"
  then have "sorted_wrt (<) (map q_id (q_rows tbl))"
    unfolding table_ordered_def sorted_wrt_map by (auto elim: sorted_wrt_mono_rel [rotated])
  then show "table_wf tbl" using o by (auto simp: table_wf_def table_ordered_def strict_sorted_iff)
qed

lemma table_ordered_update:
  assumes "\<And>r. q_id (f r) = q_id r" "\<And>r. q_created_at (f r) = q_created_at r" "table_ordered tbl"
  shows "table_ordered (update_rows P f tbl)"
  using assms by (auto simp: table_ordered_def update_rows_def sorted_wrt_map if_distrib cong: if_cong)

lemma waiting_sorted: "table_ordered tbl \<Longrightarrow> sorted_wrt (<) (waiting tbl c)"
  unfolding waiting_def table_ordered_def sorted_wrt_map
  by (intro sorted_wrt_filter) (auto elim: sorted_wrt_mono_rel [rotated])

lemma set_waiting: "set (waiting tbl c) = pending_ids tbl c"
  by (auto simp: waiting_def pending_ids_def)

text \<open>Two strictly sorted lists with the same elements are the same.\<close>

lemma sorted_eqI: "sorted_wrt (<) (xs :: int list) \<Longrightarrow> sorted_wrt (<) ys \<Longrightarrow> set xs = set ys \<Longrightarrow> xs = ys"
  by (rule strict_sorted_equal)

lemma sorted_insort: "sorted_wrt (<) (xs :: int list) \<Longrightarrow> i \<notin> set xs \<Longrightarrow> sorted_wrt (<) (insort i xs)"
  by (simp add: strict_sorted_iff sorted_insort distinct_insort)

section \<open>Operations\<close>

text \<open>The oldest waiting message of a chat is the first of its queue.\<close>

lemma oldest_is_first:
  assumes "table_ordered tbl" "r \<in> set (q_rows tbl)" "q_status r = Pending" "q_chat_id r = c"
    and "\<And>r'. r' \<in> set (q_rows tbl) \<Longrightarrow> q_status r' = Pending \<Longrightarrow> q_chat_id r' = c \<Longrightarrow> q_created_at r \<le> q_created_at r'"
  shows "list_head (waiting tbl c) = Some (q_id r)"
proof -
  let ?w = "filter (\<lambda>r. q_status r = Pending \<and> q_chat_id r = c) (q_rows tbl)"
  have s: "sorted_wrt (\<lambda>r r'. q_id r < q_id r' \<and> q_created_at r < q_created_at r') ?w"
    using assms(1) by (auto simp: table_ordered_def intro: sorted_wrt_filter)
  have r: "r \<in> set ?w" using assms(2-4) by simp
  then obtain x xs where w: "?w = x # xs" by (cases ?w) auto
  have "x \<in> set ?w" unfolding w by simp
  then have "x \<in> set (q_rows tbl)" "q_status x = Pending" "q_chat_id x = c" by simp_all
  then have "q_created_at r \<le> q_created_at x" using assms(5) by blast
  then have "r = x" using s r unfolding w by fastforce
  then show ?thesis by (simp add: waiting_def w)
qed

lemma waiting_update_one:
  assumes "table_ordered tbl" "\<And>r. q_id (f r) = q_id r" "\<And>r. q_chat_id (f r) = q_chat_id r"
    "\<And>r. q_created_at (f r) = q_created_at r"
  shows "set (waiting (update_rows (\<lambda>r. q_id r = j) f tbl) c) =
      (set (waiting tbl c) - {j}) \<union> {i. i = j \<and> (\<exists>r \<in> set (q_rows tbl). q_id r = j \<and> q_chat_id r = c \<and> q_status (f r) = Pending)}"
  unfolding set_waiting by (auto simp: update_one_ids(1) [OF assms(2,3)] split: if_splits)

definition claim :: "time \<Rightarrow> QueueRow \<Rightarrow> QueueTable \<Rightarrow> QueueTable" where
  "claim now r tbl = update_rows (\<lambda>r'. q_id r' = q_id r)
     (\<lambda>r. r\<lparr>q_status := Processing, q_attempts := q_attempts r + 1, q_updated_at := now\<rparr>) tbl"

lemma waiting_claim:
  assumes "table_ordered tbl" "r \<in> set (q_rows tbl)" "q_status r = Pending" "q_chat_id r = c"
    and "\<And>r'. r' \<in> set (q_rows tbl) \<Longrightarrow> q_status r' = Pending \<Longrightarrow> q_chat_id r' = c \<Longrightarrow> q_created_at r \<le> q_created_at r'"
  shows "waiting (claim now r tbl) = (waiting tbl)(c := tl (waiting tbl c))" "table_ordered (claim now r tbl)"
proof -
  let ?f = "\<lambda>r. r\<lparr>q_status := Processing, q_attempts := q_attempts r + 1, q_updated_at := now\<rparr>"
  show o: "table_ordered (claim now r tbl)" unfolding claim_def using assms(1) by (intro table_ordered_update) simp_all
  have "list_head (waiting tbl c) = Some (q_id r)" by (rule oldest_is_first [OF assms(1-4)]) (rule assms(5))
  then obtain rest where w: "waiting tbl c = q_id r # rest" by (cases "waiting tbl c") simp_all
  have "waiting (claim now r tbl) c' = ((waiting tbl)(c := tl (waiting tbl c))) c'" for c'
  proof (rule sorted_eqI [OF waiting_sorted [OF o]])
    show "sorted_wrt (<) (((waiting tbl)(c := tl (waiting tbl c))) c')"
      using waiting_sorted [OF assms(1)] waiting_sorted [OF assms(1), of c] w by simp
    have n: "q_id r \<notin> set (waiting tbl c')" if "c' \<noteq> c"
      using that assms(2,4) table_wf_unique [OF table_ordered_wf [OF assms(1)]] by (auto simp: set_waiting pending_ids_iff)
    have "set (waiting (claim now r tbl) c') = set (waiting tbl c') - {q_id r}"
      unfolding claim_def by (subst waiting_update_one [OF assms(1)]) simp_all
    then show "set (waiting (claim now r tbl) c') = set (((waiting tbl)(c := tl (waiting tbl c))) c')"
      using n w waiting_sorted [OF assms(1), of c] by auto
  qed
  then show "waiting (claim now r tbl) = (waiting tbl)(c := tl (waiting tbl c))" by (rule ext)
qed

lemma waiting_take:
  assumes "tie_ok tie" "table_ordered tbl"
  shows "map_option qi_id (fst (dequeueForChat tie c now tbl)) = list_head (waiting tbl c) \<and>
    waiting (snd (dequeueForChat tie c now tbl)) = (waiting tbl)(c := tl (waiting tbl c)) \<and>
    table_ordered (snd (dequeueForChat tie c now tbl))"
proof (cases rule: dequeue_where_cases [OF assms(1), of "\<lambda>r. q_chat_id r = c" tbl now])
  case 1
  then have "waiting tbl c = []" by (simp add: waiting_def)
  then show ?thesis using 1 assms(2) by (simp add: dequeueForChat_def fun_upd_idem)
next
  case (2 r)
  have h: "list_head (waiting tbl c) = Some (q_id r)" by (rule oldest_is_first [OF assms(2) 2(1-3)]) (rule 2(4))
  have k1: "waiting (claim now r tbl) = (waiting tbl)(c := tl (waiting tbl c))"
    by (rule waiting_claim(1) [OF assms(2) 2(1-3)]) (rule 2(4))
  have k2: "table_ordered (claim now r tbl)" by (rule waiting_claim(2) [OF assms(2) 2(1-3)]) (rule 2(4))
  have "dequeueForChat tie c now tbl =
      (Some (rowToItem (r\<lparr>q_status := Processing, q_attempts := q_attempts r + 1, q_updated_at := now\<rparr>)), claim now r tbl)"
    unfolding dequeueForChat_def claim_def by (rule 2(5))
  then show ?thesis using h k1 k2 by (simp add: rowToItem_def)
qed

text \<open>The queues after taking the oldest message of all chats.\<close>

definition take_oldest :: "chat_queues \<Rightarrow> chat_queues \<Rightarrow> bool" where
  "take_oldest f f' \<longleftrightarrow>
     (\<forall>c. f c = []) \<and> f' = f \<or>
     (\<exists>c i is. f c = i # is \<and> (\<forall>c'. \<forall>j \<in> set (f c'). i \<le> j) \<and> f' = f(c := is))"

lemma older_lower:
  assumes "table_ordered tbl" "r \<in> set (q_rows tbl)" "r' \<in> set (q_rows tbl)" "q_created_at r \<le> q_created_at r'"
  shows "q_id r \<le> q_id r'"
proof -
  have "r = r' \<or> q_id r < q_id r' \<and> q_created_at r < q_created_at r' \<or> q_id r' < q_id r \<and> q_created_at r' < q_created_at r"
    using assms(1-3) unfolding table_ordered_def in_set_conv_nth sorted_wrt_iff_nth_less
    by (metis linorder_neqE_nat)
  then show ?thesis using assms(4) by auto
qed

lemma waiting_take_any:
  assumes "tie_ok tie" "table_ordered tbl"
  shows "take_oldest (waiting tbl) (waiting (snd (dequeue tie now tbl))) \<and> table_ordered (snd (dequeue tie now tbl))"
proof (cases rule: dequeue_where_cases [OF assms(1), of "\<lambda>r. True" tbl now])
  case 1
  then have "waiting tbl c = []" for c by (auto simp: waiting_def filter_empty_conv)
  then show ?thesis using 1 assms(2) by (simp add: dequeue_def take_oldest_def)
next
  case (2 r)
  note r = assms(2) 2(1,2) refl [of "q_chat_id r"]
  have f: "list_head (waiting tbl (q_chat_id r)) = Some (q_id r)" using 2(4) by (intro oldest_is_first [OF r]) auto
  have w: "waiting (claim now r tbl) = (waiting tbl)(q_chat_id r := tl (waiting tbl (q_chat_id r)))"
    "table_ordered (claim now r tbl)"
    using 2(4) by (intro waiting_claim [OF r]; auto)+
  have "q_id r \<le> j" if "j \<in> set (waiting tbl c)" for j c
    using that 2(4) older_lower [OF assms(2) 2(1)] by (auto simp: set_waiting pending_ids_iff)
  note low = this
  obtain rest where t: "waiting tbl (q_chat_id r) = q_id r # rest"
    using f by (cases "waiting tbl (q_chat_id r)") auto
  have "waiting (claim now r tbl) = (waiting tbl)(q_chat_id r := rest)" unfolding w(1) t by simp
  then have "take_oldest (waiting tbl) (waiting (claim now r tbl))"
    unfolding take_oldest_def using t low by blast
  then show ?thesis using 2(5) w by (simp add: dequeue_def claim_def)
qed

lemma waiting_submit:
  assumes "table_ordered tbl"
  shows "waiting (snd (insert_row now m c k tbl)) = put_end (q_identity tbl) c (waiting tbl)"
  by (rule ext) (simp add: waiting_def insert_row_def put_end_def)

lemma ordered_submit:
  assumes "table_ordered tbl" "\<And>r. r \<in> set (q_rows tbl) \<Longrightarrow> q_created_at r < now"
  shows "table_ordered (snd (insert_row now m c k tbl))"
  using assms by (force simp: table_ordered_def insert_row_def sorted_wrt_append)

lemma waiting_ack:
  assumes "table_ordered tbl"
  shows "waiting (acknowledge j now tbl) = drop_id j (waiting tbl)" "table_ordered (acknowledge j now tbl)"
proof -
  show o: "table_ordered (acknowledge j now tbl)"
    unfolding acknowledge_def using assms by (intro table_ordered_update) simp_all
  show "waiting (acknowledge j now tbl) = drop_id j (waiting tbl)"
  proof (rule ext, rule sorted_eqI [OF waiting_sorted [OF o]])
    fix c
    show "sorted_wrt (<) (drop_id j (waiting tbl) c)"
      unfolding drop_id_def using waiting_sorted [OF assms] by (rule sorted_wrt_filter)
    show "set (waiting (acknowledge j now tbl) c) = set (drop_id j (waiting tbl) c)"
      unfolding acknowledge_def by (subst waiting_update_one [OF assms]) (auto simp: drop_id_def)
  qed
qed

lemma put_back_sorted:
  assumes "table_ordered tbl" shows "sorted_wrt (<) (put_back j c (drop_id j (waiting tbl)) c')"
  using sorted_insort [OF sorted_wrt_filter [OF waiting_sorted [OF assms]], of j "\<lambda>i. i \<noteq> j" c]
    sorted_wrt_filter [OF waiting_sorted [OF assms]]
  by (simp add: put_back_def drop_id_def)

text \<open>The row of an id, and whether its message may be tried again.\<close>

definition retriable :: "int \<Rightarrow> QueueTable \<Rightarrow> string option" where
  "retriable j tbl =
     (case filter (\<lambda>r. q_id r = j) (q_rows tbl) of
        [] \<Rightarrow> None
      | r # _ \<Rightarrow> if q_attempts r < q_max_attempts r then Some (q_chat_id r) else None)"

lemma retriable_iff:
  assumes "table_ordered tbl"
  shows "retriable j tbl = Some c \<longleftrightarrow> (\<exists>r \<in> set (q_rows tbl). q_id r = j \<and> q_chat_id r = c \<and> q_attempts r < q_max_attempts r)"
proof (cases "filter (\<lambda>r. q_id r = j) (q_rows tbl)")
  case Nil
  then show ?thesis by (auto simp: retriable_def filter_empty_conv)
next
  case (Cons x xs)
  then have "x \<in> set (filter (\<lambda>r. q_id r = j) (q_rows tbl))" by simp
  then have x: "x \<in> set (q_rows tbl)" "q_id x = j" by simp_all
  have u: "r = x" if "r \<in> set (q_rows tbl)" "q_id r = j" for r
    by (rule table_wf_unique [OF table_ordered_wf [OF assms] that(1) x(1)]) (simp add: that(2) x(2))
  have "(\<exists>r \<in> set (q_rows tbl). q_id r = j \<and> q_chat_id r = c \<and> q_attempts r < q_max_attempts r) \<longleftrightarrow>
      q_chat_id x = c \<and> q_attempts x < q_max_attempts x"
    using u x by metis
  then show ?thesis using Cons by (simp add: retriable_def)
qed

lemma waiting_fail:
  assumes "table_ordered tbl"
  shows "waiting (fail_row j e now tbl) =
      (case retriable j tbl of None \<Rightarrow> drop_id j (waiting tbl) | Some c \<Rightarrow> put_back j c (drop_id j (waiting tbl)))"
    "table_ordered (fail_row j e now tbl)"
proof -
  show o: "table_ordered (fail_row j e now tbl)"
    unfolding fail_row_def using assms by (intro table_ordered_update) simp_all
  show "waiting (fail_row j e now tbl) =
      (case retriable j tbl of None \<Rightarrow> drop_id j (waiting tbl) | Some c \<Rightarrow> put_back j c (drop_id j (waiting tbl)))"
    (is "_ = ?q")
  proof (rule ext, rule sorted_eqI [OF waiting_sorted [OF o]])
    fix c
    show "sorted_wrt (<) (?q c)"
      using put_back_sorted [OF assms] sorted_wrt_filter [OF waiting_sorted [OF assms]]
      by (simp add: drop_id_def split: option.split)
    let ?f = "\<lambda>r. r\<lparr>q_status := if q_max_attempts r \<le> q_attempts r then Dead_letter else Pending, q_error := Some e, q_updated_at := now\<rparr>"
    have q: "(\<exists>r \<in> set (q_rows tbl). q_id r = j \<and> q_chat_id r = c \<and> q_status (?f r) = Pending) \<longleftrightarrow> retriable j tbl = Some c"
      unfolding retriable_iff [OF assms] by (rule bex_cong [OF refl]) (simp add: not_le)
    have "set (waiting (fail_row j e now tbl) c) = (set (waiting tbl c) - {j}) \<union> {i. i = j \<and> retriable j tbl = Some c}"
      unfolding fail_row_def waiting_update_one [OF assms, of ?f j c, simplified q, simplified] q by simp
    then show "set (waiting (fail_row j e now tbl) c) = set (?q c)"
      by (auto simp: drop_id_def put_back_def set_insort_key split: option.split)
  qed
qed


lemma waiting_purge:
  assumes "table_ordered tbl"
  shows "waiting (snd (purgeCompleted age now tbl)) = waiting tbl" "table_ordered (snd (purgeCompleted age now tbl))"
proof -
  have "filter (\<lambda>r. q_status r = Pending \<and> q_chat_id r = c) (filter (\<lambda>r. \<not> (q_status r = Completed \<and> P r)) rs) =
      filter (\<lambda>r. q_status r = Pending \<and> q_chat_id r = c) rs" for c P and rs :: "QueueRow list"
    unfolding filter_filter by (rule filter_cong) auto
  then show "waiting (snd (purgeCompleted age now tbl)) = waiting tbl"
    by (simp add: waiting_def purgeCompleted_def Let_def fun_eq_iff)
  show "table_ordered (snd (purgeCompleted age now tbl))"
    using assms by (auto simp: table_ordered_def purgeCompleted_def Let_def intro: sorted_wrt_filter)
qed

lemma waiting_update_set:
  assumes "\<And>r. q_id (f r) = q_id r" "\<And>r. q_chat_id (f r) = q_chat_id r"
  shows "i \<in> set (waiting (update_rows P f tbl) c) \<longleftrightarrow>
    (\<exists>r \<in> set (q_rows tbl). q_id r = i \<and> q_chat_id r = c \<and> q_status (if P r then f r else r) = Pending)"
  unfolding set_waiting pending_ids_iff set_update_rows bex_simps using assms by (intro bex_cong refl) auto

lemma waiting_retry:
  assumes "table_ordered tbl"
  shows "(waiting (snd (retryDeadLetter j now tbl)) = waiting tbl \<or>
      (\<exists>c. j \<notin> set (waiting tbl c) \<and> waiting (snd (retryDeadLetter j now tbl)) = put_back j c (waiting tbl))) \<and>
    table_ordered (snd (retryDeadLetter j now tbl))"
proof -
  let ?f = "\<lambda>r. r\<lparr>q_status := Pending, q_attempts := 0, q_error := None, q_updated_at := now\<rparr>"
  let ?P = "\<lambda>r. q_id r = j \<and> q_status r = Dead_letter"
  let ?t = "update_rows ?P ?f tbl"
  have o: "table_ordered ?t" using assms by (intro table_ordered_update) simp_all
  have "waiting ?t = waiting tbl \<or> (\<exists>c. j \<notin> set (waiting tbl c) \<and> waiting ?t = put_back j c (waiting tbl))"
  proof (cases "\<exists>r \<in> set (q_rows tbl). ?P r")
    case False
    then have "map (\<lambda>r. if ?P r then ?f r else r) (q_rows tbl) = q_rows tbl" by (intro map_idI) auto
    then have "?t = tbl" unfolding update_rows_def by simp
    then show ?thesis by simp
  next
    case True
    then obtain r where r: "r \<in> set (q_rows tbl)" "q_id r = j" "q_status r = Dead_letter" by blast
    have u: "r' = r" if "r' \<in> set (q_rows tbl)" "q_id r' = j" for r'
      by (rule table_wf_unique [OF table_ordered_wf [OF assms] that(1) r(1)]) (simp add: that(2) r(2))
    have n: "j \<notin> set (waiting tbl c)" for c using u r(3) by (auto simp: set_waiting pending_ids_iff)
    have "waiting ?t c = put_back j (q_chat_id r) (waiting tbl) c" for c
    proof (rule sorted_eqI [OF waiting_sorted [OF o]])
      show "sorted_wrt (<) (put_back j (q_chat_id r) (waiting tbl) c)"
        using waiting_sorted [OF assms] sorted_insort [OF waiting_sorted [OF assms] n] by (simp add: put_back_def)
      have e: "?t = update_rows (\<lambda>r. q_id r = j) ?f tbl"
      proof -
        have "(if ?P r' then ?f r' else r') = (if q_id r' = j then ?f r' else r')" if "r' \<in> set (q_rows tbl)" for r'
          using u [OF that] r(3) by (cases "q_id r' = j") simp_all
        then have "map (\<lambda>r'. if ?P r' then ?f r' else r') (q_rows tbl) = map (\<lambda>r'. if q_id r' = j then ?f r' else r') (q_rows tbl)"
          by (rule map_cong [OF refl])
        then show ?thesis unfolding update_rows_def by simp
      qed
      have q: "(\<exists>r \<in> set (q_rows tbl). q_id r = j \<and> q_chat_id r = c \<and> q_status (?f r) = Pending) \<longleftrightarrow> c = q_chat_id r"
      proof
        assume "\<exists>r' \<in> set (q_rows tbl). q_id r' = j \<and> q_chat_id r' = c \<and> q_status (?f r') = Pending"
        then obtain r' where r': "r' \<in> set (q_rows tbl)" "q_id r' = j" "q_chat_id r' = c" by blast
        show "c = q_chat_id r" using r'(3) unfolding u [OF r'(1,2)] by (rule sym)
      next
        assume "c = q_chat_id r"
        then show "\<exists>r' \<in> set (q_rows tbl). q_id r' = j \<and> q_chat_id r' = c \<and> q_status (?f r') = Pending"
          using r(1,2) by (intro bexI [of _ r]) simp_all
      qed
      have "set (waiting ?t c) = (set (waiting tbl c) - {j}) \<union> {i. i = j \<and> c = q_chat_id r}"
        unfolding e q [symmetric] by (rule waiting_update_one [OF assms]) simp_all
      then show "set (waiting ?t c) = set (put_back j (q_chat_id r) (waiting tbl) c)"
        using n by (auto simp: put_back_def set_insort_key)
    qed
    then have "waiting ?t = put_back j (q_chat_id r) (waiting tbl)" by (rule ext)
    then show ?thesis using n by blast
  qed
  then show ?thesis using o by (simp add: retryDeadLetter_def Let_def)
qed

lemma waiting_restart:
  assumes "table_ordered tbl"
  shows "set (waiting tbl c) \<subseteq> set (waiting (recoverStuckMessages now tbl) c) \<and> table_ordered (recoverStuckMessages now tbl)"
proof -
  have "table_ordered (recoverStuckMessages now tbl)"
    unfolding recoverStuckMessages_def using assms by (intro table_ordered_update) simp_all
  moreover have "set (waiting tbl c) \<subseteq> set (waiting (recoverStuckMessages now tbl) c)"
    unfolding recoverStuckMessages_def
    by (rule subsetI, subst waiting_update_set) (auto simp: set_waiting pending_ids_iff)
  ultimately show ?thesis by simp
qed

section \<open>Refinement\<close>

text \<open>What each operation may do to the queues of the chats.\<close>

fun queue_spec :: "queue_op \<Rightarrow> chat_queues \<Rightarrow> chat_queues \<Rightarrow> bool" where
  "queue_spec (OpEnqueue m k) f f' \<longleftrightarrow> (\<exists>i. (\<forall>c. \<forall>j \<in> set (f c). j < i) \<and> f' = put_end i (im_userId m) f)"
| "queue_spec OpDequeue f f' \<longleftrightarrow> take_oldest f f'"
| "queue_spec (OpDequeueForChat c) f f' \<longleftrightarrow> f' = f(c := tl (f c))"
| "queue_spec (OpAck i) f f' \<longleftrightarrow> f' = drop_id i f"
| "queue_spec (OpFail i e) f f' \<longleftrightarrow> f' = drop_id i f \<or> (\<exists>c. f' = put_back i c (drop_id i f))"
| "queue_spec (OpPurge age) f f' \<longleftrightarrow> f' = f"
| "queue_spec (OpRetry i) f f' \<longleftrightarrow> f' = f \<or> (\<exists>c. i \<notin> set (f c) \<and> f' = put_back i c f)"
| "queue_spec OpRestart f f' \<longleftrightarrow> (\<forall>c. set (f c) \<subseteq> set (f' c) \<and> sorted_wrt (<) (f' c))"

definition older_than :: "time \<Rightarrow> QueueTable \<Rightarrow> bool" where
  "older_than now tbl \<longleftrightarrow> (\<forall>r \<in> set (q_rows tbl). q_created_at r < now)"

lemma queue_simulation:
  assumes "tie_ok tie" "table_ordered tbl" "older_than now tbl"
  shows "queue_spec op (waiting tbl) (waiting (queue_apply tie (now, op) tbl)) \<and> table_ordered (queue_apply tie (now, op) tbl)"
proof (cases op)
  case (OpEnqueue m k)
  have "\<forall>c. \<forall>j \<in> set (waiting tbl c). j < q_identity tbl"
    using assms(2) by (auto simp: set_waiting pending_ids_iff table_ordered_def)
  then show ?thesis
    using OpEnqueue waiting_submit [OF assms(2)] ordered_submit [OF assms(2)] assms(3) by (auto simp: older_than_def)
next
  case (OpFail i e)
  then show ?thesis using waiting_fail [OF assms(2)] by (auto split: option.split)
next
  case OpRestart
  then show ?thesis using waiting_restart [OF assms(2)] waiting_sorted by auto
qed (use assms waiting_take waiting_take_any waiting_ack waiting_purge waiting_retry in simp_all)

lemma older_than_apply:
  assumes "tie_ok tie" "older_than now tbl" "now < later"
  shows "older_than later (queue_apply tie (now, op) tbl)"
proof -
  have u: "older_than later (update_rows P f t)" if "older_than now t" "\<And>r. q_created_at (f r) = q_created_at r" for P f t
    using that assms(3) by (force simp: older_than_def set_update_rows)
  have t: "older_than later tbl" using assms(2,3) by (force simp: older_than_def)
  have d: "older_than later (snd (dequeue_where tie P now tbl))" for P
    by (cases rule: dequeue_where_cases [OF assms(1), of P tbl now]) (simp_all add: t u assms(2))
  show ?thesis
  proof (cases op)
    case (OpEnqueue m k)
    then show ?thesis using t assms(3) by (simp add: older_than_def insert_row_def)
  next
    case (OpPurge age)
    then show ?thesis using t by (simp add: older_than_def purgeCompleted_def Let_def)
  qed (simp_all add: queue_defs u d assms(2))
qed

lemma queue_run_ordered:
  assumes "tie_ok tie"
  shows "sorted_wrt (<) (map fst ops @ [now]) \<Longrightarrow> table_ordered tbl \<Longrightarrow> list_all (\<lambda>op. older_than (fst op) tbl) (ops @ [(now, last_op)]) \<Longrightarrow>
    table_ordered (queue_run tie ops tbl) \<and> older_than now (queue_run tie ops tbl)"
proof (induction ops arbitrary: tbl)
  case (Cons op ops)
  obtain t op' where op: "op = (t, op')" by fastforce
  have "table_ordered (queue_apply tie op tbl)" using queue_simulation [OF assms] Cons.prems op by simp
  moreover have "list_all (\<lambda>op. older_than (fst op) (queue_apply tie (t, op') tbl)) (ops @ [(now, last_op)])"
    using Cons.prems op by (auto simp: list_all_iff intro!: older_than_apply [OF assms])
  ultimately show ?case using Cons op by (simp add: queue_run_def)
qed (simp add: queue_run_def)

lemma queue_run_empty_ordered:
  assumes "tie_ok tie" "sorted_wrt (<) (map fst ops @ [now])"
  shows "table_ordered (queue_run tie ops emptyTable)" "older_than now (queue_run tie ops emptyTable)"
proof -
  have "list_all (\<lambda>op. older_than (fst op) emptyTable) (ops @ [(now, OpRestart)])"
    by (simp add: list_all_iff older_than_def emptyTable_def)
  moreover have "table_ordered emptyTable" by (simp add: table_ordered_def emptyTable_def)
  ultimately show "table_ordered (queue_run tie ops emptyTable)" "older_than now (queue_run tie ops emptyTable)"
    using queue_run_ordered [OF assms] by blast+
qed

text \<open>
  C14. The table implements one first-in first-out queue per chat: after any operations at growing
  times, restarts, failures and purges included, every further operation does to the waiting messages
  what the abstract queues allow -- a submission goes to the end, a failed message comes back to its
  place by age, an acknowledged one is gone -- and taking a message of a chat returns the head of its
  queue, whatever choice the database makes.
\<close>

theorem queue_refines_fifo:
  assumes "tie_ok tie" "sorted_wrt (<) (map fst ops @ [now])"
  defines "tbl \<equiv> queue_run tie ops emptyTable"
  shows "queue_spec op (waiting tbl) (waiting (queue_apply tie (now, op) tbl)) \<and>
    map_option qi_id (fst (dequeueForChat tie c now tbl)) = list_head (waiting tbl c) \<and>
    sorted_wrt (<) (waiting tbl c)"
  using queue_simulation [OF assms(1) queue_run_empty_ordered [OF assms(1,2)]]
    waiting_take [OF assms(1) queue_run_empty_ordered(1) [OF assms(1,2)]]
    waiting_sorted [OF queue_run_empty_ordered(1) [OF assms(1,2)]]
  unfolding tbl_def by blast

lemma queue_refines_fifo_witness:
  "map_option qi_id (fst (dequeueForChat hd ''c'' 9 (queue_run hd [(0, OpEnqueue sample_message 3), (1, OpEnqueue sample_message 3),
      (2, OpDequeue), (3, OpFail 1 ''e'')] emptyTable))) = Some 1"
proof -
  let ?ops = "[(0, OpEnqueue sample_message 3), (1, OpEnqueue sample_message 3), (2, OpDequeue), (3, OpFail 1 ''e'')]"
  have "waiting (queue_run hd ?ops emptyTable) ''c'' = [1, 2]"
    by (simp add: waiting_def queue_run_def emptyTable_def queue_defs dequeue_where_def oldest_rows_def
        update_rows_def rowToItem_def sample_message_def)
  then show ?thesis
    using queue_refines_fifo [OF tie_ok_hd, of ?ops 9 OpDequeue "''c''"] by simp
qed

end
