(* ===== verification/Port_Registry.thy ===== *)
theory Port_Registry
  imports Prelude
begin

text \<open>
  \<^verbatim>\<open>src/src/admin/port-registry.ts\<close>: port blocks for the users of one host, kept in a JSON file. The file is
  absent or holds the data \<^verbatim>\<open>JSON.parse\<close> reads back from what \<^verbatim>\<open>JSON.stringify\<close> wrote. Shown: a new
  user gets the lowest free block, allocation fails only when none is left, users never share a port
  when blocks have room for the four services, and \<^verbatim>\<open>detectConflicts\<close> is exact; also that with
  smaller blocks services of different users do collide and no conflict is reported.
\<close>

section \<open>Data\<close>

record PortAssignment =
  pt_proxy :: int
  pt_channel :: int
  pt_service :: int
  pt_database :: int

record PortAllocation =
  pa_username :: string
  pa_basePort :: int
  pa_ports :: PortAssignment
  pa_allocatedAt :: time

record PortRegistryData =
  pr_basePort :: int
  pr_portsPerUser :: int
  pr_allocations :: "PortAllocation list"

record PortRegistry =
  defaultBasePort :: int
  defaultPortsPerUser :: int

definition newPortRegistry :: "int option \<Rightarrow> int option \<Rightarrow> PortRegistry" where
  "newPortRegistry basePort portsPerUser =
     \<lparr>defaultBasePort = (case basePort of Some b \<Rightarrow> b | None \<Rightarrow> 10000),
      defaultPortsPerUser = (case portsPerUser of Some n \<Rightarrow> n | None \<Rightarrow> 10)\<rparr>"

definition MAX_PORT :: int where
  "MAX_PORT = 65535"

datatype port_error =
    RegistryUnreadable
  | AllocationExists string
  | PortExhaustion int int
  | NoAllocation string

datatype port_conflict =
    PortOverlap PortAllocation PortAllocation
  | DuplicateUser string

section \<open>Operations\<close>

text \<open>The registry file is the state: \<open>None\<close> when it does not exist.\<close>

type_synonym registry_file = "PortRegistryData option"

definition registry_init :: "PortRegistry \<Rightarrow> registry_file \<Rightarrow> registry_file" where
  "registry_init reg file =
     (case file of
        Some d \<Rightarrow> Some d
      | None \<Rightarrow> Some \<lparr>pr_basePort = defaultBasePort reg, pr_portsPerUser = defaultPortsPerUser reg,
                     pr_allocations = []\<rparr>)"

definition registry_read :: "registry_file \<Rightarrow> port_error + PortRegistryData" where
  "registry_read file = (case file of None \<Rightarrow> Inl RegistryUnreadable | Some d \<Rightarrow> Inr d)"

fun nextBase :: "int \<Rightarrow> int list \<Rightarrow> int \<Rightarrow> int" where
  "nextBase portsPerUser [] nb = nb"
| "nextBase portsPerUser (used # us) nb =
     nextBase portsPerUser us (if nb = used then used + portsPerUser else nb)"

definition allocate :: "string \<Rightarrow> time \<Rightarrow> registry_file \<Rightarrow> port_error + PortAllocation \<times> registry_file" where
  "allocate username now file =
     (case registry_read file of
        Inl e \<Rightarrow> Inl e
      | Inr data \<Rightarrow>
          if find (\<lambda>a. pa_username a = username) (pr_allocations data) \<noteq> None then Inl (AllocationExists username)
          else
            let usedBases = sort (map pa_basePort (pr_allocations data));
                nb = nextBase (pr_portsPerUser data) usedBases (pr_basePort data)
            in if nb + pr_portsPerUser data - 1 > MAX_PORT then Inl (PortExhaustion (pr_portsPerUser data) nb)
               else
                 let a = \<lparr>pa_username = username, pa_basePort = nb,
                          pa_ports = \<lparr>pt_proxy = nb + 0, pt_channel = nb + 1, pt_service = nb + 2,
                                      pt_database = nb + 3\<rparr>,
                          pa_allocatedAt = now\<rparr>
                 in Inr (a, Some (data\<lparr>pr_allocations := pr_allocations data @ [a]\<rparr>)))"

text \<open>\<^verbatim>\<open>findIndex\<close> and \<^verbatim>\<open>splice\<close>: the first allocation of the user is taken out.\<close>

fun splice_user :: "string \<Rightarrow> PortAllocation list \<Rightarrow> (PortAllocation \<times> PortAllocation list) option" where
  "splice_user username [] = None"
| "splice_user username (a # as) =
     (if pa_username a = username then Some (a, as)
      else case splice_user username as of None \<Rightarrow> None | Some (r, as') \<Rightarrow> Some (r, a # as'))"

definition free :: "string \<Rightarrow> registry_file \<Rightarrow> port_error + PortAllocation \<times> registry_file" where
  "free username file =
     (case registry_read file of
        Inl e \<Rightarrow> Inl e
      | Inr data \<Rightarrow>
          (case splice_user username (pr_allocations data) of
             None \<Rightarrow> Inl (NoAllocation username)
           | Some (removed, rest) \<Rightarrow> Inr (removed, Some (data\<lparr>pr_allocations := rest\<rparr>))))"

definition registry_get :: "string \<Rightarrow> registry_file \<Rightarrow> port_error + PortAllocation option" where
  "registry_get username file =
     (case registry_read file of
        Inl e \<Rightarrow> Inl e
      | Inr data \<Rightarrow> Inr (find (\<lambda>a. pa_username a = username) (pr_allocations data)))"

definition registry_list :: "registry_file \<Rightarrow> port_error + PortAllocation list" where
  "registry_list file = (case registry_read file of Inl e \<Rightarrow> Inl e | Inr data \<Rightarrow> Inr (pr_allocations data))"

definition blocks_overlap :: "int \<Rightarrow> PortAllocation \<Rightarrow> PortAllocation \<Rightarrow> bool" where
  "blocks_overlap n a b \<longleftrightarrow>
     pa_basePort a \<le> pa_basePort b + n - 1 \<and> pa_basePort b \<le> pa_basePort a + n - 1"

fun conflicts_of :: "int \<Rightarrow> PortAllocation list \<Rightarrow> port_conflict list" where
  "conflicts_of n [] = []"
| "conflicts_of n (a # as) =
     map (PortOverlap a) (filter (blocks_overlap n a) as) @
     map (\<lambda>b. DuplicateUser (pa_username a)) (filter (\<lambda>b. pa_username a = pa_username b) as) @
     conflicts_of n as"

definition detectConflicts :: "registry_file \<Rightarrow> port_error + port_conflict list" where
  "detectConflicts file =
     (case registry_read file of
        Inl e \<Rightarrow> Inl e
      | Inr data \<Rightarrow> Inr (conflicts_of (pr_portsPerUser data) (pr_allocations data)))"

section \<open>The search for a free block\<close>

lemma nextBase_stays: "\<forall>u \<in> set us. nb < u \<Longrightarrow> nextBase n us nb = nb"
  by (induction us) auto

lemma nextBase_ge: "0 < n \<Longrightarrow> nb \<le> nextBase n us nb"
proof (induction us arbitrary: nb)
  case (Cons u us)
  have ih: "u + n \<le> nextBase n us (u + n)" "nb \<le> nextBase n us nb" using Cons by blast+
  show ?case
  proof (cases "nb = u")
    case True
    then have "nextBase n (u # us) nb = nextBase n us (u + n)" by simp
    then show ?thesis using ih(1) Cons.prems True by linarith
  qed (use ih(2) in simp)
qed simp

lemma nextBase_free: "0 < n \<Longrightarrow> sorted us \<Longrightarrow> nextBase n us nb \<notin> set us"
proof (induction us arbitrary: nb)
  case (Cons u us)
  consider "nb = u" | "nb < u" | "u < nb" by linarith
  then show ?case
  proof cases
    case 1
    then show ?thesis using Cons nextBase_ge [of n "u + n" us] by simp
  next
    case 2
    then have "nextBase n us nb = nb" using Cons.prems by (intro nextBase_stays) auto
    then show ?thesis using 2 Cons.prems by auto
  next
    case 3
    then show ?thesis using Cons nextBase_ge [of n nb us] by simp
  qed
qed simp

lemma nextBase_grid: "\<exists>k::nat. nextBase n us nb = nb + int k * n"
proof (induction us arbitrary: nb)
  case Nil
  show ?case by (rule exI [of _ 0]) simp
next
  case (Cons u us)
  obtain k where k: "nextBase n us (if nb = u then u + n else nb) = (if nb = u then u + n else nb) + int k * n"
    using Cons.IH by blast
  show ?case
  proof (cases "nb = u")
    case True
    then have "nextBase n (u # us) nb = nb + int (Suc k) * n" using k by (simp add: algebra_simps)
    then show ?thesis ..
  qed (use k in auto)
qed

lemma nextBase_lowest:
  "0 < n \<Longrightarrow> nb + int k * n < nextBase n us nb \<Longrightarrow> nb + int k * n \<in> set us"
proof (induction us arbitrary: nb k)
  case (Cons u us)
  show ?case
  proof (cases "nb = u")
    case True
    show ?thesis
    proof (cases k)
      case (Suc j)
      then have "u + n + int j * n \<in> set us"
        using Cons True by (intro Cons.IH) (simp_all add: algebra_simps)
      then show ?thesis using True Suc by (simp add: algebra_simps)
    qed (use True in simp)
  next
    case False
    then show ?thesis using Cons by simp
  qed
next
  case Nil
  have "0 \<le> int k * n" using Nil(1) by (intro mult_nonneg_nonneg) simp_all
  then show ?case using Nil(2) unfolding nextBase.simps by linarith
qed

section \<open>The invariant of the registry\<close>

definition registry_ok :: "PortRegistryData \<Rightarrow> bool" where
  "registry_ok d \<longleftrightarrow> 0 < pr_portsPerUser d \<and>
     distinct (map pa_basePort (pr_allocations d)) \<and> distinct (map pa_username (pr_allocations d)) \<and>
     (\<forall>a \<in> set (pr_allocations d).
        (\<exists>k::nat. pa_basePort a = pr_basePort d + int k * pr_portsPerUser d) \<and>
        pa_basePort a + pr_portsPerUser d - 1 \<le> MAX_PORT \<and>
        pa_ports a = \<lparr>pt_proxy = pa_basePort a, pt_channel = pa_basePort a + 1,
                      pt_service = pa_basePort a + 2, pt_database = pa_basePort a + 3\<rparr>)"

lemma find_user_None:
  "find (\<lambda>a. pa_username a = u) as = None \<longleftrightarrow> u \<notin> pa_username ` set as"
  by (auto simp: find_None_iff)

lemma splice_user_Some:
  "splice_user u as = Some (r, rest) \<Longrightarrow>
   pa_username r = u \<and> (\<exists>xs ys. as = xs @ r # ys \<and> rest = xs @ ys)"
proof (induction as arbitrary: rest)
  case (Cons a as)
  show ?case
  proof (cases "pa_username a = u")
    case True
    then show ?thesis using Cons.prems by (auto intro: exI [of _ "[]"])
  next
    case False
    then obtain rest' where r: "splice_user u as = Some (r, rest')" "rest = a # rest'"
      using Cons.prems by (auto split: option.splits)
    then obtain xs ys where "pa_username r = u" "as = xs @ r # ys" "rest' = xs @ ys" using Cons.IH by blast
    then show ?thesis using r(2) by (intro conjI exI [of _ "a # xs"] exI [of _ ys]) simp_all
  qed
qed simp

lemma allocate_ok:
  assumes "registry_ok d" "allocate u now (Some d) = Inr (a, file)"
  obtains d' where "file = Some d'" "registry_ok d'" "pr_portsPerUser d' = pr_portsPerUser d"
proof -
  let ?nb = "nextBase (pr_portsPerUser d) (sort (map pa_basePort (pr_allocations d))) (pr_basePort d)"
  have n: "0 < pr_portsPerUser d" using assms(1) by (simp add: registry_ok_def)
  have a: "u \<notin> pa_username ` set (pr_allocations d)" "?nb + pr_portsPerUser d - 1 \<le> MAX_PORT"
    "a = \<lparr>pa_username = u, pa_basePort = ?nb,
          pa_ports = \<lparr>pt_proxy = ?nb, pt_channel = ?nb + 1, pt_service = ?nb + 2, pt_database = ?nb + 3\<rparr>,
          pa_allocatedAt = now\<rparr>"
    "file = Some (d\<lparr>pr_allocations := pr_allocations d @ [a]\<rparr>)"
    using assms(2) by (auto simp: allocate_def registry_read_def Let_def find_user_None [symmetric] split: if_splits)
  have "?nb \<notin> pa_basePort ` set (pr_allocations d)"
    using nextBase_free [OF n, of "sort (map pa_basePort (pr_allocations d))"] by simp
  then have "registry_ok (d\<lparr>pr_allocations := pr_allocations d @ [a]\<rparr>)"
    using assms(1) a(1,2) nextBase_grid by (auto simp: registry_ok_def a(3))
  then show thesis using a(4) by (intro that [of "d\<lparr>pr_allocations := pr_allocations d @ [a]\<rparr>"]) simp_all
qed

lemma free_ok:
  assumes "registry_ok d" "free u (Some d) = Inr (a, file)"
  obtains d' where "file = Some d'" "registry_ok d'" "pr_portsPerUser d' = pr_portsPerUser d"
proof -
  obtain rest where r: "splice_user u (pr_allocations d) = Some (a, rest)"
      "file = Some (d\<lparr>pr_allocations := rest\<rparr>)"
    using assms(2) by (auto simp: free_def registry_read_def split: option.splits)
  then obtain xs ys where "pr_allocations d = xs @ a # ys" "rest = xs @ ys" using splice_user_Some by blast
  then have "registry_ok (d\<lparr>pr_allocations := rest\<rparr>)" using assms(1) by (auto simp: registry_ok_def)
  then show thesis using r(2) by (intro that [of "d\<lparr>pr_allocations := rest\<rparr>"]) simp_all
qed

text \<open>A history of calls; a call that throws leaves the file as it is.\<close>

datatype registry_call = CallAllocate string time | CallFree string

fun registry_apply :: "registry_call \<Rightarrow> registry_file \<Rightarrow> registry_file" where
  "registry_apply (CallAllocate u now) file =
     (case allocate u now file of Inl e \<Rightarrow> file | Inr (a, file') \<Rightarrow> file')"
| "registry_apply (CallFree u) file = (case free u file of Inl e \<Rightarrow> file | Inr (a, file') \<Rightarrow> file')"

lemma registry_apply_ok:
  assumes "registry_ok d"
  obtains d' where "registry_apply c (Some d) = Some d'" "registry_ok d'" "pr_portsPerUser d' = pr_portsPerUser d"
proof (cases c)
  case (CallAllocate u now)
  then show thesis
    using assms that allocate_ok [of d u now] by (cases "allocate u now (Some d)") (auto split: prod.splits)
next
  case (CallFree u)
  then show thesis
    using assms that free_ok [of d u] by (cases "free u (Some d)") (auto split: prod.splits)
qed

definition registry_history :: "int option \<Rightarrow> int option \<Rightarrow> registry_call list \<Rightarrow> registry_file" where
  "registry_history base n calls = fold registry_apply calls (registry_init (newPortRegistry base n) None)"

lemma fold_registry_ok:
  "registry_ok d \<Longrightarrow> \<exists>d'. fold registry_apply calls (Some d) = Some d' \<and> registry_ok d' \<and>
     pr_portsPerUser d' = pr_portsPerUser d"
proof (induction calls arbitrary: d)
  case (Cons c calls)
  obtain d' where "registry_apply c (Some d) = Some d'" "registry_ok d'" "pr_portsPerUser d' = pr_portsPerUser d"
    using registry_apply_ok [OF Cons.prems] .
  then show ?case using Cons.IH [of d'] by simp
qed simp

lemma registry_history_ok:
  assumes "case n of Some k \<Rightarrow> 0 < k | None \<Rightarrow> True"
  obtains d where "registry_history base n calls = Some d" "registry_ok d"
    "pr_portsPerUser d = (case n of Some k \<Rightarrow> k | None \<Rightarrow> 10)"
proof -
  have "\<exists>d'. fold registry_apply calls (registry_init (newPortRegistry base n) None) = Some d' \<and> registry_ok d' \<and>
      pr_portsPerUser d' = (case n of Some k \<Rightarrow> k | None \<Rightarrow> 10)"
    using assms fold_registry_ok [of "\<lparr>pr_basePort = (case base of Some b \<Rightarrow> b | None \<Rightarrow> 10000),
        pr_portsPerUser = (case n of Some k \<Rightarrow> k | None \<Rightarrow> 10), pr_allocations = []\<rparr>" calls]
    by (auto simp: registry_init_def newPortRegistry_def registry_ok_def split: option.splits)
  then show thesis using that by (auto simp: registry_history_def)
qed

section \<open>Properties\<close>

definition ports_of :: "PortAllocation \<Rightarrow> int set" where
  "ports_of a = {pt_proxy (pa_ports a), pt_channel (pa_ports a), pt_service (pa_ports a), pt_database (pa_ports a)}"

lemma grid_apart:
  assumes "(0::int) < n" "x = b + int k * n" "y = b + int j * n" "x \<noteq> y"
  shows "x + n \<le> y \<or> y + n \<le> x"
proof -
  have "k < j \<or> j < k" using assms by (metis nat_neq_iff)
  then show ?thesis
  proof
    assume "k < j"
    then have "(int k + 1) * n \<le> int j * n" using assms(1) by (intro mult_right_mono) auto
    then show ?thesis using assms by (simp add: algebra_simps)
  next
    assume "j < k"
    then have "(int j + 1) * n \<le> int k * n" using assms(1) by (intro mult_right_mono) auto
    then show ?thesis using assms by (simp add: algebra_simps)
  qed
qed

lemma registry_ok_apart:
  assumes "registry_ok d" "i < j" "j < length (pr_allocations d)"
  shows "pa_basePort (pr_allocations d ! i) + pr_portsPerUser d \<le> pa_basePort (pr_allocations d ! j) \<or>
    pa_basePort (pr_allocations d ! j) + pr_portsPerUser d \<le> pa_basePort (pr_allocations d ! i)"
proof -
  let ?as = "pr_allocations d"
  have "pa_basePort (?as ! i) \<noteq> pa_basePort (?as ! j)"
    using assms nth_eq_iff_index_eq [of "map pa_basePort ?as" i j] by (simp add: registry_ok_def)
  moreover have "?as ! i \<in> set ?as" "?as ! j \<in> set ?as" using assms by simp_all
  then obtain k l :: nat where "pa_basePort (?as ! i) = pr_basePort d + int k * pr_portsPerUser d"
      "pa_basePort (?as ! j) = pr_basePort d + int l * pr_portsPerUser d"
    using assms(1) unfolding registry_ok_def by metis
  ultimately show ?thesis using assms(1) by (intro grid_apart) (simp_all add: registry_ok_def)
qed

lemma conflicts_of_empty:
  "conflicts_of n as = [] \<longleftrightarrow>
   (\<forall>j < length as. \<forall>i < j. \<not> blocks_overlap n (as ! i) (as ! j) \<and> pa_username (as ! i) \<noteq> pa_username (as ! j))"
proof (induction as)
  case (Cons a as)
  have "conflicts_of n (a # as) = [] \<longleftrightarrow>
      (\<forall>b \<in> set as. \<not> blocks_overlap n a b \<and> pa_username a \<noteq> pa_username b) \<and> conflicts_of n as = []"
    by (auto simp: filter_empty_conv)
  also have "\<dots> \<longleftrightarrow> (\<forall>j < length (a # as). \<forall>i < j. \<not> blocks_overlap n ((a # as) ! i) ((a # as) ! j) \<and>
      pa_username ((a # as) ! i) \<noteq> pa_username ((a # as) ! j))"
    unfolding Cons.IH by (auto simp: all_set_conv_all_nth All_less_Suc2)
  finally show ?case .
qed simp

lemma registry_ok_no_conflicts: "registry_ok d \<Longrightarrow> conflicts_of (pr_portsPerUser d) (pr_allocations d) = []"
  unfolding conflicts_of_empty
proof (intro allI impI conjI)
  fix i j
  assume ok: "registry_ok d" and ij: "j < length (pr_allocations d)" "i < j"
  show "\<not> blocks_overlap (pr_portsPerUser d) (pr_allocations d ! i) (pr_allocations d ! j)"
    using registry_ok_apart [OF ok ij(2,1)] by (auto simp: blocks_overlap_def)
  show "pa_username (pr_allocations d ! i) \<noteq> pa_username (pr_allocations d ! j)"
    using ok ij nth_eq_iff_index_eq [of "map pa_username (pr_allocations d)" i j] by (simp add: registry_ok_def)
qed

text \<open>
  C7. Users never share a port: after any sequence of allocations and releases on a fresh registry
  whose blocks have room for the four services, the services of different users listen on different
  ports, none above 65535, and the conflict detector reports nothing.
\<close>

theorem port_users_disjoint:
  assumes "case n of Some k \<Rightarrow> 4 \<le> k | None \<Rightarrow> True"
  shows "detectConflicts (registry_history base n calls) = Inr [] \<and>
    (\<exists>as. registry_list (registry_history base n calls) = Inr as \<and>
      (\<forall>a \<in> set as. \<forall>p \<in> ports_of a. p \<le> 65535) \<and>
      (\<forall>j < length as. \<forall>i < j. ports_of (as ! i) \<inter> ports_of (as ! j) = {}))"
proof -
  have "case n of Some k \<Rightarrow> 0 < k | None \<Rightarrow> True" using assms by (auto split: option.splits)
  then obtain d where d: "registry_history base n calls = Some d" "registry_ok d"
      "pr_portsPerUser d = (case n of Some k \<Rightarrow> k | None \<Rightarrow> 10)" by (rule registry_history_ok)
  have four: "4 \<le> pr_portsPerUser d" using assms d(3) by (auto split: option.splits)
  have ports: "ports_of a \<subseteq> {pa_basePort a..pa_basePort a + 3}" "pa_basePort a + pr_portsPerUser d - 1 \<le> MAX_PORT"
    if "a \<in> set (pr_allocations d)" for a
    using d(2) that by (auto simp: registry_ok_def ports_of_def)
  have "ports_of (pr_allocations d ! i) \<inter> ports_of (pr_allocations d ! j) = {}"
    if "i < j" "j < length (pr_allocations d)" for i j
    using ports(1) [of "pr_allocations d ! i"] ports(1) [of "pr_allocations d ! j"]
      registry_ok_apart [OF d(2) that] that four by (fastforce dest: subsetD)
  moreover have "p \<le> 65535" if "a \<in> set (pr_allocations d)" "p \<in> ports_of a" for a p
    using ports [OF that(1)] that(2) four by (auto simp: MAX_PORT_def dest: subsetD)
  ultimately show ?thesis
    using registry_ok_no_conflicts [OF d(2)]
    by (simp add: d(1) detectConflicts_def registry_list_def registry_read_def)
qed

theorem port_users_disjoint_witness:
  "detectConflicts (registry_history None (Some 4)
      [CallAllocate ''a'' 0, CallAllocate ''b'' 1, CallFree ''a'', CallAllocate ''c'' 2]) = Inr [] \<and>
   map_sum id (map pa_basePort) (registry_list (registry_history None (Some 4)
      [CallAllocate ''a'' 0, CallAllocate ''b'' 1, CallFree ''a'', CallAllocate ''c'' 2])) = Inr [10004, 10000]"
  using port_users_disjoint [of "Some 4" None
      "[CallAllocate ''a'' 0, CallAllocate ''b'' 1, CallFree ''a'', CallAllocate ''c'' 2]"]
  by (simp add: registry_history_def registry_init_def newPortRegistry_def allocate_def registry_read_def
      Let_def MAX_PORT_def free_def registry_list_def)

text \<open>
  Allocation is lowest-first and fails only when the range is full: on a valid registry a user
  without an allocation gets the lowest block of the grid that is not in use, appended to the list;
  or the call fails with exhaustion, and then every block that fits below the maximum port is in
  use. A user who has an allocation gets an error.
\<close>

theorem allocate_lowest_free_block:
  assumes "registry_ok d"
  shows "case allocate u now (Some d) of
      Inr (a, file) \<Rightarrow> u \<notin> pa_username ` set (pr_allocations d) \<and> pa_username a = u \<and>
        file = Some (d\<lparr>pr_allocations := pr_allocations d @ [a]\<rparr>) \<and>
        pa_basePort a \<notin> pa_basePort ` set (pr_allocations d) \<and>
        (\<exists>k::nat. pa_basePort a = pr_basePort d + int k * pr_portsPerUser d \<and>
          (\<forall>j < k. pr_basePort d + int j * pr_portsPerUser d \<in> pa_basePort ` set (pr_allocations d)))
    | Inl e \<Rightarrow> u \<in> pa_username ` set (pr_allocations d) \<and> e = AllocationExists u \<or>
        (\<exists>nb. e = PortExhaustion (pr_portsPerUser d) nb) \<and>
        (\<forall>j::nat. pr_basePort d + int j * pr_portsPerUser d + pr_portsPerUser d - 1 \<le> MAX_PORT \<longrightarrow>
          pr_basePort d + int j * pr_portsPerUser d \<in> pa_basePort ` set (pr_allocations d))"
proof -
  let ?n = "pr_portsPerUser d" and ?b = "pr_basePort d"
  let ?us = "sort (map pa_basePort (pr_allocations d))"
  let ?nb = "nextBase ?n ?us ?b"
  have n: "0 < ?n" using assms by (simp add: registry_ok_def)
  obtain k where k: "?nb = ?b + int k * ?n" using nextBase_grid by blast
  have below: "?b + int j * ?n \<in> pa_basePort ` set (pr_allocations d)" if "?b + int j * ?n < ?nb" for j
    using nextBase_lowest [OF n that] by simp
  have "?b + int j * ?n < ?nb" if "j < k" for j using that n k by simp
  moreover have "?nb \<notin> pa_basePort ` set (pr_allocations d)"
    using nextBase_free [OF n, of ?us ?b] by simp
  ultimately show ?thesis
    using k below
    by (auto simp: allocate_def registry_read_def Let_def find_user_None split: sum.splits if_splits
        intro!: exI [of _ k])
qed

theorem allocate_lowest_free_block_witness:
  "pa_basePort (fst (projr (allocate ''c'' 0 (registry_history None None
      [CallAllocate ''a'' 0, CallAllocate ''b'' 1, CallFree ''a''])))) = 10000 \<and>
   (\<exists>k::nat. pa_basePort (fst (projr (allocate ''c'' 0 (registry_history None None
      [CallAllocate ''a'' 0, CallAllocate ''b'' 1, CallFree ''a''])))) = 10000 + int k * 10)"
proof -
  obtain d where d: "registry_history None None [CallAllocate ''a'' 0, CallAllocate ''b'' 1, CallFree ''a''] = Some d"
      "registry_ok d" using registry_history_ok [of None] by (metis option.simps(4))
  have e: "d = \<lparr>pr_basePort = 10000, pr_portsPerUser = 10, pr_allocations =
      [\<lparr>pa_username = ''b'', pa_basePort = 10010, pa_ports = \<lparr>pt_proxy = 10010, pt_channel = 10011,
         pt_service = 10012, pt_database = 10013\<rparr>, pa_allocatedAt = 1\<rparr>]\<rparr>"
    using d(1)
    by (simp add: registry_history_def registry_init_def newPortRegistry_def allocate_def registry_read_def
        Let_def MAX_PORT_def free_def)
  have "allocate ''c'' 0 (Some d) = Inr (projr (allocate ''c'' 0 (Some d)))"
      "pa_basePort (fst (projr (allocate ''c'' 0 (Some d)))) = 10000"
    by (simp_all add: e allocate_def registry_read_def Let_def MAX_PORT_def)
  then show ?thesis
    using allocate_lowest_free_block [OF d(2), of "''c''" 0] unfolding d(1)
    by (cases "projr (allocate ''c'' 0 (Some d))") (auto simp: e)
qed

text \<open>
  Blocks smaller than the four services break the separation, and the conflict detector does
  not see it: with two ports per user the database of the first user and the channel of the second
  get the same port, and no conflict is reported.
\<close>

theorem small_blocks_collide_silently:
  "\<exists>a b. registry_list (registry_history None (Some 2) [CallAllocate ''a'' 0, CallAllocate ''b'' 0]) = Inr [a, b] \<and>
     pt_database (pa_ports a) = pt_channel (pa_ports b) \<and>
     detectConflicts (registry_history None (Some 2) [CallAllocate ''a'' 0, CallAllocate ''b'' 0]) = Inr []"
  by (simp add: registry_history_def registry_init_def newPortRegistry_def allocate_def registry_read_def
      Let_def MAX_PORT_def registry_list_def detectConflicts_def blocks_overlap_def)

end
