(* ===== verification/Memory_Db.thy ===== *)
theory Memory_Db
  imports Effects Complex_Main "HOL-Library.List_Lexorder" "HOL-Library.Char_ord"
begin

text \<open>
  The tables of \<^verbatim>\<open>src/src/orchestrator/schema.sql\<close> that hold profiles, chats, messages and memories, with
  their constraints, and the chat and message statements of \<^verbatim>\<open>src/src/orchestrator/database.ts\<close>. A table
  is the list of its rows in the order of their insertion. An operation takes the database to a result
  with the database it leaves; statements outside a transaction keep what they wrote when a later one
  fails. Embeddings are of an abstract type \<open>'v\<close>; ids that PostgreSQL generates are arguments; numbers
  of type REAL are exact.
\<close>

section \<open>Rows\<close>

datatype SemanticMemoryType = Preference | Fact | Pattern | Contact | Instruction | Summary | Procedure
datatype MetaMemoryType = Insight | Heuristic | Self_assessment
datatype ExternalMemorySource = Document | User_provided

datatype AgentDimension = A_communication_style | A_humor | A_emotional_register | A_values | A_rapport | A_boundaries
datatype UserDimension = U_communication_style | U_work_patterns | U_decision_making | U_priorities | U_preferences | U_boundaries
datatype PersonalitySource = Inferred | Declared | Onboarding

record ProfileRow =
  ap_id :: string
  ap_name :: string
  ap_description :: "string option"
  ap_is_default :: bool
  ap_created_at :: time
  ap_updated_at :: time

record ChatRow =
  ch_id :: string
  ch_channel :: string
  ch_external_id :: string
  ch_name :: "string option"
  ch_is_group :: bool
  ch_profile_id :: string
  ch_created_at :: time
  ch_updated_at :: time

record MessageRow =
  mw_id :: string
  mw_chat_id :: string
  mw_sender_id :: string
  mw_sender_name :: string
  mw_content :: "string option"
  mw_audio_path :: "string option"
  mw_image_path :: "string option"
  mw_reply_to_id :: "string option"
  mw_timestamp :: time
  mw_is_from_me :: bool
  mw_is_bot_message :: bool
  mw_session_id :: "string option"

record SessionRow =
  ss_id :: string
  ss_chat_id :: string
  ss_started_at :: time
  ss_ended_at :: "time option"

record 'v SemanticRow =
  sm_id :: string
  sm_content :: string
  sm_embedding :: 'v
  sm_memory_type :: SemanticMemoryType
  sm_importance :: real
  sm_depth :: nat
  sm_token_count :: nat
  sm_source_session :: "string option"
  sm_profile_id :: string
  sm_earliest_at :: "time option"
  sm_latest_at :: "time option"
  sm_created_at :: time
  sm_updated_at :: time
  sm_last_accessed :: time
  sm_access_count :: nat

record 'v MetaRow =
  mm_id :: string
  mm_content :: string
  mm_embedding :: 'v
  mm_reflection_type :: MetaMemoryType
  mm_confidence :: real
  mm_depth :: nat
  mm_profile_id :: string
  mm_created_at :: time
  mm_updated_at :: time
  mm_last_accessed :: time

record 'v ExternalRow =
  ex_id :: string
  ex_content :: string
  ex_embedding :: 'v
  ex_source_type :: ExternalMemorySource
  ex_source_ref :: string
  ex_profile_id :: string
  ex_created_at :: time

record IdentityRow =
  ai_profile_id :: string
  ai_role :: string
  ai_expertise :: "string list"
  ai_tone :: string
  ai_instructions :: "string option"
  ai_created_at :: time
  ai_updated_at :: time

record PersonalityRow =
  pp_profile_id :: string
  pp_dimension :: AgentDimension
  pp_content :: string
  pp_confidence :: real
  pp_evidence_count :: nat
  pp_created_at :: time
  pp_updated_at :: time

record UserIdentityRow =
  ui_name :: "string option"
  ui_role :: "string option"
  ui_organization :: "string option"
  ui_timezone :: "string option"
  ui_language :: "string option"
  ui_contact :: "(string \<times> json) list"
  ui_notes :: "string option"
  ui_created_at :: time
  ui_updated_at :: time

record UserPersonalityRow =
  up_dimension :: UserDimension
  up_content :: string
  up_confidence :: real
  up_evidence_count :: nat
  up_source :: PersonalitySource
  up_created_at :: time
  up_updated_at :: time

text \<open>
  The four join tables are sets of tuples without repetition, as lists: source messages of a summary,
  child summaries of a summary, sources of a reflection, child reflections of a reflection.
\<close>

record 'v Db =
  db_profiles :: "ProfileRow list"
  db_chats :: "ChatRow list"
  db_working :: "MessageRow list"
  db_sessions :: "SessionRow list"
  db_semantic :: "'v SemanticRow list"
  db_meta :: "'v MetaRow list"
  db_external :: "'v ExternalRow list"
  db_sms :: "(string \<times> string \<times> string) list"
  db_sps :: "(string \<times> string) list"
  db_mms :: "(string \<times> string) list"
  db_mps :: "(string \<times> string) list"
  db_identity :: "IdentityRow list"
  db_personality :: "PersonalityRow list"
  db_user_identity :: "UserIdentityRow list"
  db_user_personality :: "UserPersonalityRow list"
  db_state :: "(string, string) js_map"

definition emptyDb :: "'v Db" where
  "emptyDb = \<lparr>db_profiles = [], db_chats = [], db_working = [], db_sessions = [], db_semantic = [], db_meta = [], db_external = [],
     db_sms = [], db_sps = [], db_mms = [], db_mps = [], db_identity = [], db_personality = [], db_user_identity = [],
     db_user_personality = [], db_state = []\<rparr>"

section \<open>Operations\<close>

datatype db_error = Thrown string | Foreign_key string | Unique_violation string

type_synonym ('v, 'a) db_op = "'v Db \<Rightarrow> (db_error + 'a) \<times> 'v Db"

definition retD :: "'a \<Rightarrow> ('v, 'a) db_op" where
  "retD x db = (Inr x, db)"

definition throwD :: "string \<Rightarrow> ('v, 'a) db_op" where
  "throwD e db = (Inl (Thrown e), db)"

definition bindD :: "('v, 'a) db_op \<Rightarrow> ('a \<Rightarrow> ('v, 'b) db_op) \<Rightarrow> ('v, 'b) db_op" where
  "bindD m f db = (case m db of (Inl e, db1) \<Rightarrow> (Inl e, db1) | (Inr x, db1) \<Rightarrow> f x db1)"

text \<open>A statement that only reads, and one that only writes.\<close>

definition queryD :: "('v Db \<Rightarrow> 'a) \<Rightarrow> ('v, 'a) db_op" where
  "queryD q db = (Inr (q db), db)"

definition execD :: "('v Db \<Rightarrow> 'v Db) \<Rightarrow> ('v, unit) db_op" where
  "execD f db = (Inr (), f db)"

text \<open>\<^verbatim>\<open>sql.begin\<close>: a transaction that fails leaves nothing.\<close>

definition transaction :: "('v, 'a) db_op \<Rightarrow> ('v, 'a) db_op" where
  "transaction m db = (case m db of (Inl e, db1) \<Rightarrow> (Inl e, db) | (Inr x, db1) \<Rightarrow> (Inr x, db1))"

lemma bindD_simps:
  "bindD (retD x) f = f x" "bindD (throwD e) f = throwD e" "bindD (queryD q) f db = f (q db) db" "bindD (execD g) h db = h () (g db)"
  by (simp_all add: bindD_def retD_def throwD_def queryD_def execD_def fun_eq_iff)

lemmas db_op_simps = bindD_simps retD_def throwD_def queryD_def execD_def

section \<open>Constraints\<close>

definition ids_distinct :: "'v Db \<Rightarrow> bool" where
  "ids_distinct db \<longleftrightarrow>
     distinct (map ap_id (db_profiles db)) \<and> distinct (map ch_id (db_chats db)) \<and>
     distinct (map (\<lambda>m. (mw_id m, mw_chat_id m)) (db_working db)) \<and> distinct (map ss_id (db_sessions db)) \<and>
     distinct (map sm_id (db_semantic db)) \<and> distinct (map mm_id (db_meta db)) \<and> distinct (map ex_id (db_external db)) \<and>
     distinct (db_sms db) \<and> distinct (db_sps db) \<and> distinct (db_mms db) \<and> distinct (db_mps db) \<and>
     distinct (map ai_profile_id (db_identity db)) \<and>
     distinct (map (\<lambda>p. (pp_profile_id p, pp_dimension p)) (db_personality db)) \<and>
     distinct (map up_dimension (db_user_personality db))"

definition profile_ids :: "'v Db \<Rightarrow> string set" where
  "profile_ids db = ap_id ` set (db_profiles db)"

text \<open>The foreign keys into \<^verbatim>\<open>agent_profiles\<close>.\<close>

definition profile_refs :: "'v Db \<Rightarrow> string set" where
  "profile_refs db =
     ch_profile_id ` set (db_chats db) \<union> sm_profile_id ` set (db_semantic db) \<union> mm_profile_id ` set (db_meta db) \<union>
     ex_profile_id ` set (db_external db) \<union> ai_profile_id ` set (db_identity db) \<union> pp_profile_id ` set (db_personality db)"

definition semantic_ids :: "'v Db \<Rightarrow> string set" where
  "semantic_ids db = sm_id ` set (db_semantic db)"

definition meta_ids :: "'v Db \<Rightarrow> string set" where
  "meta_ids db = mm_id ` set (db_meta db)"

definition message_keys :: "'v Db \<Rightarrow> (string \<times> string) set" where
  "message_keys db = (\<lambda>m. (mw_id m, mw_chat_id m)) ` set (db_working db)"

definition joins_ok :: "'v Db \<Rightarrow> bool" where
  "joins_ok db \<longleftrightarrow>
     (\<forall>(s, m, c) \<in> set (db_sms db). s \<in> semantic_ids db \<and> (m, c) \<in> message_keys db) \<and>
     (\<forall>(p, c) \<in> set (db_sps db). p \<in> semantic_ids db \<and> c \<in> semantic_ids db) \<and>
     (\<forall>(m, s) \<in> set (db_mms db). m \<in> meta_ids db \<and> s \<in> semantic_ids db) \<and>
     (\<forall>(p, c) \<in> set (db_mps db). p \<in> meta_ids db \<and> c \<in> meta_ids db)"

text \<open>All that the schema enforces on these tables, with exactly one default profile (it enforces at most one).\<close>

definition db_ok :: "'v Db \<Rightarrow> bool" where
  "db_ok db \<longleftrightarrow>
     ids_distinct db \<and> distinct (map ap_name (db_profiles db)) \<and> profile_refs db \<subseteq> profile_ids db \<and> joins_ok db \<and>
     length (filter ap_is_default (db_profiles db)) = 1"

text \<open>Statements with their constraint checks.\<close>

definition insert_profile :: "ProfileRow \<Rightarrow> ('v, ProfileRow) db_op" where
  "insert_profile row db =
     (if ap_name row \<in> ap_name ` set (db_profiles db) then (Inl (Unique_violation ''agent_profiles_name_key''), db)
      else if ap_is_default row \<and> list_ex ap_is_default (db_profiles db) then (Inl (Unique_violation ''uq_one_default_profile''), db)
      else (Inr row, db\<lparr>db_profiles := db_profiles db @ [row]\<rparr>))"

definition delete_profile_row :: "string \<Rightarrow> ('v, unit) db_op" where
  "delete_profile_row pid db =
     (if pid \<in> profile_refs db then (Inl (Foreign_key ''agent_profiles''), db)
      else (Inr (), db\<lparr>db_profiles := filter (\<lambda>r. ap_id r \<noteq> pid) (db_profiles db)\<rparr>))"

text \<open>Deletions from the memory tables cascade to the join tables.\<close>

definition delete_semantic_where :: "('v SemanticRow \<Rightarrow> bool) \<Rightarrow> 'v Db \<Rightarrow> 'v Db" where
  "delete_semantic_where P db =
     (let gone = sm_id ` set (filter P (db_semantic db)) in
      db\<lparr>db_semantic := filter (\<lambda>r. \<not> P r) (db_semantic db),
         db_sms := filter (\<lambda>(s, m, c). s \<notin> gone) (db_sms db),
         db_sps := filter (\<lambda>(p, c). p \<notin> gone \<and> c \<notin> gone) (db_sps db),
         db_mms := filter (\<lambda>(m, s). s \<notin> gone) (db_mms db)\<rparr>)"

definition delete_meta_where :: "('v MetaRow \<Rightarrow> bool) \<Rightarrow> 'v Db \<Rightarrow> 'v Db" where
  "delete_meta_where P db =
     (let gone = mm_id ` set (filter P (db_meta db)) in
      db\<lparr>db_meta := filter (\<lambda>r. \<not> P r) (db_meta db),
         db_mms := filter (\<lambda>(m, s). m \<notin> gone) (db_mms db),
         db_mps := filter (\<lambda>(p, c). p \<notin> gone \<and> c \<notin> gone) (db_mps db)\<rparr>)"

text \<open>\<^verbatim>\<open>INSERT ... ON CONFLICT DO NOTHING\<close> into a join table.\<close>

definition insert_new :: "'a \<Rightarrow> 'a list \<Rightarrow> 'a list" where
  "insert_new x xs = (if x \<in> set xs then xs else xs @ [x])"

lemma set_insert_new [simp]: "set (insert_new x xs) = insert x (set xs)"
  by (auto simp: insert_new_def)

lemma distinct_insert_new [simp]: "distinct xs \<Longrightarrow> distinct (insert_new x xs)"
  by (simp add: insert_new_def)

section \<open>Start\<close>

text \<open>The seed at the end of the schema, run at every start.\<close>

definition seed_default_profile :: "string \<Rightarrow> time \<Rightarrow> ('v, unit) db_op" where
  "seed_default_profile newId now db =
     (if ''default'' \<in> ap_name ` set (db_profiles db) then (Inr (), db)
      else bindD (insert_profile \<lparr>ap_id = newId, ap_name = ''default'', ap_description = Some ''Default agent profile'',
             ap_is_default = True, ap_created_at = now, ap_updated_at = now\<rparr>) (\<lambda>_. retD ()) db)"

section \<open>Chats and messages\<close>

definition upsertChat ::
  "time \<Rightarrow> string \<Rightarrow> string \<Rightarrow> string \<Rightarrow> string option \<Rightarrow> bool option \<Rightarrow> string \<Rightarrow> ('v, string) db_op" where
  "upsertChat now cid channel externalId name isGroup profileId db =
     (if cid \<in> ch_id ` set (db_chats db)
      then (Inr cid, db\<lparr>db_chats := map (\<lambda>r. if ch_id r = cid
              then r\<lparr>ch_name := (case name of Some n \<Rightarrow> Some n | None \<Rightarrow> ch_name r), ch_updated_at := now\<rparr> else r) (db_chats db)\<rparr>)
      else if (channel, externalId) \<in> (\<lambda>r. (ch_channel r, ch_external_id r)) ` set (db_chats db)
      then (Inl (Unique_violation ''chats_channel_external_id_key''), db)
      else if profileId \<notin> profile_ids db then (Inl (Foreign_key ''chats_profile_id_fkey''), db)
      else (Inr cid, db\<lparr>db_chats := db_chats db @
              [\<lparr>ch_id = cid, ch_channel = channel, ch_external_id = externalId, ch_name = name,
                ch_is_group = (case isGroup of Some b \<Rightarrow> b | None \<Rightarrow> False), ch_profile_id = profileId,
                ch_created_at = now, ch_updated_at = now\<rparr>]\<rparr>))"

definition getChat :: "string \<Rightarrow> 'v Db \<Rightarrow> ChatRow option" where
  "getChat cid db = find (\<lambda>r. ch_id r = cid) (db_chats db)"

text \<open>Also upserts the chat. The row comes with its generated defaults filled in.\<close>

definition storeMessage :: "time \<Rightarrow> string \<Rightarrow> string \<Rightarrow> string \<Rightarrow> MessageRow \<Rightarrow> ('v, unit) db_op" where
  "storeMessage now channel externalChatId profileId msg =
     bindD (upsertChat now (mw_chat_id msg) channel externalChatId None None profileId) (\<lambda>_ db.
       if (mw_id msg, mw_chat_id msg) \<in> message_keys db then (Inr (), db)
       else (case mw_session_id msg of
               Some s \<Rightarrow> if s \<in> ss_id ` set (db_sessions db)
                 then (Inr (), db\<lparr>db_working := db_working db @ [msg]\<rparr>)
                 else (Inl (Foreign_key ''memory_working_session_id_fkey''), db)
             | None \<Rightarrow> (Inr (), db\<lparr>db_working := db_working db @ [msg]\<rparr>)))"

definition backfillSessionId :: "string \<Rightarrow> string \<Rightarrow> string \<Rightarrow> ('v, unit) db_op" where
  "backfillSessionId messageId chatId sessionId db =
     (let hit = (\<lambda>m. mw_id m = messageId \<and> mw_chat_id m = chatId \<and> mw_session_id m = None) in
      if list_ex hit (db_working db) \<and> sessionId \<notin> ss_id ` set (db_sessions db)
      then (Inl (Foreign_key ''memory_working_session_id_fkey''), db)
      else (Inr (), db\<lparr>db_working := map (\<lambda>m. if hit m then m\<lparr>mw_session_id := Some sessionId\<rparr> else m) (db_working db)\<rparr>))"

text \<open>
  \<^verbatim>\<open>SELECT * FROM (SELECT ... ORDER BY timestamp DESC LIMIT n) sub ORDER BY timestamp ASC\<close>: the newest \<open>n\<close>,
  oldest first. Among messages of the same time the choice is PostgreSQL's; here later rows count as
  newer.
\<close>

definition newest :: "nat \<Rightarrow> MessageRow list \<Rightarrow> MessageRow list" where
  "newest n ms = (let s = sort_key mw_timestamp ms in drop (length s - n) s)"

definition getMessagesSince :: "string \<Rightarrow> time \<Rightarrow> nat \<Rightarrow> 'v Db \<Rightarrow> MessageRow list" where
  "getMessagesSince chatId since n db =
     newest n (filter (\<lambda>m. mw_chat_id m = chatId \<and> mw_timestamp m > since \<and> \<not> mw_is_bot_message m) (db_working db))"

definition getRecentMessages :: "string \<Rightarrow> nat \<Rightarrow> 'v Db \<Rightarrow> MessageRow list" where
  "getRecentMessages chatId n db = newest n (filter (\<lambda>m. mw_chat_id m = chatId) (db_working db))"

lemma newest_spec:
  "length (newest n ms) = min n (length ms)" "sorted (map mw_timestamp (newest n ms))" "set (newest n ms) \<subseteq> set ms"
  by (auto simp: newest_def Let_def sorted_wrt_drop drop_map [symmetric] dest: in_set_dropD)

text \<open>A message that is left out is not newer than one that is returned.\<close>

lemma newest_newest:
  assumes "m \<in> set ms" "m \<notin> set (newest n ms)" "m' \<in> set (newest n ms)"
  shows "mw_timestamp m \<le> mw_timestamp m'"
proof -
  let ?s = "sort_key mw_timestamp ms" and ?k = "length ms - n"
  have "set ms = set (take ?k ?s) \<union> set (drop ?k ?s)" by (metis append_take_drop_id set_append set_sort)
  then have "m \<in> set (take ?k ?s)" using assms(1,2) by (auto simp: newest_def Let_def)
  moreover have "m' \<in> set (drop ?k ?s)" using assms(3) by (simp add: newest_def Let_def)
  moreover have "sorted (map mw_timestamp (take ?k ?s @ drop ?k ?s))" by (simp only: append_take_drop_id sorted_sort_key)
  ultimately show ?thesis by (auto simp: sorted_append simp del: append_take_drop_id)
qed

end
