(* ===== verification/Profile_Manager.thy ===== *)
theory Profile_Manager
  imports Memory_Db
begin

text \<open>
  \<^verbatim>\<open>src/src/orchestrator/profile-manager.ts\<close>: the agent profiles of a user with the chats assigned to them and
  the memories that belong to them. Every operation is the sequence of its statements. Shown: the
  operations keep the constraints of the schema and exactly one default profile; a clone is a copy of all
  of the memory of its source up to the names of the entries, and nothing else changes; a deletion
  removes what belongs to the profile and nothing else, but is not atomic; and a database whose original
  default profile was deleted cannot be started again.
\<close>

section \<open>Operations\<close>

definition getProfile :: "string \<Rightarrow> 'v Db \<Rightarrow> ProfileRow option" where
  "getProfile profileId db = find (\<lambda>r. ap_id r = profileId) (db_profiles db)"

definition getProfileByName :: "string \<Rightarrow> 'v Db \<Rightarrow> ProfileRow option" where
  "getProfileByName name db = find (\<lambda>r. ap_name r = name) (db_profiles db)"

definition getDefaultProfile :: "'v Db \<Rightarrow> ProfileRow option" where
  "getDefaultProfile db = find ap_is_default (db_profiles db)"

definition getChatProfile :: "string \<Rightarrow> 'v Db \<Rightarrow> ProfileRow option" where
  "getChatProfile chatId db = Option.bind (getChat chatId db) (\<lambda>c. getProfile (ch_profile_id c) db)"

record ProfileWithStats =
  ps_profile :: ProfileRow
  ps_chatCount :: nat
  ps_semanticMemoryCount :: nat
  ps_metaMemoryCount :: nat

definition listProfiles :: "'v Db \<Rightarrow> ProfileWithStats list" where
  "listProfiles db =
     map (\<lambda>p. \<lparr>ps_profile = p,
         ps_chatCount = length (filter (\<lambda>c. ch_profile_id c = ap_id p) (db_chats db)),
         ps_semanticMemoryCount = length (filter (\<lambda>r. sm_profile_id r = ap_id p) (db_semantic db)),
         ps_metaMemoryCount = length (filter (\<lambda>r. mm_profile_id r = ap_id p) (db_meta db))\<rparr>)
       (sort_key ap_created_at (db_profiles db))"

definition checkLimit :: "nat \<Rightarrow> ('v, nat) db_op" where
  "checkLimit maxProfiles db =
     (let cnt = length (db_profiles db) in if cnt \<ge> maxProfiles then (Inl (Thrown ''Profile limit reached''), db) else (Inr cnt, db))"

definition createProfile :: "nat \<Rightarrow> time \<Rightarrow> string \<Rightarrow> string \<Rightarrow> string option \<Rightarrow> ('v, ProfileRow) db_op" where
  "createProfile maxProfiles now newId name description =
     bindD (checkLimit maxProfiles) (\<lambda>cnt.
       insert_profile \<lparr>ap_id = newId, ap_name = name, ap_description = description, ap_is_default = (cnt = 0),
         ap_created_at = now, ap_updated_at = now\<rparr>)"

definition setDefaultProfile :: "time \<Rightarrow> string \<Rightarrow> ('v, unit) db_op" where
  "setDefaultProfile now profileId db =
     (case getProfile profileId db of
        None \<Rightarrow> (Inl (Thrown ''Profile not found''), db)
      | Some p \<Rightarrow>
          if ap_is_default p then (Inr (), db)
          else transaction (bindD
            (execD (\<lambda>db. db\<lparr>db_profiles := map (\<lambda>r. if ap_is_default r then r\<lparr>ap_is_default := False, ap_updated_at := now\<rparr> else r)
                              (db_profiles db)\<rparr>))
            (\<lambda>_. execD (\<lambda>db. db\<lparr>db_profiles := map (\<lambda>r. if ap_id r = profileId then r\<lparr>ap_is_default := True, ap_updated_at := now\<rparr> else r)
                              (db_profiles db)\<rparr>))) db)"

definition assignChat :: "time \<Rightarrow> string \<Rightarrow> string \<Rightarrow> ('v, string) db_op" where
  "assignChat now chatId profileId db =
     (case getProfile profileId db of
        None \<Rightarrow> (Inl (Thrown ''Target profile not found''), db)
      | Some p \<Rightarrow>
          (case getChat chatId db of
             None \<Rightarrow> (Inl (Thrown ''Chat not found''), db)
           | Some c \<Rightarrow>
               (Inr (ch_profile_id c),
                db\<lparr>db_chats := map (\<lambda>r. if ch_id r = chatId then r\<lparr>ch_profile_id := profileId, ch_updated_at := now\<rparr> else r)
                  (db_chats db)\<rparr>)))"

section \<open>Deletion\<close>

text \<open>The checks before a deletion, and its statements in their order. They do not run in a transaction.\<close>

definition deleteChecks :: "string \<Rightarrow> 'v Db \<Rightarrow> db_error option" where
  "deleteChecks profileId db =
     (case getProfile profileId db of
        None \<Rightarrow> Some (Thrown ''Profile not found'')
      | Some p \<Rightarrow>
          if ap_is_default p then Some (Thrown ''Cannot delete the default profile'')
          else if list_ex (\<lambda>c. ch_profile_id c = profileId) (db_chats db)
          then Some (Thrown ''Cannot delete profile with assigned chats'')
          else None)"

definition semanticOf :: "string \<Rightarrow> 'v Db \<Rightarrow> string set" where
  "semanticOf profileId db = sm_id ` set (filter (\<lambda>r. sm_profile_id r = profileId) (db_semantic db))"

definition metaOf :: "string \<Rightarrow> 'v Db \<Rightarrow> string set" where
  "metaOf profileId db = mm_id ` set (filter (\<lambda>r. mm_profile_id r = profileId) (db_meta db))"

definition deleteStatements :: "string \<Rightarrow> ('v, unit) db_op list" where
  "deleteStatements profileId =
     [execD (\<lambda>db. db\<lparr>db_mms := filter (\<lambda>(m, s). m \<notin> metaOf profileId db) (db_mms db)\<rparr>),
      execD (\<lambda>db. db\<lparr>db_mms := filter (\<lambda>(m, s). s \<notin> semanticOf profileId db) (db_mms db)\<rparr>),
      execD (\<lambda>db. db\<lparr>db_sps := filter (\<lambda>(p, c). \<not> (p \<in> semanticOf profileId db \<or> c \<in> semanticOf profileId db)) (db_sps db)\<rparr>),
      execD (\<lambda>db. db\<lparr>db_sms := filter (\<lambda>(s, m, c). s \<notin> semanticOf profileId db) (db_sms db)\<rparr>),
      execD (\<lambda>db. db\<lparr>db_external := filter (\<lambda>r. ex_profile_id r \<noteq> profileId) (db_external db)\<rparr>),
      execD (delete_meta_where (\<lambda>r. mm_profile_id r = profileId)),
      execD (delete_semantic_where (\<lambda>r. sm_profile_id r = profileId)),
      execD (\<lambda>db. db\<lparr>db_personality := filter (\<lambda>r. pp_profile_id r \<noteq> profileId) (db_personality db)\<rparr>),
      execD (\<lambda>db. db\<lparr>db_identity := filter (\<lambda>r. ai_profile_id r \<noteq> profileId) (db_identity db)\<rparr>),
      delete_profile_row profileId]"

text \<open>Statements one after the other, up to the first that fails.\<close>

fun sequenceD :: "('v, unit) db_op list \<Rightarrow> ('v, unit) db_op" where
  "sequenceD [] = retD ()"
| "sequenceD (m # ms) = bindD m (\<lambda>_. sequenceD ms)"

definition deleteProfile :: "string \<Rightarrow> ('v, unit) db_op" where
  "deleteProfile profileId db =
     (case deleteChecks profileId db of
        Some e \<Rightarrow> (Inl e, db)
      | None \<Rightarrow> sequenceD (deleteStatements profileId) db)"

text \<open>A deletion with another operation of the same process between two of its statements.\<close>

definition deleteInterleaved :: "string \<Rightarrow> nat \<Rightarrow> ('v, 'a) db_op \<Rightarrow> ('v, unit) db_op" where
  "deleteInterleaved profileId k other db =
     (case deleteChecks profileId db of
        Some e \<Rightarrow> (Inl e, db)
      | None \<Rightarrow> bindD (sequenceD (take k (deleteStatements profileId)))
                 (\<lambda>_ db. sequenceD (drop k (deleteStatements profileId)) (snd (other db))) db)"

section \<open>Cloning\<close>

text \<open>The ids PostgreSQL generates for a clone.\<close>

record CloneIds =
  ci_profile :: string
  ci_semantic :: "string \<Rightarrow> string"
  ci_meta :: "string \<Rightarrow> string"
  ci_external :: "string \<Rightarrow> string"

definition clonedSemantic :: "CloneIds \<Rightarrow> time \<Rightarrow> 'v SemanticRow \<Rightarrow> 'v SemanticRow" where
  "clonedSemantic ids now r =
     r\<lparr>sm_id := ci_semantic ids (sm_id r), sm_profile_id := ci_profile ids, sm_created_at := now, sm_updated_at := now,
       sm_last_accessed := now, sm_access_count := 0\<rparr>"

definition clonedMeta :: "CloneIds \<Rightarrow> time \<Rightarrow> 'v MetaRow \<Rightarrow> 'v MetaRow" where
  "clonedMeta ids now r =
     r\<lparr>mm_id := ci_meta ids (mm_id r), mm_profile_id := ci_profile ids, mm_created_at := now, mm_updated_at := now,
       mm_last_accessed := now\<rparr>"

definition clonedExternal :: "CloneIds \<Rightarrow> time \<Rightarrow> 'v ExternalRow \<Rightarrow> 'v ExternalRow" where
  "clonedExternal ids now r = r\<lparr>ex_id := ci_external ids (ex_id r), ex_profile_id := ci_profile ids, ex_created_at := now\<rparr>"

definition clonedIdentity :: "CloneIds \<Rightarrow> time \<Rightarrow> IdentityRow \<Rightarrow> IdentityRow" where
  "clonedIdentity ids now r = r\<lparr>ai_profile_id := ci_profile ids, ai_created_at := now, ai_updated_at := now\<rparr>"

definition clonedPersonality :: "CloneIds \<Rightarrow> time \<Rightarrow> PersonalityRow \<Rightarrow> PersonalityRow" where
  "clonedPersonality ids now r = r\<lparr>pp_profile_id := ci_profile ids, pp_created_at := now, pp_updated_at := now\<rparr>"

text \<open>A pair of old ids, remapped when both are in the maps.\<close>

definition remap :: "(string, string) js_map \<Rightarrow> (string, string) js_map \<Rightarrow> string \<times> string \<Rightarrow> (string \<times> string) list \<Rightarrow> (string \<times> string) list" where
  "remap m1 m2 e es =
     (case (js_get m1 (fst e), js_get m2 (snd e)) of
        (Some a, Some b) \<Rightarrow> insert_new (a, b) es
      | _ \<Rightarrow> es)"

definition remapMessage :: "(string, string) js_map \<Rightarrow> string \<times> string \<times> string \<Rightarrow> (string \<times> string \<times> string) list \<Rightarrow> (string \<times> string \<times> string) list" where
  "remapMessage m e es = (case js_get m (fst e) of Some a \<Rightarrow> insert_new (a, snd e) es | None \<Rightarrow> es)"

definition cloneBody :: "CloneIds \<Rightarrow> time \<Rightarrow> string \<Rightarrow> ProfileRow \<Rightarrow> ('v, ProfileRow) db_op" where
  "cloneBody ids now sourceId row =
     bindD (insert_profile row) (\<lambda>newProfile.
     bindD (execD (\<lambda>db. db\<lparr>db_identity := db_identity db @ map (clonedIdentity ids now) (filter (\<lambda>r. ai_profile_id r = sourceId) (db_identity db))\<rparr>)) (\<lambda>_.
     bindD (execD (\<lambda>db. db\<lparr>db_personality := db_personality db @ map (clonedPersonality ids now) (filter (\<lambda>r. pp_profile_id r = sourceId) (db_personality db))\<rparr>)) (\<lambda>_.
     bindD (queryD (\<lambda>db. sort_key sm_id (filter (\<lambda>r. sm_profile_id r = sourceId) (db_semantic db)))) (\<lambda>semanticSources.
     let semanticIdMap = map (\<lambda>r. (sm_id r, ci_semantic ids (sm_id r))) semanticSources in
     bindD (execD (\<lambda>db. db\<lparr>db_semantic := db_semantic db @ map (clonedSemantic ids now) semanticSources\<rparr>)) (\<lambda>_.
     bindD (queryD (\<lambda>db. sort_key mm_id (filter (\<lambda>r. mm_profile_id r = sourceId) (db_meta db)))) (\<lambda>metaSources.
     let metaIdMap = map (\<lambda>r. (mm_id r, ci_meta ids (mm_id r))) metaSources in
     bindD (execD (\<lambda>db. db\<lparr>db_meta := db_meta db @ map (clonedMeta ids now) metaSources\<rparr>)) (\<lambda>_.
     bindD (execD (\<lambda>db. db\<lparr>db_external := db_external db @ map (clonedExternal ids now) (filter (\<lambda>r. ex_profile_id r = sourceId) (db_external db))\<rparr>)) (\<lambda>_.
     bindD (execD (\<lambda>db. db\<lparr>db_sms := fold (remapMessage semanticIdMap) (filter (\<lambda>e. fst e \<in> semanticOf sourceId db) (db_sms db)) (db_sms db)\<rparr>)) (\<lambda>_.
     bindD (execD (\<lambda>db. db\<lparr>db_sps := fold (remap semanticIdMap semanticIdMap) (filter (\<lambda>e. fst e \<in> semanticOf sourceId db) (db_sps db)) (db_sps db)\<rparr>)) (\<lambda>_.
     bindD (execD (\<lambda>db. db\<lparr>db_mms := fold (remap metaIdMap semanticIdMap) (filter (\<lambda>e. fst e \<in> metaOf sourceId db) (db_mms db)) (db_mms db)\<rparr>)) (\<lambda>_.
     bindD (execD (\<lambda>db. db\<lparr>db_mps := fold (remap metaIdMap metaIdMap) (filter (\<lambda>e. fst e \<in> metaOf sourceId db) (db_mps db)) (db_mps db)\<rparr>)) (\<lambda>_.
     retD newProfile))))))))))))"

definition cloneProfile ::
  "nat \<Rightarrow> CloneIds \<Rightarrow> time \<Rightarrow> string \<Rightarrow> string \<Rightarrow> string option \<Rightarrow> ('v, ProfileRow) db_op" where
  "cloneProfile maxProfiles ids now sourceId newName newDescription db =
     (case getProfile sourceId db of
        None \<Rightarrow> (Inl (Thrown ''Source profile not found''), db)
      | Some source \<Rightarrow>
          bindD (checkLimit maxProfiles) (\<lambda>_. transaction (cloneBody ids now sourceId
            \<lparr>ap_id = ci_profile ids, ap_name = newName,
             ap_description = (case newDescription of Some d \<Rightarrow> Some d | None \<Rightarrow> ap_description source),
             ap_is_default = False, ap_created_at = now, ap_updated_at = now\<rparr>)) db)"

section \<open>What belongs to a profile\<close>

text \<open>The contents of a row: all but its ids and the fields that count accesses.\<close>

definition semContent :: "'v SemanticRow \<Rightarrow> 'v SemanticRow" where
  "semContent r = r\<lparr>sm_id := [], sm_profile_id := [], sm_created_at := 0, sm_updated_at := 0, sm_last_accessed := 0, sm_access_count := 0\<rparr>"

definition metaContent :: "'v MetaRow \<Rightarrow> 'v MetaRow" where
  "metaContent r = r\<lparr>mm_id := [], mm_profile_id := [], mm_created_at := 0, mm_updated_at := 0, mm_last_accessed := 0\<rparr>"

definition extContent :: "'v ExternalRow \<Rightarrow> 'v ExternalRow" where
  "extContent r = r\<lparr>ex_id := [], ex_profile_id := [], ex_created_at := 0\<rparr>"

definition idContent :: "IdentityRow \<Rightarrow> IdentityRow" where
  "idContent r = r\<lparr>ai_profile_id := [], ai_created_at := 0, ai_updated_at := 0\<rparr>"

definition persContent :: "PersonalityRow \<Rightarrow> PersonalityRow" where
  "persContent r = r\<lparr>pp_profile_id := [], pp_created_at := 0, pp_updated_at := 0\<rparr>"

text \<open>A profile as a graph of named entries: what the memory operations can see of it.\<close>

record 'v View =
  vw_semantic :: "(string \<times> 'v SemanticRow) set"
  vw_meta :: "(string \<times> 'v MetaRow) set"
  vw_external :: "(string \<times> 'v ExternalRow) set"
  vw_identity :: "IdentityRow set"
  vw_personality :: "PersonalityRow set"
  vw_messages :: "(string \<times> string \<times> string) set"
  vw_summaries :: "(string \<times> string) set"
  vw_sources :: "(string \<times> string) set"
  vw_reflections :: "(string \<times> string) set"

definition view :: "string \<Rightarrow> 'v Db \<Rightarrow> 'v View" where
  "view p db =
     \<lparr>vw_semantic = (\<lambda>r. (sm_id r, semContent r)) ` {r \<in> set (db_semantic db). sm_profile_id r = p},
      vw_meta = (\<lambda>r. (mm_id r, metaContent r)) ` {r \<in> set (db_meta db). mm_profile_id r = p},
      vw_external = (\<lambda>r. (ex_id r, extContent r)) ` {r \<in> set (db_external db). ex_profile_id r = p},
      vw_identity = idContent ` {r \<in> set (db_identity db). ai_profile_id r = p},
      vw_personality = persContent ` {r \<in> set (db_personality db). pp_profile_id r = p},
      vw_messages = {e \<in> set (db_sms db). fst e \<in> semanticOf p db},
      vw_summaries = {e \<in> set (db_sps db). fst e \<in> semanticOf p db \<and> snd e \<in> semanticOf p db},
      vw_sources = {e \<in> set (db_mms db). fst e \<in> metaOf p db \<and> snd e \<in> semanticOf p db},
      vw_reflections = {e \<in> set (db_mps db). fst e \<in> metaOf p db \<and> snd e \<in> metaOf p db}\<rparr>"

definition renamed :: "CloneIds \<Rightarrow> 'v View \<Rightarrow> 'v View" where
  "renamed ids v =
     \<lparr>vw_semantic = map_prod (ci_semantic ids) id ` vw_semantic v,
      vw_meta = map_prod (ci_meta ids) id ` vw_meta v,
      vw_external = map_prod (ci_external ids) id ` vw_external v,
      vw_identity = vw_identity v,
      vw_personality = vw_personality v,
      vw_messages = map_prod (ci_semantic ids) id ` vw_messages v,
      vw_summaries = map_prod (ci_semantic ids) (ci_semantic ids) ` vw_summaries v,
      vw_sources = map_prod (ci_meta ids) (ci_semantic ids) ` vw_sources v,
      vw_reflections = map_prod (ci_meta ids) (ci_meta ids) ` vw_reflections v\<rparr>"

definition emptyView :: "'v View" where
  "emptyView = \<lparr>vw_semantic = {}, vw_meta = {}, vw_external = {}, vw_identity = {}, vw_personality = {}, vw_messages = {},
     vw_summaries = {}, vw_sources = {}, vw_reflections = {}\<rparr>"

text \<open>Generated ids are new and different from each other.\<close>

definition external_ids :: "'v Db \<Rightarrow> string set" where
  "external_ids db = ex_id ` set (db_external db)"

definition fresh_ids :: "CloneIds \<Rightarrow> 'v Db \<Rightarrow> bool" where
  "fresh_ids ids db \<longleftrightarrow>
     ci_profile ids \<notin> profile_ids db \<and>
     inj_on (ci_semantic ids) (semantic_ids db) \<and> ci_semantic ids ` semantic_ids db \<inter> semantic_ids db = {} \<and>
     inj_on (ci_meta ids) (meta_ids db) \<and> ci_meta ids ` meta_ids db \<inter> meta_ids db = {} \<and>
     inj_on (ci_external ids) (external_ids db) \<and> ci_external ids ` external_ids db \<inter> external_ids db = {}"

section \<open>Lookup facts\<close>

lemma getProfile_Some: "getProfile p db = Some r \<Longrightarrow> r \<in> set (db_profiles db) \<and> ap_id r = p"
  unfolding getProfile_def by (rule find_SomeD)

lemma getProfile_iff: "getProfile p db \<noteq> None \<longleftrightarrow> p \<in> profile_ids db"
  by (auto simp: getProfile_def profile_ids_def find_None_iff)

lemma getChat_Some: "getChat c db = Some r \<Longrightarrow> r \<in> set (db_chats db) \<and> ch_id r = c"
  unfolding getChat_def by (rule find_SomeD)

lemma semanticOf_iff: "i \<in> semanticOf p db \<longleftrightarrow> (\<exists>r \<in> set (db_semantic db). sm_id r = i \<and> sm_profile_id r = p)"
  by (auto simp: semanticOf_def)

lemma metaOf_iff: "i \<in> metaOf p db \<longleftrightarrow> (\<exists>r \<in> set (db_meta db). mm_id r = i \<and> mm_profile_id r = p)"
  by (auto simp: metaOf_def)

lemma semanticOf_ids: "i \<in> semanticOf p db \<Longrightarrow> i \<in> semantic_ids db"
  by (auto simp: semanticOf_iff semantic_ids_def)

lemma metaOf_ids: "i \<in> metaOf p db \<Longrightarrow> i \<in> meta_ids db"
  by (auto simp: metaOf_iff meta_ids_def)

text \<open>Remapping the tuples of a join table.\<close>

lemma get_id_map: "js_get (map (\<lambda>r. (k r, f (k r))) rs) x = (if x \<in> k ` set rs then Some (f x) else None)"
  by (induction rs) auto

lemma set_fold_remap:
  "set (fold (remap m1 m2) es acc) = set acc \<union> {(a, b). \<exists>e \<in> set es. js_get m1 (fst e) = Some a \<and> js_get m2 (snd e) = Some b}"
proof (induction es arbitrary: acc)
  case (Cons e es)
  have "set (remap m1 m2 e acc) = set acc \<union> {(a, b). js_get m1 (fst e) = Some a \<and> js_get m2 (snd e) = Some b}"
    by (auto simp: remap_def split: option.split)
  then show ?case using Cons by auto
qed simp

lemma distinct_fold_remap: "distinct acc \<Longrightarrow> distinct (fold (remap m1 m2) es acc)"
  by (induction es arbitrary: acc) (auto simp: remap_def split: option.split)

lemma set_fold_remapMessage:
  "set (fold (remapMessage m) es acc) = set acc \<union> {(a, x). \<exists>e \<in> set es. js_get m (fst e) = Some a \<and> snd e = x}"
proof (induction es arbitrary: acc)
  case (Cons e es)
  have "set (remapMessage m e acc) = set acc \<union> {(a, x). js_get m (fst e) = Some a \<and> snd e = x}"
    by (auto simp: remapMessage_def split: option.split)
  then show ?case using Cons by auto
qed simp

lemma distinct_fold_remapMessage: "distinct acc \<Longrightarrow> distinct (fold (remapMessage m) es acc)"
  by (induction es arbitrary: acc) (auto simp: remapMessage_def split: option.split)

section \<open>What a clone leaves\<close>

text \<open>The database after a clone, field by field.\<close>

definition clonedDb :: "CloneIds \<Rightarrow> time \<Rightarrow> string \<Rightarrow> ProfileRow \<Rightarrow> 'v Db \<Rightarrow> 'v Db" where
  "clonedDb ids now src row db =
     (let sem = sort_key sm_id (filter (\<lambda>r. sm_profile_id r = src) (db_semantic db));
          met = sort_key mm_id (filter (\<lambda>r. mm_profile_id r = src) (db_meta db));
          sm = map (\<lambda>r. (sm_id r, ci_semantic ids (sm_id r))) sem; mm = map (\<lambda>r. (mm_id r, ci_meta ids (mm_id r))) met
      in db\<lparr>db_profiles := db_profiles db @ [row],
            db_identity := db_identity db @ map (clonedIdentity ids now) (filter (\<lambda>r. ai_profile_id r = src) (db_identity db)),
            db_personality := db_personality db @ map (clonedPersonality ids now) (filter (\<lambda>r. pp_profile_id r = src) (db_personality db)),
            db_semantic := db_semantic db @ map (clonedSemantic ids now) sem,
            db_meta := db_meta db @ map (clonedMeta ids now) met,
            db_external := db_external db @ map (clonedExternal ids now) (filter (\<lambda>r. ex_profile_id r = src) (db_external db)),
            db_sms := fold (remapMessage sm) (filter (\<lambda>e. fst e \<in> semanticOf src db) (db_sms db)) (db_sms db),
            db_sps := fold (remap sm sm) (filter (\<lambda>e. fst e \<in> semanticOf src db) (db_sps db)) (db_sps db),
            db_mms := fold (remap mm sm) (filter (\<lambda>e. fst e \<in> metaOf src db) (db_mms db)) (db_mms db),
            db_mps := fold (remap mm mm) (filter (\<lambda>e. fst e \<in> metaOf src db) (db_mps db)) (db_mps db)\<rparr>)"

lemma cloned_fields:
  "sm_id (clonedSemantic ids now r) = ci_semantic ids (sm_id r)" "sm_profile_id (clonedSemantic ids now r) = ci_profile ids"
  "mm_id (clonedMeta ids now m) = ci_meta ids (mm_id m)" "mm_profile_id (clonedMeta ids now m) = ci_profile ids"
  "ex_id (clonedExternal ids now x) = ci_external ids (ex_id x)" "ex_profile_id (clonedExternal ids now x) = ci_profile ids"
  "ai_profile_id (clonedIdentity ids now a) = ci_profile ids" "pp_profile_id (clonedPersonality ids now p) = ci_profile ids"
  "pp_dimension (clonedPersonality ids now p) = pp_dimension p"
  by (simp_all add: clonedSemantic_def clonedMeta_def clonedExternal_def clonedIdentity_def clonedPersonality_def)

lemma new_rows_elsewhere:
  assumes "ci_profile ids \<noteq> src"
  shows "filter (\<lambda>r. sm_profile_id r = src) (map (clonedSemantic ids now) xs) = []"
    "filter (\<lambda>r. mm_profile_id r = src) (map (clonedMeta ids now) ys) = []"
  using assms by (simp_all add: filter_map o_def cloned_fields)

lemma cloneBody_result:
  assumes "ci_profile ids \<noteq> src"
  shows "cloneBody ids now src row db =
    (case insert_profile row db of (Inl e, db1) \<Rightarrow> (Inl e, db1) | (Inr p, db1) \<Rightarrow> (Inr row, clonedDb ids now src row db))"
proof (cases "insert_profile row db")
  case (Pair res db1)
  show ?thesis
  proof (cases res)
    case (Inl e)
    then show ?thesis using Pair by (simp add: cloneBody_def bindD_def)
  next
    case (Inr p)
    then have p: "p = row" "db1 = db\<lparr>db_profiles := db_profiles db @ [row]\<rparr>"
      using Pair by (auto simp: insert_profile_def split: if_splits)
    show ?thesis using Pair Inr p
      by (simp add: cloneBody_def clonedDb_def bindD_def execD_def queryD_def retD_def Let_def semanticOf_def metaOf_def
          filter_append new_rows_elsewhere [OF assms] del: set_filter set_append)
  qed
qed

lemma clone_success:
  assumes "cloneProfile n ids now src name desc db = (Inr p, db')" "ci_profile ids \<notin> profile_ids db"
  shows "src \<in> profile_ids db" "ap_id p = ci_profile ids" "ap_name p = name" "\<not> ap_is_default p"
    "name \<notin> ap_name ` set (db_profiles db)" "db' = clonedDb ids now src p db" "length (db_profiles db) < n"
proof -
  obtain s where s: "getProfile src db = Some s" using assms(1) by (auto simp: cloneProfile_def split: option.splits)
  then show src: "src \<in> profile_ids db" using getProfile_iff [of src db] by simp
  then have ne: "ci_profile ids \<noteq> src" using assms(2) by blast
  note r = assms(1) [unfolded cloneProfile_def s option.case]
  show "ap_id p = ci_profile ids" "ap_name p = name" "\<not> ap_is_default p" "name \<notin> ap_name ` set (db_profiles db)"
    "db' = clonedDb ids now src p db" "length (db_profiles db) < n"
    using r by (auto simp: bindD_def checkLimit_def transaction_def cloneBody_result [OF ne] insert_profile_def Let_def split: if_splits)
qed

lemma clonedDb_simps [simp]:
  "db_profiles (clonedDb ids now src row db) = db_profiles db @ [row]" "db_chats (clonedDb ids now src row db) = db_chats db"
  "db_working (clonedDb ids now src row db) = db_working db" "db_sessions (clonedDb ids now src row db) = db_sessions db"
  "db_user_personality (clonedDb ids now src row db) = db_user_personality db"
  "db_identity (clonedDb ids now src row db) = db_identity db @ map (clonedIdentity ids now) (filter (\<lambda>r. ai_profile_id r = src) (db_identity db))"
  "db_personality (clonedDb ids now src row db) = db_personality db @ map (clonedPersonality ids now) (filter (\<lambda>r. pp_profile_id r = src) (db_personality db))"
  "db_semantic (clonedDb ids now src row db) = db_semantic db @ map (clonedSemantic ids now) (sort_key sm_id (filter (\<lambda>r. sm_profile_id r = src) (db_semantic db)))"
  "db_meta (clonedDb ids now src row db) = db_meta db @ map (clonedMeta ids now) (sort_key mm_id (filter (\<lambda>r. mm_profile_id r = src) (db_meta db)))"
  "db_external (clonedDb ids now src row db) = db_external db @ map (clonedExternal ids now) (filter (\<lambda>r. ex_profile_id r = src) (db_external db))"
  by (simp_all add: clonedDb_def Let_def)

lemma cloned_map: "js_get (map (\<lambda>r. (sm_id r, f (sm_id r))) (sort_key sm_id (filter (\<lambda>r. sm_profile_id r = src) (db_semantic db)))) x =
    (if x \<in> semanticOf src db then Some (f x) else None)"
  "js_get (map (\<lambda>r. (mm_id r, f (mm_id r))) (sort_key mm_id (filter (\<lambda>r. mm_profile_id r = src) (db_meta db)))) y =
    (if y \<in> metaOf src db then Some (f y) else None)"
  unfolding get_id_map by (simp_all add: semanticOf_def metaOf_def)

lemma remapped_pairs:
  "{(a, b). \<exists>e \<in> set (filter (\<lambda>e. fst e \<in> A) E). (if fst e \<in> A then Some (f (fst e)) else None) = Some a \<and>
      (if snd e \<in> B then Some (g (snd e)) else None) = Some b} = map_prod f g ` {e \<in> set E. fst e \<in> A \<and> snd e \<in> B}"
  by (force simp: image_iff split: if_splits)

lemma remapped_firsts:
  "{(a, x). \<exists>e \<in> set (filter (\<lambda>e. fst e \<in> A) E). (if fst e \<in> A then Some (f (fst e)) else None) = Some a \<and> snd e = x} =
   map_prod f id ` {e \<in> set E. fst e \<in> A}"
  by (force simp: image_iff split: if_splits)

lemma clonedDb_joins:
  fixes db :: "'v Db" and ids :: CloneIds and src :: string
  defines "sm \<equiv> map (\<lambda>r. (sm_id r, ci_semantic ids (sm_id r))) (sort_key sm_id (filter (\<lambda>r. sm_profile_id r = src) (db_semantic db)))"
    and "mm \<equiv> map (\<lambda>r. (mm_id r, ci_meta ids (mm_id r))) (sort_key mm_id (filter (\<lambda>r. mm_profile_id r = src) (db_meta db)))"
  shows "db_sms (clonedDb ids now src row db) = fold (remapMessage sm) (filter (\<lambda>e. fst e \<in> semanticOf src db) (db_sms db)) (db_sms db)"
    "db_sps (clonedDb ids now src row db) = fold (remap sm sm) (filter (\<lambda>e. fst e \<in> semanticOf src db) (db_sps db)) (db_sps db)"
    "db_mms (clonedDb ids now src row db) = fold (remap mm sm) (filter (\<lambda>e. fst e \<in> metaOf src db) (db_mms db)) (db_mms db)"
    "db_mps (clonedDb ids now src row db) = fold (remap mm mm) (filter (\<lambda>e. fst e \<in> metaOf src db) (db_mps db)) (db_mps db)"
  by (simp_all add: clonedDb_def Let_def sm_def mm_def)

lemma cloned_joins:
  "set (db_sms (clonedDb ids now src row db)) =
     set (db_sms db) \<union> map_prod (ci_semantic ids) id ` {e \<in> set (db_sms db). fst e \<in> semanticOf src db}"
  "set (db_sps (clonedDb ids now src row db)) =
     set (db_sps db) \<union> map_prod (ci_semantic ids) (ci_semantic ids) ` {e \<in> set (db_sps db). fst e \<in> semanticOf src db \<and> snd e \<in> semanticOf src db}"
  "set (db_mms (clonedDb ids now src row db)) =
     set (db_mms db) \<union> map_prod (ci_meta ids) (ci_semantic ids) ` {e \<in> set (db_mms db). fst e \<in> metaOf src db \<and> snd e \<in> semanticOf src db}"
  "set (db_mps (clonedDb ids now src row db)) =
     set (db_mps db) \<union> map_prod (ci_meta ids) (ci_meta ids) ` {e \<in> set (db_mps db). fst e \<in> metaOf src db \<and> snd e \<in> metaOf src db}"
  unfolding clonedDb_joins set_fold_remap set_fold_remapMessage cloned_map remapped_pairs remapped_firsts by (rule refl)+

lemma new_rows:
  assumes "\<And>r. r \<in> set rs \<Longrightarrow> k r \<noteq> new" "\<And>r. k (c r) = new"
  shows "{r \<in> set (rs @ map c xs). k r = q} = (if q = new then c ` set xs else {r \<in> set rs. k r = q})"
  using assms by auto

lemma unreferenced:
  assumes "p \<notin> profile_refs db"
  shows "\<And>r. r \<in> set (db_semantic db) \<Longrightarrow> sm_profile_id r \<noteq> p" "\<And>r. r \<in> set (db_meta db) \<Longrightarrow> mm_profile_id r \<noteq> p"
    "\<And>r. r \<in> set (db_external db) \<Longrightarrow> ex_profile_id r \<noteq> p" "\<And>r. r \<in> set (db_identity db) \<Longrightarrow> ai_profile_id r \<noteq> p"
    "\<And>r. r \<in> set (db_personality db) \<Longrightarrow> pp_profile_id r \<noteq> p"
  using assms by (auto simp: profile_refs_def image_iff)

lemma rows_cloned:
  assumes "ci_profile ids \<notin> profile_refs db"
  shows
    "{r \<in> set (db_semantic (clonedDb ids now src row db)). sm_profile_id r = q} =
      (if q = ci_profile ids then clonedSemantic ids now ` {r \<in> set (db_semantic db). sm_profile_id r = src} else {r \<in> set (db_semantic db). sm_profile_id r = q})"
    "{r \<in> set (db_meta (clonedDb ids now src row db)). mm_profile_id r = q} =
      (if q = ci_profile ids then clonedMeta ids now ` {r \<in> set (db_meta db). mm_profile_id r = src} else {r \<in> set (db_meta db). mm_profile_id r = q})"
    "{r \<in> set (db_external (clonedDb ids now src row db)). ex_profile_id r = q} =
      (if q = ci_profile ids then clonedExternal ids now ` {r \<in> set (db_external db). ex_profile_id r = src} else {r \<in> set (db_external db). ex_profile_id r = q})"
    "{r \<in> set (db_identity (clonedDb ids now src row db)). ai_profile_id r = q} =
      (if q = ci_profile ids then clonedIdentity ids now ` {r \<in> set (db_identity db). ai_profile_id r = src} else {r \<in> set (db_identity db). ai_profile_id r = q})"
    "{r \<in> set (db_personality (clonedDb ids now src row db)). pp_profile_id r = q} =
      (if q = ci_profile ids then clonedPersonality ids now ` {r \<in> set (db_personality db). pp_profile_id r = src} else {r \<in> set (db_personality db). pp_profile_id r = q})"
proof -
  note n = unreferenced [OF assms]
  show
    "{r \<in> set (db_semantic (clonedDb ids now src row db)). sm_profile_id r = q} =
      (if q = ci_profile ids then clonedSemantic ids now ` {r \<in> set (db_semantic db). sm_profile_id r = src} else {r \<in> set (db_semantic db). sm_profile_id r = q})"
    unfolding clonedDb_simps by (subst new_rows [where new = "ci_profile ids"]) (simp_all add: n(1) cloned_fields)
  show
    "{r \<in> set (db_meta (clonedDb ids now src row db)). mm_profile_id r = q} =
      (if q = ci_profile ids then clonedMeta ids now ` {r \<in> set (db_meta db). mm_profile_id r = src} else {r \<in> set (db_meta db). mm_profile_id r = q})"
    unfolding clonedDb_simps by (subst new_rows [where new = "ci_profile ids"]) (simp_all add: n(2) cloned_fields)
  show
    "{r \<in> set (db_external (clonedDb ids now src row db)). ex_profile_id r = q} =
      (if q = ci_profile ids then clonedExternal ids now ` {r \<in> set (db_external db). ex_profile_id r = src} else {r \<in> set (db_external db). ex_profile_id r = q})"
    unfolding clonedDb_simps by (subst new_rows [where new = "ci_profile ids"]) (simp_all add: n(3) cloned_fields)
  show
    "{r \<in> set (db_identity (clonedDb ids now src row db)). ai_profile_id r = q} =
      (if q = ci_profile ids then clonedIdentity ids now ` {r \<in> set (db_identity db). ai_profile_id r = src} else {r \<in> set (db_identity db). ai_profile_id r = q})"
    unfolding clonedDb_simps by (subst new_rows [where new = "ci_profile ids"]) (simp_all add: n(4) cloned_fields)
  show
    "{r \<in> set (db_personality (clonedDb ids now src row db)). pp_profile_id r = q} =
      (if q = ci_profile ids then clonedPersonality ids now ` {r \<in> set (db_personality db). pp_profile_id r = src} else {r \<in> set (db_personality db). pp_profile_id r = q})"
    unfolding clonedDb_simps by (subst new_rows [where new = "ci_profile ids"]) (simp_all add: n(5) cloned_fields)
qed

lemma semanticOf_cloned:
  assumes "ci_profile ids \<notin> profile_refs db"
  shows "semanticOf q (clonedDb ids now src row db) = (if q = ci_profile ids then ci_semantic ids ` semanticOf src db else semanticOf q db)"
  unfolding semanticOf_def set_filter rows_cloned [OF assms] by (simp add: image_image cloned_fields)

lemma metaOf_cloned:
  assumes "ci_profile ids \<notin> profile_refs db"
  shows "metaOf q (clonedDb ids now src row db) = (if q = ci_profile ids then ci_meta ids ` metaOf src db else metaOf q db)"
  unfolding metaOf_def set_filter rows_cloned [OF assms] by (simp add: image_image cloned_fields)

lemma contents_cloned [simp]:
  "semContent (clonedSemantic ids now r) = semContent r" "metaContent (clonedMeta ids now m) = metaContent m"
  "extContent (clonedExternal ids now e) = extContent e" "idContent (clonedIdentity ids now i) = idContent i"
  "persContent (clonedPersonality ids now p) = persContent p"
  by (simp_all add: semContent_def clonedSemantic_def metaContent_def clonedMeta_def extContent_def clonedExternal_def
      idContent_def clonedIdentity_def persContent_def clonedPersonality_def)

text \<open>Tuples of renamed ids do not mix with the old ones.\<close>

lemma new_tuples:
  assumes "fst ` E \<subseteq> S" "f ` S \<inter> S = {}" "A \<subseteq> S"
  shows "{e \<in> E \<union> map_prod f g ` {e \<in> E. fst e \<in> A \<and> snd e \<in> B}. fst e \<in> f ` A \<and> snd e \<in> g ` B} = map_prod f g ` {e \<in> E. fst e \<in> A \<and> snd e \<in> B}"
    and "C \<subseteq> S \<Longrightarrow> {e \<in> E \<union> map_prod f g ` {e \<in> E. fst e \<in> A \<and> snd e \<in> B}. fst e \<in> C \<and> snd e \<in> D} = {e \<in> E. fst e \<in> C \<and> snd e \<in> D}"
proof -
  have old: "fst e \<notin> f ` A" if "e \<in> E" for e using assms that by blast
  have new: "fst (map_prod f g e) \<in> f ` A \<and> snd (map_prod f g e) \<in> g ` B" if "fst e \<in> A" "snd e \<in> B" for e
    using that by (cases e) simp
  show "{e \<in> E \<union> map_prod f g ` {e \<in> E. fst e \<in> A \<and> snd e \<in> B}. fst e \<in> f ` A \<and> snd e \<in> g ` B} = map_prod f g ` {e \<in> E. fst e \<in> A \<and> snd e \<in> B}"
    (is "?l = ?r")
  proof (rule set_eqI)
    fix x
    have "x \<in> ?r \<longrightarrow> fst x \<in> f ` A \<and> snd x \<in> g ` B" using new by (intro impI, elim imageE CollectE conjE) (simp only:)
    moreover have "x \<in> E \<longrightarrow> fst x \<notin> f ` A" using old [of x] by blast
    ultimately show "x \<in> ?l \<longleftrightarrow> x \<in> ?r" unfolding mem_Collect_eq Un_iff by argo
  qed
  show "{e \<in> E \<union> map_prod f g ` {e \<in> E. fst e \<in> A \<and> snd e \<in> B}. fst e \<in> C \<and> snd e \<in> D} = {e \<in> E. fst e \<in> C \<and> snd e \<in> D}"
    (is "?l = ?r") if "C \<subseteq> S"
  proof (rule set_eqI)
    fix x
    have out: "fst (map_prod f g e) \<notin> C" if "fst e \<in> A" for e using that \<open>C \<subseteq> S\<close> assms(2,3) by (cases e) auto
    have "x \<in> map_prod f g ` {e \<in> E. fst e \<in> A \<and> snd e \<in> B} \<longrightarrow> fst x \<notin> C" using out by (intro impI, elim imageE CollectE conjE) (simp only:, simp)
    then show "x \<in> ?l \<longleftrightarrow> x \<in> ?r" unfolding mem_Collect_eq Un_iff by argo
  qed
qed

lemma new_firsts:
  assumes "fst ` E \<subseteq> S" "f ` S \<inter> S = {}" "A \<subseteq> S"
  shows "{e \<in> E \<union> map_prod f id ` {e \<in> E. fst e \<in> A}. fst e \<in> f ` A} = map_prod f id ` {e \<in> E. fst e \<in> A}"
    and "C \<subseteq> S \<Longrightarrow> {e \<in> E \<union> map_prod f id ` {e \<in> E. fst e \<in> A}. fst e \<in> C} = {e \<in> E. fst e \<in> C}"
  using new_tuples(1) [OF assms, where g = id and B = UNIV] new_tuples(2) [OF assms, where g = id and B = UNIV and C = C and D = UNIV]
  by (simp_all del: Un_iff)

lemma joins_firsts:
  assumes "joins_ok db"
  shows "fst ` set (db_sms db) \<subseteq> semantic_ids db" "fst ` set (db_sps db) \<subseteq> semantic_ids db"
    "fst ` set (db_mms db) \<subseteq> meta_ids db" "fst ` set (db_mps db) \<subseteq> meta_ids db"
  using assms by (force simp: joins_ok_def)+

lemma of_subset: "semanticOf p db \<subseteq> semantic_ids db" "metaOf p db \<subseteq> meta_ids db"
  using semanticOf_ids metaOf_ids by fast+

lemma clone_view:
  assumes "joins_ok db" "profile_refs db \<subseteq> profile_ids db" "fresh_ids ids db"
  shows "view q (clonedDb ids now src row db) = (if q = ci_profile ids then renamed ids (view src db) else view q db)"
proof -
  have n: "ci_profile ids \<notin> profile_refs db" using assms(2,3) by (auto simp: fresh_ids_def)
  have d: "ci_semantic ids ` semantic_ids db \<inter> semantic_ids db = {}" "ci_meta ids ` meta_ids db \<inter> meta_ids db = {}"
    using assms(3) by (simp_all add: fresh_ids_def)
  note f = joins_firsts [OF assms(1)]
  show ?thesis
  proof (cases "q = ci_profile ids")
    case True
    show ?thesis
      unfolding view_def rows_cloned [OF n] semanticOf_cloned [OF n] metaOf_cloned [OF n] cloned_joins True if_True refl simp_thms
        new_firsts(1) [OF f(1) d(1) of_subset(1)] new_tuples(1) [OF f(2) d(1) of_subset(1)]
        new_tuples(1) [OF f(3) d(2) of_subset(2)] new_tuples(1) [OF f(4) d(2) of_subset(2)]
      by (simp add: renamed_def image_image cloned_fields)
  next
    case False
    show ?thesis
      unfolding view_def rows_cloned [OF n] semanticOf_cloned [OF n] metaOf_cloned [OF n] cloned_joins if_not_P [OF False]
        new_firsts(2) [OF f(1) d(1) of_subset(1) of_subset(1)] new_tuples(2) [OF f(2) d(1) of_subset(1) of_subset(1)]
        new_tuples(2) [OF f(3) d(2) of_subset(2) of_subset(2)] new_tuples(2) [OF f(4) d(2) of_subset(2) of_subset(2)]
      by (rule refl)
  qed
qed

lemma distinct_renamed:
  assumes "distinct (map k rs)" "inj_on f (k ` set rs)" "f ` (k ` set rs) \<inter> k ` set rs = {}" "\<And>r. k (c r) = f (k r)"
    "distinct (map k xs)" "set xs \<subseteq> set rs"
  shows "distinct (map k (rs @ map c xs))"
proof -
  have "distinct (map f (map k xs))"
    using assms(2,5,6) by (subst distinct_map) (auto intro: inj_on_subset)
  then have "distinct (map k (map c xs))" by (simp add: o_def assms(4))
  moreover have "k ` set (map c xs) = f ` k ` set xs" by (simp add: image_image assms(4))
  then have "k ` set (map c xs) \<inter> k ` set rs = {}" using assms(3,6) by blast
  ultimately show ?thesis using assms(1) by (auto simp: distinct_append)
qed

lemma distinct_sorted_part:
  assumes "distinct (map k rs)"
  shows "distinct (map k (sort_key g (filter P rs)))"
proof -
  have "distinct (map k (filter P rs))" by (rule distinct_map_filter [OF assms])
  then show ?thesis by (auto simp: distinct_map)
qed

lemma one_row_per_key: "distinct (map k rs) \<Longrightarrow> distinct (map (\<lambda>r. x) (filter (\<lambda>r. k r = a) rs))"
  by (induction rs) (auto simp: filter_empty_conv image_iff)

lemma clone_ids_distinct:
  assumes "ids_distinct db" "fresh_ids ids db" "profile_refs db \<subseteq> profile_ids db" "ap_id row = ci_profile ids"
  shows "ids_distinct (clonedDb ids now src row db)"
proof -
  note d = assms(1) [unfolded ids_distinct_def]
  note f = assms(2) [unfolded fresh_ids_def semantic_ids_def meta_ids_def external_ids_def profile_ids_def]
  have n: "ci_profile ids \<notin> profile_refs db" using assms(2,3) by (auto simp: fresh_ids_def)
  have sem: "distinct (map sm_id (db_semantic (clonedDb ids now src row db)))" unfolding clonedDb_simps
    by (rule distinct_renamed [where f = "ci_semantic ids"]) (use d f in \<open>auto simp: cloned_fields intro!: distinct_sorted_part\<close>)
  have met: "distinct (map mm_id (db_meta (clonedDb ids now src row db)))" unfolding clonedDb_simps
    by (rule distinct_renamed [where f = "ci_meta ids"]) (use d f in \<open>auto simp: cloned_fields intro!: distinct_sorted_part\<close>)
  have ext: "distinct (map ex_id (db_external (clonedDb ids now src row db)))" unfolding clonedDb_simps
    by (rule distinct_renamed [where f = "ci_external ids"]) (use d f in \<open>auto simp: cloned_fields intro!: distinct_map_filter\<close>)
  have ide: "distinct (map ai_profile_id (db_identity (clonedDb ids now src row db)))"
    unfolding clonedDb_simps map_append distinct_append map_map o_def cloned_fields
    using d unreferenced(4) [OF n] by (auto intro: one_row_per_key)
  have per: "distinct (map (\<lambda>p. (pp_profile_id p, pp_dimension p)) (db_personality (clonedDb ids now src row db)))"
  proof -
    have "distinct (map (\<lambda>p. (pp_profile_id p, pp_dimension p)) (filter (\<lambda>r. pp_profile_id r = src) (db_personality db)))"
      using d by (intro distinct_map_filter) simp
    then have "distinct (map (\<lambda>p. (ci_profile ids, pp_dimension p)) (filter (\<lambda>r. pp_profile_id r = src) (db_personality db)))"
      unfolding distinct_map by (auto simp: inj_on_def)
    then show ?thesis unfolding clonedDb_simps map_append distinct_append map_map o_def cloned_fields
      using d unreferenced(5) [OF n] by auto
  qed
  have joins: "distinct (db_sms (clonedDb ids now src row db))" "distinct (db_sps (clonedDb ids now src row db))"
    "distinct (db_mms (clonedDb ids now src row db))" "distinct (db_mps (clonedDb ids now src row db))"
    unfolding clonedDb_joins using d by (simp_all add: distinct_fold_remap distinct_fold_remapMessage)
  show ?thesis unfolding ids_distinct_def using sem met ext ide per joins d f assms(4)
    by (simp del: clonedDb_simps(6-10))
qed

lemma clone_joins_ok:
  assumes "joins_ok db"
  shows "joins_ok (clonedDb ids now src row db)"
proof -
  have s: "semantic_ids (clonedDb ids now src row db) = semantic_ids db \<union> ci_semantic ids ` semanticOf src db"
    by (simp add: semantic_ids_def semanticOf_def image_Un image_image cloned_fields)
  have m: "meta_ids (clonedDb ids now src row db) = meta_ids db \<union> ci_meta ids ` metaOf src db"
    by (simp add: meta_ids_def metaOf_def image_Un image_image cloned_fields)
  have k: "message_keys (clonedDb ids now src row db) = message_keys db" by (simp add: message_keys_def)
  show ?thesis unfolding joins_ok_def cloned_joins s m k using assms
    by (intro conjI ballI; elim UnE imageE) (auto simp: joins_ok_def)
qed

lemma clone_ok:
  assumes "db_ok db" "fresh_ids ids db" "ap_id row = ci_profile ids" "ap_name row \<notin> ap_name ` set (db_profiles db)"
    "\<not> ap_is_default row"
  shows "db_ok (clonedDb ids now src row db)"
proof -
  note ok = assms(1) [unfolded db_ok_def]
  have "ids_distinct (clonedDb ids now src row db)" using ok assms(2,3) by (intro clone_ids_distinct) simp_all
  moreover have "joins_ok (clonedDb ids now src row db)" using ok by (intro clone_joins_ok) simp
  moreover have "profile_refs (clonedDb ids now src row db) \<subseteq> profile_refs db \<union> {ci_profile ids}"
    by (auto simp: profile_refs_def cloned_fields)
  moreover have "profile_ids (clonedDb ids now src row db) = insert (ci_profile ids) (profile_ids db)"
    by (auto simp: profile_ids_def assms(3))
  ultimately show ?thesis using ok assms(4,5) unfolding db_ok_def by auto
qed

lemma find_filter_other: "(\<And>x. P x \<Longrightarrow> Q x) \<Longrightarrow> find P (filter Q xs) = find P xs"
  by (induction xs) auto

section \<open>What a deletion leaves\<close>

definition deletedDb :: "string \<Rightarrow> 'v Db \<Rightarrow> 'v Db" where
  "deletedDb pid db = db\<lparr>
     db_profiles := filter (\<lambda>r. ap_id r \<noteq> pid) (db_profiles db),
     db_semantic := filter (\<lambda>r. sm_profile_id r \<noteq> pid) (db_semantic db),
     db_meta := filter (\<lambda>r. mm_profile_id r \<noteq> pid) (db_meta db),
     db_external := filter (\<lambda>r. ex_profile_id r \<noteq> pid) (db_external db),
     db_identity := filter (\<lambda>r. ai_profile_id r \<noteq> pid) (db_identity db),
     db_personality := filter (\<lambda>r. pp_profile_id r \<noteq> pid) (db_personality db),
     db_sms := filter (\<lambda>e. fst e \<notin> semanticOf pid db) (db_sms db),
     db_sps := filter (\<lambda>e. fst e \<notin> semanticOf pid db \<and> snd e \<notin> semanticOf pid db) (db_sps db),
     db_mms := filter (\<lambda>e. fst e \<notin> metaOf pid db \<and> snd e \<notin> semanticOf pid db) (db_mms db),
     db_mps := filter (\<lambda>e. fst e \<notin> metaOf pid db \<and> snd e \<notin> metaOf pid db) (db_mps db)\<rparr>"

text \<open>The database after the nine statements before the last.\<close>

lemma sequenceD_execs: "sequenceD (map execD fs) db = (Inr (), fold id fs db)"
  by (induction fs arbitrary: db) (simp_all add: retD_def bindD_def execD_def)

lemma sequenceD_append: "sequenceD (ms @ ns) = bindD (sequenceD ms) (\<lambda>_. sequenceD ns)"
  by (induction ms) (auto simp: bindD_def retD_def fun_eq_iff split: sum.split prod.split)

lemma memory_statements:
  "sequenceD (take 9 (deleteStatements pid)) db = (Inr (), (deletedDb pid db)\<lparr>db_profiles := db_profiles db\<rparr>)"
  by (simp add: deleteStatements_def bindD_def execD_def retD_def deletedDb_def delete_meta_where_def delete_semantic_where_def
      semanticOf_def metaOf_def Let_def case_prod_unfold conj_comms cong: filter_cong)

lemma deletedDb_simps [simp]:
  "db_chats (deletedDb pid db) = db_chats db" "db_working (deletedDb pid db) = db_working db"
  "db_sessions (deletedDb pid db) = db_sessions db" "db_user_personality (deletedDb pid db) = db_user_personality db"
  "db_profiles (deletedDb pid db) = filter (\<lambda>r. ap_id r \<noteq> pid) (db_profiles db)"
  "db_semantic (deletedDb pid db) = filter (\<lambda>r. sm_profile_id r \<noteq> pid) (db_semantic db)"
  "db_meta (deletedDb pid db) = filter (\<lambda>r. mm_profile_id r \<noteq> pid) (db_meta db)"
  "db_external (deletedDb pid db) = filter (\<lambda>r. ex_profile_id r \<noteq> pid) (db_external db)"
  "db_identity (deletedDb pid db) = filter (\<lambda>r. ai_profile_id r \<noteq> pid) (db_identity db)"
  "db_personality (deletedDb pid db) = filter (\<lambda>r. pp_profile_id r \<noteq> pid) (db_personality db)"
  "db_sms (deletedDb pid db) = filter (\<lambda>e. fst e \<notin> semanticOf pid db) (db_sms db)"
  "db_sps (deletedDb pid db) = filter (\<lambda>e. fst e \<notin> semanticOf pid db \<and> snd e \<notin> semanticOf pid db) (db_sps db)"
  "db_mms (deletedDb pid db) = filter (\<lambda>e. fst e \<notin> metaOf pid db \<and> snd e \<notin> semanticOf pid db) (db_mms db)"
  "db_mps (deletedDb pid db) = filter (\<lambda>e. fst e \<notin> metaOf pid db \<and> snd e \<notin> metaOf pid db) (db_mps db)"
  by (simp_all add: deletedDb_def)

lemma last_statement:
  "sequenceD (drop 9 (deleteStatements pid)) db = delete_profile_row pid db"
  by (auto simp: deleteStatements_def bindD_def retD_def split: sum.split prod.split)

lemma deleteChecks_None:
  "deleteChecks pid db = None \<longleftrightarrow>
    (\<exists>p. getProfile pid db = Some p \<and> \<not> ap_is_default p) \<and> (\<forall>c \<in> set (db_chats db). ch_profile_id c \<noteq> pid)"
  by (auto simp: deleteChecks_def list_ex_iff split: option.splits)

lemma deleteProfile_result:
  assumes "deleteChecks pid db = None"
  shows "deleteProfile pid db = (Inr (), deletedDb pid db)"
proof -
  have c: "pid \<notin> ch_profile_id ` set (db_chats db)" using assms by (auto simp: deleteChecks_None)
  have "sequenceD (take 9 (deleteStatements pid) @ drop 9 (deleteStatements pid)) db =
      delete_profile_row pid ((deletedDb pid db)\<lparr>db_profiles := db_profiles db\<rparr>)"
    unfolding sequenceD_append bindD_def memory_statements by (simp add: last_statement)
  then have "sequenceD (deleteStatements pid) db = delete_profile_row pid ((deletedDb pid db)\<lparr>db_profiles := db_profiles db\<rparr>)"
    unfolding append_take_drop_id .
  also have "\<dots> = (Inr (), deletedDb pid db)" using c
    by (auto simp: delete_profile_row_def profile_refs_def deletedDb_def)
  finally show ?thesis using assms by (simp add: deleteProfile_def)
qed

lemma semanticOf_deleted:
  assumes "distinct (map sm_id (db_semantic db))"
  shows "semanticOf q (deletedDb pid db) = (if q = pid then {} else semanticOf q db)"
    and "q \<noteq> pid \<Longrightarrow> semanticOf q db \<inter> semanticOf pid db = {}"
  using assms by (auto simp: semanticOf_def distinct_map inj_on_def)

lemma metaOf_deleted:
  assumes "distinct (map mm_id (db_meta db))"
  shows "metaOf q (deletedDb pid db) = (if q = pid then {} else metaOf q db)"
    and "q \<noteq> pid \<Longrightarrow> metaOf q db \<inter> metaOf pid db = {}"
  using assms by (auto simp: metaOf_def distinct_map inj_on_def)

lemma delete_view:
  assumes "ids_distinct db"
  shows "view q (deletedDb pid db) = (if q = pid then emptyView else view q db)"
proof -
  have d: "distinct (map sm_id (db_semantic db))" "distinct (map mm_id (db_meta db))" using assms by (simp_all add: ids_distinct_def)
  show ?thesis
  proof (cases "q = pid")
    case True
    show ?thesis unfolding view_def semanticOf_deleted(1) [OF d(1)] metaOf_deleted(1) [OF d(2)] True by (simp add: emptyView_def)
  next
    case False
    note s = semanticOf_deleted(2) [OF d(1) False] and m = metaOf_deleted(2) [OF d(2) False]
    have "{e \<in> set (db_sms (deletedDb pid db)). fst e \<in> semanticOf q db} = {e \<in> set (db_sms db). fst e \<in> semanticOf q db}"
      "{e \<in> set (db_sps (deletedDb pid db)). fst e \<in> semanticOf q db \<and> snd e \<in> semanticOf q db} =
        {e \<in> set (db_sps db). fst e \<in> semanticOf q db \<and> snd e \<in> semanticOf q db}"
      "{e \<in> set (db_mms (deletedDb pid db)). fst e \<in> metaOf q db \<and> snd e \<in> semanticOf q db} =
        {e \<in> set (db_mms db). fst e \<in> metaOf q db \<and> snd e \<in> semanticOf q db}"
      "{e \<in> set (db_mps (deletedDb pid db)). fst e \<in> metaOf q db \<and> snd e \<in> metaOf q db} =
        {e \<in> set (db_mps db). fst e \<in> metaOf q db \<and> snd e \<in> metaOf q db}"
      using s m by auto
    moreover have "{r \<in> set (filter (\<lambda>r. k r \<noteq> pid) rs). k r = q} = {r \<in> set rs. k r = q}" for k :: "'x \<Rightarrow> string" and rs
      using False by auto
    ultimately show ?thesis
      unfolding view_def semanticOf_deleted(1) [OF d(1)] metaOf_deleted(1) [OF d(2)] if_not_P [OF False]
      using False by (auto simp: image_iff)
  qed
qed

lemma filter_one_default:
  assumes "length (filter P rs) = 1" "distinct (map k rs)" "r \<in> set rs" "\<not> P r"
  shows "length (filter P (filter (\<lambda>x. k x \<noteq> k r) rs)) = 1"
proof -
  have "filter P (filter (\<lambda>x. k x \<noteq> k r) rs) = filter P rs"
    unfolding filter_filter using assms(2-4) by (intro filter_cong) (auto simp: distinct_map inj_on_def)
  then show ?thesis using assms(1) by simp
qed

lemma delete_ok:
  assumes "db_ok db" "deleteChecks pid db = None"
  shows "db_ok (deletedDb pid db)"
proof -
  note ok = assms(1) [unfolded db_ok_def]
  obtain p where p: "p \<in> set (db_profiles db)" "ap_id p = pid" "\<not> ap_is_default p"
    using assms(2) getProfile_Some [of pid db] by (auto simp: deleteChecks_None)
  have "ids_distinct (deletedDb pid db)" using ok by (simp add: ids_distinct_def distinct_map_filter)
  moreover have "distinct (map ap_name (db_profiles (deletedDb pid db)))" using ok by (simp add: distinct_map_filter)
  moreover have "profile_refs (deletedDb pid db) \<subseteq> profile_refs db - {pid}" using assms(2)
    by (auto simp: profile_refs_def deleteChecks_None)
  moreover have "profile_ids (deletedDb pid db) = profile_ids db - {pid}" by (auto simp: profile_ids_def)
  moreover have "joins_ok (deletedDb pid db)"
  proof -
    have "semantic_ids db - semanticOf pid db \<subseteq> semantic_ids (deletedDb pid db)"
      "meta_ids db - metaOf pid db \<subseteq> meta_ids (deletedDb pid db)" "message_keys (deletedDb pid db) = message_keys db"
      by (auto simp: semantic_ids_def semanticOf_def meta_ids_def metaOf_def message_keys_def)
    then show ?thesis using ok unfolding joins_ok_def by (auto 0 4)
  qed
  moreover have "length (filter ap_is_default (db_profiles (deletedDb pid db))) = 1"
    using filter_one_default [of ap_is_default "db_profiles db" ap_id p] ok p by (simp add: ids_distinct_def)
  ultimately show ?thesis using ok unfolding db_ok_def by auto
qed

section \<open>Every operation keeps the constraints\<close>

text \<open>A step is one operation, successful or not; ids that PostgreSQL generates are new.\<close>

inductive profile_step :: "'v Db \<Rightarrow> 'v Db \<Rightarrow> bool" where
  step_create: "newId \<notin> profile_ids db \<Longrightarrow> profile_step db (snd (createProfile n now newId name desc db))"
| step_default: "profile_step db (snd (setDefaultProfile now pid db))"
| step_assign: "profile_step db (snd (assignChat now cid pid db))"
| step_delete: "profile_step db (snd (deleteProfile pid db))"
| step_clone: "fresh_ids ids db \<Longrightarrow> profile_step db (snd (cloneProfile n ids now pid name desc db))"
| step_seed: "newId \<notin> profile_ids db \<Longrightarrow> profile_step db (snd (seed_default_profile newId now db))"
| step_message: "profile_step db (snd (storeMessage now channel ext pid msg db))"
| step_backfill: "profile_step db (snd (backfillSessionId mid cid sid db))"

lemma insert_profile_ok:
  assumes "db_ok db" "ap_id row \<notin> profile_ids db"
  shows "db_ok (snd (insert_profile row db))"
proof -
  have "length (filter ap_is_default (db_profiles db)) = 1 \<Longrightarrow> list_ex ap_is_default (db_profiles db)"
    by (auto simp: list_ex_iff filter_empty_conv length_Suc_conv filter_eq_Cons_iff)
  then show ?thesis using assms
    by (auto simp: insert_profile_def db_ok_def ids_distinct_def profile_refs_def profile_ids_def joins_ok_def semantic_ids_def
        meta_ids_def message_keys_def)
qed

lemma db_ok_cong:
  assumes "db_ok db" "ids_distinct db'" "joins_ok db'" "profile_refs db' \<subseteq> profile_ids db" "map ap_id (db_profiles db') = map ap_id (db_profiles db)"
    "map ap_name (db_profiles db') = map ap_name (db_profiles db)" "length (filter ap_is_default (db_profiles db')) = 1"
  shows "db_ok db'"
proof -
  have "profile_ids db' = profile_ids db" unfolding profile_ids_def using assms(5) by (metis list.set_map)
  then show ?thesis using assms unfolding db_ok_def by simp
qed

text \<open>The default moves to a profile that is there.\<close>

lemma moved_default:
  assumes "distinct (map k rs)" "a \<in> k ` set rs" "\<And>r. k (off r) = k r" "\<And>r. k (on r) = k r" "\<And>r. \<not> P (off r)" "\<And>r. P (on r)"
  shows "length (filter P (map (\<lambda>r. if k r = a then on r else r) (map (\<lambda>r. if P r then off r else r) rs))) = 1"
proof -
  let ?f = "(\<lambda>r. if k r = a then on r else r) \<circ> (\<lambda>r. if P r then off r else r)"
  have "(\<lambda>r. P (?f r)) = (\<lambda>r. k r = a)" using assms(3-6) by (auto simp: fun_eq_iff)
  then have "length (filter P (map ?f rs)) = length (filter (\<lambda>r. k r = a) rs)" by (simp add: filter_map o_def)
  moreover have "length (filter (\<lambda>r. k r = a) rs) = 1" using assms(1,2)
    by (induction rs) (auto simp: filter_empty_conv image_iff)
  ultimately show ?thesis by simp
qed

lemma set_default_ok:
  assumes "db_ok db"
  shows "db_ok (snd (setDefaultProfile now pid db))"
proof (cases "getProfile pid db")
  case (Some p)
  show ?thesis
  proof (cases "ap_is_default p")
    case False
    let ?off = "\<lambda>r. r\<lparr>ap_is_default := False, ap_updated_at := now\<rparr>" and ?on = "\<lambda>r. r\<lparr>ap_is_default := True, ap_updated_at := now\<rparr>"
    let ?ps = "map (\<lambda>r. if ap_id r = pid then ?on r else r) (map (\<lambda>r. if ap_is_default r then ?off r else r) (db_profiles db))"
    have r: "snd (setDefaultProfile now pid db) = db\<lparr>db_profiles := ?ps\<rparr>"
      using Some False by (simp add: setDefaultProfile_def transaction_def bindD_def execD_def)
    have "pid \<in> ap_id ` set (db_profiles db)" using getProfile_Some [OF Some] by auto
    then have "length (filter ap_is_default ?ps) = 1"
      using assms by (intro moved_default) (simp_all add: db_ok_def ids_distinct_def)
    moreover have "map ap_id ?ps = map ap_id (db_profiles db)" "map ap_name ?ps = map ap_name (db_profiles db)" by simp_all
    ultimately show ?thesis unfolding r using assms
      by (intro db_ok_cong [OF assms]) (simp_all add: db_ok_def ids_distinct_def joins_ok_def semantic_ids_def meta_ids_def message_keys_def profile_refs_def del: map_map)
  qed (use Some assms in \<open>simp add: setDefaultProfile_def\<close>)
qed (use assms in \<open>simp add: setDefaultProfile_def\<close>)

lemma chats_ok:
  assumes "db_ok db" "map ch_id cs = map ch_id (db_chats db)" "ch_profile_id ` set cs \<subseteq> profile_ids db"
  shows "db_ok (db\<lparr>db_chats := cs\<rparr>)"
  using assms by (intro db_ok_cong [OF assms(1)])
    (auto simp: db_ok_def ids_distinct_def joins_ok_def semantic_ids_def meta_ids_def message_keys_def profile_refs_def)

lemma assign_ok:
  assumes "db_ok db"
  shows "db_ok (snd (assignChat now cid pid db))"
proof -
  have "pid \<in> profile_ids db" if "getProfile pid db = Some p" for p using that getProfile_iff [of pid db] by simp
  moreover have "ch_profile_id r \<in> profile_ids db" if "r \<in> set (db_chats db)" for r using assms that by (auto simp: db_ok_def profile_refs_def)
  ultimately show ?thesis using assms by (auto simp: assignChat_def split: option.split intro!: chats_ok)
qed

lemma upsert_ok:
  assumes "db_ok db"
  shows "db_ok (snd (upsertChat now cid channel ext name grp pid db))"
proof -
  have c: "ch_profile_id r \<in> profile_ids db" if "r \<in> set (db_chats db)" for r using assms that by (auto simp: db_ok_def profile_refs_def)
  show ?thesis
  proof (cases "cid \<in> ch_id ` set (db_chats db)")
    case True
    then show ?thesis using assms c by (auto simp: upsertChat_def intro!: chats_ok)
  next
    case False
    then show ?thesis using assms
      by (auto simp: upsertChat_def db_ok_def ids_distinct_def joins_ok_def semantic_ids_def meta_ids_def message_keys_def
          profile_refs_def profile_ids_def)
  qed
qed

lemma working_ok:
  assumes "db_ok db" "distinct (map (\<lambda>m. (mw_id m, mw_chat_id m)) ws)" "message_keys db \<subseteq> (\<lambda>m. (mw_id m, mw_chat_id m)) ` set ws"
  shows "db_ok (db\<lparr>db_working := ws\<rparr>)"
proof (rule db_ok_cong [OF assms(1)])
  show "joins_ok (db\<lparr>db_working := ws\<rparr>)" using assms(1,3)
    unfolding db_ok_def joins_ok_def by (auto simp: semantic_ids_def meta_ids_def message_keys_def)
qed (use assms in \<open>auto simp: db_ok_def ids_distinct_def profile_refs_def\<close>)

lemma message_ok:
  assumes "db_ok db"
  shows "db_ok (snd (storeMessage now channel ext pid msg db))"
proof -
  have w: "db_ok (db1\<lparr>db_working := db_working db1 @ [msg]\<rparr>)" if "db_ok db1" "(mw_id msg, mw_chat_id msg) \<notin> message_keys db1" for db1 :: "'v Db"
    using that by (intro working_ok) (auto simp: db_ok_def ids_distinct_def message_keys_def)
  obtain r db1 where u: "upsertChat now (mw_chat_id msg) channel ext None None pid db = (r, db1)" by fastforce
  then have k: "db_ok db1" using upsert_ok [OF assms, of now "mw_chat_id msg" channel ext None None pid] by simp
  show ?thesis
  proof (cases r)
    case (Inl e)
    then show ?thesis using u k by (simp add: storeMessage_def bindD_def)
  next
    case (Inr c)
    have "storeMessage now channel ext pid msg db = (if (mw_id msg, mw_chat_id msg) \<in> message_keys db1 then (Inr (), db1)
        else (case mw_session_id msg of
               Some s \<Rightarrow> if s \<in> ss_id ` set (db_sessions db1) then (Inr (), db1\<lparr>db_working := db_working db1 @ [msg]\<rparr>)
                 else (Inl (Foreign_key ''memory_working_session_id_fkey''), db1)
             | None \<Rightarrow> (Inr (), db1\<lparr>db_working := db_working db1 @ [msg]\<rparr>)))"
      unfolding storeMessage_def bindD_def u Inr by (simp only: prod.case sum.case)
    then show ?thesis using k w [OF k] by (simp split: option.split)
  qed
qed

lemma backfill_ok:
  assumes "db_ok db"
  shows "db_ok (snd (backfillSessionId mid cid sid db))"
proof -
  let ?f = "\<lambda>m. if mw_id m = mid \<and> mw_chat_id m = cid \<and> mw_session_id m = None then m\<lparr>mw_session_id := Some sid\<rparr> else m"
  have m: "map (\<lambda>m. (mw_id m, mw_chat_id m)) (map ?f (db_working db)) = map (\<lambda>m. (mw_id m, mw_chat_id m)) (db_working db)" by simp
  have "db_ok (db\<lparr>db_working := map ?f (db_working db)\<rparr>)"
  proof (rule working_ok [OF assms])
    show "distinct (map (\<lambda>m. (mw_id m, mw_chat_id m)) (map ?f (db_working db)))" unfolding m using assms by (simp add: db_ok_def ids_distinct_def)
    show "message_keys db \<subseteq> (\<lambda>m. (mw_id m, mw_chat_id m)) ` set (map ?f (db_working db))"
      using arg_cong [OF m, of set] unfolding message_keys_def set_map by simp
  qed
  then show ?thesis using assms by (simp add: backfillSessionId_def Let_def)
qed

lemma seed_ok: "db_ok db \<Longrightarrow> newId \<notin> profile_ids db \<Longrightarrow> db_ok (snd (seed_default_profile newId now db))"
  using insert_profile_ok [of db "\<lparr>ap_id = newId, ap_name = ''default'', ap_description = Some ''Default agent profile'',
    ap_is_default = True, ap_created_at = now, ap_updated_at = now\<rparr>"]
  by (auto simp: seed_default_profile_def bindD_def retD_def split: sum.split prod.split)

lemma create_ok: "db_ok db \<Longrightarrow> newId \<notin> profile_ids db \<Longrightarrow> db_ok (snd (createProfile n now newId name desc db))"
  using insert_profile_ok [of db "\<lparr>ap_id = newId, ap_name = name, ap_description = desc, ap_is_default = (length (db_profiles db) = 0),
    ap_created_at = now, ap_updated_at = now\<rparr>"]
  by (simp add: createProfile_def bindD_def checkLimit_def Let_def)

lemma clone_step_ok:
  assumes "db_ok db" "fresh_ids ids db"
  shows "db_ok (snd (cloneProfile n ids now pid name desc db))"
proof (cases "cloneProfile n ids now pid name desc db")
  case (Pair r db')
  show ?thesis
  proof (cases r)
    case (Inl e)
    then have "db' = db" using Pair
      by (auto simp: cloneProfile_def bindD_def checkLimit_def transaction_def Let_def split: option.splits if_splits prod.splits sum.splits)
    then show ?thesis using Pair assms(1) by simp
  next
    case (Inr p)
    have n: "ci_profile ids \<notin> profile_ids db" using assms(2) by (simp add: fresh_ids_def)
    note c = clone_success [OF Pair [unfolded Inr] n]
    show ?thesis using Pair c clone_ok [OF assms c(2)] by simp
  qed
qed

lemma delete_step_ok: "db_ok db \<Longrightarrow> db_ok (snd (deleteProfile pid db))"
  using delete_ok [of db pid] deleteProfile_result [of pid db] by (cases "deleteChecks pid db") (simp_all add: deleteProfile_def)

lemma profile_step_ok: "profile_step db db' \<Longrightarrow> db_ok db \<Longrightarrow> db_ok db'"
  by (induction rule: profile_step.induct)
    (simp_all add: create_ok set_default_ok assign_ok delete_step_ok clone_step_ok seed_ok message_ok backfill_ok)

lemma find_filter_hd: "filter P xs = x # ys \<Longrightarrow> find P xs = Some x"
  by (induction xs) (auto split: if_splits)

lemma unique_default:
  assumes "db_ok db" "p \<in> set (db_profiles db)" "ap_is_default p" "q \<in> set (db_profiles db)" "ap_is_default q"
  shows "p = q"
proof -
  obtain r where "filter ap_is_default (db_profiles db) = [r]" using assms(1) by (auto simp: db_ok_def length_Suc_conv)
  moreover have "p \<in> set (filter ap_is_default (db_profiles db))" "q \<in> set (filter ap_is_default (db_profiles db))" using assms by simp_all
  ultimately show ?thesis by simp
qed

lemma set_default_default:
  assumes "getProfile pid db = Some q"
  shows "\<exists>r \<in> set (db_profiles (snd (setDefaultProfile now pid db))). ap_id r = pid \<and> ap_is_default r"
proof (cases "ap_is_default q")
  case True
  then show ?thesis using assms getProfile_Some [OF assms] by (auto simp: setDefaultProfile_def)
next
  case False
  have "db_profiles (snd (setDefaultProfile now pid db)) =
      map (\<lambda>r. if ap_id r = pid then r\<lparr>ap_is_default := True, ap_updated_at := now\<rparr> else r)
        (map (\<lambda>r. if ap_is_default r then r\<lparr>ap_is_default := False, ap_updated_at := now\<rparr> else r) (db_profiles db))"
    using assms False by (simp add: setDefaultProfile_def transaction_def bindD_def execD_def)
  moreover have "q\<lparr>ap_is_default := True, ap_updated_at := now\<rparr> \<in> set (map (\<lambda>r. if ap_id r = pid then r\<lparr>ap_is_default := True, ap_updated_at := now\<rparr> else r)
        (map (\<lambda>r. if ap_is_default r then r\<lparr>ap_is_default := False, ap_updated_at := now\<rparr> else r) (db_profiles db)))"
    using getProfile_Some [OF assms] False unfolding set_map by (intro image_eqI [of _ _ q]) auto
  ultimately show ?thesis using getProfile_Some [OF assms] by (intro bexI [of _ "q\<lparr>ap_is_default := True, ap_updated_at := now\<rparr>"]) simp_all
qed

lemma set_default_names:
  "(\<lambda>r. (ap_id r, ap_name r)) ` set (db_profiles (snd (setDefaultProfile now pid db))) = (\<lambda>r. (ap_id r, ap_name r)) ` set (db_profiles db)"
proof -
  have "map (\<lambda>r. (ap_id r, ap_name r)) (db_profiles (snd (setDefaultProfile now pid db))) = map (\<lambda>r. (ap_id r, ap_name r)) (db_profiles db)"
    by (simp add: setDefaultProfile_def transaction_def bindD_def execD_def split: option.split)
  from arg_cong [OF this, of set] show ?thesis by simp
qed

lemma chats_free: "db_ok db \<Longrightarrow> db_ok (db\<lparr>db_chats := []\<rparr>)"
  by (auto simp: db_ok_def ids_distinct_def joins_ok_def semantic_ids_def meta_ids_def message_keys_def profile_refs_def profile_ids_def)

section \<open>Properties\<close>

text \<open>
  C16. A clone is a copy: what belongs to the new profile is what belongs to its source with every entry
  under its new id, the links between them included; every other profile has what it had, and the
  constraints of the schema hold.
\<close>

theorem clone_isomorphic:
  assumes "cloneProfile n ids now src name desc db = (Inr p, db')" "db_ok db" "fresh_ids ids db"
  shows "ap_id p = ci_profile ids \<and> view (ci_profile ids) db' = renamed ids (view src db) \<and>
    (\<forall>q. q \<noteq> ci_profile ids \<longrightarrow> view q db' = view q db) \<and> db_ok db'"
proof -
  have n: "ci_profile ids \<notin> profile_ids db" using assms(3) by (simp add: fresh_ids_def)
  note c = clone_success [OF assms(1) n]
  have "joins_ok db" "profile_refs db \<subseteq> profile_ids db" using assms(2) by (simp_all add: db_ok_def)
  note v = clone_view [OF this assms(3)]
  show ?thesis using c v clone_ok [OF assms(2,3) c(2)] by simp
qed

definition example_ids :: CloneIds where
  "example_ids = \<lparr>ci_profile = ''p3'', ci_semantic = (\<lambda>i. CHR ''n'' # i), ci_meta = (\<lambda>i. CHR ''n'' # i), ci_external = (\<lambda>i. CHR ''n'' # i)\<rparr>"

definition example_semantic :: "string \<Rightarrow> string \<Rightarrow> unit SemanticRow" where
  "example_semantic i p = \<lparr>sm_id = i, sm_content = ''tea'', sm_embedding = (), sm_memory_type = Fact, sm_importance = 1 / 2, sm_depth = 0,
     sm_token_count = 1, sm_source_session = None, sm_profile_id = p, sm_earliest_at = None, sm_latest_at = None, sm_created_at = 1,
     sm_updated_at = 1, sm_last_accessed = 1, sm_access_count = 4\<rparr>"

text \<open>Two profiles, a chat of the first, two memories of the second of which one summarises the other.\<close>

definition example_db :: "unit Db" where
  "example_db = emptyDb\<lparr>
     db_profiles := [\<lparr>ap_id = ''p1'', ap_name = ''default'', ap_description = None, ap_is_default = True, ap_created_at = 1, ap_updated_at = 1\<rparr>,
                     \<lparr>ap_id = ''p2'', ap_name = ''work'', ap_description = None, ap_is_default = False, ap_created_at = 2, ap_updated_at = 2\<rparr>],
     db_chats := [\<lparr>ch_id = ''c'', ch_channel = ''telegram'', ch_external_id = ''1'', ch_name = None, ch_is_group = False, ch_profile_id = ''p1'',
                   ch_created_at = 1, ch_updated_at = 1\<rparr>],
     db_semantic := [example_semantic ''a'' ''p2'', example_semantic ''b'' ''p2''],
     db_sps := [(''b'', ''a'')]\<rparr>"

lemmas example_db_simps = example_db_def emptyDb_def example_semantic_def example_ids_def

lemma example_db_ok: "db_ok example_db"
  by (simp add: db_ok_def ids_distinct_def profile_refs_def profile_ids_def joins_ok_def semantic_ids_def example_db_simps)

lemma example_fresh: "fresh_ids example_ids example_db"
  by (simp add: fresh_ids_def profile_ids_def semantic_ids_def meta_ids_def external_ids_def example_db_simps)

theorem clone_isomorphic_witness:
  "(''nb'', ''na'') \<in> vw_summaries (view ''p3'' (snd (cloneProfile 5 example_ids 9 ''p2'' ''spare'' None example_db))) \<and>
   (\<exists>p. fst (cloneProfile 5 example_ids 9 ''p2'' ''spare'' None example_db) = Inr p)"
proof -
  obtain p db' where c: "cloneProfile 5 example_ids 9 ''p2'' ''spare'' None example_db = (Inr p, db')"
    by (simp add: cloneProfile_def getProfile_def example_db_simps checkLimit_def bindD_def transaction_def cloneBody_result insert_profile_def)
  have "view ''p3'' db' = renamed example_ids (view ''p2'' example_db)"
    using clone_isomorphic [OF c example_db_ok example_fresh] by (simp add: example_ids_def)
  moreover have "(''b'', ''a'') \<in> vw_summaries (view ''p2'' example_db)"
    by (simp add: view_def semanticOf_def example_db_simps)
  ultimately show ?thesis using c by (force simp: renamed_def example_ids_def image_iff)
qed

text \<open>
  C17. A deletion that succeeds removes the profile with all that belongs to it and nothing that belongs to
  another, and the constraints hold. It succeeds exactly when the profile exists, is not the default and
  has no chats; otherwise nothing changes.
\<close>

theorem delete_profile_complete:
  assumes "db_ok db"
  shows "if (\<exists>p. getProfile pid db = Some p \<and> \<not> ap_is_default p) \<and> pid \<notin> ch_profile_id ` set (db_chats db)
    then fst (deleteProfile pid db) = Inr () \<and> view pid (snd (deleteProfile pid db)) = emptyView \<and>
      getProfile pid (snd (deleteProfile pid db)) = None \<and>
      (\<forall>q. q \<noteq> pid \<longrightarrow> view q (snd (deleteProfile pid db)) = view q db \<and> getProfile q (snd (deleteProfile pid db)) = getProfile q db) \<and>
      db_ok (snd (deleteProfile pid db))
    else (\<exists>e. deleteProfile pid db = (Inl e, db))"
proof (cases "deleteChecks pid db")
  case None
  have "getProfile pid (deletedDb pid db) = None" by (auto simp: getProfile_def find_None_iff)
  moreover have "getProfile q (deletedDb pid db) = getProfile q db" if "q \<noteq> pid" for q
    using that by (auto simp: getProfile_def find_filter_other)
  moreover have "ids_distinct db" using assms by (simp add: db_ok_def)
  ultimately show ?thesis using None delete_ok [OF assms None] unfolding deleteProfile_result [OF None]
    by (auto simp: deleteChecks_None delete_view)
next
  case (Some e)
  then have "\<not> (\<exists>p. getProfile pid db = Some p \<and> \<not> ap_is_default p) \<or> pid \<in> ch_profile_id ` set (db_chats db)"
    using deleteChecks_None [of pid db] by auto
  then show ?thesis using Some by (auto simp: deleteProfile_def)
qed

theorem delete_profile_complete_witness:
  "fst (deleteProfile ''p2'' example_db) = Inr () \<and> view ''p2'' (snd (deleteProfile ''p2'' example_db)) = emptyView \<and>
   db_ok (snd (deleteProfile ''p2'' example_db))"
proof -
  have "(\<exists>p. getProfile ''p2'' example_db = Some p \<and> \<not> ap_is_default p) \<and> ''p2'' \<notin> ch_profile_id ` set (db_chats example_db)"
    by (simp add: getProfile_def example_db_simps)
  then show ?thesis using delete_profile_complete [OF example_db_ok, of "''p2''"] by (simp only: simp_thms if_True not_False_eq_True)
qed

text \<open>
  C18. Whatever sequence of profile operations, seeds and stored messages runs, failed ones included: ids and
  names stay unique, no chat and no memory refers to a profile that is gone, no link between memories
  dangles, and exactly one profile is the default.
\<close>

theorem profile_steps_keep_schema:
  assumes "profile_step\<^sup>*\<^sup>* db db'" "db_ok db"
  shows "db_ok db' \<and> (\<exists>p. getDefaultProfile db' = Some p \<and> (\<forall>q \<in> set (db_profiles db'). ap_is_default q \<longrightarrow> q = p))"
proof -
  have ok: "db_ok db'" using assms(1) by (induction rule: rtranclp_induct) (use assms(2) profile_step_ok in blast)+
  then obtain p where p: "filter ap_is_default (db_profiles db') = [p]" by (auto simp: db_ok_def length_Suc_conv)
  then have "getDefaultProfile db' = Some p" by (simp add: getDefaultProfile_def find_filter_hd)
  moreover have "p \<in> set (filter ap_is_default (db_profiles db'))" using p by simp
  then have "q = p" if "q \<in> set (db_profiles db')" "ap_is_default q" for q
    using that unique_default [OF ok] by simp
  ultimately show ?thesis using ok by blast
qed

theorem profile_steps_keep_schema_witness:
  "db_ok (snd (deleteProfile ''p2'' (snd (cloneProfile 5 example_ids 9 ''p2'' ''spare'' None example_db))))"
proof -
  have "profile_step example_db (snd (cloneProfile 5 example_ids 9 ''p2'' ''spare'' None example_db))"
    by (rule step_clone [OF example_fresh])
  moreover have "profile_step (snd (cloneProfile 5 example_ids 9 ''p2'' ''spare'' None example_db))
      (snd (deleteProfile ''p2'' (snd (cloneProfile 5 example_ids 9 ''p2'' ''spare'' None example_db))))" by (rule step_delete)
  ultimately have "profile_step\<^sup>*\<^sup>* example_db (snd (deleteProfile ''p2'' (snd (cloneProfile 5 example_ids 9 ''p2'' ''spare'' None example_db))))"
    by (meson converse_rtranclp_into_rtranclp r_into_rtranclp)
  then show ?thesis using profile_steps_keep_schema [OF _ example_db_ok] by blast
qed

text \<open>The nine statements before the last read no chat and change no chat and no profile.\<close>

definition chat_free :: "('v Db \<Rightarrow> 'v Db) \<Rightarrow> bool" where
  "chat_free f \<longleftrightarrow> (\<forall>db cs. f (db\<lparr>db_chats := cs\<rparr>) = (f db)\<lparr>db_chats := cs\<rparr>) \<and>
     (\<forall>db. db_chats (f db) = db_chats db \<and> db_profiles (f db) = db_profiles db)"

lemma chat_free_fold: "list_all chat_free fs \<Longrightarrow> chat_free (fold id fs)"
  by (induction fs) (simp_all add: chat_free_def)

lemma statements_chat_free:
  "\<exists>fs. deleteStatements pid = map execD fs @ [delete_profile_row pid] \<and> length fs = 9 \<and> list_all chat_free fs"
proof (intro exI conjI)
  let ?fs = "map (\<lambda>m db. snd (m db)) (take 9 (deleteStatements pid))"
  show "deleteStatements pid = map execD ?fs @ [delete_profile_row pid]" by (simp add: deleteStatements_def execD_def fun_eq_iff)
  show "length ?fs = 9" by (simp add: deleteStatements_def)
  show "list_all chat_free ?fs"
    by (simp add: deleteStatements_def execD_def chat_free_def delete_meta_where_def delete_semantic_where_def semanticOf_def metaOf_def Let_def)
qed

text \<open>So it does not matter to the memories between which two of the statements a chat is moved.\<close>

lemma interleaved_chats:
  fixes db :: "'v Db" and other :: "('v, 'a) db_op"
  assumes "deleteChecks pid db = None" "k \<le> 9" "\<And>d. db_chats d = db_chats db \<Longrightarrow> db_profiles d = db_profiles db \<Longrightarrow> snd (other d) = d\<lparr>db_chats := cs\<rparr>"
  shows "deleteInterleaved pid k other db =
    delete_profile_row pid ((deletedDb pid db)\<lparr>db_profiles := db_profiles db, db_chats := cs\<rparr>)"
proof -
  obtain fs :: "('v Db \<Rightarrow> 'v Db) list" where fs: "deleteStatements pid = map execD fs @ [delete_profile_row pid]" "length fs = 9" "list_all chat_free fs"
    using statements_chat_free by blast
  have parts: "list_all chat_free (take k fs)" "list_all chat_free (drop k fs)"
    using fs(3) by (auto simp: list_all_iff dest: in_set_takeD in_set_dropD)
  let ?d = "fold id (take k fs) db"
  have t: "take k (deleteStatements pid) = map execD (take k fs)" "drop k (deleteStatements pid) = map execD (drop k fs) @ [delete_profile_row pid]"
    using fs(1,2) assms(2) by (simp_all add: take_map drop_map)
  have "snd (other ?d) = ?d\<lparr>db_chats := cs\<rparr>"
    using chat_free_fold [OF parts(1)] by (intro assms(3)) (simp_all add: chat_free_def)
  moreover have "fold id (drop k fs) (?d\<lparr>db_chats := cs\<rparr>) = (fold id (drop k fs) ?d)\<lparr>db_chats := cs\<rparr>"
    using chat_free_fold [OF parts(2)] by (simp add: chat_free_def)
  moreover have "fold id (drop k fs) ?d = fold id fs db"
    using fold_append [of id "take k fs" "drop k fs"] by (simp add: comp_def)
  moreover have "fold id fs db = (deletedDb pid db)\<lparr>db_profiles := db_profiles db\<rparr>"
    using memory_statements [of pid db] fs(1,2) by (simp add: sequenceD_execs)
  moreover have "sequenceD [delete_profile_row pid] d = delete_profile_row pid d" for d
    by (auto simp: bindD_def retD_def split: sum.split prod.split)
  ultimately show ?thesis
    using assms(1) by (simp add: deleteInterleaved_def t sequenceD_append sequenceD_execs bindD_def)
qed

text \<open>
  C19. The statements of a deletion are not one transaction: a chat that is assigned to the profile at any point between the
  check and the last statement makes the last statement fail, with the memories of the profile gone and the profile still
  there.
\<close>

theorem delete_not_atomic:
  assumes "deleteChecks pid db = None" "ids_distinct db" "c \<in> set (db_chats db)" "k \<le> 9"
  shows "\<exists>db'. deleteInterleaved pid k (assignChat now (ch_id c) pid) db = (Inl (Foreign_key ''agent_profiles''), db') \<and>
    view pid db' = emptyView \<and> pid \<in> profile_ids db'"
proof -
  obtain p where p: "getProfile pid db = Some p" using assms(1) by (auto simp: deleteChecks_None)
  obtain c' where c': "getChat (ch_id c) db = Some c'" using assms(3)
    by (cases "getChat (ch_id c) db") (auto simp: getChat_def find_None_iff)
  let ?cs = "map (\<lambda>r. if ch_id r = ch_id c then r\<lparr>ch_profile_id := pid, ch_updated_at := now\<rparr> else r) (db_chats db)"
  let ?db2 = "(deletedDb pid db)\<lparr>db_profiles := db_profiles db, db_chats := ?cs\<rparr>"
  have a: "snd (assignChat now (ch_id c) pid d) = d\<lparr>db_chats := ?cs\<rparr>" if "db_chats d = db_chats db" "db_profiles d = db_profiles db" for d
  proof -
    have "getProfile pid d = Some p" "getChat (ch_id c) d = Some c'" using p c' that by (simp_all add: getProfile_def getChat_def)
    then show ?thesis using that by (simp add: assignChat_def)
  qed
  have "c\<lparr>ch_profile_id := pid, ch_updated_at := now\<rparr> \<in> set (db_chats ?db2)" using assms(3) by (simp add: image_iff) (rule bexI [of _ c], simp_all)
  then have "ch_profile_id (c\<lparr>ch_profile_id := pid, ch_updated_at := now\<rparr>) \<in> ch_profile_id ` set (db_chats ?db2)" by (rule imageI)
  then have "pid \<in> profile_refs ?db2" by (simp add: profile_refs_def)
  then have "deleteInterleaved pid k (assignChat now (ch_id c) pid) db = (Inl (Foreign_key ''agent_profiles''), ?db2)"
    using interleaved_chats [OF assms(1,4), of "assignChat now (ch_id c) pid", OF a] by (simp add: delete_profile_row_def)
  moreover have "view pid ?db2 = view pid (deletedDb pid db)" by (simp add: view_def semanticOf_def metaOf_def)
  moreover have "pid \<in> profile_ids ?db2" using p getProfile_iff [of pid db] by (simp add: profile_ids_def)
  ultimately show ?thesis using delete_view [OF assms(2), of pid pid] by auto
qed

theorem delete_not_atomic_witness:
  "fst (deleteInterleaved ''p2'' 0 (assignChat 7 ''c'' ''p2'') example_db) = Inl (Foreign_key ''agent_profiles'') \<and>
   fst (deleteInterleaved ''p2'' 9 (assignChat 7 ''c'' ''p2'') example_db) = Inl (Foreign_key ''agent_profiles'')"
proof -
  have "deleteChecks ''p2'' example_db = None" by (simp add: deleteChecks_def getProfile_def example_db_simps)
  moreover have "ids_distinct example_db" using example_db_ok by (simp add: db_ok_def)
  moreover have "\<exists>c \<in> set (db_chats example_db). ch_id c = ''c''" by (simp add: example_db_simps)
  ultimately show ?thesis
    using delete_not_atomic [of "''p2''" example_db _ 0 7] delete_not_atomic [of "''p2''" example_db _ 9 7] by fastforce
qed

text \<open>
  Once the profile called \<open>default\<close> is deleted, which the code permits when another profile is the
  default, every later start of the database fails: the seed of the schema resolves a conflict of names
  only, and inserts a second default.
\<close>

theorem deleted_default_blocks_start:
  assumes "db_ok db" "getProfileByName ''default'' db = Some d" "getProfile other db = Some q" "ap_id d \<noteq> other"
    "ap_id d \<notin> ch_profile_id ` set (db_chats db)"
  shows "\<exists>db'. deleteProfile (ap_id d) (snd (setDefaultProfile now other db)) = (Inr (), db') \<and>
    seed_default_profile newId later db' = (Inl (Unique_violation ''uq_one_default_profile''), db')"
proof -
  let ?db1 = "snd (setDefaultProfile now other db)"
  have ok1: "db_ok ?db1" by (rule set_default_ok [OF assms(1)])
  have d: "d \<in> set (db_profiles db)" "ap_name d = ''default''" using find_SomeD assms(2) unfolding getProfileByName_def by fast+
  have q: "q \<in> set (db_profiles db)" "ap_id q = other" using getProfile_Some [OF assms(3)] by simp_all
  have ids: "map ap_id (db_profiles ?db1) = map ap_id (db_profiles db)" "map ap_name (db_profiles ?db1) = map ap_name (db_profiles db)"
    "db_chats ?db1 = db_chats db"
    using assms(3) by (simp_all add: setDefaultProfile_def transaction_def bindD_def execD_def)
  have dn: "distinct (map ap_id (db_profiles db))" "distinct (map ap_name (db_profiles db))"
    using assms(1) by (simp_all add: db_ok_def ids_distinct_def)
  have other: "\<exists>r \<in> set (db_profiles ?db1). ap_id r = other \<and> ap_is_default r"
    using set_default_default [OF assms(3)] .
  then obtain r where r: "r \<in> set (db_profiles ?db1)" "ap_id r = other" "ap_is_default r" by blast
  have one: "r' = r" if "r' \<in> set (db_profiles ?db1)" "ap_is_default r'" for r'
    using unique_default [OF ok1] that r by blast
  obtain d' where d': "getProfile (ap_id d) ?db1 = Some d'"
    using getProfile_iff [of "ap_id d" ?db1] ids(1) d(1) unfolding profile_ids_def by (metis imageI list.set_map not_None_eq)
  then have d'': "d' \<in> set (db_profiles ?db1)" "ap_id d' = ap_id d" using getProfile_Some by blast+
  then have "\<not> ap_is_default d'" using one r assms(4) by metis
  then have c: "deleteChecks (ap_id d) ?db1 = None" using d' ids(3) assms(5) by (auto simp: deleteChecks_None image_iff)
  have "''default'' \<notin> ap_name ` set (db_profiles (deletedDb (ap_id d) ?db1))"
  proof
    assume "''default'' \<in> ap_name ` set (db_profiles (deletedDb (ap_id d) ?db1))"
    then obtain e where e: "e \<in> set (db_profiles ?db1)" "ap_id e \<noteq> ap_id d" "ap_name e = ''default''" by auto
    have "(ap_id e, ap_name e) \<in> (\<lambda>r. (ap_id r, ap_name r)) ` set (db_profiles ?db1)" using e(1) by (rule imageI)
    then have "(ap_id e, ap_name e) \<in> (\<lambda>r. (ap_id r, ap_name r)) ` set (db_profiles db)" unfolding set_default_names .
    then obtain e0 where e0: "e0 \<in> set (db_profiles db)" "ap_id e0 = ap_id e" "ap_name e0 = ''default''" using e(3) by auto
    then show False using d dn(2) e(2) by (metis distinct_map inj_on_eq_iff)
  qed
  moreover have "list_ex ap_is_default (db_profiles (deletedDb (ap_id d) ?db1))"
    using r assms(4) by (auto simp: list_ex_iff)
  ultimately show ?thesis unfolding deleteProfile_result [OF c]
    by (simp add: seed_default_profile_def bindD_def insert_profile_def)
qed

theorem deleted_default_blocks_start_witness:
  "\<exists>db'. deleteProfile ''p1'' (snd (setDefaultProfile 5 ''p2'' (example_db\<lparr>db_chats := []\<rparr>))) = (Inr (), db') \<and>
    fst (seed_default_profile ''p9'' 6 db') = Inl (Unique_violation ''uq_one_default_profile'')"
proof -
  have "db_ok (example_db\<lparr>db_chats := []\<rparr>)" by (rule chats_free [OF example_db_ok])
  moreover have "getProfileByName ''default'' (example_db\<lparr>db_chats := []\<rparr>) = Some (hd (db_profiles example_db))"
    "getProfile ''p2'' (example_db\<lparr>db_chats := []\<rparr>) = Some (db_profiles example_db ! 1)" "ap_id (hd (db_profiles example_db)) = ''p1''"
    by (simp_all add: getProfileByName_def getProfile_def example_db_simps)
  ultimately show ?thesis
    using deleted_default_blocks_start [of "example_db\<lparr>db_chats := []\<rparr>" "hd (db_profiles example_db)" "''p2''" "db_profiles example_db ! 1" 5 "''p9''" 6]
    by fastforce
qed

end
