(* ===== verification/Memory_Manager.thy ===== *)
theory Memory_Manager
  imports Memory_Db
begin

text \<open>
  \<^verbatim>\<open>src/src/orchestrator/memory.ts\<close> and \<^verbatim>\<open>scoring.ts\<close>: storing and searching the memories of a profile, and walking
  from an entry down to what it was made of. The embedding model and the index of PostgreSQL are
  parameters, the fields of \<open>Services\<close>; \<open>nearest_ok\<close> is what the code relies on for the index. Shown: what
  a search returns; how the cascade over the depths of reflection fills its slots; and that the walk to the
  sources ends, with exactly the sources, when depths decrease along the links.
\<close>

section \<open>Scoring\<close>

record ScoringWeights =
  sc_alpha :: real
  sc_beta :: real
  sc_gamma :: real
  sc_lambda :: real

definition DEFAULT_SCORING_WEIGHTS :: ScoringWeights where
  "DEFAULT_SCORING_WEIGHTS = \<lparr>sc_alpha = 5 / 10, sc_beta = 3 / 10, sc_gamma = 2 / 10, sc_lambda = 1 / 100\<rparr>"

definition compositeScore :: "real \<Rightarrow> time \<Rightarrow> real \<Rightarrow> ScoringWeights \<Rightarrow> time \<Rightarrow> real" where
  "compositeScore similarity lastAccessed importance w now =
     (let deltaDays = max 0 (of_int (now - lastAccessed) / 86400000);
          recencyDecay = exp (- sc_lambda w * deltaDays)
      in sc_alpha w * similarity + sc_beta w * recencyDecay + sc_gamma w * importance)"

definition rankByCompositeScore ::
  "('c \<Rightarrow> real) \<Rightarrow> ('c \<Rightarrow> time) \<Rightarrow> ('c \<Rightarrow> real) \<Rightarrow> ScoringWeights \<Rightarrow> nat \<Rightarrow> time \<Rightarrow> 'c list \<Rightarrow> ('c \<times> real) list" where
  "rankByCompositeScore similarity lastAccessed importance w limit now candidates =
     take limit (sort_key (\<lambda>x. - snd x)
       (map (\<lambda>c. (c, compositeScore (similarity c) (lastAccessed c) (importance c) w now)) candidates))"

section \<open>Entries\<close>

record SemanticMemoryEntry =
  se_id :: string
  se_content :: string
  se_memoryType :: SemanticMemoryType
  se_importance :: real
  se_depth :: nat
  se_tokenCount :: nat
  se_sourceSession :: "string option"
  se_earliestAt :: "time option"
  se_latestAt :: "time option"
  se_createdAt :: time
  se_updatedAt :: time
  se_lastAccessed :: time
  se_accessCount :: nat

record MetaMemoryEntry =
  me_id :: string
  me_content :: string
  me_reflectionType :: MetaMemoryType
  me_confidence :: real
  me_depth :: nat
  me_createdAt :: time
  me_updatedAt :: time
  me_lastAccessed :: time

record ExternalMemoryEntry =
  ee_id :: string
  ee_content :: string
  ee_sourceType :: ExternalMemorySource
  ee_sourceRef :: string
  ee_createdAt :: time

text \<open>A time of zero is falsy.\<close>

definition truthyTime :: "time option \<Rightarrow> time option" where
  "truthyTime t = (case t of Some x \<Rightarrow> if x \<noteq> 0 then Some x else None | None \<Rightarrow> None)"

definition semanticRowToEntry :: "'v SemanticRow \<Rightarrow> SemanticMemoryEntry" where
  "semanticRowToEntry r = \<lparr>se_id = sm_id r, se_content = sm_content r, se_memoryType = sm_memory_type r, se_importance = sm_importance r,
     se_depth = sm_depth r, se_tokenCount = sm_token_count r, se_sourceSession = sm_source_session r,
     se_earliestAt = truthyTime (sm_earliest_at r), se_latestAt = truthyTime (sm_latest_at r), se_createdAt = sm_created_at r,
     se_updatedAt = sm_updated_at r, se_lastAccessed = sm_last_accessed r, se_accessCount = sm_access_count r\<rparr>"

definition metaRowToEntry :: "'v MetaRow \<Rightarrow> MetaMemoryEntry" where
  "metaRowToEntry r = \<lparr>me_id = mm_id r, me_content = mm_content r, me_reflectionType = mm_reflection_type r,
     me_confidence = mm_confidence r, me_depth = mm_depth r, me_createdAt = mm_created_at r, me_updatedAt = mm_updated_at r,
     me_lastAccessed = mm_last_accessed r\<rparr>"

definition externalRowToEntry :: "'v ExternalRow \<Rightarrow> ExternalMemoryEntry" where
  "externalRowToEntry r = \<lparr>ee_id = ex_id r, ee_content = ex_content r, ee_sourceType = ex_source_type r, ee_sourceRef = ex_source_ref r,
     ee_createdAt = ex_created_at r\<rparr>"

record 'e QueryResult =
  qr_entry :: 'e
  qr_similarity :: real
  qr_compositeScore :: real

section \<open>Configuration\<close>

datatype strategy = Cascade | Flat

record MetaInjectionConfig =
  mi_strategy :: strategy
  mi_d2MinSimilarity :: real
  mi_d1MinSimilarity :: real
  mi_d0MinSimilarity :: real
  mi_d2Slots :: nat
  mi_d1Slots :: nat
  mi_d0Slots :: nat

definition DEFAULT_META_INJECTION :: MetaInjectionConfig where
  "DEFAULT_META_INJECTION = \<lparr>mi_strategy = Cascade, mi_d2MinSimilarity = 3 / 10, mi_d1MinSimilarity = 4 / 10, mi_d0MinSimilarity = 5 / 10,
     mi_d2Slots = 2, mi_d1Slots = 2, mi_d0Slots = 1\<rparr>"

record MemoryManager =
  mg_workingMemoryLimit :: nat
  mg_semanticMemoryLimit :: nat
  mg_metaMemoryLimit :: nat
  mg_externalMemoryLimit :: nat
  mg_externalSimilarityThreshold :: real
  mg_scoringWeights :: ScoringWeights
  mg_candidateMultiplier :: nat
  mg_metaInjection :: MetaInjectionConfig
  mg_started :: bool

text \<open>The manager as it is made when the options leave everything open.\<close>

definition new_manager :: MemoryManager where
  "new_manager = \<lparr>mg_workingMemoryLimit = 20, mg_semanticMemoryLimit = 20, mg_metaMemoryLimit = 5, mg_externalMemoryLimit = 10,
     mg_externalSimilarityThreshold = 5 / 10, mg_scoringWeights = DEFAULT_SCORING_WEIGHTS, mg_candidateMultiplier = 3,
     mg_metaInjection = DEFAULT_META_INJECTION, mg_started = False\<rparr>"

definition startMemory :: "MemoryManager \<Rightarrow> MemoryManager" where
  "startMemory mg = mg\<lparr>mg_started := True\<rparr>"

definition stopMemory :: "MemoryManager \<Rightarrow> MemoryManager" where
  "stopMemory mg = mg\<lparr>mg_started := False\<rparr>"

definition ensureStarted :: "MemoryManager \<Rightarrow> ('v, unit) db_op" where
  "ensureStarted mg = (if mg_started mg then retD () else throwD ''MemoryManager not started'')"

text \<open>
  What the manager calls: the embedding of a text, the similarity \<^verbatim>\<open>1 - (a <=> b)\<close> of two vectors, and the ids that
  \<^verbatim>\<open>ORDER BY embedding <=> q LIMIT n\<close> finds through the index, which may miss some.
\<close>

record 'v Services =
  sv_embed :: "string \<Rightarrow> string + 'v"
  sv_sim :: "'v \<Rightarrow> 'v \<Rightarrow> real"
  sv_nearest :: "'v \<Rightarrow> nat \<Rightarrow> (string \<times> 'v) list \<Rightarrow> string list"

definition nearest_ok :: "'v Services \<Rightarrow> bool" where
  "nearest_ok sv \<longleftrightarrow>
     (\<forall>q n rs. set (sv_nearest sv q n rs) \<subseteq> fst ` set rs \<and> distinct (sv_nearest sv q n rs) \<and> length (sv_nearest sv q n rs) \<le> n)"

definition embed :: "'v Services \<Rightarrow> string \<Rightarrow> ('v, 'v) db_op" where
  "embed sv text1 = (case sv_embed sv text1 of Inl e \<Rightarrow> throwD e | Inr v \<Rightarrow> retD v)"

definition nearestRows :: "'v Services \<Rightarrow> 'v \<Rightarrow> nat \<Rightarrow> ('r \<Rightarrow> string) \<Rightarrow> ('r \<Rightarrow> 'v) \<Rightarrow> 'r list \<Rightarrow> ('r \<times> real) list" where
  "nearestRows sv q n ident emb rs =
     List.map_filter (\<lambda>i. map_option (\<lambda>r. (r, sv_sim sv (emb r) q)) (find (\<lambda>r. ident r = i) rs))
       (sv_nearest sv q n (map (\<lambda>r. (ident r, emb r)) rs))"

section \<open>Tier 2: semantic memory\<close>

fun defaultImportance :: "SemanticMemoryType \<Rightarrow> real" where
  "defaultImportance Instruction = 1"
| "defaultImportance Procedure = 8 / 10"
| "defaultImportance Summary = 7 / 10"
| "defaultImportance _ = 5 / 10"

definition estimateTokens :: "string \<Rightarrow> nat" where
  "estimateTokens s = nat (ceil_div (int (length s)) 4)"

record StoreSemanticOptions =
  so_content :: string
  so_memoryType :: SemanticMemoryType
  so_importance :: "real option"
  so_sourceSession :: "string option"
  so_depth :: "nat option"
  so_profileId :: string

definition insertSemantic :: "'v SemanticRow \<Rightarrow> ('v, string) db_op" where
  "insertSemantic r db =
     (if \<not> (0 \<le> sm_importance r \<and> sm_importance r \<le> 1) then (Inl (Thrown ''memory_semantic_importance_check''), db)
      else if sm_profile_id r \<notin> profile_ids db then (Inl (Foreign_key ''memory_semantic_profile_id_fkey''), db)
      else (case sm_source_session r of
              Some s \<Rightarrow> if s \<in> ss_id ` set (db_sessions db) then (Inr (sm_id r), db\<lparr>db_semantic := db_semantic db @ [r]\<rparr>)
                else (Inl (Foreign_key ''memory_semantic_source_session_fkey''), db)
            | None \<Rightarrow> (Inr (sm_id r), db\<lparr>db_semantic := db_semantic db @ [r]\<rparr>)))"

definition storeSemanticMemory ::
  "'v Services \<Rightarrow> MemoryManager \<Rightarrow> time \<Rightarrow> string \<Rightarrow> StoreSemanticOptions \<Rightarrow> ('v, string) db_op" where
  "storeSemanticMemory sv mg now newId opts =
     bindD (ensureStarted mg) (\<lambda>_.
     bindD (embed sv (so_content opts)) (\<lambda>vector.
     insertSemantic \<lparr>sm_id = newId, sm_content = so_content opts, sm_embedding = vector, sm_memory_type = so_memoryType opts,
       sm_importance = (case so_importance opts of Some x \<Rightarrow> x | None \<Rightarrow> defaultImportance (so_memoryType opts)),
       sm_depth = (case so_depth opts of Some d \<Rightarrow> d | None \<Rightarrow> 0), sm_token_count = estimateTokens (so_content opts),
       sm_source_session = so_sourceSession opts, sm_profile_id = so_profileId opts, sm_earliest_at = None, sm_latest_at = None,
       sm_created_at = now, sm_updated_at = now, sm_last_accessed = now, sm_access_count = 0\<rparr>))"

definition semanticResults :: "MemoryManager \<Rightarrow> time \<Rightarrow> nat \<Rightarrow> ('v SemanticRow \<times> real) list \<Rightarrow> SemanticMemoryEntry QueryResult list" where
  "semanticResults mg now limit rows =
     map (\<lambda>((r, sim), s). \<lparr>qr_entry = semanticRowToEntry r, qr_similarity = sim, qr_compositeScore = s\<rparr>)
       (rankByCompositeScore snd (\<lambda>(r, sim). sm_last_accessed r) (\<lambda>(r, sim). sm_importance r) (mg_scoringWeights mg) limit now rows)"

definition semanticCandidates :: "string \<Rightarrow> SemanticMemoryType option \<Rightarrow> 'v Db \<Rightarrow> 'v SemanticRow list" where
  "semanticCandidates profileId memoryType db =
     filter (\<lambda>r. sm_profile_id r = profileId \<and> (case memoryType of Some t \<Rightarrow> sm_memory_type r = t | None \<Rightarrow> True)) (db_semantic db)"

definition querySemanticMemory ::
  "'v Services \<Rightarrow> MemoryManager \<Rightarrow> time \<Rightarrow> string \<Rightarrow> string \<Rightarrow> SemanticMemoryType option \<Rightarrow> nat option \<Rightarrow>
   ('v, SemanticMemoryEntry QueryResult list) db_op" where
  "querySemanticMemory sv mg now text1 profileId memoryType limit1 =
     bindD (ensureStarted mg) (\<lambda>_.
     bindD (embed sv text1) (\<lambda>vector.
     let limit = (case limit1 of Some n \<Rightarrow> n | None \<Rightarrow> mg_semanticMemoryLimit mg);
         fetchLimit = limit * mg_candidateMultiplier mg in
     bindD (queryD (\<lambda>db. nearestRows sv vector fetchLimit sm_id sm_embedding (semanticCandidates profileId memoryType db)))
       (\<lambda>rows. retD (semanticResults mg now limit rows))))"

definition deleteSemanticMemory :: "MemoryManager \<Rightarrow> string \<Rightarrow> ('v, bool) db_op" where
  "deleteSemanticMemory mg memoryId =
     bindD (ensureStarted mg) (\<lambda>_.
     bindD (queryD (\<lambda>db. list_ex (\<lambda>r. sm_id r = memoryId) (db_semantic db))) (\<lambda>found.
     bindD (execD (delete_semantic_where (\<lambda>r. sm_id r = memoryId))) (\<lambda>_. retD found)))"

section \<open>Tier 3: meta memory\<close>

definition metaResults :: "MemoryManager \<Rightarrow> time \<Rightarrow> nat \<Rightarrow> ('v MetaRow \<times> real) list \<Rightarrow> MetaMemoryEntry QueryResult list" where
  "metaResults mg now limit rows =
     map (\<lambda>((r, sim), s). \<lparr>qr_entry = metaRowToEntry r, qr_similarity = sim, qr_compositeScore = s\<rparr>)
       (rankByCompositeScore snd (\<lambda>(r, sim). mm_last_accessed r) (\<lambda>(r, sim). mm_confidence r) (mg_scoringWeights mg) limit now rows)"

definition metaCandidates :: "string \<Rightarrow> MetaMemoryType option \<Rightarrow> int \<Rightarrow> int \<Rightarrow> 'v Db \<Rightarrow> 'v MetaRow list" where
  "metaCandidates profileId reflectionType minDepth maxDepth db =
     filter (\<lambda>r. mm_profile_id r = profileId \<and> (case reflectionType of Some t \<Rightarrow> mm_reflection_type r = t | None \<Rightarrow> True) \<and>
       mm_confidence r \<ge> 2 / 10 \<and> minDepth \<le> int (mm_depth r) \<and> int (mm_depth r) \<le> maxDepth) (db_meta db)"

definition queryMetaMemory ::
  "'v Services \<Rightarrow> MemoryManager \<Rightarrow> time \<Rightarrow> string \<Rightarrow> string \<Rightarrow> MetaMemoryType option \<Rightarrow> nat option \<Rightarrow> int option \<Rightarrow> int option \<Rightarrow>
   ('v, MetaMemoryEntry QueryResult list) db_op" where
  "queryMetaMemory sv mg now text1 profileId reflectionType limit1 minDepth1 maxDepth1 =
     bindD (ensureStarted mg) (\<lambda>_.
     bindD (embed sv text1) (\<lambda>vector.
     let limit = (case limit1 of Some n \<Rightarrow> n | None \<Rightarrow> mg_metaMemoryLimit mg);
         fetchLimit = limit * mg_candidateMultiplier mg;
         minDepth = (case minDepth1 of Some d \<Rightarrow> d | None \<Rightarrow> 0);
         maxDepth = (case maxDepth1 of Some d \<Rightarrow> d | None \<Rightarrow> 999) in
     bindD (queryD (\<lambda>db. nearestRows sv vector fetchLimit mm_id mm_embedding (metaCandidates profileId reflectionType minDepth maxDepth db)))
       (\<lambda>rows. retD (metaResults mg now limit rows))))"

definition fetchMetaAtDepthRange ::
  "'v Services \<Rightarrow> MemoryManager \<Rightarrow> time \<Rightarrow> 'v \<Rightarrow> string \<Rightarrow> nat \<Rightarrow> nat \<Rightarrow> nat \<Rightarrow> real \<Rightarrow> 'v Db \<Rightarrow> MetaMemoryEntry QueryResult list" where
  "fetchMetaAtDepthRange sv mg now vector profileId minDepth maxDepth limit minSimilarity db =
     metaResults mg now limit
       (filter (\<lambda>(r, sim). sim \<ge> minSimilarity)
         (nearestRows sv vector (limit * mg_candidateMultiplier mg) mm_id mm_embedding
           (metaCandidates profileId None (int minDepth) (int maxDepth) db)))"

definition updateSemanticAccess :: "time \<Rightarrow> string \<Rightarrow> 'v Db \<Rightarrow> 'v Db" where
  "updateSemanticAccess now memoryId db =
     db\<lparr>db_semantic := map (\<lambda>r. if sm_id r = memoryId then r\<lparr>sm_last_accessed := now, sm_access_count := sm_access_count r + 1\<rparr> else r) (db_semantic db)\<rparr>"

definition updateMetaAccess :: "time \<Rightarrow> string \<Rightarrow> 'v Db \<Rightarrow> 'v Db" where
  "updateMetaAccess now memoryId db =
     db\<lparr>db_meta := map (\<lambda>r. if mm_id r = memoryId then r\<lparr>mm_last_accessed := now\<rparr> else r) (db_meta db)\<rparr>"

definition maxMetaDepth :: "string \<Rightarrow> 'v Db \<Rightarrow> nat" where
  "maxMetaDepth profileId db =
     fold max (map mm_depth (filter (\<lambda>r. mm_profile_id r = profileId \<and> mm_confidence r \<ge> 2 / 10) (db_meta db))) 0"

definition cascadeResults :: "'v Services \<Rightarrow> MemoryManager \<Rightarrow> time \<Rightarrow> 'v \<Rightarrow> string \<Rightarrow> MetaInjectionConfig \<Rightarrow> 'v Db \<Rightarrow> MetaMemoryEntry QueryResult list" where
  "cascadeResults sv mg now vector profileId cfg db =
     (let maxDepth = maxMetaDepth profileId db in
      (if maxDepth \<ge> 2 \<and> mi_d2Slots cfg > 0
       then fetchMetaAtDepthRange sv mg now vector profileId 2 maxDepth (mi_d2Slots cfg) (mi_d2MinSimilarity cfg) db else []) @
      (if mi_d1Slots cfg > 0 then fetchMetaAtDepthRange sv mg now vector profileId 1 1 (mi_d1Slots cfg) (mi_d1MinSimilarity cfg) db else []) @
      (if mi_d0Slots cfg > 0 then fetchMetaAtDepthRange sv mg now vector profileId 0 0 (mi_d0Slots cfg) (mi_d0MinSimilarity cfg) db else []))"

definition queryMetaCascade ::
  "'v Services \<Rightarrow> MemoryManager \<Rightarrow> time \<Rightarrow> string \<Rightarrow> string \<Rightarrow> MetaInjectionConfig option \<Rightarrow> ('v, MetaMemoryEntry QueryResult list) db_op" where
  "queryMetaCascade sv mg now text1 profileId config =
     bindD (ensureStarted mg) (\<lambda>_.
     bindD (embed sv text1) (\<lambda>vector.
     bindD (queryD (cascadeResults sv mg now vector profileId (case config of Some c \<Rightarrow> c | None \<Rightarrow> mg_metaInjection mg))) (\<lambda>results.
     bindD (execD (fold (\<lambda>r. updateMetaAccess now (me_id (qr_entry r))) results)) (\<lambda>_.
     retD results))))"

section \<open>External memory\<close>

definition storeExternalMemory ::
  "'v Services \<Rightarrow> MemoryManager \<Rightarrow> time \<Rightarrow> string \<Rightarrow> string \<Rightarrow> ExternalMemorySource \<Rightarrow> string \<Rightarrow> string \<Rightarrow> ('v, string) db_op" where
  "storeExternalMemory sv mg now newId content sourceType sourceRef profileId =
     bindD (ensureStarted mg) (\<lambda>_.
     bindD (embed sv content) (\<lambda>vector db.
       if profileId \<notin> profile_ids db then (Inl (Foreign_key ''memory_external_profile_id_fkey''), db)
       else (Inr newId, db\<lparr>db_external := db_external db @ [\<lparr>ex_id = newId, ex_content = content, ex_embedding = vector,
              ex_source_type = sourceType, ex_source_ref = sourceRef, ex_profile_id = profileId, ex_created_at = now\<rparr>]\<rparr>)))"

definition queryExternalMemory ::
  "'v Services \<Rightarrow> MemoryManager \<Rightarrow> string \<Rightarrow> string \<Rightarrow> ExternalMemorySource option \<Rightarrow> nat option \<Rightarrow> ('v, (ExternalMemoryEntry \<times> real) list) db_op" where
  "queryExternalMemory sv mg text1 profileId source1 limit1 =
     bindD (ensureStarted mg) (\<lambda>_.
     bindD (embed sv text1) (\<lambda>vector.
     let limit = (case limit1 of Some n \<Rightarrow> n | None \<Rightarrow> mg_externalMemoryLimit mg) in
     bindD (queryD (\<lambda>db. nearestRows sv vector limit ex_id ex_embedding
         (filter (\<lambda>r. ex_profile_id r = profileId \<and> (case source1 of Some t \<Rightarrow> ex_source_type r = t | None \<Rightarrow> True)) (db_external db))))
       (\<lambda>rows. retD (map (\<lambda>(r, sim). (externalRowToEntry r, sim)) (filter (\<lambda>(r, sim). sim \<ge> mg_externalSimilarityThreshold mg) rows)))))"

definition removeExternalBySource :: "MemoryManager \<Rightarrow> string \<Rightarrow> string \<Rightarrow> ('v, nat) db_op" where
  "removeExternalBySource mg sourceRef profileId =
     bindD (ensureStarted mg) (\<lambda>_ db.
       let hit = (\<lambda>r. ex_source_ref r = sourceRef \<and> ex_profile_id r = profileId) in
       (Inr (length (filter hit (db_external db))), db\<lparr>db_external := filter (\<lambda>r. \<not> hit r) (db_external db)\<rparr>))"

section \<open>Walking to the sources\<close>

datatype Expansion =
    Nothing
  | Messages "MessageRow list"
  | ChildSummaries "SemanticMemoryEntry list"

definition semanticRow :: "string \<Rightarrow> 'v Db \<Rightarrow> 'v SemanticRow option" where
  "semanticRow i db = find (\<lambda>r. sm_id r = i) (db_semantic db)"

definition metaRow :: "string \<Rightarrow> 'v Db \<Rightarrow> 'v MetaRow option" where
  "metaRow i db = find (\<lambda>r. mm_id r = i) (db_meta db)"

text \<open>\<^verbatim>\<open>ORDER BY earliest_at ASC\<close>: rows without a time come last.\<close>

definition byEarliest :: "'v SemanticRow list \<Rightarrow> 'v SemanticRow list" where
  "byEarliest rs = sort_key (\<lambda>r. the (sm_earliest_at r)) (filter (\<lambda>r. sm_earliest_at r \<noteq> None) rs) @ filter (\<lambda>r. sm_earliest_at r = None) rs"

definition expandMemoryIn :: "string \<Rightarrow> 'v Db \<Rightarrow> Expansion" where
  "expandMemoryIn summaryId db =
     (case find (\<lambda>r. sm_id r = summaryId \<and> sm_memory_type r = Summary) (db_semantic db) of
        None \<Rightarrow> Nothing
      | Some s \<Rightarrow>
          if sm_depth s = 0
          then Messages (sort_key mw_timestamp (filter (\<lambda>m. (summaryId, mw_id m, mw_chat_id m) \<in> set (db_sms db)) (db_working db)))
          else ChildSummaries (map semanticRowToEntry (byEarliest (filter (\<lambda>r. (summaryId, sm_id r) \<in> set (db_sps db)) (db_semantic db)))))"

definition expandMemory :: "MemoryManager \<Rightarrow> string \<Rightarrow> ('v, Expansion) db_op" where
  "expandMemory mg summaryId = bindD (ensureStarted mg) (\<lambda>_. queryD (expandMemoryIn summaryId))"

datatype MetaExpansion =
    NoEntry
  | SourceSemantics "SemanticMemoryEntry list"
  | ChildMetas "MetaMemoryEntry list"

definition expandMetaIn :: "string \<Rightarrow> 'v Db \<Rightarrow> MetaExpansion" where
  "expandMetaIn metaId db =
     (case metaRow metaId db of
        None \<Rightarrow> NoEntry
      | Some m \<Rightarrow>
          if mm_depth m = 0
          then SourceSemantics (map semanticRowToEntry (sort_key sm_created_at
                 (filter (\<lambda>r. (metaId, sm_id r) \<in> set (db_mms db)) (db_semantic db))))
          else ChildMetas (map metaRowToEntry (sort_key mm_depth (sort_key mm_created_at
                 (filter (\<lambda>r. (metaId, mm_id r) \<in> set (db_mps db)) (db_meta db))))))"

definition expandMetaMemory :: "MemoryManager \<Rightarrow> string \<Rightarrow> ('v, MetaExpansion) db_op" where
  "expandMetaMemory mg metaId = bindD (ensureStarted mg) (\<lambda>_. queryD (expandMetaIn metaId))"

text \<open>The first entry of each id, in order.\<close>

fun dedupe :: "('a \<Rightarrow> string) \<Rightarrow> string list \<Rightarrow> 'a list \<Rightarrow> 'a list" where
  "dedupe k seen [] = []"
| "dedupe k seen (s # ss) = (if k s \<in> set seen then dedupe k seen ss else s # dedupe k (k s # seen) ss)"

text \<open>
  The recursion over the children ends only when the links end. \<open>None\<close> stands for a walk that is longer than the
  fuel; \<open>trace_to_sources\<close> says how much is enough.
\<close>

fun traceIn :: "nat \<Rightarrow> 'v Db \<Rightarrow> string \<Rightarrow> SemanticMemoryEntry list option" where
  "traceIn 0 db metaId = None"
| "traceIn (Suc n) db metaId =
     (case expandMetaIn metaId db of
        SourceSemantics ss \<Rightarrow> Some ss
      | ChildMetas cs \<Rightarrow> map_option (\<lambda>xs. dedupe se_id [] (concat xs)) (those (map (\<lambda>c. traceIn n db (me_id c)) cs))
      | NoEntry \<Rightarrow> Some [])"

definition traceMetaToSources :: "nat \<Rightarrow> MemoryManager \<Rightarrow> string \<Rightarrow> ('v, SemanticMemoryEntry list option) db_op" where
  "traceMetaToSources fuel mg metaId = bindD (ensureStarted mg) (\<lambda>_. queryD (\<lambda>db. traceIn fuel db metaId))"

section \<open>Sessions\<close>

definition startSession :: "MemoryManager \<Rightarrow> time \<Rightarrow> string \<Rightarrow> string \<Rightarrow> ('v, string) db_op" where
  "startSession mg now newId chatId =
     bindD (ensureStarted mg) (\<lambda>_ db.
       if chatId \<notin> ch_id ` set (db_chats db) then (Inl (Foreign_key ''sessions_chat_id_fkey''), db)
       else (Inr newId, db\<lparr>db_sessions := db_sessions db @ [\<lparr>ss_id = newId, ss_chat_id = chatId, ss_started_at = now, ss_ended_at = None\<rparr>]\<rparr>))"

definition endSession :: "MemoryManager \<Rightarrow> time \<Rightarrow> string \<Rightarrow> ('v, unit) db_op" where
  "endSession mg now sessionId =
     bindD (ensureStarted mg) (\<lambda>_. execD (\<lambda>db.
       db\<lparr>db_sessions := map (\<lambda>s. if ss_id s = sessionId then s\<lparr>ss_ended_at := Some now\<rparr> else s) (db_sessions db)\<rparr>))"

text \<open>\<^verbatim>\<open>ORDER BY started_at DESC LIMIT 1\<close>; of two with the same time, the one inserted first.\<close>

definition activeSession :: "string \<Rightarrow> 'v Db \<Rightarrow> SessionRow option" where
  "activeSession chatId db =
     (case sort_key (\<lambda>s. - ss_started_at s) (filter (\<lambda>s. ss_chat_id s = chatId \<and> ss_ended_at s = None) (db_sessions db)) of
        [] \<Rightarrow> None | s # _ \<Rightarrow> Some s)"

definition getActiveSession :: "MemoryManager \<Rightarrow> string \<Rightarrow> ('v, SessionRow option) db_op" where
  "getActiveSession mg chatId = bindD (ensureStarted mg) (\<lambda>_. queryD (activeSession chatId))"

definition getSessionMessages :: "MemoryManager \<Rightarrow> string \<Rightarrow> nat option \<Rightarrow> ('v, MessageRow list) db_op" where
  "getSessionMessages mg sessionId limit1 =
     bindD (ensureStarted mg) (\<lambda>_.
     let lim = (case limit1 of Some n \<Rightarrow> n | None \<Rightarrow> mg_workingMemoryLimit mg) in
     queryD (\<lambda>db. newest lim (filter (\<lambda>m. mw_session_id m = Some sessionId) (db_working db))))"

section \<open>Stats\<close>

fun semanticTypeName :: "SemanticMemoryType \<Rightarrow> string" where
  "semanticTypeName Preference = ''preference''"
| "semanticTypeName Fact = ''fact''"
| "semanticTypeName Pattern = ''pattern''"
| "semanticTypeName Contact = ''contact''"
| "semanticTypeName Instruction = ''instruction''"
| "semanticTypeName Summary = ''summary''"
| "semanticTypeName Procedure = ''procedure''"

fun metaTypeName :: "MetaMemoryType \<Rightarrow> string" where
  "metaTypeName Insight = ''insight''"
| "metaTypeName Heuristic = ''heuristic''"
| "metaTypeName Self_assessment = ''self_assessment''"

fun externalSourceName :: "ExternalMemorySource \<Rightarrow> string" where
  "externalSourceName Document = ''document''"
| "externalSourceName User_provided = ''user_provided''"

text \<open>\<^verbatim>\<open>GROUP BY\<close>, one row per value that occurs (here in the order of its first row).\<close>

definition groupCounts :: "('r \<Rightarrow> string) \<Rightarrow> 'r list \<Rightarrow> (string, nat) js_map" where
  "groupCounts k rs = fold (\<lambda>r m. js_incr (k r) m) rs []"

definition statsOf :: "string \<Rightarrow> 'v Db \<Rightarrow> (string, nat) js_map" where
  "statsOf profileId db =
     js_set ''working_messages'' (length (db_working db))
       (groupCounts (\<lambda>r. ''semantic_'' @ semanticTypeName (sm_memory_type r)) (filter (\<lambda>r. sm_profile_id r = profileId) (db_semantic db)) @
        groupCounts (\<lambda>r. ''meta_'' @ metaTypeName (mm_reflection_type r))
          (filter (\<lambda>r. mm_profile_id r = profileId \<and> mm_confidence r \<ge> 2 / 10) (db_meta db)) @
        groupCounts (\<lambda>r. ''external_'' @ externalSourceName (ex_source_type r)) (filter (\<lambda>r. ex_profile_id r = profileId) (db_external db)))"

definition getMemoryStats :: "MemoryManager \<Rightarrow> string \<Rightarrow> ('v, (string, nat) js_map) db_op" where
  "getMemoryStats mg profileId = bindD (ensureStarted mg) (\<lambda>_. queryD (statsOf profileId))"

section \<open>Ranking\<close>

lemma rank_length: "length (rankByCompositeScore f g h w n now cs) = min n (length cs)"
  by (simp add: rankByCompositeScore_def)

lemma rank_members:
  assumes "(c, s) \<in> set (rankByCompositeScore f g h w n now cs)"
  shows "c \<in> set cs \<and> s = compositeScore (f c) (g c) (h c) w now"
  using assms by (auto simp: rankByCompositeScore_def dest!: in_set_takeD)

lemma rank_sorted: "sorted_wrt (\<lambda>x y. snd y \<le> snd x) (rankByCompositeScore f g h w n now cs)"
proof -
  have "sorted (map (\<lambda>x. - snd x) (sort_key (\<lambda>x. - snd x) xs))" for xs :: "('a \<times> real) list" by (rule sorted_sort_key)
  then have "sorted_wrt (\<lambda>x y. snd y \<le> snd x) (sort_key (\<lambda>x. - snd x) xs)" for xs :: "('a \<times> real) list"
    by (simp add: sorted_wrt_map)
  then show ?thesis unfolding rankByCompositeScore_def by (rule sorted_wrt_take)
qed

text \<open>A candidate that is left out does not score better than one that is returned.\<close>

lemma rank_best:
  assumes "c \<in> set cs" "c \<notin> fst ` set (rankByCompositeScore f g h w n now cs)" "x' \<in> set (rankByCompositeScore f g h w n now cs)"
  shows "compositeScore (f c) (g c) (h c) w now \<le> snd x'"
proof -
  let ?xs = "map (\<lambda>c. (c, compositeScore (f c) (g c) (h c) w now)) cs"
  let ?s = "sort_key (\<lambda>x. - snd x) ?xs" and ?x = "(c, compositeScore (f c) (g c) (h c) w now)"
  have "set ?s = set (take n ?s) \<union> set (drop n ?s)"
    using set_append [of "take n ?s" "drop n ?s"] unfolding append_take_drop_id .
  moreover have "?x \<in> set ?s" using assms(1) by simp
  moreover have "?x \<notin> set (take n ?s)" using assms(2) unfolding rankByCompositeScore_def by (auto simp: image_iff)
  ultimately have d: "?x \<in> set (drop n ?s)" by blast
  have t: "x' \<in> set (take n ?s)" using assms(3) unfolding rankByCompositeScore_def .
  have "sorted (map (\<lambda>x. - snd x) (take n ?s @ drop n ?s))" unfolding append_take_drop_id by (rule sorted_sort_key)
  then have "\<forall>a \<in> set (take n ?s). \<forall>b \<in> set (drop n ?s). - snd a \<le> - snd b" unfolding map_append sorted_append by auto
  then show ?thesis using t d by fastforce
qed

lemma rank_distinct:
  assumes "distinct cs"
  shows "distinct (map fst (rankByCompositeScore f g h w n now cs))"
proof -
  let ?xs = "map (\<lambda>c. (c, compositeScore (f c) (g c) (h c) w now)) cs"
  have "map fst ?xs = cs" by (simp add: o_def)
  then have "mset (map fst (sort_key (\<lambda>x. - snd x) ?xs)) = mset cs" unfolding mset_map mset_sort by (metis mset_map)
  then have "distinct (map fst (sort_key (\<lambda>x. - snd x) ?xs))" using assms mset_eq_imp_distinct_iff by blast
  then show ?thesis unfolding rankByCompositeScore_def take_map [symmetric] by (rule distinct_take)
qed

section \<open>Rows from the index\<close>

lemma nearestRows_sound:
  assumes "(r, s) \<in> set (nearestRows sv q n ident emb rs)"
  shows "r \<in> set rs \<and> s = sv_sim sv (emb r) q"
  using assms find_SomeD by (fastforce simp: nearestRows_def map_filter_def split: option.splits)

lemma length_map_filter: "length (List.map_filter f xs) \<le> length xs"
  by (induction xs) (auto simp: map_filter_simps split: option.split)

lemma nearestRows_length:
  assumes "nearest_ok sv"
  shows "length (nearestRows sv q n ident emb rs) \<le> n"
proof -
  have "length (nearestRows sv q n ident emb rs) \<le> length (sv_nearest sv q n (map (\<lambda>r. (ident r, emb r)) rs))"
    unfolding nearestRows_def by (rule length_map_filter)
  then show ?thesis using assms unfolding nearest_ok_def by (meson order_trans)
qed

lemma map_filter_found:
  "distinct is \<Longrightarrow> distinct (map (\<lambda>x. ident (fst x)) (List.map_filter (\<lambda>i. map_option (\<lambda>r. (r, g r)) (find (\<lambda>r. ident r = i) rs)) is))
    \<and> (\<lambda>x. ident (fst x)) ` set (List.map_filter (\<lambda>i. map_option (\<lambda>r. (r, g r)) (find (\<lambda>r. ident r = i) rs)) is) \<subseteq> set is"
proof (induction "is")
  case (Cons i "is")
  show ?case
  proof (cases "find (\<lambda>r. ident r = i) rs")
    case (Some r)
    then have "ident r = i" using find_SomeD by fast
    then show ?thesis using Cons Some by (auto simp: map_filter_simps)
  qed (use Cons in \<open>auto simp: map_filter_simps\<close>)
qed (simp add: map_filter_simps)

lemma nearestRows_distinct:
  assumes "nearest_ok sv"
  shows "distinct (map (\<lambda>x. ident (fst x)) (nearestRows sv q n ident emb rs))"
proof -
  have "distinct (sv_nearest sv q n (map (\<lambda>r. (ident r, emb r)) rs))" using assms unfolding nearest_ok_def by blast
  from conjunct1 [OF map_filter_found [OF this]] show ?thesis unfolding nearestRows_def .
qed

section \<open>Links\<close>

text \<open>Links lead from an entry of a positive depth to its children; a source of an entry is a source of one it leads to.\<close>

definition child_of :: "'v Db \<Rightarrow> string \<Rightarrow> string \<Rightarrow> bool" where
  "child_of db p c \<longleftrightarrow> (\<exists>m. metaRow p db = Some m \<and> mm_depth m \<noteq> 0) \<and> (p, c) \<in> set (db_mps db) \<and> c \<in> meta_ids db"

definition is_source :: "'v Db \<Rightarrow> string \<Rightarrow> 'v SemanticRow \<Rightarrow> bool" where
  "is_source db metaId r \<longleftrightarrow>
     (\<exists>leaf m. (child_of db)\<^sup>*\<^sup>* metaId leaf \<and> metaRow leaf db = Some m \<and> mm_depth m = 0 \<and> (leaf, sm_id r) \<in> set (db_mms db) \<and>
        r \<in> set (db_semantic db))"

text \<open>Depths decrease along the links.\<close>

definition meta_layered :: "'v Db \<Rightarrow> bool" where
  "meta_layered db \<longleftrightarrow>
     (\<forall>(p, c) \<in> set (db_mps db). \<forall>m m'. metaRow p db = Some m \<longrightarrow> metaRow c db = Some m' \<longrightarrow> mm_depth m' < mm_depth m)"

definition depthOf :: "string \<Rightarrow> 'v Db \<Rightarrow> nat" where
  "depthOf i db = (case metaRow i db of Some m \<Rightarrow> mm_depth m | None \<Rightarrow> 0)"

lemma metaRow_Some: "metaRow i db = Some m \<Longrightarrow> m \<in> set (db_meta db) \<and> mm_id m = i"
  unfolding metaRow_def by (rule find_SomeD)

lemma metaRow_in: "m \<in> set (db_meta db) \<Longrightarrow> \<exists>m'. metaRow (mm_id m) db = Some m'"
  unfolding metaRow_def by (cases "find (\<lambda>r. mm_id r = mm_id m) (db_meta db)") (auto simp: find_None_iff)

lemma entry_ids [simp]: "se_id (semanticRowToEntry r) = sm_id r" "me_id (metaRowToEntry m) = mm_id m"
  by (simp_all add: semanticRowToEntry_def metaRowToEntry_def)

lemma dedupe_ids: "k ` set (dedupe k seen xs) = k ` set xs - set seen \<and> set (dedupe k seen xs) \<subseteq> set xs \<and> distinct (map k (dedupe k seen xs))"
  by (induction k seen xs rule: dedupe.induct) auto

lemma dedupe_set:
  assumes "\<And>x y. x \<in> set xs \<Longrightarrow> y \<in> set xs \<Longrightarrow> k x = k y \<Longrightarrow> x = y"
  shows "set (dedupe k [] xs) = set xs"
  using dedupe_ids [of k "[]" xs] assms by (fastforce simp: image_iff set_eq_iff subset_iff)

lemma those_map_Some:
  assumes "\<And>x. x \<in> set xs \<Longrightarrow> \<exists>y. f x = Some y"
  shows "those (map f xs) = Some (map (\<lambda>x. the (f x)) xs)"
  using assms
proof (induction xs)
  case (Cons a xs)
  obtain y where "f a = Some y" using Cons.prems [of a] by auto
  then show ?case using Cons by simp
qed simp

lemma distinct_sorted_ids: "distinct (map k rs) \<Longrightarrow> distinct (map k (sort_key g (filter P rs)))"
  using distinct_map_filter [of k rs P] by (auto simp: distinct_map)

lemma no_child: "metaRow i db = None \<or> (\<exists>m. metaRow i db = Some m \<and> mm_depth m = 0) \<Longrightarrow> (child_of db)\<^sup>*\<^sup>* i leaf \<Longrightarrow> leaf = i"
  by (erule converse_rtranclpE) (auto simp: child_of_def)

lemma source_step:
  assumes "metaRow i db = Some m" "mm_depth m \<noteq> 0"
  shows "is_source db i r \<longleftrightarrow> (\<exists>c \<in> set (db_meta db). (i, mm_id c) \<in> set (db_mps db) \<and> is_source db (mm_id c) r)"
proof
  assume "is_source db i r"
  then obtain leaf l where l: "(child_of db)\<^sup>*\<^sup>* i leaf" "metaRow leaf db = Some l" "mm_depth l = 0" "(leaf, sm_id r) \<in> set (db_mms db)"
    "r \<in> set (db_semantic db)" unfolding is_source_def by blast
  then have "leaf \<noteq> i" using assms by auto
  then obtain c where c: "child_of db i c" "(child_of db)\<^sup>*\<^sup>* c leaf" using l(1) by (metis converse_rtranclpE)
  then obtain x where "x \<in> set (db_meta db)" "mm_id x = c" by (auto simp: child_of_def meta_ids_def)
  then show "\<exists>c \<in> set (db_meta db). (i, mm_id c) \<in> set (db_mps db) \<and> is_source db (mm_id c) r"
    using c l unfolding is_source_def child_of_def by blast
next
  assume "\<exists>c \<in> set (db_meta db). (i, mm_id c) \<in> set (db_mps db) \<and> is_source db (mm_id c) r"
  then obtain c where c: "c \<in> set (db_meta db)" "(i, mm_id c) \<in> set (db_mps db)" "is_source db (mm_id c) r" by blast
  then have "child_of db i (mm_id c)" using assms by (auto simp: child_of_def meta_ids_def)
  then show "is_source db i r" using c(3) unfolding is_source_def by (meson converse_rtranclp_into_rtranclp)
qed

lemma leaf_sources:
  assumes "metaRow i db = Some m" "mm_depth m = 0"
  shows "is_source db i r \<longleftrightarrow> r \<in> set (db_semantic db) \<and> (i, sm_id r) \<in> set (db_mms db)"
  using assms no_child [of i db] unfolding is_source_def by (metis option.inject rtranclp.rtrancl_refl)

lemma source_inj:
  assumes "distinct (map sm_id (db_semantic db))" "is_source db i r" "is_source db j r'" "sm_id r = sm_id r'"
  shows "r = r'"
  using assms unfolding is_source_def by (metis distinct_map inj_on_eq_iff)

lemma trace_spec:
  assumes "meta_layered db" "distinct (map sm_id (db_semantic db))"
  shows "depthOf i db < n \<Longrightarrow>
    \<exists>ss. traceIn n db i = Some ss \<and> set ss = semanticRowToEntry ` {r. is_source db i r} \<and> distinct (map se_id ss)"
proof (induction n arbitrary: i)
  case (Suc n)
  show ?case
  proof (cases "metaRow i db")
    case None
    then have "\<not> is_source db i r" for r using no_child [of i db] unfolding is_source_def by (metis option.distinct(1))
    then show ?thesis using None by (simp add: expandMetaIn_def)
  next
    case (Some m)
    show ?thesis
    proof (cases "mm_depth m = 0")
      case True
      have "set (map semanticRowToEntry (sort_key sm_created_at (filter (\<lambda>r. (i, sm_id r) \<in> set (db_mms db)) (db_semantic db)))) =
          semanticRowToEntry ` {r. is_source db i r}"
        using leaf_sources [OF Some True] by auto
      moreover have "distinct (map se_id (map semanticRowToEntry (sort_key sm_created_at (filter (\<lambda>r. (i, sm_id r) \<in> set (db_mms db)) (db_semantic db)))))"
        using distinct_sorted_ids [OF assms(2)] by (simp add: o_def)
      ultimately show ?thesis using Some True by (simp add: expandMetaIn_def)
    next
      case False
      let ?cs = "map metaRowToEntry (sort_key mm_depth (sort_key mm_created_at (filter (\<lambda>r. (i, mm_id r) \<in> set (db_mps db)) (db_meta db))))"
      have ids: "me_id ` set ?cs = {mm_id c | c. c \<in> set (db_meta db) \<and> (i, mm_id c) \<in> set (db_mps db)}" by (auto simp: image_iff)
      have IH: "\<exists>ss. traceIn n db (me_id c) = Some ss \<and> set ss = semanticRowToEntry ` {r. is_source db (me_id c) r}" if in_cs: "c \<in> set ?cs" for c
      proof -
        obtain x where x: "x \<in> set (db_meta db)" "me_id c = mm_id x" "(i, mm_id x) \<in> set (db_mps db)"
          using imageI [OF in_cs, of me_id] unfolding ids by blast
        obtain m' where m': "metaRow (mm_id x) db = Some m'" using metaRow_in [OF x(1)] by blast
        have "mm_depth m' < mm_depth m" using assms(1) x(3) Some m' unfolding meta_layered_def by fast
        then have "depthOf (me_id c) db < n" using Suc.prems Some m' x(2) by (simp add: depthOf_def)
        then show ?thesis using Suc.IH by blast
      qed
      let ?all = "concat (map (\<lambda>c. the (traceIn n db (me_id c))) ?cs)"
      have "those (map (\<lambda>c. traceIn n db (me_id c)) ?cs) = Some (map (\<lambda>c. the (traceIn n db (me_id c))) ?cs)"
        by (rule those_map_Some) (use IH in blast)
      then have t: "traceIn (Suc n) db i = Some (dedupe se_id [] ?all)" using Some False by (simp add: expandMetaIn_def)
      have each: "set (the (traceIn n db (me_id c))) = semanticRowToEntry ` {r. is_source db (me_id c) r}" if "c \<in> set ?cs" for c
        using IH [OF that] by force
      have "set ?all = (\<Union>c \<in> set ?cs. set (the (traceIn n db (me_id c))))"
        unfolding set_concat by (simp only: set_map image_image)
      also have "\<dots> = (\<Union>c \<in> set ?cs. semanticRowToEntry ` {r. is_source db (me_id c) r})" by (rule SUP_cong [OF refl each])
      also have "\<dots> = semanticRowToEntry ` (\<Union>k \<in> me_id ` set ?cs. {r. is_source db k r})" by blast
      also have "(\<Union>k \<in> me_id ` set ?cs. {r. is_source db k r}) = {r. is_source db i r}"
        unfolding ids using source_step [OF Some False] by blast
      finally have all: "set ?all = semanticRowToEntry ` {r. is_source db i r}" .
      have "x = y" if "x \<in> set ?all" "y \<in> set ?all" "se_id x = se_id y" for x y
        using that source_inj [OF assms(2), of i _ i] unfolding all by (elim imageE CollectE) (metis entry_ids(1))
      then have "set (dedupe se_id [] ?all) = set ?all" by (rule dedupe_set)
      then show ?thesis using t all dedupe_ids [of se_id "[]" ?all] by simp
    qed
  qed
qed simp

section \<open>Properties\<close>

text \<open>
  C20. A search returns entries of the asked profile and type only, each with its similarity and its score, best first, none twice,
  at most as many as asked; no fetched memory that is left out scores better than one that is returned; and the search changes
  nothing.
\<close>

theorem semantic_search_best:
  assumes "nearest_ok sv" "mg_started mg" "sv_embed sv q = Inr v" "limit = (case asked of Some n \<Rightarrow> n | None \<Rightarrow> mg_semanticMemoryLimit mg)"
    "fetched = nearestRows sv v (limit * mg_candidateMultiplier mg) sm_id sm_embedding (semanticCandidates pid ty db)"
    "score = (\<lambda>r. compositeScore (sv_sim sv (sm_embedding r) v) (sm_last_accessed r) (sm_importance r) (mg_scoringWeights mg) now)"
  shows "\<exists>rs. querySemanticMemory sv mg now q pid ty asked db = (Inr rs, db) \<and> length rs = min limit (length fetched) \<and>
    sorted_wrt (\<lambda>a b. qr_compositeScore b \<le> qr_compositeScore a) rs \<and> distinct (map (\<lambda>x. se_id (qr_entry x)) rs) \<and>
    (\<forall>x \<in> set rs. \<exists>r \<in> set (semanticCandidates pid ty db). qr_entry x = semanticRowToEntry r \<and>
       qr_similarity x = sv_sim sv (sm_embedding r) v \<and> qr_compositeScore x = score r) \<and>
    (\<forall>(r, s) \<in> set fetched. sm_id r \<notin> (\<lambda>x. se_id (qr_entry x)) ` set rs \<longrightarrow> (\<forall>x \<in> set rs. score r \<le> qr_compositeScore x))"
proof -
  let ?ranked = "rankByCompositeScore snd (\<lambda>(r, sim). sm_last_accessed r) (\<lambda>(r, sim). sm_importance r) (mg_scoringWeights mg) limit now fetched"
  let ?rs = "semanticResults mg now limit fetched"
  have "querySemanticMemory sv mg now q pid ty asked db = (Inr ?rs, db)"
    using assms(2,3) unfolding assms(4,5) by (simp add: querySemanticMemory_def ensureStarted_def embed_def db_op_simps Let_def)
  moreover have "length ?rs = min limit (length fetched)" by (simp add: semanticResults_def rank_length)
  moreover have "sorted_wrt (\<lambda>a b. qr_compositeScore b \<le> qr_compositeScore a) ?rs"
    using rank_sorted [of snd "\<lambda>(r, sim). sm_last_accessed r" "\<lambda>(r, sim). sm_importance r" "mg_scoringWeights mg" limit now fetched]
    by (simp add: semanticResults_def sorted_wrt_map case_prod_beta)
  moreover have ids: "map (\<lambda>x. se_id (qr_entry x)) ?rs = map (\<lambda>x. sm_id (fst x)) (map fst ?ranked)"
    by (simp add: semanticResults_def case_prod_beta)
  have "distinct (map (\<lambda>x. se_id (qr_entry x)) ?rs)"
  proof -
    have df: "distinct (map (\<lambda>x. sm_id (fst x)) fetched)" unfolding assms(5) by (rule nearestRows_distinct [OF assms(1)])
    have "set (map fst ?ranked) \<subseteq> set fetched" using rank_members by force
    moreover have "distinct (map fst ?ranked)" using df by (intro rank_distinct) (simp add: distinct_map)
    moreover have "inj_on (\<lambda>x. sm_id (fst x)) (set fetched)" using df unfolding distinct_map by blast
    ultimately show ?thesis unfolding ids distinct_map [of _ "map fst ?ranked"] using inj_on_subset by blast
  qed
  moreover have member: "\<exists>r \<in> set (semanticCandidates pid ty db). qr_entry x = semanticRowToEntry r \<and>
       qr_similarity x = sv_sim sv (sm_embedding r) v \<and> qr_compositeScore x = score r" if x: "x \<in> set ?rs" for x
  proof -
    obtain r sim s where r: "((r, sim), s) \<in> set ?ranked" "x = \<lparr>qr_entry = semanticRowToEntry r, qr_similarity = sim, qr_compositeScore = s\<rparr>"
      using x by (auto simp: semanticResults_def)
    have "(r, sim) \<in> set fetched \<and> s = compositeScore sim (sm_last_accessed r) (sm_importance r) (mg_scoringWeights mg) now"
      using rank_members [OF r(1)] by simp
    moreover from this have "r \<in> set (semanticCandidates pid ty db)" "sim = sv_sim sv (sm_embedding r) v"
      using nearestRows_sound unfolding assms(5) by fast+
    ultimately show ?thesis using r(2) unfolding assms(6) by auto
  qed
  moreover have "score r \<le> qr_compositeScore x"
    if r: "(r, s) \<in> set fetched" and out: "sm_id r \<notin> (\<lambda>x. se_id (qr_entry x)) ` set ?rs" and x: "x \<in> set ?rs" for r s x
  proof -
    have "(\<lambda>x. se_id (qr_entry x)) ` set ?rs = (\<lambda>x. sm_id (fst x)) ` fst ` set ?ranked" using arg_cong [OF ids, of set] unfolding set_map .
    then have "(r, s) \<notin> fst ` set ?ranked" using out by force
    moreover obtain y where "y \<in> set ?ranked" "qr_compositeScore x = snd y" using x by (auto simp: semanticResults_def)
    ultimately have "compositeScore s (sm_last_accessed r) (sm_importance r) (mg_scoringWeights mg) now \<le> qr_compositeScore x"
      using rank_best [OF r, of snd "\<lambda>(r, sim). sm_last_accessed r" "\<lambda>(r, sim). sm_importance r"] by simp
    moreover have "s = sv_sim sv (sm_embedding r) v" using nearestRows_sound r unfolding assms(5) by fast
    ultimately show ?thesis unfolding assms(6) by simp
  qed
  ultimately show ?thesis by (intro exI [of _ ?rs]) (simp only: split_paired_Ball_Sigma case_prod_beta, fastforce)
qed

text \<open>An index that finds the rows in the order of their insertion.\<close>

definition example_services :: "unit Services" where
  "example_services = \<lparr>sv_embed = (\<lambda>s. Inr ()), sv_sim = (\<lambda>a b. 1 / 2), sv_nearest = (\<lambda>q n rs. take n (remdups (map fst rs)))\<rparr>"

lemma example_services_ok: "nearest_ok example_services"
  by (auto simp: nearest_ok_def example_services_def dest: in_set_takeD)

definition example_row :: "string \<Rightarrow> string \<Rightarrow> time \<Rightarrow> unit SemanticRow" where
  "example_row i p accessed = \<lparr>sm_id = i, sm_content = ''tea'', sm_embedding = (), sm_memory_type = Fact, sm_importance = 1 / 2, sm_depth = 0,
     sm_token_count = 1, sm_source_session = None, sm_profile_id = p, sm_earliest_at = None, sm_latest_at = None, sm_created_at = 1,
     sm_updated_at = 1, sm_last_accessed = accessed, sm_access_count = 0\<rparr>"

definition example_meta :: "string \<Rightarrow> nat \<Rightarrow> unit MetaRow" where
  "example_meta i d = \<lparr>mm_id = i, mm_content = ''likes tea'', mm_embedding = (), mm_reflection_type = Insight, mm_confidence = 1 / 2,
     mm_depth = d, mm_profile_id = ''p'', mm_created_at = 1, mm_updated_at = 1, mm_last_accessed = 1\<rparr>"

definition example_memories :: "unit Db" where
  "example_memories = emptyDb\<lparr>
     db_profiles := [\<lparr>ap_id = ''p'', ap_name = ''default'', ap_description = None, ap_is_default = True, ap_created_at = 1, ap_updated_at = 1\<rparr>],
     db_semantic := [example_row ''a'' ''p'' 5, example_row ''b'' ''q'' 5], db_meta := [example_meta ''m1'' 1, example_meta ''m0'' 0],
     db_mms := [(''m0'', ''a'')], db_mps := [(''m1'', ''m0'')]\<rparr>"

theorem semantic_search_best_witness:
  "\<exists>rs. querySemanticMemory example_services (startMemory new_manager) 5 ''tea'' ''p'' None (Some 1) example_memories = (Inr rs, example_memories) \<and>
     length rs = 1"
proof -
  have "sv_embed example_services ''tea'' = Inr ()" by (simp add: example_services_def)
  moreover have "mg_started (startMemory new_manager)" by (simp add: startMemory_def)
  moreover have "length (nearestRows example_services () (1 * mg_candidateMultiplier (startMemory new_manager)) sm_id sm_embedding
      (semanticCandidates ''p'' None example_memories)) = 1"
    by (simp add: nearestRows_def example_services_def semanticCandidates_def example_memories_def example_row_def emptyDb_def
        startMemory_def new_manager_def map_filter_simps)
  ultimately show ?thesis
    using semantic_search_best [OF example_services_ok, of "startMemory new_manager" "''tea''" "()" 1 "Some 1" _ "''p''" None example_memories _ 5]
    by fastforce
qed

text \<open>
  When depths decrease along the links between reflections, the walk from an entry to its sources ends, with one level of calls
  for each depth, and gives the memories that the entries at depth 0 below it were made of: all of them, none
  twice and no others.
\<close>

theorem trace_to_sources:
  assumes "meta_layered db" "distinct (map sm_id (db_semantic db))" "mg_started mg" "depthOf i db < fuel"
  shows "\<exists>ss. traceMetaToSources fuel mg i db = (Inr (Some ss), db) \<and> distinct (map se_id ss) \<and>
    set ss = semanticRowToEntry ` {r \<in> set (db_semantic db). \<exists>leaf m. (child_of db)\<^sup>*\<^sup>* i leaf \<and> metaRow leaf db = Some m \<and> mm_depth m = 0 \<and>
      (leaf, sm_id r) \<in> set (db_mms db)}"
proof -
  obtain ss where ss: "traceIn fuel db i = Some ss" "set ss = semanticRowToEntry ` {r. is_source db i r}" "distinct (map se_id ss)"
    using trace_spec [OF assms(1,2,4)] by blast
  have "{r. is_source db i r} = {r \<in> set (db_semantic db). \<exists>leaf m. (child_of db)\<^sup>*\<^sup>* i leaf \<and> metaRow leaf db = Some m \<and> mm_depth m = 0 \<and>
      (leaf, sm_id r) \<in> set (db_mms db)}" unfolding is_source_def by blast
  then show ?thesis using ss assms(3) by (auto simp: traceMetaToSources_def ensureStarted_def db_op_simps)
qed

theorem trace_to_sources_witness:
  "traceMetaToSources 2 (startMemory new_manager) ''m1'' example_memories =
     (Inr (Some [semanticRowToEntry (example_row ''a'' ''p'' 5)]), example_memories)"
proof -
  have l: "meta_layered example_memories" and d: "distinct (map sm_id (db_semantic example_memories))" and f: "depthOf ''m1'' example_memories < 2"
    by (simp_all add: meta_layered_def metaRow_def depthOf_def example_memories_def example_meta_def example_row_def emptyDb_def)
  have s: "mg_started (startMemory new_manager)" by (simp add: startMemory_def)
  show ?thesis using trace_to_sources [OF l d s f]
    by (simp add: traceMetaToSources_def ensureStarted_def db_op_simps startMemory_def numeral_2_eq_2 expandMetaIn_def metaRow_def
        example_memories_def example_meta_def example_row_def emptyDb_def metaRowToEntry_def semanticRowToEntry_def)
qed

definition in_band :: "'v Services \<Rightarrow> 'v \<Rightarrow> string \<Rightarrow> nat \<Rightarrow> nat \<Rightarrow> real \<Rightarrow> 'v Db \<Rightarrow> MetaMemoryEntry QueryResult \<Rightarrow> bool" where
  "in_band sv v pid lo hi gate db x \<longleftrightarrow>
     (\<exists>m \<in> set (db_meta db). qr_entry x = metaRowToEntry m \<and> mm_profile_id m = pid \<and> mm_confidence m \<ge> 2 / 10 \<and>
        lo \<le> mm_depth m \<and> mm_depth m \<le> hi \<and> qr_similarity x = sv_sim sv (mm_embedding m) v \<and> qr_similarity x \<ge> gate)"

lemma band_fetched:
  "length (fetchMetaAtDepthRange sv mg now v pid lo hi slots gate db) \<le> slots"
  "x \<in> set (fetchMetaAtDepthRange sv mg now v pid lo hi slots gate db) \<Longrightarrow> in_band sv v pid lo hi gate db x"
proof -
  show "length (fetchMetaAtDepthRange sv mg now v pid lo hi slots gate db) \<le> slots"
    by (simp add: fetchMetaAtDepthRange_def metaResults_def rank_length)
  assume "x \<in> set (fetchMetaAtDepthRange sv mg now v pid lo hi slots gate db)"
  then obtain m sim s where x: "x = \<lparr>qr_entry = metaRowToEntry m, qr_similarity = sim, qr_compositeScore = s\<rparr>" and
    f: "(m, sim) \<in> set (nearestRows sv v (slots * mg_candidateMultiplier mg) mm_id mm_embedding (metaCandidates pid None (int lo) (int hi) db))" "gate \<le> sim"
    by (auto simp: fetchMetaAtDepthRange_def metaResults_def dest!: rank_members)
  from nearestRows_sound [OF f(1)] show "in_band sv v pid lo hi gate db x"
    using x f(2) by (auto simp: in_band_def metaCandidates_def)
qed

lemma access_updates:
  "fold (\<lambda>r. updateMetaAccess now (f r)) rs db =
     db\<lparr>db_meta := map (\<lambda>m. if mm_id m \<in> f ` set rs then m\<lparr>mm_last_accessed := now\<rparr> else m) (db_meta db)\<rparr>"
proof (induction rs arbitrary: db)
  case Nil
  then show ?case by simp
next
  case (Cons r rs)
  show ?case unfolding fold_simps o_apply Cons.IH by (auto simp: updateMetaAccess_def)
qed

text \<open>
  The cascade fills its slots from the deepest reflections down: at most so many of depth 2 and more, then of depth 1, then of
  depth 0, each of the profile, confident enough and similar enough for its band; and it changes nothing but the time of
  access of what it returns.
\<close>

theorem cascade_bands:
  assumes "mg_started mg" "sv_embed sv q = Inr v" "cfg = (case config of Some c \<Rightarrow> c | None \<Rightarrow> mg_metaInjection mg)"
  shows "\<exists>r2 r1 r0. queryMetaCascade sv mg now q pid config db =
      (Inr (r2 @ r1 @ r0), db\<lparr>db_meta := map (\<lambda>m. if mm_id m \<in> (\<lambda>x. me_id (qr_entry x)) ` set (r2 @ r1 @ r0) then m\<lparr>mm_last_accessed := now\<rparr> else m) (db_meta db)\<rparr>) \<and>
    length r2 \<le> mi_d2Slots cfg \<and> length r1 \<le> mi_d1Slots cfg \<and> length r0 \<le> mi_d0Slots cfg \<and>
    (\<forall>x \<in> set r2. in_band sv v pid 2 (maxMetaDepth pid db) (mi_d2MinSimilarity cfg) db x) \<and>
    (\<forall>x \<in> set r1. in_band sv v pid 1 1 (mi_d1MinSimilarity cfg) db x) \<and> (\<forall>x \<in> set r0. in_band sv v pid 0 0 (mi_d0MinSimilarity cfg) db x)"
proof -
  let ?f = "fetchMetaAtDepthRange sv mg now v pid"
  let ?r2 = "if maxMetaDepth pid db \<ge> 2 \<and> mi_d2Slots cfg > 0 then ?f 2 (maxMetaDepth pid db) (mi_d2Slots cfg) (mi_d2MinSimilarity cfg) db else []"
  let ?r1 = "if mi_d1Slots cfg > 0 then ?f 1 1 (mi_d1Slots cfg) (mi_d1MinSimilarity cfg) db else []"
  let ?r0 = "if mi_d0Slots cfg > 0 then ?f 0 0 (mi_d0Slots cfg) (mi_d0MinSimilarity cfg) db else []"
  have "queryMetaCascade sv mg now q pid config db = (Inr (?r2 @ ?r1 @ ?r0),
      fold (\<lambda>r. updateMetaAccess now (me_id (qr_entry r))) (?r2 @ ?r1 @ ?r0) db)"
    using assms(1,2) unfolding assms(3)
    by (simp only: queryMetaCascade_def ensureStarted_def embed_def db_op_simps if_True sum.case cascadeResults_def Let_def)
  then have "queryMetaCascade sv mg now q pid config db =
      (Inr (?r2 @ ?r1 @ ?r0), db\<lparr>db_meta := map (\<lambda>m. if mm_id m \<in> (\<lambda>x. me_id (qr_entry x)) ` set (?r2 @ ?r1 @ ?r0) then m\<lparr>mm_last_accessed := now\<rparr> else m) (db_meta db)\<rparr>)"
    unfolding access_updates .
  moreover have "length ?r2 \<le> mi_d2Slots cfg" "length ?r1 \<le> mi_d1Slots cfg" "length ?r0 \<le> mi_d0Slots cfg"
    by (simp_all add: band_fetched(1))
  moreover have "\<forall>x \<in> set ?r2. in_band sv v pid 2 (maxMetaDepth pid db) (mi_d2MinSimilarity cfg) db x"
    "\<forall>x \<in> set ?r1. in_band sv v pid 1 1 (mi_d1MinSimilarity cfg) db x" "\<forall>x \<in> set ?r0. in_band sv v pid 0 0 (mi_d0MinSimilarity cfg) db x"
    by (auto dest: band_fetched(2))
  ultimately show ?thesis by blast
qed

theorem cascade_bands_witness:
  "\<exists>rs db'. queryMetaCascade example_services (startMemory new_manager) 7 ''tea'' ''p'' None example_memories = (Inr rs, db') \<and> length rs \<le> 5"
proof -
  have "mg_started (startMemory new_manager)" "sv_embed example_services ''tea'' = Inr ()"
    by (simp_all add: startMemory_def example_services_def)
  from cascade_bands [OF this refl, of 7 "''p''" None example_memories] show ?thesis
    by (fastforce simp: startMemory_def new_manager_def DEFAULT_META_INJECTION_def)
qed

end
