(* ===== verification/Js_Value.thy ===== *)
theory Js_Value
  imports Prelude Complex_Main
begin

text \<open>
  The values that \<^verbatim>\<open>JSON.parse\<close> returns, with JavaScript's view of them: properties that may be undefined, falsy
  values, the operator \<^verbatim>\<open>??\<close>.
\<close>

section \<open>Values\<close>

datatype jv = JvNull | JvBool bool | JvNum real | JvStr string | JvArr "jv list" | JvObj "(string \<times> jv) list"

text \<open>\<^verbatim>\<open>v[k]\<close>, where \<open>None\<close> is \<^verbatim>\<open>undefined\<close>.\<close>

fun jprop :: "jv \<Rightarrow> string \<Rightarrow> jv option" where
  "jprop (JvObj kvs) k = map_of kvs k"
| "jprop _ k = None"

fun falsy :: "jv option \<Rightarrow> bool" where
  "falsy None = True"
| "falsy (Some JvNull) = True"
| "falsy (Some (JvBool b)) = (\<not> b)"
| "falsy (Some (JvNum x)) = (x = 0)"
| "falsy (Some (JvStr s)) = (s = [])"
| "falsy (Some (JvArr _)) = False"
| "falsy (Some (JvObj _)) = False"

text \<open>\<^verbatim>\<open>a ?? b\<close>.\<close>

definition nullish :: "jv option \<Rightarrow> jv option \<Rightarrow> jv option" where
  "nullish a b = (case a of None \<Rightarrow> b | Some JvNull \<Rightarrow> b | Some v \<Rightarrow> Some v)"

text \<open>An object without its undefined fields.\<close>

definition obj :: "(string \<times> jv option) list \<Rightarrow> jv" where
  "obj kvs = JvObj (List.map_filter (\<lambda>(k, v). map_option (Pair k) v) kvs)"

definition optStr :: "string option \<Rightarrow> jv option" where
  "optStr = map_option JvStr"

definition nullStr :: "string option \<Rightarrow> jv option" where
  "nullStr x = Some (case x of Some s \<Rightarrow> JvStr s | None \<Rightarrow> JvNull)"

definition numI :: "int \<Rightarrow> jv option" where "numI n = Some (JvNum (of_int n))"
definition numN :: "nat \<Rightarrow> jv option" where "numN n = Some (JvNum (of_nat n))"
definition strV :: "string \<Rightarrow> jv option" where "strV s = Some (JvStr s)"

end
