(* ===== verification/Memory_Jobs.thy ===== *)
theory Memory_Jobs
  imports Profile_Manager Memory_Manager Js_Value
begin

text \<open>
  What the background jobs of the memory share (\<^verbatim>\<open>src/src/orchestrator/consolidation.ts\<close> and \<^verbatim>\<open>reflection.ts\<close>): the
  provider that answers prompts, loops and \<^verbatim>\<open>try\<close> over database operations, the statements that link rows,
  and a calculus of pre- and postconditions with a separate postcondition for failures, for the jobs keep
  what they wrote before they failed.
\<close>

section \<open>Surroundings of a job\<close>

text \<open>The system prompts are constants of the code; what matters of them here is which one is sent.\<close>

datatype Prompt = D0_SYSTEM_PROMPT | D1_SYSTEM_PROMPT | FACT_EXTRACTION_SYSTEM_PROMPT | Reflection_prompt nat MetaMemoryType

record SummarizationOptions =
  su_model :: string
  su_maxTokens :: nat
  su_systemPrompt :: Prompt

text \<open>
  The answers of the provider, the generated ids and the clock may differ from call to call: they are functions of the
  database at the call, which no two calls of a job with the same arguments share. \<open>jo_number\<close> is \<^verbatim>\<open>Number(v)\<close> of a
  value that is not a number, \<open>None\<close> for \<^verbatim>\<open>NaN\<close>, and \<open>jo_numText\<close> the text of a number.
\<close>

record 'v JobServices =
  jo_services :: "'v Services"
  jo_summarize :: "'v Db \<Rightarrow> string \<Rightarrow> SummarizationOptions \<Rightarrow> string + string"
  jo_newId :: "'v Db \<Rightarrow> string"
  jo_now :: "'v Db \<Rightarrow> time"
  jo_parse :: "string \<Rightarrow> jv option"
  jo_number :: "jv \<Rightarrow> real option"
  jo_numText :: "real \<Rightarrow> string"

text \<open>Generated ids are new.\<close>

definition ids_fresh :: "'v JobServices \<Rightarrow> bool" where
  "ids_fresh jo \<longleftrightarrow> (\<forall>db. jo_newId jo db \<notin> semantic_ids db \<union> meta_ids db)"

definition summarize :: "'v JobServices \<Rightarrow> string \<Rightarrow> SummarizationOptions \<Rightarrow> ('v, string) db_op" where
  "summarize jo content opts db = (case jo_summarize jo db content opts of Inl e \<Rightarrow> (Inl (Thrown e), db) | Inr s \<Rightarrow> (Inr s, db))"

text \<open>\<^verbatim>\<open>JSON.parse\<close>, and the number that arithmetic makes of a value.\<close>

definition parseJson :: "'v JobServices \<Rightarrow> string \<Rightarrow> ('v, jv) db_op" where
  "parseJson jo s = (case jo_parse jo s of None \<Rightarrow> throwD ''SyntaxError'' | Some v \<Rightarrow> retD v)"

fun toNumber :: "'v JobServices \<Rightarrow> jv \<Rightarrow> real option" where
  "toNumber jo (JvNum x) = Some x"
| "toNumber jo (JvBool b) = Some (if b then 1 else 0)"
| "toNumber jo v = jo_number jo v"

text \<open>\<^verbatim>\<open>v ?? d\<close> as a number.\<close>

definition numberOr :: "'v JobServices \<Rightarrow> real \<Rightarrow> jv option \<Rightarrow> real option" where
  "numberOr jo d v = (case v of None \<Rightarrow> Some d | Some JvNull \<Rightarrow> Some d | Some x \<Rightarrow> toNumber jo x)"

section \<open>Loops and failures\<close>

fun forD :: "'x list \<Rightarrow> ('x \<Rightarrow> ('v, unit) db_op) \<Rightarrow> ('v, unit) db_op" where
  "forD [] f = retD ()"
| "forD (x # xs) f = bindD (f x) (\<lambda>_. forD xs f)"

text \<open>A loop that adds up what its steps return.\<close>

fun sumD :: "'x list \<Rightarrow> ('x \<Rightarrow> ('v, nat) db_op) \<Rightarrow> ('v, nat) db_op" where
  "sumD [] f = retD 0"
| "sumD (x # xs) f = bindD (f x) (\<lambda>n. bindD (sumD xs f) (\<lambda>k. retD (n + k)))"

text \<open>\<^verbatim>\<open>try { m } catch { return x }\<close>: what \<open>m\<close> wrote stays.\<close>

definition tryD :: "('v, 'a) db_op \<Rightarrow> 'a \<Rightarrow> ('v, 'a) db_op" where
  "tryD m x db = (case m db of (Inl e, db1) \<Rightarrow> (Inr x, db1) | (Inr y, db1) \<Rightarrow> (Inr y, db1))"

section \<open>Statements\<close>

definition insert_sms :: "string \<times> string \<times> string \<Rightarrow> ('v, unit) db_op" where
  "insert_sms e db =
     (if e \<in> set (db_sms db) then (Inl (Unique_violation ''summary_message_sources_pkey''), db)
      else if fst e \<notin> semantic_ids db then (Inl (Foreign_key ''summary_message_sources_summary_id_fkey''), db)
      else if snd e \<notin> message_keys db then (Inl (Foreign_key ''sms_message_fk''), db)
      else (Inr (), db\<lparr>db_sms := db_sms db @ [e]\<rparr>))"

definition insert_sps :: "string \<times> string \<Rightarrow> ('v, unit) db_op" where
  "insert_sps e db =
     (if e \<in> set (db_sps db) then (Inl (Unique_violation ''summary_parent_sources_pkey''), db)
      else if fst e \<notin> semantic_ids db \<or> snd e \<notin> semantic_ids db then (Inl (Foreign_key ''summary_parent_sources_fkey''), db)
      else (Inr (), db\<lparr>db_sps := db_sps db @ [e]\<rparr>))"

text \<open>The links of the reflections are inserted with \<^verbatim>\<open>ON CONFLICT DO NOTHING\<close>.\<close>

definition insert_mms :: "string \<times> string \<Rightarrow> ('v, unit) db_op" where
  "insert_mms e db =
     (if fst e \<notin> meta_ids db \<or> snd e \<notin> semantic_ids db then (Inl (Foreign_key ''memory_meta_sources_fkey''), db)
      else (Inr (), db\<lparr>db_mms := insert_new e (db_mms db)\<rparr>))"

definition insert_mps :: "string \<times> string \<Rightarrow> ('v, unit) db_op" where
  "insert_mps e db =
     (if fst e \<notin> meta_ids db \<or> snd e \<notin> meta_ids db then (Inl (Foreign_key ''meta_parent_sources_fkey''), db)
      else (Inr (), db\<lparr>db_mps := insert_new e (db_mps db)\<rparr>))"

definition insertMeta :: "'v MetaRow \<Rightarrow> ('v, string) db_op" where
  "insertMeta r db =
     (if \<not> (0 \<le> mm_confidence r \<and> mm_confidence r \<le> 1) then (Inl (Thrown ''memory_meta_confidence_check''), db)
      else if mm_profile_id r \<notin> profile_ids db then (Inl (Foreign_key ''memory_meta_profile_id_fkey''), db)
      else (Inr (mm_id r), db\<lparr>db_meta := db_meta db @ [r]\<rparr>))"

definition setState :: "string \<Rightarrow> string \<Rightarrow> ('v, unit) db_op" where
  "setState k v = execD (\<lambda>db. db\<lparr>db_state := js_set k v (db_state db)\<rparr>)"

lemma find_unique:
  assumes "r \<in> set rs" "P r" "\<And>x. x \<in> set rs \<Longrightarrow> P x \<Longrightarrow> x = r"
  shows "find P rs = Some r"
proof (cases "find P rs")
  case None
  then show ?thesis using assms(1,2) by (auto simp: find_None_iff)
next
  case (Some x)
  then show ?thesis using assms(3) [of x] by (auto simp: find_Some_iff)
qed

section \<open>A calculus for operations that may fail\<close>

definition hoareD :: "('v Db \<Rightarrow> bool) \<Rightarrow> ('v, 'a) db_op \<Rightarrow> ('a \<Rightarrow> 'v Db \<Rightarrow> bool) \<Rightarrow> ('v Db \<Rightarrow> bool) \<Rightarrow> bool" where
  "hoareD P m Q E \<longleftrightarrow> (\<forall>db. P db \<longrightarrow> (case m db of (Inr x, db1) \<Rightarrow> Q x db1 | (Inl e, db1) \<Rightarrow> E db1))"

lemma hoareDI: "(\<And>db. P db \<Longrightarrow> case m db of (Inr x, db1) \<Rightarrow> Q x db1 | (Inl e, db1) \<Rightarrow> E db1) \<Longrightarrow> hoareD P m Q E"
  by (simp add: hoareD_def)

lemma hoareD_result:
  assumes "hoareD P m Q E" "P db" "m db = (r, db')"
  shows "(\<exists>x. r = Inr x \<and> Q x db') \<or> (\<exists>e. r = Inl e \<and> E db')"
  using assms unfolding hoareD_def by (cases r) (fastforce split: prod.splits sum.splits)+

lemma hoareD_ok: "hoareD P m Q E \<Longrightarrow> P db \<Longrightarrow> m db = (Inr x, db') \<Longrightarrow> Q x db'"
  by (drule hoareD_result, assumption, assumption) blast

lemma hoareD_inv: "hoareD P m (\<lambda>_. P) P \<Longrightarrow> P db \<Longrightarrow> P (snd (m db))"
  by (cases "m db") (drule hoareD_result, assumption, assumption, auto)

lemma hoareD_both: "hoareD P m (\<lambda>_. Q) Q \<Longrightarrow> P db \<Longrightarrow> Q (snd (m db))"
  by (cases "m db") (drule hoareD_result, assumption, assumption, auto)

lemma hoareD_weaken:
  "hoareD P m Q E \<Longrightarrow> (\<And>db. P' db \<Longrightarrow> P db) \<Longrightarrow> (\<And>x db. Q x db \<Longrightarrow> Q' x db) \<Longrightarrow> (\<And>db. E db \<Longrightarrow> E' db) \<Longrightarrow> hoareD P' m Q' E'"
  unfolding hoareD_def by (fastforce split: prod.splits sum.splits)

lemma hoareD_bind: "hoareD P m R E \<Longrightarrow> (\<And>x. hoareD (R x) (f x) Q E) \<Longrightarrow> hoareD P (bindD m f) Q E"
  unfolding hoareD_def bindD_def by (fastforce split: prod.splits sum.splits)

lemma hoareD_ret: "(\<And>db. P db \<Longrightarrow> Q x db) \<Longrightarrow> hoareD P (retD x) Q E"
  by (simp add: hoareD_def retD_def)

lemma hoareD_throw: "(\<And>db. P db \<Longrightarrow> E db) \<Longrightarrow> hoareD P (throwD e) Q E"
  by (simp add: hoareD_def throwD_def)

lemma hoareD_query: "(\<And>db. P db \<Longrightarrow> Q (q db) db) \<Longrightarrow> hoareD P (queryD q) Q E"
  by (simp add: hoareD_def queryD_def)

lemma hoareD_exec: "(\<And>db. P db \<Longrightarrow> Q () (f db)) \<Longrightarrow> hoareD P (execD f) Q E"
  by (simp add: hoareD_def execD_def)

lemma hoareD_try: "hoareD P m Q (Q x) \<Longrightarrow> hoareD P (tryD m x) Q E"
  unfolding hoareD_def tryD_def by (fastforce split: prod.splits sum.splits)

lemma hoareD_summarize: "(\<And>s db. P db \<Longrightarrow> Q s db) \<Longrightarrow> (\<And>db. P db \<Longrightarrow> E db) \<Longrightarrow> hoareD P (summarize jo c opts) Q E"
  by (auto simp: hoareD_def summarize_def split: sum.split)

lemma hoareD_parse: "(\<And>v db. P db \<Longrightarrow> Q v db) \<Longrightarrow> (\<And>db. P db \<Longrightarrow> E db) \<Longrightarrow> hoareD P (parseJson jo s) Q E"
  by (auto simp: hoareD_def parseJson_def retD_def throwD_def split: option.split)

lemma hoareD_embed: "(\<And>v db. P db \<Longrightarrow> Q v db) \<Longrightarrow> (\<And>db. P db \<Longrightarrow> E db) \<Longrightarrow> hoareD P (embed sv s) Q E"
  by (auto simp: hoareD_def embed_def retD_def throwD_def split: sum.split)

text \<open>An invariant of a loop may speak of the elements that are done.\<close>

lemma hoareD_for:
  assumes "\<And>done x rest. xs = done @ x # rest \<Longrightarrow> hoareD (I done) (f x) (\<lambda>_. I (done @ [x])) E"
  shows "hoareD (I []) (forD xs f) (\<lambda>_. I xs) E"
proof -
  have "hoareD (I done) (forD rest f) (\<lambda>_. I xs) E" if "xs = done @ rest" for "done" rest
    using that
  proof (induction rest arbitrary: "done")
    case Nil
    then show ?case by (auto intro!: hoareD_ret)
  next
    case (Cons x rest)
    show ?case unfolding forD.simps
      by (rule hoareD_bind [OF assms [OF Cons.prems]]) (rule Cons.IH, simp add: Cons.prems)
  qed
  from this [of "[]" xs] show ?thesis by simp
qed

lemma hoareD_for_inv: "(\<And>x. x \<in> set xs \<Longrightarrow> hoareD P (f x) (\<lambda>_. P) E) \<Longrightarrow> hoareD P (forD xs f) (\<lambda>_. P) E"
  by (rule hoareD_for [where I = "\<lambda>_. P"]) auto

lemma hoareD_sum_inv: "(\<And>x. x \<in> set xs \<Longrightarrow> hoareD P (f x) (\<lambda>_. P) E) \<Longrightarrow> hoareD P (sumD xs f) (\<lambda>_. P) E"
  by (induction xs) (auto intro!: hoareD_ret hoareD_bind [where R = "\<lambda>_. P"])

text \<open>Loops that add up, with an invariant over the elements that are done or over the sum so far.\<close>

lemma hoareD_sum:
  assumes "\<And>done x rest. xs = done @ x # rest \<Longrightarrow> hoareD (I done) (f x) (\<lambda>_. I (done @ [x])) E"
  shows "hoareD (I []) (sumD xs f) (\<lambda>_. I xs) E"
proof -
  have "hoareD (I done) (sumD rest f) (\<lambda>_. I xs) E" if "xs = done @ rest" for "done" rest
    using that
  proof (induction rest arbitrary: "done")
    case Nil
    then show ?case by (auto intro!: hoareD_ret)
  next
    case (Cons x rest)
    have "hoareD (I (done @ [x])) (sumD rest f) (\<lambda>_. I xs) E" by (rule Cons.IH) (simp add: Cons.prems)
    then have "hoareD (I (done @ [x])) (bindD (sumD rest f) (\<lambda>k. retD (n + k))) (\<lambda>_. I xs) E" for n
      by (rule hoareD_bind) (rule hoareD_ret)
    then show ?case unfolding sumD.simps by (rule hoareD_bind [OF assms [OF Cons.prems]])
  qed
  from this [of "[]" xs] show ?thesis by simp
qed

lemma hoareD_sum_count:
  assumes "\<And>k x. x \<in> set xs \<Longrightarrow> hoareD (I k) (f x) (\<lambda>n. I (k + n)) E"
  shows "hoareD (I k) (sumD xs f) (\<lambda>n. I (k + n)) E"
  using assms
proof (induction xs arbitrary: k)
  case Nil
  then show ?case by (auto intro!: hoareD_ret)
next
  case (Cons x xs)
  show ?case unfolding sumD.simps
  proof (rule hoareD_bind)
    show "hoareD (I k) (f x) (\<lambda>n. I (k + n)) E" by (rule Cons.prems) simp
    fix n
    have "hoareD (I (k + n)) (sumD xs f) (\<lambda>m. I (k + n + m)) E" by (rule Cons.IH) (use Cons.prems in simp)
    then show "hoareD (I (k + n)) (bindD (sumD xs f) (\<lambda>m. retD (n + m))) (\<lambda>n. I (k + n)) E"
      by (rule hoareD_bind) (rule hoareD_ret, simp add: add.assoc)
  qed
qed

text \<open>Operations that keep a predicate whether they fail or not.\<close>

definition maintains :: "('v Db \<Rightarrow> bool) \<Rightarrow> ('v, 'a) db_op \<Rightarrow> bool" where
  "maintains P m \<longleftrightarrow> hoareD P m (\<lambda>_. P) P"

lemma maintainsI: "(\<And>db. P db \<Longrightarrow> P (snd (m db))) \<Longrightarrow> maintains P m"
  unfolding maintains_def hoareD_def by (metis (mono_tags, lifting) case_prod_beta snd_conv sum.case_eq_if)

lemma maintainsD: "maintains P m \<Longrightarrow> P db \<Longrightarrow> P (snd (m db))"
  unfolding maintains_def by (rule hoareD_inv)

lemma maintains_intros [intro]:
  "maintains P (retD x)" "maintains P (throwD e)" "maintains P (queryD q)" "maintains P (summarize jo c opts)" "maintains P (parseJson jo s)"
  "maintains P (embed sv s)"
  unfolding maintains_def
  by (auto intro: hoareD_ret hoareD_throw hoareD_query hoareD_summarize hoareD_parse hoareD_embed)

lemma maintains_bind [intro]: "maintains P m \<Longrightarrow> (\<And>x. maintains P (f x)) \<Longrightarrow> maintains P (bindD m f)"
  unfolding maintains_def by (rule hoareD_bind)

lemma maintains_try [intro]: "maintains P m \<Longrightarrow> maintains P (tryD m x)"
  unfolding maintains_def by (rule hoareD_try)

lemma maintains_for [intro]: "(\<And>x. x \<in> set xs \<Longrightarrow> maintains P (f x)) \<Longrightarrow> maintains P (forD xs f)"
  unfolding maintains_def by (rule hoareD_for_inv)

lemma maintains_sum [intro]: "(\<And>x. x \<in> set xs \<Longrightarrow> maintains P (f x)) \<Longrightarrow> maintains P (sumD xs f)"
  unfolding maintains_def by (rule hoareD_sum_inv)

section \<open>An example of the surroundings\<close>

text \<open>Ids longer than all the ones in use.\<close>

definition example_newId :: "'v Db \<Rightarrow> string" where
  "example_newId db = replicate (Suc (sum_list (map length (map sm_id (db_semantic db) @ map mm_id (db_meta db))))) (CHR ''n'')"

lemma example_newId_fresh: "example_newId db \<notin> semantic_ids db \<union> meta_ids db"
proof
  let ?xs = "map sm_id (db_semantic db) @ map mm_id (db_meta db)"
  assume "example_newId db \<in> semantic_ids db \<union> meta_ids db"
  then have "length (example_newId db) \<in> set (map length ?xs)" by (auto simp: semantic_ids_def meta_ids_def)
  then have "length (example_newId db) \<le> sum_list (map length ?xs)" by (rule member_le_sum_list) simp
  then show False by (simp add: example_newId_def)
qed

definition example_jobs :: "(unit Db \<Rightarrow> string \<Rightarrow> SummarizationOptions \<Rightarrow> string + string) \<Rightarrow> (string \<Rightarrow> jv option) \<Rightarrow> unit JobServices" where
  "example_jobs answer parse = \<lparr>jo_services = example_services, jo_summarize = answer, jo_newId = example_newId, jo_now = (\<lambda>db. 100),
     jo_parse = parse, jo_number = (\<lambda>v. None),
     jo_numText = (\<lambda>x. ''0'')\<rparr>"

lemma example_jobs_fresh: "ids_fresh (example_jobs answer parse)"
  using example_newId_fresh unfolding ids_fresh_def example_jobs_def by auto

end
