(* ===== verification/Memory_Consolidation.thy ===== *)
theory Memory_Consolidation
  imports Memory_Jobs
begin

text \<open>
  \<^verbatim>\<open>src/src/orchestrator/consolidation.ts\<close>: the job that turns the messages of ended sessions into summaries of depth 0 that
  are linked to them, extracts facts, and condenses summaries into summaries of depth 1. Shown: after a run every message
  of an ended session is found by expanding exactly one summary; whatever fails in between, the constraints of the
  schema hold, no message is summarised twice, and a later run goes on; a run that has nothing to do changes nothing; and
  three ways in which messages or summaries are left behind or mixed.
\<close>

section \<open>Data\<close>

record ConsolidationConfig =
  cc_consolidationModel :: string
  cc_minUnconsolidatedMessages :: nat
  cc_chunkSize :: nat
  cc_consolidationThreshold :: nat
  cc_d0MaxTokens :: nat
  cc_d1MaxTokens :: nat

text \<open>The loop does not end for size 0 and a non-empty array: then there is no value.\<close>

partial_function (option) chunkArray :: "nat \<Rightarrow> 'a list \<Rightarrow> 'a list list option" where
  "chunkArray n xs = (if xs = [] then Some [] else Option.bind (chunkArray n (drop n xs)) (\<lambda>cs. Some (take n xs # cs)))"

declare chunkArray.simps [code]

definition formatMessage :: "MessageRow \<Rightarrow> string" where
  "formatMessage m =
     ''['' @ (if mw_is_bot_message m then ''assistant'' else mw_sender_name m) @ '']: '' @
     (case mw_content m of Some c \<Rightarrow> c | None \<Rightarrow> ''(no text)'')"

section \<open>What is not yet consolidated\<close>

text \<open>A message is linked when some summary was made of it.\<close>

definition linked :: "'v Db \<Rightarrow> MessageRow \<Rightarrow> bool" where
  "linked db m \<longleftrightarrow> (mw_id m, mw_chat_id m) \<in> snd ` set (db_sms db)"

definition ended :: "'v Db \<Rightarrow> string \<Rightarrow> bool" where
  "ended db sid \<longleftrightarrow> (\<exists>s \<in> set (db_sessions db). ss_id s = sid \<and> ss_ended_at s \<noteq> None)"

text \<open>The count that the trigger looks at: the messages of ended sessions of which no message is linked.\<close>

definition unconsolidatedCount :: "'v Db \<Rightarrow> nat" where
  "unconsolidatedCount db =
     length (filter (\<lambda>m. (case mw_session_id m of None \<Rightarrow> False
        | Some sid \<Rightarrow> ended db sid \<and> \<not> (\<exists>m2 \<in> set (db_working db). mw_session_id m2 = Some sid \<and> linked db m2))) (db_working db))"

definition pendingSessions :: "'v Db \<Rightarrow> SessionRow list" where
  "pendingSessions db =
     sort_key ss_id (filter (\<lambda>s. ss_ended_at s \<noteq> None \<and> (\<exists>m \<in> set (db_working db). mw_session_id m = Some (ss_id s) \<and> \<not> linked db m))
       (db_sessions db))"

definition sessionMessages :: "string \<Rightarrow> 'v Db \<Rightarrow> MessageRow list" where
  "sessionMessages sid db = sort_key mw_timestamp (filter (\<lambda>m. mw_session_id m = Some sid \<and> \<not> linked db m) (db_working db))"

definition getProfileIdForChat :: "string \<Rightarrow> ('v, string) db_op" where
  "getProfileIdForChat chatId db =
     (case getChat chatId db of None \<Rightarrow> (Inl (Thrown (''Chat not found: '' @ chatId)), db) | Some c \<Rightarrow> (Inr (ch_profile_id c), db))"

section \<open>Facts\<close>

definition factRow :: "string \<Rightarrow> string \<Rightarrow> 'v \<Rightarrow> SemanticMemoryType \<Rightarrow> real \<Rightarrow> string \<Rightarrow> string \<Rightarrow> time \<Rightarrow> 'v SemanticRow" where
  "factRow newId c embedding memoryType importance sessionId profileId now =
     \<lparr>sm_id = newId, sm_content = c, sm_embedding = embedding, sm_memory_type = memoryType, sm_importance = importance, sm_depth = 0,
      sm_token_count = estimateTokens c, sm_source_session = Some sessionId, sm_profile_id = profileId, sm_earliest_at = None,
      sm_latest_at = None, sm_created_at = now, sm_updated_at = now, sm_last_accessed = now, sm_access_count = 0\<rparr>"

text \<open>
  One element of the answer. Reading a property of \<^verbatim>\<open>null\<close> throws; a content that is not a string, a type that the
  table does not know and an importance that is not a number make a later step or the statement fail.
\<close>

definition storeFact :: "'v JobServices \<Rightarrow> string \<Rightarrow> string \<Rightarrow> time \<Rightarrow> jv \<Rightarrow> ('v, unit) db_op" where
  "storeFact jo sessionId profileId now fct =
     (if fct = JvNull then throwD ''TypeError''
      else if falsy (jprop fct ''content'') \<or> falsy (jprop fct ''type'') then retD ()
      else case (jprop fct ''content'', jprop fct ''type'', numberOr jo (5 / 10) (jprop fct ''importance'')) of
        (Some (JvStr c), Some (JvStr ty), Some imp) \<Rightarrow>
          (case map_of (map (\<lambda>t. (semanticTypeName t, t)) [Preference, Fact, Pattern, Contact, Instruction, Summary, Procedure]) ty of
             None \<Rightarrow> bindD (embed (jo_services jo) c) (\<lambda>_. throwD ''memory_semantic_memory_type_check'')
           | Some memoryType \<Rightarrow>
               bindD (embed (jo_services jo) c) (\<lambda>embedding.
               bindD (queryD (jo_newId jo)) (\<lambda>newId.
               bindD (insertSemantic (factRow newId c embedding memoryType (max 0 (min 1 imp)) sessionId profileId now)) (\<lambda>_. retD ()))))
      | _ \<Rightarrow> throwD ''memory_semantic constraint'')"

definition extractFacts :: "ConsolidationConfig \<Rightarrow> 'v JobServices \<Rightarrow> string \<Rightarrow> string \<Rightarrow> string \<Rightarrow> ('v, unit) db_op" where
  "extractFacts cfg jo formatted sessionId profileId =
     tryD
       (bindD (summarize jo formatted \<lparr>su_model = cc_consolidationModel cfg, su_maxTokens = 500, su_systemPrompt = FACT_EXTRACTION_SYSTEM_PROMPT\<rparr>) (\<lambda>result.
        bindD (parseJson jo result) (\<lambda>facts.
        case facts of
          JvArr fs \<Rightarrow> bindD (queryD (jo_now jo)) (\<lambda>now. forD fs (storeFact jo sessionId profileId now))
        | _ \<Rightarrow> retD ())))
       ()"

section \<open>Summaries of depth 0\<close>

definition summaryRow :: "string \<Rightarrow> string \<Rightarrow> 'v \<Rightarrow> nat \<Rightarrow> string option \<Rightarrow> string \<Rightarrow> time \<Rightarrow> time \<Rightarrow> time \<Rightarrow> 'v SemanticRow" where
  "summaryRow newId summary embedding depth sourceSession profileId earliestAt latestAt now =
     \<lparr>sm_id = newId, sm_content = summary, sm_embedding = embedding, sm_memory_type = Summary, sm_importance = 7 / 10, sm_depth = depth,
      sm_token_count = estimateTokens summary, sm_source_session = sourceSession, sm_profile_id = profileId,
      sm_earliest_at = Some earliestAt, sm_latest_at = Some latestAt, sm_created_at = now, sm_updated_at = now, sm_last_accessed = now,
      sm_access_count = 0\<rparr>"

definition storeSummary :: "'v JobServices \<Rightarrow> string \<Rightarrow> string \<Rightarrow> MessageRow list \<Rightarrow> string \<Rightarrow> 'v \<Rightarrow> ('v, unit) db_op" where
  "storeSummary jo sessionId profileId chunk summary embedding =
     bindD (queryD (\<lambda>db. summaryRow (jo_newId jo db) summary embedding 0 (Some sessionId) profileId (mw_timestamp (hd chunk))
              (mw_timestamp (last chunk)) (jo_now jo db))) (\<lambda>row.
     bindD (insertSemantic row) (\<lambda>summaryId.
     forD chunk (\<lambda>m. insert_sms (summaryId, mw_id m, mw_chat_id m))))"

definition consolidateChunk :: "ConsolidationConfig \<Rightarrow> 'v JobServices \<Rightarrow> string \<Rightarrow> string \<Rightarrow> MessageRow list \<Rightarrow> ('v, unit) db_op" where
  "consolidateChunk cfg jo sessionId profileId chunk =
     (let formatted = join_with [CHR 0x0A] (map formatMessage chunk) in
      bindD (summarize jo formatted \<lparr>su_model = cc_consolidationModel cfg, su_maxTokens = cc_d0MaxTokens cfg, su_systemPrompt = D0_SYSTEM_PROMPT\<rparr>) (\<lambda>summary.
      bindD (embed (jo_services jo) summary) (\<lambda>embedding.
      bindD (storeSummary jo sessionId profileId chunk summary embedding) (\<lambda>_.
      extractFacts cfg jo formatted sessionId profileId))))"

definition consolidateSession :: "ConsolidationConfig \<Rightarrow> 'v JobServices \<Rightarrow> SessionRow \<Rightarrow> ('v, unit) db_op" where
  "consolidateSession cfg jo s =
     bindD (queryD (sessionMessages (ss_id s))) (\<lambda>messages.
     if messages = [] then retD ()
     else bindD (getProfileIdForChat (ss_chat_id s)) (\<lambda>profileId.
       case chunkArray (cc_chunkSize cfg) messages of
         None \<Rightarrow> throwD ''does not return''
       | Some chunks \<Rightarrow> forD chunks (consolidateChunk cfg jo (ss_id s) profileId)))"

section \<open>Summaries of depth 1\<close>

definition uncondensed :: "'v Db \<Rightarrow> 'v SemanticRow \<Rightarrow> bool" where
  "uncondensed db r \<longleftrightarrow> sm_memory_type r = Summary \<and> sm_depth r = 0 \<and> sm_id r \<notin> snd ` set (db_sps db)"

text \<open>The groups of the query are by session; each is followed by its chat. Their order is PostgreSQL's.\<close>

definition condensationCandidates :: "nat \<Rightarrow> 'v Db \<Rightarrow> string list" where
  "condensationCandidates threshold db =
     map ss_chat_id (filter (\<lambda>s. threshold \<le> length (filter (\<lambda>r. uncondensed db r \<and> sm_source_session r = Some (ss_id s)) (db_semantic db))
        \<and> (\<exists>r \<in> set (db_semantic db). uncondensed db r \<and> sm_source_session r = Some (ss_id s))) (db_sessions db))"

definition d0Summaries :: "string \<Rightarrow> 'v Db \<Rightarrow> 'v SemanticRow list" where
  "d0Summaries chatId db =
     byEarliest (filter (\<lambda>r. uncondensed db r \<and> (\<exists>s \<in> set (db_sessions db). sm_source_session r = Some (ss_id s) \<and> ss_chat_id s = chatId))
       (db_semantic db))"

text \<open>\<^verbatim>\<open>Number(null)\<close> is 0.\<close>

definition timeOr0 :: "time option \<Rightarrow> time" where
  "timeOr0 t = (case t of Some x \<Rightarrow> x | None \<Rightarrow> 0)"

definition numbered :: "string list \<Rightarrow> string" where
  "numbered cs = join_with [CHR 0x0A, CHR 0x0A] (map (\<lambda>(i, c). ''[Summary '' @ show_nat (i + 1) @ '']: '' @ c) (zip [0..<length cs] cs))"

definition storeCondensed :: "'v JobServices \<Rightarrow> string \<Rightarrow> 'v SemanticRow list \<Rightarrow> string \<Rightarrow> 'v \<Rightarrow> ('v, unit) db_op" where
  "storeCondensed jo profileId d0s condensed embedding =
     bindD (queryD (\<lambda>db. summaryRow (jo_newId jo db) condensed embedding 1 None profileId (timeOr0 (sm_earliest_at (hd d0s)))
              (timeOr0 (sm_latest_at (last d0s))) (jo_now jo db))) (\<lambda>row.
     bindD (insertSemantic row) (\<lambda>parentId.
     forD d0s (\<lambda>c. insert_sps (parentId, sm_id c))))"

definition condenseSummaries :: "ConsolidationConfig \<Rightarrow> 'v JobServices \<Rightarrow> string \<Rightarrow> ('v, unit) db_op" where
  "condenseSummaries cfg jo chatId =
     bindD (getProfileIdForChat chatId) (\<lambda>profileId.
     bindD (queryD (d0Summaries chatId)) (\<lambda>d0s.
     if length d0s < cc_consolidationThreshold cfg then retD ()
     else
       bindD (summarize jo (numbered (map sm_content d0s)) \<lparr>su_model = cc_consolidationModel cfg, su_maxTokens = cc_d1MaxTokens cfg, su_systemPrompt = D1_SYSTEM_PROMPT\<rparr>) (\<lambda>condensed.
       bindD (embed (jo_services jo) condensed) (\<lambda>embedding.
       storeCondensed jo profileId d0s condensed embedding))))"

definition condenseIfReady :: "ConsolidationConfig \<Rightarrow> 'v JobServices \<Rightarrow> ('v, unit) db_op" where
  "condenseIfReady cfg jo =
     bindD (queryD (condensationCandidates (cc_consolidationThreshold cfg))) (\<lambda>chats. forD chats (condenseSummaries cfg jo))"

section \<open>A run\<close>

text \<open>
  \<open>running\<close> is the flag at the call: it is set while a run is under way, and cleared when the run ends, however it ends.
\<close>

definition runConsolidation :: "ConsolidationConfig \<Rightarrow> 'v JobServices \<Rightarrow> bool \<Rightarrow> ('v, nat) db_op" where
  "runConsolidation cfg jo running =
     (if running then retD 0
      else bindD (queryD unconsolidatedCount) (\<lambda>cnt.
        if cnt < cc_minUnconsolidatedMessages cfg then retD 0
        else bindD (queryD pendingSessions) (\<lambda>sessions.
          bindD (forD sessions (consolidateSession cfg jo)) (\<lambda>_.
          bindD (queryD (\<lambda>db. show_int (jo_now jo db))) (\<lambda>t.
          bindD (setState ''last_consolidation_at'' t) (\<lambda>_.
          bindD (condenseIfReady cfg jo) (\<lambda>_.
          retD (length sessions))))))))"


section \<open>What a run may change\<close>

text \<open>Rows are appended to the semantic memory, and new links lead from new rows.\<close>

definition extends :: "'v Db \<Rightarrow> 'v Db \<Rightarrow> bool" where
  "extends db0 db \<longleftrightarrow>
     db = db0\<lparr>db_semantic := db_semantic db, db_sms := db_sms db, db_sps := db_sps db, db_state := db_state db\<rparr> \<and>
     (\<exists>rs. db_semantic db = db_semantic db0 @ rs) \<and>
     set (db_sms db0) \<subseteq> set (db_sms db) \<and> (\<forall>e \<in> set (db_sms db) - set (db_sms db0). fst e \<notin> semantic_ids db0) \<and>
     set (db_sps db0) \<subseteq> set (db_sps db)"

lemma db_extends_refl [simp]: "extends db db"
  by (simp add: extends_def)

lemma extends_same:
  assumes "extends db0 db"
  shows "db_profiles db = db_profiles db0" "db_chats db = db_chats db0" "db_working db = db_working db0" "db_sessions db = db_sessions db0"
    "db_meta db = db_meta db0" "db_external db = db_external db0" "db_mms db = db_mms db0" "db_mps db = db_mps db0"
    "db_identity db = db_identity db0" "db_personality db = db_personality db0" "db_user_identity db = db_user_identity db0"
    "db_user_personality db = db_user_personality db0"
proof -
  have e: "db = db0\<lparr>db_semantic := db_semantic db, db_sms := db_sms db, db_sps := db_sps db, db_state := db_state db\<rparr>"
    using assms unfolding extends_def by blast
  show "db_profiles db = db_profiles db0" "db_chats db = db_chats db0" "db_working db = db_working db0" "db_sessions db = db_sessions db0"
    "db_meta db = db_meta db0" "db_external db = db_external db0" "db_mms db = db_mms db0" "db_mps db = db_mps db0"
    "db_identity db = db_identity db0" "db_personality db = db_personality db0" "db_user_identity db = db_user_identity db0"
    "db_user_personality db = db_user_personality db0" by (subst e, simp)+
qed

lemma extendsD:
  assumes "extends db0 db"
  shows "\<exists>rs. db_semantic db = db_semantic db0 @ rs" "set (db_sms db0) \<subseteq> set (db_sms db)"
    "\<And>e. e \<in> set (db_sms db) \<Longrightarrow> e \<notin> set (db_sms db0) \<Longrightarrow> fst e \<notin> semantic_ids db0"
    "set (db_sps db0) \<subseteq> set (db_sps db)"
  using assms unfolding extends_def by auto

lemma extends_semantic:
  assumes "extends db0 db"
  shows "set (db_semantic db0) \<subseteq> set (db_semantic db)" "semantic_ids db0 \<subseteq> semantic_ids db"
  using extendsD(1) [OF assms] by (auto simp: semantic_ids_def)

lemma db_extends_trans:
  assumes "extends db0 db1" "extends db1 db2"
  shows "extends db0 db2"
proof -
  have "db2 = db0\<lparr>db_semantic := db_semantic db2, db_sms := db_sms db2, db_sps := db_sps db2, db_state := db_state db2\<rparr>"
    by (rule Db.equality) (simp_all add: extends_same [OF assms(1)] extends_same [OF assms(2)])
  moreover have "\<exists>rs. db_semantic db2 = db_semantic db0 @ rs"
    using extendsD(1) [OF assms(1)] extendsD(1) [OF assms(2)] by (metis append.assoc)
  moreover have "fst e \<notin> semantic_ids db0" if "e \<in> set (db_sms db2) - set (db_sms db0)" for e
    using that extendsD(3) [OF assms(1)] extendsD(3) [OF assms(2)] extends_semantic(2) [OF assms(1)] by blast
  moreover have "set (db_sms db0) \<subseteq> set (db_sms db2)" "set (db_sps db0) \<subseteq> set (db_sps db2)"
    using extendsD(2,4) [OF assms(1)] extendsD(2,4) [OF assms(2)] by blast+
  ultimately show ?thesis unfolding extends_def by blast
qed

lemma extends_ends [simp]: "extends db0 db \<Longrightarrow> ended db = ended db0"
  by (simp add: ended_def fun_eq_iff extends_same)

lemma extends_keys [simp]: "extends db0 db \<Longrightarrow> message_keys db = message_keys db0"
  by (simp add: message_keys_def extends_same)

text \<open>No message has two summaries, no summary two parents, and parents are one level above their children.\<close>

definition summary_at :: "nat \<Rightarrow> 'v Db \<Rightarrow> string \<Rightarrow> bool" where
  "summary_at d db i \<longleftrightarrow> (\<exists>r \<in> set (db_semantic db). sm_id r = i \<and> sm_memory_type r = Summary \<and> sm_depth r = d)"

definition summary_forest :: "'v Db \<Rightarrow> bool" where
  "summary_forest db \<longleftrightarrow>
     inj_on snd (set (db_sms db)) \<and> inj_on snd (set (db_sps db)) \<and>
     (\<forall>e \<in> set (db_sms db). summary_at 0 db (fst e)) \<and>
     (\<forall>e \<in> set (db_sps db). summary_at 1 db (fst e) \<and> summary_at 0 db (snd e))"

definition cons_inv :: "'v Db \<Rightarrow> 'v Db \<Rightarrow> bool" where
  "cons_inv db0 db \<longleftrightarrow> extends db0 db \<and> db_ok db \<and> summary_forest db"

lemma cons_inv_extends: "cons_inv db0 db \<Longrightarrow> extends db0 db"
  by (simp add: cons_inv_def)

text \<open>The statements keep the invariant.\<close>

lemma insertSemantic_inv:
  assumes "cons_inv db0 db" "sm_id r \<notin> semantic_ids db"
  shows "cons_inv db0 (snd (insertSemantic r db))"
proof (cases "0 \<le> sm_importance r \<and> sm_importance r \<le> 1 \<and> sm_profile_id r \<in> profile_ids db \<and>
    (case sm_source_session r of Some s \<Rightarrow> s \<in> ss_id ` set (db_sessions db) | None \<Rightarrow> True)")
  case True
  let ?db = "db\<lparr>db_semantic := db_semantic db @ [r]\<rparr>"
  have eq: "snd (insertSemantic r db) = ?db" using True by (auto simp: insertSemantic_def split: option.splits)
  have "extends db ?db" by (simp add: extends_def)
  then have "extends db0 ?db" using assms(1) db_extends_trans unfolding cons_inv_def by blast
  moreover have "db_ok ?db"
  proof -
    have "joins_ok ?db" using assms(1) unfolding cons_inv_def db_ok_def joins_ok_def semantic_ids_def meta_ids_def message_keys_def
      by simp blast
    moreover have "profile_refs ?db \<subseteq> profile_ids ?db"
      using assms(1) True unfolding cons_inv_def db_ok_def profile_refs_def profile_ids_def by auto
    moreover have "ids_distinct ?db" using assms unfolding cons_inv_def db_ok_def ids_distinct_def semantic_ids_def by auto
    ultimately show ?thesis using assms(1) unfolding cons_inv_def db_ok_def by simp
  qed
  moreover have "summary_forest ?db" using assms(1) unfolding cons_inv_def summary_forest_def summary_at_def by fastforce
  ultimately show ?thesis unfolding eq cons_inv_def by blast
next
  case False
  then have "snd (insertSemantic r db) = db" by (auto simp: insertSemantic_def split: option.splits)
  then show ?thesis using assms(1) by simp
qed

lemma insert_sms_inv:
  assumes "cons_inv db0 db" "snd e \<notin> snd ` set (db_sms db)" "summary_at 0 db (fst e)" "fst e \<notin> semantic_ids db0"
  shows "cons_inv db0 (snd (insert_sms e db))"
proof (cases "e \<in> set (db_sms db) \<or> fst e \<notin> semantic_ids db \<or> snd e \<notin> message_keys db")
  case True
  then have "snd (insert_sms e db) = db" by (auto simp: insert_sms_def)
  then show ?thesis using assms(1) by simp
next
  case False
  let ?db = "db\<lparr>db_sms := db_sms db @ [e]\<rparr>"
  have eq: "snd (insert_sms e db) = ?db" using False by (simp add: insert_sms_def)
  have E: "extends db0 db" using assms(1) by (rule cons_inv_extends)
  have "extends db0 ?db" unfolding extends_def
  proof (intro conjI ballI)
    show "?db = db0\<lparr>db_semantic := db_semantic ?db, db_sms := db_sms ?db, db_sps := db_sps ?db, db_state := db_state ?db\<rparr>"
      by (rule Db.equality) (simp_all add: extends_same [OF E])
    show "\<exists>rs. db_semantic ?db = db_semantic db0 @ rs" using extendsD(1) [OF E] by simp
    show "fst x \<notin> semantic_ids db0" if "x \<in> set (db_sms ?db) - set (db_sms db0)" for x
      using that assms(4) extendsD(3) [OF E, of x] by (cases "x = e") simp_all
  qed (use extendsD(2,4) [OF E] in auto)
  moreover have "db_ok ?db"
    using assms(1) False unfolding cons_inv_def db_ok_def ids_distinct_def joins_ok_def profile_refs_def profile_ids_def semantic_ids_def meta_ids_def message_keys_def
    by (cases e) auto
  moreover have "summary_forest ?db" using assms unfolding cons_inv_def summary_forest_def summary_at_def by auto
  ultimately show ?thesis unfolding eq cons_inv_def by blast
qed

lemma insert_sps_inv:
  assumes "cons_inv db0 db" "snd e \<notin> snd ` set (db_sps db)" "summary_at 1 db (fst e)" "summary_at 0 db (snd e)"
  shows "cons_inv db0 (snd (insert_sps e db))"
proof (cases "e \<in> set (db_sps db) \<or> fst e \<notin> semantic_ids db \<or> snd e \<notin> semantic_ids db")
  case True
  then have "snd (insert_sps e db) = db" by (auto simp: insert_sps_def)
  then show ?thesis using assms(1) by simp
next
  case False
  let ?db = "db\<lparr>db_sps := db_sps db @ [e]\<rparr>"
  have eq: "snd (insert_sps e db) = ?db" using False by (simp add: insert_sps_def)
  have "extends db ?db" by (auto simp: extends_def)
  then have "extends db0 ?db" using assms(1) db_extends_trans unfolding cons_inv_def by blast
  moreover have "db_ok ?db"
    using assms(1) False unfolding cons_inv_def db_ok_def ids_distinct_def joins_ok_def profile_refs_def profile_ids_def semantic_ids_def meta_ids_def message_keys_def
    by (cases e) auto
  moreover have "summary_forest ?db" using assms unfolding cons_inv_def summary_forest_def summary_at_def by auto
  ultimately show ?thesis unfolding eq cons_inv_def by blast
qed

lemma cons_inv_refl: "db_ok db \<Longrightarrow> summary_forest db \<Longrightarrow> cons_inv db db"
  by (simp add: cons_inv_def)

lemma cons_inv_trans: "cons_inv db0 db1 \<Longrightarrow> cons_inv db1 db2 \<Longrightarrow> cons_inv db0 db2"
  unfolding cons_inv_def using db_extends_trans by blast

lemma cons_inv_base: "cons_inv db0 db \<Longrightarrow> cons_inv db db"
  by (simp add: cons_inv_def)

lemma chunkArray_total:
  assumes "0 < n"
  shows "\<exists>cs. chunkArray n xs = Some cs \<and> concat cs = xs \<and> (\<forall>c \<in> set cs. c \<noteq> [] \<and> length c \<le> n)"
proof (induction "length xs" arbitrary: xs rule: less_induct)
  case less
  show ?case
  proof (cases "xs = []")
    case True
    then show ?thesis by (simp add: chunkArray.simps)
  next
    case False
    then obtain cs where cs: "chunkArray n (drop n xs) = Some cs" "concat cs = drop n xs" "\<forall>c \<in> set cs. c \<noteq> [] \<and> length c \<le> n"
      using less [of "drop n xs"] assms by auto
    have "chunkArray n xs = Some (take n xs # cs)" using False cs(1) by (subst chunkArray.simps) simp
    then show ?thesis using False assms cs(2,3) by auto
  qed
qed

text \<open>Facts add rows and no links.\<close>

lemma storeFact_maintains:
  fixes jo :: "'v JobServices"
  assumes "ids_fresh jo"
  shows "maintains (\<lambda>db. cons_inv D db \<and> db_sms db = S) (storeFact jo sid pid now fct)"
proof -
  let ?I = "\<lambda>db. cons_inv D db \<and> db_sms db = S"
  have ins: "maintains ?I (bindD (queryD (jo_newId jo)) (\<lambda>i. bindD (insertSemantic (factRow i c e ty imp sid pid now)) (\<lambda>_. retD ())))"
    for c e ty imp
  proof (rule maintainsI)
    fix db assume I: "?I db"
    let ?r = "factRow (jo_newId jo db) c e ty imp sid pid now"
    have "cons_inv D (snd (insertSemantic ?r db))"
      using insertSemantic_inv [of D db ?r] I assms by (simp add: ids_fresh_def factRow_def)
    moreover have "db_sms (snd (insertSemantic ?r db)) = S" using I by (simp add: insertSemantic_def split: option.split)
    moreover have "snd (bindD (queryD (jo_newId jo)) (\<lambda>i. bindD (insertSemantic (factRow i c e ty imp sid pid now)) (\<lambda>_. retD ())) db) =
      snd (insertSemantic ?r db)"
      by (simp add: bindD_def queryD_def retD_def split: prod.split sum.split)
    ultimately show "?I (snd (bindD (queryD (jo_newId jo)) (\<lambda>i. bindD (insertSemantic (factRow i c e ty imp sid pid now)) (\<lambda>_. retD ())) db))"
      by simp
  qed
  have "maintains ?I (bindD (embed (jo_services jo) c) (\<lambda>e. bindD (queryD (jo_newId jo)) (\<lambda>i.
      bindD (insertSemantic (factRow i c e ty imp sid pid now)) (\<lambda>_. retD ()))))" for c ty imp
    by (intro maintains_bind maintains_intros ins)
  moreover have "maintains ?I (bindD (embed (jo_services jo) c) (\<lambda>_. throwD e :: ('v, unit) db_op))" for c e
    by (intro maintains_bind maintains_intros)
  ultimately show ?thesis unfolding storeFact_def
    by (simp add: maintains_intros split: option.split jv.split)
qed

lemma extractFacts_maintains:
  assumes "ids_fresh jo"
  shows "maintains (\<lambda>db. cons_inv D db \<and> db_sms db = S) (extractFacts cfg jo formatted sid pid)"
  unfolding extractFacts_def
  by (auto intro!: maintains_try maintains_bind maintains_for storeFact_maintains [OF assms] split: jv.split)

section \<open>Reading a summary back\<close>

abbreviation key_of :: "MessageRow \<Rightarrow> string \<times> string" where
  "key_of m \<equiv> (mw_id m, mw_chat_id m)"

lemma keys_inj: "db_ok db \<Longrightarrow> inj_on key_of (set (db_working db))"
  by (simp add: db_ok_def ids_distinct_def distinct_map)

lemma semantic_unique: "db_ok db \<Longrightarrow> r \<in> set (db_semantic db) \<Longrightarrow> r' \<in> set (db_semantic db) \<Longrightarrow> sm_id r = sm_id r' \<Longrightarrow> r = r'"
  unfolding db_ok_def ids_distinct_def distinct_map inj_on_def by blast

lemma expand_summary:
  assumes "db_ok db" "r \<in> set (db_semantic db)" "sm_id r = i" "sm_memory_type r = Summary" "sm_depth r = 0"
  shows "expandMemoryIn i db = Messages (sort_key mw_timestamp (filter (\<lambda>m. (i, key_of m) \<in> set (db_sms db)) (db_working db)))"
proof -
  have "find (\<lambda>x. sm_id x = i \<and> sm_memory_type x = Summary) (db_semantic db) = Some r"
  proof (rule find_unique)
    show "x = r" if "x \<in> set (db_semantic db)" "sm_id x = i \<and> sm_memory_type x = Summary" for x
      using semantic_unique [OF assms(1) that(1) assms(2)] that(2) assms(3) by simp
  qed (use assms in simp_all)
  then show ?thesis using assms(5) by (simp add: expandMemoryIn_def)
qed

text \<open>\<open>i\<close> is the summary of the messages \<open>chunk\<close> of one session: expanding it gives them back.\<close>

definition summarises :: "'v Db \<Rightarrow> string \<Rightarrow> string \<Rightarrow> MessageRow list \<Rightarrow> bool" where
  "summarises db i sid chunk \<longleftrightarrow>
     (\<exists>r \<in> set (db_semantic db). \<exists>s \<in> set (db_sessions db). \<exists>c. sm_id r = i \<and> sm_memory_type r = Summary \<and> sm_depth r = 0 \<and>
        ss_id s = sid \<and> sm_source_session r = Some sid \<and> getChat (ss_chat_id s) db = Some c \<and> sm_profile_id r = ch_profile_id c \<and>
        sm_earliest_at r = Some (mw_timestamp (hd chunk)) \<and> sm_latest_at r = Some (mw_timestamp (last chunk))) \<and>
     chunk \<noteq> [] \<and> (\<forall>m \<in> set chunk. m \<in> set (db_working db) \<and> mw_session_id m = Some sid) \<and>
     expandMemoryIn i db = Messages chunk"

lemma summarises_extends:
  assumes "summarises db i sid chunk" "cons_inv db db'"
  shows "summarises db' i sid chunk"
proof -
  have E: "extends db db'" "db_ok db'" using assms(2) by (auto simp: cons_inv_def)
  have same: "db_working db' = db_working db" "db_sessions db' = db_sessions db" "getChat c db' = getChat c db" for c
    using extends_same [OF E(1)] by (simp_all add: getChat_def)
  obtain r where r: "r \<in> set (db_semantic db)" "sm_id r = i" "sm_memory_type r = Summary" "sm_depth r = 0"
    using assms(1) unfolding summarises_def by blast
  have old: "i \<in> semantic_ids db" using r(1,2) by (auto simp: semantic_ids_def)
  have links: "(i, k) \<in> set (db_sms db') \<longleftrightarrow> (i, k) \<in> set (db_sms db)" for k
    using extendsD(2) [OF E(1)] extendsD(3) [OF E(1), of "(i, k)"] old by auto
  have "expandMemoryIn i db' = Messages (sort_key mw_timestamp (filter (\<lambda>m. (i, key_of m) \<in> set (db_sms db')) (db_working db')))"
    by (rule expand_summary [OF E(2) _ r(2-4)]) (use r(1) extends_semantic(1) [OF E(1)] in blast)
  moreover have "expandMemoryIn i db = Messages (sort_key mw_timestamp (filter (\<lambda>m. (i, key_of m) \<in> set (db_sms db)) (db_working db)))"
  proof -
    obtain rs where rs: "db_semantic db' = db_semantic db @ rs" using extendsD(1) [OF E(1)] by blast
    have "find (\<lambda>x. sm_id x = i \<and> sm_memory_type x = Summary) (db_semantic db) = Some r"
    proof (rule find_unique)
      show "x = r" if "x \<in> set (db_semantic db)" "sm_id x = i \<and> sm_memory_type x = Summary" for x
        using semantic_unique [OF E(2), of x r] that r(1,2) rs by simp
    qed (use r in simp_all)
    then show ?thesis using r(4) by (simp add: expandMemoryIn_def)
  qed
  ultimately have x: "expandMemoryIn i db' = expandMemoryIn i db" unfolding links same by simp
  show ?thesis using assms(1) extends_semantic(1) [OF E(1)] unfolding summarises_def x same by blast
qed

text \<open>A piece of a sorted list without repetitions is what its elements select from it.\<close>

lemma filter_piece:
  assumes "distinct (map k (a @ c @ b))"
  shows "filter (\<lambda>x. k x \<in> k ` set c) (a @ c @ b) = c"
proof -
  have "filter (\<lambda>x. k x \<in> k ` set c) a = []" "filter (\<lambda>x. k x \<in> k ` set c) b = []"
    using assms by (auto simp: filter_empty_conv)
  moreover have "filter (\<lambda>x. k x \<in> k ` set c) c = c" by (simp add: filter_id_conv)
  ultimately show ?thesis by simp
qed

lemma piece_of_messages:
  assumes "db_ok db" "sessionMessages sid db = a @ c @ b"
  shows "sort_key mw_timestamp (filter (\<lambda>m. key_of m \<in> key_of ` set c) (db_working db)) = c"
proof -
  let ?P = "\<lambda>m. mw_session_id m = Some sid \<and> \<not> linked db m" and ?K = "\<lambda>m. key_of m \<in> key_of ` set c"
  have c: "set c \<subseteq> set (filter ?P (db_working db))" using arg_cong [OF assms(2), of set] by (auto simp: sessionMessages_def)
  have "filter ?K (db_working db) = filter (\<lambda>m. ?K m \<and> ?P m) (db_working db)"
  proof (rule filter_cong [OF refl])
    fix m assume m: "m \<in> set (db_working db)"
    have "?P m" if K: "?K m"
    proof -
      obtain x where "x \<in> set c" "key_of x = key_of m" using K by fastforce
      then have "x = m" using inj_onD [OF keys_inj [OF assms(1)], of x m] c m by auto
      then show ?thesis using \<open>x \<in> set c\<close> c by auto
    qed
    then show "?K m \<longleftrightarrow> ?K m \<and> ?P m" by blast
  qed
  also have "\<dots> = filter ?K (filter ?P (db_working db))" by (simp add: filter_filter conj_commute)
  finally have "sort_key mw_timestamp (filter ?K (db_working db)) = filter ?K (sessionMessages sid db)"
    unfolding sessionMessages_def by (simp add: filter_sort)
  moreover have "distinct (map key_of (a @ c @ b))"
  proof -
    have "distinct (map key_of (filter ?P (db_working db)))" using assms(1) by (simp add: db_ok_def ids_distinct_def distinct_map_filter)
    then have "distinct (map key_of (sessionMessages sid db))" unfolding sessionMessages_def by (simp add: distinct_map)
    then show ?thesis unfolding assms(2) .
  qed
  ultimately show ?thesis unfolding assms(2) using filter_piece [of key_of a c b] by simp
qed

section \<open>The steps of a run\<close>

definition linked_keys :: "'v Db \<Rightarrow> (string \<times> string) set" where
  "linked_keys db = snd ` set (db_sms db)"

lemma insertSemantic_ok:
  assumes "insertSemantic r db = (Inr i, db')"
  shows "i = sm_id r" "db' = db\<lparr>db_semantic := db_semantic db @ [r]\<rparr>"
  using assms by (auto simp: insertSemantic_def split: if_splits option.splits)

lemma insertSemantic_failed: "insertSemantic r db = (Inl e, db') \<Longrightarrow> db' = db"
  by (auto simp: insertSemantic_def split: if_splits option.splits)

lemma insert_sms_cases: "insert_sms e db = (Inl x, db') \<Longrightarrow> db' = db"
    "insert_sms e db = (Inr u, db') \<Longrightarrow> db' = db\<lparr>db_sms := db_sms db @ [e]\<rparr>"
  by (auto simp: insert_sms_def split: if_splits)

text \<open>Linking the messages of a chunk to their new summary.\<close>

lemma link_messages:
  assumes D: "cons_inv D D" and new: "sm_id r \<notin> semantic_ids D" and row: "sm_memory_type r = Summary" "sm_depth r = 0"
    and dist: "distinct (map key_of chunk)" and unlinked: "\<forall>m \<in> set chunk. key_of m \<notin> linked_keys D"
  shows "hoareD (\<lambda>db. cons_inv D db \<and> db_semantic db = db_semantic D @ [r] \<and> db_sms db = db_sms D)
           (forD chunk (\<lambda>m. insert_sms (sm_id r, mw_id m, mw_chat_id m)))
           (\<lambda>_ db. cons_inv D db \<and> db_semantic db = db_semantic D @ [r] \<and> set (db_sms db) = set (db_sms D) \<union> (\<lambda>m. (sm_id r, key_of m)) ` set chunk)
           (cons_inv D)"
proof -
  let ?I = "\<lambda>done db. cons_inv D db \<and> db_semantic db = db_semantic D @ [r] \<and> set (db_sms db) = set (db_sms D) \<union> (\<lambda>m. (sm_id r, key_of m)) ` set done"
  have "hoareD (?I []) (forD chunk (\<lambda>m. insert_sms (sm_id r, mw_id m, mw_chat_id m))) (\<lambda>_. ?I chunk) (cons_inv D)"
  proof (rule hoareD_for [where I = ?I], rule hoareDI)
    fix "done" m rest db
    assume split: "chunk = done @ m # rest" and I: "?I done db"
    have "key_of m \<notin> snd ` set (db_sms db)"
      using I dist unlinked unfolding split linked_keys_def by (force simp: image_iff)
    moreover have "summary_at 0 db (sm_id r)" using I row unfolding summary_at_def by auto
    ultimately have inv: "cons_inv D (snd (insert_sms (sm_id r, key_of m) db))"
      using insert_sms_inv [of D db "(sm_id r, key_of m)"] I new by simp
    show "case insert_sms (sm_id r, mw_id m, mw_chat_id m) db of (Inr x, db1) \<Rightarrow> ?I (done @ [m]) db1 | (Inl e, db1) \<Rightarrow> cons_inv D db1"
    proof (cases "insert_sms (sm_id r, key_of m) db")
      case (Pair x db1)
      then show ?thesis
        using inv I insert_sms_cases(2) [of "(sm_id r, key_of m)" db _ db1] by (cases x) auto
    qed
  qed
  then show ?thesis by (rule hoareD_weaken) auto
qed

definition covers :: "'v Db \<Rightarrow> string \<Rightarrow> MessageRow list \<Rightarrow> 'v Db \<Rightarrow> bool" where
  "covers D sid chunk db \<longleftrightarrow>
     cons_inv D db \<and> linked_keys db = linked_keys D \<union> key_of ` set chunk \<and>
     (\<exists>i. i \<notin> semantic_ids D \<and> summarises db i sid chunk \<and> set (db_sms db) = set (db_sms D) \<union> (\<lambda>m. (i, key_of m)) ` set chunk)"

lemma storeSummary_spec:
  assumes fresh: "ids_fresh jo" and D: "cons_inv D D" and chunk: "sessionMessages sid D = a @ chunk @ b" "chunk \<noteq> []"
    and s: "s \<in> set (db_sessions D)" "ss_id s = sid" "getChat (ss_chat_id s) D = Some c"
  shows "hoareD (\<lambda>db. db = D) (storeSummary jo sid (ch_profile_id c) chunk summary e) (\<lambda>_. covers D sid chunk) (cons_inv D)"
proof -
  define r where "r = summaryRow (jo_newId jo D) summary e 0 (Some sid) (ch_profile_id c) (mw_timestamp (hd chunk)) (mw_timestamp (last chunk)) (jo_now jo D)"
  have ok: "db_ok D" using D by (simp add: cons_inv_def)
  have new: "sm_id r \<notin> semantic_ids D" using fresh by (simp add: r_def summaryRow_def ids_fresh_def)
  have row: "sm_memory_type r = Summary" "sm_depth r = 0" by (simp_all add: r_def summaryRow_def)
  have in_session: "\<forall>m \<in> set chunk. m \<in> set (db_working D) \<and> mw_session_id m = Some sid \<and> \<not> linked D m"
    using arg_cong [OF chunk(1), of set] by (auto simp: sessionMessages_def)
  have dist: "distinct (map key_of chunk)"
  proof -
    have "distinct (map key_of (sessionMessages sid D))" unfolding sessionMessages_def
      by (rule distinct_sorted_ids) (use ok in \<open>simp add: db_ok_def ids_distinct_def\<close>)
    then show ?thesis unfolding chunk(1) by simp
  qed
  have unlinked: "\<forall>m \<in> set chunk. key_of m \<notin> linked_keys D" using in_session by (simp add: linked_def linked_keys_def)
  have post: "covers D sid chunk db"
    if db: "cons_inv D db" "db_semantic db = db_semantic D @ [r]" "set (db_sms db) = set (db_sms D) \<union> (\<lambda>m. (sm_id r, key_of m)) ` set chunk" for db
  proof -
    have E: "extends D db" "db_ok db" using db(1) by (auto simp: cons_inv_def)
    have same: "db_working db = db_working D" "db_sessions db = db_sessions D" "getChat (ss_chat_id s) db = Some c"
      using extends_same [OF E(1)] s(3) by (simp_all add: getChat_def)
    have in_db: "r \<in> set (db_semantic db)" using db(2) by simp
    have links: "(sm_id r, key_of m) \<in> set (db_sms db) \<longleftrightarrow> key_of m \<in> key_of ` set chunk" for m
    proof -
      have "(sm_id r, key_of m) \<notin> set (db_sms D)"
        using new D unfolding cons_inv_def db_ok_def joins_ok_def by force
      then show ?thesis unfolding db(3) by auto
    qed
    have "expandMemoryIn (sm_id r) db = Messages chunk"
      using expand_summary [OF E(2) in_db refl row] piece_of_messages [OF ok chunk(1)] unfolding links same by simp
    then have "summarises db (sm_id r) sid chunk"
      unfolding summarises_def using in_db s same chunk(2) in_session
      by (intro conjI bexI [of _ r] bexI [of _ s] exI [of _ c]) (simp_all add: r_def summaryRow_def)
    moreover have "linked_keys db = linked_keys D \<union> key_of ` set chunk" unfolding linked_keys_def db(3) image_Un image_image by simp
    ultimately show ?thesis unfolding covers_def using db(1,3) new by blast
  qed
  show ?thesis unfolding storeSummary_def
  proof (rule hoareD_bind [where R = "\<lambda>row db. db = D \<and> row = r"])
    show "hoareD (\<lambda>db. db = D) (queryD (\<lambda>db. summaryRow (jo_newId jo db) summary e 0 (Some sid) (ch_profile_id c) (mw_timestamp (hd chunk))
              (mw_timestamp (last chunk)) (jo_now jo db))) (\<lambda>row db. db = D \<and> row = r) (cons_inv D)"
      by (rule hoareD_query) (simp add: r_def)
  next
    fix row
    show "hoareD (\<lambda>db. db = D \<and> row = r) (bindD (insertSemantic row) (\<lambda>summaryId. forD chunk (\<lambda>m. insert_sms (summaryId, mw_id m, mw_chat_id m))))
       (\<lambda>_. covers D sid chunk) (cons_inv D)"
    proof (rule hoareD_bind [where R = "\<lambda>i db. i = sm_id r \<and> cons_inv D db \<and> db_semantic db = db_semantic D @ [r] \<and> db_sms db = db_sms D"])
      show "hoareD (\<lambda>db. db = D \<and> row = r) (insertSemantic row)
         (\<lambda>i db. i = sm_id r \<and> cons_inv D db \<and> db_semantic db = db_semantic D @ [r] \<and> db_sms db = db_sms D) (cons_inv D)"
      proof (rule hoareDI)
        fix db assume "db = D \<and> row = r"
        then show "case insertSemantic row db of (Inr i, db1) \<Rightarrow> i = sm_id r \<and> cons_inv D db1 \<and> db_semantic db1 = db_semantic D @ [r] \<and> db_sms db1 = db_sms D
           | (Inl e, db1) \<Rightarrow> cons_inv D db1"
          using insertSemantic_inv [OF D new] insertSemantic_ok [of r D] insertSemantic_failed [of r D] D
          by (cases "insertSemantic r D"; cases "fst (insertSemantic r D)") auto
      qed
    next
      fix i
      show "hoareD (\<lambda>db. i = sm_id r \<and> cons_inv D db \<and> db_semantic db = db_semantic D @ [r] \<and> db_sms db = db_sms D)
         (forD chunk (\<lambda>m. insert_sms (i, mw_id m, mw_chat_id m))) (\<lambda>_. covers D sid chunk) (cons_inv D)"
      proof (cases "i = sm_id r")
        case True
        show ?thesis unfolding True
          by (rule hoareD_weaken [OF link_messages [OF D new row dist unlinked]]) (auto intro: post)
      qed (simp add: hoareD_def)
    qed
  qed
qed

lemma consolidateChunk_spec:
  assumes fresh: "ids_fresh jo" and D: "cons_inv D D" and chunk: "sessionMessages sid D = a @ chunk @ b" "chunk \<noteq> []"
    and s: "s \<in> set (db_sessions D)" "ss_id s = sid" "getChat (ss_chat_id s) D = Some c"
  shows "hoareD (\<lambda>db. db = D) (consolidateChunk cfg jo sid (ch_profile_id c) chunk) (\<lambda>_. covers D sid chunk) (cons_inv D)"
proof -
  have facts: "hoareD (covers D sid chunk) (extractFacts cfg jo f sid pid) (\<lambda>_. covers D sid chunk) (cons_inv D)" for f pid
  proof (rule hoareDI)
    fix db assume cov: "covers D sid chunk db"
    obtain r db1 where r: "extractFacts cfg jo f sid pid db = (r, db1)" by force
    obtain u where u: "r = Inr u" using r by (auto simp: extractFacts_def tryD_def split: prod.splits sum.splits)
    have "cons_inv db db" using cov cons_inv_base unfolding covers_def by blast
    then have k: "cons_inv db db1" "db_sms db1 = db_sms db"
      using maintainsD [OF extractFacts_maintains [OF fresh, of db "db_sms db" cfg f sid pid], of db] r by auto
    obtain i where i: "i \<notin> semantic_ids D" "summarises db i sid chunk" "set (db_sms db) = set (db_sms D) \<union> (\<lambda>m. (i, key_of m)) ` set chunk"
      and inv: "cons_inv D db" "linked_keys db = linked_keys D \<union> key_of ` set chunk" using cov unfolding covers_def by blast
    have "linked_keys db1 = linked_keys D \<union> key_of ` set chunk" using inv(2) unfolding linked_keys_def k(2) .
    moreover have "set (db_sms db1) = set (db_sms D) \<union> (\<lambda>m. (i, key_of m)) ` set chunk" using i(3) unfolding k(2) .
    ultimately have "covers D sid chunk db1"
      unfolding covers_def using i(1) summarises_extends [OF i(2) k(1)] cons_inv_trans [OF inv(1) k(1)] by blast
    then show "case extractFacts cfg jo f sid pid db of (Inr x, db1) \<Rightarrow> covers D sid chunk db1 | (Inl e, db1) \<Rightarrow> cons_inv D db1"
      unfolding r u by simp
  qed
  show ?thesis unfolding consolidateChunk_def Let_def
  proof (intro hoareD_bind)
    show "hoareD (\<lambda>db. db = D) (summarize jo (join_with [CHR 0x0A] (map formatMessage chunk)) \<lparr>su_model = cc_consolidationModel cfg,
        su_maxTokens = cc_d0MaxTokens cfg, su_systemPrompt = D0_SYSTEM_PROMPT\<rparr>) (\<lambda>_ db. db = D) (cons_inv D)"
      by (rule hoareD_summarize) (simp_all add: D)
    show "hoareD (\<lambda>db. db = D) (embed (jo_services jo) x) (\<lambda>_ db. db = D) (cons_inv D)" for x by (rule hoareD_embed) (simp_all add: D)
    show "hoareD (\<lambda>db. db = D) (storeSummary jo sid (ch_profile_id c) chunk x e) (\<lambda>_. covers D sid chunk) (cons_inv D)" for x e
      by (rule storeSummary_spec [OF assms])
    show "hoareD (covers D sid chunk) (extractFacts cfg jo (join_with [CHR 0x0A] (map formatMessage chunk)) sid (ch_profile_id c)) (\<lambda>_. covers D sid chunk)
        (cons_inv D)" for x y by (rule facts)
  qed
qed

text \<open>Every link made since \<open>D\<close> leads from the summary of a chunk that holds the message.\<close>

definition good_links :: "nat \<Rightarrow> 'v Db \<Rightarrow> 'v Db \<Rightarrow> bool" where
  "good_links n D db \<longleftrightarrow>
     (\<forall>e \<in> set (db_sms db). e \<notin> set (db_sms D) \<longrightarrow>
        (\<exists>sid chunk. summarises db (fst e) sid chunk \<and> snd e \<in> key_of ` set chunk \<and> length chunk \<le> n))"

lemma good_links_step:
  assumes "good_links n D db" "covers db sid chunk db'" "length chunk \<le> n"
  shows "good_links n D db'"
proof -
  obtain i where i: "summarises db' i sid chunk" "set (db_sms db') = set (db_sms db) \<union> (\<lambda>m. (i, key_of m)) ` set chunk"
    and inv: "cons_inv db db'" using assms(2) unfolding covers_def by blast
  show ?thesis unfolding good_links_def
  proof (intro ballI impI)
    fix e assume e: "e \<in> set (db_sms db')" "e \<notin> set (db_sms D)"
    show "\<exists>sid chunk. summarises db' (fst e) sid chunk \<and> snd e \<in> key_of ` set chunk \<and> length chunk \<le> n"
    proof (cases "e \<in> set (db_sms db)")
      case True
      then show ?thesis using assms(1) e(2) summarises_extends [OF _ inv] unfolding good_links_def by blast
    next
      case False
      then have "fst e = i" "snd e \<in> key_of ` set chunk" using e(1) i(2) by auto
      then show ?thesis using i(1) assms(3) by blast
    qed
  qed
qed

lemma good_links_mono:
  assumes "good_links n D db" "cons_inv db db'" "db_sms db' = db_sms db"
  shows "good_links n D db'"
  using assms(1) summarises_extends [OF _ assms(2)] unfolding good_links_def assms(3) by blast

lemma remaining_messages:
  assumes ok: "db_ok D" and E: "extends D db" and keys: "linked_keys db = linked_keys D \<union> key_of ` set xs" and split: "sessionMessages sid D = xs @ ys"
  shows "sessionMessages sid db = ys"
proof -
  have w: "db_working db = db_working D" using extends_same [OF E] by simp
  have dist: "distinct (map key_of (xs @ ys))"
    unfolding split [symmetric] sessionMessages_def by (rule distinct_sorted_ids) (use ok in \<open>simp add: db_ok_def ids_distinct_def\<close>)
  have l: "linked db m \<longleftrightarrow> linked D m \<or> key_of m \<in> key_of ` set xs" for m
    using arg_cong [OF keys, of "\<lambda>S. key_of m \<in> S"] unfolding linked_def linked_keys_def Un_iff .
  have "sessionMessages sid db = filter (\<lambda>m. key_of m \<notin> key_of ` set xs) (sessionMessages sid D)"
    unfolding sessionMessages_def w l filter_sort filter_filter
    by (rule arg_cong [of _ _ "sort_key mw_timestamp"], rule filter_cong [OF refl]) blast
  also have "\<dots> = ys"
  proof -
    have "filter (\<lambda>m. key_of m \<notin> key_of ` set xs) xs = []" by (simp add: filter_empty_conv)
    moreover have "filter (\<lambda>m. key_of m \<notin> key_of ` set xs) ys = ys"
      unfolding filter_id_conv
    proof
      fix m assume "m \<in> set ys"
      then have "key_of m \<in> set (map key_of ys)" by (simp del: set_map add: set_map)
      moreover have "set (map key_of xs) \<inter> set (map key_of ys) = {}" using dist unfolding map_append distinct_append by blast
      ultimately show "key_of m \<notin> key_of ` set xs" unfolding set_map by blast
    qed
    ultimately show ?thesis unfolding split by simp
  qed
  finally show ?thesis .
qed

lemma consolidateSession_spec:
  assumes fresh: "ids_fresh jo" and size: "0 < cc_chunkSize cfg" and D0: "cons_inv D0 D" "good_links (cc_chunkSize cfg) D0 D" and s: "s \<in> set (db_sessions D)"
  shows "hoareD (\<lambda>db. db = D) (consolidateSession cfg jo s)
    (\<lambda>_ db. cons_inv D db \<and> good_links (cc_chunkSize cfg) D0 db \<and> (\<forall>m \<in> set (db_working db). mw_session_id m = Some (ss_id s) \<longrightarrow> linked db m))
    (cons_inv D)"
proof (rule hoareDI)
  fix db assume "db = D"
  let ?n = "cc_chunkSize cfg" and ?sid = "ss_id s"
  let ?done = "\<lambda>db. cons_inv D db \<and> good_links ?n D0 db \<and> (\<forall>m \<in> set (db_working db). mw_session_id m = Some ?sid \<longrightarrow> linked db m)"
  have D: "cons_inv D D" using D0(1) by (rule cons_inv_base)
  have ok: "db_ok D" using D by (simp add: cons_inv_def)
  have fin: "?done db'" if "cons_inv D db'" "good_links ?n D0 db'" "linked_keys db' = linked_keys D \<union> key_of ` set (sessionMessages ?sid D)" for db'
  proof -
    have E: "extends D db'" using that(1) by (rule cons_inv_extends)
    have "sessionMessages ?sid db' = []" by (rule remaining_messages [OF ok E, of "sessionMessages ?sid D"]) (use that in simp_all)
    then have "set (sessionMessages ?sid db') = {}" by simp
    then have "\<forall>m \<in> set (db_working db'). mw_session_id m = Some ?sid \<longrightarrow> linked db' m" unfolding sessionMessages_def by auto
    then show ?thesis using that by blast
  qed
  consider "sessionMessages ?sid D = []" | "sessionMessages ?sid D \<noteq> []" "getChat (ss_chat_id s) D = None"
    | c where "sessionMessages ?sid D \<noteq> []" "getChat (ss_chat_id s) D = Some c" by fastforce
  then show "case consolidateSession cfg jo s db of (Inr x, db1) \<Rightarrow> ?done db1 | (Inl e, db1) \<Rightarrow> cons_inv D db1"
  proof cases
    case 1
    then show ?thesis using fin [OF D D0(2)] \<open>db = D\<close> by (simp add: consolidateSession_def db_op_simps)
  next
    case 2
    then show ?thesis using D \<open>db = D\<close> by (simp add: consolidateSession_def getProfileIdForChat_def bindD_def queryD_def)
  next
    case (3 c)
    obtain cs where cs: "chunkArray ?n (sessionMessages ?sid D) = Some cs" "concat cs = sessionMessages ?sid D" "\<forall>c \<in> set cs. c \<noteq> [] \<and> length c \<le> ?n"
      using chunkArray_total [OF size] by metis
    let ?I = "\<lambda>done db. cons_inv D db \<and> good_links ?n D0 db \<and> linked_keys db = linked_keys D \<union> key_of ` set (concat done)"
    have "hoareD (?I []) (forD cs (consolidateChunk cfg jo ?sid (ch_profile_id c))) (\<lambda>_. ?I cs) (cons_inv D)"
    proof (rule hoareD_for [where I = ?I], rule hoareDI)
      fix "done" x rest db1
      assume split: "cs = done @ x # rest" and I: "?I done db1"
      have E: "extends D db1" using I cons_inv_extends by blast
      have rem: "sessionMessages ?sid db1 = [] @ x @ concat rest"
        by (rule remaining_messages [OF ok E, of "concat done"]) (use I cs(2) split in auto)
      have x: "x \<noteq> []" "length x \<le> ?n" using cs(3) split by auto
      have s1: "s \<in> set (db_sessions db1)" "getChat (ss_chat_id s) db1 = Some c"
        using extends_same [OF E] s 3(2) by (simp_all add: getChat_def)
      have spec: "hoareD (\<lambda>db. db = db1) (consolidateChunk cfg jo ?sid (ch_profile_id c) x) (\<lambda>_. covers db1 ?sid x) (cons_inv db1)"
        by (rule consolidateChunk_spec [OF fresh _ rem x(1) s1(1) refl s1(2)]) (use I cons_inv_base in blast)
      have next_I: "?I (done @ [x]) db2" if "covers db1 ?sid x db2" for db2
      proof -
        have "cons_inv db1 db2" "linked_keys db2 = linked_keys db1 \<union> key_of ` set x" using that unfolding covers_def by blast+
        then show ?thesis using I good_links_step [OF _ that x(2), of D0] cons_inv_trans [of D db1 db2]
          unfolding concat_append concat.simps set_append image_Un append_Nil2 by blast
      qed
      obtain r db2 where run: "consolidateChunk cfg jo ?sid (ch_profile_id c) x db1 = (r, db2)" by force
      consider y where "r = Inr y" "covers db1 ?sid x db2" | e where "r = Inl e" "cons_inv db1 db2"
        using hoareD_result [OF spec refl run] by blast
      then show "case consolidateChunk cfg jo ?sid (ch_profile_id c) x db1 of (Inr y, db2) \<Rightarrow> ?I (done @ [x]) db2 | (Inl e, db2) \<Rightarrow> cons_inv D db2"
      proof cases
        case 1
        then show ?thesis unfolding run using next_I by simp
      next
        case 2
        have "cons_inv D db2" by (rule cons_inv_trans [OF _ 2(2)]) (use I in blast)
        then show ?thesis unfolding run 2(1) by simp
      qed
    qed
    then have loop: "hoareD (\<lambda>db. db = D) (forD cs (consolidateChunk cfg jo ?sid (ch_profile_id c))) (\<lambda>_. ?done) (cons_inv D)"
    proof (rule hoareD_weaken)
      show "?I [] db" if "db = D" for db using that D D0(2) by simp
      show "?done db" if "?I cs db" for db using that fin [of db] cs(2) by simp
    qed
    have run: "consolidateSession cfg jo s D = forD cs (consolidateChunk cfg jo ?sid (ch_profile_id c)) D"
      using 3 cs(1) by (simp add: consolidateSession_def getProfileIdForChat_def bindD_def queryD_def)
    show ?thesis unfolding \<open>db = D\<close> run using loop unfolding hoareD_def by simp
  qed
qed

lemma insert_sps_cases: "insert_sps e db = (Inl x, db') \<Longrightarrow> db' = db"
    "insert_sps e db = (Inr u, db') \<Longrightarrow> db' = db\<lparr>db_sps := db_sps db @ [e]\<rparr>"
  by (auto simp: insert_sps_def split: if_splits)

lemma summary_at_sps [simp]: "summary_at d (db\<lparr>db_sps := x\<rparr>) i = summary_at d db i"
  by (simp add: summary_at_def)

lemma link_children:
  fixes cs :: "'v SemanticRow list"
  assumes D: "cons_inv D0 D" and parent: "summary_at 1 D p" and children: "\<forall>c \<in> set cs. summary_at 0 D (sm_id c) \<and> sm_id c \<notin> snd ` set (db_sps D)"
    and dist: "distinct (map sm_id cs)"
  shows "hoareD (\<lambda>db. db = D) (forD cs (\<lambda>c. insert_sps (p, sm_id c))) (\<lambda>_ db. cons_inv D0 db \<and> db_sms db = db_sms D) (\<lambda>db. cons_inv D0 db \<and> db_sms db = db_sms D)"
proof -
  let ?J = "\<lambda>db. cons_inv D0 db \<and> db_sms db = db_sms D"
  let ?I = "\<lambda>(done :: 'v SemanticRow list) db. ?J db \<and> db_semantic db = db_semantic D \<and> snd ` set (db_sps db) = snd ` set (db_sps D) \<union> sm_id ` set done"
  have "hoareD (?I []) (forD cs (\<lambda>c. insert_sps (p, sm_id c))) (\<lambda>_. ?I cs) (\<lambda>db. ?J db)"
  proof (rule hoareD_for [where I = ?I], rule hoareDI)
    fix "done" c rest db
    assume split: "cs = done @ c # rest" and I: "?I done db"
    have "sm_id c \<notin> snd ` set (db_sps db)" using I children dist unfolding split by auto
    moreover have "summary_at 1 db p" "summary_at 0 db (sm_id c)" using I parent children unfolding split summary_at_def by auto
    ultimately have inv: "cons_inv D0 (snd (insert_sps (p, sm_id c) db))"
      using insert_sps_inv [of D0 db "(p, sm_id c)"] I by simp
    obtain r db1 where run: "insert_sps (p, sm_id c) db = (r, db1)" by force
    show "case insert_sps (p, sm_id c) db of (Inr x, db1) \<Rightarrow> ?I (done @ [c]) db1 | (Inl e, db1) \<Rightarrow> ?J db1"
    proof (cases r)
      case (Inl e)
      then show ?thesis using insert_sps_cases(1) [of "(p, sm_id c)" db e db1] run I by simp
    next
      case (Inr u)
      then have "db1 = db\<lparr>db_sps := db_sps db @ [(p, sm_id c)]\<rparr>" using insert_sps_cases(2) [of "(p, sm_id c)" db u db1] run by simp
      then show ?thesis using inv I unfolding run Inr by simp
    qed
  qed
  then show ?thesis by (rule hoareD_weaken) (use D in auto)
qed

lemma byEarliest_set [simp]: "set (byEarliest rs) = set rs"
  by (auto simp: byEarliest_def)

lemma byEarliest_distinct: "distinct (map sm_id rs) \<Longrightarrow> distinct (map sm_id (byEarliest rs))"
proof -
  assume d: "distinct (map sm_id rs)"
  let ?a = "filter (\<lambda>r. sm_earliest_at r \<noteq> None) rs" and ?b = "filter (\<lambda>r. sm_earliest_at r = None) rs"
  have "sm_id ` set ?a \<inter> sm_id ` set ?b = {}" using d unfolding distinct_map inj_on_def by fastforce
  then show ?thesis unfolding byEarliest_def map_append distinct_append
    by (intro conjI distinct_sorted_ids d distinct_map_filter) (simp_all add: d)
qed

lemma storeCondensed_spec:
  assumes fresh: "ids_fresh jo" and D: "cons_inv D0 D" and d0s: "set d0s \<subseteq> set (d0Summaries chatId D)" "distinct (map sm_id d0s)"
  shows "hoareD (\<lambda>db. db = D) (storeCondensed jo pid d0s condensed e) (\<lambda>_ db. cons_inv D0 db \<and> db_sms db = db_sms D) (\<lambda>db. cons_inv D0 db \<and> db_sms db = db_sms D)"
proof -
  let ?J = "\<lambda>db. cons_inv D0 db \<and> db_sms db = db_sms D"
  define row where "row = summaryRow (jo_newId jo D) condensed e 1 None pid (timeOr0 (sm_earliest_at (hd d0s))) (timeOr0 (sm_latest_at (last d0s))) (jo_now jo D)"
  let ?D1 = "D\<lparr>db_semantic := db_semantic D @ [row]\<rparr>"
  have row: "sm_id row \<notin> semantic_ids D" "sm_memory_type row = Summary" "sm_depth row = 1"
    using fresh by (simp_all add: row_def summaryRow_def ids_fresh_def)
  have children: "\<forall>c \<in> set d0s. summary_at 0 ?D1 (sm_id c) \<and> sm_id c \<notin> snd ` set (db_sps ?D1)"
  proof
    fix c assume "c \<in> set d0s"
    then have "c \<in> set (db_semantic D)" "uncondensed D c" using d0s(1) unfolding d0Summaries_def by auto
    then show "summary_at 0 ?D1 (sm_id c) \<and> sm_id c \<notin> snd ` set (db_sps ?D1)" unfolding uncondensed_def summary_at_def by auto
  qed
  have parent: "summary_at 1 ?D1 (sm_id row)" using row unfolding summary_at_def by auto
  show ?thesis
  proof (rule hoareDI)
    fix db assume "db = D"
    obtain r db1 where ins: "insertSemantic row D = (r, db1)" by force
    have run: "storeCondensed jo pid d0s condensed e db = bindD (insertSemantic row) (\<lambda>i. forD d0s (\<lambda>c. insert_sps (i, sm_id c))) D"
      unfolding storeCondensed_def bindD_simps \<open>db = D\<close> row_def by simp
    show "case storeCondensed jo pid d0s condensed e db of (Inr x, db1) \<Rightarrow> ?J db1 | (Inl e, db1) \<Rightarrow> ?J db1"
    proof (cases r)
      case (Inl x)
      then show ?thesis using D insertSemantic_failed [of row D x db1] ins unfolding run by (simp add: bindD_def)
    next
      case (Inr i)
      then have i: "i = sm_id row" "db1 = ?D1" using insertSemantic_ok [of row D i db1] ins by simp_all
      have inv: "cons_inv D0 ?D1" using insertSemantic_inv [OF D row(1)] ins i(2) by simp
      have "hoareD (\<lambda>db. db = ?D1) (forD d0s (\<lambda>c. insert_sps (sm_id row, sm_id c))) (\<lambda>_. ?J) ?J"
        using link_children [OF inv parent children d0s(2)] by simp
      then show ?thesis unfolding run bindD_def ins Inr i by (simp add: hoareD_def)
    qed
  qed
qed

lemma condenseSummaries_run:
  "(\<exists>r. condenseSummaries cfg jo chatId D = (r, D)) \<or>
   (\<exists>pid t e. condenseSummaries cfg jo chatId D = storeCondensed jo pid (d0Summaries chatId D) t e D)"
  unfolding condenseSummaries_def getProfileIdForChat_def bindD_def queryD_def summarize_def embed_def retD_def throwD_def
  by (simp split: option.split sum.split) blast

lemma condenseSummaries_maintains:
  assumes fresh: "ids_fresh jo"
  shows "maintains (\<lambda>db. cons_inv D0 db \<and> db_sms db = S) (condenseSummaries cfg jo chatId)"
proof (rule maintainsI)
  fix D assume D: "cons_inv D0 D \<and> db_sms D = S"
  have "distinct (map sm_id (d0Summaries chatId D))" unfolding d0Summaries_def
    by (rule byEarliest_distinct) (use D in \<open>simp add: cons_inv_def db_ok_def ids_distinct_def distinct_map_filter\<close>)
  then have "hoareD (\<lambda>db. db = D) (storeCondensed jo pid (d0Summaries chatId D) t e) (\<lambda>_ db. cons_inv D0 db \<and> db_sms db = db_sms D)
      (\<lambda>db. cons_inv D0 db \<and> db_sms db = db_sms D)" for pid t e
    using storeCondensed_spec [OF fresh conjunct1 [OF D] subset_refl] by blast
  then have "cons_inv D0 (snd (storeCondensed jo pid (d0Summaries chatId D) t e D)) \<and> db_sms (snd (storeCondensed jo pid (d0Summaries chatId D) t e D)) = S" for pid t e
    using D hoareD_both [of "\<lambda>db. db = D"] by blast
  then show "cons_inv D0 (snd (condenseSummaries cfg jo chatId D)) \<and> db_sms (snd (condenseSummaries cfg jo chatId D)) = S"
    using condenseSummaries_run [of cfg jo chatId D] D by auto
qed

lemma condenseIfReady_maintains:
  assumes "ids_fresh jo"
  shows "maintains (\<lambda>db. cons_inv D db \<and> db_sms db = S) (condenseIfReady cfg jo)"
  unfolding condenseIfReady_def by (intro maintains_bind maintains_for maintains_intros condenseSummaries_maintains [OF assms])

lemma state_irrelevant: "db_ok (db\<lparr>db_state := x\<rparr>) = db_ok db" "summary_forest (db\<lparr>db_state := x\<rparr>) = summary_forest db"
  by (simp_all add: db_ok_def ids_distinct_def joins_ok_def profile_refs_def profile_ids_def semantic_ids_def meta_ids_def message_keys_def
      summary_forest_def summary_at_def)

lemma setState_maintains: "maintains (\<lambda>db. cons_inv D db \<and> db_sms db = S) (setState k v)"
proof (rule maintainsI)
  fix db :: "'a Db" assume I: "cons_inv D db \<and> db_sms db = S"
  let ?db = "db\<lparr>db_state := js_set k v (db_state db)\<rparr>"
  have "extends db ?db" by (auto simp: extends_def)
  then have "extends D ?db" using I db_extends_trans unfolding cons_inv_def by blast
  then show "cons_inv D (snd (setState k v db)) \<and> db_sms (snd (setState k v db)) = S"
    using I by (simp add: setState_def execD_def cons_inv_def state_irrelevant)
qed

lemma linked_extends: "extends D db \<Longrightarrow> linked D m \<Longrightarrow> linked db m"
  using extendsD(2) unfolding linked_def by blast

lemma sessions_loop:
  assumes fresh: "ids_fresh jo" and size: "0 < cc_chunkSize cfg" and D: "cons_inv D D" and ss: "set ss \<subseteq> set (db_sessions D)"
  shows "hoareD (\<lambda>db. db = D) (forD ss (consolidateSession cfg jo))
    (\<lambda>_ db. cons_inv D db \<and> good_links (cc_chunkSize cfg) D db \<and>
       (\<forall>s \<in> set ss. \<forall>m \<in> set (db_working D). mw_session_id m = Some (ss_id s) \<longrightarrow> linked db m)) (cons_inv D)"
proof -
  let ?I = "\<lambda>(done :: SessionRow list) db. cons_inv D db \<and> good_links (cc_chunkSize cfg) D db \<and>
       (\<forall>s \<in> set done. \<forall>m \<in> set (db_working D). mw_session_id m = Some (ss_id s) \<longrightarrow> linked db m)"
  have "hoareD (?I []) (forD ss (consolidateSession cfg jo)) (\<lambda>_. ?I ss) (cons_inv D)"
  proof (rule hoareD_for [where I = ?I], rule hoareDI)
    fix "done" s rest db
    assume split: "ss = done @ s # rest" and I: "?I done db"
    have E: "extends D db" using I cons_inv_extends by blast
    have same: "db_working db = db_working D" using extends_same [OF E] by simp
    have s: "s \<in> set (db_sessions db)" using ss split extends_same [OF E] by auto
    have inv: "cons_inv D db" "good_links (cc_chunkSize cfg) D db" using I by blast+
    note spec = consolidateSession_spec [OF fresh size inv s]
    obtain r db2 where run: "consolidateSession cfg jo s db = (r, db2)" by force
    consider y where "r = Inr y" "cons_inv db db2" "good_links (cc_chunkSize cfg) D db2"
        "\<forall>m \<in> set (db_working db2). mw_session_id m = Some (ss_id s) \<longrightarrow> linked db2 m" | e where "r = Inl e" "cons_inv db db2"
      using hoareD_result [OF spec refl run] by blast
    then show "case consolidateSession cfg jo s db of (Inr y, db2) \<Rightarrow> ?I (done @ [s]) db2 | (Inl e, db2) \<Rightarrow> cons_inv D db2"
    proof cases
      case 1
      have "db_working db2 = db_working D" using extends_same [OF cons_inv_extends [OF 1(2)]] same by simp
      then have "?I (done @ [s]) db2"
        using 1 I cons_inv_trans [OF inv(1) 1(2)] linked_extends [OF cons_inv_extends [OF 1(2)]] by auto
      then show ?thesis unfolding run 1(1) by simp
    next
      case 2
      then show ?thesis unfolding run 2(1) using cons_inv_trans [OF inv(1) 2(2)] by simp
    qed
  qed
  then show ?thesis by (rule hoareD_weaken) (use D in \<open>auto simp: good_links_def\<close>)
qed

lemma runConsolidation_spec:
  assumes fresh: "ids_fresh jo" and size: "0 < cc_chunkSize cfg" and D: "db_ok D" "summary_forest D"
  shows "hoareD (\<lambda>db. db = D) (runConsolidation cfg jo False)
    (\<lambda>n db. cons_inv D db \<and> (cc_minUnconsolidatedMessages cfg \<le> unconsolidatedCount D \<longrightarrow>
       n = length (pendingSessions D) \<and> good_links (cc_chunkSize cfg) D db \<and>
       (\<forall>s \<in> set (pendingSessions D). \<forall>m \<in> set (db_working D). mw_session_id m = Some (ss_id s) \<longrightarrow> linked db m))) (cons_inv D)"
proof (cases "unconsolidatedCount D < cc_minUnconsolidatedMessages cfg")
  case True
  then show ?thesis using cons_inv_refl [OF D] by (simp add: hoareD_def runConsolidation_def bindD_simps retD_def)
next
  case False
  let ?n = "cc_chunkSize cfg" and ?ss = "pendingSessions D"
  let ?A = "\<lambda>db. cons_inv D db \<and> good_links ?n D db \<and> (\<forall>s \<in> set ?ss. \<forall>m \<in> set (db_working D). mw_session_id m = Some (ss_id s) \<longrightarrow> linked db m)"
  have D': "cons_inv D D" by (rule cons_inv_refl [OF D])
  have sub: "set ?ss \<subseteq> set (db_sessions D)" by (auto simp: pendingSessions_def)
  have keep: "hoareD ?A m (\<lambda>_. ?A) (cons_inv D)" if "\<And>D' S. maintains (\<lambda>db. cons_inv D' db \<and> db_sms db = S) m" for m :: "('a, unit) db_op"
  proof (rule hoareDI)
    fix db assume A: "?A db"
    obtain r db2 where run: "m db = (r, db2)" by force
    have k: "cons_inv db db2" "db_sms db2 = db_sms db"
      using maintainsD [OF that [of db "db_sms db"], of db] A cons_inv_base [of D db] run by auto
    have "?A db2" using A cons_inv_trans [OF _ k(1)] good_links_mono [OF _ k] k(2) unfolding linked_def by auto
    then show "case m db of (Inr x, db1) \<Rightarrow> ?A db1 | (Inl e, db1) \<Rightarrow> cons_inv D db1" unfolding run by (cases r) simp_all
  qed
  have "hoareD (\<lambda>db. db = D) (bindD (forD ?ss (consolidateSession cfg jo)) (\<lambda>_.
          bindD (queryD (\<lambda>db. show_int (jo_now jo db))) (\<lambda>t.
          bindD (setState ''last_consolidation_at'' t) (\<lambda>_.
          bindD (condenseIfReady cfg jo) (\<lambda>_. retD (length ?ss)))))) (\<lambda>n db. n = length ?ss \<and> ?A db) (cons_inv D)"
  proof (rule hoareD_bind [OF sessions_loop [OF fresh size D' sub]], rule hoareD_bind [where R = "\<lambda>_. ?A"])
    show "hoareD ?A (queryD (\<lambda>db. show_int (jo_now jo db))) (\<lambda>_. ?A) (cons_inv D)" by (rule hoareD_query)
    show "hoareD ?A (bindD (setState ''last_consolidation_at'' t) (\<lambda>_. bindD (condenseIfReady cfg jo) (\<lambda>_. retD (length ?ss))))
       (\<lambda>n db. n = length ?ss \<and> ?A db) (cons_inv D)" for t
    proof (rule hoareD_bind [where R = "\<lambda>_. ?A"])
      show "hoareD ?A (setState ''last_consolidation_at'' t) (\<lambda>_. ?A) (cons_inv D)" by (rule keep [OF setState_maintains])
      show "hoareD ?A (bindD (condenseIfReady cfg jo) (\<lambda>_. retD (length ?ss))) (\<lambda>n db. n = length ?ss \<and> ?A db) (cons_inv D)"
      proof (rule hoareD_bind [where R = "\<lambda>_. ?A"])
        show "hoareD ?A (condenseIfReady cfg jo) (\<lambda>_. ?A) (cons_inv D)" by (rule keep [OF condenseIfReady_maintains [OF fresh]])
      qed (rule hoareD_ret, simp)
    qed
  qed
  then show ?thesis using False by (simp add: hoareD_def runConsolidation_def bindD_simps split: prod.splits sum.splits)
qed

section \<open>Properties\<close>

lemma pending_covers:
  assumes "ended db sid" "m \<in> set (db_working db)" "mw_session_id m = Some sid" "\<not> linked db m"
  shows "\<exists>s \<in> set (pendingSessions db). ss_id s = sid"
  using assms unfolding ended_def pendingSessions_def by auto

text \<open>
  C26. After a run that had enough messages to work on and did not fail, every message of an ended session belongs to exactly one
  summary; and when it had none before, expanding that summary gives back a chunk of its session, no longer than the
  configured size, in which the message is, under the profile of the session's chat and with the times of its first
  and its last message.
\<close>

theorem consolidation_complete:
  assumes "ids_fresh jo" "0 < cc_chunkSize cfg" "db_ok db" "summary_forest db"
    "cc_minUnconsolidatedMessages cfg \<le> unconsolidatedCount db" "runConsolidation cfg jo False db = (Inr n, db')"
    "m \<in> set (db_working db)" "mw_session_id m = Some sid" "ended db sid"
  shows "n = length (pendingSessions db) \<and> (\<exists>!i. (i, mw_id m, mw_chat_id m) \<in> set (db_sms db')) \<and>
    (linked db m \<or> (\<exists>i chunk. (i, mw_id m, mw_chat_id m) \<in> set (db_sms db') \<and> summarises db' i sid chunk \<and> m \<in> set chunk \<and>
       length chunk \<le> cc_chunkSize cfg))"
proof -
  note post = hoareD_ok [OF runConsolidation_spec [OF assms(1-4)] refl assms(6)]
  have inv: "cons_inv db db'" and n: "n = length (pendingSessions db)" and good: "good_links (cc_chunkSize cfg) db db'"
    and all: "\<forall>s \<in> set (pendingSessions db). \<forall>m \<in> set (db_working db). mw_session_id m = Some (ss_id s) \<longrightarrow> linked db' m"
    using post assms(5) by blast+
  have E: "extends db db'" using inv by (rule cons_inv_extends)
  have l: "linked db' m"
  proof (cases "linked db m")
    case True
    then show ?thesis by (rule linked_extends [OF E])
  next
    case False
    then show ?thesis using pending_covers [OF assms(9,7,8)] all assms(7,8) by blast
  qed
  then obtain e where e: "e \<in> set (db_sms db')" "snd e = key_of m" unfolding linked_def by fastforce
  have "inj_on snd (set (db_sms db'))" using inv unfolding cons_inv_def summary_forest_def by blast
  then have ex1: "\<exists>!i. (i, mw_id m, mw_chat_id m) \<in> set (db_sms db')"
    using e inj_onD [of snd "set (db_sms db')"] by (metis prod.collapse fst_conv snd_conv)
  have "\<exists>i chunk. (i, mw_id m, mw_chat_id m) \<in> set (db_sms db') \<and> summarises db' i sid chunk \<and> m \<in> set chunk \<and> length chunk \<le> cc_chunkSize cfg"
    if "\<not> linked db m"
  proof -
    have "e \<notin> set (db_sms db)" using that e(2) unfolding linked_def by force
    then obtain sid' chunk where c: "summarises db' (fst e) sid' chunk" "snd e \<in> key_of ` set chunk" "length chunk \<le> cc_chunkSize cfg"
      using good e(1) unfolding good_links_def by blast
    obtain x where x: "x \<in> set chunk" "key_of x = key_of m" using c(2) unfolding e(2) by fastforce
    have xs: "x \<in> set (db_working db')" "mw_session_id x = Some sid'" using c(1) x(1) unfolding summarises_def by blast+
    have "db_ok db'" using inv by (simp add: cons_inv_def)
    then have "x = m" using inj_onD [OF keys_inj, of db' x m] xs(1) x(2) assms(7) extends_same(3) [OF E] by simp
    then have "sid' = sid" "m \<in> set chunk" using xs(2) assms(8) x(1) by auto
    moreover have "(fst e, mw_id m, mw_chat_id m) \<in> set (db_sms db')" using e by (metis prod.collapse)
    ultimately show ?thesis using c(1,3) by blast
  qed
  then show ?thesis using n ex1 by blast
qed

lemma runConsolidation_inv:
  assumes "ids_fresh jo" "0 < cc_chunkSize cfg" "db_ok db" "summary_forest db"
  shows "cons_inv db (snd (runConsolidation cfg jo running db))"
proof (cases running)
  case True
  then show ?thesis using assms(3,4) by (simp add: runConsolidation_def retD_def cons_inv_refl)
next
  case False
  obtain r db' where run: "runConsolidation cfg jo False db = (r, db')" by force
  from hoareD_result [OF runConsolidation_spec [OF assms] refl run] show ?thesis using False run by auto
qed

text \<open>
  C27. However a run ends, wherever it fails and whatever the provider answers: the messages, sessions, chats and profiles are as before,
  the memories and links that were there are still there, the constraints of the schema hold, no message has two summaries, no
  summary has two parents, and parents are one level above their children.
\<close>

theorem consolidation_keeps:
  assumes "ids_fresh jo" "0 < cc_chunkSize cfg" "db_ok db" "summary_forest db" "runConsolidation cfg jo running db = (r, db')"
  shows "db_ok db' \<and> summary_forest db' \<and> db_working db' = db_working db \<and> db_sessions db' = db_sessions db \<and> db_chats db' = db_chats db \<and>
    db_profiles db' = db_profiles db \<and> db_meta db' = db_meta db \<and> (\<exists>rs. db_semantic db' = db_semantic db @ rs) \<and>
    set (db_sms db) \<subseteq> set (db_sms db') \<and> set (db_sps db) \<subseteq> set (db_sps db')"
proof -
  have "cons_inv db db'" using runConsolidation_inv [OF assms(1-4), of running] assms(5) by simp
  then have "extends db db'" "db_ok db'" "summary_forest db'" by (simp_all add: cons_inv_def)
  then show ?thesis using extends_same [of db db'] extendsD(1,2,4) [of db db'] by simp
qed

text \<open>
  C28. After a run that had enough messages to work on and did not fail, a second run on the database that it left does nothing at all: it makes
  no call, and the database stays as it is.
\<close>

theorem consolidation_once:
  assumes "ids_fresh jo" "0 < cc_chunkSize cfg" "db_ok db" "summary_forest db" "0 < cc_minUnconsolidatedMessages cfg"
    "cc_minUnconsolidatedMessages cfg \<le> unconsolidatedCount db" "runConsolidation cfg jo False db = (Inr n, db')"
  shows "runConsolidation cfg jo2 False db' = (Inr 0, db')"
proof -
  note post = hoareD_ok [OF runConsolidation_spec [OF assms(1-4)] refl assms(7)]
  have E: "extends db db'" using post cons_inv_extends by blast
  have all: "\<forall>s \<in> set (pendingSessions db). \<forall>m \<in> set (db_working db). mw_session_id m = Some (ss_id s) \<longrightarrow> linked db' m"
    using post assms(6) by blast
  have l: "linked db' m" if "m \<in> set (db_working db)" "mw_session_id m = Some sid" "ended db sid" for m sid
    using linked_extends [OF E, of m] pending_covers [OF that(3,1,2)] all that(1,2) by blast
  have "unconsolidatedCount db' = 0"
    unfolding unconsolidatedCount_def extends_ends [OF E] extends_same(3) [OF E] using l by (auto simp: filter_empty_conv split: option.split)
  then show ?thesis using assms(5) by (simp add: runConsolidation_def bindD_simps retD_def)
qed

text \<open>
  C29. The trigger counts only sessions of which nothing is summarised yet. When a run has failed within a session, the messages of
  that session that are left are not counted: however many there are, no later run looks at them until enough messages of other
  sessions have come.
\<close>

theorem interrupted_session_waits:
  assumes "0 < cc_minUnconsolidatedMessages cfg"
    "\<And>m sid. m \<in> set (db_working db) \<Longrightarrow> mw_session_id m = Some sid \<Longrightarrow> ended db sid \<Longrightarrow>
       \<exists>m2 \<in> set (db_working db). mw_session_id m2 = Some sid \<and> linked db m2"
  shows "runConsolidation cfg jo False db = (Inr 0, db)"
proof -
  have "unconsolidatedCount db = 0" unfolding unconsolidatedCount_def using assms(2) by (auto simp: filter_empty_conv split: option.split)
  then show ?thesis using assms(1) by (simp add: runConsolidation_def bindD_simps retD_def)
qed

text \<open>
  Summaries are counted by session, not by chat: when no session has enough of them by itself, nothing is condensed, however
  many summaries the sessions of a chat have together.
\<close>

theorem short_sessions_never_condensed:
  assumes "\<And>s. s \<in> set (db_sessions db) \<Longrightarrow>
      length (filter (\<lambda>r. uncondensed db r \<and> sm_source_session r = Some (ss_id s)) (db_semantic db)) < cc_consolidationThreshold cfg"
  shows "condenseIfReady cfg jo db = (Inr (), db)"
proof -
  have "condensationCandidates (cc_consolidationThreshold cfg) db = []"
    unfolding condensationCandidates_def using assms by (fastforce simp: filter_empty_conv not_le)
  then show ?thesis by (simp add: condenseIfReady_def bindD_simps retD_def)
qed

lemma forD_sps_links:
  assumes "forD cs (\<lambda>c. insert_sps (p, sm_id c)) db = (Inr u, db')"
  shows "db_semantic db' = db_semantic db \<and> (\<forall>c \<in> set cs. (p, sm_id c) \<in> set (db_sps db')) \<and> set (db_sps db) \<subseteq> set (db_sps db')"
  using assms
proof (induction cs arbitrary: db)
  case Nil
  then show ?case by (simp add: retD_def)
next
  case (Cons c cs)
  obtain r db1 where run: "insert_sps (p, sm_id c) db = (r, db1)" by force
  then obtain x where "r = Inr x" using Cons.prems by (cases r) (auto simp: bindD_def)
  then have db1: "db1 = db\<lparr>db_sps := db_sps db @ [(p, sm_id c)]\<rparr>" using insert_sps_cases(2) run by blast
  have "forD cs (\<lambda>c. insert_sps (p, sm_id c)) db1 = (Inr u, db')" using Cons.prems run \<open>r = Inr x\<close> by (simp add: bindD_def)
  from Cons.IH [OF this] show ?case unfolding db1 by auto
qed

text \<open>The summaries of a chat that wait to be condensed, in the terms of the tables.\<close>

definition awaits :: "'v Db \<Rightarrow> string \<Rightarrow> 'v SemanticRow \<Rightarrow> bool" where
  "awaits db chatId r \<longleftrightarrow> sm_memory_type r = Summary \<and> sm_depth r = 0 \<and> (\<forall>l \<in> set (db_sps db). snd l \<noteq> sm_id r) \<and>
     (\<exists>s \<in> set (db_sessions db). ss_chat_id s = chatId \<and> sm_source_session r = Some (ss_id s))"

lemma d0Summaries_awaits: "d0Summaries chatId db = byEarliest (filter (awaits db chatId) (db_semantic db))"
proof -
  have "awaits db chatId r \<longleftrightarrow> uncondensed db r \<and> (\<exists>s \<in> set (db_sessions db). sm_source_session r = Some (ss_id s) \<and> ss_chat_id s = chatId)" for r
    unfolding awaits_def uncondensed_def by (auto simp: image_iff)
  then have "awaits db chatId = (\<lambda>r. uncondensed db r \<and> (\<exists>s \<in> set (db_sessions db). sm_source_session r = Some (ss_id s) \<and> ss_chat_id s = chatId))"
    by (intro ext) blast
  then show ?thesis unfolding d0Summaries_def by simp
qed

lemma byEarliest_length: "length (byEarliest rs) = length rs"
  using sum_length_filter_compl [of "\<lambda>r. sm_earliest_at r \<noteq> None" rs] by (simp add: byEarliest_def)

lemma condensed_summary:
  assumes "getChat chatId db = Some c" "cc_consolidationThreshold cfg \<le> length (d0Summaries chatId db)"
    "condenseSummaries cfg jo chatId db = (Inr (), db')" "r \<in> set (d0Summaries chatId db)"
  shows "\<exists>p \<in> set (db_semantic db'). sm_profile_id p = ch_profile_id c \<and> (sm_id p, sm_id r) \<in> set (db_sps db') \<and>
    jo_summarize jo db (numbered (map sm_content (d0Summaries chatId db)))
      \<lparr>su_model = cc_consolidationModel cfg, su_maxTokens = cc_d1MaxTokens cfg, su_systemPrompt = D1_SYSTEM_PROMPT\<rparr> = Inr (sm_content p)"
proof -
  obtain t e where t: "jo_summarize jo db (numbered (map sm_content (d0Summaries chatId db)))
      \<lparr>su_model = cc_consolidationModel cfg, su_maxTokens = cc_d1MaxTokens cfg, su_systemPrompt = D1_SYSTEM_PROMPT\<rparr> = Inr t"
    and run: "storeCondensed jo (ch_profile_id c) (d0Summaries chatId db) t e db = (Inr (), db')"
    using assms(1-3) unfolding condenseSummaries_def getProfileIdForChat_def bindD_def queryD_def summarize_def embed_def retD_def throwD_def
    by (auto split: sum.splits)
  define row where "row = summaryRow (jo_newId jo db) t e 1 None (ch_profile_id c) (timeOr0 (sm_earliest_at (hd (d0Summaries chatId db))))
    (timeOr0 (sm_latest_at (last (d0Summaries chatId db)))) (jo_now jo db)"
  have run1: "bindD (insertSemantic row) (\<lambda>i. forD (d0Summaries chatId db) (\<lambda>c. insert_sps (i, sm_id c))) db = (Inr (), db')"
    using run unfolding storeCondensed_def bindD_simps row_def .
  obtain x db1 where ins: "insertSemantic row db = (x, db1)" by force
  then obtain i where "x = Inr i" using run1 by (cases x) (auto simp: bindD_def)
  then have i: "i = sm_id row" "db1 = db\<lparr>db_semantic := db_semantic db @ [row]\<rparr>" using insertSemantic_ok ins by blast+
  have "forD (d0Summaries chatId db) (\<lambda>c. insert_sps (sm_id row, sm_id c)) db1 = (Inr (), db')"
    using run1 ins \<open>x = Inr i\<close> i(1) by (simp add: bindD_def)
  from forD_sps_links [OF this] have "row \<in> set (db_semantic db')" "(sm_id row, sm_id r) \<in> set (db_sps db')"
    using assms(4) unfolding i(2) by auto
  moreover have "sm_profile_id row = ch_profile_id c" "sm_content row = t" by (simp_all add: row_def summaryRow_def)
  ultimately show ?thesis using t by blast
qed

text \<open>
  C30. A summary of a chat that belongs to another profile than the one that the chat has now is condensed with the others, and the result goes
  to the present profile: when the chat was switched in between, the text of what one profile remembers is made into a memory of another.
\<close>

theorem condensation_mixes_profiles:
  assumes "getChat chatId db = Some c" "cc_consolidationThreshold cfg \<le> length (filter (awaits db chatId) (db_semantic db))"
    "condenseSummaries cfg jo chatId db = (Inr (), db')" "r \<in> set (db_semantic db)" "awaits db chatId r" "sm_profile_id r \<noteq> ch_profile_id c"
  shows "\<exists>p \<in> set (db_semantic db'). sm_profile_id p = ch_profile_id c \<and> sm_profile_id p \<noteq> sm_profile_id r \<and>
    (sm_id p, sm_id r) \<in> set (db_sps db') \<and>
    (\<exists>texts. sm_content r \<in> set texts \<and> jo_summarize jo db (numbered texts)
      \<lparr>su_model = cc_consolidationModel cfg, su_maxTokens = cc_d1MaxTokens cfg, su_systemPrompt = D1_SYSTEM_PROMPT\<rparr> = Inr (sm_content p))"
proof -
  have r: "r \<in> set (d0Summaries chatId db)" using assms(4,5) by (simp add: d0Summaries_awaits)
  then have "sm_content r \<in> set (map sm_content (d0Summaries chatId db))" by simp
  moreover have "cc_consolidationThreshold cfg \<le> length (d0Summaries chatId db)" using assms(2) by (simp add: d0Summaries_awaits byEarliest_length)
  ultimately show ?thesis using condensed_summary [OF assms(1) _ assms(3) r] assms(6) by metis
qed

section \<open>Witnesses\<close>

definition example_turn :: "string \<Rightarrow> string \<Rightarrow> time \<Rightarrow> MessageRow" where
  "example_turn i sid t = \<lparr>mw_id = i, mw_chat_id = ''c'', mw_sender_id = ''u'', mw_sender_name = ''Ann'', mw_content = Some ''hi'', mw_audio_path = None,
     mw_image_path = None, mw_reply_to_id = None, mw_timestamp = t, mw_is_from_me = False, mw_is_bot_message = False, mw_session_id = Some sid\<rparr>"

definition example_ended :: "string list \<Rightarrow> (string \<times> string) list \<Rightarrow> unit Db" where
  "example_ended sids ms = emptyDb\<lparr>
     db_profiles := [\<lparr>ap_id = ''p'', ap_name = ''default'', ap_description = None, ap_is_default = True, ap_created_at = 1, ap_updated_at = 1\<rparr>,
       \<lparr>ap_id = ''q'', ap_name = ''private'', ap_description = None, ap_is_default = False, ap_created_at = 1, ap_updated_at = 1\<rparr>],
     db_chats := [\<lparr>ch_id = ''c'', ch_channel = ''telegram'', ch_external_id = ''1'', ch_name = None, ch_is_group = False, ch_profile_id = ''p'',
       ch_created_at = 1, ch_updated_at = 1\<rparr>],
     db_sessions := map (\<lambda>s. \<lparr>ss_id = s, ss_chat_id = ''c'', ss_started_at = 1, ss_ended_at = Some 9\<rparr>) sids,
     db_working := map (\<lambda>(i, s). example_turn i s 5) ms\<rparr>"

lemmas example_ended_simps = example_ended_def emptyDb_def example_turn_def

definition example_cfg :: ConsolidationConfig where
  "example_cfg = \<lparr>cc_consolidationModel = ''m'', cc_minUnconsolidatedMessages = 1, cc_chunkSize = 2, cc_consolidationThreshold = 2,
     cc_d0MaxTokens = 300, cc_d1MaxTokens = 400\<rparr>"

definition example_session :: "unit Db" where
  "example_session = example_ended [''s''] [(''1'', ''s''), (''2'', ''s''), (''3'', ''s'')]"

definition example_answers :: "unit JobServices" where
  "example_answers = example_jobs (\<lambda>db t opts. Inr ''greetings'') (\<lambda>s. None)"

lemma example_session_ok: "db_ok example_session" "summary_forest example_session"
  by (auto simp: example_session_def example_ended_simps db_ok_def ids_distinct_def joins_ok_def profile_refs_def profile_ids_def summary_forest_def)

lemma example_answers_fresh: "ids_fresh example_answers"
  unfolding example_answers_def by (rule example_jobs_fresh)

lemma example_run: "fst (runConsolidation example_cfg example_answers False example_session) = Inr 1"
    "cc_minUnconsolidatedMessages example_cfg \<le> unconsolidatedCount example_session"
    "example_turn ''3'' ''s'' 5 \<in> set (db_working example_session)" "ended example_session ''s''"
  by (code_simp, code_simp, code_simp, simp add: ended_def example_session_def example_ended_def)

theorem consolidation_complete_witness:
  "\<exists>db' i chunk. runConsolidation example_cfg example_answers False example_session = (Inr 1, db') \<and> summarises db' i ''s'' chunk \<and>
     example_turn ''3'' ''s'' 5 \<in> set chunk \<and> length chunk \<le> 2"
proof -
  obtain db' where run: "runConsolidation example_cfg example_answers False example_session = (Inr 1, db')"
    using example_run(1) by (metis prod.collapse)
  have "\<not> linked example_session (example_turn ''3'' ''s'' 5)" "mw_session_id (example_turn ''3'' ''s'' 5) = Some ''s''" "cc_chunkSize example_cfg = 2"
    by (simp_all add: linked_def example_session_def example_ended_simps example_cfg_def)
  then show ?thesis
    using consolidation_complete [OF example_answers_fresh _ example_session_ok example_run(2) run example_run(3) _ example_run(4)] run by auto
qed

text \<open>The provider fails after the first chunk.\<close>

definition example_overload :: "unit JobServices" where
  "example_overload = example_jobs (\<lambda>db t opts. if db_sms db = [] then Inr ''greetings'' else Inl ''overloaded'') (\<lambda>s. None)"

lemma example_failure:
  "fst (runConsolidation example_cfg example_overload False example_session) = Inl (Thrown ''overloaded'')"
  "map snd (db_sms (snd (runConsolidation example_cfg example_overload False example_session))) = [(''1'', ''c''), (''2'', ''c'')]"
  by code_simp+

theorem consolidation_keeps_witness:
  "\<exists>db'. runConsolidation example_cfg example_overload False example_session = (Inl (Thrown ''overloaded''), db') \<and> db_ok db' \<and> summary_forest db' \<and>
     length (db_sms db') = 2"
proof -
  obtain db' where run: "runConsolidation example_cfg example_overload False example_session = (Inl (Thrown ''overloaded''), db')"
    using example_failure(1) by (metis prod.collapse)
  have "ids_fresh example_overload" unfolding example_overload_def by (rule example_jobs_fresh)
  then have "db_ok db' \<and> summary_forest db'"
    using consolidation_keeps [OF _ _ example_session_ok run] by (simp add: example_cfg_def)
  moreover have "length (db_sms db') = 2" using arg_cong [OF example_failure(2), of length] run by simp
  ultimately show ?thesis using run by blast
qed

theorem consolidation_once_witness:
  "\<exists>db'. runConsolidation example_cfg example_answers False example_session = (Inr 1, db') \<and>
     runConsolidation example_cfg example_overload False db' = (Inr 0, db')"
proof -
  obtain db' where run: "runConsolidation example_cfg example_answers False example_session = (Inr 1, db')"
    using example_run(1) by (metis prod.collapse)
  then show ?thesis
    using consolidation_once [OF example_answers_fresh _ example_session_ok _ example_run(2) run, of example_overload] by (simp add: example_cfg_def)
qed

theorem interrupted_session_waits_witness:
  "\<exists>db'. runConsolidation example_cfg example_overload False example_session = (Inl (Thrown ''overloaded''), db') \<and>
     example_turn ''3'' ''s'' 5 \<in> set (db_working db') \<and> \<not> linked db' (example_turn ''3'' ''s'' 5) \<and>
     runConsolidation example_cfg example_answers False db' = (Inr 0, db')"
proof -
  let ?db = "snd (runConsolidation example_cfg example_overload False example_session)"
  have w: "db_working ?db = db_working example_session" by code_simp
  have links: "snd ` set (db_sms ?db) = {(''1'', ''c''), (''2'', ''c'')}"
    using arg_cong [OF example_failure(2), of set] by simp
  have first: "example_turn ''1'' ''s'' 5 \<in> set (db_working ?db)" "linked ?db (example_turn ''1'' ''s'' 5)"
    unfolding w linked_def links by (simp_all add: example_session_def example_ended_simps)
  have "mw_session_id m = Some ''s''" if "m \<in> set (db_working ?db)" for m
    using that unfolding w by (auto simp: example_session_def example_ended_simps)
  then have "runConsolidation example_cfg example_answers False ?db = (Inr 0, ?db)"
    using first by (intro interrupted_session_waits) (auto simp: example_cfg_def example_turn_def)
  moreover have "example_turn ''3'' ''s'' 5 \<in> set (db_working ?db)" "\<not> linked ?db (example_turn ''3'' ''s'' 5)"
    unfolding w linked_def links by (simp_all add: example_session_def example_ended_simps)
  ultimately show ?thesis using example_failure(1) by (metis prod.collapse)
qed

definition example_summaries :: "string \<Rightarrow> unit Db" where
  "example_summaries owner = (example_ended [''s'', ''t''] [])\<lparr>db_semantic :=
     [summaryRow ''a'' ''monday'' () 0 (Some ''s'') owner 1 2 9, summaryRow ''b'' ''tuesday'' () 0 (Some ''t'') ''p'' 3 4 9]\<rparr>"

theorem short_sessions_never_condensed_witness:
  "length (d0Summaries ''c'' (example_summaries ''p'')) = cc_consolidationThreshold example_cfg \<and>
   condenseIfReady example_cfg example_answers (example_summaries ''p'') = (Inr (), example_summaries ''p'')"
proof (intro conjI short_sessions_never_condensed)
  show "length (d0Summaries ''c'' (example_summaries ''p'')) = cc_consolidationThreshold example_cfg" by code_simp
  fix s assume "s \<in> set (db_sessions (example_summaries ''p''))"
  then show "length (filter (\<lambda>r. uncondensed (example_summaries ''p'') r \<and> sm_source_session r = Some (ss_id s)) (db_semantic (example_summaries ''p'')))
      < cc_consolidationThreshold example_cfg"
    by (auto simp: example_summaries_def example_ended_simps summaryRow_def example_cfg_def)
qed

theorem condensation_mixes_profiles_witness:
  "\<exists>db'. condenseSummaries example_cfg example_answers ''c'' (example_summaries ''q'') = (Inr (), db') \<and>
     (\<exists>p \<in> set (db_semantic db'). sm_profile_id p = ''p'' \<and> (sm_id p, ''a'') \<in> set (db_sps db') \<and> sm_content p = ''greetings'')"
proof -
  let ?db = "example_summaries ''q''" and ?r = "summaryRow ''a'' ''monday'' () 0 (Some ''s'') ''q'' 1 2 9"
  have "fst (condenseSummaries example_cfg example_answers ''c'' ?db) = Inr ()" by code_simp
  then obtain db' where run: "condenseSummaries example_cfg example_answers ''c'' ?db = (Inr (), db')" by (metis prod.collapse)
  have c: "getChat ''c'' ?db = Some (hd (db_chats ?db))" "ch_profile_id (hd (db_chats ?db)) = ''p''"
    by (simp_all add: getChat_def example_summaries_def example_ended_simps)
  have "cc_consolidationThreshold example_cfg \<le> length (filter (awaits ?db ''c'') (db_semantic ?db))"
    by (simp add: example_cfg_def awaits_def example_summaries_def example_ended_simps summaryRow_def)
  moreover have "?r \<in> set (db_semantic ?db)" "awaits ?db ''c'' ?r" "sm_profile_id ?r \<noteq> ch_profile_id (hd (db_chats ?db))"
    by (simp_all add: awaits_def example_summaries_def example_ended_simps summaryRow_def)
  ultimately show ?thesis using condensation_mixes_profiles [OF c(1) _ run, of ?r] run c(2)
    by (auto simp: example_answers_def example_jobs_def summaryRow_def)
qed

end
