(* ===== verification/Xml_Text.thy ===== *)
theory Xml_Text
  imports Prelude Complex_Main
begin

text \<open>
  The text of the agent's context: \<open>escapeXml\<close> (the same function in \<^verbatim>\<open>src/src/orchestrator/memory.ts\<close> and
  \<^verbatim>\<open>identity.ts\<close>), \<^verbatim>\<open>Number.toFixed\<close>, and a reader for marked-up text with its laws. Shown: escaping can be
  undone, and reading a text built from elements with escaped contents gives back the contents.
\<close>

section \<open>Escaping\<close>

definition replace_char :: "char \<Rightarrow> string \<Rightarrow> string \<Rightarrow> string" where
  "replace_char c w s = concat (map (\<lambda>x. if x = c then w else [x]) s)"

definition escapeXml :: "string \<Rightarrow> string" where
  "escapeXml s = replace_char (CHR 0x22) ''&quot;'' (replace_char (CHR ''>'') ''&gt;'' (replace_char (CHR ''<'') ''&lt;'' (replace_char (CHR ''&'') ''&amp;'' s)))"

definition entity :: "char \<Rightarrow> string" where
  "entity c = (if c = CHR ''&'' then ''&amp;'' else if c = CHR ''<'' then ''&lt;'' else if c = CHR ''>'' then ''&gt;''
     else if c = CHR 0x22 then ''&quot;'' else [c])"

lemma replace_char_simps [simp]:
  "replace_char c w [] = []" "replace_char c w (x # s) = (if x = c then w else [x]) @ replace_char c w s"
  "replace_char c w (s @ t) = replace_char c w s @ replace_char c w t"
  by (simp_all add: replace_char_def)

lemma escapeXml_entities: "escapeXml s = concat (map entity s)"
  by (induction s) (auto simp: escapeXml_def entity_def)

lemma escapeXml_append: "escapeXml (s @ t) = escapeXml s @ escapeXml t"
  by (simp add: escapeXml_entities)

lemma entity_safe: "CHR ''<'' \<notin> set (entity c) \<and> CHR ''>'' \<notin> set (entity c) \<and> CHR 0x22 \<notin> set (entity c)"
  by (auto simp: entity_def)

lemma escapeXml_safe [simp]: "CHR ''<'' \<notin> set (escapeXml s)" "CHR ''>'' \<notin> set (escapeXml s)" "CHR 0x22 \<notin> set (escapeXml s)"
  using entity_safe by (auto simp: escapeXml_entities)

text \<open>How a reader undoes it.\<close>

fun unescapeXml :: "string \<Rightarrow> string" where
  "unescapeXml [] = []"
| "unescapeXml (c # s) =
     (if c = CHR ''&'' then
        if startsWith s ''amp;'' then CHR ''&'' # unescapeXml (drop 4 s)
        else if startsWith s ''lt;'' then CHR ''<'' # unescapeXml (drop 3 s)
        else if startsWith s ''gt;'' then CHR ''>'' # unescapeXml (drop 3 s)
        else if startsWith s ''quot;'' then CHR 0x22 # unescapeXml (drop 5 s)
        else c # unescapeXml s
      else c # unescapeXml s)"

lemma unescape_entity: "unescapeXml (entity c @ s) = c # unescapeXml s"
  by (auto simp: entity_def startsWith_def)

lemma unescape_escape: "unescapeXml (escapeXml s) = s"
  by (induction s) (simp_all add: escapeXml_entities unescape_entity)

section \<open>Numbers\<close>

text \<open>\<^verbatim>\<open>x.toFixed(d)\<close> of an exact number below \<open>10\<^sup>2\<^sup>1\<close>: the nearest multiple of \<open>10\<^sup>-\<^sup>d\<close>, the larger of two.\<close>

definition toFixed_digits :: "nat \<Rightarrow> real \<Rightarrow> string" where
  "toFixed_digits d x =
     (let n = nat \<lfloor>x * 10 ^ d + 1 / 2\<rfloor>; f = show_nat (n mod 10 ^ d) in
      show_nat (n div 10 ^ d) @ (if d = 0 then [] else CHR ''.'' # replicate (d - length f) (CHR ''0'') @ f))"

definition toFixed :: "nat \<Rightarrow> real \<Rightarrow> string" where
  "toFixed d x = (if x < 0 then CHR ''-'' # toFixed_digits d (- x) else toFixed_digits d x)"

definition plain :: "string \<Rightarrow> bool" where
  "plain s \<longleftrightarrow> CHR ''<'' \<notin> set s \<and> CHR ''>'' \<notin> set s"

lemma plain_simps [simp]:
  "plain []" "plain (c # s) \<longleftrightarrow> c \<noteq> CHR ''<'' \<and> c \<noteq> CHR ''>'' \<and> plain s" "plain (s @ t) \<longleftrightarrow> plain s \<and> plain t"
  "plain (escapeXml s)"
  by (auto simp: plain_def)

lemma plain_digits [simp]: "plain (show_nat n)"
  using show_nat_digits by (fastforce simp: plain_def)

lemma plain_toFixed [simp]: "plain (toFixed d x)"
proof -
  have "plain (replicate n (CHR ''0''))" for n by (simp add: plain_def)
  then show ?thesis by (simp add: toFixed_def toFixed_digits_def Let_def)
qed

section \<open>Reading marked-up text\<close>

text \<open>The tags of a text, each with the text up to the next one.\<close>

definition piece :: "string \<Rightarrow> string \<times> string" where
  "piece w = (takeWhile (\<lambda>c. c \<noteq> CHR ''>'') w, drop 1 (dropWhile (\<lambda>c. c \<noteq> CHR ''>'') w))"

definition pieces :: "string \<Rightarrow> (string \<times> string) list" where
  "pieces s = map piece (tl (split_on (CHR ''<'') s))"

definition tag_name :: "string \<Rightarrow> string" where
  "tag_name t = takeWhile (\<lambda>c. c \<noteq> CHR '' '') t"

text \<open>The contents of the elements of a given name.\<close>

definition entries :: "string \<Rightarrow> string \<Rightarrow> string list" where
  "entries n s = map (\<lambda>(t, x). unescapeXml x) (filter (\<lambda>(t, x). tag_name t = n) (pieces s))"

text \<open>A text that gives a list of contents, whatever follows it.\<close>

definition emits :: "string \<Rightarrow> string \<Rightarrow> string list \<Rightarrow> bool" where
  "emits n s es \<longleftrightarrow> (\<forall>r. entries n (s @ r) = es @ entries n r)"

lemma emits_entries: "emits n s es \<Longrightarrow> entries n s = es"
  unfolding emits_def by (drule spec [of _ "[]"]) (simp add: entries_def pieces_def)

lemma split_on_prefix: "c \<notin> set w \<Longrightarrow> split_on c (w @ s) = (w @ hd (split_on c s)) # tl (split_on c s)"
proof (induction w)
  case Nil
  then show ?case by (cases "split_on c s") simp_all
next
  case (Cons a w)
  then show ?case by (cases "split_on c (w @ s)") auto
qed

lemma emits_plain: "CHR ''<'' \<notin> set w \<Longrightarrow> emits n w []"
  by (simp add: emits_def entries_def pieces_def split_on_prefix)

lemma emits_append: "emits n s es \<Longrightarrow> emits n t es' \<Longrightarrow> emits n (s @ t) (es @ es')"
  by (simp add: emits_def)

lemma emits_nil [simp]: "emits n [] []"
  by (simp add: emits_def)

lemma piece_tag: "plain t \<Longrightarrow> piece (t @ CHR ''>'' # x) = (t, x)"
  by (induction t) (auto simp: piece_def)

text \<open>A tag of another name.\<close>

lemma emits_tag:
  assumes "plain t" "tag_name t \<noteq> n"
  shows "emits n (CHR ''<'' # t @ ''>'') []"
  unfolding emits_def
proof
  fix r
  have "split_on (CHR ''<'') (t @ CHR ''>'' # r) = (t @ CHR ''>'' # hd (split_on (CHR ''<'') r)) # tl (split_on (CHR ''<'') r)"
    using split_on_prefix [of "CHR ''<''" "t @ ''>''" r] assms(1) by (simp add: plain_def)
  then show "entries n ((CHR ''<'' # t @ ''>'') @ r) = [] @ entries n r"
    using assms by (simp add: entries_def pieces_def piece_tag)
qed

text \<open>An element of the name, with escaped contents.\<close>

definition element :: "string \<Rightarrow> string \<Rightarrow> string \<Rightarrow> string" where
  "element n attrs x = CHR ''<'' # n @ attrs @ CHR ''>'' # x @ ''</'' @ n @ ''>''"

lemma emits_element:
  assumes "plain (n @ attrs)" "tag_name (n @ attrs) = n" "n \<noteq> []" "hd n \<noteq> CHR ''/''" "CHR ''<'' \<notin> set x"
  shows "emits n (element n attrs x) [unescapeXml x]"
  unfolding emits_def
proof
  fix r
  let ?l = "CHR ''<''"
  have 1: "split_on ?l ((n @ attrs @ CHR ''>'' # x) @ ?l # CHR ''/'' # n @ CHR ''>'' # r) =
      (n @ attrs @ CHR ''>'' # x) # split_on ?l (CHR ''/'' # n @ CHR ''>'' # r)"
    using assms(1,5) by (intro split_on_append) (auto simp: plain_def)
  have 2: "split_on ?l (CHR ''/'' # n @ CHR ''>'' # r) = (CHR ''/'' # n @ CHR ''>'' # hd (split_on ?l r)) # tl (split_on ?l r)"
    using split_on_prefix [of ?l "CHR ''/'' # n @ ''>''" r] assms(1) by (simp add: plain_def)
  have 3: "piece (n @ attrs @ CHR ''>'' # x) = (n @ attrs, x)" using piece_tag [OF assms(1)] by simp
  have 4: "piece (CHR ''/'' # n @ CHR ''>'' # hd (split_on ?l r)) = (CHR ''/'' # n, hd (split_on ?l r))"
    using piece_tag [of "CHR ''/'' # n"] assms(1) by (simp add: plain_def)
  have 5: "tag_name (CHR ''/'' # n) \<noteq> n" using assms(3,4) by (cases n) (auto simp: tag_name_def)
  show "entries n (element n attrs x @ r) = [unescapeXml x] @ entries n r"
    using 1 2 3 4 5 assms(2) by (simp add: element_def entries_def pieces_def)
qed

lemma emits_other_element:
  assumes "plain (m @ attrs)" "tag_name (m @ attrs) \<noteq> n" "tag_name (CHR ''/'' # m) \<noteq> n" "CHR ''<'' \<notin> set x"
  shows "emits n (element m attrs x) []"
proof -
  have "emits n (CHR ''<'' # (m @ attrs) @ ''>'') []" by (rule emits_tag [OF assms(1,2)])
  moreover have "emits n x []" by (rule emits_plain [OF assms(4)])
  moreover have "emits n (CHR ''<'' # (CHR ''/'' # m) @ ''>'') []" using assms(1,3) by (intro emits_tag) simp_all
  ultimately have "emits n ((CHR ''<'' # (m @ attrs) @ ''>'') @ x @ (CHR ''<'' # (CHR ''/'' # m) @ ''>'')) ([] @ [] @ [])"
    by (intro emits_append)
  then show ?thesis by (simp add: element_def)
qed

text \<open>Lines, one after the other.\<close>

lemma emits_lines:
  assumes "CHR ''<'' \<notin> set sep" "\<And>l. l \<in> set ls \<Longrightarrow> emits n l (f l)"
  shows "emits n (join_with sep ls) (concat (map f ls))"
  using assms
proof (induction ls)
  case (Cons l ls)
  have nl: "emits n sep []" by (rule emits_plain [OF Cons.prems(1)])
  show ?case
  proof (cases ls)
    case Nil
    then show ?thesis using Cons.prems(2) by simp
  next
    case (Cons l' ls')
    have "emits n (l @ sep @ join_with sep ls) (f l @ [] @ concat (map f ls))"
      using Cons.prems Cons.IH nl by (intro emits_append) simp_all
    then show ?thesis using Cons by simp
  qed
qed simp

text \<open>Indentation: \<^verbatim>\<open>s.split('\n').join('\n  ')\<close>.\<close>

definition indent :: "string \<Rightarrow> string" where
  "indent s = join_with [CHR 0x0A, CHR '' '', CHR '' ''] (split_on (CHR 0x0A) s)"

lemma indent_chars: "indent s = concat (map (\<lambda>c. if c = CHR 0x0A then [CHR 0x0A, CHR '' '', CHR '' ''] else [c]) s)"
proof -
  have "join_with w (split_on c s) = concat (map (\<lambda>x. if x = c then w else [x]) s)" for c w
  proof (induction s)
    case (Cons a s)
    then show ?case by (cases "split_on c s"; cases "tl (split_on c s)") (auto simp: join_with_Cons)
  qed simp
  then show ?thesis by (simp add: indent_def)
qed

lemma indent_simps [simp]:
  "indent [] = []" "indent (s @ t) = indent s @ indent t"
  "indent (c # s) = (if c = CHR 0x0A then [CHR 0x0A, CHR '' '', CHR '' ''] else [c]) @ indent s"
  by (simp_all add: indent_chars)

lemma indent_plain [simp]: "plain (indent s) \<longleftrightarrow> plain s"
  by (induction s) auto

lemma indent_less [simp]: "CHR ''<'' \<in> set (indent s) \<longleftrightarrow> CHR ''<'' \<in> set s"
  by (induction s) auto

lemma indent_join: "indent (join_with [CHR 0x0A] ls) = join_with [CHR 0x0A, CHR '' '', CHR '' ''] (map indent ls)"
proof (induction ls)
  case (Cons l ls)
  then show ?case by (cases ls) simp_all
qed simp

end
