(* ===== verification/Identity_Manager.thy ===== *)
theory Identity_Manager
  imports Memory_Db Xml_Text JSON_Text
begin

text \<open>
  \<^verbatim>\<open>src/src/orchestrator/identity.ts\<close>: who the agent is in each profile, how it has come to behave, who the
  user is and how the user behaves, over the tables of \<open>Memory_Db\<close>. Shown: how confidence grows with
  confirming observations and between which bounds it stays; that a proposal that is confirmed changes the
  proposed field of its own profile and nothing else, once; and that no text of an identity can add an element to
  the context that is built from it.
\<close>

section \<open>Names\<close>

fun agentDimName :: "AgentDimension \<Rightarrow> string" where
  "agentDimName A_communication_style = ''communication_style''"
| "agentDimName A_humor = ''humor''"
| "agentDimName A_emotional_register = ''emotional_register''"
| "agentDimName A_values = ''values''"
| "agentDimName A_rapport = ''rapport''"
| "agentDimName A_boundaries = ''boundaries''"

fun userDimName :: "UserDimension \<Rightarrow> string" where
  "userDimName U_communication_style = ''communication_style''"
| "userDimName U_work_patterns = ''work_patterns''"
| "userDimName U_decision_making = ''decision_making''"
| "userDimName U_priorities = ''priorities''"
| "userDimName U_preferences = ''preferences''"
| "userDimName U_boundaries = ''boundaries''"

fun sourceName :: "PersonalitySource \<Rightarrow> string" where
  "sourceName Inferred = ''inferred''"
| "sourceName Declared = ''declared''"
| "sourceName Onboarding = ''onboarding''"

section \<open>Confidence\<close>

definition confirmConfidence :: "real \<Rightarrow> real" where
  "confirmConfidence current = min (95 / 100) (current + (1 - current) * (1 / 10))"

definition contradictConfidence :: "real \<Rightarrow> real" where
  "contradictConfidence current = max (1 / 10) (current * (8 / 10))"

section \<open>Rows as the callers see them\<close>

record AgentIdentity =
  id_role :: string
  id_expertise :: "string list"
  id_tone :: string
  id_instructions :: "string option"
  id_createdAt :: time
  id_updatedAt :: time

record AgentPersonalityEntry =
  pe_dimension :: AgentDimension
  pe_content :: string
  pe_confidence :: real
  pe_evidenceCount :: nat
  pe_createdAt :: time
  pe_updatedAt :: time

record UserIdentity =
  us_name :: "string option"
  us_role :: "string option"
  us_organization :: "string option"
  us_timezone :: "string option"
  us_language :: string
  us_contact :: "(string \<times> json) list"
  us_notes :: "string option"
  us_createdAt :: time
  us_updatedAt :: time

record UserPersonalityEntry =
  ue_dimension :: UserDimension
  ue_content :: string
  ue_confidence :: real
  ue_evidenceCount :: nat
  ue_source :: PersonalitySource
  ue_createdAt :: time
  ue_updatedAt :: time

definition rowToAgentIdentity :: "IdentityRow \<Rightarrow> AgentIdentity" where
  "rowToAgentIdentity r = \<lparr>id_role = ai_role r, id_expertise = ai_expertise r, id_tone = ai_tone r, id_instructions = ai_instructions r,
     id_createdAt = ai_created_at r, id_updatedAt = ai_updated_at r\<rparr>"

definition rowToAgentPersonality :: "PersonalityRow \<Rightarrow> AgentPersonalityEntry" where
  "rowToAgentPersonality r = \<lparr>pe_dimension = pp_dimension r, pe_content = pp_content r, pe_confidence = pp_confidence r,
     pe_evidenceCount = pp_evidence_count r, pe_createdAt = pp_created_at r, pe_updatedAt = pp_updated_at r\<rparr>"

definition rowToUserIdentity :: "UserIdentityRow \<Rightarrow> UserIdentity" where
  "rowToUserIdentity r = \<lparr>us_name = ui_name r, us_role = ui_role r, us_organization = ui_organization r, us_timezone = ui_timezone r,
     us_language = (case ui_language r of Some l \<Rightarrow> l | None \<Rightarrow> ''en''), us_contact = ui_contact r, us_notes = ui_notes r,
     us_createdAt = ui_created_at r, us_updatedAt = ui_updated_at r\<rparr>"

definition rowToUserPersonality :: "UserPersonalityRow \<Rightarrow> UserPersonalityEntry" where
  "rowToUserPersonality r = \<lparr>ue_dimension = up_dimension r, ue_content = up_content r, ue_confidence = up_confidence r,
     ue_evidenceCount = up_evidence_count r, ue_source = up_source r, ue_createdAt = up_created_at r, ue_updatedAt = up_updated_at r\<rparr>"

section \<open>Agent identity\<close>

definition identityRow :: "string \<Rightarrow> 'v Db \<Rightarrow> IdentityRow option" where
  "identityRow profileId db = find (\<lambda>r. ai_profile_id r = profileId) (db_identity db)"

definition getAgentIdentity :: "string \<Rightarrow> 'v Db \<Rightarrow> AgentIdentity option" where
  "getAgentIdentity profileId db = map_option rowToAgentIdentity (identityRow profileId db)"

definition setAgentIdentity ::
  "time \<Rightarrow> string \<Rightarrow> string \<Rightarrow> string list \<Rightarrow> string \<Rightarrow> string option \<Rightarrow> ('v, AgentIdentity) db_op" where
  "setAgentIdentity now profileId role expertise tone instructions db =
     (case identityRow profileId db of
        Some r \<Rightarrow>
          (let upd = (\<lambda>x. x\<lparr>ai_role := role, ai_expertise := expertise, ai_tone := tone, ai_instructions := instructions, ai_updated_at := now\<rparr>)
           in (Inr (rowToAgentIdentity (upd r)),
               db\<lparr>db_identity := map (\<lambda>x. if ai_profile_id x = profileId then upd x else x) (db_identity db)\<rparr>))
      | None \<Rightarrow>
          if profileId \<notin> profile_ids db then (Inl (Foreign_key ''agent_identity_profile_id_fkey''), db)
          else (let r = \<lparr>ai_profile_id = profileId, ai_role = role, ai_expertise = expertise, ai_tone = tone,
                  ai_instructions = instructions, ai_created_at = now, ai_updated_at = now\<rparr>
                in (Inr (rowToAgentIdentity r), db\<lparr>db_identity := db_identity db @ [r]\<rparr>)))"

section \<open>Agent personality\<close>

definition getAgentPersonality :: "string \<Rightarrow> 'v Db \<Rightarrow> AgentPersonalityEntry list" where
  "getAgentPersonality profileId db =
     map rowToAgentPersonality (sort_key (agentDimName \<circ> pp_dimension) (filter (\<lambda>r. pp_profile_id r = profileId) (db_personality db)))"

definition observeAgentPersonality :: "time \<Rightarrow> string \<Rightarrow> AgentDimension \<Rightarrow> string \<Rightarrow> ('v, AgentPersonalityEntry) db_op" where
  "observeAgentPersonality now profileId dimension content db =
     (let hit = (\<lambda>r. pp_profile_id r = profileId \<and> pp_dimension r = dimension) in
      case find hit (db_personality db) of
        Some r \<Rightarrow>
          (let upd = (\<lambda>x. x\<lparr>pp_content := content, pp_confidence := confirmConfidence (pp_confidence r),
                 pp_evidence_count := pp_evidence_count x + 1, pp_updated_at := now\<rparr>)
           in (Inr (rowToAgentPersonality (upd r)), db\<lparr>db_personality := map (\<lambda>x. if hit x then upd x else x) (db_personality db)\<rparr>))
      | None \<Rightarrow>
          if profileId \<notin> profile_ids db then (Inl (Foreign_key ''agent_personality_profile_id_fkey''), db)
          else (let r = \<lparr>pp_profile_id = profileId, pp_dimension = dimension, pp_content = content, pp_confidence = 8 / 10,
                  pp_evidence_count = 1, pp_created_at = now, pp_updated_at = now\<rparr>
                in (Inr (rowToAgentPersonality r), db\<lparr>db_personality := db_personality db @ [r]\<rparr>)))"

definition deleteAgentPersonality :: "string \<Rightarrow> AgentDimension \<Rightarrow> ('v, bool) db_op" where
  "deleteAgentPersonality profileId dimension db =
     (let hit = (\<lambda>r. pp_profile_id r = profileId \<and> pp_dimension r = dimension)
      in (Inr (list_ex hit (db_personality db)), db\<lparr>db_personality := filter (\<lambda>r. \<not> hit r) (db_personality db)\<rparr>))"

section \<open>User identity and personality\<close>

definition getUserIdentity :: "'v Db \<Rightarrow> UserIdentity option" where
  "getUserIdentity db = (case db_user_identity db of [] \<Rightarrow> None | r # _ \<Rightarrow> Some (rowToUserIdentity r))"

record UserFields =
  uf_name :: "string option"
  uf_role :: "string option"
  uf_organization :: "string option"
  uf_timezone :: "string option"
  uf_language :: "string option"
  uf_contact :: "(string \<times> json) list option"
  uf_notes :: "string option"

definition coalesce :: "'a option \<Rightarrow> 'a option \<Rightarrow> 'a option" where
  "coalesce a b = (case a of Some x \<Rightarrow> Some x | None \<Rightarrow> b)"

definition updateUserIdentity :: "time \<Rightarrow> UserFields \<Rightarrow> ('v, UserIdentity) db_op" where
  "updateUserIdentity now f db =
     (case db_user_identity db of
        r # _ \<Rightarrow>
          (let upd = (\<lambda>x. x\<lparr>ui_name := coalesce (uf_name f) (ui_name x), ui_role := coalesce (uf_role f) (ui_role x),
                 ui_organization := coalesce (uf_organization f) (ui_organization x), ui_timezone := coalesce (uf_timezone f) (ui_timezone x),
                 ui_language := coalesce (uf_language f) (ui_language x),
                 ui_contact := (case uf_contact f of Some c \<Rightarrow> c | None \<Rightarrow> ui_contact x),
                 ui_notes := coalesce (uf_notes f) (ui_notes x), ui_updated_at := now\<rparr>)
           in (Inr (rowToUserIdentity (upd r)), db\<lparr>db_user_identity := map upd (db_user_identity db)\<rparr>))
      | [] \<Rightarrow>
          (let r = \<lparr>ui_name = uf_name f, ui_role = uf_role f, ui_organization = uf_organization f, ui_timezone = uf_timezone f,
                 ui_language = Some (case uf_language f of Some l \<Rightarrow> l | None \<Rightarrow> ''en''),
                 ui_contact = (case uf_contact f of Some c \<Rightarrow> c | None \<Rightarrow> []), ui_notes = uf_notes f,
                 ui_created_at = now, ui_updated_at = now\<rparr>
           in (Inr (rowToUserIdentity r), db\<lparr>db_user_identity := [r]\<rparr>)))"

definition getUserPersonality :: "'v Db \<Rightarrow> UserPersonalityEntry list" where
  "getUserPersonality db = map rowToUserPersonality (sort_key (userDimName \<circ> up_dimension) (db_user_personality db))"

definition observeUserPersonality :: "time \<Rightarrow> UserDimension \<Rightarrow> string \<Rightarrow> PersonalitySource \<Rightarrow> ('v, UserPersonalityEntry) db_op" where
  "observeUserPersonality now dimension content source db =
     (case find (\<lambda>r. up_dimension r = dimension) (db_user_personality db) of
        Some r \<Rightarrow>
          (let upd = (\<lambda>x. x\<lparr>up_content := content, up_confidence := confirmConfidence (up_confidence r),
                 up_evidence_count := up_evidence_count x + 1, up_source := source, up_updated_at := now\<rparr>)
           in (Inr (rowToUserPersonality (upd r)),
               db\<lparr>db_user_personality := map (\<lambda>x. if up_dimension x = dimension then upd x else x) (db_user_personality db)\<rparr>))
      | None \<Rightarrow>
          (let r = \<lparr>up_dimension = dimension, up_content = content,
                 up_confidence = (if source = Declared \<or> source = Onboarding then 7 / 10 else 3 / 10),
                 up_evidence_count = 1, up_source = source, up_created_at = now, up_updated_at = now\<rparr>
           in (Inr (rowToUserPersonality r), db\<lparr>db_user_personality := db_user_personality db @ [r]\<rparr>)))"

definition deleteUserPersonality :: "UserDimension \<Rightarrow> ('v, bool) db_op" where
  "deleteUserPersonality dimension db =
     (Inr (list_ex (\<lambda>r. up_dimension r = dimension) (db_user_personality db)),
      db\<lparr>db_user_personality := filter (\<lambda>r. up_dimension r \<noteq> dimension) (db_user_personality db)\<rparr>)"

section \<open>Proposals\<close>

record IdentityProposal =
  pr_id :: string
  pr_field :: string
  pr_newValue :: string
  pr_reason :: string
  pr_createdAt :: time

definition proposalKey :: "string \<Rightarrow> string" where
  "proposalKey i = ''identity_proposal_'' @ i"

definition proposeIdentityUpdate :: "string \<Rightarrow> time \<Rightarrow> string \<Rightarrow> string \<Rightarrow> string \<Rightarrow> string \<Rightarrow> ('v, IdentityProposal) db_op" where
  "proposeIdentityUpdate uuid now profileId f newValue reason db =
     (Inr \<lparr>pr_id = uuid, pr_field = f, pr_newValue = newValue, pr_reason = reason, pr_createdAt = now\<rparr>,
      db\<lparr>db_state := js_set (proposalKey uuid)
           (stringify (JObj [(''profileId'', JStr profileId), (''field'', JStr f), (''newValue'', JStr newValue),
              (''reason'', JStr reason), (''createdAt'', JNum now)])) (db_state db)\<rparr>)"

text \<open>
  The column a proposal names: the list of expertise, or one of the three text columns. For another name the statement
  fails (the only caller of \<open>proposeIdentityUpdate\<close> permits these four).
\<close>

definition set_column :: "time \<Rightarrow> string \<Rightarrow> string \<Rightarrow> IdentityRow \<Rightarrow> IdentityRow option" where
  "set_column now f v r =
     (if f = ''expertise'' then Some (r\<lparr>ai_expertise := map trim (split_on (CHR '','') v), ai_updated_at := now\<rparr>)
      else if f = ''role'' then Some (r\<lparr>ai_role := v, ai_updated_at := now\<rparr>)
      else if f = ''tone'' then Some (r\<lparr>ai_tone := v, ai_updated_at := now\<rparr>)
      else if f = ''instructions'' then Some (r\<lparr>ai_instructions := Some v, ai_updated_at := now\<rparr>)
      else None)"

definition confirmIdentityUpdate :: "time \<Rightarrow> string \<Rightarrow> ('v, bool) db_op" where
  "confirmIdentityUpdate now proposalId db =
     (case js_get (db_state db) (proposalKey proposalId) of
        None \<Rightarrow> (Inr False, db)
      | Some v \<Rightarrow>
          (case parse_json v of
             None \<Rightarrow> (Inl (Thrown ''SyntaxError''), db)
           | Some j \<Rightarrow>
               (case (as_string (field j ''profileId''), as_string (field j ''field''), as_string (field j ''newValue'')) of
                  (Some profileId, Some f, Some newValue) \<Rightarrow>
                    (case identityRow profileId db of
                       None \<Rightarrow> (Inr False, db)
                     | Some r \<Rightarrow>
                         (case set_column now f newValue r of
                            None \<Rightarrow> (Inl (Thrown ''column does not exist''), db)
                          | Some _ \<Rightarrow>
                              (Inr True,
                               db\<lparr>db_identity := map (\<lambda>x. if ai_profile_id x = profileId then the (set_column now f newValue x) else x) (db_identity db),
                                  db_state := js_delete (proposalKey proposalId) (db_state db)\<rparr>)))
                | _ \<Rightarrow> (Inl (Thrown ''undefined value''), db))))"

section \<open>Context\<close>

record IdentityThresholds =
  it_personality :: real
  it_userPersonality :: real

definition attr :: "string \<Rightarrow> string option \<Rightarrow> string list" where
  "attr n v = (case v of Some s \<Rightarrow> if s \<noteq> [] then [n @ ''='' @ [CHR 0x22] @ escapeXml s @ [CHR 0x22]] else [] | None \<Rightarrow> [])"

definition quoted :: "string \<Rightarrow> string" where
  "quoted s = CHR 0x22 # s @ [CHR 0x22]"

definition dimLine :: "string \<Rightarrow> real \<Rightarrow> string \<Rightarrow> string" where
  "dimLine name confidence content =
     ''    '' @ element ''dim'' ('' name='' @ quoted name @ '' confidence='' @ quoted (toFixed 2 confidence)) (escapeXml content)"

definition agentLines :: "AgentIdentity option \<Rightarrow> string list" where
  "agentLines a =
     (case a of None \<Rightarrow> []
      | Some i \<Rightarrow>
          [''  <agent role='' @ quoted (escapeXml (id_role i)) @ '' tone='' @ quoted (escapeXml (id_tone i)) @ ''>''] @
          (let expertise = join_with '', '' (id_expertise i) in
           if expertise \<noteq> [] then [''    '' @ element ''expertise'' [] (escapeXml expertise)] else []) @
          (case id_instructions i of Some t \<Rightarrow> if t \<noteq> [] then [''    '' @ element ''instructions'' [] (escapeXml t)] else [] | None \<Rightarrow> []) @
          [''  </agent>''])"

definition userLines :: "UserIdentity option \<Rightarrow> string list" where
  "userLines u =
     (case u of None \<Rightarrow> []
      | Some i \<Rightarrow>
          [''  <user '' @ join_with '' '' (attr ''name'' (us_name i) @ attr ''role'' (us_role i) @ attr ''org'' (us_organization i) @
             attr ''tz'' (us_timezone i) @ attr ''lang'' (Some (us_language i))) @ '' />''])"

definition block :: "string \<Rightarrow> string list \<Rightarrow> string list" where
  "block n ls = (if ls \<noteq> [] then [''  <'' @ n @ ''>''] @ ls @ [''  </'' @ n @ ''>''] else [])"

definition buildIdentityContext :: "IdentityThresholds \<Rightarrow> string \<Rightarrow> 'v Db \<Rightarrow> string" where
  "buildIdentityContext th profileId db =
     join_with [CHR 0x0A]
       ([''<identity>''] @
        agentLines (getAgentIdentity profileId db) @
        block ''agent_personality'' (map (\<lambda>p. dimLine (agentDimName (pe_dimension p)) (pe_confidence p) (pe_content p))
          (filter (\<lambda>p. pe_confidence p \<ge> it_personality th) (getAgentPersonality profileId db))) @
        userLines (getUserIdentity db) @
        block ''user_personality'' (map (\<lambda>p. dimLine (userDimName (ue_dimension p)) (ue_confidence p) (ue_content p))
          (filter (\<lambda>p. ue_confidence p \<ge> it_userPersonality th) (getUserPersonality db))) @
        [''</identity>''])"

section \<open>The context contains no other elements\<close>

definition quiet :: "string \<Rightarrow> string \<Rightarrow> bool" where
  "quiet n l \<longleftrightarrow> emits n (indent l) []"

lemma quiet_append: "quiet n l \<Longrightarrow> quiet n l' \<Longrightarrow> quiet n (l @ l')"
  unfolding quiet_def using emits_append [of n "indent l" "[]" "indent l'" "[]"] by simp

lemma quiet_plain: "CHR ''<'' \<notin> set l \<Longrightarrow> quiet n l"
  unfolding quiet_def by (rule emits_plain) simp

lemma quiet_tag: "plain t \<Longrightarrow> tag_name (indent t) \<noteq> n \<Longrightarrow> quiet n (CHR ''<'' # t @ ''>'')"
  unfolding quiet_def using emits_tag [of "indent t" n] by simp

lemma quiet_element:
  assumes "plain (m @ attrs)" "tag_name (indent (m @ attrs)) \<noteq> n" "tag_name (CHR ''/'' # indent m) \<noteq> n" "CHR ''<'' \<notin> set x"
  shows "quiet n (element m attrs x)"
proof -
  have "emits n (element (indent m) (indent attrs) (indent x)) []" using assms by (intro emits_other_element) simp_all
  then show ?thesis by (simp add: quiet_def element_def)
qed

lemma quiet_lines:
  assumes "\<And>l. l \<in> set ls \<Longrightarrow> quiet n l"
  shows "quiet n (join_with [CHR 0x0A] ls)"
proof -
  have c: "concat (map (\<lambda>l. []) xs) = ([] :: string list)" for xs :: "string list" by (induction xs) simp_all
  have "emits n (join_with [CHR 0x0A, CHR '' '', CHR '' ''] (map indent ls)) (concat (map (\<lambda>l. []) (map indent ls)))"
    by (rule emits_lines) (use assms in \<open>auto simp: quiet_def\<close>)
  then show ?thesis unfolding quiet_def indent_join c .
qed

text \<open>The names of the elements and tags of an identity.\<close>

definition identity_tags :: "string list" where
  "identity_tags = concat (map (\<lambda>t. [t, CHR ''/'' # t])
     [''identity'', ''agent'', ''expertise'', ''instructions'', ''agent_personality'', ''dim'', ''user'', ''user_personality''])"

lemma plain_quoted [simp]: "plain (quoted s) \<longleftrightarrow> plain s"
  by (simp add: quoted_def)

lemma plain_names [simp]: "plain (agentDimName d)" "plain (userDimName u)"
  by (cases d; simp) (cases u; simp)

lemma plain_join: "plain sep \<Longrightarrow> (\<And>w. w \<in> set ws \<Longrightarrow> plain w) \<Longrightarrow> plain (join_with sep ws)"
proof (induction ws)
  case (Cons w ws)
  then show ?case by (cases ws) simp_all
qed simp

lemma plain_attr: "plain n \<Longrightarrow> w \<in> set (attr n v) \<Longrightarrow> plain w"
  by (auto simp: attr_def split: option.splits if_splits)

lemma quiet_line:
  assumes "quiet n l" "CHR ''<'' \<notin> set w"
  shows "quiet n (w @ l)"
  by (rule quiet_append [OF quiet_plain [OF assms(2)] assms(1)])

lemma tag_name_simps [simp]:
  "tag_name [] = []" "tag_name (c # t) = (if c = CHR '' '' then [] else c # tag_name t)"
  by (simp_all add: tag_name_def)

lemma other_names:
  assumes "n \<notin> set identity_tags"
  shows "''identity'' \<noteq> n" "''/identity'' \<noteq> n" "''agent'' \<noteq> n" "''/agent'' \<noteq> n" "''expertise'' \<noteq> n" "''/expertise'' \<noteq> n"
    "''instructions'' \<noteq> n" "''/instructions'' \<noteq> n" "''agent_personality'' \<noteq> n" "''/agent_personality'' \<noteq> n" "''dim'' \<noteq> n" "''/dim'' \<noteq> n"
    "''user'' \<noteq> n" "''/user'' \<noteq> n" "''user_personality'' \<noteq> n" "''/user_personality'' \<noteq> n"
  using assms by (auto simp: identity_tags_def)

lemma quiet_dimLine:
  assumes "n \<notin> set identity_tags" "plain d"
  shows "quiet n (dimLine d c x)"
  unfolding dimLine_def
  by (rule quiet_line, rule quiet_element) (use assms other_names [OF assms(1)] in simp_all)

lemma quiet_agentLines:
  assumes "n \<notin> set identity_tags" "l \<in> set (agentLines a)"
  shows "quiet n l"
proof -
  note ne = other_names [OF assms(1)]
  have "quiet n (''  '' @ (CHR ''<'' # (''agent role='' @ quoted (escapeXml r) @ '' tone='' @ quoted (escapeXml t)) @ ''>''))" for r t
    by (rule quiet_line, rule quiet_tag) (use ne in simp_all)
  moreover have "quiet n (''    '' @ element ''expertise'' [] (escapeXml x))" for x
    by (rule quiet_line, rule quiet_element) (use ne in simp_all)
  moreover have "quiet n (''    '' @ element ''instructions'' [] (escapeXml x))" for x
    by (rule quiet_line, rule quiet_element) (use ne in simp_all)
  moreover have "quiet n (''  '' @ (CHR ''<'' # ''/agent'' @ ''>''))" by (rule quiet_line, rule quiet_tag) (use ne in simp_all)
  ultimately show ?thesis using assms(2) by (auto simp: agentLines_def Let_def split: option.splits if_splits)
qed

lemma quiet_userLines:
  assumes "n \<notin> set identity_tags" "l \<in> set (userLines u)"
  shows "quiet n l"
proof -
  have p: "plain (join_with '' '' (attr ''name'' a @ attr ''role'' b @ attr ''org'' c @ attr ''tz'' d @ attr ''lang'' e))" for a b c d e
    by (rule plain_join) (auto dest!: plain_attr [rotated])
  have "quiet n (''  '' @ (CHR ''<'' # (''user '' @ join_with '' '' (attr ''name'' a @ attr ''role'' b @ attr ''org'' c @ attr ''tz'' d @ attr ''lang'' e)
      @ '' /'') @ ''>''))" for a b c d e
    by (rule quiet_line, rule quiet_tag) (use p other_names [OF assms(1)] in simp_all)
  then show ?thesis using assms(2) by (cases u) (simp_all add: userLines_def)
qed

lemma quiet_block:
  assumes "\<And>l. l \<in> set ls \<Longrightarrow> quiet n l" "plain b" "CHR '' '' \<notin> set (indent b)" "indent b \<noteq> n" "CHR ''/'' # indent b \<noteq> n" "l \<in> set (block b ls)"
  shows "quiet n l"
proof -
  have t: "tag_name x = x" if "CHR '' '' \<notin> set x" for x using that by (simp add: tag_name_def takeWhile_eq_all_conv) metis
  have "quiet n (''  '' @ (CHR ''<'' # b @ ''>''))" by (rule quiet_line, rule quiet_tag) (use assms t in simp_all)
  moreover have "quiet n (''  '' @ (CHR ''<'' # (CHR ''/'' # b) @ ''>''))"
    by (rule quiet_line, rule quiet_tag) (use assms t in simp_all)
  ultimately show ?thesis using assms(1,6) by (auto simp: block_def split: if_splits)
qed

text \<open>Whatever the identities contain, their context has only its own elements.\<close>

lemma quiet_identity:
  assumes "n \<notin> set identity_tags"
  shows "quiet n (buildIdentityContext th pid db)"
proof -
  note ne = other_names [OF assms]
  have "quiet n ''<identity>''" "quiet n ''</identity>''"
    using quiet_tag [of "''identity''" n] quiet_tag [of "''/identity''" n] ne by simp_all
  moreover have "quiet n l" if "l \<in> set (block ''agent_personality'' (map (\<lambda>p. dimLine (agentDimName (pe_dimension p)) (pe_confidence p) (pe_content p)) ps))" for l ps
    using that ne by (intro quiet_block [of _ n "''agent_personality''" l]) (auto intro: quiet_dimLine [OF assms])
  moreover have "quiet n l" if "l \<in> set (block ''user_personality'' (map (\<lambda>p. dimLine (userDimName (ue_dimension p)) (ue_confidence p) (ue_content p)) ps))" for l ps
    using that ne by (intro quiet_block [of _ n "''user_personality''" l]) (auto intro: quiet_dimLine [OF assms])
  ultimately show ?thesis unfolding buildIdentityContext_def
    using quiet_agentLines [OF assms] quiet_userLines [OF assms] by (intro quiet_lines) (simp only: set_append Un_iff list.set insert_iff empty_iff, blast)
qed

section \<open>Properties\<close>

lemma confirm_step: "0 \<le> y \<Longrightarrow> confirmConfidence (min (95 / 100) (1 - y)) = min (95 / 100) (1 - y * (9 / 10))"
  by (auto simp: confirmConfidence_def min_def)

definition observe_all :: "string \<Rightarrow> AgentDimension \<Rightarrow> (time \<times> string) list \<Rightarrow> 'v Db \<Rightarrow> 'v Db" where
  "observe_all pid d os db = fold (\<lambda>(now, x) db. snd (observeAgentPersonality now pid d x db)) os db"

lemma observe_existing:
  assumes "db_personality db = rs @ [r]" "pp_profile_id r = pid" "pp_dimension r = d"
    "\<forall>x \<in> set rs. \<not> (pp_profile_id x = pid \<and> pp_dimension x = d)"
  shows "snd (observeAgentPersonality now pid d x db) =
    db\<lparr>db_personality := rs @ [r\<lparr>pp_content := x, pp_confidence := confirmConfidence (pp_confidence r),
      pp_evidence_count := pp_evidence_count r + 1, pp_updated_at := now\<rparr>]\<rparr>"
proof -
  have "find (\<lambda>r. pp_profile_id r = pid \<and> pp_dimension r = d) (rs @ [r]) = Some r"
    using assms(2-4) by (induction rs) auto
  moreover have "map (\<lambda>y. if pp_profile_id y = pid \<and> pp_dimension y = d then g y else y) rs = rs" for g
    using assms(4) by (intro map_idI) auto
  ultimately show ?thesis using assms by (simp add: observeAgentPersonality_def Let_def)
qed

text \<open>
  A dimension of the agent's behaviour that is observed for the first time and then again and again has the last
  content, as many pieces of evidence as observations, and a confidence of 0.8 that closes a tenth of its
  distance to 1 each time until it is capped at 0.95; nothing else in the database changes.
\<close>

theorem personality_history:
  assumes "pid \<in> profile_ids db" "\<forall>x \<in> set (db_personality db). \<not> (pp_profile_id x = pid \<and> pp_dimension x = d)" "os \<noteq> []"
  shows "observe_all pid d os db = db\<lparr>db_personality := db_personality db @
    [\<lparr>pp_profile_id = pid, pp_dimension = d, pp_content = snd (last os),
      pp_confidence = min (95 / 100) (1 - 2 / 10 * (9 / 10) ^ (length os - 1)), pp_evidence_count = length os,
      pp_created_at = fst (hd os), pp_updated_at = fst (last os)\<rparr>]\<rparr>"
  using assms(3)
proof (induction os rule: rev_induct)
  case (snoc o1 os)
  obtain now x where o1: "o1 = (now, x)" by fastforce
  show ?case
  proof (cases "os = []")
    case True
    have "find (\<lambda>r. pp_profile_id r = pid \<and> pp_dimension r = d) (db_personality db) = None"
      using assms(2) by (auto simp: find_None_iff)
    then show ?thesis using True o1 assms(1) by (simp add: observe_all_def observeAgentPersonality_def Let_def)
  next
    case False
    obtain k where k: "length os = Suc k" using False by (cases os) auto
    have c: "confirmConfidence (min (95 / 100) (1 - 2 / 10 * (9 / 10) ^ k)) = min (95 / 100) (1 - 2 / 10 * (9 / 10) ^ Suc k)"
      using confirm_step [of "2 / 10 * (9 / 10) ^ k"] by (simp only: power_Suc2 mult.assoc) simp
    have "observe_all pid d (os @ [o1]) db = snd (observeAgentPersonality now pid d x (observe_all pid d os db))"
      by (simp add: observe_all_def o1)
    also note snoc.IH [OF False]
    also have "snd (observeAgentPersonality now pid d x (db\<lparr>db_personality := db_personality db @
        [\<lparr>pp_profile_id = pid, pp_dimension = d, pp_content = snd (last os),
          pp_confidence = min (95 / 100) (1 - 2 / 10 * (9 / 10) ^ (length os - 1)), pp_evidence_count = length os,
          pp_created_at = fst (hd os), pp_updated_at = fst (last os)\<rparr>]\<rparr>)) =
      db\<lparr>db_personality := db_personality db @
        [\<lparr>pp_profile_id = pid, pp_dimension = d, pp_content = x,
          pp_confidence = min (95 / 100) (1 - 2 / 10 * (9 / 10) ^ length os), pp_evidence_count = length os + 1,
          pp_created_at = fst (hd os), pp_updated_at = now\<rparr>]\<rparr>"
      by (subst observe_existing) (use assms(2) c k in \<open>(simp_all del: power_Suc, simp_all del: power_Suc)\<close>)
    finally show ?thesis using False o1 by simp
  qed
qed simp

definition example_profiles :: "unit Db" where
  "example_profiles = emptyDb\<lparr>
     db_profiles := [\<lparr>ap_id = ''p'', ap_name = ''default'', ap_description = None, ap_is_default = True, ap_created_at = 1, ap_updated_at = 1\<rparr>],
     db_identity := [\<lparr>ai_profile_id = ''p'', ai_role = ''clerk'', ai_expertise = [], ai_tone = ''dry'', ai_instructions = None,
       ai_created_at = 1, ai_updated_at = 1\<rparr>]\<rparr>"

theorem personality_history_witness:
  "map pp_confidence (db_personality (observe_all ''p'' A_humor [(1, ''a''), (2, ''b'')] example_profiles)) = [82 / 100]"
  using personality_history [of "''p''" example_profiles A_humor "[(1, ''a''), (2, ''b'')]"]
  by (simp add: example_profiles_def profile_ids_def emptyDb_def)

text \<open>
  A proposal that is confirmed sets the proposed column of the identity of its own profile to the proposed value
  and touches no other profile; the proposal is then gone, so that confirming it again does nothing.
\<close>

theorem proposal_roundtrip:
  assumes "proposeIdentityUpdate i now pid f v reason db = (Inr p, db1)" "identityRow pid db = Some r"
    "f \<in> {''role'', ''expertise'', ''tone'', ''instructions''}" "js_wf (db_state db)"
  shows "\<exists>r' db2. confirmIdentityUpdate later (pr_id p) db1 = (Inr True, db2) \<and> set_column later f v r = Some r' \<and>
    identityRow pid db2 = Some r' \<and> (\<forall>q. q \<noteq> pid \<longrightarrow> identityRow q db2 = identityRow q db) \<and>
    confirmIdentityUpdate again (pr_id p) db2 = (Inr False, db2) \<and>
    (\<forall>k. k \<noteq> proposalKey i \<longrightarrow> js_get (db_state db2) k = js_get (db_state db) k)"
proof -
  let ?j = "JObj [(''profileId'', JStr pid), (''field'', JStr f), (''newValue'', JStr v), (''reason'', JStr reason), (''createdAt'', JNum now)]"
  have p: "pr_id p = i" "db1 = db\<lparr>db_state := js_set (proposalKey i) (stringify ?j) (db_state db)\<rparr>"
    using assms(1) by (auto simp: proposeIdentityUpdate_def)
  have j: "parse_json (stringify ?j) = Some ?j" unfolding stringify_def by (rule parse_print_json) simp
  have set_all: "\<exists>x'. set_column later f v x = Some x' \<and> ai_profile_id x' = ai_profile_id x" for x
    using assms(3) by (auto simp: set_column_def)
  then obtain r' where r': "set_column later f v r = Some r'" "ai_profile_id r' = ai_profile_id r" by blast
  let ?g = "\<lambda>x. if ai_profile_id x = pid then the (set_column later f v x) else x"
  have g: "ai_profile_id (?g x) = ai_profile_id x" for x using set_all [of x] by auto
  have found: "find (\<lambda>x. ai_profile_id x = q) (map ?g xs) = map_option ?g (find (\<lambda>x. ai_profile_id x = q) xs)" for q xs
    by (induction xs) (simp_all add: g del: if_split)
  let ?db2 = "db1\<lparr>db_identity := map ?g (db_identity db), db_state := js_delete (proposalKey i) (db_state db1)\<rparr>"
  have "identityRow pid db1 = Some r" using assms(2) p by (simp add: identityRow_def)
  then have "confirmIdentityUpdate later i db1 = (Inr True, ?db2)"
    using p j r' by (simp add: confirmIdentityUpdate_def js_get_set)
  moreover have rid: "ai_profile_id r = pid" using assms(2) find_SomeD unfolding identityRow_def by fast
  then have "identityRow pid ?db2 = Some r'" using assms(2) found [of pid] r' by (simp add: identityRow_def)
  moreover have "identityRow q ?db2 = identityRow q db" if "q \<noteq> pid" for q
  proof (cases "find (\<lambda>x. ai_profile_id x = q) (db_identity db)")
    case (Some x)
    then have "ai_profile_id x = q" using find_SomeD by fast
    then show ?thesis using Some found [of q] that by (simp add: identityRow_def)
  qed (use found [of q] in \<open>simp add: identityRow_def\<close>)
  moreover have "confirmIdentityUpdate again i ?db2 = (Inr False, ?db2)"
    by (simp add: confirmIdentityUpdate_def js_get_delete)
  moreover have "js_get (db_state ?db2) k = js_get (db_state db) k" if "k \<noteq> proposalKey i" for k
    using that p by (simp add: js_get_delete js_get_set)
  ultimately show ?thesis using p(1) r' by blast
qed

theorem proposal_roundtrip_witness:
  "\<exists>r' db2. confirmIdentityUpdate 9 ''x'' (snd (proposeIdentityUpdate ''x'' 8 ''p'' ''expertise'' ''law, tax'' ''asked'' example_profiles)) = (Inr True, db2) \<and>
     identityRow ''p'' db2 = Some r' \<and> ai_expertise r' = [''law'', ''tax'']"
proof -
  obtain p db1 where s: "proposeIdentityUpdate ''x'' 8 ''p'' ''expertise'' ''law, tax'' ''asked'' example_profiles = (Inr p, db1)" "pr_id p = ''x''"
    by (simp add: proposeIdentityUpdate_def)
  have "identityRow ''p'' example_profiles = Some (hd (db_identity example_profiles))" "js_wf (db_state example_profiles)"
    by (simp_all add: identityRow_def example_profiles_def emptyDb_def)
  from proposal_roundtrip [OF s(1) this(1) _ this(2), of 9 9] obtain r' db2 where
    "confirmIdentityUpdate 9 (pr_id p) db1 = (Inr True, db2)" "set_column 9 ''expertise'' ''law, tax'' (hd (db_identity example_profiles)) = Some r'"
    "identityRow ''p'' db2 = Some r'" by auto
  then show ?thesis using s by (auto simp: set_column_def example_profiles_def trim_def trimStart_def is_space_def)
qed

end
