(* ===== verification/Memory_Reflection.thy ===== *)
theory Memory_Reflection
  imports Memory_Jobs Identity_Manager JSON_Text
begin

text \<open>
  \<^verbatim>\<open>src/src/orchestrator/reflection.ts\<close>: the job that makes reflections of depth 0 of the semantic memory of each
  profile, condenses reflections of one depth into some of the next, and lowers the confidence of reflections whose
  sources were contradicted. Shown: every state it leaves, failed steps included, is a graph whose links lead one depth
  down within one profile, with confidences between 0 and 1, so that every walk to the sources ends and stays in the
  profile; a condensation is supported by all that it was made of; one pass of the contradiction cascade is enough; and a
  profile that learns slowly is never reflected on.
\<close>

section \<open>Configuration\<close>

record ReflectionConfig =
  rf_enabled :: bool
  rf_reflectionModel :: string
  rf_maxInputTokens :: nat
  rf_minSemanticEntries :: nat
  rf_confidenceThreshold :: real
  rf_metaCondensationThreshold :: nat
  rf_d1MetaMaxTokens :: nat
  rf_d2MetaMaxTokens :: nat
  rf_maxMetaDepth :: nat
  rf_contradictionCascade :: bool

definition metaTypes :: "MetaMemoryType list" where
  "metaTypes = [Insight, Heuristic, Self_assessment]"

definition getPromptForDepth :: "nat \<Rightarrow> MetaMemoryType \<Rightarrow> Prompt" where
  "getPromptForDepth depth ty = Reflection_prompt (min depth 2) ty"

definition truncateToTokens :: "string \<Rightarrow> nat \<Rightarrow> string" where
  "truncateToTokens s maxTokens = (if length s \<le> maxTokens * 4 then s else take (maxTokens * 4) s)"

text \<open>\<^verbatim>\<open>Number(value)\<close> of the texts that the job writes; with another text the query fails.\<close>

definition readTime :: "string \<Rightarrow> time option" where
  "readTime s = (case parse_json s of Some (JNum n) \<Rightarrow> Some n | _ \<Rightarrow> None)"

definition lastReflectionAt :: "'v Db \<Rightarrow> time option" where
  "lastReflectionAt db = (case js_get (db_state db) ''last_reflection_at'' of None \<Rightarrow> Some 0 | Some v \<Rightarrow> readTime v)"

section \<open>Storing a reflection\<close>

definition reflectionRow :: "string \<Rightarrow> string \<Rightarrow> 'v \<Rightarrow> MetaMemoryType \<Rightarrow> real \<Rightarrow> nat \<Rightarrow> string \<Rightarrow> time \<Rightarrow> 'v MetaRow" where
  "reflectionRow newId content embedding ty confidence depth profileId now =
     \<lparr>mm_id = newId, mm_content = content, mm_embedding = embedding, mm_reflection_type = ty, mm_confidence = confidence, mm_depth = depth,
      mm_profile_id = profileId, mm_created_at = now, mm_updated_at = now, mm_last_accessed = now\<rparr>"

text \<open>A confidence that is not a number makes the statement fail.\<close>

definition storeReflection ::
  "'v JobServices \<Rightarrow> MetaMemoryType \<Rightarrow> nat \<Rightarrow> string \<Rightarrow> (string \<times> string \<Rightarrow> ('v, unit) db_op) \<Rightarrow> string list \<Rightarrow> string \<Rightarrow> real option \<Rightarrow> 'v \<Rightarrow> ('v, nat) db_op" where
  "storeReflection jo ty depth profileId link sources content confidence embedding =
     (case confidence of
        None \<Rightarrow> throwD ''memory_meta_confidence_check''
      | Some c \<Rightarrow>
          bindD (queryD (\<lambda>db. reflectionRow (jo_newId jo db) content embedding ty c depth profileId (jo_now jo db))) (\<lambda>row.
          bindD (insertMeta row) (\<lambda>metaId.
          bindD (forD sources (\<lambda>s. link (metaId, s))) (\<lambda>_.
          retD 1))))"

definition setConfidence :: "'v JobServices \<Rightarrow> string \<Rightarrow> real \<Rightarrow> ('v, unit) db_op" where
  "setConfidence jo i c =
     execD (\<lambda>db. db\<lparr>db_meta := map (\<lambda>r. if mm_id r = i then r\<lparr>mm_confidence := c, mm_updated_at := jo_now jo db\<rparr> else r) (db_meta db)\<rparr>)"

text \<open>
  The elements of the answer of the provider, each handled by \<open>f\<close> with its content and its confidence if it has a content. Reading a
  property of \<^verbatim>\<open>null\<close> throws; a content that is not a string makes a later step fail.
\<close>

definition eachReflection :: "'v JobServices \<Rightarrow> jv \<Rightarrow> (string \<Rightarrow> real option \<Rightarrow> ('v, nat) db_op) \<Rightarrow> ('v, nat) db_op" where
  "eachReflection jo answer f =
     (case answer of
        JvArr rs \<Rightarrow> sumD rs (\<lambda>r.
          if r = JvNull then throwD ''TypeError''
          else if falsy (jprop r ''content'') then retD 0
          else case jprop r ''content'' of
            Some (JvStr content) \<Rightarrow> f content (numberOr jo (5 / 10) (jprop r ''confidence''))
          | _ \<Rightarrow> throwD ''TypeError'')
      | _ \<Rightarrow> retD 0)"

section \<open>Depth 0\<close>

definition similarReflections :: "string \<Rightarrow> MetaMemoryType \<Rightarrow> nat \<Rightarrow> 'v Db \<Rightarrow> 'v MetaRow list" where
  "similarReflections profileId ty depth db =
     filter (\<lambda>r. mm_profile_id r = profileId \<and> mm_reflection_type r = ty \<and> mm_depth r = depth \<and> mm_confidence r \<ge> 2 / 10) (db_meta db)"

definition computeSimilarity :: "'v JobServices \<Rightarrow> 'v \<Rightarrow> string \<Rightarrow> 'v Db \<Rightarrow> real" where
  "computeSimilarity jo embedding metaId db =
     (case metaRow metaId db of Some r \<Rightarrow> sv_sim (jo_services jo) (mm_embedding r) embedding | None \<Rightarrow> 0)"

text \<open>What a reflection that is found near the new one changes: it is confirmed, or perhaps contradicted, or neither.\<close>

definition meetExisting :: "'v JobServices \<Rightarrow> 'v \<Rightarrow> ('v, nat) db_op \<Rightarrow> 'v MetaRow \<Rightarrow> ('v, nat) db_op" where
  "meetExisting jo embedding store existingEntry =
     bindD (queryD (computeSimilarity jo embedding (mm_id existingEntry))) (\<lambda>similarity.
     if similarity > 85 / 100
     then bindD (setConfidence jo (mm_id existingEntry) (confirmConfidence (mm_confidence existingEntry))) (\<lambda>_. retD 0)
     else if similarity > 7 / 10
     then bindD (setConfidence jo (mm_id existingEntry) (contradictConfidence (mm_confidence existingEntry))) (\<lambda>_. store)
     else store)"

definition reflectOne ::
  "ReflectionConfig \<Rightarrow> 'v JobServices \<Rightarrow> MetaMemoryType \<Rightarrow> string list \<Rightarrow> string \<Rightarrow> nat \<Rightarrow> string \<Rightarrow> real option \<Rightarrow> ('v, nat) db_op" where
  "reflectOne cfg jo ty sourceIds profileId depth content conf =
     (let confidence = map_option (\<lambda>c. max (rf_confidenceThreshold cfg) (min (9 / 10) c)) conf in
      bindD (embed (jo_services jo) content) (\<lambda>embedding.
      bindD (queryD (\<lambda>db. nearestRows (jo_services jo) embedding 1 mm_id mm_embedding (similarReflections profileId ty depth db))) (\<lambda>existing.
      let store = storeReflection jo ty depth profileId insert_mms sourceIds content confidence embedding in
      case existing of [] \<Rightarrow> store | (existingEntry, _) # _ \<Rightarrow> meetExisting jo embedding store existingEntry)))"

definition runReflection ::
  "ReflectionConfig \<Rightarrow> 'v JobServices \<Rightarrow> MetaMemoryType \<Rightarrow> Prompt \<Rightarrow> string \<Rightarrow> string list \<Rightarrow> string \<Rightarrow> nat \<Rightarrow> ('v, nat) db_op" where
  "runReflection cfg jo ty systemPrompt content sourceIds profileId depth =
     tryD
       (bindD (summarize jo content \<lparr>su_model = rf_reflectionModel cfg, su_maxTokens = 500, su_systemPrompt = systemPrompt\<rparr>) (\<lambda>result.
        bindD (parseJson jo result) (\<lambda>answer.
        eachReflection jo answer (reflectOne cfg jo ty sourceIds profileId depth))))
       0"

definition recentEntries :: "string \<Rightarrow> time \<Rightarrow> 'v Db \<Rightarrow> 'v SemanticRow list" where
  "recentEntries profileId since db =
     sort_key (\<lambda>r. - sm_created_at r) (filter (\<lambda>r. sm_profile_id r = profileId \<and> sm_created_at r > since) (db_semantic db))"

definition entryText :: "'v JobServices \<Rightarrow> 'v SemanticRow \<Rightarrow> string" where
  "entryText jo e = ''['' @ semanticTypeName (sm_memory_type e) @ ''] (importance: '' @ jo_numText jo (sm_importance e) @ ''): '' @ sm_content e"

definition generateD0 :: "ReflectionConfig \<Rightarrow> 'v JobServices \<Rightarrow> string \<Rightarrow> ('v, nat) db_op" where
  "generateD0 cfg jo profileId =
     bindD (queryD lastReflectionAt) (\<lambda>last.
     case last of None \<Rightarrow> throwD ''invalid input syntax for type bigint''
     | Some since \<Rightarrow>
         bindD (queryD (recentEntries profileId since)) (\<lambda>entries.
         if length entries < rf_minSemanticEntries cfg then retD 0
         else
           let truncated = truncateToTokens (join_with [CHR 0x0A] (map (entryText jo) entries)) (rf_maxInputTokens cfg) in
           sumD metaTypes (\<lambda>ty. runReflection cfg jo ty (getPromptForDepth 0 ty) truncated (map sm_id entries) profileId 0)))"

section \<open>Greater depths\<close>

definition uncondensedMeta :: "string \<Rightarrow> MetaMemoryType \<Rightarrow> nat \<Rightarrow> 'v Db \<Rightarrow> 'v MetaRow list" where
  "uncondensedMeta profileId ty depth db =
     sort_key mm_created_at (filter (\<lambda>r. mm_profile_id r = profileId \<and> mm_reflection_type r = ty \<and> mm_depth r = depth \<and>
       mm_confidence r \<ge> 2 / 10 \<and> mm_id r \<notin> snd ` set (db_mps db)) (db_meta db))"

definition confidenceFloor :: "'v MetaRow list \<Rightarrow> real" where
  "confidenceFloor rs = min (95 / 100) (sum_list (map mm_confidence rs) / real (length rs) + 5 / 100)"

definition runCondensation ::
  "ReflectionConfig \<Rightarrow> 'v JobServices \<Rightarrow> MetaMemoryType \<Rightarrow> Prompt \<Rightarrow> string \<Rightarrow> string list \<Rightarrow> string \<Rightarrow> nat \<Rightarrow> real \<Rightarrow> nat \<Rightarrow> ('v, nat) db_op" where
  "runCondensation cfg jo ty systemPrompt content childIds profileId depth confFloor maxTokens =
     tryD
       (bindD (summarize jo content \<lparr>su_model = rf_reflectionModel cfg, su_maxTokens = maxTokens, su_systemPrompt = systemPrompt\<rparr>) (\<lambda>result.
        bindD (parseJson jo result) (\<lambda>answer.
        eachReflection jo answer (\<lambda>text1 conf.
          bindD (embed (jo_services jo) text1) (\<lambda>embedding.
          storeReflection jo ty depth profileId insert_mps childIds text1 (map_option (\<lambda>c. max confFloor (min (95 / 100) c)) conf) embedding)))))
       0"

definition metaText :: "'v MetaRow \<Rightarrow> string" where
  "metaText r = ''(confidence: '' @ toFixed 2 (mm_confidence r) @ ''): '' @ mm_content r"

definition condenseMetaType :: "ReflectionConfig \<Rightarrow> 'v JobServices \<Rightarrow> nat \<Rightarrow> nat \<Rightarrow> string \<Rightarrow> MetaMemoryType \<Rightarrow> ('v, nat) db_op" where
  "condenseMetaType cfg jo sourceDepth targetDepth profileId ty =
     bindD (queryD (uncondensedMeta profileId ty sourceDepth)) (\<lambda>rs.
     if length rs < rf_metaCondensationThreshold cfg then retD 0
     else
       let maxTokens = (if targetDepth = 1 then rf_d1MetaMaxTokens cfg else rf_d2MetaMaxTokens cfg) in
       runCondensation cfg jo ty (getPromptForDepth targetDepth ty) (truncateToTokens (join_with [CHR 0x0A] (map metaText rs)) (maxTokens * 4))
         (map mm_id rs) profileId targetDepth (confidenceFloor rs) maxTokens)"

definition condenseMeta :: "ReflectionConfig \<Rightarrow> 'v JobServices \<Rightarrow> nat \<Rightarrow> nat \<Rightarrow> string \<Rightarrow> ('v, nat) db_op" where
  "condenseMeta cfg jo sourceDepth targetDepth profileId = sumD metaTypes (condenseMetaType cfg jo sourceDepth targetDepth profileId)"

text \<open>The loop over the depths, which a depth without anything new ends: \<open>n\<close> more depths, the next being \<open>depth\<close>.\<close>

fun condenseDepths :: "ReflectionConfig \<Rightarrow> 'v JobServices \<Rightarrow> string \<Rightarrow> nat \<Rightarrow> nat \<Rightarrow> ('v, nat) db_op" where
  "condenseDepths cfg jo profileId depth 0 = retD 0"
| "condenseDepths cfg jo profileId depth (Suc n) =
     bindD (condenseMeta cfg jo (depth - 1) depth profileId) (\<lambda>created.
     if created = 0 then retD 0
     else bindD (condenseDepths cfg jo profileId (Suc depth) n) (\<lambda>rest. retD (created + rest)))"

section \<open>The contradiction cascade\<close>

definition cascadeParents :: "string \<Rightarrow> nat \<Rightarrow> 'v Db \<Rightarrow> 'v MetaRow list" where
  "cascadeParents profileId depth db =
     filter (\<lambda>r. mm_profile_id r = profileId \<and> mm_depth r = depth \<and> mm_confidence r \<ge> 2 / 10 \<and> mm_id r \<in> fst ` set (db_mps db)) (db_meta db)"

definition childrenOf :: "string \<Rightarrow> 'v Db \<Rightarrow> 'v MetaRow list" where
  "childrenOf parentId db = filter (\<lambda>r. (parentId, mm_id r) \<in> set (db_mps db)) (db_meta db)"

definition mostly_low :: "'v MetaRow list \<Rightarrow> bool" where
  "mostly_low cs \<longleftrightarrow> cs \<noteq> [] \<and> real (length (filter (\<lambda>r. mm_confidence r < 2 / 10) cs)) / real (length cs) > 1 / 2"

definition cascadeParent :: "'v JobServices \<Rightarrow> 'v MetaRow \<Rightarrow> ('v, nat) db_op" where
  "cascadeParent jo parent =
     bindD (queryD (childrenOf (mm_id parent))) (\<lambda>cs.
     if mostly_low cs then bindD (setConfidence jo (mm_id parent) (contradictConfidence (mm_confidence parent))) (\<lambda>_. retD 1)
     else retD 0)"

definition runContradictionCascade :: "ReflectionConfig \<Rightarrow> 'v JobServices \<Rightarrow> string \<Rightarrow> ('v, nat) db_op" where
  "runContradictionCascade cfg jo profileId =
     sumD [1..<Suc (rf_maxMetaDepth cfg)] (\<lambda>depth. bindD (queryD (cascadeParents profileId depth)) (\<lambda>ps. sumD ps (cascadeParent jo)))"

section \<open>A run\<close>

definition runForProfile :: "ReflectionConfig \<Rightarrow> 'v JobServices \<Rightarrow> string \<Rightarrow> ('v, nat) db_op" where
  "runForProfile cfg jo profileId =
     bindD (generateD0 cfg jo profileId) (\<lambda>n.
     bindD (condenseDepths cfg jo profileId 1 (rf_maxMetaDepth cfg)) (\<lambda>k.
     bindD (if rf_contradictionCascade cfg then runContradictionCascade cfg jo profileId else retD 0) (\<lambda>_.
     retD (n + k))))"

text \<open>\<open>running\<close> is the flag at the call, as for the consolidation.\<close>

definition runReflections :: "ReflectionConfig \<Rightarrow> 'v JobServices \<Rightarrow> bool \<Rightarrow> ('v, nat) db_op" where
  "runReflections cfg jo running =
     (if running \<or> \<not> rf_enabled cfg then retD 0
      else bindD (queryD (\<lambda>db. sort_key (\<lambda>i. i) (map ap_id (db_profiles db)))) (\<lambda>profiles.
        bindD (sumD profiles (runForProfile cfg jo)) (\<lambda>totalCreated.
        bindD (queryD (\<lambda>db. show_int (jo_now jo db))) (\<lambda>t.
        bindD (setState ''last_reflection_at'' t) (\<lambda>_.
        retD totalCreated)))))"

section \<open>The graph of the reflections\<close>

definition meta_at :: "'v Db \<Rightarrow> string \<Rightarrow> nat \<Rightarrow> string \<Rightarrow> MetaMemoryType \<Rightarrow> bool" where
  "meta_at db i d pid ty \<longleftrightarrow>
     (\<exists>r \<in> set (db_meta db). mm_id r = i \<and> mm_depth r = d \<and> mm_profile_id r = pid \<and> mm_reflection_type r = ty)"

lemma meta_at_ids: "meta_at db i d pid ty \<Longrightarrow> i \<in> meta_ids db"
  unfolding meta_at_def meta_ids_def by (elim bexE conjE) (rule rev_image_eqI, assumption, simp)

definition semantic_at :: "'v Db \<Rightarrow> string \<Rightarrow> string \<Rightarrow> bool" where
  "semantic_at db i pid \<longleftrightarrow> (\<exists>r \<in> set (db_semantic db). sm_id r = i \<and> sm_profile_id r = pid)"

lemma semantic_at_ids: "semantic_at db i pid \<Longrightarrow> i \<in> semantic_ids db"
  unfolding semantic_at_def semantic_ids_def by (elim bexE conjE) (rule rev_image_eqI, assumption, simp)

text \<open>
  Links lead one depth down between reflections of one kind and one profile, and from depth 0 to memories of the profile.
\<close>

definition reflection_ok :: "'v Db \<Rightarrow> bool" where
  "reflection_ok db \<longleftrightarrow>
     (\<forall>e \<in> set (db_mps db). \<exists>d pid ty. meta_at db (fst e) (Suc d) pid ty \<and> meta_at db (snd e) d pid ty) \<and>
     (\<forall>e \<in> set (db_mms db). \<exists>pid ty. meta_at db (fst e) 0 pid ty \<and> semantic_at db (snd e) pid) \<and>
     (\<forall>r \<in> set (db_meta db). 0 \<le> mm_confidence r \<and> mm_confidence r \<le> 1)"

text \<open>What of a reflection never changes.\<close>

definition core :: "'v MetaRow \<Rightarrow> 'v MetaRow" where
  "core r = r\<lparr>mm_confidence := 0, mm_updated_at := 0\<rparr>"

lemma core_fields [simp]: "mm_id (core r) = mm_id r" "mm_depth (core r) = mm_depth r" "mm_profile_id (core r) = mm_profile_id r"
    "mm_reflection_type (core r) = mm_reflection_type r"
  by (simp_all add: core_def)

lemma core_update [simp]: "core (r\<lparr>mm_confidence := c, mm_updated_at := t\<rparr>) = core r"
  by (simp add: core_def)

lemma meta_at_core: "meta_at db i d pid ty \<longleftrightarrow>
    (\<exists>r \<in> set (map core (db_meta db)). mm_id r = i \<and> mm_depth r = d \<and> mm_profile_id r = pid \<and> mm_reflection_type r = ty)"
  by (simp add: meta_at_def)

definition grows_meta :: "'v Db \<Rightarrow> 'v Db \<Rightarrow> bool" where
  "grows_meta db0 db \<longleftrightarrow>
     db = db0\<lparr>db_meta := db_meta db, db_mms := db_mms db, db_mps := db_mps db, db_state := db_state db\<rparr> \<and>
     (\<exists>rs. map core (db_meta db) = map core (db_meta db0) @ rs) \<and>
     set (db_mms db0) \<subseteq> set (db_mms db) \<and> set (db_mps db0) \<subseteq> set (db_mps db)"

lemma grows_same:
  assumes "grows_meta db0 db"
  shows "db_profiles db = db_profiles db0" "db_chats db = db_chats db0" "db_working db = db_working db0" "db_sessions db = db_sessions db0"
    "db_semantic db = db_semantic db0" "db_external db = db_external db0" "db_sms db = db_sms db0" "db_sps db = db_sps db0"
    "db_identity db = db_identity db0" "db_personality db = db_personality db0" "db_user_identity db = db_user_identity db0"
    "db_user_personality db = db_user_personality db0"
proof -
  have e: "db = db0\<lparr>db_meta := db_meta db, db_mms := db_mms db, db_mps := db_mps db, db_state := db_state db\<rparr>"
    using assms unfolding grows_meta_def by blast
  show "db_profiles db = db_profiles db0" "db_chats db = db_chats db0" "db_working db = db_working db0" "db_sessions db = db_sessions db0"
    "db_semantic db = db_semantic db0" "db_external db = db_external db0" "db_sms db = db_sms db0" "db_sps db = db_sps db0"
    "db_identity db = db_identity db0" "db_personality db = db_personality db0" "db_user_identity db = db_user_identity db0"
    "db_user_personality db = db_user_personality db0" by (subst e, simp)+
qed

lemma grows_refl [simp]: "grows_meta db db"
  by (simp add: grows_meta_def)

lemma grows_trans:
  assumes "grows_meta db0 db1" "grows_meta db1 db2"
  shows "grows_meta db0 db2"
proof -
  have "db2 = db0\<lparr>db_meta := db_meta db2, db_mms := db_mms db2, db_mps := db_mps db2, db_state := db_state db2\<rparr>"
    by (rule Db.equality) (simp_all add: grows_same [OF assms(1)] grows_same [OF assms(2)])
  moreover have "\<exists>rs. map core (db_meta db2) = map core (db_meta db0) @ rs"
    using assms unfolding grows_meta_def by (metis append.assoc)
  ultimately show ?thesis using assms unfolding grows_meta_def by blast
qed

lemma grows_meta_at: "grows_meta db0 db \<Longrightarrow> meta_at db0 i d pid ty \<Longrightarrow> meta_at db i d pid ty"
  unfolding meta_at_core grows_meta_def by (metis Un_iff set_append)

lemma grows_semantic_at: "grows_meta db0 db \<Longrightarrow> semantic_at db i pid = semantic_at db0 i pid"
  by (simp add: semantic_at_def grows_same)

definition refl_inv :: "'v Db \<Rightarrow> 'v Db \<Rightarrow> bool" where
  "refl_inv db0 db \<longleftrightarrow> grows_meta db0 db \<and> db_ok db \<and> reflection_ok db"

lemma refl_inv_trans: "refl_inv db0 db1 \<Longrightarrow> refl_inv db1 db2 \<Longrightarrow> refl_inv db0 db2"
  unfolding refl_inv_def using grows_trans by blast

lemma refl_inv_base: "refl_inv db0 db \<Longrightarrow> refl_inv db db"
  by (simp add: refl_inv_def)

text \<open>An operation keeps the invariant when it does from its own start.\<close>

lemma maintains_from_start:
  assumes "\<And>X. refl_inv X X \<Longrightarrow> hoareD (\<lambda>db. db = X) m (\<lambda>_. refl_inv X) (refl_inv X)"
  shows "maintains (refl_inv D) m"
proof (rule maintainsI)
  fix db assume D: "refl_inv D db"
  have "refl_inv db (snd (m db))" using hoareD_both [OF assms [OF refl_inv_base [OF D]]] by blast
  then show "refl_inv D (snd (m db))" by (rule refl_inv_trans [OF D])
qed

section \<open>The statements keep the graph\<close>

lemma insertMeta_cases: "insertMeta r db = (Inl e, db') \<Longrightarrow> db' = db"
    "insertMeta r db = (Inr i, db') \<Longrightarrow> i = mm_id r \<and> db' = db\<lparr>db_meta := db_meta db @ [r]\<rparr>"
  by (auto simp: insertMeta_def split: if_splits)

lemma insertMeta_inv:
  assumes "refl_inv D db" "mm_id r \<notin> meta_ids db"
  shows "refl_inv D (snd (insertMeta r db))"
proof (cases "0 \<le> mm_confidence r \<and> mm_confidence r \<le> 1 \<and> mm_profile_id r \<in> profile_ids db")
  case True
  let ?db = "db\<lparr>db_meta := db_meta db @ [r]\<rparr>"
  have eq: "snd (insertMeta r db) = ?db" using True by (simp add: insertMeta_def)
  have g: "grows_meta db ?db" by (simp add: grows_meta_def)
  have "grows_meta D ?db" using assms(1) grows_trans [OF _ g] unfolding refl_inv_def by blast
  moreover have "db_ok ?db"
  proof -
    have "joins_ok ?db" using assms(1) unfolding refl_inv_def db_ok_def joins_ok_def semantic_ids_def meta_ids_def message_keys_def by simp blast
    moreover have "profile_refs ?db \<subseteq> profile_ids ?db"
      using assms(1) True unfolding refl_inv_def db_ok_def profile_refs_def profile_ids_def by auto
    moreover have "ids_distinct ?db" using assms unfolding refl_inv_def db_ok_def ids_distinct_def meta_ids_def by auto
    ultimately show ?thesis using assms(1) unfolding refl_inv_def db_ok_def by simp
  qed
  moreover have "reflection_ok ?db"
  proof -
    have "\<exists>d pid ty. meta_at ?db (fst e) (Suc d) pid ty \<and> meta_at ?db (snd e) d pid ty" if "e \<in> set (db_mps db)" for e
      using that assms(1) grows_meta_at [OF g] unfolding refl_inv_def reflection_ok_def by blast
    moreover have "\<exists>pid ty. meta_at ?db (fst e) 0 pid ty \<and> semantic_at ?db (snd e) pid" if "e \<in> set (db_mms db)" for e
      using that assms(1) grows_meta_at [OF g] grows_semantic_at [OF g] unfolding refl_inv_def reflection_ok_def by blast
    moreover have "0 \<le> mm_confidence x \<and> mm_confidence x \<le> 1" if "x \<in> set (db_meta ?db)" for x
      using that assms(1) True unfolding refl_inv_def reflection_ok_def by auto
    ultimately show ?thesis unfolding reflection_ok_def by simp
  qed
  ultimately show ?thesis unfolding eq refl_inv_def by blast
next
  case False
  then have "snd (insertMeta r db) = db" by (auto simp: insertMeta_def)
  then show ?thesis using assms(1) by simp
qed

lemma ids_distinct_meta: "ids_distinct db \<Longrightarrow> distinct (map mm_id xs) \<Longrightarrow> ids_distinct (db\<lparr>db_meta := xs\<rparr>)"
  by (simp add: ids_distinct_def)

lemma setConfidence_inv:
  assumes "refl_inv D db" "0 \<le> c" "c \<le> 1"
  shows "refl_inv D (snd (setConfidence jo i c db))"
proof -
  let ?up = "\<lambda>r. if mm_id r = i then r\<lparr>mm_confidence := c, mm_updated_at := jo_now jo db\<rparr> else r"
  let ?db = "db\<lparr>db_meta := map ?up (db_meta db)\<rparr>"
  have eq: "snd (setConfidence jo i c db) = ?db" by (simp add: setConfidence_def execD_def)
  have core: "map core (db_meta ?db) = map core (db_meta db)" by simp
  have ids: "map mm_id (map ?up (db_meta db)) = map mm_id (db_meta db)" by simp
  have "map mm_profile_id (db_meta ?db) = map mm_profile_id (db_meta db)" by simp
  then have prof: "mm_profile_id ` set (db_meta ?db) = mm_profile_id ` set (db_meta db)" by (metis set_map)
  have g: "grows_meta db ?db" unfolding grows_meta_def core by simp
  have at: "meta_at ?db = meta_at db" unfolding fun_eq_iff meta_at_core core by blast
  have "grows_meta D ?db" using assms(1) grows_trans [OF _ g] unfolding refl_inv_def by blast
  moreover have "db_ok ?db"
  proof -
    have m: "meta_ids ?db = meta_ids db"
    proof -
      have "db_meta ?db = map ?up (db_meta db)" by simp
      then have "set (map mm_id (db_meta ?db)) = set (map mm_id (db_meta db))" using ids by (simp only:)
      then show ?thesis unfolding meta_ids_def set_map .
    qed
    have "joins_ok ?db" using assms(1) m unfolding refl_inv_def db_ok_def joins_ok_def by (simp add: semantic_ids_def message_keys_def)
    moreover have "ids_distinct ?db"
    proof (rule ids_distinct_meta)
      show "ids_distinct db" using assms(1) unfolding refl_inv_def db_ok_def by blast
      then show "distinct (map mm_id (map ?up (db_meta db)))" unfolding ids ids_distinct_def by blast
    qed
    moreover have "profile_refs ?db \<subseteq> profile_ids ?db"
      using assms(1) prof unfolding refl_inv_def db_ok_def profile_refs_def profile_ids_def by simp
    ultimately show ?thesis using assms(1) unfolding refl_inv_def db_ok_def by simp
  qed
  moreover have "reflection_ok ?db"
    using assms unfolding refl_inv_def reflection_ok_def at semantic_at_def by auto
  ultimately show ?thesis unfolding eq refl_inv_def by blast
qed

lemma insert_mms_inv:
  assumes "refl_inv D db" "meta_at db (fst e) 0 pid ty" "semantic_at db (snd e) pid"
  shows "refl_inv D (snd (insert_mms e db))" "meta_at (snd (insert_mms e db)) = meta_at db"
proof -
  let ?db = "db\<lparr>db_mms := insert_new e (db_mms db)\<rparr>"
  have ids: "fst e \<in> meta_ids db" "snd e \<in> semantic_ids db"
    using meta_at_ids [OF assms(2)] semantic_at_ids [OF assms(3)] .
  then have eq: "snd (insert_mms e db) = ?db" by (simp add: insert_mms_def)
  have at: "meta_at ?db = meta_at db" by (simp add: meta_at_def fun_eq_iff)
  have g: "grows_meta db ?db" by (auto simp: grows_meta_def)
  have "grows_meta D ?db" using assms(1) grows_trans [OF _ g] unfolding refl_inv_def by blast
  moreover have "db_ok ?db"
  proof -
    have "joins_ok ?db" using assms(1) ids unfolding refl_inv_def db_ok_def joins_ok_def
      by (cases e) (simp add: semantic_ids_def meta_ids_def message_keys_def)
    then show ?thesis using assms(1) unfolding refl_inv_def db_ok_def ids_distinct_def profile_refs_def profile_ids_def by simp
  qed
  moreover have "reflection_ok ?db" using assms unfolding refl_inv_def reflection_ok_def at semantic_at_def by auto
  ultimately show "refl_inv D (snd (insert_mms e db))" unfolding eq refl_inv_def by blast
  show "meta_at (snd (insert_mms e db)) = meta_at db" unfolding eq at ..
qed

lemma insert_mps_inv:
  assumes "refl_inv D db" "meta_at db (fst e) (Suc d) pid ty" "meta_at db (snd e) d pid ty"
  shows "refl_inv D (snd (insert_mps e db))" "meta_at (snd (insert_mps e db)) = meta_at db"
proof -
  let ?db = "db\<lparr>db_mps := insert_new e (db_mps db)\<rparr>"
  have ids: "fst e \<in> meta_ids db" "snd e \<in> meta_ids db" using meta_at_ids [OF assms(2)] meta_at_ids [OF assms(3)] .
  then have eq: "snd (insert_mps e db) = ?db" by (simp add: insert_mps_def)
  have at: "meta_at ?db = meta_at db" by (simp add: meta_at_def fun_eq_iff)
  have g: "grows_meta db ?db" by (auto simp: grows_meta_def)
  have "grows_meta D ?db" using assms(1) grows_trans [OF _ g] unfolding refl_inv_def by blast
  moreover have "db_ok ?db"
  proof -
    have "joins_ok ?db" using assms(1) ids unfolding refl_inv_def db_ok_def joins_ok_def
      by (cases e) (simp add: semantic_ids_def meta_ids_def message_keys_def)
    then show ?thesis using assms(1) unfolding refl_inv_def db_ok_def ids_distinct_def profile_refs_def profile_ids_def by simp
  qed
  moreover have "reflection_ok ?db" using assms unfolding refl_inv_def reflection_ok_def at semantic_at_def by auto
  ultimately show "refl_inv D (snd (insert_mps e db))" unfolding eq refl_inv_def by blast
  show "meta_at (snd (insert_mps e db)) = meta_at db" unfolding eq at ..
qed

section \<open>A run keeps the graph\<close>

lemma refl_inv_meta_at: "refl_inv D db \<Longrightarrow> meta_at D i d pid ty \<Longrightarrow> meta_at db i d pid ty"
  unfolding refl_inv_def using grows_meta_at by blast

lemma refl_inv_semantic_at: "refl_inv D db \<Longrightarrow> semantic_at db i pid = semantic_at D i pid"
  unfolding refl_inv_def using grows_semantic_at by blast

lemma storeReflection_maintains:
  assumes fresh: "ids_fresh jo"
    and link: "\<And>i s. s \<in> set sources \<Longrightarrow> maintains (\<lambda>db. refl_inv D db \<and> meta_at db i depth pid ty) (link (i, s))"
  shows "maintains (refl_inv D) (storeReflection jo ty depth pid link sources content confidence e)"
proof (cases confidence)
  case None
  then show ?thesis by (simp add: storeReflection_def maintains_intros)
next
  case (Some c)
  let ?row = "\<lambda>db. reflectionRow (jo_newId jo db) content e ty c depth pid (jo_now jo db)"
  have store: "hoareD (\<lambda>db. refl_inv D db \<and> mm_id row \<notin> meta_ids db \<and> mm_depth row = depth \<and> mm_profile_id row = pid \<and> mm_reflection_type row = ty)
      (insertMeta row) (\<lambda>i db. refl_inv D db \<and> meta_at db i depth pid ty) (refl_inv D)" for row
  proof (rule hoareDI)
    fix db assume P: "refl_inv D db \<and> mm_id row \<notin> meta_ids db \<and> mm_depth row = depth \<and> mm_profile_id row = pid \<and> mm_reflection_type row = ty"
    obtain x db1 where run: "insertMeta row db = (x, db1)" by force
    have inv: "refl_inv D db1" using insertMeta_inv [of D db row] P run by simp
    show "case insertMeta row db of (Inr i, db1) \<Rightarrow> refl_inv D db1 \<and> meta_at db1 i depth pid ty | (Inl e, db1) \<Rightarrow> refl_inv D db1"
    proof (cases x)
      case (Inr i)
      then have "i = mm_id row" "row \<in> set (db_meta db1)" using insertMeta_cases(2) [of row db i db1] run by auto
      then have "meta_at db1 i depth pid ty" using P unfolding meta_at_def by blast
      then show ?thesis unfolding run Inr using inv by simp
    qed (use inv run in simp)
  qed
  have "hoareD (refl_inv D) (bindD (queryD ?row) (\<lambda>row. bindD (insertMeta row) (\<lambda>i. bindD (forD sources (\<lambda>s. link (i, s))) (\<lambda>_. retD (1 :: nat))))) (\<lambda>_. refl_inv D) (refl_inv D)"
  proof (rule hoareD_bind)
    show "hoareD (refl_inv D) (queryD ?row) (\<lambda>row db. refl_inv D db \<and> mm_id row \<notin> meta_ids db \<and> mm_depth row = depth \<and> mm_profile_id row = pid \<and> mm_reflection_type row = ty)
       (refl_inv D)"
      by (rule hoareD_query) (use fresh in \<open>simp add: reflectionRow_def ids_fresh_def\<close>)
    fix row
    show "hoareD (\<lambda>db. refl_inv D db \<and> mm_id row \<notin> meta_ids db \<and> mm_depth row = depth \<and> mm_profile_id row = pid \<and> mm_reflection_type row = ty)
      (bindD (insertMeta row) (\<lambda>i. bindD (forD sources (\<lambda>s. link (i, s))) (\<lambda>_. retD (1 :: nat)))) (\<lambda>_. refl_inv D) (refl_inv D)"
    proof (rule hoareD_bind [OF store])
      fix i
      have "maintains (\<lambda>db. refl_inv D db \<and> meta_at db i depth pid ty) (forD sources (\<lambda>s. link (i, s)))"
        by (rule maintains_for) (rule link)
      then have "maintains (\<lambda>db. refl_inv D db \<and> meta_at db i depth pid ty) (bindD (forD sources (\<lambda>s. link (i, s))) (\<lambda>_. retD (1 :: nat)))"
        by (intro maintains_bind maintains_intros)
      then show "hoareD (\<lambda>db. refl_inv D db \<and> meta_at db i depth pid ty) (bindD (forD sources (\<lambda>s. link (i, s))) (\<lambda>_. retD (1 :: nat))) (\<lambda>_. refl_inv D) (refl_inv D)"
        unfolding maintains_def by (rule hoareD_weaken) auto
    qed
  qed
  then show ?thesis using Some unfolding maintains_def storeReflection_def by simp
qed

lemma setConfidence_maintains: "0 \<le> c \<Longrightarrow> c \<le> 1 \<Longrightarrow> maintains (refl_inv D) (setConfidence jo i c)"
  by (rule maintainsI) (rule setConfidence_inv)

lemma confidence_steps:
  assumes "0 \<le> c" "c \<le> 1"
  shows "0 \<le> confirmConfidence c" "confirmConfidence c \<le> 1" "0 \<le> contradictConfidence c" "contradictConfidence c \<le> 1"
  using assms by (simp_all add: confirmConfidence_def contradictConfidence_def)

lemma eachReflection_maintains: "(\<And>c x. maintains P (f c x)) \<Longrightarrow> maintains P (eachReflection jo answer f)"
  unfolding eachReflection_def
  by (cases answer) (auto intro!: maintains_intros maintains_sum split: option.split jv.split)

lemma meetExisting_maintains:
  assumes "0 \<le> mm_confidence r" "mm_confidence r \<le> 1" "maintains (refl_inv D) store"
  shows "maintains (refl_inv D) (meetExisting jo e store r)"
  unfolding meetExisting_def
  using assms by (auto intro!: maintains_bind maintains_intros setConfidence_maintains confidence_steps)

lemma reflectOne_maintains:
  fixes jo :: "'v JobServices"
  assumes fresh: "ids_fresh jo" and src: "\<forall>s \<in> set sourceIds. semantic_at D s pid"
  shows "maintains (refl_inv D) (reflectOne cfg jo ty sourceIds pid 0 content conf)"
proof -
  have link: "maintains (\<lambda>db. refl_inv D db \<and> meta_at db i 0 pid ty) (insert_mms (i, s))" if "s \<in> set sourceIds" for i s
  proof (rule maintainsI)
    fix db assume I: "refl_inv D db \<and> meta_at db i 0 pid ty"
    have "semantic_at db s pid" using src that I refl_inv_semantic_at by blast
    then show "refl_inv D (snd (insert_mms (i, s) db)) \<and> meta_at (snd (insert_mms (i, s) db)) i 0 pid ty"
      using insert_mms_inv [of D db "(i, s)" pid ty] I by simp
  qed
  have store: "maintains (refl_inv D) (storeReflection jo ty 0 pid insert_mms sourceIds content c e)" for c e
    by (rule storeReflection_maintains [OF fresh link])
  let ?near = "\<lambda>e db. nearestRows (jo_services jo) e 1 mm_id mm_embedding (similarReflections pid ty 0 db)"
  let ?R = "\<lambda>existing db. refl_inv D db \<and> (\<forall>x \<in> set existing. 0 \<le> mm_confidence (fst x) \<and> mm_confidence (fst x) \<le> 1)"
  have near: "hoareD (refl_inv D) (queryD (?near e)) ?R (refl_inv D)" for e
  proof (rule hoareD_query)
    fix db assume I: "refl_inv D db"
    have "0 \<le> mm_confidence (fst x) \<and> mm_confidence (fst x) \<le> 1" if "x \<in> set (?near e db)" for x
    proof -
      have "fst x \<in> set (similarReflections pid ty 0 db)" using nearestRows_sound [of "fst x" "snd x"] that by (metis prod.collapse)
      then have "fst x \<in> set (db_meta db)" by (simp add: similarReflections_def)
      then show ?thesis using I unfolding refl_inv_def reflection_ok_def by blast
    qed
    then show "?R (?near e db) db" using I by blast
  qed
  have settle: "hoareD (?R existing) (case existing of [] \<Rightarrow> st | (r, _) # _ \<Rightarrow> meetExisting jo e st r) (\<lambda>_. refl_inv D) (refl_inv D)"
    if "maintains (refl_inv D) st" for e st and existing :: "('v MetaRow \<times> real) list"
  proof (cases existing)
    case Nil
    then show ?thesis using that unfolding maintains_def by simp
  next
    case (Cons x xs)
    show ?thesis
    proof (cases "0 \<le> mm_confidence (fst x) \<and> mm_confidence (fst x) \<le> 1")
      case True
      then have "maintains (refl_inv D) (meetExisting jo e st (fst x))" using meetExisting_maintains [OF _ _ that] by simp
      then have "hoareD (?R existing) (meetExisting jo e st (fst x)) (\<lambda>_. refl_inv D) (refl_inv D)"
        unfolding maintains_def by (rule hoareD_weaken) blast+
      then show ?thesis unfolding Cons by (simp add: case_prod_beta)
    next
      case False
      then show ?thesis unfolding hoareD_def Cons by auto
    qed
  qed
  show ?thesis unfolding reflectOne_def Let_def maintains_def
    by (rule hoareD_bind [where R = "\<lambda>_. refl_inv D"], rule hoareD_embed, assumption, assumption, rule hoareD_bind [OF near], rule settle [OF store])
qed

lemma runReflection_maintains:
  assumes "ids_fresh jo" "\<forall>s \<in> set sourceIds. semantic_at D s pid"
  shows "maintains (refl_inv D) (runReflection cfg jo ty prompt content sourceIds pid 0)"
  unfolding runReflection_def
  by (intro maintains_try maintains_bind maintains_intros eachReflection_maintains reflectOne_maintains assms)

lemma generateD0_maintains:
  assumes "ids_fresh jo"
  shows "maintains (refl_inv D) (generateD0 cfg jo pid)"
proof (rule maintains_from_start, rule hoareDI)
  fix X db :: "'a Db" assume X: "refl_inv X X" and "db = X"
  have run: "maintains (refl_inv X) (sumD metaTypes (\<lambda>ty. runReflection cfg jo ty (getPromptForDepth 0 ty) c (map sm_id (recentEntries pid since X)) pid 0))" for c since
  proof (intro maintains_sum runReflection_maintains [OF assms] ballI)
    fix s assume "s \<in> set (map sm_id (recentEntries pid since X))"
    then show "semantic_at X s pid" by (auto simp: recentEntries_def semantic_at_def)
  qed
  have "refl_inv X (snd (generateD0 cfg jo pid X))"
    unfolding generateD0_def bindD_simps Let_def using maintainsD [OF run X] X
    by (auto simp: throwD_def retD_def bindD_simps split: option.split)
  then show "case generateD0 cfg jo pid db of (Inr x, db1) \<Rightarrow> refl_inv X db1 | (Inl e, db1) \<Rightarrow> refl_inv X db1"
    unfolding \<open>db = X\<close> by (auto split: prod.split sum.split)
qed

lemma condenseMetaType_maintains:
  assumes "ids_fresh jo"
  shows "maintains (refl_inv D) (condenseMetaType cfg jo d (Suc d) pid ty)"
proof (rule maintains_from_start, rule hoareDI)
  fix X db :: "'a Db" assume X: "refl_inv X X" and "db = X"
  let ?rs = "uncondensedMeta pid ty d X"
  have link: "maintains (\<lambda>db. refl_inv X db \<and> meta_at db i (Suc d) pid ty) (insert_mps (i, s))" if "s \<in> set (map mm_id ?rs)" for i s
  proof (rule maintainsI)
    fix db assume I: "refl_inv X db \<and> meta_at db i (Suc d) pid ty"
    have "meta_at X s d pid ty" using that by (auto simp: uncondensedMeta_def meta_at_def)
    then have "meta_at db s d pid ty" using I refl_inv_meta_at by blast
    then show "refl_inv X (snd (insert_mps (i, s) db)) \<and> meta_at (snd (insert_mps (i, s) db)) i (Suc d) pid ty"
      using insert_mps_inv [of X db "(i, s)" d pid ty] I by simp
  qed
  have run: "maintains (refl_inv X) (runCondensation cfg jo ty p c (map mm_id ?rs) pid (Suc d) fl mt)" for p c fl mt
    unfolding runCondensation_def
    by (intro maintains_try maintains_bind maintains_intros eachReflection_maintains storeReflection_maintains [OF assms] link)
  have "refl_inv X (snd (condenseMetaType cfg jo d (Suc d) pid ty X))"
    unfolding condenseMetaType_def bindD_simps Let_def using maintainsD [OF run X] X by (simp add: retD_def)
  then show "case condenseMetaType cfg jo d (Suc d) pid ty db of (Inr x, db1) \<Rightarrow> refl_inv X db1 | (Inl e, db1) \<Rightarrow> refl_inv X db1"
    unfolding \<open>db = X\<close> by (auto split: prod.split sum.split)
qed

lemma condenseDepths_maintains:
  assumes "ids_fresh jo"
  shows "maintains (refl_inv D) (condenseDepths cfg jo pid (Suc d) n)"
proof (induction n arbitrary: d)
  case 0
  then show ?case by (simp add: maintains_intros)
next
  case (Suc n)
  have "maintains (refl_inv D) (condenseMeta cfg jo d (Suc d) pid)"
    unfolding condenseMeta_def by (intro maintains_sum condenseMetaType_maintains assms)
  then show ?case using Suc by (auto intro!: maintains_bind maintains_intros)
qed

lemma cascadeParent_maintains:
  assumes "0 \<le> mm_confidence p" "mm_confidence p \<le> 1"
  shows "maintains (refl_inv D) (cascadeParent jo p)"
  unfolding cascadeParent_def using assms
  by (auto intro!: maintains_bind maintains_intros setConfidence_maintains confidence_steps)

lemma cascade_maintains: "maintains (refl_inv D) (runContradictionCascade cfg jo pid)"
  unfolding runContradictionCascade_def
proof (rule maintains_sum, rule maintains_from_start, rule hoareDI)
  fix depth and X db :: "'a Db" assume X: "refl_inv X X" and "db = X"
  have "maintains (refl_inv X) (sumD (cascadeParents pid depth X) (cascadeParent jo))"
  proof (intro maintains_sum)
    fix p assume "p \<in> set (cascadeParents pid depth X)"
    then have "p \<in> set (db_meta X)" by (simp add: cascadeParents_def)
    then have "0 \<le> mm_confidence p" "mm_confidence p \<le> 1" using X unfolding refl_inv_def reflection_ok_def by blast+
    then show "maintains (refl_inv X) (cascadeParent jo p)" by (rule cascadeParent_maintains)
  qed
  from maintainsD [OF this X]
  show "case bindD (queryD (cascadeParents pid depth)) (\<lambda>ps. sumD ps (cascadeParent jo)) db of (Inr x, db1) \<Rightarrow> refl_inv X db1 | (Inl e, db1) \<Rightarrow> refl_inv X db1"
    unfolding \<open>db = X\<close> bindD_simps by (auto split: prod.split sum.split)
qed

lemma setState_keeps_graph: "maintains (refl_inv D) (setState k v)"
proof (rule maintainsI)
  fix db :: "'a Db" assume I: "refl_inv D db"
  let ?db = "db\<lparr>db_state := js_set k v (db_state db)\<rparr>"
  have g: "grows_meta db ?db" by (simp add: grows_meta_def)
  have "db_ok ?db" using I
    by (simp add: refl_inv_def db_ok_def ids_distinct_def joins_ok_def profile_refs_def profile_ids_def semantic_ids_def meta_ids_def message_keys_def)
  moreover have "reflection_ok ?db" using I by (simp add: refl_inv_def reflection_ok_def meta_at_def semantic_at_def)
  moreover have "grows_meta D ?db" using I grows_trans [OF _ g] unfolding refl_inv_def by blast
  ultimately show "refl_inv D (snd (setState k v db))" by (simp add: setState_def execD_def refl_inv_def)
qed

lemma runReflections_maintains:
  assumes "ids_fresh jo"
  shows "maintains (refl_inv D) (runReflections cfg jo running)"
proof -
  have "maintains (refl_inv D) (runForProfile cfg jo pid)" for pid
    unfolding runForProfile_def One_nat_def
    by (intro maintains_bind maintains_intros generateD0_maintains condenseDepths_maintains assms)
      (auto intro!: cascade_maintains maintains_intros)
  then show ?thesis unfolding runReflections_def
    by (auto intro!: maintains_bind maintains_intros maintains_sum setState_keeps_graph)
qed

section \<open>The cascade in one pass\<close>

definition conf_at :: "'v Db \<Rightarrow> string \<Rightarrow> real" where
  "conf_at db i = (case metaRow i db of Some r \<Rightarrow> mm_confidence r | None \<Rightarrow> 0)"

text \<open>\<open>mostly_low\<close> of the children of \<open>p\<close> as a function of the confidences.\<close>

definition low_majority :: "'v Db \<Rightarrow> string \<Rightarrow> (string \<Rightarrow> real) \<Rightarrow> bool" where
  "low_majority db p c \<longleftrightarrow>
     (let cs = filter (\<lambda>i. (p, i) \<in> set (db_mps db)) (map mm_id (db_meta db)) in
      cs \<noteq> [] \<and> real (length (filter (\<lambda>i. c i < 2 / 10) cs)) / real (length cs) > 1 / 2)"

lemma conf_at_row:
  assumes "db_ok db" "r \<in> set (db_meta db)"
  shows "metaRow (mm_id r) db = Some r" "conf_at db (mm_id r) = mm_confidence r"
proof -
  have "find (\<lambda>x. mm_id x = mm_id r) (db_meta db) = Some r"
  proof (rule find_unique)
    show "x = r" if "x \<in> set (db_meta db)" "mm_id x = mm_id r" for x
      using that assms unfolding db_ok_def ids_distinct_def distinct_map inj_on_def by blast
  qed (use assms in simp_all)
  then show "metaRow (mm_id r) db = Some r" "conf_at db (mm_id r) = mm_confidence r" by (simp_all add: metaRow_def conf_at_def)
qed

lemma mostly_low_children: "db_ok db \<Longrightarrow> mostly_low (childrenOf p db) \<longleftrightarrow> low_majority db p (conf_at db)"
proof -
  assume ok: "db_ok db"
  have cs: "filter (\<lambda>i. (p, i) \<in> set (db_mps db)) (map mm_id (db_meta db)) = map mm_id (childrenOf p db)"
    by (simp add: childrenOf_def filter_map o_def)
  have "filter (\<lambda>i. conf_at db i < 2 / 10) (map mm_id (childrenOf p db)) = map mm_id (filter (\<lambda>r. mm_confidence r < 2 / 10) (childrenOf p db))"
    unfolding filter_map o_def by (rule arg_cong [of _ _ "map mm_id"], rule filter_cong [OF refl])
      (use conf_at_row(2) [OF ok] in \<open>simp add: childrenOf_def\<close>)
  then show ?thesis unfolding mostly_low_def low_majority_def Let_def cs by simp
qed

lemma low_majority_cong:
  assumes "map mm_id (db_meta db') = map mm_id (db_meta db)" "db_mps db' = db_mps db" "\<And>i. (p, i) \<in> set (db_mps db) \<Longrightarrow> c' i = c i"
  shows "low_majority db' p c' = low_majority db p c"
proof -
  have "filter (\<lambda>i. c' i < 2 / 10) (filter (\<lambda>i. (p, i) \<in> set (db_mps db)) xs) = filter (\<lambda>i. c i < 2 / 10) (filter (\<lambda>i. (p, i) \<in> set (db_mps db)) xs)" for xs
    by (rule filter_cong) (use assms(3) in auto)
  then show ?thesis unfolding low_majority_def assms(1,2) by simp
qed

text \<open>\<open>db\<close> differs from \<open>X\<close> in the confidences only, which are those of \<open>c\<close>.\<close>

definition confs :: "'v Db \<Rightarrow> (string \<Rightarrow> real) \<Rightarrow> 'v Db \<Rightarrow> bool" where
  "confs X c db \<longleftrightarrow> refl_inv X db \<and> map core (db_meta db) = map core (db_meta X) \<and> db_mps db = db_mps X \<and>
     (\<forall>i \<in> meta_ids X. conf_at db i = c i)"

lemma map_core_ids: "map core (db_meta db) = map core (db_meta X) \<Longrightarrow> map mm_id (db_meta db) = map mm_id (db_meta X)"
  by (metis (no_types, lifting) core_fields(1) list.map_comp comp_apply map_eq_conv)

lemma setConfidence_confs:
  assumes "confs X c db" "i \<in> meta_ids X" "0 \<le> x" "x \<le> 1"
  shows "confs X (c(i := x)) (snd (setConfidence jo i x db))"
proof -
  let ?up = "\<lambda>r. if mm_id r = i then r\<lparr>mm_confidence := x, mm_updated_at := jo_now jo db\<rparr> else r"
  let ?db = "db\<lparr>db_meta := map ?up (db_meta db)\<rparr>"
  have eq: "snd (setConfidence jo i x db) = ?db" by (simp add: setConfidence_def execD_def)
  have ids: "meta_ids db = meta_ids X" using map_core_ids [of db X] assms(1) unfolding confs_def meta_ids_def by (metis set_map)
  have inv: "refl_inv X ?db" using setConfidence_inv [of X db x jo i] assms unfolding confs_def eq by blast
  have "conf_at ?db k = (c(i := x)) k" if "k \<in> meta_ids X" for k
  proof -
    have "k \<in> meta_ids db" using that ids by simp
    then obtain r where r: "r \<in> set (db_meta db)" "mm_id r = k" unfolding meta_ids_def by blast
    have "conf_at ?db (mm_id (?up r)) = mm_confidence (?up r)"
      by (rule conf_at_row(2)) (use inv r(1) in \<open>auto simp: refl_inv_def\<close>)
    moreover have "conf_at db k = mm_confidence r" using conf_at_row(2) [of db r] r assms(1) by (auto simp: confs_def refl_inv_def)
    ultimately show ?thesis using r(2) that assms(1) unfolding confs_def by (auto split: if_splits)
  qed
  moreover have "map core (db_meta ?db) = map core (db_meta db)" by simp
  ultimately show ?thesis using inv assms(1) unfolding eq confs_def by simp
qed

lemma children_below:
  assumes "db_ok X" "reflection_ok X" "(mm_id r, i) \<in> set (db_mps X)" "r \<in> set (db_meta X)"
  shows "\<exists>k \<in> set (db_meta X). mm_id k = i \<and> mm_depth r = Suc (mm_depth k)"
proof -
  obtain d pid ty where d: "meta_at X (mm_id r) (Suc d) pid ty" "meta_at X i d pid ty"
    using assms(2,3) unfolding reflection_ok_def by fastforce
  then obtain r' k where "r' \<in> set (db_meta X)" "mm_id r' = mm_id r" "mm_depth r' = Suc d" "k \<in> set (db_meta X)" "mm_id k = i" "mm_depth k = d"
    unfolding meta_at_def by blast
  moreover have "r' = r" using conf_at_row(1) [OF assms(1)] calculation assms(4) by (metis option.inject)
  ultimately show ?thesis by auto
qed

text \<open>What one depth of the cascade makes of the confidences.\<close>

definition decay_at :: "'v Db \<Rightarrow> string \<Rightarrow> nat \<Rightarrow> (string \<Rightarrow> real) \<Rightarrow> string \<Rightarrow> real" where
  "decay_at X pid depth c i =
     (if (\<exists>r \<in> set (db_meta X). mm_id r = i \<and> mm_profile_id r = pid \<and> mm_depth r = depth) \<and> c i \<ge> 2 / 10 \<and> low_majority X i c
      then contradictConfidence (c i) else c i)"

lemma low_majority_parent: "low_majority db p c \<Longrightarrow> p \<in> fst ` set (db_mps db)"
  unfolding low_majority_def Let_def by (force simp: filter_empty_conv)

lemma cascade_depth:
  fixes X :: "'v Db"
  assumes X: "db_ok X" "reflection_ok X" and c: "confs X c D"
  shows "hoareD (\<lambda>db. db = D) (sumD (cascadeParents pid depth D) (cascadeParent jo)) (\<lambda>_. confs X (decay_at X pid depth c)) (\<lambda>_. False)"
proof -
  let ?ps = "cascadeParents pid depth D"
  let ?cd = "\<lambda>(done :: 'v MetaRow list) i. if i \<in> mm_id ` set done then decay_at X pid depth c i else c i"
  have D: "refl_inv X D" "map core (db_meta D) = map core (db_meta X)" "db_mps D = db_mps X" using c by (simp_all add: confs_def)
  have ok: "db_ok D" using D(1) by (simp add: refl_inv_def)
  have D_ids: "meta_ids D = meta_ids X" using map_core_ids [OF D(2)] unfolding meta_ids_def by (metis set_map)
  have twin: "\<exists>r' \<in> set (db_meta X). core r' = core r" if "r \<in> set (db_meta D)" for r
    using that D(2) by (metis (no_types, opaque_lifting) imageE imageI set_map)
  have twin': "\<exists>r' \<in> set (db_meta D). core r' = core r" if "r \<in> set (db_meta X)" for r
    using that D(2) by (metis (no_types, opaque_lifting) imageE imageI set_map)
  have conf: "c (mm_id r) = mm_confidence r" if "r \<in> set (db_meta D)" for r
    using that c conf_at_row(2) [OF ok that] D_ids unfolding confs_def meta_ids_def by (metis imageI)
  have dist: "distinct (map mm_id ?ps)" unfolding cascadeParents_def
    by (rule distinct_map_filter) (use ok in \<open>simp add: db_ok_def ids_distinct_def\<close>)
  have "hoareD (confs X (?cd [])) (sumD ?ps (cascadeParent jo)) (\<lambda>_. confs X (?cd ?ps)) (\<lambda>_. False)"
  proof (rule hoareD_sum [where I = "\<lambda>done. confs X (?cd done)"], rule hoareDI)
    fix "done" p rest db
    assume split: "?ps = done @ p # rest" and I: "confs X (?cd done) db"
    have db: "db_ok db" "map mm_id (db_meta db) = map mm_id (db_meta X)" "db_mps db = db_mps X"
      using I map_core_ids [of db X] unfolding confs_def refl_inv_def by blast+
    have p: "p \<in> set (db_meta D)" "mm_profile_id p = pid" "mm_depth p = depth" "mm_confidence p \<ge> 2 / 10"
      using arg_cong [OF split, of set] by (auto simp: cascadeParents_def)
    obtain px where px: "px \<in> set (db_meta X)" "core px = core p" using twin [OF p(1)] by blast
    have pid: "mm_id px = mm_id p" "mm_profile_id px = pid" "mm_depth px = depth" using px(2) p(2,3) by (metis core_fields)+
    have p_id: "mm_id p \<in> meta_ids X" unfolding meta_ids_def pid(1) [symmetric] using px(1) by (rule imageI)
    have bounds: "0 \<le> mm_confidence p" "mm_confidence p \<le> 1" using D(1) p(1) unfolding refl_inv_def reflection_ok_def by blast+
    have fresh: "mm_id p \<notin> mm_id ` set done" using dist unfolding split by auto
    have below: "?cd done i = c i" if child: "(mm_id p, i) \<in> set (db_mps X)" for i
    proof -
      obtain k where k: "k \<in> set (db_meta X)" "mm_id k = i" "mm_depth px = Suc (mm_depth k)"
        using children_below [OF X, of px i] child px(1) pid(1) by auto
      have "i \<notin> mm_id ` set done"
      proof
        assume "i \<in> mm_id ` set done"
        then obtain q where q: "q \<in> set done" "mm_id q = i" by blast
        then have "q \<in> set ?ps" unfolding split by simp
        then have "q \<in> set (db_meta D)" "mm_depth q = depth" by (auto simp: cascadeParents_def)
        then obtain qx where "qx \<in> set (db_meta X)" "core qx = core q" using twin by blast
        moreover from this have "qx = k" using conf_at_row(1) [OF X(1)] k(1,2) q(2) by (metis core_fields(1) option.inject)
        ultimately show False using k(3) pid(3) \<open>mm_depth q = depth\<close> by (metis core_fields(2) n_not_Suc_n)
      qed
      then show ?thesis by simp
    qed
    have low: "mostly_low (childrenOf (mm_id p) db) \<longleftrightarrow> low_majority X (mm_id p) c"
    proof -
      have "conf_at db i = c i" if "(mm_id p, i) \<in> set (db_mps X)" for i
      proof -
        have "i \<in> meta_ids X" using that X(1) unfolding db_ok_def joins_ok_def by blast
        then show ?thesis using I below [OF that] unfolding confs_def by metis
      qed
      then show ?thesis unfolding mostly_low_children [OF db(1)] by (rule low_majority_cong [OF db(2,3)])
    qed
    have cp: "c (mm_id p) = mm_confidence p" by (rule conf [OF p(1)])
    have ex: "\<exists>r \<in> set (db_meta X). mm_id r = mm_id p \<and> mm_profile_id r = pid \<and> mm_depth r = depth" using px(1) pid by blast
    have value_p: "decay_at X pid depth c (mm_id p) = (if low_majority X (mm_id p) c then contradictConfidence (mm_confidence p) else mm_confidence p)"
      using ex p(4) by (simp add: decay_at_def cp)
    have next_c: "?cd (done @ [p]) = (?cd done)(mm_id p := decay_at X pid depth c (mm_id p))" using fresh by (auto simp: fun_eq_iff)
    show "case cascadeParent jo p db of (Inr n, db1) \<Rightarrow> confs X (?cd (done @ [p])) db1 | (Inl e, db1) \<Rightarrow> False"
    proof (cases "low_majority X (mm_id p) c")
      case True
      have "confs X ((?cd done)(mm_id p := contradictConfidence (mm_confidence p))) (snd (setConfidence jo (mm_id p) (contradictConfidence (mm_confidence p)) db))"
        by (rule setConfidence_confs [OF I p_id confidence_steps(3,4) [OF bounds]])
      then show ?thesis using True low unfolding next_c value_p
        by (simp add: cascadeParent_def bindD_simps setConfidence_def retD_def execD_def)
    next
      case False
      have "(?cd done)(mm_id p := mm_confidence p) = ?cd done" using fresh cp by auto
      then show ?thesis using False low I unfolding next_c value_p by (simp add: cascadeParent_def bindD_simps retD_def)
    qed
  qed
  moreover have "confs X (decay_at X pid depth c) db" if "confs X (?cd ?ps) db" for db
  proof -
    have "?cd ?ps i = decay_at X pid depth c i" if i: "i \<in> meta_ids X" for i
    proof (cases "i \<in> mm_id ` set ?ps")
      case False
      have "\<not> ((\<exists>r \<in> set (db_meta X). mm_id r = i \<and> mm_profile_id r = pid \<and> mm_depth r = depth) \<and> c i \<ge> 2 / 10 \<and> low_majority X i c)"
      proof
        assume a: "(\<exists>r \<in> set (db_meta X). mm_id r = i \<and> mm_profile_id r = pid \<and> mm_depth r = depth) \<and> c i \<ge> 2 / 10 \<and> low_majority X i c"
        then obtain r where r: "r \<in> set (db_meta X)" "mm_id r = i" "mm_profile_id r = pid" "mm_depth r = depth" by blast
        obtain r' where r': "r' \<in> set (db_meta D)" "core r' = core r" using twin' [OF r(1)] by blast
        have e: "mm_id r' = i" "mm_profile_id r' = pid" "mm_depth r' = depth" using r'(2) r by (metis core_fields)+
        have "r' \<in> set ?ps" using r'(1) e a conf [OF r'(1)] low_majority_parent [of X i c] D(3) by (auto simp: cascadeParents_def)
        then show False using False e(1) by blast
      qed
      then have "decay_at X pid depth c i = c i" unfolding decay_at_def by (rule if_not_P)
      then show ?thesis using False by simp
    qed simp
    then show ?thesis using that unfolding confs_def by simp
  qed
  ultimately show ?thesis
    by - (rule hoareD_weaken, assumption, use c in simp_all)
qed

text \<open>
  After the depths up to \<open>k\<close>: an entry of those depths has decayed once, exactly when most of its children are low by now.
\<close>

definition decayed :: "'v Db \<Rightarrow> string \<Rightarrow> nat \<Rightarrow> (string \<Rightarrow> real) \<Rightarrow> (string \<Rightarrow> real) \<Rightarrow> bool" where
  "decayed X pid k c0 c \<longleftrightarrow>
     (\<forall>r \<in> set (db_meta X). c (mm_id r) =
        (if mm_profile_id r = pid \<and> 1 \<le> mm_depth r \<and> mm_depth r \<le> k \<and> c0 (mm_id r) \<ge> 2 / 10 \<and> low_majority X (mm_id r) c
         then contradictConfidence (c0 (mm_id r)) else c0 (mm_id r)))"

lemma decayed_step:
  assumes X: "db_ok X" "reflection_ok X" and d: "decayed X pid k c0 c"
  shows "decayed X pid (Suc k) c0 (decay_at X pid (Suc k) c)"
  unfolding decayed_def
proof
  fix r assume r: "r \<in> set (db_meta X)"
  let ?c1 = "decay_at X pid (Suc k) c"
  have old: "c (mm_id r) = (if mm_profile_id r = pid \<and> 1 \<le> mm_depth r \<and> mm_depth r \<le> k \<and> c0 (mm_id r) \<ge> 2 / 10 \<and> low_majority X (mm_id r) c
         then contradictConfidence (c0 (mm_id r)) else c0 (mm_id r))" using d r unfolding decayed_def by blast
  have same_row: "r' = r" if "r' \<in> set (db_meta X)" "mm_id r' = mm_id r" for r'
    using that r conf_at_row(1) [OF X(1)] by (metis option.inject)
  then have at: "?c1 (mm_id r) = (if mm_profile_id r = pid \<and> mm_depth r = Suc k \<and> c (mm_id r) \<ge> 2 / 10 \<and> low_majority X (mm_id r) c
      then contradictConfidence (c (mm_id r)) else c (mm_id r))"
    unfolding decay_at_def using r by (intro if_cong) blast+
  have low: "low_majority X (mm_id r) ?c1 = low_majority X (mm_id r) c" if "mm_depth r \<le> Suc k"
  proof (rule low_majority_cong [OF refl refl])
    fix i assume child: "(mm_id r, i) \<in> set (db_mps X)"
    obtain q where q: "q \<in> set (db_meta X)" "mm_id q = i" "mm_depth r = Suc (mm_depth q)" using children_below [OF X child r] by blast
    have "\<not> (\<exists>x \<in> set (db_meta X). mm_id x = i \<and> mm_profile_id x = pid \<and> mm_depth x = Suc k)"
    proof
      assume "\<exists>x \<in> set (db_meta X). mm_id x = i \<and> mm_profile_id x = pid \<and> mm_depth x = Suc k"
      then obtain x where x: "x \<in> set (db_meta X)" "mm_id x = i" "mm_depth x = Suc k" by blast
      then have "x = q" using q(1,2) conf_at_row(1) [OF X(1)] by (metis option.inject)
      then show False using x(3) q(3) that by simp
    qed
    then show "?c1 i = c i" by (simp only: decay_at_def simp_thms if_False)
  qed
  show "?c1 (mm_id r) = (if mm_profile_id r = pid \<and> 1 \<le> mm_depth r \<and> mm_depth r \<le> Suc k \<and> c0 (mm_id r) \<ge> 2 / 10 \<and> low_majority X (mm_id r) ?c1
         then contradictConfidence (c0 (mm_id r)) else c0 (mm_id r))"
    using at old low by (cases "mm_depth r \<le> k"; cases "mm_depth r = Suc k") (simp_all split: if_splits)
qed

lemma cascade_spec:
  fixes X :: "'v Db"
  assumes X: "db_ok X" "reflection_ok X"
  shows "hoareD (\<lambda>db. db = X) (runContradictionCascade cfg jo pid)
    (\<lambda>_ db. \<exists>c. confs X c db \<and> decayed X pid (rf_maxMetaDepth cfg) (conf_at X) c) (\<lambda>_. False)"
proof -
  let ?n = "rf_maxMetaDepth cfg"
  let ?step = "\<lambda>depth. bindD (queryD (cascadeParents pid depth)) (\<lambda>ps. sumD ps (cascadeParent jo)) :: ('v, nat) db_op"
  let ?I = "\<lambda>(done :: nat list) db. \<exists>c. confs X c db \<and> decayed X pid (length done) (conf_at X) c"
  have all: "hoareD (?I []) (sumD [1..<Suc ?n] ?step) (\<lambda>_. ?I [1..<Suc ?n]) (\<lambda>_. False)"
  proof (rule hoareD_sum [where I = ?I], rule hoareDI)
    fix "done" depth rest db
    assume split: "[1..<Suc ?n] = done @ depth # rest" and I: "?I done db"
    obtain c where c: "confs X c db" "decayed X pid (length done) (conf_at X) c" using I by blast
    have "length done < length [1..<Suc ?n]" unfolding split by simp
    then have "[1..<Suc ?n] ! length done = 1 + length done" by (simp only: nth_upt length_upt)
    then have depth: "depth = Suc (length done)" unfolding split by simp
    have "hoareD (\<lambda>x. x = db) (sumD (cascadeParents pid depth db) (cascadeParent jo)) (\<lambda>_. confs X (decay_at X pid depth c)) (\<lambda>_. False)"
      by (rule cascade_depth [OF X c(1)])
    moreover have "decayed X pid (length (done @ [depth])) (conf_at X) (decay_at X pid depth c)"
      using decayed_step [OF X c(2)] unfolding depth by simp
    ultimately show "case ?step depth db of (Inr n, db1) \<Rightarrow> ?I (done @ [depth]) db1 | (Inl e, db1) \<Rightarrow> False"
      unfolding bindD_simps hoareD_def by (auto split: prod.splits sum.splits)
  qed
  have start: "?I [] X"
  proof -
    have "confs X (conf_at X) X" using X by (simp add: confs_def refl_inv_def)
    moreover have "decayed X pid 0 (conf_at X) (conf_at X)" by (auto simp: decayed_def)
    ultimately show ?thesis by auto
  qed
  show ?thesis unfolding runContradictionCascade_def
    by (rule hoareD_weaken [OF all]) (use start in \<open>simp_all del: upt_Suc\<close>)
qed

text \<open>
  C32. One pass of the contradiction cascade, from the least depth up, is enough: when it is over, an entry has lost
  confidence if and only if it counted (its confidence was 0.2 or more) and most of its children are low \<^emph>\<open>now\<close>; it
  has lost it once, and nothing else has changed. The pass never fails.
\<close>

theorem cascade_once:
  assumes "db_ok db" "reflection_ok db" "runContradictionCascade cfg jo pid db = (res, db')" "p \<in> set (db_meta db)"
  shows "(\<exists>n. res = Inr n) \<and>
    (\<exists>p' \<in> set (db_meta db'). core p' = core p \<and>
       mm_confidence p' =
         (if mm_profile_id p = pid \<and> 1 \<le> mm_depth p \<and> mm_depth p \<le> rf_maxMetaDepth cfg \<and> mm_confidence p \<ge> 2 / 10 \<and>
             mostly_low (childrenOf (mm_id p) db')
          then contradictConfidence (mm_confidence p) else mm_confidence p))"
proof -
  obtain n c where res: "res = Inr n" and c: "confs db c db'" "decayed db pid (rf_maxMetaDepth cfg) (conf_at db) c"
    using hoareD_result [OF cascade_spec [OF assms(1,2)] refl assms(3)] by blast
  have db': "db_ok db'" "map core (db_meta db') = map core (db_meta db)" "db_mps db' = db_mps db"
    using c(1) by (simp_all add: confs_def refl_inv_def)
  have ids: "map mm_id (db_meta db') = map mm_id (db_meta db)" by (rule map_core_ids [OF db'(2)])
  obtain p' where p': "p' \<in> set (db_meta db')" "core p' = core p"
    using assms(4) db'(2) by (metis (no_types, opaque_lifting) imageE imageI set_map)
  have id: "mm_id p' = mm_id p" using p'(2) by (metis core_fields(1))
  have at: "conf_at db' i = c i" if "i \<in> meta_ids db" for i using that c(1) by (simp add: confs_def)
  have "mm_id p \<in> meta_ids db" using assms(4) by (simp add: meta_ids_def)
  then have "mm_confidence p' = c (mm_id p)" using at conf_at_row(2) [OF db'(1) p'(1)] id by simp
  moreover have "mostly_low (childrenOf (mm_id p) db') \<longleftrightarrow> low_majority db (mm_id p) c"
    unfolding mostly_low_children [OF db'(1)]
  proof (rule low_majority_cong [OF ids db'(3)])
    fix i assume "(mm_id p, i) \<in> set (db_mps db)"
    then have "i \<in> meta_ids db" using assms(1) unfolding db_ok_def joins_ok_def by blast
    then show "conf_at db' i = c i" by (rule at)
  qed
  moreover have "c (mm_id p) = (if mm_profile_id p = pid \<and> 1 \<le> mm_depth p \<and> mm_depth p \<le> rf_maxMetaDepth cfg \<and> conf_at db (mm_id p) \<ge> 2 / 10 \<and>
      low_majority db (mm_id p) c then contradictConfidence (conf_at db (mm_id p)) else conf_at db (mm_id p))"
    using c(2) assms(4) unfolding decayed_def by blast
  ultimately show ?thesis using res p' conf_at_row(2) [OF assms(1,4)] by auto
qed

section \<open>What a condensation rests on\<close>

definition supported :: "'v Db \<Rightarrow> nat \<Rightarrow> string \<Rightarrow> MetaMemoryType \<Rightarrow> string list \<Rightarrow> real \<Rightarrow> nat \<Rightarrow> 'v Db \<Rightarrow> bool" where
  "supported X d pid ty childIds fl k db \<longleftrightarrow>
     set (db_mps X) \<subseteq> set (db_mps db) \<and>
     (\<exists>rs. db_meta db = db_meta X @ rs \<and> length rs = k \<and>
        (\<forall>r \<in> set rs. mm_depth r = d \<and> mm_profile_id r = pid \<and> mm_reflection_type r = ty \<and> fl \<le> mm_confidence r \<and> mm_confidence r \<le> 95 / 100 \<and>
           (\<forall>c \<in> set childIds. (mm_id r, c) \<in> set (db_mps db))))"

lemma insert_mps_effect:
  "insert_mps e db = (Inr u, db') \<Longrightarrow> db_meta db' = db_meta db \<and> set (db_mps db') = insert e (set (db_mps db))"
  by (cases e) (auto simp: insert_mps_def split: if_splits)

lemma link_reflections_meta:
  "hoareD (\<lambda>db. db_meta db = ms \<and> E \<subseteq> set (db_mps db)) (forD childIds (\<lambda>s. insert_mps (i, s)))
     (\<lambda>_ db. db_meta db = ms \<and> E \<subseteq> set (db_mps db) \<and> (\<forall>c \<in> set childIds. (i, c) \<in> set (db_mps db))) (\<lambda>_. True)"
proof -
  let ?I = "\<lambda>(done :: string list) db. db_meta db = ms \<and> E \<subseteq> set (db_mps db) \<and> (\<forall>c \<in> set done. (i, c) \<in> set (db_mps db))"
  have "hoareD (?I []) (forD childIds (\<lambda>s. insert_mps (i, s))) (\<lambda>_. ?I childIds) (\<lambda>_. True)"
  proof (rule hoareD_for [where I = ?I], rule hoareDI)
    fix "done" c and db :: "'a Db" assume I: "?I done db"
    obtain x db1 where run: "insert_mps (i, c) db = (x, db1)" by force
    show "case insert_mps (i, c) db of (Inr u, db1) \<Rightarrow> ?I (done @ [c]) db1 | (Inl e, db1) \<Rightarrow> True"
      using I insert_mps_effect [of "(i, c)" db _ db1] by (cases x) (auto simp: run)
  qed
  then show ?thesis by (rule hoareD_weaken) auto
qed

lemma storeReflection_supported:
  assumes "fl \<le> 95 / 100"
  shows "hoareD (supported X d pid ty childIds fl k)
    (storeReflection jo ty d pid insert_mps childIds content (map_option (\<lambda>c. max fl (min (95 / 100) c)) conf) e)
    (\<lambda>n. supported X d pid ty childIds fl (k + n)) (\<lambda>_. True)"
proof (cases conf)
  case None
  then show ?thesis by (simp add: storeReflection_def hoareD_throw)
next
  case (Some c)
  let ?c = "max fl (min (95 / 100) c)"
  show ?thesis unfolding storeReflection_def Some option.map option.case
  proof (rule hoareDI)
    fix db assume S: "supported X d pid ty childIds fl k db"
    then obtain rs where rs: "db_meta db = db_meta X @ rs" "length rs = k" "set (db_mps X) \<subseteq> set (db_mps db)"
        "\<And>r. r \<in> set rs \<Longrightarrow> mm_depth r = d \<and> mm_profile_id r = pid \<and> mm_reflection_type r = ty \<and> fl \<le> mm_confidence r \<and> mm_confidence r \<le> 95 / 100 \<and>
           (\<forall>c \<in> set childIds. (mm_id r, c) \<in> set (db_mps db))"
      unfolding supported_def by blast
    define row where "row = reflectionRow (jo_newId jo db) content e ty ?c d pid (jo_now jo db)"
    have row: "mm_depth row = d" "mm_profile_id row = pid" "mm_reflection_type row = ty" "mm_confidence row = ?c"
      by (simp_all add: row_def reflectionRow_def)
    have c: "fl \<le> ?c" "?c \<le> 95 / 100" using assms by simp_all
    obtain x db1 where ins: "insertMeta row db = (x, db1)" by force
    show "case bindD (queryD (\<lambda>db. reflectionRow (jo_newId jo db) content e ty ?c d pid (jo_now jo db))) (\<lambda>row.
          bindD (insertMeta row) (\<lambda>metaId. bindD (forD childIds (\<lambda>s. insert_mps (metaId, s))) (\<lambda>_. retD 1))) db of
        (Inr n, db1) \<Rightarrow> supported X d pid ty childIds fl (k + n) db1 | (Inl e, db1) \<Rightarrow> True"
    proof (cases x)
      case (Inl er)
      then show ?thesis using ins unfolding bindD_simps row_def [symmetric] by (simp add: bindD_def)
    next
      case (Inr i)
      have db1: "i = mm_id row" "db_meta db1 = db_meta X @ rs @ [row]" "db_mps db1 = db_mps db"
        using insertMeta_cases(2) [of row db i db1] ins Inr rs(1) by simp_all
      obtain y db2 where links: "forD childIds (\<lambda>s. insert_mps (i, s)) db1 = (y, db2)" by force
      show ?thesis
      proof (cases y)
        case (Inl er)
        then show ?thesis using ins Inr links unfolding bindD_simps row_def [symmetric] by (simp add: bindD_def)
      next
        case y: (Inr u)
        have db2: "db_meta db2 = db_meta db1" "set (db_mps db1) \<subseteq> set (db_mps db2)" "\<forall>c \<in> set childIds. (i, c) \<in> set (db_mps db2)"
          using hoareD_ok [OF link_reflections_meta [of "db_meta db1" "set (db_mps db1)" childIds i], of db1 u db2] links y by simp_all
        have "supported X d pid ty childIds fl (Suc k) db2"
          unfolding supported_def
        proof (intro conjI exI [of _ "rs @ [row]"] ballI)
          show "set (db_mps X) \<subseteq> set (db_mps db2)" using rs(3) db1(3) db2(2) by simp
          show "db_meta db2 = db_meta X @ rs @ [row]" using db2(1) db1(2) by simp
          show "length (rs @ [row]) = Suc k" using rs(2) by simp
        qed (use rs(4) row c db1 db2(2,3) in auto)
        then show ?thesis using ins Inr links y unfolding bindD_simps row_def [symmetric] by (simp add: bindD_def retD_def)
      qed
    qed
  qed
qed

lemma eachReflection_count:
  assumes "\<And>k c x. hoareD (I k) (f c x) (\<lambda>n. I (k + n)) (\<lambda>_. True)"
  shows "hoareD (I k) (eachReflection jo answer f) (\<lambda>n. I (k + n)) (\<lambda>_. True)"
proof (cases answer)
  case (JvArr rs)
  have skip: "hoareD (I k) (retD 0) (\<lambda>n. I (k + n)) (\<lambda>_. True)" for k by (rule hoareD_ret) simp
  show ?thesis unfolding eachReflection_def JvArr jv.case
    by (rule hoareD_sum_count) (auto intro!: assms skip hoareD_throw split: option.split jv.split)
qed (auto simp: eachReflection_def intro: hoareD_ret)

text \<open>
  C33. When the entries of one kind and depth are condensed (some entry is made), each entry that is made has the next
  depth and is linked to all that it was made of, and its confidence is at least 0.05 above their average, up to 0.95, and never above
  0.95; and afterwards none of that kind and depth is left to condense.
\<close>

theorem condensation_supported:
  assumes "condenseMetaType cfg jo d (Suc d) pid ty db = (Inr n, db')" "n > 0"
  shows "(\<exists>rs. db_meta db' = db_meta db @ rs \<and> length rs = n \<and>
      (\<forall>r \<in> set rs. mm_depth r = Suc d \<and> mm_profile_id r = pid \<and> mm_reflection_type r = ty \<and>
         confidenceFloor (uncondensedMeta pid ty d db) \<le> mm_confidence r \<and> mm_confidence r \<le> 95 / 100 \<and>
         (\<forall>c \<in> set (uncondensedMeta pid ty d db). (mm_id r, mm_id c) \<in> set (db_mps db')))) \<and>
    uncondensedMeta pid ty d db' = []"
proof -
  let ?cs = "uncondensedMeta pid ty d db" and ?mt = "if Suc d = 1 then rf_d1MetaMaxTokens cfg else rf_d2MetaMaxTokens cfg"
  let ?S = "supported db (Suc d) pid ty (map mm_id ?cs) (confidenceFloor ?cs)"
  let ?run = "bindD (summarize jo (truncateToTokens (join_with [CHR 0x0A] (map metaText ?cs)) (?mt * 4))
      \<lparr>su_model = rf_reflectionModel cfg, su_maxTokens = ?mt, su_systemPrompt = getPromptForDepth (Suc d) ty\<rparr>) (\<lambda>result.
        bindD (parseJson jo result) (\<lambda>answer. eachReflection jo answer (\<lambda>text1 conf.
          bindD (embed (jo_services jo) text1) (\<lambda>embedding.
          storeReflection jo ty (Suc d) pid insert_mps (map mm_id ?cs) text1 (map_option (\<lambda>c. max (confidenceFloor ?cs) (min (95 / 100) c)) conf) embedding))))"
  have fl: "confidenceFloor ?cs \<le> 95 / 100" unfolding confidenceFloor_def by (rule min.cobounded1)
  have each: "hoareD (?S k) (bindD (embed (jo_services jo) text1) (\<lambda>embedding.
      storeReflection jo ty (Suc d) pid insert_mps (map mm_id ?cs) text1 (map_option (\<lambda>c. max (confidenceFloor ?cs) (min (95 / 100) c)) conf) embedding))
      (\<lambda>n. ?S (k + n)) (\<lambda>_. True)" for k text1 conf
    by (rule hoareD_bind [where R = "\<lambda>_. ?S k"], rule hoareD_embed, assumption, simp, rule storeReflection_supported [OF fl])
  have "hoareD (?S 0) ?run (\<lambda>n. ?S (0 + n)) (\<lambda>_. True)"
    by (rule hoareD_bind [where R = "\<lambda>_. ?S 0"], rule hoareD_summarize, assumption, simp,
        rule hoareD_bind [where R = "\<lambda>_. ?S 0"], rule hoareD_parse, assumption, simp, rule eachReflection_count [OF each])
  moreover have "?S 0 db" by (simp add: supported_def)
  moreover have "?run db = (Inr n, db')"
    using assms unfolding condenseMetaType_def runCondensation_def bindD_simps Let_def tryD_def
    by (auto simp: retD_def split: if_splits prod.splits sum.splits)
  ultimately have S: "?S n db'" by (auto dest: hoareD_ok)
  then obtain rs where rs: "db_meta db' = db_meta db @ rs" "length rs = n" "set (db_mps db) \<subseteq> set (db_mps db')"
      "\<And>r. r \<in> set rs \<Longrightarrow> mm_depth r = Suc d \<and> mm_profile_id r = pid \<and> mm_reflection_type r = ty \<and> confidenceFloor ?cs \<le> mm_confidence r \<and>
        mm_confidence r \<le> 95 / 100 \<and> (\<forall>c \<in> set ?cs. (mm_id r, mm_id c) \<in> set (db_mps db'))"
    unfolding supported_def by auto
  obtain r0 where r0: "r0 \<in> set rs" using rs(2) assms(2) by (cases rs) auto
  have "mm_id r \<in> snd ` set (db_mps db')" if r: "r \<in> set (db_meta db')" "mm_profile_id r = pid" "mm_reflection_type r = ty" "mm_depth r = d" "mm_confidence r \<ge> 2 / 10" for r
  proof -
    have "r \<notin> set rs" using rs(4) [of r] r(4) n_not_Suc_n by metis
    then have "r \<in> set (db_meta db)" using r(1) unfolding rs(1) by simp
    then have "r \<in> set ?cs \<or> mm_id r \<in> snd ` set (db_mps db)" using r by (auto simp: uncondensedMeta_def)
    moreover have "mm_id r \<in> snd ` set (db_mps db')" if "r \<in> set ?cs"
      using rs(4) [OF r0] that by (intro rev_image_eqI [of "(mm_id r0, mm_id r)"]) auto
    ultimately show ?thesis using rs(3) by blast
  qed
  then have "uncondensedMeta pid ty d db' = []" unfolding uncondensedMeta_def by (auto simp: filter_empty_conv)
  then show ?thesis using rs by blast
qed

section \<open>What the runs keep\<close>

text \<open>
  C31. In a database whose reflections form a layered graph (every link leads one depth down, within one profile and one kind, or from depth 0
  to a memory of the profile) with confidences between 0 and 1, every run, whatever the provider answers and whether the run fails or
  not, leaves such a graph, with all the rows and links that there were and nothing else than reflections changed.
\<close>

theorem reflections_keep_graph:
  assumes "ids_fresh jo" "db_ok db" "reflection_ok db" "runReflections cfg jo running db = (r, db')"
  shows "db_ok db' \<and> reflection_ok db' \<and> grows_meta db db'"
proof -
  have "refl_inv db db" using assms(2,3) by (simp add: refl_inv_def)
  from maintainsD [OF runReflections_maintains [OF assms(1)] this, of cfg running] show ?thesis
    unfolding assms(4) refl_inv_def by simp
qed

section \<open>A profile that learns slowly\<close>

definition owned_ids :: "string \<Rightarrow> 'v Db \<Rightarrow> string set" where
  "owned_ids pid db = sm_id ` {r \<in> set (db_semantic db). sm_profile_id r = pid}"

text \<open>What the reflections of depth 0 of a profile depend on, and the links that they make.\<close>

definition memoryView :: "string \<Rightarrow> 'v Db \<Rightarrow> 'v SemanticRow list \<times> (string \<times> string) list \<times> (string \<times> string) set" where
  "memoryView pid db = (db_semantic db, db_state db, {e \<in> set (db_mms db). snd e \<in> owned_ids pid db})"

lemma memoryView_meta: "memoryView pid (db\<lparr>db_meta := ms\<rparr>) = memoryView pid db" "memoryView pid (db\<lparr>db_mps := ps\<rparr>) = memoryView pid db"
  by (simp_all add: memoryView_def owned_ids_def)

lemma insertMeta_view: "maintains (\<lambda>db. memoryView pid db = V) (insertMeta row)"
  by (rule maintainsI) (simp add: insertMeta_def memoryView_meta)

lemma setConfidence_view: "maintains (\<lambda>db. memoryView pid db = V) (setConfidence jo i c)"
  by (rule maintainsI) (simp add: setConfidence_def execD_def memoryView_meta)

lemma insert_mps_view: "maintains (\<lambda>db. memoryView pid db = V) (insert_mps e)"
  by (rule maintainsI) (simp add: insert_mps_def memoryView_meta)

lemma insert_mms_view:
  assumes "\<And>db. memoryView pid db = V \<Longrightarrow> s \<notin> owned_ids pid db"
  shows "maintains (\<lambda>db. memoryView pid db = V) (insert_mms (i, s))"
proof (rule maintainsI)
  fix db assume V: "memoryView pid db = V"
  have "s \<notin> owned_ids pid db" by (rule assms [OF V])
  then have "memoryView pid (snd (insert_mms (i, s) db)) = memoryView pid db"
    by (auto simp: insert_mms_def memoryView_def owned_ids_def)
  then show "memoryView pid (snd (insert_mms (i, s) db)) = V" using V by simp
qed

lemma storeReflection_view:
  assumes "\<And>i s. s \<in> set sources \<Longrightarrow> maintains (\<lambda>db. memoryView pid db = V) (link (i, s))"
  shows "maintains (\<lambda>db. memoryView pid db = V) (storeReflection jo ty d pid' link sources content confidence e)"
proof (cases confidence)
  case None
  then show ?thesis by (simp add: storeReflection_def maintains_intros)
next
  case (Some c)
  show ?thesis unfolding storeReflection_def Some option.case
    by (intro maintains_bind maintains_intros insertMeta_view maintains_for assms)
qed

lemma reflectOne_view:
  assumes "\<And>i s. s \<in> set sources \<Longrightarrow> maintains (\<lambda>db. memoryView pid db = V) (insert_mms (i, s))"
  shows "maintains (\<lambda>db. memoryView pid db = V) (reflectOne cfg jo ty sources pid' d content conf)"
proof -
  have store: "maintains (\<lambda>db. memoryView pid db = V) (storeReflection jo ty d pid' insert_mms sources content c e)" for c e
    by (rule storeReflection_view) (rule assms)
  have "maintains (\<lambda>db. memoryView pid db = V) (meetExisting jo e st r)" if "maintains (\<lambda>db. memoryView pid db = V) st" for e st r
    unfolding meetExisting_def
    by (rule maintains_bind, rule maintains_intros, simp add: that maintains_bind setConfidence_view maintains_intros)
  then show ?thesis unfolding reflectOne_def Let_def
    by (intro maintains_bind maintains_intros) (simp add: store split: list.split prod.split)
qed

lemma runReflection_view:
  assumes "\<And>i s. s \<in> set sources \<Longrightarrow> maintains (\<lambda>db. memoryView pid db = V) (insert_mms (i, s))"
  shows "maintains (\<lambda>db. memoryView pid db = V) (runReflection cfg jo ty prompt content sources pid' d)"
  unfolding runReflection_def
  by (intro maintains_try maintains_bind maintains_intros eachReflection_maintains reflectOne_view assms)

lemma condenseDepths_view: "maintains (\<lambda>db. memoryView pid db = V) (condenseDepths cfg jo pid' d n)"
proof (induction n arbitrary: d)
  case 0
  then show ?case by (simp add: maintains_intros)
next
  case (Suc n)
  have run: "maintains (\<lambda>db. memoryView pid db = V) (runCondensation cfg jo ty p c xs pid' d fl mt)" for ty p c xs fl mt
    unfolding runCondensation_def
    by (intro maintains_try maintains_bind maintains_intros eachReflection_maintains storeReflection_view insert_mps_view)
  have "maintains (\<lambda>db. memoryView pid db = V) (condenseMetaType cfg jo (d - 1) d pid' ty)" for ty
    unfolding condenseMetaType_def Let_def by (rule maintains_bind, rule maintains_intros) (simp add: run maintains_intros)
  then have "maintains (\<lambda>db. memoryView pid db = V) (condenseMeta cfg jo (d - 1) d pid')"
    unfolding condenseMeta_def by (intro maintains_sum)
  moreover have "maintains (\<lambda>db. memoryView pid db = V) (if k = 0 then retD 0 else bindD (condenseDepths cfg jo pid' (Suc d) n) (\<lambda>rest. retD (k + rest)))" for k :: nat
    using Suc by (cases "k = 0") (simp_all add: maintains_bind maintains_intros)
  ultimately show ?case unfolding condenseDepths.simps by (rule maintains_bind)
qed

lemma cascade_view: "maintains (\<lambda>db. memoryView pid db = V) (runContradictionCascade cfg jo pid')"
proof -
  have "maintains (\<lambda>db. memoryView pid db = V) (cascadeParent jo p)" for p
    unfolding cascadeParent_def by (rule maintains_bind, rule maintains_intros) (simp add: maintains_bind setConfidence_view maintains_intros)
  then show ?thesis unfolding runContradictionCascade_def by (intro maintains_sum maintains_bind maintains_intros)
qed

lemma runForProfile_view:
  assumes "distinct (map sm_id S)" "V = (S, St, M)"
    and few: "\<And>db since. memoryView pid db = V \<Longrightarrow> lastReflectionAt db = Some since \<Longrightarrow> length (recentEntries pid since db) < rf_minSemanticEntries cfg"
  shows "maintains (\<lambda>db. memoryView pid db = V) (runForProfile cfg jo pid')"
proof -
  have "maintains (\<lambda>db. memoryView pid db = V) (generateD0 cfg jo pid')"
  proof (rule maintainsI)
    fix db assume V: "memoryView pid db = V"
    show "memoryView pid (snd (generateD0 cfg jo pid' db)) = V"
    proof (cases "lastReflectionAt db")
      case None
      then show ?thesis using V by (simp add: generateD0_def bindD_simps throwD_def)
    next
      case (Some since)
      let ?es = "recentEntries pid' since db"
      show ?thesis
      proof (cases "length ?es < rf_minSemanticEntries cfg")
        case True
        then show ?thesis using V Some by (simp add: generateD0_def bindD_simps retD_def)
      next
        case False
        have other: "pid' \<noteq> pid" using few [OF V Some] False by blast
        have free: "s \<notin> owned_ids pid db'" if s: "s \<in> set (map sm_id ?es)" and V': "memoryView pid db' = V" for s db'
        proof
          assume "s \<in> owned_ids pid db'"
          then obtain r where r: "r \<in> set S" "sm_id r = s" "sm_profile_id r = pid"
            using V' unfolding assms(2) owned_ids_def memoryView_def by blast
          moreover obtain e where "e \<in> set S" "sm_id e = s" "sm_profile_id e = pid'"
            using s V unfolding assms(2) memoryView_def recentEntries_def by auto
          ultimately show False using assms(1) other unfolding distinct_map inj_on_def by metis
        qed
        have "maintains (\<lambda>db. memoryView pid db = V) (insert_mms (i, s))" if "s \<in> set (map sm_id ?es)" for i s
          by (rule insert_mms_view) (rule free [OF that])
        then have "maintains (\<lambda>db. memoryView pid db = V)
            (sumD metaTypes (\<lambda>ty. runReflection cfg jo ty (getPromptForDepth 0 ty) c (map sm_id ?es) pid' 0))" for c
          by (intro maintains_sum runReflection_view)
        from maintainsD [OF this V] show ?thesis using Some False by (simp add: generateD0_def bindD_simps Let_def)
      qed
    qed
  qed
  moreover have "maintains (\<lambda>db. memoryView pid db = V) (if rf_contradictionCascade cfg then runContradictionCascade cfg jo pid' else retD 0)"
    by (simp add: cascade_view maintains_intros)
  ultimately show ?thesis unfolding runForProfile_def by (intro maintains_bind maintains_intros condenseDepths_view)
qed

lemma readTime_show_int: "readTime (show_int t) = Some t"
  using parse_print_json [of "JNum t"] by (simp add: readTime_def)

text \<open>
  C34. The time of the last reflection is one for all profiles, and every run moves it, over the profiles that it has passed by because they had too few
  new memories: when such a run is over, no memory of such a profile has become the source of a reflection, and none of those that are
  there will be among the recent entries of a later run, however many follow them.
\<close>

theorem slow_profile_forgotten:
  assumes "rf_enabled cfg" "distinct (map sm_id (db_semantic db))"
    and "lastReflectionAt db = Some since" "length (recentEntries pid since db) < rf_minSemanticEntries cfg"
    and "\<And>X r. r \<in> set (db_semantic db) \<Longrightarrow> sm_created_at r \<le> jo_now jo X"
    and "runReflections cfg jo False db = (Inr n, db')"
    and "r \<in> set (db_semantic db)" "sm_profile_id r = pid"
  shows "(\<forall>i. (i, sm_id r) \<in> set (db_mms db') \<longleftrightarrow> (i, sm_id r) \<in> set (db_mms db)) \<and>
    (\<exists>t. lastReflectionAt db' = Some t \<and> (\<forall>later. r \<notin> set (recentEntries pid t later)))"
proof -
  define V where "V = memoryView pid db"
  have few: "length (recentEntries pid s X) < rf_minSemanticEntries cfg" if "memoryView pid X = V" "lastReflectionAt X = Some s" for X s
    using that assms(3,4) unfolding V_def memoryView_def lastReflectionAt_def recentEntries_def by simp
  have prof: "maintains (\<lambda>X. memoryView pid X = V) (runForProfile cfg jo pid')" for pid'
    by (rule runForProfile_view [OF assms(2) _ few]) (simp_all add: V_def memoryView_def)
  let ?ps = "sort_key (\<lambda>i. i) (map ap_id (db_profiles db))"
  obtain x X where loop: "sumD ?ps (runForProfile cfg jo) db = (x, X)" by force
  have X: "memoryView pid X = V"
  proof -
    have "maintains (\<lambda>X. memoryView pid X = V) (sumD ?ps (runForProfile cfg jo))" by (rule maintains_sum) (rule prof)
    from maintainsD [OF this, of db] show ?thesis unfolding loop by (simp add: V_def)
  qed
  have db': "db' = X\<lparr>db_state := js_set ''last_reflection_at'' (show_int (jo_now jo X)) (db_state X)\<rparr>"
    using assms(1,6) loop unfolding runReflections_def bindD_simps
    by (cases x) (simp_all add: bindD_def queryD_def setState_def execD_def retD_def)
  have own: "sm_id r \<in> owned_ids pid db" using assms(7,8) by (auto simp: owned_ids_def)
  have same: "db_semantic X = db_semantic db" "db_state X = db_state db"
      "{e \<in> set (db_mms X). snd e \<in> owned_ids pid X} = {e \<in> set (db_mms db). snd e \<in> owned_ids pid db}"
    using X unfolding V_def memoryView_def by simp_all
  have "owned_ids pid X = owned_ids pid db" using same(1) by (simp add: owned_ids_def)
  then have "(i, sm_id r) \<in> set (db_mms X) \<longleftrightarrow> (i, sm_id r) \<in> set (db_mms db)" for i
    using own same(3) by (metis (mono_tags, lifting) mem_Collect_eq snd_conv)
  moreover have "lastReflectionAt db' = Some (jo_now jo X)"
    using same(2) by (simp add: db' lastReflectionAt_def js_get_set readTime_show_int)
  moreover have "r \<notin> set (recentEntries pid (jo_now jo X) later)" for later
    using assms(5) [OF assms(7), of X] by (simp add: recentEntries_def)
  ultimately show ?thesis unfolding db' by simp
qed

definition example_reflection :: ReflectionConfig where
  "example_reflection = \<lparr>rf_enabled = True, rf_reflectionModel = ''haiku'', rf_maxInputTokens = 1000, rf_minSemanticEntries = 2,
     rf_confidenceThreshold = 3 / 10, rf_metaCondensationThreshold = 2, rf_d1MetaMaxTokens = 100, rf_d2MetaMaxTokens = 100,
     rf_maxMetaDepth = 2, rf_contradictionCascade = True\<rparr>"

definition example_reflections :: "unit JobServices" where
  "example_reflections = example_jobs (\<lambda>db t opts. Inr ''[{...}]'') (\<lambda>s. Some (JvArr [JvObj [(''content'', JvStr ''likes tea''), (''confidence'', JvNum (7 / 10))]]))"

definition example_profile :: "string \<Rightarrow> bool \<Rightarrow> ProfileRow" where
  "example_profile i d = \<lparr>ap_id = i, ap_name = i, ap_description = None, ap_is_default = d, ap_created_at = 1, ap_updated_at = 1\<rparr>"

definition example_learning :: "unit Db" where
  "example_learning = emptyDb\<lparr>db_profiles := [example_profile ''p'' True, example_profile ''q'' False],
     db_semantic := [example_row ''a'' ''p'' 5, example_row ''b'' ''p'' 5, example_row ''c'' ''q'' 5]\<rparr>"

definition example_doubted :: "unit Db" where
  "example_doubted = example_learning\<lparr>db_meta := [(example_meta ''m0'' 0)\<lparr>mm_confidence := 1 / 10\<rparr>, example_meta ''m1'' 1], db_mps := [(''m1'', ''m0'')]\<rparr>"

definition example_observed :: "unit Db" where
  "example_observed = example_learning\<lparr>db_meta := [example_meta ''m0'' 0, example_meta ''m1'' 0]\<rparr>"


lemma example_ok:
  "ids_fresh example_reflections" "db_ok example_learning" "reflection_ok example_learning" "db_ok example_doubted" "reflection_ok example_doubted"
proof -
  show "ids_fresh example_reflections" unfolding example_reflections_def by (rule example_jobs_fresh)
  show "reflection_ok example_learning" by (simp add: reflection_ok_def example_learning_def emptyDb_def)
  show "reflection_ok example_doubted"
    by (simp add: reflection_ok_def example_doubted_def example_learning_def emptyDb_def meta_at_def example_meta_def)
qed code_simp+

theorem cascade_once_witness:
  "\<exists>db'. snd (runContradictionCascade example_reflection example_reflections ''p'' example_doubted) = db' \<and>
     (\<exists>p' \<in> set (db_meta db'). mm_id p' = ''m1'' \<and> mm_confidence p' = contradictConfidence (1 / 2))"
proof -
  obtain res db' where run: "runContradictionCascade example_reflection example_reflections ''p'' example_doubted = (res, db')" by force
  have "mostly_low (childrenOf (mm_id (example_meta ''m1'' 1)) (snd (runContradictionCascade example_reflection example_reflections ''p'' example_doubted)))"
    by code_simp
  then have low: "mostly_low (childrenOf (mm_id (example_meta ''m1'' 1)) db')" unfolding run by simp
  have "example_meta ''m1'' 1 \<in> set (db_meta example_doubted)" by (simp add: example_doubted_def)
  from cascade_once [OF example_ok(4,5) run this] low
  obtain p' where p': "p' \<in> set (db_meta db')" "core p' = core (example_meta ''m1'' 1)" "mm_confidence p' = contradictConfidence (1 / 2)"
    by (auto simp: example_meta_def example_reflection_def)
  have "mm_id p' = ''m1''" using arg_cong [OF p'(2), of mm_id] by (simp add: example_meta_def)
  then show ?thesis using p' run by auto
qed

theorem condensation_supported_witness:
  "\<exists>db' r. condenseMetaType example_reflection example_reflections 0 (Suc 0) ''p'' Insight example_observed = (Inr 1, db') \<and>
     r \<in> set (db_meta db') \<and> mm_depth r = 1 \<and> 55 / 100 \<le> mm_confidence r \<and> uncondensedMeta ''p'' Insight 0 db' = []"
proof -
  have n: "fst (condenseMetaType example_reflection example_reflections 0 (Suc 0) ''p'' Insight example_observed) = Inr 1" by code_simp
  then obtain db' where run: "condenseMetaType example_reflection example_reflections 0 (Suc 0) ''p'' Insight example_observed = (Inr 1, db')"
    by (metis prod.collapse)
  obtain rs where rs: "db_meta db' = db_meta example_observed @ rs" "length rs = 1"
      "\<forall>r \<in> set rs. mm_depth r = Suc 0 \<and> confidenceFloor (uncondensedMeta ''p'' Insight 0 example_observed) \<le> mm_confidence r"
      "uncondensedMeta ''p'' Insight 0 db' = []"
    using condensation_supported [OF run] by auto
  have floor: "confidenceFloor (uncondensedMeta ''p'' Insight 0 example_observed) = 55 / 100" by code_simp
  obtain r where r: "r \<in> set rs" using rs(2) by (cases rs) auto
  have "mm_depth r = 1" "55 / 100 \<le> mm_confidence r" using rs(3) r unfolding floor by simp_all
  moreover have "r \<in> set (db_meta db')" using rs(1) r by simp
  ultimately show ?thesis using run rs(4) by blast
qed

theorem reflections_keep_graph_witness:
  "\<exists>db'. runReflections example_reflection example_reflections False example_learning = (Inr 3, db') \<and> reflection_ok db' \<and> length (db_mms db') = 6"
proof -
  have "fst (runReflections example_reflection example_reflections False example_learning) = Inr 3" by code_simp
  then obtain db' where run: "runReflections example_reflection example_reflections False example_learning = (Inr 3, db')" by (metis prod.collapse)
  have "length (db_mms (snd (runReflections example_reflection example_reflections False example_learning))) = 6" by code_simp
  then show ?thesis using reflections_keep_graph [OF example_ok(1-3) run] run by simp
qed

theorem slow_profile_forgotten_witness:
  "\<exists>db'. runReflections example_reflection example_reflections False example_learning = (Inr 3, db') \<and>
     (\<forall>i. (i, ''c'') \<notin> set (db_mms db')) \<and> (\<exists>t. lastReflectionAt db' = Some t \<and> (\<forall>later. example_row ''c'' ''q'' 5 \<notin> set (recentEntries ''q'' t later)))"
proof -
  let ?r = "example_row ''c'' ''q'' 5"
  have "fst (runReflections example_reflection example_reflections False example_learning) = Inr 3" by code_simp
  then obtain db' where run: "runReflections example_reflection example_reflections False example_learning = (Inr 3, db')" by (metis prod.collapse)
  have en: "rf_enabled example_reflection" by (simp add: example_reflection_def)
  have d: "distinct (map sm_id (db_semantic example_learning))" by code_simp
  have last: "lastReflectionAt example_learning = Some 0" by (simp add: lastReflectionAt_def example_learning_def emptyDb_def)
  have few: "length (recentEntries ''q'' 0 example_learning) < rf_minSemanticEntries example_reflection" by code_simp
  have clock: "sm_created_at r \<le> jo_now example_reflections X" if "r \<in> set (db_semantic example_learning)" for r X
    using that by (auto simp: example_learning_def example_row_def example_reflections_def example_jobs_def)
  have r: "?r \<in> set (db_semantic example_learning)" "sm_profile_id ?r = ''q''" "sm_id ?r = ''c''" by (simp_all add: example_learning_def example_row_def)
  have "db_mms example_learning = []" by (simp add: example_learning_def emptyDb_def)
  then show ?thesis using slow_profile_forgotten [OF en d last few clock run r(1,2)] run r(3) by auto
qed

end
