(* ===== verification/Memory_Growth.thy ===== *)
theory Memory_Growth
  imports Memory_Consolidation Memory_Reflection
begin

text \<open>
  The memory as the two background jobs and the deletions of the user make it, in any order: steps from database to
  database, and what holds in all that they reach. The walk of \<^verbatim>\<open>memory.ts\<close> from a reflection to its sources is
  shown to end in all of these.
\<close>

definition memory_ok :: "'v Db \<Rightarrow> bool" where
  "memory_ok db \<longleftrightarrow> db_ok db \<and> summary_forest db \<and> reflection_ok db"

text \<open>A job may fail at any place; its database is then the one that it had come to.\<close>

inductive memory_step :: "'v Db \<Rightarrow> 'v Db \<Rightarrow> bool" where
  step_consolidation: "ids_fresh jo \<Longrightarrow> 0 < cc_chunkSize cfg \<Longrightarrow> memory_step db (snd (runConsolidation cfg jo running db))"
| step_reflection: "ids_fresh jo \<Longrightarrow> memory_step db (snd (runReflections rcfg jo running db))"
| step_forget: "memory_step db (snd (deleteSemanticMemory mg i db))"

section \<open>The steps keep the memory\<close>

lemma extends_keeps_graph:
  assumes "extends db db'" "reflection_ok db"
  shows "reflection_ok db'"
proof -
  have "meta_at db' = meta_at db" using extends_same [OF assms(1)] by (simp add: meta_at_def fun_eq_iff)
  moreover have "semantic_at db i pid \<Longrightarrow> semantic_at db' i pid" for i pid
    using extends_semantic(1) [OF assms(1)] unfolding semantic_at_def by blast
  ultimately show ?thesis using assms(2) extends_same(5,7,8) [OF assms(1)] unfolding reflection_ok_def by metis
qed

lemma grows_keeps_forest: "grows_meta db db' \<Longrightarrow> summary_forest db \<Longrightarrow> summary_forest db'"
  by (simp add: summary_forest_def summary_at_def grows_same)

lemma summary_at_delete:
  "summary_at d db i \<Longrightarrow> i \<notin> sm_id ` set (filter P (db_semantic db)) \<Longrightarrow> summary_at d (delete_semantic_where P db) i"
  by (auto simp: summary_at_def delete_semantic_where_def Let_def)

lemma semantic_at_delete:
  "semantic_at db i pid \<Longrightarrow> i \<notin> sm_id ` set (filter P (db_semantic db)) \<Longrightarrow> semantic_at (delete_semantic_where P db) i pid"
  by (auto simp: semantic_at_def delete_semantic_where_def Let_def)

lemma delete_semantic_fields:
  "db_meta (delete_semantic_where P db) = db_meta db" "db_mps (delete_semantic_where P db) = db_mps db"
  "e \<in> set (db_sms (delete_semantic_where P db)) \<longleftrightarrow> e \<in> set (db_sms db) \<and> fst e \<notin> sm_id ` set (filter P (db_semantic db))"
  "f \<in> set (db_sps (delete_semantic_where P db)) \<longleftrightarrow>
     f \<in> set (db_sps db) \<and> fst f \<notin> sm_id ` set (filter P (db_semantic db)) \<and> snd f \<notin> sm_id ` set (filter P (db_semantic db))"
  "g \<in> set (db_mms (delete_semantic_where P db)) \<longleftrightarrow> g \<in> set (db_mms db) \<and> snd g \<notin> sm_id ` set (filter P (db_semantic db))"
  by (auto simp: delete_semantic_where_def Let_def case_prod_beta)

lemma delete_semantic_forest:
  assumes "summary_forest db"
  shows "summary_forest (delete_semantic_where P db)"
proof -
  let ?db = "delete_semantic_where P db"
  have sub: "set (db_sms ?db) \<subseteq> set (db_sms db)" "set (db_sps ?db) \<subseteq> set (db_sps db)"
    by (auto simp: delete_semantic_fields)
  have "inj_on snd (set (db_sms ?db))" "inj_on snd (set (db_sps ?db))"
    using assms inj_on_subset [OF _ sub(1)] inj_on_subset [OF _ sub(2)] unfolding summary_forest_def by blast+
  moreover have "summary_at 0 ?db (fst e)" if "e \<in> set (db_sms ?db)" for e
    using that assms unfolding summary_forest_def delete_semantic_fields by (intro summary_at_delete) blast+
  moreover have "summary_at 1 ?db (fst e) \<and> summary_at 0 ?db (snd e)" if "e \<in> set (db_sps ?db)" for e
    using that assms unfolding summary_forest_def delete_semantic_fields by (intro conjI summary_at_delete) blast+
  ultimately show ?thesis unfolding summary_forest_def by blast
qed

lemma delete_semantic_graph:
  assumes "reflection_ok db"
  shows "reflection_ok (delete_semantic_where P db)"
proof -
  let ?db = "delete_semantic_where P db"
  have at: "meta_at ?db = meta_at db" by (simp add: meta_at_def fun_eq_iff delete_semantic_fields)
  have "\<exists>pid ty. meta_at db (fst e) 0 pid ty \<and> semantic_at ?db (snd e) pid" if "e \<in> set (db_mms ?db)" for e
    using that assms semantic_at_delete [of db "snd e" _ P] unfolding reflection_ok_def delete_semantic_fields by blast
  then show ?thesis using assms unfolding reflection_ok_def at by (simp add: delete_semantic_fields)
qed

lemma distinct_filtered: "distinct (map f xs) \<Longrightarrow> distinct (map f (filter P xs))"
  by (rule distinct_map_filter)

lemma delete_semantic_ok:
  assumes "db_ok db"
  shows "db_ok (delete_semantic_where P db)"
proof -
  let ?db = "delete_semantic_where P db" and ?gone = "sm_id ` set (filter P (db_semantic db))"
  have kept: "i \<in> semantic_ids db \<Longrightarrow> i \<notin> ?gone \<Longrightarrow> i \<in> semantic_ids ?db" for i
    by (auto simp: semantic_ids_def delete_semantic_where_def Let_def)
  have same: "meta_ids ?db = meta_ids db" "message_keys ?db = message_keys db" "profile_ids ?db = profile_ids db" "db_profiles ?db = db_profiles db"
    by (simp_all add: meta_ids_def message_keys_def profile_ids_def delete_semantic_where_def Let_def)
  have "joins_ok ?db"
    using assms kept unfolding db_ok_def joins_ok_def same
    by (fastforce simp: delete_semantic_where_def Let_def)
  moreover have "ids_distinct ?db"
    using assms unfolding db_ok_def ids_distinct_def by (simp add: delete_semantic_where_def Let_def distinct_filtered)
  moreover have "profile_refs ?db \<subseteq> profile_refs db" by (auto simp: profile_refs_def delete_semantic_where_def Let_def)
  ultimately show ?thesis using assms unfolding db_ok_def same by blast
qed

lemma memory_step_ok: "memory_step db db' \<Longrightarrow> memory_ok db \<Longrightarrow> memory_ok db'"
proof (induction rule: memory_step.induct)
  case (step_consolidation jo cfg db running)
  then have "cons_inv db (snd (runConsolidation cfg jo running db))" using runConsolidation_inv unfolding memory_ok_def by blast
  then show ?case using extends_keeps_graph step_consolidation(3) unfolding memory_ok_def cons_inv_def by blast
next
  case (step_reflection jo db rcfg running)
  then have "refl_inv db db" by (simp add: memory_ok_def refl_inv_def)
  from maintainsD [OF runReflections_maintains [OF step_reflection(1)] this]
  show ?case using grows_keeps_forest step_reflection(2) unfolding memory_ok_def refl_inv_def by blast
next
  case (step_forget db mg i)
  have "snd (deleteSemanticMemory mg i db) = db \<or> snd (deleteSemanticMemory mg i db) = delete_semantic_where (\<lambda>r. sm_id r = i) db"
    by (simp add: deleteSemanticMemory_def ensureStarted_def db_op_simps)
  then show ?case
    using step_forget delete_semantic_ok delete_semantic_forest delete_semantic_graph unfolding memory_ok_def by metis
qed

lemma memory_steps_ok: "memory_step\<^sup>*\<^sup>* db db' \<Longrightarrow> memory_ok db \<Longrightarrow> memory_ok db'"
  by (induction rule: rtranclp_induct) (blast intro: memory_step_ok)+

section \<open>Walks to the sources\<close>

lemma meta_at_unique:
  "db_ok db \<Longrightarrow> meta_at db i d pid ty \<Longrightarrow> metaRow i db = Some m \<Longrightarrow> mm_depth m = d \<and> mm_profile_id m = pid \<and> mm_reflection_type m = ty"
  unfolding meta_at_def using conf_at_row(1) by fastforce

lemma graph_layered:
  assumes "db_ok db" "reflection_ok db"
  shows "meta_layered db"
  unfolding meta_layered_def
proof clarify
  fix p c m m' assume "(p, c) \<in> set (db_mps db)" "metaRow p db = Some m" "metaRow c db = Some m'"
  moreover from this obtain d pid ty where "meta_at db p (Suc d) pid ty" "meta_at db c d pid ty"
    using assms(2) unfolding reflection_ok_def by fastforce
  ultimately show "mm_depth m' < mm_depth m" using meta_at_unique [OF assms(1)] by (metis lessI)
qed

lemma walk_profile:
  assumes "db_ok db" "reflection_ok db" "(child_of db)\<^sup>*\<^sup>* i leaf" "metaRow i db = Some m" "metaRow leaf db = Some l"
  shows "mm_profile_id l = mm_profile_id m"
  using assms(3,5)
proof (induction arbitrary: l rule: rtranclp_induct)
  case base
  then show ?case using assms(4) by simp
next
  case (step y z)
  have "(y, z) \<in> set (db_mps db)" using step(2) by (auto simp: child_of_def)
  then obtain d pid ty where e: "meta_at db y (Suc d) pid ty" "meta_at db z d pid ty"
    using assms(2) unfolding reflection_ok_def by fastforce
  obtain r where r: "r \<in> set (db_meta db)" "mm_id r = y" using e(1) unfolding meta_at_def by blast
  then have row: "metaRow y db = Some r" using conf_at_row(1) [OF assms(1)] by blast
  then have "mm_profile_id r = mm_profile_id m" by (rule step.IH)
  then show ?case using meta_at_unique [OF assms(1) e(1) row] meta_at_unique [OF assms(1) e(2) step.prems] by simp
qed

text \<open>
  C35. In whatever order the jobs run, fail and are called again and the user deletes memories, every walk from a reflection to its sources ends, with no more
  levels of calls than its depth and one; it gives all the memories that there still are of those below it, none twice, and
  all of them are of the profile of the reflection.
\<close>

theorem reflections_traceable:
  assumes "memory_ok db0" "memory_step\<^sup>*\<^sup>* db0 db" "metaRow i db = Some m" "mg_started mg"
  shows "\<exists>ss. traceMetaToSources (Suc (mm_depth m)) mg i db = (Inr (Some ss), db) \<and> distinct (map se_id ss) \<and>
    set ss = semanticRowToEntry ` {r. is_source db i r} \<and> (\<forall>r. is_source db i r \<longrightarrow> sm_profile_id r = mm_profile_id m)"
proof -
  have ok: "db_ok db" "reflection_ok db" using memory_steps_ok [OF assms(2,1)] by (simp_all add: memory_ok_def)
  have dist: "distinct (map sm_id (db_semantic db))" using ok(1) by (simp add: db_ok_def ids_distinct_def)
  have "depthOf i db < Suc (mm_depth m)" using assms(3) by (simp add: depthOf_def)
  from trace_spec [OF graph_layered [OF ok] dist this]
  obtain ss where ss: "traceIn (Suc (mm_depth m)) db i = Some ss" "set ss = semanticRowToEntry ` {r. is_source db i r}" "distinct (map se_id ss)"
    by blast
  have "sm_profile_id r = mm_profile_id m" if src: "is_source db i r" for r
  proof -
    obtain leaf l where l: "(child_of db)\<^sup>*\<^sup>* i leaf" "metaRow leaf db = Some l" "(leaf, sm_id r) \<in> set (db_mms db)" "r \<in> set (db_semantic db)"
      using src unfolding is_source_def by blast
    then obtain pid ty where at: "meta_at db leaf 0 pid ty" "semantic_at db (sm_id r) pid" using ok(2) unfolding reflection_ok_def by fastforce
    have "sm_profile_id r = pid"
      using at(2) l(4) dist unfolding semantic_at_def distinct_map inj_on_def by blast
    then show ?thesis using meta_at_unique [OF ok(1) at(1) l(2)] walk_profile [OF ok l(1) assms(3) l(2)] by simp
  qed
  then show ?thesis using ss assms(4) by (auto simp: traceMetaToSources_def ensureStarted_def db_op_simps)
qed

theorem reflections_traceable_witness:
  "\<exists>db m ss. memory_step\<^sup>*\<^sup>* example_learning db \<and> m \<in> set (db_meta db) \<and>
     traceMetaToSources (Suc (mm_depth m)) (startMemory new_manager) (mm_id m) db = (Inr (Some ss), db) \<and> distinct (map se_id ss) \<and>
     (\<forall>r. is_source db (mm_id m) r \<longrightarrow> sm_profile_id r = mm_profile_id m)"
proof -
  let ?db = "snd (runReflections example_reflection example_reflections False example_learning)"
  have "memory_step example_learning ?db" by (rule step_reflection [OF example_ok(1)])
  then have steps: "memory_step\<^sup>*\<^sup>* example_learning ?db" by blast
  have start: "memory_ok example_learning"
    using example_ok(2,3) by (simp add: memory_ok_def summary_forest_def example_learning_def emptyDb_def)
  have "length (db_meta ?db) = 3" by code_simp
  then obtain m where m: "m \<in> set (db_meta ?db)" by (cases "db_meta ?db") auto
  have "db_ok ?db" using memory_steps_ok [OF steps start] by (simp add: memory_ok_def)
  then have "metaRow (mm_id m) ?db = Some m" using m by (rule conf_at_row(1))
  from reflections_traceable [OF start steps this, of "startMemory new_manager"]
  show ?thesis using steps m by (auto simp: startMemory_def)
qed

end
