(* ===== verification/Memory_Context.thy ===== *)
theory Memory_Context
  imports Memory_Manager Identity_Manager Profile_Manager
begin

text \<open>
  \<open>buildAgentContext\<close> of \<^verbatim>\<open>src/src/orchestrator/memory.ts\<close>: the text that an agent is given before its task, made of
  the identity, the reflections, the memories, the documents and the messages of the session. Shown: reading
  the text back gives exactly the contents that were selected, so that nothing a message or a memory says can
  pass for an entry of its own.
\<close>

section \<open>The text\<close>

definition metaElement :: "string \<Rightarrow> string \<Rightarrow> MetaMemoryEntry \<Rightarrow> string" where
  "metaElement n extra e =
     ''    '' @ element n ('' type='' @ quoted (metaTypeName (me_reflectionType e)) @ '' confidence='' @ quoted (toFixed 2 (me_confidence e)) @ extra)
       (escapeXml (me_content e))"

definition depthAttr :: "nat \<Rightarrow> string" where
  "depthAttr d = '' depth='' @ quoted (show_nat d)"

definition flatLine :: "MetaMemoryEntry \<Rightarrow> string" where
  "flatLine e =
     ''    '' @ element (metaTypeName (me_reflectionType e))
       ('' confidence='' @ quoted (toFixed 2 (me_confidence e)) @ (if me_depth e > 0 then depthAttr (me_depth e) else []))
       (escapeXml (me_content e))"

definition metaLines :: "strategy \<Rightarrow> MetaMemoryEntry list \<Rightarrow> string list" where
  "metaLines s es =
     block ''meta_memory''
       (case s of
          Cascade \<Rightarrow>
            map (\<lambda>e. metaElement ''strategic'' (depthAttr (me_depth e)) e) (filter (\<lambda>e. me_depth e \<ge> 2) es) @
            map (metaElement ''evaluated'' []) (filter (\<lambda>e. me_depth e = 1) es) @
            map (metaElement ''observation'' []) (filter (\<lambda>e. me_depth e = 0) es)
        | Flat \<Rightarrow> map flatLine es)"

definition semanticLine :: "SemanticMemoryEntry QueryResult \<Rightarrow> string" where
  "semanticLine r =
     (let e = qr_entry r in
      ''    '' @ element ''memory''
        ('' type='' @ quoted (semanticTypeName (se_memoryType e)) @ '' importance='' @ quoted (toFixed 1 (se_importance e)) @
         '' score='' @ quoted (toFixed 2 (qr_compositeScore r)) @ (if se_depth e > 0 then depthAttr (se_depth e) else []))
        (escapeXml (se_content e)))"

definition externalLine :: "ExternalMemoryEntry \<times> real \<Rightarrow> string" where
  "externalLine r =
     ''    '' @ element ''entry'' ('' source='' @ quoted (externalSourceName (ee_sourceType (fst r)))) (escapeXml (ee_content (fst r)))"

text \<open>\<^verbatim>\<open>toISOString().replace('T', ' ').slice(0, 16)\<close>.\<close>

fun replaceFirst :: "char \<Rightarrow> char \<Rightarrow> string \<Rightarrow> string" where
  "replaceFirst a b [] = []"
| "replaceFirst a b (c # s) = (if c = a then b # s else c # replaceFirst a b s)"

definition messageText :: "MessageRow \<Rightarrow> string" where
  "messageText m = (case mw_content m of Some c \<Rightarrow> c | None \<Rightarrow> ''[no content]'')"

definition messageLine :: "(time \<Rightarrow> string) \<Rightarrow> MessageRow \<Rightarrow> string" where
  "messageLine isoTime m =
     ''    '' @ element ''message''
       ('' sender='' @ quoted (if mw_is_bot_message m then ''assistant'' else escapeXml (mw_sender_name m)) @
        '' time='' @ quoted (take 16 (replaceFirst (CHR ''T'') (CHR '' '') (isoTime (mw_timestamp m)))))
       (escapeXml (messageText m))"

definition contextText ::
  "(time \<Rightarrow> string) \<Rightarrow> time \<Rightarrow> string option \<Rightarrow> strategy \<Rightarrow> string \<Rightarrow> MetaMemoryEntry QueryResult list \<Rightarrow>
   SemanticMemoryEntry QueryResult list \<Rightarrow> (ExternalMemoryEntry \<times> real) list \<Rightarrow> MessageRow list \<Rightarrow> string" where
  "contextText isoTime now timezone s identity metas semantics externals messages =
     join_with [CHR 0x0A]
       ([''<context'' @ (case timezone of Some tz \<Rightarrow> if tz \<noteq> [] then '' timezone='' @ quoted (escapeXml tz) else [] | None \<Rightarrow> []) @
           '' date='' @ quoted (take 10 (isoTime now)) @ ''>''] @
        [''  '' @ indent identity] @
        metaLines s (map qr_entry metas) @
        block ''semantic_memory'' (map semanticLine semantics) @
        block ''external_memory'' (map externalLine externals) @
        block ''working_memory'' (map (messageLine isoTime) messages) @
        [''</context>''])"

section \<open>Building it\<close>

definition buildAgentContext ::
  "'v Services \<Rightarrow> (time \<Rightarrow> string) \<Rightarrow> MemoryManager \<Rightarrow> IdentityThresholds \<Rightarrow> time \<Rightarrow> string \<Rightarrow> string \<Rightarrow> string option \<Rightarrow> ('v, string) db_op" where
  "buildAgentContext sv isoTime mg th now chatId taskText timezone =
     bindD (ensureStarted mg) (\<lambda>_.
     bindD (queryD (getChatProfile chatId)) (\<lambda>chatProfile.
     case chatProfile of
       None \<Rightarrow> throwD (''No profile found for chat '' @ chatId)
     | Some p \<Rightarrow>
         let profileId = ap_id p; s = mi_strategy (mg_metaInjection mg) in
         bindD (queryD (buildIdentityContext th profileId)) (\<lambda>identity.
         bindD (case s of Cascade \<Rightarrow> queryMetaCascade sv mg now taskText profileId None
                        | Flat \<Rightarrow> queryMetaMemory sv mg now taskText profileId None None None None) (\<lambda>metas.
         bindD (querySemanticMemory sv mg now taskText profileId None None) (\<lambda>semantics.
         bindD (queryExternalMemory sv mg taskText profileId None None) (\<lambda>externals.
         bindD (getActiveSession mg chatId) (\<lambda>active.
         bindD (case active of Some a \<Rightarrow> getSessionMessages mg (ss_id a) (Some (mg_workingMemoryLimit mg)) | None \<Rightarrow> retD []) (\<lambda>messages.
         bindD (execD (fold (\<lambda>r. updateSemanticAccess now (se_id (qr_entry r))) semantics)) (\<lambda>_.
         bindD (execD (if s = Flat then fold (\<lambda>r. updateMetaAccess now (me_id (qr_entry r))) metas else id)) (\<lambda>_.
         retD (contextText isoTime now timezone s identity metas semantics externals messages)))))))))))"

section \<open>Reading it back\<close>

lemma emits_element_line:
  assumes "plain (m @ attrs)" "tag_name (m @ attrs) = m" "m \<noteq> []" "hd m \<noteq> CHR ''/''" "tag_name (CHR ''/'' # m) \<noteq> n"
  shows "emits n (''    '' @ element m attrs (escapeXml x)) (if m = n then [x] else [])"
proof -
  have "emits n (element m attrs (escapeXml x)) (if m = n then [x] else [])"
    using emits_element [OF assms(1-4), of "escapeXml x"] emits_other_element [of m attrs n "escapeXml x"] assms by (auto simp: unescape_escape)
  moreover have "emits n ''    '' []" by (rule emits_plain) simp
  ultimately have "emits n (''    '' @ element m attrs (escapeXml x)) ([] @ (if m = n then [x] else []))" by (intro emits_append)
  then show ?thesis by simp
qed

lemma emits_parts:
  assumes "CHR ''<'' \<notin> set sep" "list_all2 (emits n) ls ess"
  shows "emits n (join_with sep ls) (concat ess)"
  using assms(2)
proof (induction rule: list_all2_induct)
  case (Cons l ls es ess)
  have "emits n sep []" by (rule emits_plain [OF assms(1)])
  then have "emits n (l @ sep @ join_with sep ls) (es @ [] @ concat ess)" using Cons by (intro emits_append)
  then show ?case using Cons by (cases ls; cases ess) auto
qed simp

lemma list_all2_maps: "(\<And>x. x \<in> set xs \<Longrightarrow> R (f x) (g x)) \<Longrightarrow> list_all2 R (map f xs) (map g xs)"
  by (simp add: list_all2_map1 list_all2_map2 list.rel_refl_strong)

text \<open>The names of the elements of a context that have contents, and of those that hold others.\<close>

definition content_names :: "string list" where
  "content_names = [''strategic'', ''evaluated'', ''observation'', ''insight'', ''heuristic'', ''self_assessment'', ''memory'', ''entry'', ''message'']"

lemma emits_tag_line: "plain t \<Longrightarrow> plain w \<Longrightarrow> tag_name t \<noteq> n \<Longrightarrow> emits n (w @ CHR ''<'' # t @ ''>'') []"
  using emits_append [OF emits_plain [of w n] emits_tag [of t n]] by (simp add: plain_def)

lemma emits_block:
  assumes "list_all2 (emits n) ls ess" "plain b" "tag_name b \<noteq> n" "tag_name (CHR ''/'' # b) \<noteq> n"
  shows "\<exists>ess'. list_all2 (emits n) (block b ls) ess' \<and> concat ess' = concat ess"
proof (cases "ls = []")
  case True
  then show ?thesis using assms(1) by (auto simp: block_def)
next
  case False
  have "emits n (''  <'' @ b @ ''>'') []" using emits_tag_line [of b "''  ''" n] assms by simp
  moreover have "emits n (''  </'' @ b @ ''>'') []" using emits_tag_line [of "CHR ''/'' # b" "''  ''" n] assms by simp
  ultimately have "list_all2 (emits n) (block b ls) ([[]] @ ess @ [[]])"
    using False assms(1) unfolding block_def by (auto intro!: list_all2_appendI)
  then show ?thesis by fastforce
qed

lemma plain_type_names [simp]: "plain (semanticTypeName t)" "plain (metaTypeName m)" "plain (externalSourceName s)"
proof -
  show "plain (semanticTypeName t)" by (cases t) simp_all
  show "plain (metaTypeName m)" by (cases m) simp_all
  show "plain (externalSourceName s)" by (cases s) simp_all
qed

lemma plain_depthAttr [simp]: "plain (depthAttr d)"
  by (simp add: depthAttr_def)

lemma tag_name_attr: "CHR '' '' \<notin> set m \<Longrightarrow> tag_name (m @ CHR '' '' # x) = m"
  by (induction m) auto

lemma plain_replaceFirst: "plain s \<Longrightarrow> b \<noteq> CHR ''<'' \<Longrightarrow> b \<noteq> CHR ''>'' \<Longrightarrow> plain (replaceFirst a b s)"
  by (induction a b s rule: replaceFirst.induct) auto

lemma plain_take: "plain s \<Longrightarrow> plain (take n s)"
  by (auto simp: plain_def dest: in_set_takeD)

lemma emits_lines_of:
  assumes "n \<in> set content_names"
  shows "emits n (metaElement ''strategic'' (depthAttr d) e) (if n = ''strategic'' then [me_content e] else [])"
    "emits n (metaElement ''evaluated'' [] e) (if n = ''evaluated'' then [me_content e] else [])"
    "emits n (metaElement ''observation'' [] e) (if n = ''observation'' then [me_content e] else [])"
    "emits n (flatLine e) (if n = metaTypeName (me_reflectionType e) then [me_content e] else [])"
    "emits n (semanticLine s) (if n = ''memory'' then [se_content (qr_entry s)] else [])"
    "emits n (externalLine x) (if n = ''entry'' then [ee_content (fst x)] else [])"
    "(\<And>t. plain (isoTime t)) \<Longrightarrow> emits n (messageLine isoTime m) (if n = ''message'' then [messageText m] else [])"
proof -
  have line: "emits n (''    '' @ element k attrs (escapeXml x)) (if n = k then [x] else [])"
    if "k \<in> set content_names" "plain attrs" "tag_name (k @ attrs) = k" for k attrs x
  proof -
    have k: "plain k" "k \<noteq> []" "hd k \<noteq> CHR ''/''" "tag_name (CHR ''/'' # k) \<noteq> n" using that(1) assms by (auto simp: content_names_def)
    have "plain (k @ attrs)" using k(1) that(2) by simp
    from emits_element_line [OF this that(3) k(2-4), of x] show ?thesis by (simp only: eq_commute)
  qed
  show "emits n (metaElement ''strategic'' (depthAttr d) e) (if n = ''strategic'' then [me_content e] else [])"
    "emits n (metaElement ''evaluated'' [] e) (if n = ''evaluated'' then [me_content e] else [])"
    "emits n (metaElement ''observation'' [] e) (if n = ''observation'' then [me_content e] else [])"
    unfolding metaElement_def by (rule line; simp add: content_names_def)+
  have "metaTypeName (me_reflectionType e) \<in> set content_names" "CHR '' '' \<notin> set (metaTypeName (me_reflectionType e))"
    by (cases "me_reflectionType e"; simp add: content_names_def)+
  then show "emits n (flatLine e) (if n = metaTypeName (me_reflectionType e) then [me_content e] else [])"
    unfolding flatLine_def by (intro line) (simp_all add: tag_name_attr)
  show "emits n (semanticLine s) (if n = ''memory'' then [se_content (qr_entry s)] else [])"
    unfolding semanticLine_def Let_def by (rule line; simp add: content_names_def)
  show "emits n (externalLine x) (if n = ''entry'' then [ee_content (fst x)] else [])"
    unfolding externalLine_def by (rule line; simp add: content_names_def)
  show "emits n (messageLine isoTime m) (if n = ''message'' then [messageText m] else [])" if "\<And>t. plain (isoTime t)"
    unfolding messageLine_def using that by (intro line) (simp_all add: content_names_def plain_take plain_replaceFirst)
qed

text \<open>What each kind of element should hold: the reflections are told apart by their depth, or without the cascade by their type.\<close>

definition contents_of ::
  "strategy \<Rightarrow> string \<Rightarrow> MetaMemoryEntry list \<Rightarrow> SemanticMemoryEntry QueryResult list \<Rightarrow> (ExternalMemoryEntry \<times> real) list \<Rightarrow> MessageRow list \<Rightarrow> string list" where
  "contents_of s n es ss xs ms =
     (if n = ''strategic'' then map me_content (filter (\<lambda>e. s = Cascade \<and> me_depth e \<ge> 2) es)
      else if n = ''evaluated'' then map me_content (filter (\<lambda>e. s = Cascade \<and> me_depth e = 1) es)
      else if n = ''observation'' then map me_content (filter (\<lambda>e. s = Cascade \<and> me_depth e = 0) es)
      else if n \<in> {''insight'', ''heuristic'', ''self_assessment''}
      then map me_content (filter (\<lambda>e. s = Flat \<and> metaTypeName (me_reflectionType e) = n) es)
      else if n = ''memory'' then map (\<lambda>s. se_content (qr_entry s)) ss
      else if n = ''entry'' then map (\<lambda>x. ee_content (fst x)) xs
      else if n = ''message'' then map messageText ms
      else [])"

lemma concat_if: "concat (map (\<lambda>x. if b then [f x] else []) xs) = (if b then map f xs else [])"
  by (induction xs) auto

lemma content_names_other:
  assumes "n \<in> set content_names"
  shows "n \<notin> set identity_tags" "''context'' \<noteq> n" "''/context'' \<noteq> n" "''meta_memory'' \<noteq> n" "''/meta_memory'' \<noteq> n" "''semantic_memory'' \<noteq> n"
    "''/semantic_memory'' \<noteq> n" "''external_memory'' \<noteq> n" "''/external_memory'' \<noteq> n" "''working_memory'' \<noteq> n" "''/working_memory'' \<noteq> n"
  using assms by (auto simp: content_names_def identity_tags_def)

lemma block_contents:
  assumes "plain b" "tag_name b \<noteq> n" "tag_name (CHR ''/'' # b) \<noteq> n" "\<And>y. emits n (f y) (if n = k then [g y] else [])"
  shows "\<exists>ess. list_all2 (emits n) (block b (map f ys)) ess \<and> concat ess = (if n = k then map g ys else [])"
proof -
  have "list_all2 (emits n) (map f ys) (map (\<lambda>y. if n = k then [g y] else []) ys)" by (rule list_all2_maps) (rule assms(4))
  from emits_block [OF this assms(1-3)] show ?thesis by (simp add: concat_if)
qed

definition metaContents :: "strategy \<Rightarrow> string \<Rightarrow> MetaMemoryEntry list \<Rightarrow> string list" where
  "metaContents s n es =
     (case s of
        Cascade \<Rightarrow>
          (if n = ''strategic'' then map me_content (filter (\<lambda>e. me_depth e \<ge> 2) es) else []) @
          (if n = ''evaluated'' then map me_content (filter (\<lambda>e. me_depth e = 1) es) else []) @
          (if n = ''observation'' then map me_content (filter (\<lambda>e. me_depth e = 0) es) else [])
      | Flat \<Rightarrow> map me_content (filter (\<lambda>e. n = metaTypeName (me_reflectionType e)) es))"

lemma concat_filter: "concat (map (\<lambda>x. if P x then [f x] else []) xs) = map f (filter P xs)"
  by (induction xs) auto

lemma metaLines_contents:
  assumes "n \<in> set content_names"
  shows "\<exists>em. list_all2 (emits n) (metaLines s es) em \<and> concat em = metaContents s n es"
proof -
  have meta: "plain ''meta_memory''" "tag_name ''meta_memory'' \<noteq> n" "tag_name (CHR ''/'' # ''meta_memory'') \<noteq> n"
    using content_names_other(4,5) [OF assms] by simp_all
  show ?thesis
  proof (cases s)
    case Cascade
    have "list_all2 (emits n)
        (map (\<lambda>e. metaElement ''strategic'' (depthAttr (me_depth e)) e) (filter (\<lambda>e. me_depth e \<ge> 2) es) @
         map (metaElement ''evaluated'' []) (filter (\<lambda>e. me_depth e = 1) es) @
         map (metaElement ''observation'' []) (filter (\<lambda>e. me_depth e = 0) es))
        (map (\<lambda>e. if n = ''strategic'' then [me_content e] else []) (filter (\<lambda>e. me_depth e \<ge> 2) es) @
         map (\<lambda>e. if n = ''evaluated'' then [me_content e] else []) (filter (\<lambda>e. me_depth e = 1) es) @
         map (\<lambda>e. if n = ''observation'' then [me_content e] else []) (filter (\<lambda>e. me_depth e = 0) es))"
      by (intro list_all2_appendI list_all2_maps emits_lines_of [OF assms])
    from emits_block [OF this meta] show ?thesis
      unfolding metaLines_def metaContents_def Cascade strategy.case map_append concat_append concat_if .
  next
    case Flat
    have "list_all2 (emits n) (map flatLine es) (map (\<lambda>e. if n = metaTypeName (me_reflectionType e) then [me_content e] else []) es)"
      by (intro list_all2_maps emits_lines_of [OF assms])
    then have "\<exists>em. list_all2 (emits n) (block ''meta_memory'' (map flatLine es)) em \<and>
        concat em = concat (map (\<lambda>e. if n = metaTypeName (me_reflectionType e) then [me_content e] else []) es)"
      using meta by (rule emits_block)
    then show ?thesis unfolding concat_filter metaLines_def metaContents_def Flat strategy.case .
  qed
qed

lemma metaTypeName_other [simp]:
  "''strategic'' \<noteq> metaTypeName t" "''evaluated'' \<noteq> metaTypeName t" "''observation'' \<noteq> metaTypeName t"
  "''memory'' \<noteq> metaTypeName t" "''entry'' \<noteq> metaTypeName t" "''message'' \<noteq> metaTypeName t"
  by (cases t; simp)+

lemma metaTypeName_commute:
  "(''insight'' = metaTypeName t) = (metaTypeName t = ''insight'')" "(''heuristic'' = metaTypeName t) = (metaTypeName t = ''heuristic'')"
  "(''self_assessment'' = metaTypeName t) = (metaTypeName t = ''self_assessment'')"
  by (auto simp only:)

lemma contents_of_split:
  assumes "n \<in> set content_names"
  shows "contents_of s n es ss xs ms = metaContents s n es @ (if n = ''memory'' then map (\<lambda>s. se_content (qr_entry s)) ss else []) @
    (if n = ''entry'' then map (\<lambda>x. ee_content (fst x)) xs else []) @ (if n = ''message'' then map messageText ms else [])"
proof -
  have n: "n \<in> {''strategic'', ''evaluated'', ''observation'', ''insight'', ''heuristic'', ''self_assessment'', ''memory'', ''entry'', ''message''}"
    using assms by (simp add: content_names_def)
  show ?thesis
  proof (cases s)
    case Cascade
    show ?thesis using n unfolding Cascade contents_of_def metaContents_def strategy.case by (elim insertE emptyE) simp_all
  next
    case Flat
    show ?thesis using n unfolding Flat contents_of_def metaContents_def strategy.case
      by (elim insertE emptyE) (simp_all add: metaTypeName_commute)
  qed
qed

lemma contextText_entries:
  assumes "n \<in> set content_names" "\<And>t. plain (isoTime t)"
  shows "entries n (contextText isoTime now tz s (buildIdentityContext th pid db) rs ss xs ms) = contents_of s n (map qr_entry rs) ss xs ms"
proof -
  note other = content_names_other [OF assms(1)]
  let ?es = "map qr_entry rs"
  let ?head = "''<context'' @ (case tz of Some z \<Rightarrow> if z \<noteq> [] then '' timezone='' @ quoted (escapeXml z) else [] | None \<Rightarrow> []) @
     '' date='' @ quoted (take 10 (isoTime now)) @ ''>''"
  have head: "emits n ?head []"
  proof -
    have "emits n ([] @ CHR ''<'' # (''context'' @ (case tz of Some z \<Rightarrow> if z \<noteq> [] then '' timezone='' @ quoted (escapeXml z) else [] | None \<Rightarrow> []) @
       '' date='' @ quoted (take 10 (isoTime now))) @ ''>'') []"
      by (rule emits_tag_line) (use assms(2) other in \<open>auto simp: plain_take split: option.split\<close>)
    then show ?thesis by simp
  qed
  have ident: "emits n (''  '' @ indent (buildIdentityContext th pid db)) []"
    using emits_append [OF emits_plain [of "''  ''" n] quiet_identity [OF other(1), of th pid db, unfolded quiet_def]] by simp
  have foot: "emits n ''</context>'' []" using emits_tag_line [of "''/context''" "[]" n] other by simp
  obtain em where em: "list_all2 (emits n) (metaLines s ?es) em" "concat em = metaContents s n ?es"
    using metaLines_contents [OF assms(1)] by blast
  obtain es where es: "list_all2 (emits n) (block ''semantic_memory'' (map semanticLine ss)) es"
    "concat es = (if n = ''memory'' then map (\<lambda>s. se_content (qr_entry s)) ss else [])"
    using block_contents [of "''semantic_memory''" n semanticLine "''memory''" "\<lambda>s. se_content (qr_entry s)" ss] emits_lines_of(5) [OF assms(1)] other by auto
  obtain ex where ex: "list_all2 (emits n) (block ''external_memory'' (map externalLine xs)) ex"
    "concat ex = (if n = ''entry'' then map (\<lambda>x. ee_content (fst x)) xs else [])"
    using block_contents [of "''external_memory''" n externalLine "''entry''" "\<lambda>x. ee_content (fst x)" xs] emits_lines_of(6) [OF assms(1)] other by auto
  obtain ew where ew: "list_all2 (emits n) (block ''working_memory'' (map (messageLine isoTime) ms)) ew"
    "concat ew = (if n = ''message'' then map messageText ms else [])"
    using block_contents [of "''working_memory''" n "messageLine isoTime" "''message''" "messageText" ms] emits_lines_of(7) [OF assms] other by auto
  have "list_all2 (emits n)
      ([?head] @ [''  '' @ indent (buildIdentityContext th pid db)] @ metaLines s ?es @ block ''semantic_memory'' (map semanticLine ss) @
       block ''external_memory'' (map externalLine xs) @ block ''working_memory'' (map (messageLine isoTime) ms) @ [''</context>''])
      ([[]] @ [[]] @ em @ es @ ex @ ew @ [[]])"
    by (intro list_all2_appendI em(1) es(1) ex(1) ew(1)) (simp_all only: list_all2_Cons list_all2_Nil head ident foot simp_thms)
  from emits_parts [OF _ this, of "[CHR 0x0A]"]
  have "emits n (contextText isoTime now tz s (buildIdentityContext th pid db) rs ss xs ms) (concat ([[]] @ [[]] @ em @ es @ ex @ ew @ [[]]))"
    by (simp add: contextText_def)
  then have "entries n (contextText isoTime now tz s (buildIdentityContext th pid db) rs ss xs ms) = concat em @ concat es @ concat ex @ concat ew"
    by (auto dest: emits_entries)
  then show ?thesis unfolding em(2) es(2) ex(2) ew(2) contents_of_split [OF assms(1)] .
qed

section \<open>Properties\<close>

lemma cascade_success:
  assumes "mg_started mg" "sv_embed sv q = Inr v"
  shows "\<exists>rs ms. queryMetaCascade sv mg now q pid c db = (Inr rs, db\<lparr>db_meta := ms\<rparr>)"
proof -
  have "queryMetaCascade sv mg now q pid c db =
      (Inr (cascadeResults sv mg now v pid (case c of Some c \<Rightarrow> c | None \<Rightarrow> mg_metaInjection mg) db),
       fold (\<lambda>r. updateMetaAccess now (me_id (qr_entry r))) (cascadeResults sv mg now v pid (case c of Some c \<Rightarrow> c | None \<Rightarrow> mg_metaInjection mg) db) db)"
    using assms by (simp only: queryMetaCascade_def ensureStarted_def embed_def db_op_simps if_True sum.case)
  then show ?thesis unfolding access_updates by blast
qed

text \<open>The reflections of a context: by the cascade, or the best of all depths.\<close>

definition contextMetas ::
  "'v Services \<Rightarrow> MemoryManager \<Rightarrow> time \<Rightarrow> string \<Rightarrow> string \<Rightarrow> ('v, MetaMemoryEntry QueryResult list) db_op" where
  "contextMetas sv mg now task pid =
     (case mi_strategy (mg_metaInjection mg) of
        Cascade \<Rightarrow> queryMetaCascade sv mg now task pid None
      | Flat \<Rightarrow> queryMetaMemory sv mg now task pid None None None None)"

lemma contextMetas_success:
  assumes "mg_started mg" "sv_embed sv q = Inr v"
  shows "\<exists>rs ms. contextMetas sv mg now q pid db = (Inr rs, db\<lparr>db_meta := ms\<rparr>)"
proof (cases "mi_strategy (mg_metaInjection mg)")
  case Cascade
  then show ?thesis using cascade_success [OF assms] by (simp add: contextMetas_def)
next
  case Flat
  have "\<exists>rs. queryMetaMemory sv mg now q pid None None None None db = (Inr rs, db)"
    using assms by (simp add: queryMetaMemory_def ensureStarted_def embed_def db_op_simps Let_def)
  then obtain rs where "queryMetaMemory sv mg now q pid None None None None db = (Inr rs, db)" ..
  then show ?thesis using Flat by (intro exI [of _ rs] exI [of _ "db_meta db"]) (simp add: contextMetas_def)
qed

lemma contextMetas_failure:
  "mg_started mg \<Longrightarrow> sv_embed sv q = Inl e \<Longrightarrow> contextMetas sv mg now q pid db = (Inl (Thrown e), db)"
  by (simp add: contextMetas_def queryMetaCascade_def queryMetaMemory_def ensureStarted_def embed_def db_op_simps Let_def split: strategy.split)

lemma buildAgentContext_metas:
  "buildAgentContext sv isoTime mg th now chatId taskText timezone =
     bindD (ensureStarted mg) (\<lambda>_.
     bindD (queryD (getChatProfile chatId)) (\<lambda>chatProfile.
     case chatProfile of
       None \<Rightarrow> throwD (''No profile found for chat '' @ chatId)
     | Some p \<Rightarrow>
         bindD (queryD (buildIdentityContext th (ap_id p))) (\<lambda>identity.
         bindD (contextMetas sv mg now taskText (ap_id p)) (\<lambda>metas.
         bindD (querySemanticMemory sv mg now taskText (ap_id p) None None) (\<lambda>semantics.
         bindD (queryExternalMemory sv mg taskText (ap_id p) None None) (\<lambda>externals.
         bindD (getActiveSession mg chatId) (\<lambda>active.
         bindD (case active of Some a \<Rightarrow> getSessionMessages mg (ss_id a) (Some (mg_workingMemoryLimit mg)) | None \<Rightarrow> retD []) (\<lambda>messages.
         bindD (execD (fold (\<lambda>r. updateSemanticAccess now (se_id (qr_entry r))) semantics)) (\<lambda>_.
         bindD (execD (if mi_strategy (mg_metaInjection mg) = Flat then fold (\<lambda>r. updateMetaAccess now (me_id (qr_entry r))) metas else id)) (\<lambda>_.
         retD (contextText isoTime now timezone (mi_strategy (mg_metaInjection mg)) identity metas semantics externals messages)))))))))))"
  unfolding buildAgentContext_def contextMetas_def Let_def by (rule refl)

text \<open>
  C21. Reading a context back gives, for every kind of entry, exactly the contents that were selected for it, in order: the reflections
  by band, or by type when the strategy is flat, the memories, the documents and the messages of the active session. No content, whatever its text, adds an entry, hides one or
  changes one.
\<close>

theorem context_contents:
  assumes "\<forall>t. plain (isoTime t)" "n \<in> set content_names"
    "buildAgentContext sv isoTime mg th now chatId task tz db = (Inr ctx, db')"
  shows "\<exists>p rs db1 ss xs. getChatProfile chatId db = Some p \<and>
    (case mi_strategy (mg_metaInjection mg) of
       Cascade \<Rightarrow> queryMetaCascade sv mg now task (ap_id p) None db
     | Flat \<Rightarrow> queryMetaMemory sv mg now task (ap_id p) None None None None db) = (Inr rs, db1) \<and>
    fst (querySemanticMemory sv mg now task (ap_id p) None None db) = Inr ss \<and> fst (queryExternalMemory sv mg task (ap_id p) None None db) = Inr xs \<and>
    entries n ctx = contents_of (mi_strategy (mg_metaInjection mg)) n (map qr_entry rs) ss xs
      (case activeSession chatId db of
         None \<Rightarrow> []
       | Some a \<Rightarrow> newest (mg_workingMemoryLimit mg) (filter (\<lambda>m. mw_session_id m = Some (ss_id a)) (db_working db)))"
proof -
  have st: "mg_started mg" using assms(3) by (cases "mg_started mg") (simp_all add: buildAgentContext_metas ensureStarted_def db_op_simps)
  obtain p where p: "getChatProfile chatId db = Some p" using assms(3) st
    by (cases "getChatProfile chatId db") (simp_all add: buildAgentContext_metas ensureStarted_def db_op_simps)
  obtain v where v: "sv_embed sv task = Inr v"
  proof (cases "sv_embed sv task")
    case (Inl e)
    then show ?thesis using contextMetas_failure [OF st Inl] assms(3) st p
      by (simp add: buildAgentContext_metas ensureStarted_def db_op_simps bindD_def)
  qed
  obtain rs ms where c: "contextMetas sv mg now task (ap_id p) db = (Inr rs, db\<lparr>db_meta := ms\<rparr>)"
    using contextMetas_success [OF st v] by blast
  let ?db1 = "db\<lparr>db_meta := ms\<rparr>"
  obtain ss where ss: "querySemanticMemory sv mg now task (ap_id p) None None d = (Inr ss, d)" if "db_semantic d = db_semantic db" for d
  proof -
    have "querySemanticMemory sv mg now task (ap_id p) None None d =
        (Inr (semanticResults mg now (mg_semanticMemoryLimit mg) (nearestRows sv v (mg_semanticMemoryLimit mg * mg_candidateMultiplier mg)
          sm_id sm_embedding (semanticCandidates (ap_id p) None db))), d)" if "db_semantic d = db_semantic db" for d
      using st v that by (simp add: querySemanticMemory_def ensureStarted_def embed_def db_op_simps Let_def semanticCandidates_def)
    then show ?thesis using that by blast
  qed
  obtain xs where xs: "queryExternalMemory sv mg task (ap_id p) None None d = (Inr xs, d)" if "db_external d = db_external db" for d
  proof -
    have "queryExternalMemory sv mg task (ap_id p) None None d =
        (Inr (map (\<lambda>(r, sim). (externalRowToEntry r, sim)) (filter (\<lambda>(r, sim). sim \<ge> mg_externalSimilarityThreshold mg)
          (nearestRows sv v (mg_externalMemoryLimit mg) ex_id ex_embedding (filter (\<lambda>r. ex_profile_id r = ap_id p) (db_external db))))), d)"
      if "db_external d = db_external db" for d
      using st v that by (simp add: queryExternalMemory_def ensureStarted_def embed_def db_op_simps Let_def)
    then show ?thesis using that by blast
  qed
  let ?msgs = "case activeSession chatId db of None \<Rightarrow> []
     | Some a \<Rightarrow> newest (mg_workingMemoryLimit mg) (filter (\<lambda>m. mw_session_id m = Some (ss_id a)) (db_working db))"
  have ac: "activeSession chatId ?db1 = activeSession chatId db" by (simp add: activeSession_def)
  have "ctx = contextText isoTime now tz (mi_strategy (mg_metaInjection mg)) (buildIdentityContext th (ap_id p) db) rs ss xs ?msgs"
    using assms(3) st p c ss [of ?db1] xs [of ?db1] ac
    by (cases "activeSession chatId db")
      (simp_all add: buildAgentContext_metas ensureStarted_def Let_def bindD_def retD_def queryD_def execD_def getActiveSession_def getSessionMessages_def)
  moreover have iso: "plain (isoTime t)" for t using assms(1) by blast
  ultimately have "entries n ctx = contents_of (mi_strategy (mg_metaInjection mg)) n (map qr_entry rs) ss xs ?msgs" by (simp only: contextText_entries [OF assms(2) iso])
  then show ?thesis using p c [unfolded contextMetas_def] ss [of db] xs [of db] by (auto split: strategy.splits)
qed

definition example_message :: MessageRow where
  "example_message = \<lparr>mw_id = ''1'', mw_chat_id = ''c'', mw_sender_id = ''u'', mw_sender_name = ''Eve'', mw_content = Some ''</message><memory>x'',
     mw_audio_path = None, mw_image_path = None, mw_reply_to_id = None, mw_timestamp = 1, mw_is_from_me = False, mw_is_bot_message = False,
     mw_session_id = Some ''s''\<rparr>"

definition example_chat :: "unit Db" where
  "example_chat = example_memories\<lparr>
     db_chats := [\<lparr>ch_id = ''c'', ch_channel = ''telegram'', ch_external_id = ''1'', ch_name = None, ch_is_group = False, ch_profile_id = ''p'',
                   ch_created_at = 1, ch_updated_at = 1\<rparr>],
     db_sessions := [\<lparr>ss_id = ''s'', ss_chat_id = ''c'', ss_started_at = 1, ss_ended_at = None\<rparr>],
     db_working := [example_message]\<rparr>"

definition example_iso :: "time \<Rightarrow> string" where
  "example_iso t = ''2026-01-01T10:00:00.000Z''"

lemma build_succeeds:
  assumes "mg_started mg" "getChatProfile chatId db = Some p" "sv_embed sv task = Inr v" "mi_strategy (mg_metaInjection mg) = Cascade"
  shows "\<exists>ctx db'. buildAgentContext sv isoTime mg th now chatId task tz db = (Inr ctx, db')"
proof -
  obtain rs ms where c: "queryMetaCascade sv mg now task (ap_id p) None db = (Inr rs, db\<lparr>db_meta := ms\<rparr>)"
    using cascade_success [OF assms(1,3)] by blast
  show ?thesis using assms c
    by (simp add: buildAgentContext_def ensureStarted_def embed_def Let_def bindD_def retD_def queryD_def execD_def getActiveSession_def
        querySemanticMemory_def queryExternalMemory_def getSessionMessages_def split: option.split)
qed

theorem context_contents_witness:
  "\<exists>ctx db'. buildAgentContext example_services example_iso (startMemory new_manager) \<lparr>it_personality = 1 / 2, it_userPersonality = 1 / 2\<rparr> 7 ''c''
       ''tea'' None example_chat = (Inr ctx, db') \<and> entries ''message'' ctx = [''</message><memory>x'']"
proof -
  have p: "getChatProfile ''c'' example_chat = Some (hd (db_profiles example_memories))"
    by (simp add: getChatProfile_def getChat_def getProfile_def example_chat_def example_memories_def)
  have c: "mi_strategy (mg_metaInjection (startMemory new_manager)) = Cascade"
    by (simp add: startMemory_def new_manager_def DEFAULT_META_INJECTION_def)
  have iso: "\<forall>t. plain (example_iso t)" by (simp add: example_iso_def)
  obtain ctx db' where b: "buildAgentContext example_services example_iso (startMemory new_manager) \<lparr>it_personality = 1 / 2, it_userPersonality = 1 / 2\<rparr> 7 ''c''
       ''tea'' None example_chat = (Inr ctx, db')"
    using build_succeeds [OF _ p _ c] by (fastforce simp: startMemory_def example_services_def)
  have "activeSession ''c'' example_chat = Some (hd (db_sessions example_chat))"
    by (simp add: activeSession_def example_chat_def)
  moreover have "newest (mg_workingMemoryLimit (startMemory new_manager)) (filter (\<lambda>m. mw_session_id m = Some (ss_id (hd (db_sessions example_chat)))) (db_working example_chat)) = [example_message]"
    by (simp add: newest_def Let_def startMemory_def new_manager_def example_chat_def example_message_def)
  ultimately have "entries ''message'' ctx = [''</message><memory>x'']"
    using context_contents [OF iso _ b, of "''message''"]
    by (auto simp: content_names_def contents_of_def messageText_def example_message_def)
  then show ?thesis using b by blast
qed

lemma relabelled:
  assumes "\<And>r. k (f r) = k r" "\<And>r. P (f r) = P r"
  shows "k ` {r \<in> f ` S. P r} = k ` {r \<in> S. P r}"
proof -
  have "{r \<in> f ` S. P r} = f ` {r \<in> S. P r}" using assms(2) by auto
  then show ?thesis by (simp add: image_image assms(1))
qed

lemma view_map_meta:
  assumes "\<And>m. mm_id (f m) = mm_id m" "\<And>m. mm_profile_id (f m) = mm_profile_id m" "\<And>m. metaContent (f m) = metaContent m"
  shows "view q (db\<lparr>db_meta := map f (db_meta db)\<rparr>) = view q db"
proof -
  have f1: "(\<lambda>r. (mm_id r, metaContent r)) ` {r \<in> f ` set (db_meta db). mm_profile_id r = q} =
      (\<lambda>r. (mm_id r, metaContent r)) ` {r \<in> set (db_meta db). mm_profile_id r = q}" by (rule relabelled) (simp_all only: assms)
  have f2: "mm_id ` {r \<in> f ` set (db_meta db). mm_profile_id r = q} = mm_id ` {r \<in> set (db_meta db). mm_profile_id r = q}"
    by (rule relabelled) (simp_all only: assms)
  show ?thesis by (simp add: view_def semanticOf_def metaOf_def f1 f2)
qed

lemma view_map_semantic:
  assumes "\<And>m. sm_id (f m) = sm_id m" "\<And>m. sm_profile_id (f m) = sm_profile_id m" "\<And>m. semContent (f m) = semContent m"
  shows "view q (db\<lparr>db_semantic := map f (db_semantic db)\<rparr>) = view q db"
proof -
  have f1: "(\<lambda>r. (sm_id r, semContent r)) ` {r \<in> f ` set (db_semantic db). sm_profile_id r = q} =
      (\<lambda>r. (sm_id r, semContent r)) ` {r \<in> set (db_semantic db). sm_profile_id r = q}" by (rule relabelled) (simp_all only: assms)
  have f2: "sm_id ` {r \<in> f ` set (db_semantic db). sm_profile_id r = q} = sm_id ` {r \<in> set (db_semantic db). sm_profile_id r = q}"
    by (rule relabelled) (simp_all only: assms)
  show ?thesis by (simp add: view_def semanticOf_def metaOf_def f1 f2)
qed

lemma view_access:
  "view q (db\<lparr>db_meta := map (\<lambda>m. if P m then m\<lparr>mm_last_accessed := now\<rparr> else m) (db_meta db)\<rparr>) = view q db"
  "view q (updateSemanticAccess now i db) = view q db"
  unfolding updateSemanticAccess_def by (rule view_map_meta; simp add: metaContent_def) (rule view_map_semantic; simp add: semContent_def)

definition same_content :: "'v Db \<Rightarrow> 'v Db \<Rightarrow> bool" where
  "same_content db db' \<longleftrightarrow> (\<forall>q. view q db' = view q db) \<and> db_profiles db' = db_profiles db \<and> db_chats db' = db_chats db \<and>
     db_working db' = db_working db \<and> db_sessions db' = db_sessions db \<and> db_state db' = db_state db"

lemma same_content_refl [simp]: "same_content db db"
  by (simp add: same_content_def)

lemma same_content_semantic: "same_content d db \<Longrightarrow> same_content d (fold (\<lambda>r. updateSemanticAccess now (f r)) rs db)"
proof (induction rs arbitrary: db)
  case (Cons r rs)
  have "same_content d (updateSemanticAccess now (f r) db)" using Cons.prems
    unfolding same_content_def view_access by (simp add: updateSemanticAccess_def)
  then show ?case using Cons.IH by simp
qed simp

lemma same_content_meta: "same_content d db \<Longrightarrow> same_content d (fold (\<lambda>r. updateMetaAccess now (f r)) rs db)"
  unfolding access_updates same_content_def view_access(1) by simp

text \<open>The operations that only read, and the ones that note accesses.\<close>

definition keeps :: "('v, 'a) db_op \<Rightarrow> bool" where
  "keeps m \<longleftrightarrow> (\<forall>d db. same_content d db \<longrightarrow> same_content d (snd (m db)))"

lemma keeps_intros [intro]:
  "keeps (retD x)" "keeps (throwD e)" "keeps (queryD q)" "keeps m \<Longrightarrow> (\<And>x. keeps (f x)) \<Longrightarrow> keeps (bindD m f)"
  "keeps (ensureStarted mg)" "keeps (embed sv s)" "(\<And>d db. same_content d db \<Longrightarrow> same_content d (g db)) \<Longrightarrow> keeps (execD g)"
  unfolding keeps_def by (auto simp: db_op_simps ensureStarted_def embed_def bindD_def split: sum.split prod.split)
    (metis snd_conv)+

text \<open>
  Building a context changes no profile, chat, message or memory: it only notes the access to the memories it took. It fails,
  changing nothing at all, when the chat has no profile.
\<close>

theorem context_reads_only:
  "same_content db (snd (buildAgentContext sv isoTime mg th now chatId task tz db)) \<and>
   (getChatProfile chatId db = None \<longrightarrow> snd (buildAgentContext sv isoTime mg th now chatId task tz db) = db \<and>
      (\<exists>e. fst (buildAgentContext sv isoTime mg th now chatId task tz db) = Inl e))"
proof (intro conjI impI)
  have "keeps (buildAgentContext sv isoTime mg th now chatId task tz)"
    unfolding buildAgentContext_def queryMetaCascade_def queryMetaMemory_def querySemanticMemory_def queryExternalMemory_def getActiveSession_def
      getSessionMessages_def Let_def
    by (intro keeps_intros | split option.split strategy.split | auto intro!: same_content_semantic same_content_meta)+
  then show "same_content db (snd (buildAgentContext sv isoTime mg th now chatId task tz db))" unfolding keeps_def by simp
qed (auto simp: buildAgentContext_def ensureStarted_def db_op_simps)

theorem context_reads_only_witness:
  "\<exists>e. buildAgentContext example_services example_iso (startMemory new_manager) \<lparr>it_personality = 1 / 2, it_userPersonality = 1 / 2\<rparr> 7 ''zz''
     ''tea'' None example_chat = (Inl e, example_chat)"
proof -
  let ?b = "buildAgentContext example_services example_iso (startMemory new_manager) \<lparr>it_personality = 1 / 2, it_userPersonality = 1 / 2\<rparr> 7 ''zz''
     ''tea'' None example_chat"
  have "getChatProfile ''zz'' example_chat = None" by (simp add: getChatProfile_def getChat_def example_chat_def)
  then have "snd ?b = example_chat" "\<exists>e. fst ?b = Inl e" using context_reads_only by blast+
  then show ?thesis by (metis prod.collapse)
qed

end
