(* ===== verification/Mcp_Server.thy ===== *)
theory Mcp_Server
  imports Memory_Context Js_Value
begin

text \<open>
  \<^verbatim>\<open>src/src/orchestrator/mcp-server.ts\<close>: the server through which an agent in its container uses the memories, the
  identity and the profiles of its user, and a few administrative tools: bytes on a socket, lines, JSON-RPC requests, tool calls.
  What is outside of the database (skills, their registry, the Google Workspace container) answers through the functions of
  \<open>Ext\<close>, and the calls to it are noted. The program does not wait for one request before it takes the next; here they are handled one
  after the other. Shown: the lines do not depend on how a text is cut into chunks between characters, while a cut within a
  character spoils it; a request gets one answer with its id, as long as the links between reflections lead to lower depths; no tool
  changes what belongs to another profile; a call that lacks a required argument changes nothing; and a line \<^verbatim>\<open>null\<close> rejects its handler
  without touching the other lines.
\<close>

section \<open>The world of the tools\<close>

record SkillEntry =
  sk_name :: string
  sk_version :: string
  sk_source :: string
  sk_installedAt :: string

record GwsResult =
  gw_success :: bool
  gw_exitCode :: int
  gw_output :: string
  gw_stderr :: "string option"

datatype ExtCall = Download string | Install string | RmDir string | RemoveSkill string | Gws string "real option"

text \<open>
  \<open>xt_parse\<close> is \<^verbatim>\<open>JSON.parse\<close> on the code points of a text. The server does not check the types of its arguments:
  \<open>xt_coerce k v\<close> is what the service that an argument \<open>k\<close> reaches (the embeddings, the driver of the database, the channel
  container) makes of a value that is not a string, its error on the left.
\<close>

record Ext =
  xt_hasStore :: bool
  xt_hasRegistry :: bool
  xt_hasChannel :: bool
  xt_lookup :: "string \<Rightarrow> string + bool"
  xt_download :: "string \<Rightarrow> string + string"
  xt_install :: "string \<Rightarrow> string + string \<times> string"
  xt_remove :: "string \<Rightarrow> string + unit"
  xt_list :: "string + SkillEntry list"
  xt_index :: "string + (string \<times> string \<times> string) list"
  xt_search :: "string \<Rightarrow> string + (string \<times> string \<times> string) list"
  xt_manifest :: "string + string list"
  xt_gws :: "string \<Rightarrow> real option \<Rightarrow> string + GwsResult"
  xt_parse :: "nat list \<Rightarrow> jv option"
  xt_print :: "jv \<Rightarrow> string"
  xt_string :: "jv \<Rightarrow> string option"
  xt_coerce :: "string \<Rightarrow> jv option \<Rightarrow> string + string"

text \<open>What a call takes from its surroundings: the managers, the clock, a new id, the texts of times, and the chat of the server.\<close>

record 'v Env =
  ev_services :: "'v Services"
  ev_memory :: MemoryManager
  ev_now :: time
  ev_newId :: string
  ev_isoTime :: "time \<Rightarrow> string"
  ev_ext :: Ext
  ev_defaultChatId :: "string option"
  ev_socketPath :: string
  ev_listening :: bool

record 'v World =
  wd_db :: "'v Db"
  wd_profileId :: "string option"
  wd_calls :: "ExtCall list"

text \<open>A tool throws an error, or is a call that never returns.\<close>

datatype failure = Failed string | NoReturn

type_synonym ('v, 'a) tool = "'v World \<Rightarrow> (failure + 'a) \<times> 'v World"

definition retT :: "'a \<Rightarrow> ('v, 'a) tool" where "retT x w = (Inr x, w)"
definition throwT :: "string \<Rightarrow> ('v, 'a) tool" where "throwT e w = (Inl (Failed e), w)"

definition bindT :: "('v, 'a) tool \<Rightarrow> ('a \<Rightarrow> ('v, 'b) tool) \<Rightarrow> ('v, 'b) tool" where
  "bindT m f w = (case m w of (Inl e, w1) \<Rightarrow> (Inl e, w1) | (Inr x, w1) \<Rightarrow> f x w1)"

fun db_message :: "db_error \<Rightarrow> string" where
  "db_message (Thrown e) = e"
| "db_message (Foreign_key c) = ''violates foreign key constraint '' @ c"
| "db_message (Unique_violation c) = ''violates unique constraint '' @ c"

definition dbT :: "('v, 'a) db_op \<Rightarrow> ('v, 'a) tool" where
  "dbT m w = (case m (wd_db w) of (Inl e, db) \<Rightarrow> (Inl (Failed (db_message e)), w\<lparr>wd_db := db\<rparr>) | (Inr x, db) \<Rightarrow> (Inr x, w\<lparr>wd_db := db\<rparr>))"

definition extT :: "ExtCall list \<Rightarrow> string + 'a \<Rightarrow> ('v, 'a) tool" where
  "extT cs r w = ((case r of Inl e \<Rightarrow> Inl (Failed e) | Inr x \<Rightarrow> Inr x), w\<lparr>wd_calls := wd_calls w @ cs\<rparr>)"

definition getProfileId :: "('v, string) tool" where
  "getProfileId w = (case wd_profileId w of Some p \<Rightarrow> if p \<noteq> [] then (Inr p, w) else (Inl (Failed ''Profile not resolved. Call start() first.''), w)
     | None \<Rightarrow> (Inl (Failed ''Profile not resolved. Call start() first.''), w))"

section \<open>Arguments\<close>

text \<open>\<^verbatim>\<open>if (!args[k]) throw ..\<close>: the guard that the tools have. Its type is not checked.\<close>

definition required :: "jv \<Rightarrow> string \<Rightarrow> ('v, jv option) tool" where
  "required args k = (if falsy (jprop args k) then throwT (k @ '' is required'') else retT (jprop args k))"

text \<open>An argument where a service takes a string; and where the code itself does what fails for another value.\<close>

definition textArg :: "'v Env \<Rightarrow> string \<Rightarrow> jv option \<Rightarrow> ('v, string) tool" where
  "textArg ev k v = (case v of Some (JvStr s) \<Rightarrow> retT s | _ \<Rightarrow> extT [] (xt_coerce (ev_ext ev) k v))"

definition stringOr :: "jv option \<Rightarrow> string \<Rightarrow> ('v, string) tool" where
  "stringOr v e = (case v of Some (JvStr s) \<Rightarrow> retT s | _ \<Rightarrow> throwT e)"

text \<open>\<^verbatim>\<open>v.length > n\<close>, where the length that an object has by itself counts when it is a number.\<close>

definition longerThan :: "nat \<Rightarrow> jv option \<Rightarrow> bool" where
  "longerThan n v =
     (case v of
        Some (JvStr s) \<Rightarrow> length s > n
      | Some (JvArr xs) \<Rightarrow> length xs > n
      | Some (JvObj kvs) \<Rightarrow> (case jprop (JvObj kvs) ''length'' of Some (JvNum x) \<Rightarrow> x > of_nat n | _ \<Rightarrow> False)
      | _ \<Rightarrow> False)"

text \<open>\<^verbatim>\<open>${v}\<close>, which throws for an object that cannot be made a string.\<close>

definition asText :: "Ext \<Rightarrow> jv option \<Rightarrow> string option" where
  "asText x v = (case v of None \<Rightarrow> Some ''undefined'' | Some (JvStr s) \<Rightarrow> Some s | Some u \<Rightarrow> xt_string x u)"

definition textOf :: "'v Env \<Rightarrow> jv option \<Rightarrow> ('v, string) tool" where
  "textOf ev v = (case asText (ev_ext ev) v of Some s \<Rightarrow> retT s | None \<Rightarrow> throwT ''Cannot convert object to primitive value'')"

text \<open>An optional value of an enumeration.\<close>

definition enumArg :: "jv \<Rightarrow> string \<Rightarrow> (string \<times> 'e) list \<Rightarrow> ('v, 'e option) tool" where
  "enumArg args k names =
     (if falsy (jprop args k) then retT None
      else case jprop args k of
        Some (JvStr s) \<Rightarrow> (case map_of names s of Some e \<Rightarrow> retT (Some e)
          | None \<Rightarrow> throwT (''Invalid '' @ k @ ''. Must be one of: '' @ join_with '', '' (map fst names)))
      | _ \<Rightarrow> throwT (''Invalid '' @ k @ ''. Must be one of: '' @ join_with '', '' (map fst names)))"

definition requiredEnum :: "jv \<Rightarrow> string \<Rightarrow> (string \<times> 'e) list \<Rightarrow> ('v, 'e) tool" where
  "requiredEnum args k names =
     bindT (enumArg args k names) (\<lambda>e. case e of Some x \<Rightarrow> retT x | None \<Rightarrow> throwT (k @ '' is required''))"

definition VALID_SEMANTIC_TYPES :: "(string \<times> SemanticMemoryType) list" where
  "VALID_SEMANTIC_TYPES = map (\<lambda>t. (semanticTypeName t, t)) [Preference, Fact, Pattern, Contact, Instruction, Summary, Procedure]"

definition VALID_META_TYPES :: "(string \<times> MetaMemoryType) list" where
  "VALID_META_TYPES = map (\<lambda>t. (metaTypeName t, t)) [Insight, Heuristic, Self_assessment]"

definition VALID_EXTERNAL_SOURCES :: "(string \<times> ExternalMemorySource) list" where
  "VALID_EXTERNAL_SOURCES = map (\<lambda>t. (externalSourceName t, t)) [Document, User_provided]"

definition VALID_AGENT_PERSONALITY_DIMS :: "(string \<times> AgentDimension) list" where
  "VALID_AGENT_PERSONALITY_DIMS = map (\<lambda>d. (agentDimName d, d))
     [A_communication_style, A_humor, A_emotional_register, A_values, A_rapport, A_boundaries]"

definition VALID_USER_PERSONALITY_DIMS :: "(string \<times> UserDimension) list" where
  "VALID_USER_PERSONALITY_DIMS = map (\<lambda>d. (userDimName d, d))
     [U_communication_style, U_work_patterns, U_decision_making, U_priorities, U_preferences, U_boundaries]"

definition clampLimit :: "jv option \<Rightarrow> nat \<Rightarrow> nat \<Rightarrow> nat" where
  "clampLimit v d mx = (case v of Some (JvNum x) \<Rightarrow> nat (max 1 (min (int mx) \<lfloor>x\<rfloor>)) | _ \<Rightarrow> d)"

definition round3 :: "real \<Rightarrow> real" where
  "round3 n = of_int \<lfloor>n * 1000 + 1 / 2\<rfloor> / 1000"

definition num3 :: "real \<Rightarrow> jv option" where "num3 x = Some (JvNum (round3 x))"

text \<open>A depth: the column is an integer, and a number that is not makes the statement fail.\<close>

definition depthArg :: "jv option \<Rightarrow> ('v, int option) tool" where
  "depthArg v = (case v of Some (JvNum x) \<Rightarrow> if x = of_int \<lfloor>x\<rfloor> then retT (Some \<lfloor>x\<rfloor>) else throwT ''invalid input syntax for type integer''
     | _ \<Rightarrow> retT None)"

section \<open>Memory tools\<close>

definition toolSearchSemantic :: "'v Env \<Rightarrow> jv \<Rightarrow> ('v, jv) tool" where
  "toolSearchSemantic ev args =
     bindT (required args ''query'') (\<lambda>q.
     bindT (enumArg args ''type'' VALID_SEMANTIC_TYPES) (\<lambda>memoryType.
     let limit = clampLimit (jprop args ''limit'') 10 50 in
     bindT getProfileId (\<lambda>profileId.
     bindT (textArg ev ''query'' q) (\<lambda>query.
     bindT (dbT (querySemanticMemory (ev_services ev) (ev_memory ev) (ev_now ev) query profileId memoryType (Some limit))) (\<lambda>results.
     retT (JvArr (map (\<lambda>r. obj [(''id'', strV (se_id (qr_entry r))), (''content'', strV (se_content (qr_entry r))),
         (''type'', strV (semanticTypeName (se_memoryType (qr_entry r)))), (''importance'', Some (JvNum (se_importance (qr_entry r)))),
         (''depth'', numN (se_depth (qr_entry r))), (''similarity'', num3 (qr_similarity r)), (''score'', num3 (qr_compositeScore r)),
         (''created_at'', numI (se_createdAt (qr_entry r)))]) results)))))))"

definition toolSearchExternal :: "'v Env \<Rightarrow> jv \<Rightarrow> ('v, jv) tool" where
  "toolSearchExternal ev args =
     bindT (required args ''query'') (\<lambda>q.
     bindT (enumArg args ''source'' VALID_EXTERNAL_SOURCES) (\<lambda>source1.
     let limit = clampLimit (jprop args ''limit'') 5 50 in
     bindT getProfileId (\<lambda>profileId.
     bindT (textArg ev ''query'' q) (\<lambda>query.
     bindT (dbT (queryExternalMemory (ev_services ev) (ev_memory ev) query profileId source1 (Some limit))) (\<lambda>results.
     retT (JvArr (map (\<lambda>(e, sim). obj [(''content'', strV (ee_content e)), (''source'', strV (externalSourceName (ee_sourceType e))),
         (''source_ref'', strV (ee_sourceRef e)), (''similarity'', num3 sim), (''created_at'', numI (ee_createdAt e))]) results)))))))"

definition formatMessageForTool :: "'v Env \<Rightarrow> MessageRow \<Rightarrow> jv" where
  "formatMessageForTool ev m = obj [(''sender'', strV (mw_sender_name m)),
     (''content'', strV (case mw_content m of Some c \<Rightarrow> c | None \<Rightarrow> ''[no content]'')),
     (''time'', strV (ev_isoTime ev (mw_timestamp m))), (''is_assistant'', Some (JvBool (mw_is_from_me m)))]"

definition toolRecallConversation :: "'v Env \<Rightarrow> jv \<Rightarrow> ('v, jv) tool" where
  "toolRecallConversation ev args =
     (let chatId = nullish (jprop args ''chat_id'') (optStr (ev_defaultChatId ev));
          sessionId = jprop args ''session_id'';
          limit = clampLimit (jprop args ''limit'') 20 100
      in if \<not> falsy sessionId
         then bindT (textArg ev ''session_id'' sessionId) (\<lambda>s.
              bindT (dbT (getSessionMessages (ev_memory ev) s (Some limit))) (\<lambda>ms. retT (JvArr (map (formatMessageForTool ev) ms))))
         else if \<not> falsy chatId
         then bindT (textArg ev ''chat_id'' chatId) (\<lambda>c.
              bindT (dbT (queryD (getRecentMessages c limit))) (\<lambda>ms. retT (JvArr (map (formatMessageForTool ev) ms))))
         else throwT ''Either chat_id or session_id is required'')"

definition toolStoreSemantic :: "'v Env \<Rightarrow> jv \<Rightarrow> ('v, jv) tool" where
  "toolStoreSemantic ev args =
     bindT (required args ''content'') (\<lambda>c.
     if longerThan 2000 c then throwT ''content must be 2000 characters or less''
     else bindT (requiredEnum args ''type'' VALID_SEMANTIC_TYPES) (\<lambda>memoryType.
     let importance = (case jprop args ''importance'' of Some (JvNum x) \<Rightarrow> Some (max 0 (min 1 x)) | _ \<Rightarrow> None) in
     bindT getProfileId (\<lambda>profileId.
     bindT (textArg ev ''content'' c) (\<lambda>content.
     bindT (dbT (storeSemanticMemory (ev_services ev) (ev_memory ev) (ev_now ev) (ev_newId ev)
        \<lparr>so_content = content, so_memoryType = memoryType, so_importance = importance, so_sourceSession = None, so_depth = None,
          so_profileId = profileId\<rparr>)) (\<lambda>i.
     retT (obj [(''id'', strV i), (''stored'', Some (JvBool True))]))))))"

definition statsObj :: "(string, nat) js_map \<Rightarrow> jv" where
  "statsObj st = JvObj (map (\<lambda>(k, n). (k, JvNum (of_nat n))) st)"

definition toolGetMemoryStats :: "'v Env \<Rightarrow> ('v, jv) tool" where
  "toolGetMemoryStats ev = bindT getProfileId (\<lambda>p. bindT (dbT (getMemoryStats (ev_memory ev) p)) (\<lambda>st. retT (statsObj st)))"

definition toolExpandMemory :: "'v Env \<Rightarrow> jv \<Rightarrow> ('v, jv) tool" where
  "toolExpandMemory ev args =
     bindT (required args ''memory_id'') (\<lambda>m.
     bindT (textArg ev ''memory_id'' m) (\<lambda>memoryId.
     bindT (dbT (expandMemory (ev_memory ev) memoryId)) (\<lambda>result.
     retT (case result of
        Messages ms \<Rightarrow> obj [(''type'', strV ''messages''), (''data'', Some (JvArr (map (formatMessageForTool ev) ms)))]
      | ChildSummaries ss \<Rightarrow> obj [(''type'', strV ''summaries''), (''data'', Some (JvArr (map (\<lambda>s.
          obj [(''id'', strV (se_id s)), (''content'', strV (se_content s)), (''depth'', numN (se_depth s)),
            (''earliest_at'', Option.bind (se_earliestAt s) numI), (''latest_at'', Option.bind (se_latestAt s) numI)]) ss)))]
      | Nothing \<Rightarrow> obj [(''type'', strV ''empty''), (''data'', Some (JvArr []))]))))"

definition toolSearchMeta :: "'v Env \<Rightarrow> jv \<Rightarrow> ('v, jv) tool" where
  "toolSearchMeta ev args =
     bindT (required args ''query'') (\<lambda>q.
     bindT (enumArg args ''type'' VALID_META_TYPES) (\<lambda>reflectionType.
     let limit = clampLimit (jprop args ''limit'') 5 20 in
     bindT (depthArg (jprop args ''min_depth'')) (\<lambda>minDepth.
     bindT (depthArg (jprop args ''max_depth'')) (\<lambda>maxDepth.
     bindT getProfileId (\<lambda>profileId.
     bindT (textArg ev ''query'' q) (\<lambda>query.
     bindT (dbT (queryMetaMemory (ev_services ev) (ev_memory ev) (ev_now ev) query profileId reflectionType (Some limit) minDepth maxDepth)) (\<lambda>results.
     retT (JvArr (map (\<lambda>r. obj [(''id'', strV (me_id (qr_entry r))), (''content'', strV (me_content (qr_entry r))),
         (''reflection_type'', strV (metaTypeName (me_reflectionType (qr_entry r)))), (''confidence'', num3 (me_confidence (qr_entry r))),
         (''depth'', numN (me_depth (qr_entry r))), (''similarity'', num3 (qr_similarity r)), (''score'', num3 (qr_compositeScore r))]) results)))))))))"

definition sourceObj :: "SemanticMemoryEntry \<Rightarrow> jv" where
  "sourceObj s = obj [(''id'', strV (se_id s)), (''content'', strV (se_content s)), (''memory_type'', strV (semanticTypeName (se_memoryType s))),
     (''importance'', Some (JvNum (se_importance s))), (''depth'', numN (se_depth s))]"

definition toolExpandMeta :: "'v Env \<Rightarrow> jv \<Rightarrow> ('v, jv) tool" where
  "toolExpandMeta ev args =
     bindT (required args ''meta_id'') (\<lambda>m.
     bindT (textArg ev ''meta_id'' m) (\<lambda>metaId.
     bindT (dbT (expandMetaMemory (ev_memory ev) metaId)) (\<lambda>result.
     retT (case result of
        SourceSemantics ss \<Rightarrow> obj [(''type'', strV ''semantic_sources''), (''data'', Some (JvArr (map sourceObj ss)))]
      | ChildMetas ms \<Rightarrow> obj [(''type'', strV ''child_metas''), (''data'', Some (JvArr (map (\<lambda>m.
          obj [(''id'', strV (me_id m)), (''content'', strV (me_content m)), (''reflection_type'', strV (metaTypeName (me_reflectionType m))),
            (''confidence'', num3 (me_confidence m)), (''depth'', numN (me_depth m))]) ms)))]
      | NoEntry \<Rightarrow> obj [(''type'', strV ''empty''), (''data'', Some (JvArr []))]))))"

text \<open>
  A walk to the sources that is longer than there are reflections goes in a circle, and the program does not return from it
  (\<open>trace_hangs\<close>). With the largest depth added the fuel is also enough for every walk along which depths decrease.
\<close>

definition traceFuel :: "'v Db \<Rightarrow> nat" where
  "traceFuel db = Suc (length (db_meta db) + fold max (map mm_depth (db_meta db)) 0)"

definition hangT :: "('v, 'a) tool" where "hangT w = (Inl NoReturn, w)"

definition toolTraceToSource :: "'v Env \<Rightarrow> jv \<Rightarrow> ('v, jv) tool" where
  "toolTraceToSource ev args =
     bindT (required args ''meta_id'') (\<lambda>m.
     bindT (textArg ev ''meta_id'' m) (\<lambda>metaId.
     bindT (\<lambda>w. dbT (traceMetaToSources (traceFuel (wd_db w)) (ev_memory ev) metaId) w) (\<lambda>sources.
     case sources of
       Some ss \<Rightarrow> retT (obj [(''count'', numN (length ss)), (''sources'', Some (JvArr (map sourceObj ss)))])
     | None \<Rightarrow> hangT)))"

section \<open>Identity tools\<close>

fun of_json :: "json \<Rightarrow> jv" where
  "of_json JNull = JvNull"
| "of_json (JBool b) = JvBool b"
| "of_json (JNum n) = JvNum (of_int n)"
| "of_json (JStr s) = JvStr s"
| "of_json (JArr xs) = JvArr (map of_json xs)"
| "of_json (JObj kvs) = JvObj (map (\<lambda>(k, v). (k, of_json v)) kvs)"

definition agentIdentityObj :: "AgentIdentity option \<Rightarrow> jv" where
  "agentIdentityObj a = (case a of None \<Rightarrow> JvNull
     | Some i \<Rightarrow> obj [(''role'', strV (id_role i)), (''expertise'', Some (JvArr (map JvStr (id_expertise i)))), (''tone'', strV (id_tone i)),
         (''instructions'', optStr (id_instructions i)), (''createdAt'', numI (id_createdAt i)), (''updatedAt'', numI (id_updatedAt i))])"

definition userIdentityObj :: "UserIdentity option \<Rightarrow> jv" where
  "userIdentityObj u = (case u of None \<Rightarrow> JvNull
     | Some i \<Rightarrow> obj [(''name'', optStr (us_name i)), (''role'', optStr (us_role i)), (''organization'', optStr (us_organization i)),
         (''timezone'', optStr (us_timezone i)), (''language'', strV (us_language i)), (''contact'', Some (of_json (JObj (us_contact i)))),
         (''notes'', optStr (us_notes i)), (''createdAt'', numI (us_createdAt i)), (''updatedAt'', numI (us_updatedAt i))])"

definition toolGetIdentity :: "'v Env \<Rightarrow> ('v, jv) tool" where
  "toolGetIdentity ev =
     bindT getProfileId (\<lambda>profileId.
     bindT (dbT (queryD (\<lambda>db. (getAgentIdentity profileId db, getAgentPersonality profileId db, getUserIdentity db, getUserPersonality db))))
       (\<lambda>(a, ap, u, up).
     retT (obj [(''agent_identity'', Some (agentIdentityObj a)),
       (''agent_personality'', Some (JvArr (map (\<lambda>p. obj [(''dimension'', strV (agentDimName (pe_dimension p))), (''content'', strV (pe_content p)),
          (''confidence'', num3 (pe_confidence p))]) ap))),
       (''user_identity'', Some (userIdentityObj u)),
       (''user_personality'', Some (JvArr (map (\<lambda>p. obj [(''dimension'', strV (userDimName (ue_dimension p))), (''content'', strV (ue_content p)),
          (''confidence'', num3 (ue_confidence p)), (''source'', strV (sourceName (ue_source p)))]) up)))])))"

definition toolObservePersonality :: "'v Env \<Rightarrow> jv \<Rightarrow> ('v, jv) tool" where
  "toolObservePersonality ev args =
     bindT (requiredEnum args ''dimension'' VALID_AGENT_PERSONALITY_DIMS) (\<lambda>dimension.
     bindT (required args ''observation'') (\<lambda>x.
     bindT getProfileId (\<lambda>profileId.
     bindT (textArg ev ''observation'' x) (\<lambda>observation.
     bindT (dbT (observeAgentPersonality (ev_now ev) profileId dimension observation)) (\<lambda>e.
     retT (obj [(''dimension'', strV (agentDimName (pe_dimension e))), (''content'', strV (pe_content e)), (''confidence'', num3 (pe_confidence e)),
       (''evidence_count'', numN (pe_evidenceCount e))]))))))"

text \<open>The source is not validated by the tool, but by a constraint of the table.\<close>

definition sourceArg :: "jv option \<Rightarrow> ('v, PersonalitySource) tool" where
  "sourceArg v =
     (case nullish v (strV ''inferred'') of
        Some (JvStr s) \<Rightarrow> (case map_of (map (\<lambda>x. (sourceName x, x)) [Inferred, Declared, Onboarding]) s of
            Some x \<Rightarrow> retT x | None \<Rightarrow> throwT ''violates check constraint user_personality_source_check'')
      | _ \<Rightarrow> throwT ''violates check constraint user_personality_source_check'')"

definition toolObserveUser :: "'v Env \<Rightarrow> jv \<Rightarrow> ('v, jv) tool" where
  "toolObserveUser ev args =
     bindT (requiredEnum args ''dimension'' VALID_USER_PERSONALITY_DIMS) (\<lambda>dimension.
     bindT (required args ''observation'') (\<lambda>x.
     bindT (textArg ev ''observation'' x) (\<lambda>observation.
     bindT (sourceArg (jprop args ''source'')) (\<lambda>source1.
     bindT (dbT (observeUserPersonality (ev_now ev) dimension observation source1)) (\<lambda>e.
     retT (obj [(''dimension'', strV (userDimName (ue_dimension e))), (''content'', strV (ue_content e)), (''confidence'', num3 (ue_confidence e)),
       (''source'', strV (sourceName (ue_source e))), (''evidence_count'', numN (ue_evidenceCount e))]))))))"

definition fieldArg :: "jv \<Rightarrow> string list \<Rightarrow> ('v, string) tool" where
  "fieldArg args valid = requiredEnum args ''field'' (map (\<lambda>x. (x, x)) valid)"

definition toolProposeIdentityUpdate :: "'v Env \<Rightarrow> jv \<Rightarrow> ('v, jv) tool" where
  "toolProposeIdentityUpdate ev args =
     bindT (fieldArg args [''role'', ''expertise'', ''tone'', ''instructions'']) (\<lambda>f.
     bindT (required args ''new_value'') (\<lambda>v.
     bindT (required args ''reason'') (\<lambda>why.
     bindT getProfileId (\<lambda>profileId.
     bindT (textArg ev ''new_value'' v) (\<lambda>newValue.
     bindT (textArg ev ''reason'' why) (\<lambda>reason.
     bindT (dbT (proposeIdentityUpdate (ev_newId ev) (ev_now ev) profileId f newValue reason)) (\<lambda>p.
     retT (obj [(''proposal_id'', strV (pr_id p)), (''field'', strV (pr_field p)), (''new_value'', v),
       (''reason'', why), (''status'', strV ''pending_user_confirmation'')]))))))))"

definition noFields :: UserFields where
  "noFields = \<lparr>uf_name = None, uf_role = None, uf_organization = None, uf_timezone = None, uf_language = None, uf_contact = None, uf_notes = None\<rparr>"

definition oneField :: "string \<Rightarrow> string \<Rightarrow> UserFields" where
  "oneField f v =
     (if f = ''name'' then noFields\<lparr>uf_name := Some v\<rparr> else if f = ''role'' then noFields\<lparr>uf_role := Some v\<rparr>
      else if f = ''organization'' then noFields\<lparr>uf_organization := Some v\<rparr> else if f = ''timezone'' then noFields\<lparr>uf_timezone := Some v\<rparr>
      else if f = ''language'' then noFields\<lparr>uf_language := Some v\<rparr> else if f = ''notes'' then noFields\<lparr>uf_notes := Some v\<rparr> else noFields)"

definition toolUpdateUserIdentity :: "'v Env \<Rightarrow> jv \<Rightarrow> ('v, jv) tool" where
  "toolUpdateUserIdentity ev args =
     bindT (fieldArg args [''name'', ''role'', ''organization'', ''timezone'', ''language'', ''notes'']) (\<lambda>f.
     bindT (required args ''value'') (\<lambda>x.
     bindT (textArg ev ''value'' x) (\<lambda>v.
     bindT (dbT (updateUserIdentity (ev_now ev) (oneField f v))) (\<lambda>u.
     retT (obj [(''updated'', Some (JvBool True)), (''user_identity'', Some (userIdentityObj (Some u)))])))))"

section \<open>Profile tools\<close>

definition toolListProfiles :: "('v, jv) tool" where
  "toolListProfiles =
     bindT (dbT (queryD listProfiles)) (\<lambda>ps.
     retT (JvArr (map (\<lambda>p. obj [(''name'', strV (ap_name (ps_profile p))), (''description'', nullStr (ap_description (ps_profile p))),
       (''is_default'', Some (JvBool (ap_is_default (ps_profile p)))), (''chat_count'', numN (ps_chatCount p)),
       (''semantic_memory_count'', numN (ps_semanticMemoryCount p)), (''meta_memory_count'', numN (ps_metaMemoryCount p))]) ps)))"

definition toolGetCurrentProfile :: "('v, jv) tool" where
  "toolGetCurrentProfile =
     bindT getProfileId (\<lambda>profileId.
     bindT (dbT (queryD (getProfile profileId))) (\<lambda>p. case p of
       None \<Rightarrow> throwT ''Current profile not found''
     | Some r \<Rightarrow> retT (obj [(''name'', strV (ap_name r)), (''description'', nullStr (ap_description r)), (''is_default'', Some (JvBool (ap_is_default r)))])))"

definition setSessionProfile :: "string \<Rightarrow> ('v, unit) tool" where
  "setSessionProfile p w = (Inr (), w\<lparr>wd_profileId := Some p\<rparr>)"

definition toolSwitchChatProfile :: "'v Env \<Rightarrow> jv \<Rightarrow> ('v, jv) tool" where
  "toolSwitchChatProfile ev args =
     bindT (required args ''profile_name'') (\<lambda>x.
     case ev_defaultChatId ev of
       None \<Rightarrow> throwT ''No chat context available''
     | Some chatId \<Rightarrow>
         if chatId = [] then throwT ''No chat context available''
         else bindT (textArg ev ''profile_name'' x) (\<lambda>name.
         bindT (dbT (queryD (getProfileByName name))) (\<lambda>target. case target of
           None \<Rightarrow> throwT (''Profile not found: '' @ name)
         | Some t \<Rightarrow>
             bindT (dbT (assignChat (ev_now ev) chatId (ap_id t))) (\<lambda>previousId.
             bindT (dbT (queryD (getProfile previousId))) (\<lambda>previous.
             bindT (setSessionProfile (ap_id t)) (\<lambda>_.
             retT (obj [(''switched'', Some (JvBool True)),
               (''previous_profile'', strV (case previous of Some p \<Rightarrow> ap_name p | None \<Rightarrow> ''unknown'')), (''new_profile'', strV (ap_name t))])))))))"

section \<open>Administration\<close>

definition finallyT :: "('v, 'a) tool \<Rightarrow> ExtCall \<Rightarrow> ('v, 'a) tool" where
  "finallyT m c w =
     (case m w of (r, w1) \<Rightarrow> (r, if r = Inl NoReturn then w1 else w1\<lparr>wd_calls := wd_calls w1 @ [c]\<rparr>))"

definition quote1 :: "string \<Rightarrow> string" where
  "quote1 s = CHR 0x22 # s @ [CHR 0x22]"

definition toolInstallSkill :: "'v Env \<Rightarrow> jv \<Rightarrow> ('v, jv) tool" where
  "toolInstallSkill ev args =
     (let x = ev_ext ev in
      if \<not> xt_hasStore x \<or> \<not> xt_hasRegistry x then throwT ''Skill management not available''
      else bindT (required args ''name'') (\<lambda>v.
        bindT (textOf ev v) (\<lambda>shown.
        bindT (stringOr v (''Skill '' @ quote1 shown @ '' not found in registry'')) (\<lambda>name.
        bindT (extT [] (xt_lookup x name)) (\<lambda>found.
        if \<not> found then throwT (''Skill '' @ quote1 name @ '' not found in registry'')
        else bindT (extT [Download name] (xt_download x name)) (\<lambda>dir.
        finallyT (bindT (extT [Install dir] (xt_install x dir)) (\<lambda>(n, v).
          retT (obj [(''installed'', Some (JvBool True)), (''name'', strV n), (''version'', strV v),
            (''message'', strV (''Skill '' @ quote1 n @ '' v'' @ v @ '' installed. Takes effect on next agent invocation.''))]))) (RmDir dir)))))))"

definition toolUninstallSkill :: "'v Env \<Rightarrow> jv \<Rightarrow> ('v, jv) tool" where
  "toolUninstallSkill ev args =
     (let x = ev_ext ev in
      if \<not> xt_hasStore x then throwT ''Skill management not available''
      else bindT (required args ''name'') (\<lambda>v.
        bindT (textOf ev v) (\<lambda>shown.
        bindT (stringOr v (''Skill '' @ quote1 shown @ '' is not installed'')) (\<lambda>name.
        bindT (extT [RemoveSkill name] (xt_remove x name)) (\<lambda>_.
        retT (obj [(''uninstalled'', Some (JvBool True)), (''name'', strV name),
          (''message'', strV (''Skill '' @ quote1 name @ '' uninstalled. Takes effect on next agent invocation.''))]))))))"

definition skillObj :: "string \<times> string \<times> string \<Rightarrow> jv option \<Rightarrow> jv" where
  "skillObj s inst = obj [(''name'', strV (fst s)), (''description'', strV (fst (snd s))), (''version'', strV (snd (snd s))), (''installed'', inst)]"

definition toolListSkills :: "'v Env \<Rightarrow> ('v, jv) tool" where
  "toolListSkills ev =
     (let x = ev_ext ev in
      if \<not> xt_hasStore x then throwT ''Skill management not available''
      else bindT (extT [] (xt_list x)) (\<lambda>installed.
        let available = (if xt_hasRegistry x then (case xt_index x of
                Inr skills \<Rightarrow> map (\<lambda>s. skillObj s None) (filter (\<lambda>s. fst s \<notin> sk_name ` set installed) skills) | Inl _ \<Rightarrow> []) else [])
        in retT (obj [(''installed'', Some (JvArr (map (\<lambda>s. obj [(''name'', strV (sk_name s)), (''version'', strV (sk_version s)),
              (''source'', strV (sk_source s)), (''installed_at'', strV (sk_installedAt s))]) installed))),
            (''built_in'', Some (JvArr [
               obj [(''name'', strV ''capabilities''), (''description'', strV ''Agent self-description''), (''builtIn'', Some (JvBool True))],
               obj [(''name'', strV ''status''), (''description'', strV ''System health report''), (''builtIn'', Some (JvBool True))]])),
            (''available'', Some (JvArr available))])))"

definition toolSearchSkills :: "'v Env \<Rightarrow> jv \<Rightarrow> ('v, jv) tool" where
  "toolSearchSkills ev args =
     (let x = ev_ext ev in
      if \<not> xt_hasRegistry x then throwT ''Registry not available''
      else bindT (required args ''query'') (\<lambda>q.
        bindT (stringOr q ''query.toLowerCase is not a function'') (\<lambda>query.
        bindT (extT [] (xt_search x query)) (\<lambda>results.
        bindT (if xt_hasStore x then extT [] (xt_manifest x) else retT []) (\<lambda>installed.
        retT (JvArr (map (\<lambda>r. skillObj r (Some (JvBool (fst r \<in> set installed)))) results)))))))"

definition ALLOWED_FIELDS :: "string list" where
  "ALLOWED_FIELDS = [''channels.telegram.allowedUsers'', ''channels.whatsapp.enabled'', ''channels.gmail.enabled'', ''service.enabled'',
     ''service.stt.enabled'', ''agent.maxTurns'', ''agent.idleTimeout'', ''memory.workingMemoryLimit'', ''memory.semanticMemoryLimit'',
     ''memory.externalSimilarityThreshold'', ''profiles.autoAssignDefault'']"

definition BLOCKED_PREFIXES :: "string list" where
  "BLOCKED_PREFIXES = [''username'', ''dataDir'', ''auth.'', ''container.proxy'', ''database.'', ''agent.runtime'', ''agent.image'']"

definition toolUpdateConfig :: "'v Env \<Rightarrow> jv \<Rightarrow> ('v, jv) tool" where
  "toolUpdateConfig ev args =
     bindT (required args ''field'') (\<lambda>x.
     case jprop args ''value'' of
       None \<Rightarrow> throwT ''value is required''
     | Some v \<Rightarrow>
         bindT (stringOr x ''field.startsWith is not a function'') (\<lambda>f.
         if list_ex (\<lambda>p. f = p \<or> startsWith f p) BLOCKED_PREFIXES
         then throwT (''Field '' @ quote1 f @ '' cannot be modified via chat for security reasons'')
         else if f \<notin> set ALLOWED_FIELDS
         then throwT (''Field '' @ quote1 f @ '' is not in the allowlist. Allowed fields: '' @ join_with '', '' ALLOWED_FIELDS)
         else retT (obj [(''updated'', Some (JvBool True)), (''field'', strV f), (''value'', Some v),
           (''message'', strV (''Configuration '' @ quote1 f @ '' set to '' @ xt_print (ev_ext ev) v @ ''. Restart may be needed for some settings.''))])))"

definition toolGetAuthUrl :: "'v Env \<Rightarrow> jv \<Rightarrow> ('v, jv) tool" where
  "toolGetAuthUrl ev args =
     bindT (required args ''service'') (\<lambda>v.
     bindT (textOf ev v) (\<lambda>service.
     retT (obj [(''service'', v), (''scopes'', nullish (jprop args ''scopes'') (Some (JvArr []))),
       (''message'', strV (''OAuth setup for '' @ quote1 service @ '' is not yet configured. Please use '' @ quote1 (''flowhelm setup '' @ service) @
          '' on the CLI to set up authentication.'')), (''requires_cli'', Some (JvBool True))])))"

definition toolGetSystemStatus :: "'v Env \<Rightarrow> ('v, jv) tool" where
  "toolGetSystemStatus ev =
     (let x = ev_ext ev in
      bindT getProfileId (\<lambda>profileId.
      bindT (dbT (getMemoryStats (ev_memory ev) profileId)) (\<lambda>st.
      bindT (dbT (queryD listProfiles)) (\<lambda>ps.
      bindT (if xt_hasStore x then extT [] (xt_manifest x) else retT []) (\<lambda>manifest.
      retT (obj [(''memory'', Some (statsObj st)),
        (''profiles'', Some (obj [(''total'', numN (length ps)), (''names'', Some (JvArr (map (\<lambda>p. JvStr (ap_name (ps_profile p))) ps)))])),
        (''skills'', Some (obj [(''installed_count'', numN (length manifest)), (''built_in_count'', numN 2)])),
        (''mcp_server'', Some (obj [(''listening'', Some (JvBool (ev_listening ev))), (''socket_path'', strV (ev_socketPath ev))]))]))))))"

definition toolGoogleWorkspace :: "'v Env \<Rightarrow> jv \<Rightarrow> ('v, jv) tool" where
  "toolGoogleWorkspace ev args =
     (let x = ev_ext ev in
      if \<not> xt_hasChannel x
      then retT (obj [(''error'', strV ''Google Workspace is not configured. The channel container must be running with Gmail OAuth credentials.'')])
      else if falsy (jprop args ''command'') then retT (obj [(''error'', strV ''Missing required field: command'')])
      else bindT (textArg ev ''command'' (jprop args ''command'')) (\<lambda>command.
        let timeout = (case jprop args ''timeout'' of Some (JvNum t) \<Rightarrow> Some t | _ \<Rightarrow> None) in
        bindT (extT [Gws command timeout] (xt_gws x command timeout)) (\<lambda>r.
        if \<not> gw_success r
        then retT (obj [(''error'', strV (''gws command failed (exit '' @ show_int (gw_exitCode r) @ ''): '' @
                (case gw_stderr r of Some e \<Rightarrow> e | None \<Rightarrow> gw_output r))), (''exitCode'', numI (gw_exitCode r))])
        else retT (case xt_parse x (map of_char (gw_output r)) of Some v \<Rightarrow> v | None \<Rightarrow> obj [(''output'', strV (gw_output r))]))))"

section \<open>Dispatch\<close>

definition toolTable :: "'v Env \<Rightarrow> jv \<Rightarrow> (string \<times> ('v, jv) tool) list" where
  "toolTable ev args =
     [(''search_semantic'', toolSearchSemantic ev args),
      (''search_external'', toolSearchExternal ev args),
      (''recall_conversation'', toolRecallConversation ev args),
      (''store_semantic'', toolStoreSemantic ev args),
      (''get_memory_stats'', toolGetMemoryStats ev),
      (''expand_memory'', toolExpandMemory ev args),
      (''search_meta'', toolSearchMeta ev args),
      (''expand_meta'', toolExpandMeta ev args),
      (''trace_to_source'', toolTraceToSource ev args),
      (''get_identity'', toolGetIdentity ev),
      (''observe_personality'', toolObservePersonality ev args),
      (''observe_user'', toolObserveUser ev args),
      (''propose_identity_update'', toolProposeIdentityUpdate ev args),
      (''update_user_identity'', toolUpdateUserIdentity ev args),
      (''list_profiles'', toolListProfiles),
      (''get_current_profile'', toolGetCurrentProfile),
      (''switch_chat_profile'', toolSwitchChatProfile ev args),
      (''install_skill'', toolInstallSkill ev args),
      (''uninstall_skill'', toolUninstallSkill ev args),
      (''list_skills'', toolListSkills ev),
      (''search_skills'', toolSearchSkills ev args),
      (''update_config'', toolUpdateConfig ev args),
      (''get_auth_url'', toolGetAuthUrl ev args),
      (''get_system_status'', toolGetSystemStatus ev),
      (''google_workspace'', toolGoogleWorkspace ev args)]"

text \<open>
  Answers: the description of the server, the list of the tools, the result of a call, the message of a call that failed, and an
  error of the protocol; each with the id it answers. \<open>Rejected\<close> is a handler whose promise is rejected, \<open>NeverAnswers\<close> one whose
  promise is never settled.
\<close>

datatype RpcResponse =
    Initialized jv
  | ToolList jv
  | ToolResult jv jv
  | ToolFailed jv string
  | RpcError jv int string

datatype Handled = NoReply | Reply RpcResponse | Rejected | NeverAnswers

fun response_id :: "RpcResponse \<Rightarrow> jv" where
  "response_id (Initialized i) = i"
| "response_id (ToolList i) = i"
| "response_id (ToolResult i _) = i"
| "response_id (ToolFailed i _) = i"
| "response_id (RpcError i _ _) = i"

definition handleToolCall :: "'v Env \<Rightarrow> jv \<Rightarrow> jv \<Rightarrow> 'v World \<Rightarrow> Handled \<times> 'v World" where
  "handleToolCall ev i params w =
     (let toolName = jprop params ''name'';
          toolArgs = the (nullish (jprop params ''arguments'') (Some (JvObj [])))
      in if falsy toolName then (Reply (RpcError i (-32602) ''Missing tool name''), w)
         else case (case toolName of Some (JvStr n) \<Rightarrow> map_of (toolTable ev toolArgs) n | _ \<Rightarrow> None) of
           Some t \<Rightarrow> (case t w of
              (Inr r, w1) \<Rightarrow> (Reply (ToolResult i r), w1)
            | (Inl (Failed e), w1) \<Rightarrow> (Reply (ToolFailed i e), w1)
            | (Inl NoReturn, w1) \<Rightarrow> (NeverAnswers, w1))
         | None \<Rightarrow> (case asText (ev_ext ev) toolName of
              Some s \<Rightarrow> (Reply (RpcError i (-32602) (''Unknown tool: '' @ s)), w)
            | None \<Rightarrow> (Reply (ToolFailed i ''Cannot convert object to primitive value''), w)))"

definition requestId :: "jv \<Rightarrow> jv" where
  "requestId r = the (nullish (jprop r ''id'') (Some JvNull))"

definition handleRequest :: "'v Env \<Rightarrow> jv \<Rightarrow> 'v World \<Rightarrow> Handled \<times> 'v World" where
  "handleRequest ev r w =
     (if r = JvNull then (Rejected, w)
      else if jprop r ''id'' = None \<and> jprop r ''method'' = Some (JvStr ''notifications/initialized'') then (NoReply, w)
      else let i = requestId r; m = jprop r ''method'' in
        if m = Some (JvStr ''initialize'') then (Reply (Initialized i), w)
        else if m = Some (JvStr ''tools/list'') then (Reply (ToolList i), w)
        else if m = Some (JvStr ''tools/call'')
        then handleToolCall ev i (the (nullish (jprop r ''params'') (Some (JvObj [])))) w
        else (case asText (ev_ext ev) m of
                Some s \<Rightarrow> (Reply (RpcError i (-32601) (''Method not found: '' @ s)), w)
              | None \<Rightarrow> (Rejected, w)))"

definition processLine :: "'v Env \<Rightarrow> nat list \<Rightarrow> 'v World \<Rightarrow> Handled \<times> 'v World" where
  "processLine ev line w =
     (case xt_parse (ev_ext ev) line of
        None \<Rightarrow> (Reply (RpcError JvNull (-32700) ''Parse error''), w)
      | Some r \<Rightarrow> handleRequest ev r w)"

section \<open>The connection\<close>

text \<open>
  \<^verbatim>\<open>data.toString()\<close>: the code points of UTF-8 bytes. A sequence that is not well formed, or that the end of the bytes cuts
  off, becomes U+FFFD (65533) as far as it is the beginning of a character.
\<close>

function (sequential) decodeUtf8 :: "nat list \<Rightarrow> nat list" and continueUtf8 :: "nat \<Rightarrow> nat \<Rightarrow> nat \<Rightarrow> nat \<Rightarrow> nat list \<Rightarrow> nat list" where
  "decodeUtf8 [] = []"
| "decodeUtf8 (b # bs) =
     (if b < 128 then b # decodeUtf8 bs
      else if 194 \<le> b \<and> b \<le> 223 then continueUtf8 1 (b - 192) 128 191 bs
      else if 224 \<le> b \<and> b \<le> 239 then continueUtf8 2 (b - 224) (if b = 224 then 160 else 128) (if b = 237 then 159 else 191) bs
      else if 240 \<le> b \<and> b \<le> 244 then continueUtf8 3 (b - 240) (if b = 240 then 144 else 128) (if b = 244 then 143 else 191) bs
      else 65533 # decodeUtf8 bs)"
| "continueUtf8 n acc lo hi [] = [65533]"
| "continueUtf8 n acc lo hi (b # bs) =
     (if lo \<le> b \<and> b \<le> hi
      then if n \<le> 1 then (acc * 64 + (b - 128)) # decodeUtf8 bs else continueUtf8 (n - 1) (acc * 64 + (b - 128)) 128 191 bs
      else 65533 # decodeUtf8 (b # bs))"
  by pat_completeness auto
termination
  by (relation "measure (\<lambda>x. case x of Inl bs \<Rightarrow> 2 * length bs | Inr (n, acc, lo, hi, bs) \<Rightarrow> 2 * length bs + 1)") simp_all

text \<open>\<^verbatim>\<open>trim\<close> on code points: the white space and the line terminators of the language.\<close>

definition spaceCode :: "nat \<Rightarrow> bool" where
  "spaceCode c \<longleftrightarrow> c \<in> {9, 10, 11, 12, 13, 32, 160, 5760, 8232, 8233, 8239, 8287, 12288, 65279} \<or> (8192 \<le> c \<and> c \<le> 8202)"

definition trimCodes :: "nat list \<Rightarrow> nat list" where
  "trimCodes s = rev (dropWhile spaceCode (rev (dropWhile spaceCode s)))"

text \<open>The loop over the complete lines of the buffer: the lines that are not blank, and what remains.\<close>

function drainBuffer :: "nat list \<Rightarrow> nat list list \<times> nat list" where
  "drainBuffer buf =
     (if 10 \<in> set buf
      then (let line = trimCodes (takeWhile (\<lambda>c. c \<noteq> 10) buf);
                r = drainBuffer (drop 1 (dropWhile (\<lambda>c. c \<noteq> 10) buf))
            in (if line = [] then fst r else line # fst r, snd r))
      else ([], buf))"
  by pat_completeness auto
termination
proof (relation "measure length")
  fix buf line :: "nat list"
  assume "10 \<in> set buf"
  then have "dropWhile (\<lambda>c. c \<noteq> 10) buf \<noteq> []" by (auto simp: dropWhile_eq_Nil_conv)
  then show "(drop 1 (dropWhile (\<lambda>c. c \<noteq> 10) buf), buf) \<in> measure length"
    using length_dropWhile_le [of "\<lambda>c. c \<noteq> 10" buf] by (cases "dropWhile (\<lambda>c. c \<noteq> 10) buf") simp_all
qed simp

declare drainBuffer.simps [simp del]

text \<open>The lines of a connection whose bytes come in chunks: each chunk is decoded for itself.\<close>

fun receive :: "nat list \<Rightarrow> nat list list \<Rightarrow> nat list list \<times> nat list" where
  "receive buf [] = ([], buf)"
| "receive buf (c # cs) = (let r = drainBuffer (buf @ decodeUtf8 c); s = receive (snd r) cs in (fst r @ fst s, snd s))"

text \<open>
  The lines one after the other, each with the surroundings of its moment. The loop does not wait for a handler: the lines
  after one whose handler is rejected, or never settled, are handled like any others. (A rejection makes \<^verbatim>\<open>src/src/index.ts\<close> shut the process
  down in its own time, which is not modelled.)
\<close>

fun serve :: "('v Env \<times> nat list) list \<Rightarrow> 'v World \<Rightarrow> Handled list \<times> 'v World" where
  "serve [] w = ([], w)"
| "serve ((ev, line) # ls) w =
     (case processLine ev line w of (h, w1) \<Rightarrow> (case serve ls w1 of (hs, w2) \<Rightarrow> (h # hs, w2)))"

text \<open>The profile of the server's chat, or the default one.\<close>

definition resolveProfile :: "string option \<Rightarrow> 'v Db \<Rightarrow> string option" where
  "resolveProfile chat db =
     (case (case chat of Some c \<Rightarrow> if c \<noteq> [] then map_option ap_id (getChatProfile c db) else None | None \<Rightarrow> None) of
        Some p \<Rightarrow> Some p
      | None \<Rightarrow> map_option ap_id (getDefaultProfile db))"

section \<open>The list of the tools\<close>

record ToolDefinition =
  td_name :: string
  td_properties :: "(string \<times> string \<times> string list) list"
  td_required :: "string list"

definition tdef :: "string \<Rightarrow> (string \<times> string \<times> string list) list \<Rightarrow> string list \<Rightarrow> ToolDefinition" where
  "tdef n ps rs = \<lparr>td_name = n, td_properties = ps, td_required = rs\<rparr>"

definition TOOL_DEFINITIONS :: "ToolDefinition list" where
  "TOOL_DEFINITIONS =
    [tdef ''search_semantic'' [(''query'', ''string'', []), (''type'', ''string'',
        [''preference'', ''fact'', ''pattern'', ''contact'', ''instruction'', ''summary'', ''procedure'']), (''limit'', ''number'', [])] [''query''],
     tdef ''search_external'' [(''query'', ''string'', []), (''source'', ''string'', [''document'', ''user_provided'']), (''limit'', ''number'', [])] [''query''],
     tdef ''recall_conversation'' [(''chat_id'', ''string'', []), (''session_id'', ''string'', []), (''limit'', ''number'', [])] [],
     tdef ''store_semantic'' [(''content'', ''string'', []), (''type'', ''string'',
        [''preference'', ''fact'', ''pattern'', ''contact'', ''instruction'', ''summary'', ''procedure'']), (''importance'', ''number'', [])] [''content'', ''type''],
     tdef ''get_memory_stats'' [] [],
     tdef ''expand_memory'' [(''memory_id'', ''string'', [])] [''memory_id''],
     tdef ''search_meta'' [(''query'', ''string'', []), (''type'', ''string'', [''insight'', ''heuristic'', ''self_assessment'']), (''limit'', ''number'', []),
        (''min_depth'', ''number'', []), (''max_depth'', ''number'', [])] [''query''],
     tdef ''expand_meta'' [(''meta_id'', ''string'', [])] [''meta_id''],
     tdef ''trace_to_source'' [(''meta_id'', ''string'', [])] [''meta_id''],
     tdef ''get_identity'' [] [],
     tdef ''observe_personality'' [(''dimension'', ''string'',
        [''communication_style'', ''humor'', ''emotional_register'', ''values'', ''rapport'', ''boundaries'']), (''observation'', ''string'', [])]
        [''dimension'', ''observation''],
     tdef ''observe_user'' [(''dimension'', ''string'',
        [''communication_style'', ''work_patterns'', ''decision_making'', ''priorities'', ''preferences'', ''boundaries'']), (''observation'', ''string'', []),
        (''source'', ''string'', [''inferred'', ''declared'', ''onboarding''])] [''dimension'', ''observation''],
     tdef ''propose_identity_update'' [(''field'', ''string'', [''role'', ''expertise'', ''tone'', ''instructions'']), (''new_value'', ''string'', []),
        (''reason'', ''string'', [])] [''field'', ''new_value'', ''reason''],
     tdef ''update_user_identity'' [(''field'', ''string'', [''name'', ''role'', ''organization'', ''timezone'', ''language'', ''notes'']),
        (''value'', ''string'', [])] [''field'', ''value''],
     tdef ''list_profiles'' [] [],
     tdef ''get_current_profile'' [] [],
     tdef ''switch_chat_profile'' [(''profile_name'', ''string'', [])] [''profile_name''],
     tdef ''install_skill'' [(''name'', ''string'', [])] [''name''],
     tdef ''uninstall_skill'' [(''name'', ''string'', [])] [''name''],
     tdef ''list_skills'' [] [],
     tdef ''search_skills'' [(''query'', ''string'', [])] [''query''],
     tdef ''update_config'' [(''field'', ''string'', []), (''value'', [], [])] [''field'', ''value''],
     tdef ''get_auth_url'' [(''service'', ''string'', []), (''scopes'', ''array'', [])] [''service''],
     tdef ''get_system_status'' [] [],
     tdef ''google_workspace'' [(''command'', ''string'', []), (''timeout'', ''number'', [])] [''command'']]"

section \<open>Lines\<close>

lemma drain_no_newline: "10 \<notin> set buf \<Longrightarrow> drainBuffer buf = ([], buf)"
  by (subst drainBuffer.simps) simp

lemma drain_rest: "10 \<notin> set (snd (drainBuffer buf))"
  by (induction buf rule: drainBuffer.induct) (subst drainBuffer.simps, simp add: Let_def)

lemma drain_append:
  "drainBuffer (a @ b) = (fst (drainBuffer a) @ fst (drainBuffer (snd (drainBuffer a) @ b)), snd (drainBuffer (snd (drainBuffer a) @ b)))"
proof (induction a rule: drainBuffer.induct)
  case (1 a)
  show ?case
  proof (cases "10 \<in> set a")
    case True
    let ?l = "trimCodes (takeWhile (\<lambda>c. c \<noteq> 10) a)" and ?t = "drop 1 (dropWhile (\<lambda>c. c \<noteq> 10) a)"
    have tw: "takeWhile (\<lambda>c. c \<noteq> 10) (a @ b) = takeWhile (\<lambda>c. c \<noteq> 10) a" using True by simp
    have ne: "dropWhile (\<lambda>c. c \<noteq> 10) a \<noteq> []" using True by (auto simp: dropWhile_eq_Nil_conv)
    then have dw: "drop 1 (dropWhile (\<lambda>c. c \<noteq> 10) (a @ b)) = ?t @ b" using True by (cases "dropWhile (\<lambda>c. c \<noteq> 10) a") simp_all
    have e: "drainBuffer a = ((if ?l = [] then fst (drainBuffer ?t) else ?l # fst (drainBuffer ?t)), snd (drainBuffer ?t))"
      by (subst drainBuffer.simps) (simp only: True if_True Let_def)
    have "drainBuffer (a @ b) = ((if ?l = [] then fst (drainBuffer (?t @ b)) else ?l # fst (drainBuffer (?t @ b))), snd (drainBuffer (?t @ b)))"
      using True by (subst drainBuffer.simps) (simp only: set_append Un_iff if_True Let_def tw dw simp_thms)
    then show ?thesis unfolding e "1.IH" [OF True refl] by simp
  qed (simp add: drain_no_newline)
qed

text \<open>A text as bytes: the code points are the Unicode scalar values.\<close>

definition scalar :: "nat \<Rightarrow> bool" where
  "scalar c \<longleftrightarrow> c < 1114112 \<and> \<not> (55296 \<le> c \<and> c \<le> 57343)"

definition encodeChar :: "nat \<Rightarrow> nat list" where
  "encodeChar c =
     (if c < 128 then [c]
      else if c < 2048 then [192 + c div 64, 128 + c mod 64]
      else if c < 65536 then [224 + c div 4096, 128 + (c div 64) mod 64, 128 + c mod 64]
      else [240 + c div 262144, 128 + (c div 4096) mod 64, 128 + (c div 64) mod 64, 128 + c mod 64])"

definition encodeUtf8 :: "nat list \<Rightarrow> nat list" where
  "encodeUtf8 s = concat (map encodeChar s)"

lemma encodeUtf8_simps [simp]: "encodeUtf8 [] = []" "encodeUtf8 (c # s) = encodeChar c @ encodeUtf8 s"
  by (simp_all add: encodeUtf8_def)

lemma continue_one: "lo \<le> b \<Longrightarrow> b \<le> hi \<Longrightarrow> continueUtf8 1 acc lo hi (b # bs) = (acc * 64 + (b - 128)) # decodeUtf8 bs"
  "lo \<le> b \<Longrightarrow> b \<le> hi \<Longrightarrow> continueUtf8 2 acc lo hi (b # bs) = continueUtf8 1 (acc * 64 + (b - 128)) 128 191 bs"
  "lo \<le> b \<Longrightarrow> b \<le> hi \<Longrightarrow> continueUtf8 3 acc lo hi (b # bs) = continueUtf8 2 (acc * 64 + (b - 128)) 128 191 bs"
  by simp_all

lemma mod_64_range: "128 \<le> 128 + (k::nat) mod 64" "128 + (k::nat) mod 64 \<le> 191"
proof -
  have "k mod 64 < 64" by simp
  then show "128 + k mod 64 \<le> 191" by linarith
qed simp

lemma split_64: "(c::nat) div 64 * 64 + c mod 64 = c" "(c::nat) div 4096 * 64 + (c div 64) mod 64 = c div 64"
  "(c::nat) div 262144 * 64 + (c div 4096) mod 64 = c div 4096"
proof -
  have "c div 4096 = c div 64 div 64" "c div 262144 = c div 4096 div 64" by (simp_all add: div_mult2_eq [symmetric])
  then show "c div 4096 * 64 + (c div 64) mod 64 = c div 64" "c div 262144 * 64 + (c div 4096) mod 64 = c div 4096" by simp_all
qed simp

lemma decode_char:
  assumes "scalar c"
  shows "decodeUtf8 (encodeChar c @ bs) = c # decodeUtf8 bs"
proof -
  consider "c < 128" | "128 \<le> c" "c < 2048" | "2048 \<le> c" "c < 65536" | "65536 \<le> c" by linarith
  then show ?thesis
  proof cases
    case 2
    then have d: "2 \<le> c div 64" "c div 64 < 32" by (auto simp: less_mult_imp_div_less intro: div_le_mono [of 128 c 64, simplified])
    then have "194 \<le> 192 + c div 64" "192 + c div 64 \<le> 223" "\<not> 192 + c div 64 < 128" by linarith+
    then have "decodeUtf8 (encodeChar c @ bs) = continueUtf8 1 (c div 64) 128 191 ((128 + c mod 64) # bs)"
      using 2 by (simp add: encodeChar_def del: continueUtf8.simps)
    then show ?thesis unfolding continue_one(1) [OF mod_64_range] using split_64(1) [of c] by simp
  next
    case 3
    have d: "c div 4096 < 16" using 3 by (simp add: less_mult_imp_div_less)
    have lo: "(if 224 + c div 4096 = 224 then 160 else 128) \<le> 128 + (c div 64) mod 64"
    proof (cases "c div 4096 = 0")
      case True
      have "32 \<le> c div 64" using 3(1) div_le_mono [of 2048 c 64] by simp
      then show ?thesis using split_64(2) [of c] True by simp
    qed simp
    have hi: "128 + (c div 64) mod 64 \<le> (if 224 + c div 4096 = 237 then 159 else 191)"
    proof (cases "c div 4096 = 13")
      case True
      have "c < 57344" using True div_le_mono [of 57344 c 4096] by linarith
      then have "c < 55296" using assms by (auto simp: scalar_def)
      then have "c div 64 < 864" by (simp add: less_mult_imp_div_less)
      then show ?thesis using split_64(2) [of c] True by simp
    next
      case False
      then show ?thesis using mod_64_range(2) [of "c div 64"] by simp
    qed
    have "\<not> 224 + c div 4096 < 128" "\<not> (194 \<le> 224 + c div 4096 \<and> 224 + c div 4096 \<le> 223)" "224 \<le> 224 + c div 4096" "224 + c div 4096 \<le> 239"
      using d by linarith+
    then have "decodeUtf8 (encodeChar c @ bs) = continueUtf8 2 (c div 4096) (if 224 + c div 4096 = 224 then 160 else 128)
        (if 224 + c div 4096 = 237 then 159 else 191) ((128 + (c div 64) mod 64) # (128 + c mod 64) # bs)"
      using 3 by (simp add: encodeChar_def)
    also have "\<dots> = c # decodeUtf8 bs"
      unfolding continue_one(2) [OF lo hi] using continue_one(1) [OF mod_64_range] split_64(1,2) [of c] by simp
    finally show ?thesis .
  next
    case 4
    have c: "c < 1114112" using assms by (simp add: scalar_def)
    have d: "c div 262144 < 5" using c by (simp add: less_mult_imp_div_less)
    have lo: "(if 240 + c div 262144 = 240 then 144 else 128) \<le> 128 + (c div 4096) mod 64"
    proof (cases "c div 262144 = 0")
      case True
      have "16 \<le> c div 4096" using 4 div_le_mono [of 65536 c 4096] by simp
      then show ?thesis using split_64(3) [of c] True by simp
    qed simp
    have hi: "128 + (c div 4096) mod 64 \<le> (if 240 + c div 262144 = 244 then 143 else 191)"
    proof (cases "c div 262144 = 4")
      case True
      have "c div 4096 < 272" using c by (simp add: less_mult_imp_div_less)
      then show ?thesis using split_64(3) [of c] True by simp
    next
      case False
      then show ?thesis using mod_64_range(2) [of "c div 4096"] by simp
    qed
    have "\<not> 240 + c div 262144 < 128" "\<not> (194 \<le> 240 + c div 262144 \<and> 240 + c div 262144 \<le> 223)"
      "\<not> (224 \<le> 240 + c div 262144 \<and> 240 + c div 262144 \<le> 239)" "240 \<le> 240 + c div 262144" "240 + c div 262144 \<le> 244"
      using d by linarith+
    then have "decodeUtf8 (encodeChar c @ bs) = continueUtf8 3 (c div 262144) (if 240 + c div 262144 = 240 then 144 else 128)
        (if 240 + c div 262144 = 244 then 143 else 191) ((128 + (c div 4096) mod 64) # (128 + (c div 64) mod 64) # (128 + c mod 64) # bs)"
      using 4 by (simp add: encodeChar_def)
    also have "\<dots> = c # decodeUtf8 bs"
      unfolding continue_one(3) [OF lo hi] continue_one(2) [OF mod_64_range]
      using continue_one(1) [OF mod_64_range] split_64 [of c] by simp
    finally show ?thesis .
  qed (simp add: encodeChar_def)
qed

lemma decode_encode: "list_all scalar s \<Longrightarrow> decodeUtf8 (encodeUtf8 s) = s"
proof (induction s)
  case (Cons c s)
  then show ?case using decode_char [of c "encodeUtf8 s"] by simp
qed simp

text \<open>
  C22. The lines a connection reads, and what is left in its buffer, depend on the text only and not on how it is cut into chunks, as long as
  every cut is between two characters.
\<close>

theorem chunks_do_not_matter:
  assumes "list_all (list_all scalar) ss"
  shows "receive [] (map encodeUtf8 ss) = drainBuffer (concat ss) \<and> receive [] [encodeUtf8 (concat ss)] = drainBuffer (concat ss)"
proof -
  have "10 \<notin> set buf \<Longrightarrow> list_all (list_all scalar) ss \<Longrightarrow> receive buf (map encodeUtf8 ss) = drainBuffer (buf @ concat ss)" for buf ss
  proof (induction ss arbitrary: buf)
    case (Cons c cs)
    have "drainBuffer ((buf @ c) @ concat cs) = (fst (drainBuffer (buf @ c)) @ fst (drainBuffer (snd (drainBuffer (buf @ c)) @ concat cs)),
        snd (drainBuffer (snd (drainBuffer (buf @ c)) @ concat cs)))" by (rule drain_append)
    moreover have "receive (snd (drainBuffer (buf @ c))) (map encodeUtf8 cs) = drainBuffer (snd (drainBuffer (buf @ c)) @ concat cs)"
      using Cons by (intro Cons.IH drain_rest) simp
    moreover have "decodeUtf8 (encodeUtf8 c) = c" using Cons.prems(2) by (intro decode_encode) simp
    ultimately show ?case by (simp add: Let_def)
  qed (simp add: drain_no_newline)
  note r = this
  have "list_all (list_all scalar) [concat ss]" using assms by (auto simp: list_all_iff)
  from r [OF _ this, of "[]"] r [OF _ assms, of "[]"] show ?thesis by simp
qed

theorem chunks_do_not_matter_witness:
  "receive [] (map encodeUtf8 [[123, 8364], [125, 10, 233], [10]]) = drainBuffer [123, 8364, 125, 10, 233, 10]"
proof -
  have "list_all (list_all scalar) [[123, 8364], [125, 10, 233], [10]]" by (simp add: scalar_def)
  from chunks_do_not_matter [OF this] show ?thesis by simp
qed

text \<open>
  A cut within a character is another matter: each part is decoded for itself, and the line has two replacement characters where the text
  has one character.
\<close>

theorem cut_character_lost:
  assumes "128 \<le> c" "c < 2048"
  shows "receive [] [[192 + c div 64], [128 + c mod 64, 10]] = ([[65533, 65533]], []) \<and>
    receive [] [[192 + c div 64, 128 + c mod 64, 10]] = (if spaceCode c then [] else [[c]], [])"
proof -
  have d: "2 \<le> c div 64" "c div 64 < 32" using assms by (auto simp: less_mult_imp_div_less intro: div_le_mono [of 128 c 64, simplified])
  then have "194 \<le> 192 + c div 64" "192 + c div 64 \<le> 223" "\<not> 192 + c div 64 < 128" by linarith+
  then have a: "decodeUtf8 [192 + c div 64] = [65533]" by simp
  have "\<not> 128 + c mod 64 < 128" "\<not> 194 \<le> 128 + c mod 64" "\<not> 224 \<le> 128 + c mod 64" "\<not> 240 \<le> 128 + c mod 64"
    using mod_64_range(2) [of c] by linarith+
  then have b: "decodeUtf8 [128 + c mod 64, 10] = [65533, 10]" by simp
  have "scalar c" using assms by (simp add: scalar_def)
  from decode_char [OF this, of "[10]"] have w: "decodeUtf8 [192 + c div 64, 128 + c mod 64, 10] = [c, 10]"
    using assms by (simp add: encodeChar_def)
  have r: "drainBuffer [65533, 65533, 10] = ([[65533, 65533]], [])" by (simp add: drainBuffer.simps [of "[65533, 65533, 10]"] drain_no_newline trimCodes_def spaceCode_def)
  have "c \<noteq> 10" using assms by simp
  then have l: "drainBuffer [c, 10] = (if spaceCode c then [] else [[c]], [])"
    by (simp add: drainBuffer.simps [of "[c, 10]"] drain_no_newline trimCodes_def)
  have "drainBuffer [65533] = ([], [65533])" by (simp add: drain_no_newline)
  then show ?thesis using a b w r l by (simp add: Let_def del: decodeUtf8.simps)
qed

theorem cut_character_lost_witness: "receive [] [[195], [169, 10]] = ([[65533, 65533]], []) \<and> receive [] [[195, 169, 10]] = ([[233]], [])"
  using cut_character_lost [of 233] by (simp add: spaceCode_def)

section \<open>Answers\<close>

text \<open>A tool that always returns; all but the walk to the sources of a reflection do.\<close>

definition returns :: "('v, 'a) tool \<Rightarrow> bool" where
  "returns t \<longleftrightarrow> (\<forall>w. fst (t w) \<noteq> Inl NoReturn)"

lemma returns_basic:
  "returns (retT x)" "returns (throwT e)" "returns (required args k)" "returns (enumArg args k names)" "returns (depthArg v)" "returns (extT cs r)"
  "returns (sourceArg v)" "returns (textArg ev k v)" "returns (stringOr v e)" "returns (textOf ev v)" "returns getProfileId" "returns (dbT m)"
  "returns (setSessionProfile p)"
  by (auto simp: returns_def retT_def throwT_def required_def enumArg_def depthArg_def extT_def sourceArg_def textArg_def stringOr_def textOf_def
      getProfileId_def dbT_def setSessionProfile_def split: option.split jv.split sum.split prod.split)

lemma returns_bind: "returns m \<Longrightarrow> (\<And>x. returns (f x)) \<Longrightarrow> returns (bindT m f)"
  unfolding returns_def bindT_def by (auto split: prod.split sum.split) (metis fst_conv)+

lemma returns_if: "returns a \<Longrightarrow> returns b \<Longrightarrow> returns (if c then a else b)"
  by simp

lemma returns_option: "returns a \<Longrightarrow> (\<And>x. returns (f x)) \<Longrightarrow> returns (case z of None \<Rightarrow> a | Some x \<Rightarrow> f x)"
  by (cases z) auto

lemma returns_pair: "(\<And>x y. returns (f x y)) \<Longrightarrow> returns (case z of (x, y) \<Rightarrow> f x y)"
  by (cases z) auto

lemma returns_finally: "returns m \<Longrightarrow> returns (finallyT m c)"
  unfolding returns_def finallyT_def by (auto split: prod.split) (metis fst_conv)+

lemma returns_enum: "returns (requiredEnum args k names)" "returns (fieldArg args valid)"
  unfolding fieldArg_def requiredEnum_def by (intro returns_bind returns_basic returns_option)+

lemmas returns_rules = returns_basic returns_bind returns_if returns_option returns_pair returns_finally returns_enum

lemma tools_return:
  fixes t :: "('v, jv) tool"
  assumes "(n, t) \<in> set (toolTable ev args)"
  shows "returns t \<or> t = toolTraceToSource ev args"
proof -
  have "returns (toolSearchSemantic ev args)" "returns (toolSearchExternal ev args)" "returns (toolSearchMeta ev args)"
    unfolding toolSearchSemantic_def toolSearchExternal_def toolSearchMeta_def Let_def by (intro returns_rules)+
  moreover have "returns (toolRecallConversation ev args)" "returns (toolStoreSemantic ev args)" "returns (toolGetMemoryStats ev)"
    unfolding toolRecallConversation_def toolStoreSemantic_def toolGetMemoryStats_def Let_def by (intro returns_rules)+
  moreover have "returns (toolExpandMemory ev args)" "returns (toolExpandMeta ev args)" "returns (toolGetIdentity ev)"
    unfolding toolExpandMemory_def toolExpandMeta_def toolGetIdentity_def by (intro returns_rules)+
  moreover have "returns (toolObservePersonality ev args)" "returns (toolObserveUser ev args)" "returns (toolProposeIdentityUpdate ev args)"
    unfolding toolObservePersonality_def toolObserveUser_def toolProposeIdentityUpdate_def by (intro returns_rules)+
  moreover have "returns (toolUpdateUserIdentity ev args)" "returns (toolListProfiles :: ('v, jv) tool)" "returns (toolGetCurrentProfile :: ('v, jv) tool)"
    "returns (toolSwitchChatProfile ev args)"
    unfolding toolUpdateUserIdentity_def toolListProfiles_def toolGetCurrentProfile_def toolSwitchChatProfile_def by (intro returns_rules)+
  moreover have "returns (toolInstallSkill ev args)" "returns (toolUninstallSkill ev args)" "returns (toolListSkills ev)" "returns (toolSearchSkills ev args)"
    unfolding toolInstallSkill_def toolUninstallSkill_def toolListSkills_def toolSearchSkills_def Let_def by (intro returns_rules)+
  moreover have "returns (toolUpdateConfig ev args)" "returns (toolGetAuthUrl ev args)" "returns (toolGetSystemStatus ev)" "returns (toolGoogleWorkspace ev args)"
    unfolding toolUpdateConfig_def toolGetAuthUrl_def toolGetSystemStatus_def toolGoogleWorkspace_def Let_def by (intro returns_rules)+
  ultimately show ?thesis using assms unfolding toolTable_def
    by (simp only: list.set insert_iff empty_iff prod.inject) (elim disjE conjE; simp only: simp_thms)
qed

lemma fold_max_ge: "a \<le> fold max xs (a::nat)"
  by (induction xs arbitrary: a) (auto intro: order_trans [OF max.cobounded2])

lemma fold_max_le: "x \<in> set xs \<Longrightarrow> x \<le> fold max xs (a::nat)"
  by (induction xs arbitrary: a) (auto intro: order_trans [OF max.cobounded1 fold_max_ge])

lemma those_Some: "(\<exists>xs. those (map f cs) = Some xs) \<longleftrightarrow> (\<forall>c \<in> set cs. \<exists>x. f c = Some x)"
  by (induction cs) (auto split: option.split)

lemma levels_stop:
  fixes E :: "nat \<Rightarrow> 'a \<Rightarrow> bool"
  assumes zero: "\<And>i. \<not> E 0 i" and step: "\<And>n i. E (Suc n) i \<longleftrightarrow> (\<forall>c \<in> kids i. E n c)"
    and kids: "\<And>i. kids i \<subseteq> S" "finite S" "card S \<le> k" and ends: "E n i"
  shows "E (Suc k) i"
proof -
  let ?F = "\<lambda>n. {i \<in> S. E n i}"
  have up: "E n i \<Longrightarrow> E (Suc n) i" for n i
    by (induction n arbitrary: i) (auto simp: zero step)
  have mono: "mono ?F" by (intro mono_iff_le_Suc [THEN iffD2] allI) (use up in auto)
  have "range ?F \<subseteq> Pow S" by auto
  then have "finite (range ?F)" using kids(2) finite_subset by blast
  moreover have "\<forall>n. ?F n = ?F (Suc n) \<longrightarrow> ?F (Suc n) = ?F (Suc (Suc n))"
  proof (intro allI impI)
    fix n assume e: "?F n = ?F (Suc n)"
    then have "(\<forall>c \<in> kids j. E n c) = (\<forall>c \<in> kids j. E (Suc n) c)" for j using kids(1) [of j] by blast
    then show "?F (Suc n) = ?F (Suc (Suc n))" using step [of n] step [of "Suc n"] by blast
  qed
  ultimately have "?F (card S) = (\<Union>n. ?F n)"
    using finite_mono_strict_prefix_implies_finite_fixpoint [of ?F S] finite_mono_remains_stable_implies_strict_prefix [of ?F] mono kids(2)
    by blast
  then have all: "?F m \<subseteq> ?F k" for m using monoD [OF mono kids(3)] by blast
  obtain m where m: "n = Suc m" using ends zero by (cases n) auto
  have "\<forall>c \<in> kids i. E k c" using ends all [of m] kids(1) [of i] unfolding m step by blast
  then show ?thesis unfolding step .
qed
text \<open>A walk that does not end with this fuel ends with no fuel.\<close>

lemma traceIn_ends:
  "(\<exists>ss. traceIn (Suc n) db i = Some ss) \<longleftrightarrow>
     (\<forall>c \<in> (case expandMetaIn i db of ChildMetas cs \<Rightarrow> me_id ` set cs | _ \<Rightarrow> {}). \<exists>ss. traceIn n db c = Some ss)"
  by (cases "expandMetaIn i db") (simp_all add: those_Some)

lemma child_metas_rows: "expandMetaIn i db = ChildMetas cs \<Longrightarrow> me_id ` set cs \<subseteq> mm_id ` set (db_meta db)"
  by (auto simp: expandMetaIn_def metaRowToEntry_def split: option.splits if_splits)

lemma trace_hangs:
  assumes "traceIn (traceFuel db) db i = None"
  shows "traceIn n db i = None"
proof (rule ccontr)
  let ?E = "\<lambda>n i. \<exists>ss. traceIn n db i = Some ss"
  let ?kids = "\<lambda>i. case expandMetaIn i db of ChildMetas cs \<Rightarrow> me_id ` set cs | _ \<Rightarrow> {}"
  assume "traceIn n db i \<noteq> None"
  then have e: "?E n i" by blast
  have k: "?kids j \<subseteq> mm_id ` set (db_meta db)" for j
    using child_metas_rows [of j db] by (cases "expandMetaIn j db") simp_all
  have "card (mm_id ` set (db_meta db)) \<le> length (db_meta db)"
    using card_image_le [of "set (db_meta db)" mm_id] card_length [of "db_meta db"] by simp
  then have "card (mm_id ` set (db_meta db)) \<le> length (db_meta db) + fold max (map mm_depth (db_meta db)) 0" by simp
  from levels_stop [of ?E ?kids, OF _ traceIn_ends k _ this e] assms show False by (simp add: traceFuel_def del: traceIn.simps(2))
qed

lemma depth_fuel: "depthOf i db < traceFuel db"
proof (cases "metaRow i db")
  case None
  then show ?thesis by (simp add: depthOf_def traceFuel_def)
next
  case (Some m)
  then have "mm_depth m \<in> set (map mm_depth (db_meta db))" by (auto simp: metaRow_def dest: find_SomeD)
  from fold_max_le [OF this, of 0] Some show ?thesis by (simp add: depthOf_def traceFuel_def)
qed

lemma trace_returns:
  fixes w :: "'v World"
  assumes "meta_layered (wd_db w)" "distinct (map sm_id (db_semantic (wd_db w)))"
  shows "fst (toolTraceToSource ev args w) \<noteq> Inl NoReturn"
proof -
  let ?walk = "\<lambda>i w. dbT (traceMetaToSources (traceFuel (wd_db w)) (ev_memory ev) i) w"
  have walk: "fst (bindT (?walk i) (\<lambda>sources. case sources of Some ss \<Rightarrow> retT (f ss) | None \<Rightarrow> hangT) w) \<noteq> Inl NoReturn"
    for i and f :: "SemanticMemoryEntry list \<Rightarrow> jv"
  proof (cases "mg_started (ev_memory ev)")
    case True
    obtain ss where "traceIn (traceFuel (wd_db w)) (wd_db w) i = Some ss"
      using trace_spec [OF assms depth_fuel] by blast
    then show ?thesis using True by (simp add: bindT_def dbT_def retT_def traceMetaToSources_def ensureStarted_def db_op_simps)
  next
    case False
    then show ?thesis by (simp add: bindT_def dbT_def traceMetaToSources_def ensureStarted_def db_op_simps)
  qed
  have pure: "fst (bindT m g w) \<noteq> Inl NoReturn" if "\<And>x. fst (g x w) \<noteq> Inl NoReturn" "snd (m w) = w" "fst (m w) \<noteq> Inl NoReturn"
    for m :: "('v, 'b) tool" and g :: "'b \<Rightarrow> ('v, jv) tool"
    using that by (auto simp: bindT_def split: prod.split sum.split)
  have coerce: "snd (textArg ev k v w) = w" "fst (textArg ev k v w) \<noteq> Inl NoReturn" for k v
    by (auto simp: textArg_def extT_def retT_def split: option.split jv.split sum.split)
  show ?thesis
    unfolding toolTraceToSource_def by (intro pure walk coerce) (simp_all add: required_def retT_def throwT_def)
qed

lemma toolCall_answer:
  assumes "meta_layered (wd_db w)" "distinct (map sm_id (db_semantic (wd_db w)))"
  shows "\<exists>x w1. handleToolCall ev i params w = (Reply x, w1) \<and> response_id x = i"
proof (cases "falsy (jprop params ''name'')")
  case True
  then show ?thesis by (simp add: handleToolCall_def Let_def)
next
  case False
  let ?args = "the (nullish (jprop params ''arguments'') (Some (JvObj [])))"
  show ?thesis
  proof (cases "case jprop params ''name'' of Some (JvStr n) \<Rightarrow> map_of (toolTable ev ?args) n | _ \<Rightarrow> None")
    case None
    then show ?thesis using False by (simp add: handleToolCall_def Let_def split: option.split)
  next
    case (Some t)
    then obtain n where "(n, t) \<in> set (toolTable ev ?args)" by (auto dest: map_of_SomeD split: option.splits jv.splits)
    then have "fst (t w) \<noteq> Inl NoReturn" using tools_return [of n t ev ?args] trace_returns [OF assms, of ev ?args] unfolding returns_def by blast
    then show ?thesis using False Some
      by (cases "t w"; cases "fst (t w)") (auto simp: handleToolCall_def Let_def split: failure.split)
  qed
qed

definition known_methods :: "jv option set" where
  "known_methods = {Some (JvStr ''initialize''), Some (JvStr ''tools/list''), Some (JvStr ''tools/call'')}"

text \<open>
  C23. While the links between reflections lead to lower depths, a request gets exactly one answer, with its id (or \<^verbatim>\<open>null\<close> when it has none),
  whatever its tool and arguments are. Not answered are the notification of initialisation, the value \<^verbatim>\<open>null\<close>, and an unknown method that
  cannot be written as text; the last two reject the handler.
\<close>

theorem request_gets_answer:
  assumes "meta_layered (wd_db w)" "distinct (map sm_id (db_semantic (wd_db w)))"
  shows "case fst (handleRequest ev r w) of
     Reply x \<Rightarrow> response_id x = requestId r
   | NoReply \<Rightarrow> jprop r ''id'' = None \<and> jprop r ''method'' = Some (JvStr ''notifications/initialized'')
   | Rejected \<Rightarrow> r = JvNull \<or> (jprop r ''method'' \<notin> known_methods \<and> asText (ev_ext ev) (jprop r ''method'') = None)
   | NeverAnswers \<Rightarrow> False"
proof -
  obtain x w1 where "handleToolCall ev (requestId r) (the (nullish (jprop r ''params'') (Some (JvObj [])))) w = (Reply x, w1)" "response_id x = requestId r"
    using toolCall_answer [OF assms] by blast
  then show ?thesis by (auto simp: handleRequest_def Let_def known_methods_def split: option.split)
qed

text \<open>
  Without that, a call can stay without an answer: on links that form a circle the walk to the sources does not end. A line \<^verbatim>\<open>null\<close>, which any
  container can send, rejects the handler outside of its \<^verbatim>\<open>try\<close>; it changes nothing, and the other lines are handled as if it were not there.
\<close>

lemma serve_append: "serve (xs @ ys) w = (fst (serve xs w) @ fst (serve ys (snd (serve xs w))), snd (serve ys (snd (serve xs w))))"
  by (induction xs arbitrary: w) (auto simp: case_prod_beta)

theorem null_line_rejected:
  assumes "xt_parse (ev_ext ev) line = Some JvNull"
  shows "serve (xs @ (ev, line) # ys) w = (fst (serve xs w) @ Rejected # fst (serve ys (snd (serve xs w))), snd (serve (xs @ ys) w))"
  using assms by (simp add: serve_append processLine_def handleRequest_def case_prod_beta)

section \<open>Scope of the tools\<close>

definition others :: "string option \<Rightarrow> 'v Db \<Rightarrow> 'v Db \<Rightarrow> bool" where
  "others po d db \<longleftrightarrow> (\<forall>q. Some q \<noteq> po \<longrightarrow> view q db = view q d) \<and> db_profiles db = db_profiles d \<and> db_working db = db_working d \<and>
     db_sessions db = db_sessions d"

lemma others_refl [simp]: "others po d d"
  by (simp add: others_def)

text \<open>An operation of the database, and a tool, that stay within a profile.\<close>

definition keepsOthers :: "string option \<Rightarrow> ('v, 'a) db_op \<Rightarrow> bool" where
  "keepsOthers po m \<longleftrightarrow> (\<forall>d db. others po d db \<longrightarrow> others po d (snd (m db)))"

definition scoped :: "string option \<Rightarrow> ('v, 'a) tool \<Rightarrow> bool" where
  "scoped po t \<longleftrightarrow> (\<forall>d w. wd_profileId w = po \<and> others po d (wd_db w) \<longrightarrow> wd_profileId (snd (t w)) = po \<and> others po d (wd_db (snd (t w))))"

lemma scopedD:
  "scoped po t \<Longrightarrow> wd_profileId w = po \<Longrightarrow> others po d (wd_db w) \<Longrightarrow> wd_profileId (snd (t w)) = po \<and> others po d (wd_db (snd (t w)))"
  unfolding scoped_def by blast

lemma keepsOthers_basic [intro]:
  "keepsOthers po (retD x)" "keepsOthers po (throwD e)" "keepsOthers po (queryD q)" "keepsOthers po (ensureStarted mg)" "keepsOthers po (embed sv s)"
  by (auto simp: keepsOthers_def db_op_simps ensureStarted_def embed_def split: sum.split)

lemma keepsOthers_bind [intro]: "keepsOthers po m \<Longrightarrow> (\<And>x. keepsOthers po (f x)) \<Longrightarrow> keepsOthers po (bindD m f)"
  unfolding keepsOthers_def bindD_def by (auto split: sum.split prod.split) (metis snd_conv)+

lemma scoped_basic [intro]:
  "scoped po (retT x)" "scoped po (throwT e)" "scoped po (required args k)" "scoped po (enumArg args k names)" "scoped po (depthArg v)"
  "scoped po (extT cs r)" "scoped po (sourceArg v)" "scoped po (textArg ev k v)" "scoped po (stringOr v e)" "scoped po (textOf ev v)"
  "scoped po hangT"
  by (auto simp: scoped_def retT_def throwT_def required_def enumArg_def depthArg_def extT_def sourceArg_def textArg_def stringOr_def textOf_def
      hangT_def split: option.split jv.split)

lemma scoped_bind [intro]:
  fixes m :: "('v, 'a) tool"
  assumes "scoped po m" "\<And>x. scoped po (f x)"
  shows "scoped po (bindT m f)"
  unfolding scoped_def
proof (intro allI impI)
  fix d :: "'v Db" and w :: "'v World"
  assume w: "wd_profileId w = po \<and> others po d (wd_db w)"
  obtain r w1 where m: "m w = (r, w1)" by fastforce
  then have w1: "wd_profileId w1 = po \<and> others po d (wd_db w1)" using assms(1) w unfolding scoped_def by (metis snd_conv)
  show "wd_profileId (snd (bindT m f w)) = po \<and> others po d (wd_db (snd (bindT m f w)))"
  proof (cases r)
    case (Inl e)
    then show ?thesis using m w1 by (simp add: bindT_def)
  next
    case (Inr x)
    then have "snd (bindT m f w) = snd (f x w1)" using m by (simp add: bindT_def)
    then show ?thesis using scopedD [OF assms(2) [of x], of w1 d] w1 by simp
  qed
qed

lemma scoped_profile [intro]:
  fixes f :: "string \<Rightarrow> ('v, 'a) tool"
  assumes "\<And>p. po = Some p \<Longrightarrow> scoped po (f p)"
  shows "scoped po (bindT getProfileId f)"
  unfolding scoped_def
proof (intro allI impI)
  fix d :: "'v Db" and w :: "'v World"
  assume w: "wd_profileId w = po \<and> others po d (wd_db w)"
  show "wd_profileId (snd (bindT getProfileId f w)) = po \<and> others po d (wd_db (snd (bindT getProfileId f w)))"
  proof (cases "fst (getProfileId w)")
    case (Inl e)
    then show ?thesis using w by (simp add: bindT_def getProfileId_def split: option.splits if_splits)
  next
    case (Inr p)
    then have "po = Some p" "getProfileId w = (Inr p, w)" using w by (simp_all add: getProfileId_def split: option.splits if_splits)
    moreover from this have "bindT getProfileId f w = f p w" by (simp add: bindT_def)
    ultimately show ?thesis using scopedD [OF assms [of p], of w d] w by simp
  qed
qed

lemma scoped_db [intro]: "keepsOthers po m \<Longrightarrow> scoped po (dbT m)"
  unfolding scoped_def keepsOthers_def dbT_def by (auto split: sum.split prod.split) (metis snd_conv)+

lemma scoped_case_option [intro]: "scoped po a \<Longrightarrow> (\<And>x. scoped po (b x)) \<Longrightarrow> scoped po (case z of None \<Rightarrow> a | Some x \<Rightarrow> b x)"
  by (cases z) auto

lemma scoped_if [intro]: "scoped po a \<Longrightarrow> scoped po b \<Longrightarrow> scoped po (if c then a else b)"
  by simp

lemma scoped_pair [intro]: "(\<And>x y. scoped po (f x y)) \<Longrightarrow> scoped po (case z of (x, y) \<Rightarrow> f x y)"
  by (cases z) auto

lemma scoped_enum [intro]: "scoped po (requiredEnum args k names)" "scoped po (fieldArg args valid)"
  unfolding fieldArg_def requiredEnum_def by (intro scoped_bind scoped_basic scoped_case_option)+

lemma keepsOthers_if [intro]: "keepsOthers po a \<Longrightarrow> keepsOthers po b \<Longrightarrow> keepsOthers po (if c then a else b)"
  by simp

text \<open>The operations that only read.\<close>

lemma keepsOthers_reads [intro]:
  "keepsOthers po (querySemanticMemory sv mg now q p ty n)" "keepsOthers po (queryMetaMemory sv mg now q p mt n lo hi)"
  "keepsOthers po (queryExternalMemory sv mg q p src n)" "keepsOthers po (expandMemory mg i)" "keepsOthers po (expandMetaMemory mg i)"
  "keepsOthers po (traceMetaToSources fuel mg i)" "keepsOthers po (getSessionMessages mg i n)" "keepsOthers po (getMemoryStats mg p)"
  unfolding querySemanticMemory_def queryMetaMemory_def queryExternalMemory_def expandMemory_def expandMetaMemory_def traceMetaToSources_def
    getSessionMessages_def getMemoryStats_def Let_def
  by (intro keepsOthers_bind keepsOthers_basic)+

text \<open>The operations that write: to their profile, or to what belongs to none.\<close>

lemma view_new_semantic:
  assumes "q \<noteq> sm_profile_id r"
  shows "view q (db\<lparr>db_semantic := db_semantic db @ [r]\<rparr>) = view q db"
proof -
  have "{x \<in> set (db_semantic db @ [r]). sm_profile_id x = q} = {x \<in> set (db_semantic db). sm_profile_id x = q}" using assms by auto
  moreover have "semanticOf q (db\<lparr>db_semantic := db_semantic db @ [r]\<rparr>) = semanticOf q db" using assms by (simp add: semanticOf_def)
  moreover have "metaOf q (db\<lparr>db_semantic := db_semantic db @ [r]\<rparr>) = metaOf q db" by (simp add: metaOf_def)
  ultimately show ?thesis by (simp add: view_def del: set_append)
qed

lemma view_same:
  "view q (db\<lparr>db_chats := cs\<rparr>) = view q db" "view q (db\<lparr>db_state := st\<rparr>) = view q db" "view q (db\<lparr>db_user_identity := ui\<rparr>) = view q db"
  "view q (db\<lparr>db_user_personality := up\<rparr>) = view q db"
  by (simp_all add: view_def semanticOf_def metaOf_def)

lemma view_personality:
  "{r \<in> set ps. pp_profile_id r = q} = {r \<in> set (db_personality db). pp_profile_id r = q} \<Longrightarrow> view q (db\<lparr>db_personality := ps\<rparr>) = view q db"
  by (simp add: view_def semanticOf_def metaOf_def)

lemma othersI:
  "others po d db \<Longrightarrow> (\<And>q. Some q \<noteq> po \<Longrightarrow> view q db' = view q db) \<Longrightarrow> db_profiles db' = db_profiles db \<Longrightarrow> db_working db' = db_working db \<Longrightarrow>
    db_sessions db' = db_sessions db \<Longrightarrow> others po d db'"
  unfolding others_def by simp

lemma keepsOthers_store:
  fixes sv :: "'v Services"
  assumes "so_profileId opts = p"
  shows "keepsOthers (Some p) (storeSemanticMemory sv mg now i opts)"
proof -
  have "keepsOthers (Some p) (insertSemantic r)" if r: "sm_profile_id r = p" for r :: "'v SemanticRow"
    unfolding keepsOthers_def
  proof (intro allI impI)
    fix d db :: "'v Db"
    assume o: "others (Some p) d db"
    have "others (Some p) d (db\<lparr>db_semantic := db_semantic db @ [r]\<rparr>)" by (rule othersI [OF o]) (use r view_new_semantic in auto)
    then show "others (Some p) d (snd (insertSemantic r db))" using o by (auto simp: insertSemantic_def split: option.split)
  qed
  then show ?thesis unfolding storeSemanticMemory_def by (intro keepsOthers_bind keepsOthers_basic) (simp add: assms)
qed

lemma keepsOthers_observe:
  fixes p :: string
  shows "keepsOthers (Some p) (observeAgentPersonality now p dn x :: ('v, AgentPersonalityEntry) db_op)"
  unfolding keepsOthers_def
proof (intro allI impI)
  fix d db :: "'v Db"
  assume o: "others (Some p) d db"
  have "others (Some p) d (db\<lparr>db_personality := db_personality db @ [r]\<rparr>)" if "pp_profile_id r = p" for r
    by (rule othersI [OF o]) (use that in \<open>auto intro: view_personality\<close>)
  moreover have "others (Some p) d (db\<lparr>db_personality := map (\<lambda>x. if pp_profile_id x = p \<and> pp_dimension x = dn then f x else x) (db_personality db)\<rparr>)"
    if f: "\<And>x. pp_profile_id (f x) = pp_profile_id x" for f
  proof (rule othersI [OF o])
    fix q assume "Some q \<noteq> Some p"
    then have "{r \<in> set (map (\<lambda>x. if pp_profile_id x = p \<and> pp_dimension x = dn then f x else x) (db_personality db)). pp_profile_id r = q} =
        {r \<in> set (db_personality db). pp_profile_id r = q}" using f by auto
    then show "view q (db\<lparr>db_personality := map (\<lambda>x. if pp_profile_id x = p \<and> pp_dimension x = dn then f x else x) (db_personality db)\<rparr>) = view q db"
      by (rule view_personality)
  qed simp_all
  ultimately show "others (Some p) d (snd (observeAgentPersonality now p dn x db))" using o
    by (simp add: observeAgentPersonality_def Let_def split: option.split)
qed

lemma keepsOthers_free [intro]:
  "keepsOthers po (observeUserPersonality now ud x src)" "keepsOthers po (updateUserIdentity now f)"
  "keepsOthers po (proposeIdentityUpdate i now p f1 v r)" "keepsOthers po (assignChat now c p)"
  unfolding keepsOthers_def others_def observeUserPersonality_def updateUserIdentity_def proposeIdentityUpdate_def assignChat_def Let_def
  by (auto simp: view_same split: option.split list.split)

lemma scoped_finally [intro]: "scoped po m \<Longrightarrow> scoped po (finallyT m c)"
  unfolding scoped_def finallyT_def by (auto split: prod.split) (metis snd_conv)+

lemmas tool_defs = toolSearchSemantic_def toolSearchExternal_def toolRecallConversation_def toolGetMemoryStats_def toolExpandMemory_def
  toolSearchMeta_def toolExpandMeta_def toolGetIdentity_def toolObserveUser_def toolProposeIdentityUpdate_def toolUpdateUserIdentity_def
  toolListProfiles_def toolGetCurrentProfile_def toolInstallSkill_def toolUninstallSkill_def toolListSkills_def toolSearchSkills_def
  toolUpdateConfig_def toolGetAuthUrl_def toolGetSystemStatus_def toolGoogleWorkspace_def

lemma scoped_getProfileId [intro]: "scoped po getProfileId"
  by (auto simp: scoped_def getProfileId_def split: option.split)

lemmas scoped_rules = scoped_bind scoped_basic scoped_enum scoped_case_option scoped_if scoped_pair scoped_finally scoped_getProfileId scoped_db
  keepsOthers_reads keepsOthers_free keepsOthers_basic

lemma scoped_search: "scoped po (toolSearchSemantic ev args)" "scoped po (toolSearchExternal ev args)" "scoped po (toolSearchMeta ev args)"
  unfolding tool_defs Let_def by (intro scoped_rules)+

lemma scoped_expand: "scoped po (toolExpandMemory ev args)" "scoped po (toolExpandMeta ev args)" "scoped po (toolGetMemoryStats ev)"
  unfolding tool_defs Let_def by (intro scoped_rules)+

lemma scoped_case_jv [intro]: "(\<And>s. scoped po (f s)) \<Longrightarrow> scoped po (case z of JvStr s \<Rightarrow> f s | _ \<Rightarrow> throwT e)"
  by (auto split: jv.split)

lemma scoped_recall: "scoped po (toolRecallConversation ev args)"
  unfolding toolRecallConversation_def Let_def by (intro scoped_rules scoped_case_jv)

lemma scoped_identity: "scoped po (toolGetIdentity ev)" "scoped po (toolObserveUser ev args)" "scoped po (toolProposeIdentityUpdate ev args)"
  "scoped po (toolUpdateUserIdentity ev args)"
  unfolding tool_defs Let_def by (intro scoped_rules)+

lemma scoped_profiles: "scoped po toolListProfiles" "scoped po toolGetCurrentProfile"
  unfolding tool_defs Let_def by (intro scoped_rules)+

lemma scoped_admin: "scoped po (toolInstallSkill ev args)" "scoped po (toolUninstallSkill ev args)" "scoped po (toolListSkills ev)"
  "scoped po (toolSearchSkills ev args)" "scoped po (toolUpdateConfig ev args)" "scoped po (toolGetAuthUrl ev args)"
  "scoped po (toolGetSystemStatus ev)" "scoped po (toolGoogleWorkspace ev args)"
  unfolding tool_defs Let_def by (intro scoped_rules)+

lemma scoped_trace: "scoped po (toolTraceToSource ev args)"
proof -
  have "scoped po (\<lambda>w. dbT (traceMetaToSources (f w) mg i) w)" for f mg i
    using keepsOthers_reads(6) scoped_db unfolding scoped_def by blast
  then show ?thesis unfolding toolTraceToSource_def by (intro scoped_rules)
qed

lemma scoped_writes: "scoped po (toolStoreSemantic ev args)" "scoped po (toolObservePersonality ev args)"
proof -
  show "scoped po (toolObservePersonality ev args)" unfolding toolObservePersonality_def
    by (rule scoped_bind [OF scoped_enum(1)], rule scoped_bind [OF scoped_basic(3)], rule scoped_profile)
      (use keepsOthers_observe in \<open>auto intro!: scoped_bind scoped_basic scoped_db\<close>)
  show "scoped po (toolStoreSemantic ev args)" unfolding toolStoreSemantic_def Let_def
    by (rule scoped_bind [OF scoped_basic(3)], rule scoped_if [OF scoped_basic(2)], rule scoped_bind [OF scoped_enum(1)], rule scoped_profile)
      (auto intro!: scoped_bind scoped_basic scoped_db keepsOthers_store)
qed

text \<open>The switch moves the chat, and then the session.\<close>

lemma switch_others: "others po d (wd_db w) \<Longrightarrow> others po d (wd_db (snd (toolSwitchChatProfile ev args w)))"
proof -
  assume o: "others po d (wd_db w)"
  have a: "others po d (snd (assignChat now c p (wd_db w)))" for now c p
    using keepsOthers_free(4) o unfolding keepsOthers_def by blast
  show ?thesis
  proof (cases "fst (required args ''profile_name'' w)")
    case (Inl e)
    then show ?thesis using o by (auto simp: toolSwitchChatProfile_def bindT_def required_def retT_def throwT_def split: if_splits)
  next
    case (Inr v)
    then have r0: "required args ''profile_name'' w = (Inr v, w)"
      by (auto simp: required_def retT_def throwT_def split: if_splits)
    have ta: "snd (textArg ev ''profile_name'' v w) = w"
      by (auto simp: textArg_def extT_def retT_def split: option.split jv.split)
    show ?thesis
    proof (cases "fst (textArg ev ''profile_name'' v w)")
      case (Inl e)
      then have "textArg ev ''profile_name'' v w = (Inl e, w)" using ta by (metis prod.collapse)
      then show ?thesis using o r0 by (auto simp: toolSwitchChatProfile_def bindT_def throwT_def split: option.split)
    next
      case (Inr n)
      then have r: "textArg ev ''profile_name'' v w = (Inr n, w)" using ta by (metis prod.collapse)
    show ?thesis
    proof (cases "case ev_defaultChatId ev of None \<Rightarrow> True | Some c \<Rightarrow> c = [] \<or> getProfileByName n (wd_db w) = None")
      case True
      then show ?thesis using o r0 r
        by (auto simp: toolSwitchChatProfile_def bindT_def retT_def throwT_def dbT_def queryD_def split: option.splits)
    next
      case False
      then obtain c t where c: "ev_defaultChatId ev = Some c" "c \<noteq> []" "getProfileByName n (wd_db w) = Some t" by (auto split: option.splits)
      obtain x db1 where as: "assignChat (ev_now ev) c (ap_id t) (wd_db w) = (x, db1)" by fastforce
      then have "others po d db1" using a [of "ev_now ev" c "ap_id t"] by simp
      then show ?thesis using r0 r c as
        by (cases x) (simp_all add: toolSwitchChatProfile_def bindT_def retT_def throwT_def dbT_def queryD_def setSessionProfile_def)
    qed
    qed
  qed
qed

text \<open>
  C24. No call of a tool changes what belongs to another profile than the one of its session, nor the profiles, the messages or the
  sessions: not its memories, not their links, not its identity or its personality.
\<close>

theorem tools_keep_other_profiles:
  assumes "(n, t) \<in> set (toolTable ev args)" "Some q \<noteq> wd_profileId w"
  shows "view q (wd_db (snd (t w))) = view q (wd_db w) \<and> db_profiles (wd_db (snd (t w))) = db_profiles (wd_db w) \<and>
    db_working (wd_db (snd (t w))) = db_working (wd_db w) \<and> db_sessions (wd_db (snd (t w))) = db_sessions (wd_db w)"
proof -
  have "scoped po t \<or> t = toolSwitchChatProfile ev args" for po
    using assms(1) unfolding toolTable_def
    by (simp only: list.set insert_iff empty_iff prod.inject)
      (elim disjE conjE; simp only: scoped_search scoped_expand scoped_recall scoped_identity scoped_profiles scoped_admin scoped_trace scoped_writes simp_thms)
  then have "others (wd_profileId w) (wd_db w) (wd_db (snd (t w)))"
    using scopedD [of "wd_profileId w" t w "wd_db w"] switch_others [of "wd_profileId w" "wd_db w" w ev args] by auto
  then show ?thesis using assms(2) unfolding others_def by simp
qed

section \<open>Required arguments\<close>

definition pureT :: "('v, 'a) tool \<Rightarrow> bool" where
  "pureT t \<longleftrightarrow> (\<forall>w. snd (t w) = w \<and> fst (t w) \<noteq> Inl NoReturn)"

text \<open>An error, as a failed call or as a result that says so, and nothing else.\<close>

definition refuses :: "('v, jv) tool \<Rightarrow> bool" where
  "refuses t \<longleftrightarrow> (\<forall>w. snd (t w) = w \<and> (\<exists>e. fst (t w) = Inl (Failed e) \<or> fst (t w) = Inr (obj [(''error'', Some (JvStr e))])))"

lemma pureT_basic: "pureT (required args k)" "pureT (enumArg args k names)" "pureT (retT x)" "pureT (throwT e)" "pureT (stringOr v m)"
  by (auto simp: pureT_def required_def enumArg_def retT_def throwT_def stringOr_def split: option.split jv.split)

lemma pureT_bind: "pureT m \<Longrightarrow> (\<And>x. pureT (f x)) \<Longrightarrow> pureT (bindT m f)"
  unfolding pureT_def bindT_def by (auto split: prod.split sum.split) (metis fst_conv snd_conv)+

lemma pureT_if: "pureT a \<Longrightarrow> pureT b \<Longrightarrow> pureT (if c then a else b)"
  by simp

lemma pureT_option: "pureT a \<Longrightarrow> (\<And>x. pureT (f x)) \<Longrightarrow> pureT (case z of None \<Rightarrow> a | Some x \<Rightarrow> f x)"
  by (cases z) auto

lemma pureT_enum: "pureT (requiredEnum args k names)" "pureT (fieldArg args valid)"
  unfolding fieldArg_def requiredEnum_def by (auto intro!: pureT_bind pureT_basic split: option.split)

lemma refuses_bind:
  assumes "pureT m" "\<And>x. refuses (f x)"
  shows "refuses (bindT m f)"
  unfolding refuses_def
proof (intro allI)
  fix w
  obtain r where m: "m w = (r, w)" "r \<noteq> Inl NoReturn" using assms(1) unfolding pureT_def by (metis prod.collapse)
  show "snd (bindT m f w) = w \<and> (\<exists>e. fst (bindT m f w) = Inl (Failed e) \<or> fst (bindT m f w) = Inr (obj [(''error'', Some (JvStr e))]))"
  proof (cases r)
    case (Inr x)
    then have "bindT m f w = f x w" using m by (simp add: bindT_def)
    then show ?thesis using assms(2) unfolding refuses_def by simp
  next
    case (Inl e)
    then show ?thesis using m by (cases e) (simp_all add: bindT_def)
  qed
qed

lemma refuses_missing: "jprop args k = None \<Longrightarrow> refuses (bindT (required args k) f)"
  "jprop args k = None \<Longrightarrow> refuses (bindT (requiredEnum args k names) g)"
  "jprop args ''field'' = None \<Longrightarrow> refuses (bindT (fieldArg args valid) h)"
  by (simp_all add: refuses_def bindT_def required_def throwT_def retT_def requiredEnum_def enumArg_def fieldArg_def)

lemma refuses_simple: "refuses (throwT e)" "refuses (retT (obj [(''error'', strV e)]))"
  by (auto simp: refuses_def throwT_def retT_def strV_def)

lemma refuses_if: "refuses a \<Longrightarrow> refuses b \<Longrightarrow> refuses (if c then a else b)"
  by simp

lemmas refuses_rules = refuses_if refuses_simple refuses_missing refuses_bind pureT_basic pureT_enum

lemma missing_refused:
  "jprop args ''query'' = None \<Longrightarrow> refuses (toolSearchSemantic ev args)"
    "jprop args ''query'' = None \<Longrightarrow> refuses (toolSearchExternal ev args)"
    "jprop args ''query'' = None \<Longrightarrow> refuses (toolSearchMeta ev args)"
    "jprop args ''memory_id'' = None \<Longrightarrow> refuses (toolExpandMemory ev args)"
    "jprop args ''meta_id'' = None \<Longrightarrow> refuses (toolExpandMeta ev args)"
    "jprop args ''meta_id'' = None \<Longrightarrow> refuses (toolTraceToSource ev args)"
    "jprop args ''profile_name'' = None \<Longrightarrow> refuses (toolSwitchChatProfile ev args)"
    "jprop args ''service'' = None \<Longrightarrow> refuses (toolGetAuthUrl ev args)"
    "jprop args ''content'' = None \<Longrightarrow> refuses (toolStoreSemantic ev args)"
    "jprop args ''field'' = None \<Longrightarrow> refuses (toolUpdateConfig ev args)"
    "jprop args ''type'' = None \<Longrightarrow> refuses (toolStoreSemantic ev args)"
    "jprop args ''dimension'' = None \<Longrightarrow> refuses (toolObservePersonality ev args)"
    "jprop args ''observation'' = None \<Longrightarrow> refuses (toolObservePersonality ev args)"
    "jprop args ''dimension'' = None \<Longrightarrow> refuses (toolObserveUser ev args)"
    "jprop args ''observation'' = None \<Longrightarrow> refuses (toolObserveUser ev args)"
    "jprop args ''field'' = None \<Longrightarrow> refuses (toolProposeIdentityUpdate ev args)"
    "jprop args ''new_value'' = None \<Longrightarrow> refuses (toolProposeIdentityUpdate ev args)"
    "jprop args ''reason'' = None \<Longrightarrow> refuses (toolProposeIdentityUpdate ev args)"
    "jprop args ''field'' = None \<Longrightarrow> refuses (toolUpdateUserIdentity ev args)"
    "jprop args ''value'' = None \<Longrightarrow> refuses (toolUpdateUserIdentity ev args)"
    "jprop args ''name'' = None \<Longrightarrow> refuses (toolInstallSkill ev args)"
    "jprop args ''name'' = None \<Longrightarrow> refuses (toolUninstallSkill ev args)"
    "jprop args ''query'' = None \<Longrightarrow> refuses (toolSearchSkills ev args)"
proof -
  show "refuses (toolSearchSemantic ev args)"
    if "jprop args ''query'' = None" using that unfolding toolSearchSemantic_def Let_def by - (rule refuses_missing(1))
  show "refuses (toolSearchExternal ev args)"
    if "jprop args ''query'' = None" using that unfolding toolSearchExternal_def Let_def by - (rule refuses_missing(1))
  show "refuses (toolSearchMeta ev args)"
    if "jprop args ''query'' = None" using that unfolding toolSearchMeta_def Let_def by - (rule refuses_missing(1))
  show "refuses (toolExpandMemory ev args)"
    if "jprop args ''memory_id'' = None" using that unfolding toolExpandMemory_def Let_def by - (rule refuses_missing(1))
  show "refuses (toolExpandMeta ev args)"
    if "jprop args ''meta_id'' = None" using that unfolding toolExpandMeta_def Let_def by - (rule refuses_missing(1))
  show "refuses (toolTraceToSource ev args)"
    if "jprop args ''meta_id'' = None" using that unfolding toolTraceToSource_def Let_def by - (rule refuses_missing(1))
  show "refuses (toolSwitchChatProfile ev args)"
    if "jprop args ''profile_name'' = None" using that unfolding toolSwitchChatProfile_def Let_def by - (rule refuses_missing(1))
  show "refuses (toolGetAuthUrl ev args)"
    if "jprop args ''service'' = None" using that unfolding toolGetAuthUrl_def Let_def by - (rule refuses_missing(1))
  show "refuses (toolStoreSemantic ev args)"
    if "jprop args ''content'' = None" using that unfolding toolStoreSemantic_def Let_def by - (rule refuses_missing(1))
  show "refuses (toolUpdateConfig ev args)"
    if "jprop args ''field'' = None" using that unfolding toolUpdateConfig_def Let_def by - (rule refuses_missing(1))
  show "refuses (toolStoreSemantic ev args)"
    if "jprop args ''type'' = None" using that unfolding toolStoreSemantic_def Let_def by - (rule refuses_bind [OF pureT_basic(1)], rule refuses_if [OF refuses_simple(1)], rule refuses_missing(2))
  show "refuses (toolObservePersonality ev args)"
    if "jprop args ''dimension'' = None" using that unfolding toolObservePersonality_def Let_def by - (rule refuses_missing(2))
  show "refuses (toolObservePersonality ev args)"
    if "jprop args ''observation'' = None" using that unfolding toolObservePersonality_def Let_def by - (rule refuses_bind [OF pureT_enum(1)], rule refuses_missing(1))
  show "refuses (toolObserveUser ev args)"
    if "jprop args ''dimension'' = None" using that unfolding toolObserveUser_def Let_def by - (rule refuses_missing(2))
  show "refuses (toolObserveUser ev args)"
    if "jprop args ''observation'' = None" using that unfolding toolObserveUser_def Let_def by - (rule refuses_bind [OF pureT_enum(1)], rule refuses_missing(1))
  show "refuses (toolProposeIdentityUpdate ev args)"
    if "jprop args ''field'' = None" using that unfolding toolProposeIdentityUpdate_def Let_def by - (rule refuses_missing(3))
  show "refuses (toolProposeIdentityUpdate ev args)"
    if "jprop args ''new_value'' = None" using that unfolding toolProposeIdentityUpdate_def Let_def by - (rule refuses_bind [OF pureT_enum(2)], rule refuses_missing(1))
  show "refuses (toolProposeIdentityUpdate ev args)"
    if "jprop args ''reason'' = None" using that unfolding toolProposeIdentityUpdate_def Let_def by - (rule refuses_bind [OF pureT_enum(2)], rule refuses_bind [OF pureT_basic(1)], rule refuses_missing(1))
  show "refuses (toolUpdateUserIdentity ev args)"
    if "jprop args ''field'' = None" using that unfolding toolUpdateUserIdentity_def Let_def by - (rule refuses_missing(3))
  show "refuses (toolUpdateUserIdentity ev args)"
    if "jprop args ''value'' = None" using that unfolding toolUpdateUserIdentity_def Let_def by - (rule refuses_bind [OF pureT_enum(2)], rule refuses_missing(1))
  show "refuses (toolInstallSkill ev args)"
    if "jprop args ''name'' = None" using that unfolding toolInstallSkill_def Let_def by - (rule refuses_if [OF refuses_simple(1)], rule refuses_missing(1))
  show "refuses (toolUninstallSkill ev args)"
    if "jprop args ''name'' = None" using that unfolding toolUninstallSkill_def Let_def by - (rule refuses_if [OF refuses_simple(1)], rule refuses_missing(1))
  show "refuses (toolSearchSkills ev args)"
    if "jprop args ''query'' = None" using that unfolding toolSearchSkills_def Let_def by - (rule refuses_if [OF refuses_simple(1)], rule refuses_missing(1))
qed

lemma missing_refused_rest:
  "jprop args ''value'' = None \<Longrightarrow> refuses (toolUpdateConfig ev args)"
  "jprop args ''command'' = None \<Longrightarrow> refuses (toolGoogleWorkspace ev args)"
proof -
  show "refuses (toolUpdateConfig ev args)" if "jprop args ''value'' = None"
    unfolding toolUpdateConfig_def by (rule refuses_bind [OF pureT_basic(1)]) (simp add: that refuses_simple)
  show "refuses (toolGoogleWorkspace ev args)" if "jprop args ''command'' = None"
    unfolding toolGoogleWorkspace_def Let_def by (rule refuses_if [OF refuses_simple(2)]) (simp add: that refuses_simple)
qed

text \<open>
  C25. The tools that are listed are the ones that are dispatched; and a call that lacks an argument that the definition of its tool
  requires is refused: it changes nothing, calls nothing and says so.
\<close>

theorem tools_match_definitions:
  "list_all2 (\<lambda>td (n, t). td_name td = n \<and> (\<forall>k \<in> set (td_required td). jprop args k = None \<longrightarrow> refuses t)) TOOL_DEFINITIONS (toolTable ev args)"
  using missing_refused [of args ev] missing_refused_rest [of args ev]
  by (simp add: TOOL_DEFINITIONS_def toolTable_def tdef_def)

section \<open>Sizes, sessions, and what the tools do not check\<close>

lemma bindT_Inr: "bindT m f w = (Inr v, w2) \<Longrightarrow> \<exists>x w1. m w = (Inr x, w1) \<and> f x w1 = (Inr v, w2)"
  by (auto simp: bindT_def split: prod.splits sum.splits)

lemma dbT_Inr: "dbT m w = (Inr v, w2) \<Longrightarrow> \<exists>db. m (wd_db w) = (Inr v, db) \<and> w2 = w\<lparr>wd_db := db\<rparr>"
  by (auto simp: dbT_def split: prod.splits sum.splits)

lemma bindD_Inr: "bindD m f db = (Inr v, db2) \<Longrightarrow> \<exists>x db1. m db = (Inr x, db1) \<and> f x db1 = (Inr v, db2)"
  by (auto simp: bindD_def split: prod.splits sum.splits)

lemma clamp_max: "d \<le> mx \<Longrightarrow> 1 \<le> mx \<Longrightarrow> clampLimit v d mx \<le> mx"
  by (auto simp: clampLimit_def split: option.split jv.split)

lemma query_lengths:
  "querySemanticMemory sv mg now q p ty (Some n) db = (Inr rs, db2) \<Longrightarrow> length rs \<le> n"
  "queryMetaMemory sv mg now q p mt (Some n) lo hi db = (Inr ms, db2) \<Longrightarrow> length ms \<le> n"
  "getSessionMessages mg i (Some n) db = (Inr xs, db2) \<Longrightarrow> length xs \<le> n"
  by (auto simp: querySemanticMemory_def queryMetaMemory_def getSessionMessages_def Let_def retD_def queryD_def semanticResults_def metaResults_def
      rank_length newest_spec(1) dest!: bindD_Inr)

definition bounded :: "nat \<Rightarrow> ('v, jv) tool \<Rightarrow> bool" where
  "bounded n t \<longleftrightarrow> (\<forall>w v w2. t w = (Inr v, w2) \<longrightarrow> (\<exists>xs. v = JvArr xs \<and> length xs \<le> n))"

lemma bounded_bind: "(\<And>x. bounded n (f x)) \<Longrightarrow> bounded n (bindT m f)"
  unfolding bounded_def by (blast dest: bindT_Inr)

lemma bounded_array:
  assumes "\<And>db xs d. m db = (Inr xs, d) \<Longrightarrow> length xs \<le> n"
  shows "bounded n (bindT (dbT m) (\<lambda>rs. retT (JvArr (map f rs))))"
  unfolding bounded_def using assms by (fastforce simp: retT_def dest!: bindT_Inr dbT_Inr)

lemma bounded_simple: "bounded n (throwT e)" "bounded n a \<Longrightarrow> bounded n b \<Longrightarrow> bounded n (if c then a else b)"
  "bounded n a \<Longrightarrow> (\<And>x. bounded n (g x)) \<Longrightarrow> bounded n (case z of None \<Rightarrow> a | Some x \<Rightarrow> g x)"
  "(\<And>x. bounded n (h x)) \<Longrightarrow> bounded n (case j of JvStr x \<Rightarrow> h x | _ \<Rightarrow> throwT e)"
  by (auto simp: bounded_def throwT_def split: option.split jv.split)

text \<open>Whatever limit is asked for, a search returns at most 50 memories or 20 reflections, and a recall at most 100 messages.\<close>

theorem results_are_bounded:
  "bounded 50 (toolSearchSemantic ev args) \<and> bounded 20 (toolSearchMeta ev args) \<and> bounded 100 (toolRecallConversation ev args)"
proof (intro conjI)
  have c50: "clampLimit x 10 50 \<le> 50" for x by (rule clamp_max) simp_all
  have c20: "clampLimit x 5 20 \<le> 20" for x by (rule clamp_max) simp_all
  have c100: "clampLimit x 20 100 \<le> 100" for x by (rule clamp_max) simp_all
  show "bounded 50 (toolSearchSemantic ev args)" unfolding toolSearchSemantic_def Let_def
    by (rule bounded_bind, rule bounded_bind, rule bounded_bind, rule bounded_bind, rule bounded_array, rule order_trans [OF query_lengths(1) c50])
  show "bounded 20 (toolSearchMeta ev args)" unfolding toolSearchMeta_def Let_def
    by (rule bounded_bind, rule bounded_bind, rule bounded_bind, rule bounded_bind, rule bounded_bind, rule bounded_bind, rule bounded_array,
        rule order_trans [OF query_lengths(2) c20])
  have r1: "bounded 100 (bindT (dbT (getSessionMessages mg i (Some (clampLimit x 20 100)))) (\<lambda>ms. retT (JvArr (map (formatMessageForTool ev) ms))))" for mg i x
    by (rule bounded_array) (rule order_trans [OF query_lengths(3) c100])
  have "length ms \<le> 100" if "queryD (getRecentMessages c (clampLimit x 20 100)) db = (Inr ms, d)" for c x ms d and db :: "'b Db"
  proof -
    have "length ms \<le> clampLimit x 20 100" using that by (auto simp: queryD_def getRecentMessages_def newest_spec(1))
    then show ?thesis using c100 [of x] by linarith
  qed
  then have r2: "bounded 100 (bindT (dbT (queryD (getRecentMessages c (clampLimit x 20 100)))) (\<lambda>ms. retT (JvArr (map (formatMessageForTool ev) ms))))" for c x
    by (rule bounded_array)
  show "bounded 100 (toolRecallConversation ev args)" unfolding toolRecallConversation_def Let_def
    by (intro bounded_simple(1,2) r1 r2 bounded_bind)
qed

lemma getChat_moved:
  assumes "getChat c db = Some ch"
  shows "getChat c (db\<lparr>db_chats := map (\<lambda>r. if ch_id r = c then r\<lparr>ch_profile_id := p, ch_updated_at := now\<rparr> else r) (db_chats db)\<rparr>) =
    Some (ch\<lparr>ch_profile_id := p, ch_updated_at := now\<rparr>)"
proof -
  have "find (\<lambda>r. ch_id r = c) rs = Some ch \<Longrightarrow>
    find (\<lambda>r. ch_id r = c) (map (\<lambda>r. if ch_id r = c then r\<lparr>ch_profile_id := p, ch_updated_at := now\<rparr> else r) rs) =
    Some (ch\<lparr>ch_profile_id := p, ch_updated_at := now\<rparr>)" for rs
    by (induction rs) (auto split: if_splits)
  then show ?thesis using assms by (simp add: getChat_def)
qed

text \<open>
  When the chat is switched to another profile, the session and the chat agree: the session uses the profile of that name, and a
  server that starts again for the chat resolves to the same one.
\<close>

theorem switch_agrees:
  assumes "toolSwitchChatProfile ev args w = (Inr v, w2)" "jprop args ''profile_name'' = Some (JvStr n)"
  shows "\<exists>t. getProfileByName n (wd_db w) = Some t \<and> wd_profileId w2 = Some (ap_id t) \<and>
    resolveProfile (ev_defaultChatId ev) (wd_db w2) = wd_profileId w2"
proof -
  have r: "required args ''profile_name'' w = (Inr (Some (JvStr n)), w)" "textArg ev ''profile_name'' (Some (JvStr n)) w = (Inr n, w)"
    using assms by (cases "n = []"; simp add: toolSwitchChatProfile_def required_def textArg_def retT_def throwT_def bindT_def)+
  obtain c where c: "ev_defaultChatId ev = Some c" "c \<noteq> []"
    using assms(1) r by (auto simp: toolSwitchChatProfile_def bindT_def throwT_def split: option.splits if_splits)
  obtain t where t: "getProfileByName n (wd_db w) = Some t"
    using assms(1) r c by (auto simp: toolSwitchChatProfile_def bindT_def throwT_def dbT_def queryD_def split: option.splits)
  obtain prev db1 where a: "assignChat (ev_now ev) c (ap_id t) (wd_db w) = (Inr prev, db1)"
    using assms(1) r c t by (auto simp: toolSwitchChatProfile_def bindT_def throwT_def dbT_def queryD_def split: sum.splits prod.splits)
  then have w2: "w2 = w\<lparr>wd_db := db1, wd_profileId := Some (ap_id t)\<rparr>"
    using assms(1) r c t by (simp add: toolSwitchChatProfile_def bindT_def retT_def dbT_def queryD_def setSessionProfile_def)
  obtain p ch where p: "getProfile (ap_id t) (wd_db w) = Some p" and ch: "getChat c (wd_db w) = Some ch"
    and db1: "db1 = (wd_db w)\<lparr>db_chats := map (\<lambda>r. if ch_id r = c then r\<lparr>ch_profile_id := ap_id t, ch_updated_at := ev_now ev\<rparr> else r) (db_chats (wd_db w))\<rparr>"
    using a by (auto simp: assignChat_def split: option.splits)
  have "getChat c db1 = Some (ch\<lparr>ch_profile_id := ap_id t, ch_updated_at := ev_now ev\<rparr>)" unfolding db1 by (rule getChat_moved [OF ch])
  moreover have "getProfile (ap_id t) db1 = Some p" using p by (simp add: getProfile_def db1)
  ultimately have "getChatProfile c db1 = Some p" by (simp add: getChatProfile_def)
  moreover have "ap_id p = ap_id t" using getProfile_Some [OF p] by simp
  ultimately show ?thesis using t w2 c by (simp add: resolveProfile_def)
qed

text \<open>
  The tool that expands a reflection does not ask whose it is: from the session of one profile it gives the text of the memories that a
  reflection of any profile was made of.
\<close>

theorem expand_ignores_profile:
  assumes "mg_started (ev_memory ev)" "metaRow i (wd_db w) = Some m" "mm_depth m = 0" "s \<in> set (db_semantic (wd_db w))"
    "(i, sm_id s) \<in> set (db_mms (wd_db w))" "jprop args ''meta_id'' = Some (JvStr i)" "i \<noteq> []"
    "wd_profileId w = Some p" "sm_profile_id s \<noteq> p" "mm_profile_id m \<noteq> p"
  shows "\<exists>data. fst (toolExpandMeta ev args w) = Inr (obj [(''type'', strV ''semantic_sources''), (''data'', Some (JvArr data))]) \<and>
    sourceObj (semanticRowToEntry s) \<in> set data"
proof -
  let ?ss = "map semanticRowToEntry (sort_key sm_created_at (filter (\<lambda>r. (i, sm_id r) \<in> set (db_mms (wd_db w))) (db_semantic (wd_db w))))"
  have "fst (toolExpandMeta ev args w) = Inr (obj [(''type'', strV ''semantic_sources''), (''data'', Some (JvArr (map sourceObj ?ss)))])"
    using assms(1-3,6,7)
    by (simp add: toolExpandMeta_def bindT_def required_def textArg_def retT_def dbT_def expandMetaMemory_def ensureStarted_def db_op_simps expandMetaIn_def)
  moreover have "semanticRowToEntry s \<in> set ?ss" using assms(4,5) by simp
  then have "sourceObj (semanticRowToEntry s) \<in> set (map sourceObj ?ss)" unfolding set_map by (rule imageI)
  ultimately show ?thesis by blast
qed

text \<open>The tool that updates the configuration answers that it has updated it, and changes nothing.\<close>

theorem update_config_does_nothing:
  "snd (toolUpdateConfig ev args w) = w \<and>
   (jprop args ''field'' = Some (JvStr ''agent.maxTurns'') \<and> jprop args ''value'' = Some v \<longrightarrow>
      (\<exists>kvs. fst (toolUpdateConfig ev args w) = Inr (JvObj kvs) \<and> map_of kvs ''updated'' = Some (JvBool True)))"
proof
  have "pureT (toolUpdateConfig ev args)" unfolding toolUpdateConfig_def
    by (intro pureT_bind pureT_basic pureT_if pureT_option)
  then show "snd (toolUpdateConfig ev args w) = w" unfolding pureT_def by blast
  show "jprop args ''field'' = Some (JvStr ''agent.maxTurns'') \<and> jprop args ''value'' = Some v \<longrightarrow>
      (\<exists>kvs. fst (toolUpdateConfig ev args w) = Inr (JvObj kvs) \<and> map_of kvs ''updated'' = Some (JvBool True))"
    by (auto simp: toolUpdateConfig_def bindT_def required_def stringOr_def retT_def BLOCKED_PREFIXES_def ALLOWED_FIELDS_def startsWith_def obj_def map_filter_simps strV_def)
qed

section \<open>Examples\<close>

definition example_ext :: Ext where
  "example_ext = \<lparr>xt_hasStore = False, xt_hasRegistry = False, xt_hasChannel = False, xt_lookup = (\<lambda>n. Inr False), xt_download = (\<lambda>n. Inl ''offline''),
     xt_install = (\<lambda>d. Inl ''offline''), xt_remove = (\<lambda>n. Inr ()), xt_list = Inr [], xt_index = Inr [], xt_search = (\<lambda>q. Inr []),
     xt_manifest = Inr [], xt_gws = (\<lambda>c t. Inl ''offline''), xt_parse = (\<lambda>s. if s = map of_char ''null'' then Some JvNull else None),
     xt_print = (\<lambda>v. ''1''), xt_string = (\<lambda>v. None), xt_coerce = (\<lambda>k v. Inl ''not a string'')\<rparr>"

definition example_env :: "unit Env" where
  "example_env = \<lparr>ev_services = example_services, ev_memory = startMemory new_manager, ev_now = 7, ev_newId = ''n'', ev_isoTime = example_iso,
     ev_ext = example_ext, ev_defaultChatId = Some ''c'', ev_socketPath = ''/s'', ev_listening = True\<rparr>"

definition example_world :: "string \<Rightarrow> unit World" where
  "example_world p = \<lparr>wd_db = example_chat, wd_profileId = Some p, wd_calls = []\<rparr>"

lemmas example_simps = example_env_def example_world_def example_chat_def example_memories_def emptyDb_def

theorem request_gets_answer_witness:
  "handleRequest example_env (JvObj [(''id'', JvNum 4), (''method'', JvStr ''tools/list'')]) (example_world ''p'') = (Reply (ToolList (JvNum 4)), example_world ''p'')"
proof -
  have "meta_layered (wd_db (example_world ''p''))" "distinct (map sm_id (db_semantic (wd_db (example_world ''p''))))"
    by (simp_all add: meta_layered_def metaRow_def example_simps example_meta_def example_row_def)
  from request_gets_answer [OF this, where ev = example_env and r = "JvObj [(''id'', JvNum 4), (''method'', JvStr ''tools/list'')]"]
  show ?thesis by (simp add: handleRequest_def requestId_def nullish_def)
qed

theorem null_line_rejected_witness:
  "serve [(example_env, map of_char ''null''), (example_env, map of_char ''x'')] (example_world ''p'') =
     ([Rejected, Reply (RpcError JvNull (-32700) ''Parse error'')], example_world ''p'')"
proof -
  have "xt_parse (ev_ext example_env) (map of_char ''null'') = Some JvNull" by (simp add: example_env_def example_ext_def)
  from null_line_rejected [OF this, of "[]" "[(example_env, map of_char ''x'')]" "example_world ''p''"] show ?thesis
    by (simp add: processLine_def example_env_def example_ext_def)
qed

theorem tools_keep_other_profiles_witness:
  "view ''q'' (wd_db (snd (toolStoreSemantic example_env (JvObj [(''content'', JvStr ''tea''), (''type'', JvStr ''fact'')]) (example_world ''p'')))) =
   view ''q'' (wd_db (example_world ''p''))"
proof -
  let ?args = "JvObj [(''content'', JvStr ''tea''), (''type'', JvStr ''fact'')]"
  have "(''store_semantic'', toolStoreSemantic example_env ?args) \<in> set (toolTable example_env ?args)" by (simp add: toolTable_def)
  from tools_keep_other_profiles [OF this, of "''q''" "example_world ''p''"] show ?thesis by (simp add: example_world_def)
qed

theorem tools_match_definitions_witness:
  "refuses (toolSearchSemantic example_env (JvObj []))"
  using tools_match_definitions [of "JvObj []" example_env] by (simp add: TOOL_DEFINITIONS_def toolTable_def tdef_def)

theorem switch_agrees_witness:
  "\<exists>v w2. toolSwitchChatProfile example_env (JvObj [(''profile_name'', JvStr ''default'')]) (example_world ''q'') = (Inr v, w2) \<and>
     wd_profileId w2 = Some ''p'' \<and> resolveProfile (Some ''c'') (wd_db w2) = Some ''p''"
proof -
  let ?args = "JvObj [(''profile_name'', JvStr ''default'')]"
  have t: "getProfileByName ''default'' example_chat = Some (hd (db_profiles example_chat))" "ap_id (hd (db_profiles example_chat)) = ''p''"
    by (simp_all add: getProfileByName_def example_simps)
  have "\<exists>prev db1. assignChat 7 ''c'' ''p'' example_chat = (Inr prev, db1)"
    by (simp add: assignChat_def getProfile_def getChat_def example_simps)
  then obtain v w2 where s: "toolSwitchChatProfile example_env ?args (example_world ''q'') = (Inr v, w2)"
    using t by (auto simp: toolSwitchChatProfile_def bindT_def required_def textArg_def retT_def dbT_def queryD_def example_env_def example_world_def setSessionProfile_def)
  have "jprop ?args ''profile_name'' = Some (JvStr ''default'')" by simp
  from switch_agrees [OF s this] show ?thesis using s t by (auto simp: example_world_def example_env_def)
qed

theorem expand_ignores_profile_witness:
  "\<exists>data. fst (toolExpandMeta example_env (JvObj [(''meta_id'', JvStr ''m0'')]) (example_world ''q'')) =
      Inr (obj [(''type'', strV ''semantic_sources''), (''data'', Some (JvArr data))]) \<and>
      sourceObj (semanticRowToEntry (example_row ''a'' ''p'' 5)) \<in> set data"
proof -
  let ?args = "JvObj [(''meta_id'', JvStr ''m0'')]"
  have h: "mg_started (ev_memory example_env)" "metaRow ''m0'' (wd_db (example_world ''q'')) = Some (example_meta ''m0'' 0)"
    "mm_depth (example_meta ''m0'' 0) = 0" "example_row ''a'' ''p'' 5 \<in> set (db_semantic (wd_db (example_world ''q'')))"
    "(''m0'', sm_id (example_row ''a'' ''p'' 5)) \<in> set (db_mms (wd_db (example_world ''q'')))" "jprop ?args ''meta_id'' = Some (JvStr ''m0'')"
    "''m0'' \<noteq> []" "wd_profileId (example_world ''q'') = Some ''q''" "sm_profile_id (example_row ''a'' ''p'' 5) \<noteq> ''q''"
    "mm_profile_id (example_meta ''m0'' 0) \<noteq> ''q''"
    by (simp_all add: example_simps startMemory_def metaRow_def example_meta_def example_row_def)
  show ?thesis by (rule expand_ignores_profile [OF h])
qed

theorem update_config_does_nothing_witness:
  "\<exists>kvs. toolUpdateConfig example_env (JvObj [(''field'', JvStr ''agent.maxTurns''), (''value'', JvNum 3)]) (example_world ''p'') =
     (Inr (JvObj kvs), example_world ''p'') \<and> map_of kvs ''updated'' = Some (JvBool True)"
proof -
  let ?args = "JvObj [(''field'', JvStr ''agent.maxTurns''), (''value'', JvNum 3)]"
  have "jprop ?args ''field'' = Some (JvStr ''agent.maxTurns'') \<and> jprop ?args ''value'' = Some (JvNum 3)" by simp
  then show ?thesis using update_config_does_nothing [where ev = example_env and args = ?args and w = "example_world ''p''" and v = "JvNum 3"] by (metis prod.collapse)
qed

end
