(* ===== verification/Channel_Commands.thy ===== *)
theory Channel_Commands
  imports Memory_Jobs Mcp_Server "HOL-Library.Sublist"
begin

text \<open>
  \<^verbatim>\<open>src/src/orchestrator/channel-commands.ts\<close>: the commands that a user types in a chat, which are carried out on the
  database instead of being sent to the agent. Shown: every text is answered or passed on, as its first word says; what a command
  says of the identity is what is stored and shown, field by field; a command keeps the constraints of the schema
  and stays within the profile of its chat; spacing within values is lost, and fields that do not exist are
  acknowledged. The text of a key=value pair is matched by a regular expression, whose search is written out here.
\<close>

section \<open>Results\<close>

record ChannelCommandResult =
  cr_handled :: bool
  cr_response :: "string option"

definition ok :: "string \<Rightarrow> ChannelCommandResult" where
  "ok response = \<lparr>cr_handled = True, cr_response = Some response\<rparr>"

definition notHandled :: ChannelCommandResult where
  "notHandled = \<lparr>cr_handled = False, cr_response = None\<rparr>"

definition AGENT_PERSONALITY_DIMENSIONS :: "AgentDimension list" where
  "AGENT_PERSONALITY_DIMENSIONS = [A_communication_style, A_humor, A_emotional_register, A_values, A_rapport, A_boundaries]"

definition USER_PERSONALITY_DIMENSIONS :: "UserDimension list" where
  "USER_PERSONALITY_DIMENSIONS = [U_communication_style, U_work_patterns, U_decision_making, U_priorities, U_preferences, U_boundaries]"

definition agentDims :: string where
  "agentDims = join_with '', '' (map agentDimName AGENT_PERSONALITY_DIMENSIONS)"

definition userDims :: string where
  "userDims = join_with '', '' (map userDimName USER_PERSONALITY_DIMENSIONS)"

definition agentDim :: "string \<Rightarrow> AgentDimension option" where
  "agentDim key = find (\<lambda>d. agentDimName d = key) AGENT_PERSONALITY_DIMENSIONS"

definition userDim :: "string \<Rightarrow> UserDimension option" where
  "userDim key = find (\<lambda>d. userDimName d = key) USER_PERSONALITY_DIMENSIONS"

definition unlines :: "string list \<Rightarrow> string" where
  "unlines ls = join_with [CHR 0x0A] ls"

definition quote :: "string \<Rightarrow> string" where
  "quote s = [CHR 0x22] @ s @ [CHR 0x22]"

text \<open>The dash U+2014 of the texts, the only character of theirs that is not in Latin-1.\<close>

definition dash :: string where
  "dash = [CHR 0x97]"

section \<open>Parsing\<close>

text \<open>The words between white space.\<close>

function tokenize :: "string \<Rightarrow> string list" where
  "tokenize s =
     (let t = dropWhile is_space s in
      if t = [] then [] else takeWhile (\<lambda>c. \<not> is_space c) t # tokenize (dropWhile (\<lambda>c. \<not> is_space c) t))"
  by pat_completeness auto
termination
proof (relation "measure length")
  fix s t :: string
  assume t: "t = dropWhile is_space s" "t \<noteq> []"
  then have "\<not> is_space (hd t)" by (simp add: hd_dropWhile)
  then have "length (dropWhile (\<lambda>c. \<not> is_space c) t) < length t"
    using t(2) length_dropWhile_le [of "\<lambda>c. \<not> is_space c" "tl t"] by (cases t) (auto simp: less_Suc_eq_le)
  moreover have "length t \<le> length s" unfolding t(1) by (rule length_dropWhile_le)
  ultimately show "(dropWhile (\<lambda>c. \<not> is_space c) t, s) \<in> measure length" by simp
qed simp

declare tokenize.simps [simp del]

text \<open>\<^verbatim>\<open>\w\<close>, and \<^verbatim>\<open>\w+=\<close> at the start of a text, with what follows it.\<close>

definition is_word :: "char \<Rightarrow> bool" where
  "is_word c = (let n = (of_char c :: nat) in 48 \<le> n \<and> n \<le> 57 \<or> 65 \<le> n \<and> n \<le> 90 \<or> n = 95 \<or> 97 \<le> n \<and> n \<le> 122)"

definition key_at :: "string \<Rightarrow> (string \<times> string) option" where
  "key_at s =
     (let w = takeWhile is_word s in
      case dropWhile is_word s of c # r \<Rightarrow> if w \<noteq> [] \<and> c = CHR ''='' then Some (w, r) else None | [] \<Rightarrow> None)"

text \<open>\<^verbatim>\<open>,\s*\w+=\<close> at the start of a text.\<close>

definition separator :: "string \<Rightarrow> bool" where
  "separator s = (case s of c # r \<Rightarrow> c = CHR '','' \<and> key_at (dropWhile is_space r) \<noteq> None | [] \<Rightarrow> False)"

text \<open>\<^verbatim>\<open>[\s\S]*?\<close> up to a separator or the end, with the rest.\<close>

fun lazyValue :: "string \<Rightarrow> string \<times> string" where
  "lazyValue [] = ([], [])"
| "lazyValue (c # s) = (if separator (c # s) then ([], c # s) else let (v, r) = lazyValue s in (c # v, r))"

lemma lazyValue_append: "lazyValue s = (v, r) \<Longrightarrow> s = v @ r"
  by (induction s arbitrary: v r) (auto split: if_splits prod.splits)

lemma key_at_append: "key_at s = Some (k, r) \<Longrightarrow> s = k @ CHR ''='' # r \<and> k \<noteq> []"
  by (auto simp: key_at_def Let_def split: list.splits if_splits) (metis takeWhile_dropWhile_id)

text \<open>All matches of the pattern, from the left.\<close>

function matchPairs :: "string \<Rightarrow> (string \<times> string) list" where
  "matchPairs [] = []"
| "matchPairs (c # s) =
     (case key_at (c # s) of
        Some (k, r) \<Rightarrow> (k, fst (lazyValue r)) # matchPairs (snd (lazyValue r))
      | None \<Rightarrow> matchPairs s)"
  by pat_completeness auto
termination
proof (relation "measure length")
  fix c s x k r
  assume "key_at (c # s) = Some x" "(k, r) = x"
  then have "c # s = k @ CHR ''='' # r" using key_at_append [of "c # s" k r] by simp
  moreover have "length (snd (lazyValue r)) \<le> length r" using lazyValue_append [of r] by (metis le_add2 length_append prod.collapse)
  ultimately have "length (snd (lazyValue r)) < length (c # s)" by simp
  then show "(snd (lazyValue r), c # s) \<in> measure length" by simp
qed auto

text \<open>
  The assignment \<^verbatim>\<open>result[key] = ...\<close> on a plain object; assigning a string to its prototype does nothing. A
  comma that ends the value is removed.
\<close>

definition setField :: "(string, string) js_map \<Rightarrow> string \<times> string \<Rightarrow> (string, string) js_map" where
  "setField m p =
     (let key = toLowerCase (fst p); value = trim (snd p) in
      if value = [] \<or> key = ''__proto__'' then m
      else js_set key (if last value = CHR '','' then butlast value else value) m)"

definition parseKeyValuePairs :: "string list \<Rightarrow> (string, string) js_map" where
  "parseKeyValuePairs args =
     (let joined = trim (join_with '' '' args) in
      if joined = [] then [] else fold (\<lambda>p m. setField m p) (matchPairs joined) [])"

text \<open>\<^verbatim>\<open>Object.entries\<close>: keys that are array indices come first, in the order of their numbers.\<close>

definition digits_value :: "string \<Rightarrow> nat" where
  "digits_value s = foldl (\<lambda>n c. 10 * n + (of_char c - 48)) 0 s"

definition is_index :: "string \<Rightarrow> bool" where
  "is_index s = (s \<noteq> [] \<and> list_all (\<lambda>c. 48 \<le> (of_char c :: nat) \<and> (of_char c :: nat) \<le> 57) s \<and> (s = ''0'' \<or> hd s \<noteq> CHR ''0'') \<and>
     digits_value s < 2 ^ 32 - 1)"

definition entriesOf :: "(string, string) js_map \<Rightarrow> (string \<times> string) list" where
  "entriesOf m = sort_key (\<lambda>e. digits_value (fst e)) (filter (\<lambda>e. is_index (fst e)) m) @ filter (\<lambda>e. \<not> is_index (fst e)) m"

text \<open>\<^verbatim>\<open>args[i]?.toLowerCase()\<close>.\<close>

definition argAt :: "nat \<Rightarrow> string list \<Rightarrow> string option" where
  "argAt i args = (if i < length args then Some (toLowerCase (args ! i)) else None)"

text \<open>\<^verbatim>\<open>!v\<close> of a text that may be missing.\<close>

definition blank :: "string option \<Rightarrow> bool" where
  "blank v = (case v of None \<Rightarrow> True | Some s \<Rightarrow> s = [])"

section \<open>Identity\<close>

definition resolveProfileId :: "string \<Rightarrow> 'v Db \<Rightarrow> string option" where
  "resolveProfileId chatId db =
     (case getChatProfile chatId db of Some p \<Rightarrow> Some (ap_id p) | None \<Rightarrow> map_option ap_id (getDefaultProfile db))"

definition agentIdentityText :: "AgentIdentity option \<Rightarrow> string list" where
  "agentIdentityText a =
     (case a of
        Some i \<Rightarrow>
          [''Agent Identity:'',
           ''  Role: '' @ id_role i,
           ''  Tone: '' @ id_tone i,
           ''  Expertise: '' @ (if id_expertise i \<noteq> [] then join_with '', '' (id_expertise i) else ''(none)'')] @
          (if blank (id_instructions i) then [] else [''  Instructions: '' @ the (id_instructions i)])
      | None \<Rightarrow> [''Agent Identity: (not configured)''])"

definition shownField :: "string \<Rightarrow> string option \<Rightarrow> string list" where
  "shownField label v = (if blank v then [] else [''  '' @ label @ '': '' @ the v])"

definition userIdentityText :: "UserIdentity option \<Rightarrow> string list" where
  "userIdentityText u =
     (case u of
        Some i \<Rightarrow>
          [[], ''User Identity:''] @ shownField ''Name'' (us_name i) @ shownField ''Role'' (us_role i) @
          shownField ''Organization'' (us_organization i) @ shownField ''Timezone'' (us_timezone i) @ shownField ''Language'' (Some (us_language i))
      | None \<Rightarrow> [[], ''User Identity: (not configured)''])"

definition identityShow :: "string \<Rightarrow> ('v, ChannelCommandResult) db_op" where
  "identityShow chatId =
     bindD (queryD (resolveProfileId chatId)) (\<lambda>profileId.
     bindD (queryD (\<lambda>db. case profileId of Some p \<Rightarrow> agentIdentityText (getAgentIdentity p db) | None \<Rightarrow> [''Agent Identity: (no profile)''])) (\<lambda>agent.
     bindD (queryD (\<lambda>db. userIdentityText (getUserIdentity db))) (\<lambda>user.
     retD (ok (unlines (agent @ user))))))"

definition identitySetAgent :: "time \<Rightarrow> string list \<Rightarrow> string \<Rightarrow> ('v, ChannelCommandResult) db_op" where
  "identitySetAgent now args chatId =
     (let kvs = parseKeyValuePairs args in
      if kvs = [] then retD (ok (unlines [''Usage: /identity set agent role=Executive assistant'', ''Fields: role, tone, expertise, instructions'']))
      else bindD (queryD (resolveProfileId chatId)) (\<lambda>profileId.
        case profileId of
          None \<Rightarrow> retD (ok ''No profile assigned to this chat.'')
        | Some p \<Rightarrow>
            bindD (queryD (getAgentIdentity p)) (\<lambda>old.
            let role = coalesce (js_get kvs ''role'') (map_option id_role old);
                tone = coalesce (js_get kvs ''tone'') (map_option id_tone old) in
            if blank role \<or> blank tone then
              retD (ok (unlines [''Both role and tone are required when creating agent identity.'',
                ''Example: /identity set agent role=Assistant, tone=Professional'']))
            else
              let expertise = (if blank (js_get kvs ''expertise'') then case old of Some i \<Rightarrow> id_expertise i | None \<Rightarrow> []
                    else filter (\<lambda>s. s \<noteq> []) (map trim (split_on (CHR '','') (the (js_get kvs ''expertise'')))));
                  instructions = coalesce (js_get kvs ''instructions'') (Option.bind old id_instructions) in
              bindD (setAgentIdentity now p (the role) expertise (the tone) instructions) (\<lambda>_.
              retD (ok ''Agent identity updated.'')))))"

definition userFields :: "(string, string) js_map \<Rightarrow> UserFields" where
  "userFields kvs = \<lparr>uf_name = js_get kvs ''name'', uf_role = js_get kvs ''role'', uf_organization = js_get kvs ''org'',
     uf_timezone = js_get kvs ''timezone'', uf_language = js_get kvs ''language'', uf_contact = None, uf_notes = None\<rparr>"

definition identitySetUser :: "time \<Rightarrow> string list \<Rightarrow> ('v, ChannelCommandResult) db_op" where
  "identitySetUser now args =
     (let kvs = parseKeyValuePairs args in
      if kvs = [] then retD (ok (unlines [''Usage: /identity set user name=Stan Tyan'', ''Fields: name, role, org, timezone, language'']))
      else bindD (updateUserIdentity now (userFields kvs)) (\<lambda>_. retD (ok ''User identity updated.'')))"

definition handleIdentity :: "time \<Rightarrow> string list \<Rightarrow> string \<Rightarrow> ('v, ChannelCommandResult) db_op" where
  "handleIdentity now args chatId =
     (let sub = argAt 0 args in
      if blank sub \<or> sub = Some ''show'' then identityShow chatId
      else if sub = Some ''set'' then
        (let target = argAt 1 args in
         if target = Some ''agent'' then identitySetAgent now (drop 2 args) chatId
         else if target = Some ''user'' then identitySetUser now (drop 2 args)
         else retD (ok (unlines [''Usage:'', ''/identity set agent role=...'', ''/identity set user name=...''])))
      else retD (ok (unlines [''Usage:'', ''/identity show'', ''/identity set agent <field>=<value>'', ''/identity set user <field>=<value>''])))"

section \<open>Personality\<close>

definition personalityShow :: "string \<Rightarrow> ('v, ChannelCommandResult) db_op" where
  "personalityShow chatId =
     bindD (queryD (resolveProfileId chatId)) (\<lambda>profileId.
     bindD (queryD (\<lambda>db. case profileId of
         None \<Rightarrow> [''Agent Personality: (no profile)'']
       | Some p \<Rightarrow>
           (let es = getAgentPersonality p db in
            if es \<noteq> [] then ''Agent Personality:'' # map (\<lambda>e. ''  '' @ agentDimName (pe_dimension e) @ '': '' @ pe_content e @
              '' (confidence: '' @ toFixed 2 (pe_confidence e) @ '')'') es
            else [''Agent Personality: (none configured)'']))) (\<lambda>agent.
     bindD (queryD (\<lambda>db.
       (let es = getUserPersonality db in
        if es \<noteq> [] then [[], ''User Personality:''] @ map (\<lambda>e. ''  '' @ userDimName (ue_dimension e) @ '': '' @ ue_content e @
          '' (confidence: '' @ toFixed 2 (ue_confidence e) @ '', source: '' @ sourceName (ue_source e) @ '')'') es
        else [[], ''User Personality: (none configured)'']))) (\<lambda>user.
     retD (ok (unlines (agent @ user))))))"

text \<open>The answers of a step for each entry, in order.\<close>

fun eachEntry :: "('a \<Rightarrow> ('v, string) db_op) \<Rightarrow> 'a list \<Rightarrow> ('v, string list) db_op" where
  "eachEntry f [] = retD []"
| "eachEntry f (e # es) = bindD (f e) (\<lambda>l. bindD (eachEntry f es) (\<lambda>ls. retD (l # ls)))"

definition setAgentDim :: "time \<Rightarrow> string \<Rightarrow> string \<times> string \<Rightarrow> ('v, string) db_op" where
  "setAgentDim now profileId e =
     (case agentDim (fst e) of
        None \<Rightarrow> retD (''Invalid dimension '' @ quote (fst e) @ ''. Valid: '' @ agentDims)
      | Some d \<Rightarrow> bindD (observeAgentPersonality now profileId d (snd e)) (\<lambda>_. retD (''Agent personality '' @ quote (fst e) @ '' updated.'')))"

definition personalitySetAgent :: "time \<Rightarrow> string list \<Rightarrow> string \<Rightarrow> ('v, ChannelCommandResult) db_op" where
  "personalitySetAgent now args chatId =
     (let entries = entriesOf (parseKeyValuePairs args) in
      if entries = [] then retD (ok (unlines [''Usage: /personality set agent communication_style=Concise, uses bullet points'',
        ''Valid dimensions: '' @ agentDims]))
      else bindD (queryD (resolveProfileId chatId)) (\<lambda>profileId.
        case profileId of
          None \<Rightarrow> retD (ok ''No profile assigned to this chat.'')
        | Some p \<Rightarrow> bindD (eachEntry (setAgentDim now p) entries) (\<lambda>results. retD (ok (unlines results)))))"

definition setUserDim :: "time \<Rightarrow> string \<times> string \<Rightarrow> ('v, string) db_op" where
  "setUserDim now e =
     (case userDim (fst e) of
        None \<Rightarrow> retD (''Invalid dimension '' @ quote (fst e) @ ''. Valid: '' @ userDims)
      | Some d \<Rightarrow> bindD (observeUserPersonality now d (snd e) Declared) (\<lambda>_. retD (''User personality '' @ quote (fst e) @ '' updated.'')))"

definition personalitySetUser :: "time \<Rightarrow> string list \<Rightarrow> ('v, ChannelCommandResult) db_op" where
  "personalitySetUser now args =
     (let entries = entriesOf (parseKeyValuePairs args) in
      if entries = [] then retD (ok (unlines [''Usage: /personality set user work_patterns=Active 9am-6pm'', ''Valid dimensions: '' @ userDims]))
      else bindD (eachEntry (setUserDim now) entries) (\<lambda>results. retD (ok (unlines results))))"

definition personalityResetAgent :: "string list \<Rightarrow> string \<Rightarrow> ('v, ChannelCommandResult) db_op" where
  "personalityResetAgent args chatId =
     (let dimension = toLowerCase (trim (join_with '' '' args)) in
      if dimension = [] then retD (ok (unlines [''Usage: /personality reset agent <dimension>'', ''Valid dimensions: '' @ agentDims]))
      else case agentDim dimension of
        None \<Rightarrow> retD (ok (''Invalid dimension '' @ quote dimension @ ''. Valid: '' @ agentDims))
      | Some d \<Rightarrow>
          bindD (queryD (resolveProfileId chatId)) (\<lambda>profileId.
          case profileId of
            None \<Rightarrow> retD (ok ''No profile assigned to this chat.'')
          | Some p \<Rightarrow>
              bindD (deleteAgentPersonality p d) (\<lambda>deleted.
              retD (ok (if deleted then ''Agent personality '' @ quote dimension @ '' reset. The agent can re-infer it from conversation.''
                else ''No agent personality '' @ quote dimension @ '' found to reset.'')))))"

definition personalityResetUser :: "string list \<Rightarrow> ('v, ChannelCommandResult) db_op" where
  "personalityResetUser args =
     (let dimension = toLowerCase (trim (join_with '' '' args)) in
      if dimension = [] then retD (ok (unlines [''Usage: /personality reset user <dimension>'', ''Valid dimensions: '' @ userDims]))
      else case userDim dimension of
        None \<Rightarrow> retD (ok (''Invalid dimension '' @ quote dimension @ ''. Valid: '' @ userDims))
      | Some d \<Rightarrow>
          bindD (deleteUserPersonality d) (\<lambda>deleted.
          retD (ok (if deleted then ''User personality '' @ quote dimension @ '' reset. The agent can re-infer it from conversation.''
            else ''No user personality '' @ quote dimension @ '' found to reset.''))))"

definition handlePersonality :: "time \<Rightarrow> string list \<Rightarrow> string \<Rightarrow> ('v, ChannelCommandResult) db_op" where
  "handlePersonality now args chatId =
     (let sub = argAt 0 args; target = argAt 1 args in
      if blank sub \<or> sub = Some ''show'' then personalityShow chatId
      else if sub = Some ''set'' then
        (if target = Some ''agent'' then personalitySetAgent now (drop 2 args) chatId
         else if target = Some ''user'' then personalitySetUser now (drop 2 args)
         else retD (ok (unlines [''Usage:'', ''/personality set agent <dimension>=<content>'', ''/personality set user <dimension>=<content>''])))
      else if sub = Some ''reset'' then
        (if target = Some ''agent'' then personalityResetAgent (drop 2 args) chatId
         else if target = Some ''user'' then personalityResetUser (drop 2 args)
         else retD (ok (unlines [''Usage:'', ''/personality reset agent <dimension>'', ''/personality reset user <dimension>''])))
      else retD (ok (unlines [''Usage:'', ''/personality show'', ''/personality set agent|user <dimension>=<content>'',
        ''/personality reset agent|user <dimension>''])))"

section \<open>Profiles\<close>

definition profileLine :: "ProfileWithStats \<Rightarrow> string" where
  "profileLine p =
     ''  '' @ ap_name (ps_profile p) @ (if ap_is_default (ps_profile p) then '' (default)'' else []) @
     (if blank (ap_description (ps_profile p)) then [] else '' '' @ dash @ '' '' @ the (ap_description (ps_profile p))) @
     '' ['' @ show_nat (ps_chatCount p) @ '' chats, '' @ show_nat (ps_semanticMemoryCount p) @ '' memories]''"

definition profileList :: "('v, ChannelCommandResult) db_op" where
  "profileList =
     bindD (queryD listProfiles) (\<lambda>profiles.
     retD (ok (if profiles = [] then ''No profiles configured.'' else unlines (''Profiles:'' # map profileLine profiles))))"

definition profileShow :: "string \<Rightarrow> ('v, ChannelCommandResult) db_op" where
  "profileShow chatId =
     bindD (queryD (getChatProfile chatId)) (\<lambda>profile.
     retD (ok (case profile of
        None \<Rightarrow> ''No profile assigned to this chat.''
      | Some p \<Rightarrow> unlines ([''Current profile: '' @ ap_name p] @
          (if blank (ap_description p) then [] else [''Description: '' @ the (ap_description p)]) @
          (if ap_is_default p then [''(This is the default profile)''] else [])))))"

definition profileSwitch :: "time \<Rightarrow> string \<Rightarrow> string \<Rightarrow> ('v, ChannelCommandResult) db_op" where
  "profileSwitch now name chatId =
     bindD (queryD (getProfileByName name)) (\<lambda>profile.
     case profile of
       None \<Rightarrow> retD (ok (''Profile '' @ quote name @ '' not found. Use /profile list to see available profiles.''))
     | Some p \<Rightarrow> (\<lambda>db. case assignChat now chatId (ap_id p) db of
           (Inr _, db1) \<Rightarrow> (Inr (ok (''Switched to profile '' @ quote name @ ''.'')), db1)
         | (Inl e, db1) \<Rightarrow> (Inr (ok (''Failed to switch profile: '' @ db_message e)), db1)))"

definition handleProfile :: "time \<Rightarrow> string list \<Rightarrow> string \<Rightarrow> ('v, ChannelCommandResult) db_op" where
  "handleProfile now args chatId =
     (let sub = argAt 0 args in
      if blank sub \<or> sub = Some ''list'' then profileList
      else if sub = Some ''show'' then profileShow chatId
      else if sub = Some ''switch'' then
        (let name = trim (join_with '' '' (drop 1 args)) in
         if name = [] then retD (ok ''Usage: /profile switch <name>'') else profileSwitch now name chatId)
      else retD (ok (unlines [''Usage:'', ''/profile list'', ''/profile show'', ''/profile switch <name>''])))"

section \<open>Help\<close>

definition HELP_GENERAL :: string where
  "HELP_GENERAL = unlines [
     ''Available commands:'',
     [],
     ''/identity show '' @ dash @ '' View agent and user identity'',
     ''/identity set agent <field>=<value> '' @ dash @ '' Set agent identity fields'',
     ''/identity set user <field>=<value> '' @ dash @ '' Set user identity fields'',
     [],
     ''/personality show '' @ dash @ '' View agent and user personality'',
     ''/personality set agent <dim>=<content> '' @ dash @ '' Set agent personality dimension'',
     ''/personality set user <dim>=<content> '' @ dash @ '' Set user personality dimension'',
     ''/personality reset agent <dim> '' @ dash @ '' Reset agent personality dimension'',
     ''/personality reset user <dim> '' @ dash @ '' Reset user personality dimension'',
     [],
     ''/profile list '' @ dash @ '' List all profiles'',
     ''/profile show '' @ dash @ '' Show current profile'',
     ''/profile switch <name> '' @ dash @ '' Switch to a different profile'',
     [],
     ''/help [identity|personality|profile] '' @ dash @ '' Show detailed help'']"

definition HELP_IDENTITY :: string where
  "HELP_IDENTITY = unlines [
     ''Identity commands:'',
     [],
     ''/identity show'',
     ''  View both agent and user identity.'',
     [],
     ''/identity set agent role=Executive assistant'',
     ''/identity set agent tone=Professional but warm'',
     ''/identity set agent expertise=email, calendar, scheduling'',
     ''/identity set agent instructions=Always draft emails first'',
     ''  Set agent identity fields. Multiple: /identity set agent role=Dev, tone=Direct'',
     [],
     ''/identity set user name=Stan Tyan'',
     ''/identity set user role=CTO'',
     ''/identity set user org=Acme Corp'',
     ''/identity set user timezone=Europe/Helsinki'',
     ''/identity set user language=en'',
     ''  Set user identity fields. Multiple: /identity set user name=Stan, role=CTO'']"

definition HELP_PERSONALITY :: string where
  "HELP_PERSONALITY = unlines [
     ''Personality commands:'',
     [],
     ''/personality show'',
     ''  View all agent and user personality dimensions.'',
     [],
     ''Agent personality dimensions: '' @ agentDims,
     ''User personality dimensions: '' @ userDims,
     [],
     ''/personality set agent communication_style=Concise, uses bullet points'',
     ''/personality set agent humor=Dry humor OK. No puns.'',
     ''  Set agent personality dimensions.'',
     [],
     ''/personality set user work_patterns=Active 9am-6pm'',
     ''/personality set user communication_style=Short and direct'',
     ''  Declare your personality dimensions.'',
     [],
     ''/personality reset agent humor'',
     ''/personality reset user decision_making'',
     ''  Reset a dimension (let the agent re-infer it from conversations).'']"

definition HELP_PROFILE :: string where
  "HELP_PROFILE = unlines [
     ''Profile commands:'',
     [],
     ''/profile list'',
     ''  List all profiles with stats.'',
     [],
     ''/profile show'',
     ''  Show the current chat'' @ [CHR 0x27] @ ''s profile.'',
     [],
     ''/profile switch work-assistant'',
     ''  Switch this chat to a different profile.'']"

definition handleHelp :: "string list \<Rightarrow> ChannelCommandResult" where
  "handleHelp args =
     (let topic = argAt 0 args in
      if topic = Some ''identity'' then ok HELP_IDENTITY
      else if topic = Some ''personality'' then ok HELP_PERSONALITY
      else if topic = Some ''profile'' then ok HELP_PROFILE
      else ok HELP_GENERAL)"

section \<open>The handler\<close>

definition handle :: "time \<Rightarrow> string \<Rightarrow> string \<Rightarrow> ('v, ChannelCommandResult) db_op" where
  "handle now text chatId =
     (let trimmed = trim text in
      if \<not> startsWith trimmed ''/'' then retD notHandled
      else
        let tokens = tokenize trimmed; command = argAt 0 tokens in
        if command = Some ''/identity'' then handleIdentity now (drop 1 tokens) chatId
        else if command = Some ''/personality'' then handlePersonality now (drop 1 tokens) chatId
        else if command = Some ''/profile'' then handleProfile now (drop 1 tokens) chatId
        else if command = Some ''/help'' then retD (handleHelp (drop 1 tokens))
        else retD notHandled)"

section \<open>Words\<close>

text \<open>A text whose words stand one space apart.\<close>

definition single_spaced :: "string \<Rightarrow> bool" where
  "single_spaced s \<longleftrightarrow> s = [] \<or>
     (\<not> is_space (hd s) \<and> \<not> is_space (last s) \<and> successively (\<lambda>a b. \<not> (is_space a \<and> is_space b)) s \<and> list_all (\<lambda>c. is_space c \<longrightarrow> c = CHR '' '') s)"

lemma single_spaced_append:
  "single_spaced a \<Longrightarrow> single_spaced b \<Longrightarrow> single_spaced (a @ b)"
  by (cases "a = []"; cases "b = []") (auto simp: single_spaced_def successively_append_iff)

lemma space_space [simp]: "is_space (CHR '' '')"
  by (simp add: is_space_def)

lemma single_spaced_space: "single_spaced a \<Longrightarrow> single_spaced b \<Longrightarrow> a \<noteq> [] \<Longrightarrow> b \<noteq> [] \<Longrightarrow> single_spaced (a @ CHR '' '' # b)"
  by (auto simp: single_spaced_def successively_append_iff successively_Cons)

lemma word_spaced: "list_all (\<lambda>c. \<not> is_space c) w \<Longrightarrow> single_spaced w"
proof -
  assume w: "list_all (\<lambda>c. \<not> is_space c) w"
  then have "successively (\<lambda>a b. \<not> (is_space a \<and> is_space b)) w"
    by (induction w rule: induct_list012) auto
  then show "single_spaced w" using w by (cases w) (auto simp: single_spaced_def list_all_iff)
qed

lemma tokenize_space: "is_space c \<Longrightarrow> tokenize (c # s) = tokenize s"
  by (subst (1 2) tokenize.simps) simp

lemma tokenize_drop: "tokenize (dropWhile is_space s) = tokenize s"
  by (induction s) (auto simp: tokenize_space)

lemma tokenize_word:
  assumes "w \<noteq> []" "list_all (\<lambda>c. \<not> is_space c) w"
  shows "tokenize (w @ CHR '' '' # s) = w # tokenize s" "tokenize w = [w]"
proof -
  have w: "dropWhile is_space (w @ r) = w @ r" "takeWhile (\<lambda>c. \<not> is_space c) (w @ CHR '' '' # s) = w" "takeWhile (\<lambda>c. \<not> is_space c) w = w"
    "dropWhile (\<lambda>c. \<not> is_space c) (w @ CHR '' '' # s) = CHR '' '' # s" "dropWhile (\<lambda>c. \<not> is_space c) w = []" for r
    using assms by (cases w; auto simp: list_all_iff takeWhile_append2 dropWhile_append2)+
  show "tokenize (w @ CHR '' '' # s) = w # tokenize s"
    using assms(1) by (subst tokenize.simps) (simp add: w tokenize_space Let_def)
  show "tokenize w = [w]"
    using assms(1) w(1) [of "[]"] by (subst tokenize.simps) (simp add: w Let_def tokenize.simps [of "[]"])
qed

lemma tokenize_join: "single_spaced s \<Longrightarrow> join_with '' '' (tokenize s) = s"
proof (induction s rule: measure_induct_rule [where f = length])
  case (less s)
  show ?case
  proof (cases "s = []")
    case False
    let ?w = "takeWhile (\<lambda>c. \<not> is_space c) s" and ?r = "dropWhile (\<lambda>c. \<not> is_space c) s"
    have s: "\<not> is_space (hd s)" "\<not> is_space (last s)" "successively (\<lambda>a b. \<not> (is_space a \<and> is_space b)) s" "list_all (\<lambda>c. is_space c \<longrightarrow> c = CHR '' '') s"
      using less.prems False by (simp_all add: single_spaced_def)
    have w: "?w \<noteq> []" "list_all (\<lambda>c. \<not> is_space c) ?w" using False s(1) by (cases s; auto simp: list_all_iff dest: set_takeWhileD)+
    have split: "s = ?w @ ?r" by simp
    show ?thesis
    proof (cases ?r)
      case Nil
      then have e: "?w = s" using split by (metis append_Nil2)
      have "tokenize s = [s]" using tokenize_word(2) [OF w] unfolding e .
      then show ?thesis by simp
    next
      case (Cons c r)
      have "is_space c" using hd_dropWhile [of "\<lambda>c. \<not> is_space c" s] Cons by simp
      moreover have sc: "s = ?w @ c # r" using split unfolding Cons .
      then have "c \<in> set s" by (metis in_set_conv_decomp)
      ultimately have c: "c = CHR '' ''" using s(4) by (simp add: list_all_iff)
      define u where "u = ?w"
      have su: "s = u @ CHR '' '' # r" using sc unfolding c u_def .
      have u: "u \<noteq> []" "list_all (\<lambda>c. \<not> is_space c) u" unfolding u_def by (rule w)+
      have "r \<noteq> []" using s(2) unfolding su by auto
      moreover have "successively (\<lambda>a b. \<not> (is_space a \<and> is_space b)) (CHR '' '' # r)"
        using s(3) unfolding su by (metis successively_append_iff)
      ultimately have "single_spaced r" using s(2,4) unfolding su by (auto simp: single_spaced_def successively_Cons)
      moreover have "length r < length s" unfolding su by simp
      ultimately have IH: "join_with '' '' (tokenize r) = r" by (rule less.IH [rotated])
      have "tokenize s = u # tokenize r" unfolding su by (rule tokenize_word(1) [OF u])
      moreover have "tokenize r \<noteq> []" using IH \<open>r \<noteq> []\<close> by auto
      ultimately have "join_with '' '' (tokenize s) = u @ '' '' @ r" using IH by (cases "tokenize r") simp_all
      then show ?thesis unfolding su by simp
    qed
  qed (simp add: tokenize.simps)
qed

lemma trim_spaced: "single_spaced s \<Longrightarrow> trim s = s"
proof -
  assume s: "single_spaced s"
  then have a: "dropWhile is_space s = s" by (auto simp: single_spaced_def dropWhile_eq_self_iff)
  have b: "dropWhile is_space (rev s) = rev s" using s by (auto simp: single_spaced_def dropWhile_eq_self_iff hd_rev)
  show "trim s = s" unfolding trim_def a b by simp
qed

lemma tokenize_spaces: "list_all is_space w \<Longrightarrow> tokenize (s @ w) = tokenize s"
proof (induction s rule: measure_induct_rule [where f = length])
  case (less s)
  let ?t = "dropWhile is_space s"
  show ?case
  proof (cases "?t = []")
    case True
    then have "list_all is_space (s @ w)" using less.prems by (auto simp: list_all_iff)
    then have "dropWhile is_space (s @ w) = []" by (auto simp: list_all_iff)
    then show ?thesis using True by (subst (1 2) tokenize.simps) simp
  next
    case False
    let ?r = "dropWhile (\<lambda>c. \<not> is_space c) ?t"
    have t: "dropWhile is_space (s @ w) = ?t @ w" using False by (auto simp: dropWhile_append1)
    have hd: "\<not> is_space (hd ?t)" using False by (simp add: hd_dropWhile)
    have "length ?r < length ?t" using False hd length_dropWhile_le [of "\<lambda>c. \<not> is_space c" "tl ?t"] by (cases ?t) (auto simp: less_Suc_eq_le)
    also have "\<dots> \<le> length s" by (rule length_dropWhile_le)
    finally have IH: "tokenize (?r @ w) = tokenize ?r" by (rule less.IH) (rule less.prems)
    have "takeWhile (\<lambda>c. \<not> is_space c) (?t @ w) = takeWhile (\<lambda>c. \<not> is_space c) ?t \<and> tokenize (dropWhile (\<lambda>c. \<not> is_space c) (?t @ w)) = tokenize ?r"
    proof (cases "?r = []")
      case True
      then have all: "\<And>x. x \<in> set ?t \<Longrightarrow> \<not> is_space x" by (simp add: dropWhile_eq_Nil_conv)
      have "takeWhile (\<lambda>c. \<not> is_space c) w = []" "dropWhile (\<lambda>c. \<not> is_space c) w = w" using less.prems by (cases w; simp)+
      then have e: "takeWhile (\<lambda>c. \<not> is_space c) (?t @ w) = ?t" "dropWhile (\<lambda>c. \<not> is_space c) (?t @ w) = w" "takeWhile (\<lambda>c. \<not> is_space c) ?t = ?t"
        using all takeWhile_append2 [of ?t "\<lambda>c. \<not> is_space c" w] dropWhile_append2 [of ?t "\<lambda>c. \<not> is_space c" w]
        by (simp_all add: takeWhile_eq_all_conv)
      show ?thesis using IH unfolding e True by simp
    next
      case False
      then obtain x where "x \<in> set ?t" "is_space x" by (auto simp: dropWhile_eq_Nil_conv)
      then show ?thesis using IH by (simp add: takeWhile_append1 dropWhile_append1)
    qed
    then show ?thesis using False t by (subst (1 2) tokenize.simps) (simp add: Let_def)
  qed
qed

lemma trim_append: "\<exists>w. list_all is_space w \<and> dropWhile is_space s = trim s @ w"
proof -
  let ?t = "dropWhile is_space s"
  have "rev ?t = takeWhile is_space (rev ?t) @ dropWhile is_space (rev ?t)" by simp
  then have "?t = trim s @ rev (takeWhile is_space (rev ?t))" unfolding trim_def by (metis rev_append rev_rev_ident)
  moreover have "list_all is_space (rev (takeWhile is_space (rev ?t)))" by (auto simp: list_all_iff dest: set_takeWhileD)
  ultimately show ?thesis by blast
qed

lemma tokenize_trim: "tokenize (trim s) = tokenize s"
  using trim_append [of s] tokenize_spaces [of _ "trim s"] tokenize_drop [of s] by metis

lemma trim_starts: "startsWith (trim s) ''/'' \<longleftrightarrow> (\<exists>w ws. tokenize s = (CHR ''/'' # w) # ws)"
proof -
  have hd: "trim s = [] \<or> \<not> is_space (hd (trim s))"
    using trim_append [of s] hd_dropWhile [of is_space s] by (metis hd_append2 append_is_Nil_conv)
  show ?thesis
  proof (cases "trim s")
    case Nil
    then have "tokenize s = []" using tokenize_trim [of s] by (simp add: tokenize.simps [of "[]"])
    then show ?thesis using Nil by (simp add: startsWith_def)
  next
    case (Cons c r)
    then have "tokenize s = (c # takeWhile (\<lambda>c. \<not> is_space c) r) # tokenize (dropWhile (\<lambda>c. \<not> is_space c) r)"
      using tokenize_trim [of s] hd by (subst (asm) (1) tokenize.simps) simp
    then show ?thesis using Cons by (auto simp: startsWith_def)
  qed
qed

section \<open>Pairs\<close>

text \<open>Keys that come back as they are, and values that the pattern takes as a whole.\<close>

definition cleanKey :: "string \<Rightarrow> bool" where
  "cleanKey k \<longleftrightarrow> k \<noteq> [] \<and> list_all is_word k \<and> toLowerCase k = k \<and> k \<noteq> ''__proto__''"

definition cleanValue :: "string \<Rightarrow> bool" where
  "cleanValue v \<longleftrightarrow> v \<noteq> [] \<and> single_spaced v \<and> last v \<noteq> CHR '','' \<and> list_all (\<lambda>u. \<not> separator u) (suffixes v)"

definition pairText :: "(string \<times> string) list \<Rightarrow> string" where
  "pairText fs = join_with '', '' (map (\<lambda>(k, v). k @ ''='' @ v) fs)"

lemma word_not_space: "is_word c \<Longrightarrow> \<not> is_space c"
  by (auto simp: is_word_def is_space_def Let_def)

lemma word_chars [simp]: "\<not> is_word (CHR '','')" "\<not> is_word (CHR '' '')" "\<not> is_word (CHR ''='')"
  by (simp_all add: is_word_def)

lemma key_at_key:
  assumes "k \<noteq> []" "list_all is_word k"
  shows "key_at (k @ CHR ''='' # x) = Some (k, x)"
proof -
  have "takeWhile is_word (k @ CHR ''='' # x) = k" "dropWhile is_word (k @ CHR ''='' # x) = CHR ''='' # x"
    using assms(2) by (simp_all add: list_all_iff takeWhile_append2 dropWhile_append2)
  then show ?thesis using assms(1) by (simp add: key_at_def)
qed

lemma key_at_other: "\<not> is_word c \<Longrightarrow> key_at (c # s) = None"
  by (simp add: key_at_def)

lemma key_at_comma: "key_at (d @ CHR '','' # t) \<noteq> None \<longleftrightarrow> key_at d \<noteq> None"
proof (cases "list_all is_word d")
  case True
  then have d: "takeWhile is_word (d @ CHR '','' # t) = d" "dropWhile is_word (d @ CHR '','' # t) = CHR '','' # t" "dropWhile is_word d = []"
    by (simp_all add: list_all_iff takeWhile_append2 dropWhile_append2)
  show ?thesis unfolding key_at_def d Let_def by simp
next
  case False
  then obtain x where "x \<in> set d" "\<not> is_word x" by (auto simp: list_all_iff)
  then have d: "takeWhile is_word (d @ CHR '','' # t) = takeWhile is_word d" "dropWhile is_word (d @ CHR '','' # t) = dropWhile is_word d @ CHR '','' # t" "dropWhile is_word d \<noteq> []"
    by (auto simp: takeWhile_append1 dropWhile_append1)
  then show ?thesis by (cases "dropWhile is_word d") (auto simp: key_at_def Let_def)
qed

lemma separator_comma: "u \<noteq> [] \<Longrightarrow> separator (u @ CHR '','' # t) \<longleftrightarrow> separator u"
proof (cases u)
  case (Cons c r)
  show ?thesis
  proof (cases "dropWhile is_space r = []")
    case True
    then have e: "dropWhile is_space (r @ CHR '','' # t) = CHR '','' # t" by (simp add: dropWhile_append is_space_def)
    have n: "key_at [] = None" by (simp add: key_at_def)
    show ?thesis unfolding Cons separator_def append_Cons list.case e True n by (simp add: key_at_other)
  next
    case False
    then have "dropWhile is_space (r @ CHR '','' # t) = dropWhile is_space r @ CHR '','' # t" by (auto simp: dropWhile_append1)
    then show ?thesis using Cons key_at_comma by (simp add: separator_def)
  qed
qed simp

lemma lazyValue_clean:
  assumes "list_all (\<lambda>u. \<not> separator u) (suffixes v)" "rest = [] \<or> (\<exists>t. rest = CHR '','' # t \<and> separator rest)"
  shows "lazyValue (v @ rest) = (v, rest)"
  using assms(1)
proof (induction v)
  case Nil
  show ?case using assms(2) by (cases rest) auto
next
  case (Cons c v)
  have "list_all (\<lambda>u. \<not> separator u) (suffixes v)" "\<not> separator (c # v)" using Cons.prems by (simp_all add: list_all_iff)
  moreover from this have "\<not> separator ((c # v) @ rest)" using assms(2) separator_comma [of "c # v"] by auto
  ultimately show ?case using Cons.IH by simp
qed

lemma separator_key:
  assumes "cleanKey k"
  shows "separator (CHR '','' # CHR '' '' # k @ CHR ''='' # x)"
proof -
  have k: "k \<noteq> []" "list_all is_word k" using assms by (simp_all add: cleanKey_def)
  then have "dropWhile is_space (CHR '' '' # k @ CHR ''='' # x) = k @ CHR ''='' # x"
    using word_not_space by (cases k) auto
  then show ?thesis using key_at_key [OF k] by (simp add: separator_def)
qed

lemma matchPairs_key:
  assumes "cleanKey k" "lazyValue x = (v, rest)"
  shows "matchPairs (k @ CHR ''='' # x) = (k, v) # matchPairs rest"
proof -
  have k: "k \<noteq> []" "list_all is_word k" using assms(1) by (simp_all add: cleanKey_def)
  obtain c s where s: "k @ CHR ''='' # x = c # s" by (cases k) auto
  then have "key_at (c # s) = Some (k, x)" using key_at_key [OF k, of x] by simp
  then show ?thesis unfolding s using assms(2) by simp
qed

lemma pairs_match:
  assumes "\<forall>(k, v) \<in> set fs. cleanKey k \<and> cleanValue v"
  shows "matchPairs (pairText fs) = fs"
  using assms
proof (induction fs)
  case Nil
  then show ?case by (simp add: pairText_def)
next
  case (Cons f fs)
  obtain k v where f: "f = (k, v)" by force
  have c: "cleanKey k" "list_all (\<lambda>u. \<not> separator u) (suffixes v)" using Cons.prems f by (simp_all add: cleanValue_def)
  show ?case
  proof (cases fs)
    case Nil
    have "lazyValue v = (v, [])" using lazyValue_clean [OF c(2), of "[]"] by simp
    then show ?thesis using matchPairs_key [OF c(1)] Nil f by (simp add: pairText_def)
  next
    case (Cons g gs)
    let ?rest = "CHR '','' # CHR '' '' # pairText fs"
    obtain k' v' where g: "g = (k', v')" by force
    have "\<exists>x. pairText fs = k' @ CHR ''='' # x" using Cons g by (cases gs) (auto simp: pairText_def)
    then have "separator ?rest" using separator_key [of k'] Cons.prems Cons g by auto
    then have "lazyValue (v @ ?rest) = (v, ?rest)" by (intro lazyValue_clean [OF c(2)]) blast
    then have "matchPairs (k @ CHR ''='' # v @ ?rest) = (k, v) # matchPairs ?rest" by (rule matchPairs_key [OF c(1)])
    moreover have "matchPairs ?rest = matchPairs (pairText fs)" by (simp add: key_at_other)
    moreover have "pairText (f # fs) = k @ CHR ''='' # v @ ?rest" using Cons f by (simp add: pairText_def)
    ultimately show ?thesis using Cons.IH Cons.prems f by simp
  qed
qed

lemma clean_spaced:
  assumes "cleanKey k" "cleanValue v"
  shows "single_spaced (k @ ''='' @ v)"
proof -
  have "list_all (\<lambda>c. \<not> is_space c) (k @ ''='')" using assms(1) word_not_space by (auto simp: cleanKey_def list_all_iff is_space_def)
  then have "single_spaced (k @ ''='')" by (rule word_spaced)
  moreover have "single_spaced v" using assms(2) by (simp add: cleanValue_def)
  ultimately have "single_spaced ((k @ ''='') @ v)" by (rule single_spaced_append)
  then show ?thesis by simp
qed

lemma pairText_spaced: "\<forall>(k, v) \<in> set fs. cleanKey k \<and> cleanValue v \<Longrightarrow> single_spaced (pairText fs) \<and> (fs \<noteq> [] \<longrightarrow> pairText fs \<noteq> [])"
proof (induction fs)
  case Nil
  then show ?case by (simp add: pairText_def single_spaced_def)
next
  case (Cons f fs)
  obtain k v where f: "f = (k, v)" by force
  have kv: "single_spaced (k @ ''='' @ v)" using Cons.prems f clean_spaced by simp
  show ?case
  proof (cases fs)
    case Nil
    then show ?thesis using f kv by (simp add: pairText_def)
  next
    case (Cons g gs)
    have "single_spaced '',''" by (simp add: single_spaced_def is_space_def)
    then have "single_spaced ((k @ ''='' @ v) @ '','')" by (intro single_spaced_append kv)
    moreover have "single_spaced (pairText fs)" "pairText fs \<noteq> []" using Cons.IH Cons.prems Cons by simp_all
    ultimately have "single_spaced (((k @ ''='' @ v) @ '','') @ CHR '' '' # pairText fs)" by (intro single_spaced_space) simp_all
    moreover have "pairText (f # fs) = ((k @ ''='' @ v) @ '','') @ CHR '' '' # pairText fs" using Cons f by (simp add: pairText_def)
    ultimately show ?thesis by simp
  qed
qed

lemma setField_clean: "cleanKey k \<Longrightarrow> cleanValue v \<Longrightarrow> js_get m k = None \<Longrightarrow> setField m (k, v) = m @ [(k, v)]"
  by (simp add: setField_def cleanKey_def cleanValue_def trim_spaced js_set_absent)

lemma fields_clean:
  assumes "\<forall>(k, v) \<in> set fs. cleanKey k \<and> cleanValue v" "distinct (map fst (m @ fs))"
  shows "fold (\<lambda>p m. setField m p) fs m = m @ fs"
  using assms
proof (induction fs arbitrary: m)
  case (Cons f fs)
  obtain k v where f: "f = (k, v)" by force
  have "js_get m k = None" using Cons.prems(2) f by (auto simp: map_of_eq_None_iff)
  then have "setField m f = m @ [f]" using Cons.prems(1) f setField_clean by simp
  then show ?case using Cons.IH [of "m @ [f]"] Cons.prems by simp
qed simp

lemma pairs_roundtrip_fields:
  assumes "\<forall>(k, v) \<in> set fs. cleanKey k \<and> cleanValue v" "distinct (map fst fs)"
  shows "parseKeyValuePairs (tokenize (pairText fs)) = fs"
proof -
  have s: "single_spaced (pairText fs)" "fs \<noteq> [] \<longrightarrow> pairText fs \<noteq> []" using pairText_spaced [OF assms(1)] by simp_all
  then have "trim (join_with '' '' (tokenize (pairText fs))) = pairText fs" using tokenize_join trim_spaced by simp
  then show ?thesis using s(2) fields_clean [OF assms(1), of "[]"] pairs_match [OF assms(1)] assms(2)
    by (cases "fs = []") (simp_all add: parseKeyValuePairs_def Let_def pairText_def)
qed



section \<open>What the text decides\<close>

lemma argAt_drop: "argAt i (drop k args) = argAt (k + i) args"
  by (auto simp: argAt_def)

text \<open>The command of a text and what follows it.\<close>

lemma handle_words:
  "handle now text chatId =
     (let tokens = tokenize text; command = argAt 0 tokens in
      if \<not> (\<exists>w ws. tokens = (CHR ''/'' # w) # ws) then retD notHandled
      else if command = Some ''/identity'' then handleIdentity now (drop 1 tokens) chatId
      else if command = Some ''/personality'' then handlePersonality now (drop 1 tokens) chatId
      else if command = Some ''/profile'' then handleProfile now (drop 1 tokens) chatId
      else if command = Some ''/help'' then retD (handleHelp (drop 1 tokens))
      else retD notHandled)"
  unfolding handle_def Let_def tokenize_trim trim_starts ..

text \<open>
  A text is read as its words only: however they are spaced, the command does the same and is answered the same. So the line
  breaks and the spacing within a value, the instructions of an agent for example, are lost.
\<close>

theorem spacing_is_lost:
  assumes "tokenize text = tokenize text'"
  shows "handle now text chatId db = handle now text' chatId db"
  unfolding handle_words assms ..

theorem spacing_is_lost_witness:
  "handle 1 (''/identity set agent instructions=first'' @ [CHR 0x0A] @ ''  second'') ''c'' example_memories =
   handle 1 ''/identity set agent instructions=first second'' ''c'' example_memories"
  by (rule spacing_is_lost) code_simp

lemma slash_command:
  assumes "toLowerCase w = CHR ''/'' # c"
  shows "\<exists>v. w = CHR ''/'' # v"
proof (cases w)
  case (Cons a v)
  have "lower_char a = CHR ''/''" using assms Cons by (simp add: toLowerCase_def)
  moreover have "lower_char a \<noteq> CHR ''/''" if "a \<noteq> CHR ''/''"
  proof -
    have "of_char (lower_char a) = (of_char a :: nat) \<or> 97 \<le> (of_char (lower_char a) :: nat)"
    proof (cases "65 \<le> (of_char a :: nat) \<and> (of_char a :: nat) \<le> 90")
      case True
      then have "(of_char (char_of (of_char a + 32 :: nat)) :: nat) = of_char a + 32" by simp
      then show ?thesis using True by (simp add: lower_char_def Let_def)
    qed (simp add: lower_char_def Let_def)
    moreover have "lower_char a = a" if "of_char (lower_char a) = (of_char a :: nat)" using that by simp
    ultimately show ?thesis using that by auto
  qed
  ultimately show ?thesis using Cons by blast
qed (use assms in \<open>simp add: toLowerCase_def\<close>)

section \<open>Operations within a profile\<close>

text \<open>The constraints of the schema, what belongs to other profiles, and the other chats.\<close>

definition kept :: "string option \<Rightarrow> string \<Rightarrow> 'v Db \<Rightarrow> 'v Db \<Rightarrow> bool" where
  "kept po chatId D db \<longleftrightarrow> db_ok db \<and> others po D db \<and> (\<forall>c. ch_id c \<noteq> chatId \<longrightarrow> (c \<in> set (db_chats db) \<longleftrightarrow> c \<in> set (db_chats D)))"

lemma kept_refl: "db_ok db \<Longrightarrow> kept po c db db"
  by (simp add: kept_def)

lemma personality_ok:
  "db_ok db \<Longrightarrow> distinct (map (\<lambda>p. (pp_profile_id p, pp_dimension p)) ps) \<Longrightarrow> pp_profile_id ` set ps \<subseteq> profile_ids db \<Longrightarrow>
   db_ok (db\<lparr>db_personality := ps\<rparr>)"
  by (rule db_ok_cong) (auto simp: db_ok_def ids_distinct_def joins_ok_def semantic_ids_def meta_ids_def message_keys_def profile_refs_def)

lemma identity_ok:
  "db_ok db \<Longrightarrow> distinct (map ai_profile_id rs) \<Longrightarrow> ai_profile_id ` set rs \<subseteq> profile_ids db \<Longrightarrow> db_ok (db\<lparr>db_identity := rs\<rparr>)"
  by (rule db_ok_cong) (auto simp: db_ok_def ids_distinct_def joins_ok_def semantic_ids_def meta_ids_def message_keys_def profile_refs_def)

lemma user_identity_ok: "db_ok db \<Longrightarrow> db_ok (db\<lparr>db_user_identity := us\<rparr>)"
  by (rule db_ok_cong) (simp_all add: db_ok_def ids_distinct_def joins_ok_def semantic_ids_def meta_ids_def message_keys_def profile_refs_def)

lemma user_personality_ok: "db_ok db \<Longrightarrow> distinct (map up_dimension ps) \<Longrightarrow> db_ok (db\<lparr>db_user_personality := ps\<rparr>)"
  by (rule db_ok_cong) (simp_all add: db_ok_def ids_distinct_def joins_ok_def semantic_ids_def meta_ids_def message_keys_def profile_refs_def)

lemma db_ok_parts:
  assumes "db_ok db"
  shows "distinct (map (\<lambda>p. (pp_profile_id p, pp_dimension p)) (db_personality db))" "pp_profile_id ` set (db_personality db) \<subseteq> profile_ids db"
    "distinct (map ai_profile_id (db_identity db))" "ai_profile_id ` set (db_identity db) \<subseteq> profile_ids db"
    "distinct (map up_dimension (db_user_personality db))"
  using assms by (auto simp: db_ok_def ids_distinct_def profile_refs_def)

text \<open>An operation that keeps the three and does not fail.\<close>

abbreviation safe :: "string option \<Rightarrow> string \<Rightarrow> 'v Db \<Rightarrow> ('v, 'a) db_op \<Rightarrow> bool" where
  "safe po chatId D m \<equiv> hoareD (kept po chatId D) m (\<lambda>_. kept po chatId D) (\<lambda>_. False)"

lemma safe_same_chats:
  assumes "keepsOthers po m" "\<And>db. db_ok db \<Longrightarrow> \<exists>x. fst (m db) = Inr x" "\<And>db. db_ok db \<Longrightarrow> db_ok (snd (m db))"
    "\<And>db. db_chats (snd (m db)) = db_chats db"
  shows "safe po chatId D m"
proof (rule hoareDI)
  fix db assume k: "kept po chatId D db"
  then obtain x where x: "fst (m db) = Inr x" using assms(2) unfolding kept_def by blast
  have "kept po chatId D (snd (m db))" using k assms(1,3,4) unfolding kept_def keepsOthers_def by simp
  then show "case m db of (Inr x, db1) \<Rightarrow> kept po chatId D db1 | (Inl e, db1) \<Rightarrow> False"
    using x by (cases "m db") simp
qed

lemma distinct_map_keys: "map k ys = map k xs \<Longrightarrow> distinct (map k xs) \<Longrightarrow> distinct (map k ys)"
  by simp

lemma safe_observe_user: "safe po chatId D (observeUserPersonality now d x src)"
proof (rule safe_same_chats)
  fix db :: "'a Db" assume ok: "db_ok db"
  have "distinct (map up_dimension (map (\<lambda>x. if up_dimension x = d then f x else x) (db_user_personality db)))"
    if "\<And>x. up_dimension (f x) = up_dimension x" for f
    by (rule distinct_map_keys [OF _ db_ok_parts(5) [OF ok]]) (use that in simp)
  then show "db_ok (snd (observeUserPersonality now d x src db))"
    using ok db_ok_parts(5) [OF ok]
    by (auto simp: observeUserPersonality_def Let_def find_None_iff split: option.split intro!: user_personality_ok simp del: map_map)
qed (auto simp: observeUserPersonality_def Let_def split: option.split)

lemma safe_delete_user: "safe po chatId D (deleteUserPersonality d)"
proof (rule safe_same_chats)
  show "keepsOthers po (deleteUserPersonality d)" unfolding keepsOthers_def others_def by (auto simp: deleteUserPersonality_def view_same)
  show "db_ok (snd (deleteUserPersonality d db))" if "db_ok db" for db :: "'a Db"
    using that db_ok_parts(5) [OF that] distinct_map_filter by (auto simp: deleteUserPersonality_def intro!: user_personality_ok)
qed (auto simp: deleteUserPersonality_def)

lemma safe_update_user: "safe po chatId D (updateUserIdentity now f)"
  by (rule safe_same_chats) (auto simp: updateUserIdentity_def Let_def split: list.split intro: user_identity_ok)

text \<open>The operations on the profile itself, which has to be there.\<close>

lemma safe_in_profile:
  assumes "keepsOthers (Some p) m" "p \<in> profile_ids D" "\<And>db. db_ok db \<Longrightarrow> p \<in> profile_ids db \<Longrightarrow> \<exists>x. fst (m db) = Inr x"
    "\<And>db. db_ok db \<Longrightarrow> p \<in> profile_ids db \<Longrightarrow> db_ok (snd (m db))" "\<And>db. db_chats (snd (m db)) = db_chats db"
  shows "safe (Some p) chatId D m"
proof (rule hoareDI)
  fix db assume k: "kept (Some p) chatId D db"
  then have p: "p \<in> profile_ids db" using assms(2) by (simp add: kept_def others_def profile_ids_def)
  then obtain x where x: "fst (m db) = Inr x" using assms(3) k unfolding kept_def by blast
  have "kept (Some p) chatId D (snd (m db))" using k p assms(1,4,5) unfolding kept_def keepsOthers_def by simp
  then show "case m db of (Inr x, db1) \<Rightarrow> kept (Some p) chatId D db1 | (Inl e, db1) \<Rightarrow> False"
    using x by (cases "m db") simp
qed

lemma safe_observe_agent:
  assumes "p \<in> profile_ids D"
  shows "safe (Some p) chatId D (observeAgentPersonality now p d x)"
proof (rule safe_in_profile [OF keepsOthers_observe assms])
  fix db :: "'a Db" assume ok: "db_ok db" and p: "p \<in> profile_ids db"
  let ?hit = "\<lambda>r. pp_profile_id r = p \<and> pp_dimension r = d"
  have m: "db_ok (db\<lparr>db_personality := map (\<lambda>x. if ?hit x then f x else x) (db_personality db)\<rparr>)"
    if "\<And>x. pp_profile_id (f x) = pp_profile_id x" "\<And>x. pp_dimension (f x) = pp_dimension x" for f
  proof (rule personality_ok [OF ok])
    show "distinct (map (\<lambda>p. (pp_profile_id p, pp_dimension p)) (map (\<lambda>x. if ?hit x then f x else x) (db_personality db)))"
      by (rule distinct_map_keys [OF _ db_ok_parts(1) [OF ok]]) (use that in simp)
    show "pp_profile_id ` set (map (\<lambda>x. if ?hit x then f x else x) (db_personality db)) \<subseteq> profile_ids db"
      using db_ok_parts(2) [OF ok] that by auto
  qed
  have a: "db_ok (db\<lparr>db_personality := db_personality db @ [r]\<rparr>)"
    if "pp_profile_id r = p" "pp_dimension r = d" "find ?hit (db_personality db) = None" for r
    by (rule personality_ok [OF ok]) (use that p db_ok_parts(1,2) [OF ok] in \<open>auto simp: find_None_iff\<close>)
  show "db_ok (snd (observeAgentPersonality now p d x db))"
    unfolding observeAgentPersonality_def Let_def using ok p m a by (auto split: option.split)
qed (auto simp: observeAgentPersonality_def Let_def split: option.split)

lemma safe_delete_agent:
  assumes "p \<in> profile_ids D"
  shows "safe (Some p) chatId D (deleteAgentPersonality p d)"
proof (rule safe_in_profile [OF _ assms])
  show "keepsOthers (Some p) (deleteAgentPersonality p d :: ('a, bool) db_op)"
    unfolding keepsOthers_def
  proof (intro allI impI)
    fix D' db :: "'a Db" assume o: "others (Some p) D' db"
    show "others (Some p) D' (snd (deleteAgentPersonality p d db))"
      by (rule othersI [OF o]) (auto simp: deleteAgentPersonality_def Let_def intro!: view_personality)
  qed
  fix db :: "'a Db" assume ok: "db_ok db"
  have "distinct (map (\<lambda>p. (pp_profile_id p, pp_dimension p)) (filter P (db_personality db)))" for P
    by (rule distinct_map_filter [OF db_ok_parts(1) [OF ok]])
  then show "db_ok (snd (deleteAgentPersonality p d db))"
    using ok db_ok_parts(2) [OF ok] by (auto simp: deleteAgentPersonality_def Let_def intro!: personality_ok)
qed (auto simp: deleteAgentPersonality_def Let_def)

lemma view_identity:
  "{r \<in> set rs. ai_profile_id r = q} = {r \<in> set (db_identity db). ai_profile_id r = q} \<Longrightarrow> view q (db\<lparr>db_identity := rs\<rparr>) = view q db"
  by (simp add: view_def semanticOf_def metaOf_def)

lemma safe_set_agent:
  assumes "p \<in> profile_ids D"
  shows "safe (Some p) chatId D (setAgentIdentity now p role expertise tone instructions)"
proof (rule safe_in_profile [OF _ assms])
  show "keepsOthers (Some p) (setAgentIdentity now p role expertise tone instructions :: ('a, AgentIdentity) db_op)"
    unfolding keepsOthers_def
  proof (intro allI impI)
    fix D' db :: "'a Db" assume o: "others (Some p) D' db"
    show "others (Some p) D' (snd (setAgentIdentity now p role expertise tone instructions db))"
      by (rule othersI [OF o]) (auto simp: setAgentIdentity_def Let_def split: option.split intro!: view_identity)
  qed
  fix db :: "'a Db" assume ok: "db_ok db" and p: "p \<in> profile_ids db"
  have m: "db_ok (db\<lparr>db_identity := map (\<lambda>x. if ai_profile_id x = p then f x else x) (db_identity db)\<rparr>)"
    if "\<And>x. ai_profile_id (f x) = ai_profile_id x" for f
  proof (rule identity_ok [OF ok])
    show "distinct (map ai_profile_id (map (\<lambda>x. if ai_profile_id x = p then f x else x) (db_identity db)))"
      by (rule distinct_map_keys [OF _ db_ok_parts(3) [OF ok]]) (use that in simp)
    show "ai_profile_id ` set (map (\<lambda>x. if ai_profile_id x = p then f x else x) (db_identity db)) \<subseteq> profile_ids db"
      using db_ok_parts(4) [OF ok] that by auto
  qed
  have a: "db_ok (db\<lparr>db_identity := db_identity db @ [r]\<rparr>)" if "ai_profile_id r = p" "identityRow p db = None" for r
    by (rule identity_ok [OF ok]) (use that p db_ok_parts(3,4) [OF ok] in \<open>auto simp: identityRow_def find_None_iff\<close>)
  show "db_ok (snd (setAgentIdentity now p role expertise tone instructions db))"
    unfolding setAgentIdentity_def Let_def using ok p m a by (auto split: option.split)
qed (auto simp: setAgentIdentity_def Let_def split: option.split)

section \<open>Every command is answered within its profile\<close>

definition answered :: "string \<Rightarrow> 'v Db \<Rightarrow> ('v, ChannelCommandResult) db_op \<Rightarrow> bool" where
  "answered chatId D m \<longleftrightarrow>
     hoareD (\<lambda>db. db = D) m (\<lambda>r db. kept (resolveProfileId chatId D) chatId D db \<and> cr_handled r \<and> cr_response r \<noteq> None) (\<lambda>_. False)"

lemma ok_fields [simp]: "cr_handled (ok t)" "cr_response (ok t) = Some t"
  by (simp_all add: ok_def)

lemma answered_ok: "db_ok D \<Longrightarrow> answered chatId D (retD (ok t))"
  unfolding answered_def by (rule hoareD_ret) (simp add: kept_refl)

lemma answered_query: "answered chatId D (f (q D)) \<Longrightarrow> answered chatId D (bindD (queryD q) f)"
  by (simp add: answered_def hoareD_def bindD_simps)

lemma answered_safe:
  assumes "db_ok D" "safe (resolveProfileId chatId D) chatId D m"
  shows "answered chatId D (bindD m (\<lambda>x. retD (ok (t x))))"
  unfolding answered_def
proof (rule hoareD_bind)
  show "hoareD (\<lambda>db. db = D) m (\<lambda>_. kept (resolveProfileId chatId D) chatId D) (\<lambda>_. False)"
    by (rule hoareD_weaken [OF assms(2)]) (use kept_refl [OF assms(1)] in auto)
qed (rule hoareD_ret, simp)

lemma safe_each: "(\<And>e. e \<in> set es \<Longrightarrow> safe po chatId D (f e)) \<Longrightarrow> safe po chatId D (eachEntry f es)"
proof (induction es)
  case Nil
  then show ?case by (simp add: hoareD_ret)
next
  case (Cons e es)
  have "safe po chatId D (eachEntry f es)" using Cons by simp
  then have rest: "safe po chatId D (bindD (eachEntry f es) (\<lambda>ls. retD (l # ls)))" for l by (rule hoareD_bind) (rule hoareD_ret)
  have "safe po chatId D (f e)" by (rule Cons.prems) simp
  from hoareD_bind [OF this rest] show ?case unfolding eachEntry.simps .
qed

lemma resolved_profile: "resolveProfileId chatId D = Some p \<Longrightarrow> p \<in> profile_ids D"
  unfolding resolveProfileId_def getChatProfile_def getProfile_def getDefaultProfile_def profile_ids_def
  by (auto split: option.splits bind_splits dest!: find_SomeD)

lemma answered_profile:
  assumes "db_ok D" "\<And>p. resolveProfileId chatId D = Some p \<Longrightarrow> p \<in> profile_ids D \<Longrightarrow> answered chatId D (f p)"
  shows "answered chatId D (bindD (queryD (resolveProfileId chatId)) (\<lambda>profileId. case profileId of None \<Rightarrow> retD (ok t) | Some p \<Rightarrow> f p))"
  using assms resolved_profile [of chatId D]
  by (intro answered_query) (auto intro: answered_ok split: option.split)

lemma answered_identity:
  assumes "db_ok D"
  shows "answered chatId D (handleIdentity now args chatId)"
proof -
  have s: "answered chatId D (identityShow chatId)" unfolding identityShow_def by (intro answered_query answered_ok assms)
  have a: "answered chatId D (identitySetAgent now as chatId)" for as
  proof -
    have "answered chatId D (bindD (queryD (getAgentIdentity p)) (\<lambda>old. if c old then retD (ok x)
        else bindD (setAgentIdentity now p (r old) (e old) (t old) (i old)) (\<lambda>_. retD (ok y))))"
      if "resolveProfileId chatId D = Some p" "p \<in> profile_ids D" for p c r e t i x y
      using that safe_set_agent [OF that(2)] by (intro answered_query) (simp add: answered_ok answered_safe assms)
    then have "answered chatId D (bindD (queryD (resolveProfileId chatId)) (\<lambda>profileId. case profileId of None \<Rightarrow> retD (ok z)
        | Some p \<Rightarrow> bindD (queryD (getAgentIdentity p)) (\<lambda>old. if c old then retD (ok x)
            else bindD (setAgentIdentity now p (r old) (e old) (t old) (i old)) (\<lambda>_. retD (ok y)))))" for c r e t i x y z
      by (intro answered_profile assms)
    then show ?thesis unfolding identitySetAgent_def Let_def by (simp add: answered_ok assms)
  qed
  have u: "answered chatId D (identitySetUser now as)" for as
    unfolding identitySetUser_def Let_def using assms by (simp add: answered_ok answered_safe safe_update_user)
  show ?thesis unfolding handleIdentity_def Let_def using s a u by (simp add: answered_ok assms)
qed

lemma answered_personality:
  assumes "db_ok D"
  shows "answered chatId D (handlePersonality now args chatId)"
proof -
  have s: "answered chatId D (personalityShow chatId)" unfolding personalityShow_def by (intro answered_query answered_ok assms)
  have each: "safe (Some p) chatId D (eachEntry (setAgentDim now p) es)" if p: "p \<in> profile_ids D" for p es
  proof (rule safe_each)
    have "safe (Some p) chatId D (bindD (observeAgentPersonality now p d x) (\<lambda>_. retD y))" for d x and y :: string
      by (rule hoareD_bind [OF safe_observe_agent [OF p]]) (rule hoareD_ret)
    then show "safe (Some p) chatId D (setAgentDim now p e)" for e
      unfolding setAgentDim_def by (auto intro: hoareD_ret split: option.split)
  qed
  have a: "answered chatId D (personalitySetAgent now as chatId)" for as
  proof -
    have "answered chatId D (bindD (eachEntry (setAgentDim now p) es) (\<lambda>ls. retD (ok (unlines ls))))"
      if "resolveProfileId chatId D = Some p" "p \<in> profile_ids D" for p es
      using that each by (intro answered_safe assms) simp
    then have "answered chatId D (bindD (queryD (resolveProfileId chatId)) (\<lambda>profileId. case profileId of None \<Rightarrow> retD (ok t)
        | Some p \<Rightarrow> bindD (eachEntry (setAgentDim now p) es) (\<lambda>ls. retD (ok (unlines ls)))))" for t es
      by (intro answered_profile assms)
    then show ?thesis unfolding personalitySetAgent_def Let_def by (simp add: answered_ok assms)
  qed
  have "safe po chatId D (bindD (observeUserPersonality now d x src) (\<lambda>_. retD y))" for po d x src and y :: string
    by (rule hoareD_bind [OF safe_observe_user]) (rule hoareD_ret)
  then have "safe po chatId D (setUserDim now e)" for po e
    unfolding setUserDim_def by (auto intro: hoareD_ret split: option.split)
  then have u: "answered chatId D (personalitySetUser now as)" for as
    unfolding personalitySetUser_def Let_def by (simp add: answered_ok answered_safe safe_each assms)
  have ra: "answered chatId D (personalityResetAgent as chatId)" for as
  proof -
    have "answered chatId D (bindD (deleteAgentPersonality p d) (\<lambda>b. retD (ok (t b))))"
      if "resolveProfileId chatId D = Some p" "p \<in> profile_ids D" for p d t
      using that safe_delete_agent [OF that(2)] by (intro answered_safe assms) simp
    then have "answered chatId D (bindD (queryD (resolveProfileId chatId)) (\<lambda>profileId. case profileId of None \<Rightarrow> retD (ok x)
        | Some p \<Rightarrow> bindD (deleteAgentPersonality p d) (\<lambda>b. retD (ok (t b)))))" for x d t
      by (intro answered_profile assms)
    then show ?thesis unfolding personalityResetAgent_def Let_def by (simp add: answered_ok assms split: option.split)
  qed
  have ru: "answered chatId D (personalityResetUser as)" for as
    unfolding personalityResetUser_def Let_def by (simp add: answered_ok answered_safe safe_delete_user assms split: option.split)
  show ?thesis unfolding handlePersonality_def Let_def using s a u ra ru by (simp add: answered_ok assms)
qed

lemma answered_switch:
  assumes "db_ok D"
  shows "answered chatId D (profileSwitch now name chatId)"
proof -
  have keep: "case assignChat now chatId i D of (Inr _, db1) \<Rightarrow> kept po chatId D db1 | (Inl e, db1) \<Rightarrow> kept po chatId D db1" for i po
  proof -
    have "others po D (snd (assignChat now chatId i D))" 
    proof -
      have "keepsOthers po (assignChat now chatId i :: ('a, string) db_op)" by (rule keepsOthers_free)
      then show ?thesis unfolding keepsOthers_def by simp
    qed
    moreover have "db_ok (snd (assignChat now chatId i D))" by (rule assign_ok [OF assms])
    moreover have "c \<in> set (db_chats (snd (assignChat now chatId i D))) \<longleftrightarrow> c \<in> set (db_chats D)" if "ch_id c \<noteq> chatId" for c
      using that by (auto simp: assignChat_def image_iff split: option.split)
    ultimately have "kept po chatId D (snd (assignChat now chatId i D))" unfolding kept_def by blast
    then show ?thesis by (cases "assignChat now chatId i D") (simp split: sum.split)
  qed
  have "answered chatId D (\<lambda>db. case assignChat now chatId i db of (Inr _, db1) \<Rightarrow> (Inr (ok t), db1) | (Inl e, db1) \<Rightarrow> (Inr (ok (t' e)), db1))" for i t t'
  proof -
    obtain x db1 where "assignChat now chatId i D = (x, db1)" by force
    then show ?thesis using keep [where i = i and po = "resolveProfileId chatId D"] unfolding answered_def hoareD_def by (cases x) simp_all
  qed
  then show ?thesis unfolding profileSwitch_def by (intro answered_query) (simp add: answered_ok assms split: option.split)
qed

lemma answered_profiles:
  assumes "db_ok D"
  shows "answered chatId D (handleProfile now args chatId)"
proof -
  have "answered chatId D profileList" "answered chatId D (profileShow chatId)"
    unfolding profileList_def profileShow_def by (intro answered_query answered_ok assms)+
  then show ?thesis unfolding handleProfile_def Let_def using answered_switch [OF assms] by (simp add: answered_ok assms)
qed

text \<open>
  C37. A text whose first word is one of the four commands, in small or capital letters, is handled and answered, in every
  database that satisfies its constraints: no command fails. Every other text is passed on, with nothing changed.
\<close>

theorem commands_answered:
  assumes "db_ok db"
  shows "\<exists>r db'. handle now text chatId db = (Inr r, db') \<and>
    (if \<exists>w ws. tokenize text = w # ws \<and> toLowerCase w \<in> {''/identity'', ''/personality'', ''/profile'', ''/help''}
     then cr_handled r \<and> cr_response r \<noteq> None else r = notHandled \<and> db' = db)"
proof (cases "\<exists>w ws. tokenize text = w # ws \<and> toLowerCase w \<in> {''/identity'', ''/personality'', ''/profile'', ''/help''}")
  case True
  then obtain w ws where t: "tokenize text = w # ws" "toLowerCase w \<in> {''/identity'', ''/personality'', ''/profile'', ''/help''}" by blast
  then have "\<exists>v. w = CHR ''/'' # v" by (auto dest: slash_command)
  then have s: "\<exists>w' ws'. tokenize text = (CHR ''/'' # w') # ws'" using t(1) by blast
  have c: "argAt 0 (tokenize text) = Some (toLowerCase w)" using t(1) by (simp add: argAt_def)
  have "answered chatId db (retD (handleHelp as))" for as
    using answered_ok [OF assms] by (simp add: handleHelp_def Let_def)
  then have "answered chatId db (handle now text chatId)"
    using t(2) answered_identity [OF assms] answered_personality [OF assms] answered_profiles [OF assms]
    unfolding answered_def hoareD_def handle_words Let_def c using s by auto
  then show ?thesis using True unfolding answered_def hoareD_def
    by (cases "handle now text chatId db") (auto split: sum.splits)
next
  case False
  then have "handle now text chatId db = (Inr notHandled, db)"
    unfolding handle_words Let_def argAt_def retD_def by (cases "tokenize text") auto
  then show ?thesis using False by auto
qed

text \<open>
  C38. Whatever is typed in a chat, the constraints of the schema hold afterwards, nothing that belongs to another profile than
  that of the chat has changed, nor any profile, message or session, nor another chat.
\<close>

theorem commands_stay_in_profile:
  assumes "db_ok db" "handle now text chatId db = (r, db')"
  shows "db_ok db' \<and> (\<forall>q. Some q \<noteq> resolveProfileId chatId db \<longrightarrow> view q db' = view q db) \<and> db_profiles db' = db_profiles db \<and>
    db_working db' = db_working db \<and> db_sessions db' = db_sessions db \<and>
    (\<forall>c. ch_id c \<noteq> chatId \<longrightarrow> (c \<in> set (db_chats db') \<longleftrightarrow> c \<in> set (db_chats db)))"
proof -
  have "answered chatId db (handle now text chatId) \<or> handle now text chatId db = (Inr notHandled, db)"
    using answered_identity [OF assms(1)] answered_personality [OF assms(1)] answered_profiles [OF assms(1)] answered_ok [OF assms(1)]
    unfolding handle_words Let_def handleHelp_def by (simp add: retD_def)
  then have "kept (resolveProfileId chatId db) chatId db db'"
    using assms kept_refl [OF assms(1)] unfolding answered_def hoareD_def by (auto split: sum.splits)
  then show ?thesis unfolding kept_def others_def by blast
qed

section \<open>What a command sets is what is shown\<close>

lemma tokenize_command:
  "tokenize (''/identity set user '' @ s) = ''/identity'' # ''set'' # ''user'' # tokenize s"
  "tokenize (''/profile switch '' @ s) = ''/profile'' # ''switch'' # tokenize s"
  using tokenize_word(1) [of "''/identity''" "''set user '' @ s"] tokenize_word(1) [of "''set''" "''user '' @ s"] tokenize_word(1) [of "''user''" s]
    tokenize_word(1) [of "''/profile''" "''switch '' @ s"] tokenize_word(1) [of "''switch''" s]
  by (simp_all add: is_space_def)

lemma lower_names [simp]: "toLowerCase ''/identity'' = ''/identity''" "toLowerCase ''/profile'' = ''/profile''" "toLowerCase ''set'' = ''set''"
    "toLowerCase ''user'' = ''user''" "toLowerCase ''switch'' = ''switch''"
  by code_simp+

lemma set_user_command:
  assumes "fs \<noteq> []" "\<forall>(k, v) \<in> set fs. cleanKey k \<and> cleanValue v" "distinct (map fst fs)"
  shows "handle now (''/identity set user '' @ pairText fs) chatId db =
    (Inr (ok ''User identity updated.''), snd (updateUserIdentity now (userFields fs) db))"
proof -
  have "handle now (''/identity set user '' @ pairText fs) chatId db = identitySetUser now (tokenize (pairText fs)) db"
    unfolding handle_words tokenize_command by (simp add: argAt_def handleIdentity_def blank_def)
  moreover have "parseKeyValuePairs (tokenize (pairText fs)) = fs" by (rule pairs_roundtrip_fields [OF assms(2,3)])
  moreover obtain u db1 where "updateUserIdentity now (userFields fs) db = (Inr u, db1)"
    by (cases "db_user_identity db") (simp_all add: updateUserIdentity_def Let_def)
  ultimately show ?thesis using assms(1) by (simp add: identitySetUser_def bindD_def retD_def)
qed





text \<open>
  Fields that do not exist are acknowledged: a command that names none of name, role, org, timezone and language is answered with
  User identity updated, and changes nothing but the time of the update. The label under which the command to show writes the
  organization is such a name.
\<close>

theorem unknown_fields_acknowledged:
  assumes "fs \<noteq> []" "\<forall>(k, v) \<in> set fs. cleanKey k \<and> cleanValue v" "distinct (map fst fs)"
    and "set (map fst fs) \<inter> {''name'', ''role'', ''org'', ''timezone'', ''language''} = {}" "db_user_identity db = [row]"
  shows "handle now (''/identity set user '' @ pairText fs) chatId db =
    (Inr (ok ''User identity updated.''), db\<lparr>db_user_identity := [row\<lparr>ui_updated_at := now\<rparr>]\<rparr>)"
proof -
  have none: "js_get fs k = None" if "k \<in> {''name'', ''role'', ''org'', ''timezone'', ''language''}" for k
  proof -
    have "k \<notin> set (map fst fs)" using assms(4) that by blast
    then show ?thesis by (simp add: map_of_eq_None_iff)
  qed
  have "row\<lparr>ui_name := ui_name row, ui_role := ui_role row, ui_organization := ui_organization row, ui_timezone := ui_timezone row,
      ui_language := ui_language row, ui_contact := ui_contact row, ui_notes := ui_notes row, ui_updated_at := now\<rparr> = row\<lparr>ui_updated_at := now\<rparr>" by simp
  then show ?thesis unfolding set_user_command [OF assms(1-3)]
    using assms(5) none by (simp add: updateUserIdentity_def userFields_def coalesce_def Let_def)
qed

text \<open>
  A profile whose name has its words one space apart is reached by its name: the chat has it from then on, and commands in the
  chat apply to it.
\<close>

theorem switch_reaches_profile:
  assumes "db_ok db" "p \<in> set (db_profiles db)" "getChat chatId db = Some c" "single_spaced (ap_name p)" "ap_name p \<noteq> []"
  shows "\<exists>db'. handle now (''/profile switch '' @ ap_name p) chatId db = (Inr (ok (''Switched to profile '' @ quote (ap_name p) @ ''.'')), db') \<and>
    getChatProfile chatId db' = Some p \<and> resolveProfileId chatId db' = Some (ap_id p)"
proof -
  have uniq: "distinct (map ap_id (db_profiles db))" "distinct (map ap_name (db_profiles db))"
    using assms(1) by (simp_all add: db_ok_def ids_distinct_def)
  have byName: "getProfileByName (ap_name p) db = Some p" unfolding getProfileByName_def
    by (rule find_unique) (use assms(2) uniq(2) in \<open>auto simp: distinct_map inj_on_def\<close>)
  have byId: "find (\<lambda>r. ap_id r = ap_id p) (db_profiles db) = Some p"
    by (rule find_unique) (use assms(2) uniq(1) in \<open>auto simp: distinct_map inj_on_def\<close>)
  have "trim (join_with '' '' (tokenize (ap_name p))) = ap_name p" using tokenize_join trim_spaced assms(4) by simp
  then have h: "handle now (''/profile switch '' @ ap_name p) chatId db = profileSwitch now (ap_name p) chatId db"
    unfolding handle_words tokenize_command using assms(5) by (simp add: argAt_def handleProfile_def blank_def)
  let ?db = "db\<lparr>db_chats := map (\<lambda>r. if ch_id r = chatId then r\<lparr>ch_profile_id := ap_id p, ch_updated_at := now\<rparr> else r) (db_chats db)\<rparr>"
  have a: "assignChat now chatId (ap_id p) db = (Inr (ch_profile_id c), ?db)"
    using assms(3) byId by (simp add: assignChat_def getProfile_def)
  have "find (\<lambda>r. ch_id r = chatId) (map (\<lambda>r. if ch_id r = chatId then g r else r) cs) = map_option g (find (\<lambda>r. ch_id r = chatId) cs)"
    if "\<And>r. ch_id (g r) = ch_id r" for g :: "ChatRow \<Rightarrow> ChatRow" and cs using that by (induction cs) auto
  then have "getChat chatId ?db = Some (c\<lparr>ch_profile_id := ap_id p, ch_updated_at := now\<rparr>)"
    using assms(3) by (simp add: getChat_def)
  then have "getChatProfile chatId ?db = Some p" using byId by (simp add: getChatProfile_def getProfile_def)
  then show ?thesis using a byName unfolding h profileSwitch_def by (simp add: bindD_simps resolveProfileId_def)
qed

section \<open>Examples\<close>

definition example_chat :: "unit Db" where
  "example_chat = emptyDb\<lparr>
     db_profiles := [\<lparr>ap_id = ''p'', ap_name = ''default'', ap_description = None, ap_is_default = True, ap_created_at = 1, ap_updated_at = 1\<rparr>,
       \<lparr>ap_id = ''q'', ap_name = ''work assistant'', ap_description = None, ap_is_default = False, ap_created_at = 2, ap_updated_at = 2\<rparr>],
     db_chats := [\<lparr>ch_id = ''c'', ch_channel = ''telegram'', ch_external_id = ''1'', ch_name = None, ch_is_group = False, ch_profile_id = ''p'',
       ch_created_at = 1, ch_updated_at = 1\<rparr>],
     db_user_identity := [\<lparr>ui_name = Some ''Stan'', ui_role = None, ui_organization = None, ui_timezone = None, ui_language = Some ''en'',
       ui_contact = [], ui_notes = None, ui_created_at = 1, ui_updated_at = 1\<rparr>]\<rparr>"

lemma example_chat_ok: "db_ok example_chat"
  by code_simp

theorem commands_answered_witness:
  "(\<exists>r db'. handle 5 ''/HELP'' ''c'' example_chat = (Inr r, db') \<and> cr_handled r) \<and>
   handle 5 ''/weather today'' ''c'' example_chat = (Inr notHandled, example_chat)"
proof
  have "tokenize ''/HELP'' = [''/HELP'']" "toLowerCase ''/HELP'' = ''/help''" by code_simp+
  then show "\<exists>r db'. handle 5 ''/HELP'' ''c'' example_chat = (Inr r, db') \<and> cr_handled r"
    using commands_answered [OF example_chat_ok, of 5 "''/HELP''" "''c''"] by auto
  have "tokenize ''/weather today'' = [''/weather'', ''today'']" "toLowerCase ''/weather'' = ''/weather''" by code_simp+
  then show "handle 5 ''/weather today'' ''c'' example_chat = (Inr notHandled, example_chat)"
    using commands_answered [OF example_chat_ok, of 5 "''/weather today''" "''c''"] by auto
qed

theorem commands_stay_in_profile_witness:
  "\<exists>db'. handle 5 ''/personality set agent humor=Dry.'' ''c'' example_chat = (Inr (ok (''Agent personality '' @ quote ''humor'' @ '' updated.'')), db') \<and>
     length (db_personality db') = 1 \<and> view ''q'' db' = view ''q'' example_chat"
proof -
  let ?run = "handle 5 ''/personality set agent humor=Dry.'' ''c'' example_chat"
  have "fst ?run = Inr (ok (''Agent personality '' @ quote ''humor'' @ '' updated.''))" "length (db_personality (snd ?run)) = 1" by code_simp+
  moreover have "resolveProfileId ''c'' example_chat = Some ''p''" by code_simp
  ultimately show ?thesis using commands_stay_in_profile [OF example_chat_ok, of 5 "''/personality set agent humor=Dry.''" "''c''" "fst ?run" "snd ?run"]
    by (cases ?run) auto
qed


theorem unknown_fields_acknowledged_witness:
  "\<exists>db'. handle 5 ''/identity set user organization=Acme'' ''c'' example_chat = (Inr (ok ''User identity updated.''), db') \<and>
     map ui_organization (db_user_identity db') = [None]"
proof -
  let ?fs = "[(''organization'', ''Acme'')]"
  have c: "\<forall>(k, v) \<in> set ?fs. cleanKey k \<and> cleanValue v" by code_simp
  have t: "''/identity set user '' @ pairText ?fs = ''/identity set user organization=Acme''" by (simp add: pairText_def)
  obtain row where row: "db_user_identity example_chat = [row]" "ui_organization row = None" by (simp add: example_chat_def)
  show ?thesis using unknown_fields_acknowledged [OF _ c _ _ row(1), of 5 "''c''"] row(2) unfolding t by simp
qed

theorem switch_reaches_profile_witness:
  "\<exists>db'. handle 5 ''/profile switch work assistant'' ''c'' example_chat = (Inr (ok (''Switched to profile '' @ quote ''work assistant'' @ ''.'')), db') \<and>
     resolveProfileId ''c'' db' = Some ''q''"
proof -
  let ?p = "db_profiles example_chat ! 1" and ?c = "hd (db_chats example_chat)"
  have p: "?p \<in> set (db_profiles example_chat)" "ap_name ?p = ''work assistant''" "ap_id ?p = ''q''" "getChat ''c'' example_chat = Some ?c"
    by (simp_all add: example_chat_def getChat_def)
  have "single_spaced ''work assistant''" by code_simp
  then show ?thesis using switch_reaches_profile [OF example_chat_ok p(1,4), of 5] p(2,3) by auto
qed

end
