(* ===== verification/Spec2Isabelle.thy ===== *)
theory Spec2Isabelle
  imports
    Proxy_Main
    Bridge_Server
    Warm_Lifecycle
    Orchestrator
    Task_Pipeline
    Queue_Refinement
    Port_Registry
    Audit_Log
    Memory_Growth
    Channel_Commands
begin

text \<open>
  A verification development for FlowHelm, a self-hosted assistant whose agents run in containers
  behind a credential-injecting proxy.
\<close>

end
